(* ===== verification/Prelude.thy ===== *)
theory Prelude
  imports Complex_Main "HOL-Library.Word" "HOL-Library.Monad_Syntax"
begin

text \<open>
  The vocabulary every component of the model shares:
  \<^item> the C integer types of \<^verbatim>\<open>c/netcode.c\<close> as words, byte strings as lists, and \<open>dbl\<close>,
    the model of \<^verbatim>\<open>double\<close> and \<^verbatim>\<open>float\<close> (rational numbers: rounding is not modelled);
  \<^item> the constants of \<^verbatim>\<open>c/netcode.h\<close> and of the head of \<^verbatim>\<open>c/netcode.c\<close>;
  \<^item> runs that may abort: a C function that can fail an assertion (or do something the
    C standard leaves undefined, such as reading past a buffer) returns an \<open>option\<close>,
    \<open>None\<close> being the abort. \<open>runs m Q\<close> says that the run \<open>m\<close> does not abort and that its
    result satisfies \<open>Q\<close>; the rules for it are collected in \<open>runs_simps\<close>;
  \<^item> C functions that report \<^verbatim>\<open>NETCODE_OK\<close> or \<^verbatim>\<open>NETCODE_ERROR\<close>: the type \<open>c_result\<close>;
  \<^item> generic facts on lists used as C arrays, and the early-return search loop.
\<close>

unbundle bit_operations_syntax

section \<open>Types\<close>

type_synonym byte = "8 word"
type_synonym u16 = "16 word"
type_synonym u32 = "32 word"
type_synonym u64 = "64 word"
type_synonym bytes = "byte list"
type_synonym dbl = rat

datatype 'a c_result = NETCODE_OK 'a | NETCODE_ERROR

section \<open>Constants\<close>

abbreviation (input) NETCODE_CONNECT_TOKEN_BYTES :: nat where "NETCODE_CONNECT_TOKEN_BYTES \<equiv> 2048"
abbreviation (input) NETCODE_KEY_BYTES :: nat where "NETCODE_KEY_BYTES \<equiv> 32"
abbreviation (input) NETCODE_MAC_BYTES :: nat where "NETCODE_MAC_BYTES \<equiv> 16"
abbreviation (input) NETCODE_MAX_SERVERS_PER_CONNECT :: nat where "NETCODE_MAX_SERVERS_PER_CONNECT \<equiv> 32"
abbreviation (input) NETCODE_MAX_CLIENTS :: nat where "NETCODE_MAX_CLIENTS \<equiv> 256"
abbreviation (input) NETCODE_MAX_PACKET_SIZE :: nat where "NETCODE_MAX_PACKET_SIZE \<equiv> 1200"
abbreviation (input) NETCODE_CONNECT_TOKEN_PRIVATE_BYTES :: nat where
  "NETCODE_CONNECT_TOKEN_PRIVATE_BYTES \<equiv> 1024"
abbreviation (input) NETCODE_CHALLENGE_TOKEN_BYTES :: nat where "NETCODE_CHALLENGE_TOKEN_BYTES \<equiv> 300"
abbreviation (input) NETCODE_VERSION_INFO_BYTES :: nat where "NETCODE_VERSION_INFO_BYTES \<equiv> 13"
abbreviation (input) NETCODE_USER_DATA_BYTES :: nat where "NETCODE_USER_DATA_BYTES \<equiv> 256"
abbreviation (input) NETCODE_MAX_PACKET_BYTES :: nat where "NETCODE_MAX_PACKET_BYTES \<equiv> 1220"
abbreviation (input) NETCODE_MAX_PAYLOAD_BYTES :: nat where "NETCODE_MAX_PAYLOAD_BYTES \<equiv> 1200"
abbreviation (input) NETCODE_MAX_ADDRESS_STRING_LENGTH :: nat where
  "NETCODE_MAX_ADDRESS_STRING_LENGTH \<equiv> 256"
abbreviation (input) NETCODE_PACKET_QUEUE_SIZE :: nat where "NETCODE_PACKET_QUEUE_SIZE \<equiv> 256"
abbreviation (input) NETCODE_REPLAY_PROTECTION_BUFFER_SIZE :: nat where
  "NETCODE_REPLAY_PROTECTION_BUFFER_SIZE \<equiv> 256"
abbreviation (input) NETCODE_CLIENT_MAX_RECEIVE_PACKETS :: nat where
  "NETCODE_CLIENT_MAX_RECEIVE_PACKETS \<equiv> 64"
abbreviation (input) NETCODE_SERVER_MAX_RECEIVE_PACKETS :: nat where
  "NETCODE_SERVER_MAX_RECEIVE_PACKETS \<equiv> 64 * NETCODE_MAX_CLIENTS"
abbreviation (input) NETCODE_PACKET_SEND_RATE :: dbl where "NETCODE_PACKET_SEND_RATE \<equiv> 10"
abbreviation (input) NETCODE_NUM_DISCONNECT_PACKETS :: nat where "NETCODE_NUM_DISCONNECT_PACKETS \<equiv> 10"

text \<open>\<^verbatim>\<open>NETCODE_VERSION_INFO\<close>: the thirteen bytes of \<open>''NETCODE 1.01''\<close> with its terminator.\<close>

definition NETCODE_VERSION_INFO :: bytes where
  "NETCODE_VERSION_INFO = [78, 69, 84, 67, 79, 68, 69, 32, 49, 46, 48, 49, 0]"

lemma length_VERSION_INFO [simp]: "length NETCODE_VERSION_INFO = 13"
  by (simp add: NETCODE_VERSION_INFO_def)

section \<open>Runs that may abort\<close>

definition c_assert :: "bool \<Rightarrow> unit option" where
  "c_assert b = (if b then Some () else None)"

definition runs :: "'a option \<Rightarrow> ('a \<Rightarrow> bool) \<Rightarrow> bool" where
  "runs m Q \<longleftrightarrow> (case m of None \<Rightarrow> False | Some x \<Rightarrow> Q x)"

named_theorems runs_simps "how runs passes through the constructs of a C function body"

lemma runs_Some [simp, runs_simps]: "runs (Some x) Q = Q x"
  by (simp add: runs_def)

lemma runs_None [simp, runs_simps]: "runs None Q = False"
  by (simp add: runs_def)

lemma runs_bind [runs_simps]: "runs (m \<bind> f) Q = runs m (\<lambda>x. runs (f x) Q)"
  by (cases m) auto

lemma runs_assert [runs_simps]: "runs (c_assert b) Q = (b \<and> Q ())"
  by (simp add: c_assert_def)

lemma runs_if [runs_simps]: "runs (if b then m else n) Q = (if b then runs m Q else runs n Q)"
  by simp

lemma runs_Let [runs_simps]: "runs (Let x f) Q = runs (f x) Q"
  by simp

lemma runs_mono: "runs m P \<Longrightarrow> (\<And>x. P x \<Longrightarrow> Q x) \<Longrightarrow> runs m Q"
  by (cases m) auto

lemma runs_conj: "runs m P \<Longrightarrow> runs m Q \<Longrightarrow> runs m (\<lambda>x. P x \<and> Q x)"
  by (cases m) auto

lemma runs_SomeD: "runs m Q \<Longrightarrow> m = Some x \<Longrightarrow> Q x"
  by simp

lemma runs_True: "runs m (\<lambda>_. True) \<longleftrightarrow> m \<noteq> None"
  by (cases m) auto

lemma runs_not_None: "runs m Q \<Longrightarrow> m \<noteq> None"
  by (cases m) auto

lemma runs_ex: "runs m Q \<longleftrightarrow> (\<exists>x. m = Some x \<and> Q x)"
  by (cases m) auto

lemma runsE:
  assumes "runs m Q"
  obtains x where "m = Some x" and "Q x"
  using assms by (auto simp: runs_ex)

lemma c_assert_Some [simp]: "c_assert b = Some u \<longleftrightarrow> b"
  by (simp add: c_assert_def)

lemma c_assert_bind_Some [simp]: "c_assert b \<bind> f = Some y \<longleftrightarrow> b \<and> f () = Some y"
  by (simp add: c_assert_def)

lemma c_assert_True [simp]: "c_assert True \<bind> f = f ()"
  by (simp add: c_assert_def)

section \<open>Arrays\<close>

text \<open>Reading an array at an index the code does not check: out of range aborts the run.\<close>

definition array_get :: "'a list \<Rightarrow> nat \<Rightarrow> 'a option" where
  "array_get xs i = (if i < length xs then Some (xs ! i) else None)"

lemma array_get_Some [simp]: "array_get xs i = Some x \<longleftrightarrow> i < length xs \<and> x = xs ! i"
  by (auto simp: array_get_def)

lemma runs_array_get [runs_simps]: "runs (array_get xs i) Q = (i < length xs \<and> Q (xs ! i))"
  by (simp add: array_get_def)

text \<open>The loop \<^verbatim>\<open>for ( i = 0; i < n; ++i ) if ( p( i ) ) return i;\<close>.\<close>

fun first_index_from :: "(nat \<Rightarrow> bool) \<Rightarrow> nat \<Rightarrow> nat \<Rightarrow> nat option" where
  "first_index_from p i 0 = None"
| "first_index_from p i (Suc k) = (if p i then Some i else first_index_from p (Suc i) k)"

definition first_index :: "(nat \<Rightarrow> bool) \<Rightarrow> nat \<Rightarrow> nat option" where
  "first_index p n = first_index_from p 0 n"

lemma first_index_from_Some:
  "first_index_from p i k = Some j \<longleftrightarrow> i \<le> j \<and> j < i + k \<and> p j \<and> (\<forall>m. i \<le> m \<and> m < j \<longrightarrow> \<not> p m)"
proof (induction k arbitrary: i)
  case 0
  then show ?case by simp
next
  case (Suc k)
  show ?case
  proof (cases "p i")
    case True
    then show ?thesis by (auto simp: le_less)
  next
    case False
    have "\<And>m. i \<le> m \<longleftrightarrow> m = i \<or> Suc i \<le> m" by auto
    with False Suc.IH [of "Suc i"] show ?thesis by auto
  qed
qed

lemma first_index_from_None:
  "first_index_from p i k = None \<longleftrightarrow> (\<forall>m. i \<le> m \<and> m < i + k \<longrightarrow> \<not> p m)"
proof (induction k arbitrary: i)
  case 0
  show ?case by auto
next
  case (Suc k)
  have "\<And>m. i \<le> m \<longleftrightarrow> m = i \<or> Suc i \<le> m" by auto
  with Suc.IH [of "Suc i"] show ?case by auto
qed

lemma first_index_Some:
  "first_index p n = Some j \<longleftrightarrow> j < n \<and> p j \<and> (\<forall>m < j. \<not> p m)"
  by (simp add: first_index_def first_index_from_Some)

lemma first_index_None: "first_index p n = None \<longleftrightarrow> (\<forall>m < n. \<not> p m)"
  by (simp add: first_index_def first_index_from_None)

lemma first_index_SomeD: "first_index p n = Some j \<Longrightarrow> j < n \<and> p j"
  by (simp add: first_index_Some)

text \<open>The loop \<^verbatim>\<open>for ( ; k > 0; ++i, --k ) ys[i] = xs[i];\<close>.\<close>

fun overwrite :: "nat \<Rightarrow> nat \<Rightarrow> 'a list \<Rightarrow> 'a list \<Rightarrow> 'a list" where
  "overwrite 0 i xs ys = ys"
| "overwrite (Suc k) i xs ys = overwrite k (Suc i) xs (ys[i := xs ! i])"

lemma length_overwrite [simp]: "length (overwrite k i xs ys) = length ys"
  by (induction k arbitrary: i ys) auto

lemma nth_overwrite:
  "j < length ys \<Longrightarrow> overwrite k i xs ys ! j = (if i \<le> j \<and> j < i + k then xs ! j else ys ! j)"
proof (induction k arbitrary: i ys)
  case 0
  then show ?case by auto
next
  case (Suc k)
  then show ?case by (cases "i = j") auto
qed

lemma overwrite_prefix:
  assumes "length xs = length ys" and "\<And>j. k \<le> j \<Longrightarrow> j < length ys \<Longrightarrow> ys ! j = xs ! j"
  shows "overwrite k 0 xs ys = xs"
  by (rule nth_equalityI) (use assms in \<open>auto simp: nth_overwrite\<close>)

section \<open>C integers\<close>

text \<open>The range of \<^verbatim>\<open>int\<close>, and the round trip of an \<^verbatim>\<open>int\<close> through \<^verbatim>\<open>uint32_t\<close>.\<close>

definition int32 :: "int \<Rightarrow> bool" where
  "int32 t \<longleftrightarrow> - (2 ^ 31) \<le> t \<and> t < 2 ^ 31"

lemma sint_of_int32 [simp]: "int32 t \<Longrightarrow> sint (word_of_int t :: u32) = t"
  unfolding int32_def by (simp add: signed_of_int signed_take_bit_int_eq_self)

lemma int32_sint [simp]: "int32 (sint (w :: u32))"
  unfolding int32_def using sint_greater_eq [of w] sint_less [of w] by simp

section \<open>Ring buffer indices\<close>

lemma same_residue_gap:
  assumes "(a :: nat) mod 256 = b mod 256" and "b < a" shows "b + 256 \<le> a"
proof -
  have "256 dvd a - b" using assms by (simp add: mod_eq_dvd_iff_nat)
  then have "256 \<le> a - b" using assms(2) by (intro dvd_imp_le) auto
  then show ?thesis by simp
qed

lemma ring_distinct:
  assumes "i < 256" and "j < 256" and "(s + i) mod 256 = (s + j :: nat) mod 256"
  shows "i = j"
  using assms same_residue_gap [of "s + i" "s + j"] same_residue_gap [of "s + j" "s + i"] by linarith

lemma ring_next: "(Suc s mod 256 + i) mod 256 = (s + Suc i) mod 256"
  by (simp add: mod_add_left_eq)

end
