(* ===== verification/Memory.thy ===== *)
theory Memory
  imports Prelude
begin

text \<open>
  The allocator: \<^verbatim>\<open>allocate_function\<close> and \<^verbatim>\<open>free_function\<close>, be they the defaults (\<^verbatim>\<open>malloc\<close> and \<^verbatim>\<open>free\<close>)
  or the user's. A heap is a finite map from block numbers to contents; \<open>NULL\<close> is \<open>None\<close>. An
  allocation either returns a block that was never handed out before, or \<open>NULL\<close>: which of the two is decided by the
  arbitrary predicate \<open>h_out_of_memory\<close> on the number of the allocation. Freeing \<open>NULL\<close> does nothing; freeing a
  block that is not live (a double free) aborts the run.
\<close>

record 'b heap =
  h_blocks :: "nat \<rightharpoonup> 'b"
  h_next :: nat
  h_out_of_memory :: "nat \<Rightarrow> bool"

definition netcode_default_allocate_function :: "'b \<Rightarrow> 'b heap \<Rightarrow> nat option \<times> 'b heap" where
  "netcode_default_allocate_function contents h =
     (if h_out_of_memory h (h_next h) then (None, h\<lparr>h_next := h_next h + 1\<rparr>)
      else (Some (h_next h),
        h\<lparr>h_blocks := (h_blocks h)(h_next h \<mapsto> contents), h_next := h_next h + 1\<rparr>))"

fun netcode_default_free_function :: "nat option \<Rightarrow> 'b heap \<Rightarrow> 'b heap option" where
  "netcode_default_free_function None h = Some h"
| "netcode_default_free_function (Some ptr) h =
     (if ptr \<in> dom (h_blocks h) then Some (h\<lparr>h_blocks := (h_blocks h)(ptr := None)\<rparr>) else None)"

text \<open>Filling a block that was just allocated.\<close>

definition heap_store :: "nat \<Rightarrow> 'b \<Rightarrow> 'b heap \<Rightarrow> 'b heap" where
  "heap_store ptr contents h = h\<lparr>h_blocks := (h_blocks h)(ptr \<mapsto> contents)\<rparr>"

section \<open>Live blocks\<close>

definition live :: "'b heap \<Rightarrow> nat set" where
  "live h = dom (h_blocks h)"

definition heap_inv :: "'b heap \<Rightarrow> bool" where
  "heap_inv h \<longleftrightarrow> (\<forall>p \<in> live h. p < h_next h)"

lemma allocate_cases:
  assumes "netcode_default_allocate_function b h = (ptr, h')"
  obtains (fails) "ptr = None" and "live h' = live h" and "h_blocks h' = h_blocks h"
      and "h_next h' = h_next h + 1"
    | (succeeds) "ptr = Some (h_next h)" and "live h' = insert (h_next h) (live h)"
      and "h_blocks h' = (h_blocks h)(h_next h \<mapsto> b)" and "h_next h' = h_next h + 1"
  using assms by (auto simp: netcode_default_allocate_function_def live_def split: if_splits)

lemma allocate_inv:
  "heap_inv h \<Longrightarrow> netcode_default_allocate_function b h = (ptr, h') \<Longrightarrow> heap_inv h'"
  by (auto simp: netcode_default_allocate_function_def heap_inv_def live_def less_Suc_eq
      split: if_splits)

lemma fresh_not_live: "heap_inv h \<Longrightarrow> h_next h \<notin> live h"
  by (auto simp: heap_inv_def)

lemma runs_free [runs_simps]:
  "runs (netcode_default_free_function (Some ptr) h) Q \<longleftrightarrow>
   ptr \<in> live h \<and> Q (h\<lparr>h_blocks := (h_blocks h)(ptr := None)\<rparr>)"
  by (simp add: live_def)

lemma live_free [simp]: "live (h\<lparr>h_blocks := (h_blocks h)(ptr := None)\<rparr>) = live h - {ptr}"
  by (auto simp: live_def)

lemma live_store [simp]: "live (heap_store ptr b h) = insert ptr (live h)"
  by (simp add: live_def heap_store_def)

lemma heap_inv_free: "heap_inv h \<Longrightarrow> heap_inv (h\<lparr>h_blocks := (h_blocks h)(ptr := None)\<rparr>)"
  by (auto simp: heap_inv_def)

declare netcode_default_free_function.simps(2) [simp del]

text \<open>Freeing several blocks.\<close>

definition release :: "nat list \<Rightarrow> 'b heap \<Rightarrow> 'b heap" where
  "release ptrs h = h\<lparr>h_blocks := h_blocks h |` (- set ptrs)\<rparr>"

lemma live_release [simp]: "live (release ptrs h) = live h - set ptrs"
  by (auto simp: live_def release_def)

lemma h_next_release [simp]: "h_next (release ptrs h) = h_next h"
  by (simp add: release_def)

lemma release_blocks [simp]: "p \<notin> set ps \<Longrightarrow> h_blocks (release ps h) p = h_blocks h p"
  by (simp add: release_def)

lemma release_oom [simp]: "h_out_of_memory (release ps h) = h_out_of_memory h"
  by (simp add: release_def)

lemma release_Nil [simp]: "release [] h = h"
  by (cases h) (simp add: release_def restrict_map_def)

lemma release_release: "release qs (release ps h) = release (ps @ qs) h"
  by (auto simp: release_def Int_commute intro!: arg_cong [where f = "\<lambda>b. h\<lparr>h_blocks := b\<rparr>"])

lemma free_live: "ptr \<in> live h \<Longrightarrow> netcode_default_free_function (Some ptr) h = Some (release [ptr] h)"
  by (simp add: netcode_default_free_function.simps(2) live_def release_def restrict_complement_singleton_eq)

lemma free_dead: "ptr \<notin> live h \<Longrightarrow> netcode_default_free_function (Some ptr) h = None"
  by (auto simp: netcode_default_free_function.simps(2) live_def)

lemma heap_inv_release: "heap_inv h \<Longrightarrow> heap_inv (release ptrs h)"
  by (auto simp: heap_inv_def)

end

