(* ===== verification/Wire.thy ===== *)
theory Wire
  imports Prelude
begin

text \<open>
  The serialisation primitives of \<^verbatim>\<open>c/netcode.c\<close>: \<^verbatim>\<open>netcode_write_*\<close> and \<^verbatim>\<open>netcode_read_*\<close>.
  A writer is the list of the bytes between the start of the buffer and the cursor
  \<^verbatim>\<open>*p\<close>; a write appends to it, so \<^verbatim>\<open>buffer - start\<close> is its length. A reader is the list of the
  bytes from the cursor to the end of the buffer; a read past the end is an abort.
  The locale \<open>codec\<close> states what a pair of a writer and a reader promises, and proves the
  round trip of a counted sequence of such values once, for every element type that the
  program writes in a loop.
\<close>

section \<open>Writers\<close>

definition netcode_write_uint8 :: "bytes \<Rightarrow> byte \<Rightarrow> bytes" where
  "netcode_write_uint8 p value = p @ [value]"

definition netcode_write_uint16 :: "bytes \<Rightarrow> u16 \<Rightarrow> bytes" where
  "netcode_write_uint16 p value = p @ [ucast (value AND 0xFF), ucast (drop_bit 8 value)]"

definition netcode_write_uint32 :: "bytes \<Rightarrow> u32 \<Rightarrow> bytes" where
  "netcode_write_uint32 p value = p @
     [ucast (value AND 0xFF), ucast (drop_bit 8 value AND 0xFF),
      ucast (drop_bit 16 value AND 0xFF), ucast (drop_bit 24 value)]"

definition netcode_write_uint64 :: "bytes \<Rightarrow> u64 \<Rightarrow> bytes" where
  "netcode_write_uint64 p value = p @
     [ucast (value AND 0xFF), ucast (drop_bit 8 value AND 0xFF),
      ucast (drop_bit 16 value AND 0xFF), ucast (drop_bit 24 value AND 0xFF),
      ucast (drop_bit 32 value AND 0xFF), ucast (drop_bit 40 value AND 0xFF),
      ucast (drop_bit 48 value AND 0xFF), ucast (drop_bit 56 value)]"

text \<open>The loop over \<^verbatim>\<open>num_bytes\<close> bytes of an array (the whole array, at every call).\<close>

fun netcode_write_bytes :: "bytes \<Rightarrow> bytes \<Rightarrow> bytes" where
  "netcode_write_bytes p [] = p"
| "netcode_write_bytes p (b # bs) = netcode_write_bytes (netcode_write_uint8 p b) bs"

section \<open>Readers\<close>

fun netcode_read_uint8 :: "bytes \<Rightarrow> (byte \<times> bytes) option" where
  "netcode_read_uint8 (b # p) = Some (b, p)"
| "netcode_read_uint8 [] = None"

fun netcode_read_uint16 :: "bytes \<Rightarrow> (u16 \<times> bytes) option" where
  "netcode_read_uint16 (b0 # b1 # p) = Some (ucast b0 OR push_bit 8 (ucast b1), p)"
| "netcode_read_uint16 _ = None"

fun netcode_read_uint32 :: "bytes \<Rightarrow> (u32 \<times> bytes) option" where
  "netcode_read_uint32 (b0 # b1 # b2 # b3 # p) =
     Some (ucast b0 OR push_bit 8 (ucast b1) OR push_bit 16 (ucast b2) OR push_bit 24 (ucast b3), p)"
| "netcode_read_uint32 _ = None"

fun netcode_read_uint64 :: "bytes \<Rightarrow> (u64 \<times> bytes) option" where
  "netcode_read_uint64 (b0 # b1 # b2 # b3 # b4 # b5 # b6 # b7 # p) =
     Some (ucast b0 OR push_bit 8 (ucast b1) OR push_bit 16 (ucast b2) OR push_bit 24 (ucast b3)
       OR push_bit 32 (ucast b4) OR push_bit 40 (ucast b5) OR push_bit 48 (ucast b6)
       OR push_bit 56 (ucast b7), p)"
| "netcode_read_uint64 _ = None"

fun netcode_read_bytes :: "nat \<Rightarrow> bytes \<Rightarrow> (bytes \<times> bytes) option" where
  "netcode_read_bytes 0 p = Some ([], p)"
| "netcode_read_bytes (Suc n) p =
     do { (b, p) \<leftarrow> netcode_read_uint8 p;
          (bs, p) \<leftarrow> netcode_read_bytes n p;
          Some (b # bs, p) }"

section \<open>Writers append\<close>

named_theorems wire_simps "normal forms of the writers and what the readers make of them"

lemma write_bytes_append [wire_simps]: "netcode_write_bytes p bs = p @ bs"
  by (induction bs arbitrary: p) (auto simp: netcode_write_uint8_def)

lemma write_uint8_append: "netcode_write_uint8 p v = p @ netcode_write_uint8 [] v"
  by (simp add: netcode_write_uint8_def)

lemma write_uint16_append: "netcode_write_uint16 p v = p @ netcode_write_uint16 [] v"
  by (simp add: netcode_write_uint16_def)

lemma write_uint32_append: "netcode_write_uint32 p v = p @ netcode_write_uint32 [] v"
  by (simp add: netcode_write_uint32_def)

lemma write_uint64_append: "netcode_write_uint64 p v = p @ netcode_write_uint64 [] v"
  by (simp add: netcode_write_uint64_def)

lemma length_writers [simp]:
  "length (netcode_write_uint8 p a) = length p + 1"
  "length (netcode_write_uint16 p b) = length p + 2"
  "length (netcode_write_uint32 p c) = length p + 4"
  "length (netcode_write_uint64 p d) = length p + 8"
  "length (netcode_write_bytes p bs) = length p + length bs"
  by (simp_all add: netcode_write_uint8_def netcode_write_uint16_def netcode_write_uint32_def
      netcode_write_uint64_def write_bytes_append)

section \<open>Readers undo writers\<close>

lemma read_write_uint8 [simp]:
  "netcode_read_uint8 (netcode_write_uint8 [] v @ rest) = Some (v, rest)"
  by (simp add: netcode_write_uint8_def)

text \<open>
  A byte cut out of a word at bit \<open>k\<close> and put back at bit \<open>k\<close> extends the low \<open>k\<close> bits of the
  word to its low \<open>k + 8\<close> bits; \<^verbatim>\<open>& 0xFF\<close> is absorbed by the conversion to a byte.
\<close>

lemma mask_255: "(255 :: 'a::len word) = mask 8"
  by (simp add: mask_eq_exp_minus_1)

lemma to_byte_mask: "ucast (v AND 0xFF :: 'a::len word) = (ucast v :: byte)"
  by (rule bit_word_eqI) (auto simp: mask_255 bit_simps dest: bit_imp_le_length)

lemma byte_at_0: "ucast (ucast v :: byte) = take_bit 8 (v :: 'a::len word)"
  by (rule bit_word_eqI) (auto simp: bit_simps)

lemma byte_at:
  "take_bit k v OR push_bit k (take_bit 8 (drop_bit k v)) = take_bit (k + 8) (v :: 'a::len word)"
proof (rule bit_word_eqI)
  fix n assume "n < LENGTH('a)"
  then show "bit (take_bit k v OR push_bit k (take_bit 8 (drop_bit k v))) n
      = bit (take_bit (k + 8) v) n"
    by (cases "n < k") (auto simp: bit_simps)
qed

lemmas byte_join = byte_at_0 byte_at [where k = 8, simplified] byte_at [where k = 16, simplified]
  byte_at [where k = 24, simplified] byte_at [where k = 32, simplified]
  byte_at [where k = 40, simplified] byte_at [where k = 48, simplified]
  byte_at [where k = 56, simplified]

lemma take_bit_whole:
  "take_bit 16 (a :: u16) = a" "take_bit 32 (b :: u32) = b" "take_bit 64 (c :: u64) = c"
  by (rule bit_word_eqI, simp add: bit_simps)+

lemma read_write_uint16 [simp]:
  "netcode_read_uint16 (netcode_write_uint16 [] v @ rest) = Some (v, rest)"
  by (simp add: netcode_write_uint16_def to_byte_mask byte_join take_bit_whole)

lemma read_write_uint32 [simp]:
  "netcode_read_uint32 (netcode_write_uint32 [] v @ rest) = Some (v, rest)"
  by (simp add: netcode_write_uint32_def to_byte_mask byte_join take_bit_whole flip: or.assoc)

lemma read_write_uint64 [simp]:
  "netcode_read_uint64 (netcode_write_uint64 [] v @ rest) = Some (v, rest)"
  by (simp add: netcode_write_uint64_def to_byte_mask byte_join take_bit_whole flip: or.assoc)

lemma read_bytes_take:
  "netcode_read_bytes n p = (if n \<le> length p then Some (take n p, drop n p) else None)"
proof (induction n arbitrary: p)
  case 0
  then show ?case by simp
next
  case (Suc n)
  then show ?case by (cases p) auto
qed

lemma read_write_bytes [simp]:
  "n = length bs \<Longrightarrow> netcode_read_bytes n (bs @ rest) = Some (bs, rest)"
  by (simp add: read_bytes_take)

lemmas read_write_end [simp] =
  read_write_uint8 [where rest = "[]", simplified] read_write_uint16 [where rest = "[]", simplified]
  read_write_uint32 [where rest = "[]", simplified] read_write_uint64 [where rest = "[]", simplified]
  read_write_bytes [where rest = "[]", simplified]

section \<open>Codecs\<close>

text \<open>
  The loops \<^verbatim>\<open>for ( j = 0; j < n; ++j ) netcode_write_X( &buffer, xs[j] )\<close> and
  \<^verbatim>\<open>for ( j = 0; j < n; ++j ) xs[j] = netcode_read_X( &buffer )\<close>, over any element.
\<close>

fun write_each :: "(bytes \<Rightarrow> 'v \<Rightarrow> bytes) \<Rightarrow> bytes \<Rightarrow> 'v list \<Rightarrow> bytes" where
  "write_each put p [] = p"
| "write_each put p (v # vs) = write_each put (put p v) vs"

fun read_each :: "(bytes \<Rightarrow> ('v \<times> bytes) option) \<Rightarrow> nat \<Rightarrow> bytes \<Rightarrow> ('v list \<times> bytes) option" where
  "read_each get 0 p = Some ([], p)"
| "read_each get (Suc n) p =
     do { (v, p) \<leftarrow> get p;
          (vs, p) \<leftarrow> read_each get n p;
          Some (v # vs, p) }"

locale codec =
  fixes put :: "bytes \<Rightarrow> 'v \<Rightarrow> bytes"
    and get :: "bytes \<Rightarrow> ('v \<times> bytes) option"
    and valid :: "'v \<Rightarrow> bool"
  assumes put_append: "put p v = p @ put [] v"
    and get_put: "valid v \<Longrightarrow> get (put [] v @ rest) = Some (v, rest)"
begin

lemma write_each_append: "write_each put p vs = p @ write_each put [] vs"
proof (induction vs arbitrary: p)
  case Nil
  show ?case by simp
next
  case (Cons v vs)
  have "write_each put (put p v) vs = put p v @ write_each put [] vs" by (rule Cons.IH)
  also have "\<dots> = p @ (put [] v @ write_each put [] vs)" by (simp add: put_append [of p])
  also have "put [] v @ write_each put [] vs = write_each put (put [] v) vs"
    by (rule Cons.IH [symmetric])
  finally show ?case by simp
qed

lemma write_each_Cons: "write_each put [] (v # vs) = put [] v @ write_each put [] vs"
  by (simp add: write_each_append [of "put [] v"])

lemma read_write_each:
  "list_all valid vs \<Longrightarrow> n = length vs \<Longrightarrow>
   read_each get n (write_each put [] vs @ rest) = Some (vs, rest)"
proof (induction vs arbitrary: n)
  case Nil
  then show ?case by simp
next
  case (Cons v vs)
  then show ?case by (simp add: write_each_Cons get_put del: write_each.simps)
qed

end

text \<open>A codec of a fixed width also says exactly when a read stays inside the buffer.\<close>

locale fixed_codec = codec +
  fixes width :: nat
  assumes length_put: "length (put [] v) = width"
    and get_None: "get p = None \<longleftrightarrow> length p < width"
    and get_rest: "get p = Some (v, q) \<Longrightarrow> q = drop width p"
begin

lemma length_write_each: "length (write_each put [] vs) = width * length vs"
  by (induction vs) (auto simp: write_each_Cons length_put simp del: write_each.simps(2))

lemma read_each_in_bounds:
  "width * n \<le> length p \<Longrightarrow> \<exists>vs. read_each get n p = Some (vs, drop (width * n) p) \<and> length vs = n"
proof (induction n arbitrary: p)
  case 0
  then show ?case by simp
next
  case (Suc n)
  from Suc.prems have "get p \<noteq> None" by (simp add: get_None)
  then obtain v q where v: "get p = Some (v, q)" by auto
  then have q: "q = drop width p" by (rule get_rest)
  from Suc.prems have "width * n \<le> length q" by (simp add: q)
  then obtain vs where "read_each get n q = Some (vs, drop (width * n) q)" and "length vs = n"
    using Suc.IH by blast
  with v q show ?case by (simp add: add.commute)
qed

end

lemma read_uint8_shape: "netcode_read_uint8 p = Some (v, q) \<Longrightarrow> q = drop 1 p"
  by (cases p rule: netcode_read_uint8.cases) auto

lemma read_uint16_shape: "netcode_read_uint16 p = Some (v, q) \<Longrightarrow> q = drop 2 p"
  by (cases p rule: netcode_read_uint16.cases) auto

lemma read_uint32_shape: "netcode_read_uint32 p = Some (v, q) \<Longrightarrow> q = drop 4 p"
  by (cases p rule: netcode_read_uint32.cases) auto

lemma read_uint64_shape: "netcode_read_uint64 p = Some (v, q) \<Longrightarrow> q = drop 8 p"
  by (cases p rule: netcode_read_uint64.cases) auto

lemma read_uint8_None: "netcode_read_uint8 p = None \<longleftrightarrow> length p < 1"
  by (cases p rule: netcode_read_uint8.cases) auto

lemma read_uint16_None: "netcode_read_uint16 p = None \<longleftrightarrow> length p < 2"
  by (cases p rule: netcode_read_uint16.cases) auto

lemma read_uint32_None: "netcode_read_uint32 p = None \<longleftrightarrow> length p < 4"
  by (cases p rule: netcode_read_uint32.cases) auto

lemma read_uint64_None: "netcode_read_uint64 p = None \<longleftrightarrow> length p < 8"
  by (cases p rule: netcode_read_uint64.cases) auto

interpretation u8_codec: fixed_codec netcode_write_uint8 netcode_read_uint8 "\<lambda>_. True" 1
  by unfold_locales
    (auto intro: write_uint8_append simp: read_uint8_None dest: read_uint8_shape)

interpretation u16_codec: fixed_codec netcode_write_uint16 netcode_read_uint16 "\<lambda>_. True" 2
  by unfold_locales
    (auto intro: write_uint16_append simp: read_uint16_None dest: read_uint16_shape)

interpretation u32_codec: fixed_codec netcode_write_uint32 netcode_read_uint32 "\<lambda>_. True" 4
  by unfold_locales
    (auto intro: write_uint32_append simp: read_uint32_None dest: read_uint32_shape)

interpretation u64_codec: fixed_codec netcode_write_uint64 netcode_read_uint64 "\<lambda>_. True" 8
  by unfold_locales
    (auto intro: write_uint64_append simp: read_uint64_None dest: read_uint64_shape)

lemma read_write_arrays [simp]:
  "n = length xs \<Longrightarrow> read_each netcode_read_uint8 n (write_each netcode_write_uint8 [] xs @ rest) = Some (xs, rest)"
  "n = length ys \<Longrightarrow> read_each netcode_read_uint16 n (write_each netcode_write_uint16 [] ys @ rest) = Some (ys, rest)"
  by (simp_all add: u8_codec.read_write_each u16_codec.read_write_each list_all_iff)

lemma length_write_arrays [simp]:
  "length (write_each netcode_write_uint8 [] xs) = length xs"
  "length (write_each netcode_write_uint16 [] ys) = 2 * length ys"
  by (simp_all add: u8_codec.length_write_each u16_codec.length_write_each)

text \<open>
  The normal form of a writer: what was there, followed by the bytes of the value. The guard
  keeps the rule from applying to its own right-hand side.
\<close>

lemma write_normal [wire_simps]:
  "NO_MATCH [] p \<Longrightarrow> netcode_write_uint8 p a = p @ netcode_write_uint8 [] a"
  "NO_MATCH [] p \<Longrightarrow> netcode_write_uint16 p b = p @ netcode_write_uint16 [] b"
  "NO_MATCH [] p \<Longrightarrow> netcode_write_uint32 p c = p @ netcode_write_uint32 [] c"
  "NO_MATCH [] p \<Longrightarrow> netcode_write_uint64 p d = p @ netcode_write_uint64 [] d"
  "NO_MATCH [] p \<Longrightarrow> write_each netcode_write_uint8 p xs = p @ write_each netcode_write_uint8 [] xs"
  "NO_MATCH [] p \<Longrightarrow> write_each netcode_write_uint16 p ys = p @ write_each netcode_write_uint16 [] ys"
  by (rule write_uint8_append write_uint16_append write_uint32_append write_uint64_append
      u8_codec.write_each_append u16_codec.write_each_append)+

text \<open>Total-run rules of the readers: a read inside the buffer moves the cursor by its width.\<close>

lemma runs_read_uint8 [runs_simps]:
  "runs (netcode_read_uint8 p) Q \<longleftrightarrow> 1 \<le> length p \<and> Q (hd p, drop 1 p)"
  by (cases p) auto

lemma runs_read_uint16:
  "2 \<le> length p \<Longrightarrow> (\<And>v. Q (v, drop 2 p)) \<Longrightarrow> runs (netcode_read_uint16 p) Q"
  by (cases p rule: netcode_read_uint16.cases) auto

lemma runs_read_uint32:
  "4 \<le> length p \<Longrightarrow> (\<And>v. Q (v, drop 4 p)) \<Longrightarrow> runs (netcode_read_uint32 p) Q"
  by (cases p rule: netcode_read_uint32.cases) auto

lemma runs_read_uint64:
  "8 \<le> length p \<Longrightarrow> (\<And>v. Q (v, drop 8 p)) \<Longrightarrow> runs (netcode_read_uint64 p) Q"
  by (cases p rule: netcode_read_uint64.cases) auto

lemma runs_read_bytes:
  "n \<le> length p \<Longrightarrow> Q (take n p, drop n p) \<Longrightarrow> runs (netcode_read_bytes n p) Q"
  by (simp add: read_bytes_take)

lemmas runs_readers = runs_read_uint16 runs_read_uint32 runs_read_uint64 runs_read_bytes

end
