(* ===== verification/Addresses.thy ===== *)
theory Addresses
  imports Wire "HOL-Library.Char_ord"
begin

text \<open>
  \<^verbatim>\<open>struct netcode_address_t\<close> and its operations: parsing, printing and comparison.
  The conversions \<^verbatim>\<open>inet_pton\<close> and \<^verbatim>\<open>inet_ntop\<close> of the operating system are the fields of the
  record \<open>inet\<close>: the parser and the printer work for any such conversions. Strings are C strings
  in a buffer: a list of characters in which the first \<open>NUL\<close> ends the string, so that the
  parser's writes of \<open>NUL\<close> into its working copy are visible. The host is little-endian
  (\<^verbatim>\<open>NETCODE_LITTLE_ENDIAN\<close>): \<open>ntohs\<close> swaps the two bytes of a word.
\<close>

section \<open>Data\<close>

datatype netcode_address =
    ADDRESS_NONE u16
  | ADDRESS_IPV4 bytes u16
  | ADDRESS_IPV6 "u16 list" u16

fun address_type :: "netcode_address \<Rightarrow> byte" where
  "address_type (ADDRESS_NONE _) = 0"
| "address_type (ADDRESS_IPV4 _ _) = 1"
| "address_type (ADDRESS_IPV6 _ _) = 2"

fun address_port :: "netcode_address \<Rightarrow> u16" where
  "address_port (ADDRESS_NONE p) = p"
| "address_port (ADDRESS_IPV4 _ p) = p"
| "address_port (ADDRESS_IPV6 _ p) = p"

text \<open>The fixed sizes of the two arrays of the union.\<close>

fun address_wf :: "netcode_address \<Rightarrow> bool" where
  "address_wf (ADDRESS_NONE _) = True"
| "address_wf (ADDRESS_IPV4 a _) = (length a = 4)"
| "address_wf (ADDRESS_IPV6 a _) = (length a = 8)"

text \<open>What \<^verbatim>\<open>memset( address, 0, sizeof( struct netcode_address_t ) )\<close> leaves.\<close>

definition zero_address :: netcode_address where
  "zero_address = ADDRESS_NONE 0"

definition address_ok :: "netcode_address \<Rightarrow> bool" where
  "address_ok a \<longleftrightarrow> address_wf a \<and> address_type a \<noteq> 0"

section \<open>Comparison\<close>

fun netcode_address_equal :: "netcode_address \<Rightarrow> netcode_address \<Rightarrow> bool" where
  "netcode_address_equal a b =
     (if address_type a \<noteq> address_type b then False
      else if address_port a \<noteq> address_port b then False
      else (case (a, b) of
          (ADDRESS_IPV4 x _, ADDRESS_IPV4 y _) \<Rightarrow> first_index (\<lambda>i. x ! i \<noteq> y ! i) 4 = None
        | (ADDRESS_IPV6 x _, ADDRESS_IPV6 y _) \<Rightarrow> first_index (\<lambda>i. x ! i \<noteq> y ! i) 8 = None
        | _ \<Rightarrow> False))"

declare netcode_address_equal.simps [simp del]

lemma no_difference:
  "length x = n \<Longrightarrow> length y = n \<Longrightarrow> first_index (\<lambda>i. x ! i \<noteq> y ! i) n = None \<longleftrightarrow> x = y"
  by (auto simp: first_index_None list_eq_iff_nth_eq)

lemma address_equal_iff:
  "address_wf a \<Longrightarrow> address_wf b \<Longrightarrow>
   netcode_address_equal a b \<longleftrightarrow> a = b \<and> address_type a \<noteq> 0"
  by (cases a; cases b) (auto simp: netcode_address_equal.simps no_difference)

lemma address_equal_none [simp]:
  "\<not> netcode_address_equal (ADDRESS_NONE p) b" "\<not> netcode_address_equal b (ADDRESS_NONE p)"
  by (cases b; simp add: netcode_address_equal.simps)+

lemma address_equal_sym: "netcode_address_equal a b = netcode_address_equal b a"
  by (cases a; cases b) (auto simp: netcode_address_equal.simps first_index_None)

lemma address_equal_trans:
  "netcode_address_equal a b \<Longrightarrow> netcode_address_equal b c \<Longrightarrow> netcode_address_equal a c"
  by (cases a; cases b; cases c)
    (auto simp: netcode_address_equal.simps first_index_None split: if_splits)

lemma address_equal_refl [simp]: "netcode_address_equal a a \<longleftrightarrow> address_type a \<noteq> 0"
  by (cases a) (auto simp: netcode_address_equal.simps first_index_None)

lemma address_equal_type:
  "netcode_address_equal a b \<Longrightarrow> address_type a \<noteq> 0 \<and> address_type b = address_type a"
  by (cases a; cases b) (auto simp: netcode_address_equal.simps split: if_splits)

section \<open>The operating system's conversions\<close>

record inet =
  pton4 :: "string \<Rightarrow> u32 option"
  pton6 :: "string \<Rightarrow> u16 list option"
  ntop6 :: "u16 list \<Rightarrow> string"

definition ntohs :: "u16 \<Rightarrow> u16" where
  "ntohs w = push_bit 8 w OR drop_bit 8 w"

abbreviation (input) htons :: "u16 \<Rightarrow> u16" where "htons \<equiv> ntohs"

lemma ntohs_ntohs [simp]: "ntohs (ntohs w) = w"
  by (rule bit_word_eqI) (auto simp: ntohs_def bit_simps)

text \<open>\<open>ipv4[3] = ( s_addr & 0xFF000000 ) >> 24\<close> and so on.\<close>

definition s_addr_octets :: "u32 \<Rightarrow> bytes" where
  "s_addr_octets s =
     [ucast (s AND 0x000000FF),
      ucast (drop_bit 8 (s AND 0x0000FF00)),
      ucast (drop_bit 16 (s AND 0x00FF0000)),
      ucast (drop_bit 24 (s AND 0xFF000000))]"

text \<open>\<open>s_addr = ipv4[0] | ipv4[1] << 8 | ipv4[2] << 16 | ipv4[3] << 24\<close>.\<close>

definition s_addr_of :: "bytes \<Rightarrow> u32" where
  "s_addr_of a = ucast (a ! 0) OR push_bit 8 (ucast (a ! 1))
     OR push_bit 16 (ucast (a ! 2)) OR push_bit 24 (ucast (a ! 3))"

lemma length_s_addr_octets [simp]: "length (s_addr_octets s) = 4"
  by (simp add: s_addr_octets_def)

section \<open>C strings\<close>

abbreviation (input) NUL :: char where "NUL \<equiv> CHR 0x00"

definition c_string :: "string \<Rightarrow> string" where
  "c_string buf = takeWhile (\<lambda>c. c \<noteq> NUL) buf"

definition char_is_digit :: "char \<Rightarrow> bool" where
  "char_is_digit c \<longleftrightarrow> 48 \<le> (of_char c :: nat) \<and> (of_char c :: nat) \<le> 57"

definition char_is_space :: "char \<Rightarrow> bool" where
  "char_is_space c \<longleftrightarrow> (of_char c :: nat) = 32 \<or> 9 \<le> (of_char c :: nat) \<and> (of_char c :: nat) \<le> 13"

fun digits_value :: "int \<Rightarrow> string \<Rightarrow> int" where
  "digits_value n [] = n"
| "digits_value n (c # cs) =
     (if char_is_digit c then digits_value (10 * n + (int (of_char c) - 48)) cs else n)"

text \<open>\<^verbatim>\<open>atoi\<close> of the standard library. The parser hands it at most five characters: no overflow.\<close>

definition atoi :: "string \<Rightarrow> int" where
  "atoi s = (case dropWhile char_is_space s of
       [] \<Rightarrow> 0
     | c # cs \<Rightarrow> if c = CHR ''-'' then - digits_value 0 cs
                else if c = CHR ''+'' then digits_value 0 cs
                else digits_value 0 (c # cs))"

text \<open>\<^verbatim>\<open>%d\<close> of \<^verbatim>\<open>snprintf\<close>, for the values that the program prints (never negative).\<close>

fun decimal :: "nat \<Rightarrow> string" where
  "decimal n = (if n < 10 then [char_of (48 + n)] else decimal (n div 10) @ [char_of (48 + n mod 10)])"

declare decimal.simps [simp del]

section \<open>Parsing\<close>

text \<open>The port loop of the bracketed form; \<open>k\<close> is the number of iterations left.\<close>

fun parse_ipv6_port :: "nat \<Rightarrow> int \<Rightarrow> string \<Rightarrow> u16 \<Rightarrow> (string \<times> u16) c_result" where
  "parse_ipv6_port 0 index buf port = NETCODE_OK (buf, port)"
| "parse_ipv6_port (Suc k) index buf port =
     (if index < 3 then NETCODE_ERROR
      else if buf ! nat index = CHR '':'' then
        parse_ipv6_port k (index - 1) (buf[nat index - 1 := NUL])
          (word_of_int (atoi (c_string (drop (nat index + 1) buf))))
      else parse_ipv6_port k (index - 1) buf port)"

text \<open>The port loop of the IPv4 form.\<close>

fun parse_ipv4_port :: "nat \<Rightarrow> int \<Rightarrow> string \<Rightarrow> u16 \<Rightarrow> string \<times> u16" where
  "parse_ipv4_port 0 index buf port = (buf, port)"
| "parse_ipv4_port (Suc k) index buf port =
     (if index < 0 then (buf, port)
      else if buf ! nat index = CHR '':'' then
        parse_ipv4_port k (index - 1) (buf[nat index := NUL])
          (word_of_int (atoi (c_string (drop (nat index + 1) buf))))
      else parse_ipv4_port k (index - 1) buf port)"

definition netcode_parse_address :: "inet \<Rightarrow> string \<Rightarrow> netcode_address c_result" where
  "netcode_parse_address net address_string_in =
     (let buf = take (NETCODE_MAX_ADDRESS_STRING_LENGTH - 1) (c_string address_string_in) @ [NUL];
          bracketed =
            (if buf ! 0 = CHR ''['' then
               (case parse_ipv6_port 6 (int (length (c_string buf)) - 1) buf 0 of
                  NETCODE_ERROR \<Rightarrow> NETCODE_ERROR
                | NETCODE_OK (buf, port) \<Rightarrow> NETCODE_OK (drop 1 buf, port))
             else NETCODE_OK (buf, 0))
      in case bracketed of
           NETCODE_ERROR \<Rightarrow> NETCODE_ERROR
         | NETCODE_OK (buf, port) \<Rightarrow>
             (case pton6 net (c_string buf) of
                Some sockaddr6 \<Rightarrow> NETCODE_OK (ADDRESS_IPV6 (map ntohs sockaddr6) port)
              | None \<Rightarrow>
                  (let (buf, port) = parse_ipv4_port 6 (int (length (c_string buf)) - 1) buf port
                   in case pton4 net (c_string buf) of
                        Some s_addr \<Rightarrow> NETCODE_OK (ADDRESS_IPV4 (s_addr_octets s_addr) port)
                      | None \<Rightarrow> NETCODE_ERROR)))"

text \<open>What \<^verbatim>\<open>inet_pton\<close> documents: an IPv6 address is eight 16-bit groups. Then a parsed address is well-formed.\<close>

definition inet_ok :: "inet \<Rightarrow> bool" where
  "inet_ok net \<longleftrightarrow> (\<forall>s a. pton6 net s = Some a \<longrightarrow> length a = 8)"

lemma parsed_address_ok: "inet_ok net \<Longrightarrow> netcode_parse_address net s = NETCODE_OK a \<Longrightarrow> address_ok a"
  unfolding netcode_parse_address_def Let_def inet_ok_def address_ok_def
  by (auto split: c_result.splits option.splits prod.splits)

section \<open>Printing\<close>

definition dotted :: "bytes \<Rightarrow> string" where
  "dotted a = decimal (unat (a ! 0)) @ CHR ''.'' # decimal (unat (a ! 1)) @ CHR ''.''
     # decimal (unat (a ! 2)) @ CHR ''.'' # decimal (unat (a ! 3))"

fun netcode_address_to_string :: "inet \<Rightarrow> netcode_address \<Rightarrow> string" where
  "netcode_address_to_string net (ADDRESS_IPV6 a port) =
     (if port = 0 then ntop6 net (map htons a)
      else take (NETCODE_MAX_ADDRESS_STRING_LENGTH - 1)
        (CHR ''['' # ntop6 net (map htons a) @ '']:'' @ decimal (unat port)))"
| "netcode_address_to_string net (ADDRESS_IPV4 a port) =
     take (NETCODE_MAX_ADDRESS_STRING_LENGTH - 1)
       (if port \<noteq> 0 then dotted a @ CHR '':'' # decimal (unat port) else dotted a)"
| "netcode_address_to_string net (ADDRESS_NONE _) = ''NONE''"

declare netcode_address_to_string.simps [simp del]

section \<open>Decimal numbers\<close>

lemma of_char_digit [simp]:
  assumes "d < 10" shows "of_char (char_of (48 + d)) = 48 + (d :: nat)"
proof -
  have "48 + d < 2 ^ 8" using assms by simp
  then show ?thesis by (simp add: take_bit_nat_eq_self)
qed

lemma decimal_digits: "c \<in> set (decimal n) \<Longrightarrow> char_is_digit c"
proof (induction n rule: decimal.induct)
  case (1 n)
  show ?case
  proof (cases "n < 10")
    case True
    with "1.prems" show ?thesis by (simp add: decimal.simps [of n] char_is_digit_def)
  next
    case False
    with "1.prems" have "c \<in> set (decimal (n div 10)) \<or> c = char_of (48 + n mod 10)"
      by (auto simp: decimal.simps [of n])
    moreover have "n mod 10 < 10" by simp
    ultimately show ?thesis
      using "1.IH" [OF False] by (auto simp: char_is_digit_def simp del: mod_less_divisor)
  qed
qed

lemma decimal_not_Nil [simp]: "decimal n \<noteq> []"
  by (simp add: decimal.simps [of n])

lemma length_decimal: "n < 10 ^ k \<Longrightarrow> 0 < k \<Longrightarrow> length (decimal n) \<le> k"
proof (induction n arbitrary: k rule: decimal.induct)
  case (1 n)
  show ?case
  proof (cases "n < 10")
    case True
    with "1.prems" show ?thesis by (simp add: decimal.simps [of n])
  next
    case False
    with "1.prems" obtain j where k: "k = Suc (Suc j)"
      by (cases k; cases "k - 1") auto
    with "1.prems" have "n div 10 < 10 ^ Suc j" by (simp add: less_mult_imp_div_less)
    with "1.IH" [OF False, of "Suc j"] False k show ?thesis
      by (simp add: decimal.simps [of n])
  qed
qed

lemma digits_value_append:
  "(\<forall>c \<in> set xs. char_is_digit c) \<Longrightarrow> digits_value m (xs @ ys) = digits_value (digits_value m xs) ys"
  by (induction xs arbitrary: m) auto

lemma digits_value_decimal: "digits_value 0 (decimal n) = int n"
proof (induction n rule: decimal.induct)
  case (1 n)
  show ?case
  proof (cases "n < 10")
    case True
    then show ?thesis by (simp add: decimal.simps [of n] char_is_digit_def)
  next
    case False
    have d: "n mod 10 < 10" by simp
    then have d9: "n mod 10 \<le> 9" by linarith
    have "digits_value 0 (decimal n) = digits_value (int (n div 10)) [char_of (48 + n mod 10)]"
      using False "1.IH" [OF False]
      by (simp add: decimal.simps [of n] digits_value_append decimal_digits)
    also have "\<dots> = int (10 * (n div 10) + n mod 10)"
      using of_char_digit [OF d] d9 by (simp add: char_is_digit_def zdiv_int zmod_int)
    finally show ?thesis by simp
  qed
qed

lemma digit_char_not:
  "char_is_digit c \<Longrightarrow> c \<noteq> NUL \<and> c \<noteq> CHR '':'' \<and> c \<noteq> CHR ''['' \<and> c \<noteq> CHR ''-'' \<and> c \<noteq> CHR ''+''
     \<and> \<not> char_is_space c"
  by (auto simp: char_is_digit_def char_is_space_def)

lemma atoi_decimal: "atoi (decimal n) = int n"
proof -
  obtain c cs where c: "decimal n = c # cs" by (cases "decimal n") auto
  then have "char_is_digit c" using decimal_digits [of c n] by simp
  with c digit_char_not [of c] have "atoi (decimal n) = digits_value 0 (decimal n)"
    by (simp add: atoi_def)
  then show ?thesis by (simp add: digits_value_decimal)
qed

section \<open>Parsing what was printed\<close>

lemma c_string_append_NUL: "NUL \<notin> set xs \<Longrightarrow> c_string (xs @ NUL # ys) = xs"
  unfolding c_string_def by (subst takeWhile_append2) auto

lemma parse_ipv4_port_skip:
  "(\<And>i. i < n \<Longrightarrow> buf ! (j + i) \<noteq> CHR '':'') \<Longrightarrow>
   parse_ipv4_port (n + k) (int j + int n - 1) buf port = parse_ipv4_port k (int j - 1) buf port"
proof (induction n)
  case 0
  then show ?case by simp
next
  case (Suc n)
  have c: "buf ! (j + n) \<noteq> CHR '':''" using Suc.prems by simp
  have e: "nat (int j + int (Suc n) - 1) = j + n" by simp
  have "parse_ipv4_port (Suc (n + k)) (int j + int (Suc n) - 1) buf port
      = parse_ipv4_port (n + k) (int j + int (Suc n) - 1 - 1) buf port"
    using c by (simp only: parse_ipv4_port.simps e if_False) simp
  also have "\<dots> = parse_ipv4_port (n + k) (int j + int n - 1) buf port" by simp
  finally show ?case using Suc by simp
qed

lemma parse_ipv4_port_none:
  "(\<And>i. i < j \<Longrightarrow> buf ! i \<noteq> CHR '':'') \<Longrightarrow>
   parse_ipv4_port k (int j - 1) buf port = (buf, port)"
proof (induction k arbitrary: j)
  case 0
  show ?case by simp
next
  case (Suc k)
  show ?case
  proof (cases j)
    case 0
    then show ?thesis by simp
  next
    case (Suc i)
    with Suc.prems Suc.IH [of i] show ?thesis by simp
  qed
qed

lemma dotted_chars:
  "c \<in> set (dotted a) \<Longrightarrow> c \<noteq> NUL \<and> c \<noteq> CHR '':'' \<and> c \<noteq> CHR ''[''"
  unfolding dotted_def using decimal_digits digit_char_not by auto

lemma dotted_nth: "i < length (dotted a) \<Longrightarrow> dotted a ! i \<noteq> CHR '':''"
  using dotted_chars [of "dotted a ! i" a] by simp

lemma length_dotted: "length (dotted a) \<le> 15"
proof -
  have "length (decimal (unat (b :: byte))) \<le> 3" for b
  proof -
    have "unat b < 2 ^ LENGTH(8)" by (rule unsigned_less)
    then show ?thesis by (intro length_decimal) auto
  qed
  from this [of "a ! 0"] this [of "a ! 1"] this [of "a ! 2"] this [of "a ! 3"]
  show ?thesis by (simp add: dotted_def)
qed

lemma length_decimal_port: "length (decimal (unat (p :: u16))) \<le> 5"
proof -
  have "unat p < 2 ^ LENGTH(16)" by (rule unsigned_less)
  then show ?thesis by (intro length_decimal) auto
qed

lemma parse_ipv4_port_colon:
  assumes "\<And>c. c \<in> set host \<Longrightarrow> c \<noteq> CHR '':''"
    and "\<And>c. c \<in> set digits \<Longrightarrow> char_is_digit c" and "length digits \<le> 5"
  shows "parse_ipv4_port 6 (int (length (host @ CHR '':'' # digits)) - 1)
      (host @ CHR '':'' # digits @ [NUL]) port
    = (host @ NUL # digits @ [NUL], word_of_int (atoi digits))"
proof -
  let ?buf = "host @ CHR '':'' # digits @ [NUL]" and ?n = "length digits" and ?h = "length host"
  have nul: "NUL \<notin> set digits" using assms(2) digit_char_not by blast
  have skip: "?buf ! (?h + 1 + i) \<noteq> CHR '':''" if "i < ?n" for i
    using that assms(2) [of "digits ! i"] digit_char_not [of "digits ! i"]
    by (simp add: nth_append)
  obtain k where k: "6 = ?n + Suc k" using assms(3) that [of "5 - ?n"] by simp
  have "parse_ipv4_port (?n + Suc k) (int (?h + 1) + int ?n - 1) ?buf port
      = parse_ipv4_port (Suc k) (int (?h + 1) - 1) ?buf port"
    by (rule parse_ipv4_port_skip) (use skip in simp)
  also have "\<dots> = parse_ipv4_port k (int ?h - 1) (?buf[?h := NUL]) (word_of_int (atoi digits))"
    by (simp add: nth_append c_string_append_NUL [OF nul])
  also have "\<dots> = (?buf[?h := NUL], word_of_int (atoi digits))"
    by (rule parse_ipv4_port_none) (use assms(1) in \<open>auto simp: nth_append\<close>)
  finally have "parse_ipv4_port (?n + Suc k) (int (?h + 1) + int ?n - 1) ?buf port
      = (host @ NUL # digits @ [NUL], word_of_int (atoi digits))" by simp
  moreover have "int (length (host @ CHR '':'' # digits)) - 1 = int (?h + 1) + int ?n - 1" by simp
  ultimately show ?thesis unfolding k by (simp only: append_assoc append_Cons append_Nil)
qed

lemma octets_of_s_addr: "length a = 4 \<Longrightarrow> s_addr_octets (s_addr_of a) = a"
proof -
  assume "length a = 4"
  then obtain a0 a1 a2 a3 where a: "a = [a0, a1, a2, a3]"
    by (auto simp: length_Suc_conv numeral_eq_Suc)
  have m: "(0x000000FF :: u32) = mask 8" "(0x0000FF00 :: u32) = push_bit 8 (mask 8)"
    "(0x00FF0000 :: u32) = push_bit 16 (mask 8)" "(0xFF000000 :: u32) = push_bit 24 (mask 8)"
    by (simp_all add: mask_eq_exp_minus_1 push_bit_eq_mult)
  have "ucast (s_addr_of a AND 0x000000FF) = a0"
    unfolding a m s_addr_of_def by (rule bit_word_eqI) (auto simp: bit_simps)
  moreover have "ucast (drop_bit 8 (s_addr_of a AND 0x0000FF00)) = a1"
    unfolding a m s_addr_of_def by (rule bit_word_eqI) (auto simp: bit_simps dest: bit_imp_le_length)
  moreover have "ucast (drop_bit 16 (s_addr_of a AND 0x00FF0000)) = a2"
    unfolding a m s_addr_of_def by (rule bit_word_eqI) (auto simp: bit_simps dest: bit_imp_le_length)
  moreover have "ucast (drop_bit 24 (s_addr_of a AND 0xFF000000)) = a3"
    unfolding a m s_addr_of_def by (rule bit_word_eqI) (auto simp: bit_simps dest: bit_imp_le_length)
  ultimately show ?thesis by (simp add: a s_addr_octets_def)
qed

section \<open>Properties\<close>

lemma c_string_id: "NUL \<notin> set s \<Longrightarrow> c_string s = s"
  by (auto simp: c_string_def takeWhile_eq_all_conv)

lemma printed_ipv4:
  "netcode_address_to_string net (ADDRESS_IPV4 a port) =
     (if port \<noteq> 0 then dotted a @ CHR '':'' # decimal (unat port) else dotted a)"
  using length_dotted [of a] length_decimal_port [of port]
  by (simp add: netcode_address_to_string.simps)

lemma dotted_not_Nil [simp]: "dotted a \<noteq> []"
  by (simp add: dotted_def)

lemma parse_unbracketed:
  assumes "NUL \<notin> set s" and "length s \<le> 255" and "s \<noteq> []" and "hd s \<noteq> CHR ''[''"
    and "pton6 net s = None"
    and "parse_ipv4_port 6 (int (length s) - 1) (s @ [NUL]) 0 = (buf, port)"
    and "pton4 net (c_string buf) = Some addr"
  shows "netcode_parse_address net s = NETCODE_OK (ADDRESS_IPV4 (s_addr_octets addr) port)"
proof -
  have "(s @ [NUL]) ! 0 \<noteq> CHR ''[''" using assms(3,4) by (simp add: nth_append hd_conv_nth)
  then show ?thesis
    using assms by (simp add: netcode_parse_address_def Let_def c_string_id c_string_append_NUL)
qed

text \<open>C35: an IPv4 address with any port, printed by \<^verbatim>\<open>netcode_address_to_string\<close> and read back by
  \<^verbatim>\<open>netcode_parse_address\<close>, is the same address, provided that the operating system's \<^verbatim>\<open>inet_pton\<close>
  reads back the dotted octets it is given and takes no such string for an IPv6 address.\<close>

theorem parse_printed_ipv4:
  assumes len: "length a = 4"
    and pton4: "pton4 net (dotted a) = Some (s_addr_of a)"
    and pton6: "pton6 net (netcode_address_to_string net (ADDRESS_IPV4 a port)) = None"
  shows "netcode_parse_address net (netcode_address_to_string net (ADDRESS_IPV4 a port))
    = NETCODE_OK (ADDRESS_IPV4 a port)"
proof -
  let ?s = "netcode_address_to_string net (ADDRESS_IPV4 a port)"
  let ?digits = "decimal (unat port)"
  have nul: "NUL \<notin> set (dotted a)" using dotted_chars by blast
  have dig: "\<And>c. c \<in> set ?digits \<Longrightarrow> char_is_digit c" by (rule decimal_digits)
  then have "NUL \<notin> set ?digits" using digit_char_not by blast
  with nul have s_nul: "NUL \<notin> set ?s" by (simp add: printed_ipv4)
  have s_len: "length ?s \<le> 255"
    using length_dotted [of a] length_decimal_port [of port] by (simp add: printed_ipv4)
  have hd: "?s \<noteq> []" "hd ?s \<noteq> CHR ''[''"
    using dotted_chars [of "hd (dotted a)" a] by (auto simp: printed_ipv4)
  have "\<exists>buf. parse_ipv4_port 6 (int (length ?s) - 1) (?s @ [NUL]) 0 = (buf, port) \<and> c_string buf = dotted a"
  proof (cases "port = 0")
    case True
    have "parse_ipv4_port 6 (int (length (dotted a)) - 1) (dotted a @ [NUL]) 0 = (dotted a @ [NUL], 0)"
      by (rule parse_ipv4_port_none) (simp add: nth_append dotted_nth)
    with True nul show ?thesis by (simp add: printed_ipv4 c_string_append_NUL)
  next
    case False
    have "parse_ipv4_port 6 (int (length (dotted a @ CHR '':'' # ?digits)) - 1)
        (dotted a @ CHR '':'' # ?digits @ [NUL]) 0
      = (dotted a @ NUL # ?digits @ [NUL], word_of_int (atoi ?digits))"
      by (rule parse_ipv4_port_colon) (use dotted_chars dig length_decimal_port in auto)
    with False nul show ?thesis
      by (simp add: printed_ipv4 c_string_append_NUL atoi_decimal)
  qed
  then obtain buf where
    "parse_ipv4_port 6 (int (length ?s) - 1) (?s @ [NUL]) 0 = (buf, port)" and "c_string buf = dotted a"
    by blast
  with parse_unbracketed [OF s_nul s_len hd pton6, of buf port "s_addr_of a"] pton4
  show ?thesis by (simp add: octets_of_s_addr len)
qed

theorem parse_printed_ipv4_witness:
  "let net = \<lparr>pton4 = (\<lambda>s. if s = ''107.77.207.77'' then Some (s_addr_of [107, 77, 207, 77]) else None),
       pton6 = (\<lambda>s. None), ntop6 = (\<lambda>ws. ''::'')\<rparr>
   in netcode_parse_address net (netcode_address_to_string net (ADDRESS_IPV4 [107, 77, 207, 77] 40000))
     = NETCODE_OK (ADDRESS_IPV4 [107, 77, 207, 77] 40000)"
proof -
  have "dotted [107, 77, 207, 77] = ''107.77.207.77''" by code_simp
  then show ?thesis unfolding Let_def by (intro parse_printed_ipv4) simp_all
qed

lemma parse_ipv6_port_runs_out:
  "index < int k + 2 \<Longrightarrow> 0 < k \<Longrightarrow> parse_ipv6_port k index buf port = NETCODE_ERROR"
proof (induction k arbitrary: index buf port)
  case 0
  then show ?case by simp
next
  case (Suc k)
  show ?case
  proof (cases "index < 3")
    case True
    then show ?thesis by simp
  next
    case False
    with Suc.prems have "index - 1 < int k + 2" and "0 < k" by auto
    with False Suc.IH show ?thesis by simp
  qed
qed

text \<open>A bracketed address of at most eight characters is an error, whatever \<^verbatim>\<open>inet_pton\<close> makes
  of what is between the brackets: the port loop does not stop at the colon it has found, and
  runs into the guard \<^verbatim>\<open>index < 3\<close>. So \<open>''[::1]:80''\<close> does not parse.\<close>

lemma short_bracketed_address_rejected:
  assumes "NUL \<notin> set s" and "length s \<le> 8" and "s \<noteq> []" and "hd s = CHR ''[''"
  shows "netcode_parse_address net s = NETCODE_ERROR"
proof -
  have "(s @ [NUL]) ! 0 = CHR ''[''" using assms(3,4) by (simp add: nth_append hd_conv_nth)
  moreover have "parse_ipv6_port 6 (int (length s) - 1) (s @ [NUL]) 0 = NETCODE_ERROR"
    by (rule parse_ipv6_port_runs_out) (use assms(2) in auto)
  ultimately show ?thesis
    using assms(1,2) by (simp add: netcode_parse_address_def Let_def c_string_id c_string_append_NUL)
qed

lemma bracketed_loopback_rejected:
  "netcode_parse_address \<lparr>pton4 = (\<lambda>s. None), pton6 = (\<lambda>s. Some [0, 0, 0, 0, 0, 0, 0, 256]), ntop6 = (\<lambda>ws. ''::1'')\<rparr>
     ''[::1]:80'' = NETCODE_ERROR"
  by (rule short_bracketed_address_rejected) simp_all

end
