(* ===== verification/Crypto.thy ===== *)
theory Crypto
  imports Wire
begin

text \<open>
  The wrappers of \<^verbatim>\<open>c/netcode.c\<close> around libsodium. The AEAD primitive
  \<^verbatim>\<open>crypto_aead_chacha20poly1305_ietf\<close> is not part of the repository: its two functions are the fields
  of the record \<open>crypto\<close>, an argument of every definition that encrypts or decrypts (\<open>None\<close> is a
  result other than 0). \<open>aead_laws\<close> states what libsodium documents and the program relies on:
  encryption with a 12-byte nonce and a 32-byte key succeeds and appends a 16-byte tag, decryption
  with the same associated data, nonce and key returns the message, and a successful decryption is 16 bytes
  shorter than its input. Both branches of \<^verbatim>\<open>SODIUM_SUPPORTS_OVERLAPPING_BUFFERS\<close> leave the same
  bytes in the caller's buffer: the result here is what the buffer then starts with.
\<close>

record crypto =
  aead_encrypt :: "bytes \<Rightarrow> bytes \<Rightarrow> bytes \<Rightarrow> bytes \<Rightarrow> bytes option"
    \<comment> \<open>message, additional data, nonce, key\<close>
  aead_decrypt :: "bytes \<Rightarrow> bytes \<Rightarrow> bytes \<Rightarrow> bytes \<Rightarrow> bytes option"
    \<comment> \<open>message with its tag, additional data, nonce, key\<close>

definition netcode_encrypt_aead ::
    "crypto \<Rightarrow> bytes \<Rightarrow> bytes \<Rightarrow> bytes \<Rightarrow> bytes \<Rightarrow> bytes c_result option" where
  "netcode_encrypt_aead cr message additional nonce key =
     (case aead_encrypt cr message additional nonce key of
        None \<Rightarrow> Some NETCODE_ERROR
      | Some encrypted \<Rightarrow> do {
          c_assert (length encrypted = length message + NETCODE_MAC_BYTES);
          Some (NETCODE_OK encrypted) })"

definition netcode_decrypt_aead ::
    "crypto \<Rightarrow> bytes \<Rightarrow> bytes \<Rightarrow> bytes \<Rightarrow> bytes \<Rightarrow> bytes c_result option" where
  "netcode_decrypt_aead cr message additional nonce key =
     (case aead_decrypt cr message additional nonce key of
        None \<Rightarrow> Some NETCODE_ERROR
      | Some decrypted \<Rightarrow> do {
          c_assert (length decrypted + NETCODE_MAC_BYTES = length message);
          Some (NETCODE_OK decrypted) })"

text \<open>The block \<^verbatim>\<open>uint8_t nonce[12]; { ... }\<close> that every caller of the two functions repeats.\<close>

definition sequence_nonce :: "u64 \<Rightarrow> bytes" where
  "sequence_nonce sequence = netcode_write_uint64 (netcode_write_uint32 [] 0) sequence"

lemma length_sequence_nonce [simp]: "length (sequence_nonce s) = 12"
  by (simp add: sequence_nonce_def)

lemma sequence_nonce_inj: "sequence_nonce s = sequence_nonce t \<longleftrightarrow> s = t"
proof
  assume "sequence_nonce s = sequence_nonce t"
  then have "netcode_write_uint64 [] s = netcode_write_uint64 [] t"
    by (simp add: sequence_nonce_def write_uint64_append [of "netcode_write_uint32 [] 0"])
  then show "s = t" by (metis read_write_end(4) option.inject prod.inject)
qed simp

section \<open>Documented behaviour of the primitive\<close>

definition aead_laws :: "crypto \<Rightarrow> bool" where
  "aead_laws cr \<longleftrightarrow>
     (\<forall>m ad n k. length n = 12 \<longrightarrow> length k = NETCODE_KEY_BYTES \<longrightarrow>
        (\<exists>c. aead_encrypt cr m ad n k = Some c \<and> length c = length m + NETCODE_MAC_BYTES
           \<and> aead_decrypt cr c ad n k = Some m)) \<and>
     (\<forall>c ad n k m. aead_decrypt cr c ad n k = Some m \<longrightarrow> length c = length m + NETCODE_MAC_BYTES)"

lemma encrypt_aead_ok:
  assumes "aead_laws cr" and "length n = 12" and "length k = NETCODE_KEY_BYTES"
  obtains c where "netcode_encrypt_aead cr m ad n k = Some (NETCODE_OK c)"
    and "length c = length m + NETCODE_MAC_BYTES"
    and "netcode_decrypt_aead cr c ad n k = Some (NETCODE_OK m)"
proof -
  from assms obtain c where "aead_encrypt cr m ad n k = Some c"
    and "length c = length m + NETCODE_MAC_BYTES" and "aead_decrypt cr c ad n k = Some m"
    unfolding aead_laws_def by blast
  then show ?thesis
    by (intro that [of c]) (simp_all add: netcode_encrypt_aead_def netcode_decrypt_aead_def)
qed

lemma runs_encrypt_aead:
  assumes "aead_laws cr" and "length n = 12" and "length k = NETCODE_KEY_BYTES"
    and "\<And>c. length c = length m + NETCODE_MAC_BYTES \<Longrightarrow> Q (NETCODE_OK c)"
  shows "runs (netcode_encrypt_aead cr m ad n k) Q"
proof -
  obtain c where "netcode_encrypt_aead cr m ad n k = Some (NETCODE_OK c)"
    and "length c = length m + NETCODE_MAC_BYTES"
    using encrypt_aead_ok [OF assms(1-3)] by metis
  with assms(4) show ?thesis by simp
qed

lemma runs_decrypt_aead:
  assumes "aead_laws cr"
    and "Q NETCODE_ERROR"
    and "\<And>m. length m + NETCODE_MAC_BYTES = length c \<Longrightarrow> Q (NETCODE_OK m)"
  shows "runs (netcode_decrypt_aead cr c ad n k) Q"
  using assms
  by (auto simp: netcode_decrypt_aead_def aead_laws_def runs_simps split: option.split)

lemma decrypt_aead_SomeD:
  "netcode_decrypt_aead cr c ad n k = Some (NETCODE_OK m) \<Longrightarrow>
   aead_decrypt cr c ad n k = Some m \<and> length m + NETCODE_MAC_BYTES = length c"
  by (auto simp: netcode_decrypt_aead_def split: option.splits)

section \<open>An instance\<close>

text \<open>
  A stand-in for the primitive that has the documented laws, for the concrete runs of the
  witnesses: the tag is the first half of the key, the message is in clear.
\<close>

definition clear_crypto :: crypto where
  "clear_crypto = \<lparr>
     aead_encrypt = (\<lambda>m ad n k. Some (m @ take 16 (k @ replicate 16 0))),
     aead_decrypt = (\<lambda>c ad n k.
       if 16 \<le> length c \<and> drop (length c - 16) c = take 16 (k @ replicate 16 0)
       then Some (take (length c - 16) c) else None)\<rparr>"

lemma clear_crypto_laws [simp]: "aead_laws clear_crypto"
  by (auto simp: aead_laws_def clear_crypto_def split: if_splits)

end
