(* ===== verification/Connect_Token.thy ===== *)
theory Connect_Token
  imports Addresses Crypto
begin

text \<open>
  The three tokens: the private connect token (\<^verbatim>\<open>struct netcode_connect_token_private_t\<close>, which only
  the backend and the servers can read), the challenge token, and the public connect token. Each has a
  writer into a fixed-size buffer and a reader that validates; the first two are encrypted in
  place. The array \<^verbatim>\<open>server_addresses\<close> has its 32 elements; those from \<^verbatim>\<open>num_server_addresses\<close> on
  are never read by the program.
\<close>

section \<open>Data\<close>

record connect_token_private =
  ctp_client_id :: u64
  ctp_timeout_seconds :: int
  ctp_num_server_addresses :: int
  ctp_server_addresses :: "netcode_address list"
  ctp_client_to_server_key :: bytes
  ctp_server_to_client_key :: bytes
  ctp_user_data :: bytes

record challenge_token =
  cht_client_id :: u64
  cht_user_data :: bytes

record connect_token =
  ct_version_info :: bytes
  ct_protocol_id :: u64
  ct_create_timestamp :: u64
  ct_expire_timestamp :: u64
  ct_sequence :: u64
  ct_private_data :: bytes
  ct_timeout_seconds :: int
  ct_num_server_addresses :: int
  ct_server_addresses :: "netcode_address list"
  ct_client_to_server_key :: bytes
  ct_server_to_client_key :: bytes

text \<open>\<^verbatim>\<open>memset( &client->connect_token, 0, sizeof( struct netcode_connect_token_t ) )\<close>.\<close>

definition zero_connect_token :: connect_token where
  "zero_connect_token = \<lparr>
     ct_version_info = replicate NETCODE_VERSION_INFO_BYTES 0,
     ct_protocol_id = 0, ct_create_timestamp = 0, ct_expire_timestamp = 0, ct_sequence = 0,
     ct_private_data = replicate NETCODE_CONNECT_TOKEN_PRIVATE_BYTES 0,
     ct_timeout_seconds = 0, ct_num_server_addresses = 0,
     ct_server_addresses = replicate NETCODE_MAX_SERVERS_PER_CONNECT zero_address,
     ct_client_to_server_key = replicate NETCODE_KEY_BYTES 0,
     ct_server_to_client_key = replicate NETCODE_KEY_BYTES 0\<rparr>"

section \<open>Server address lists\<close>

text \<open>The loop that all four token routines share, in its two directions.\<close>

fun write_server_address :: "netcode_address \<Rightarrow> bytes \<Rightarrow> bytes option" where
  "write_server_address (ADDRESS_IPV4 a port) p =
     Some (netcode_write_uint16 (write_each netcode_write_uint8 (netcode_write_uint8 p 1) a) port)"
| "write_server_address (ADDRESS_IPV6 a port) p =
     Some (netcode_write_uint16 (write_each netcode_write_uint16 (netcode_write_uint8 p 2) a) port)"
| "write_server_address (ADDRESS_NONE port) p = None"

fun write_server_addresses :: "nat \<Rightarrow> nat \<Rightarrow> netcode_address list \<Rightarrow> bytes \<Rightarrow> bytes option" where
  "write_server_addresses 0 i xs p = Some p"
| "write_server_addresses (Suc k) i xs p =
     do { p \<leftarrow> write_server_address (xs ! i) p;
          write_server_addresses k (Suc i) xs p }"

fun read_server_addresses ::
    "nat \<Rightarrow> nat \<Rightarrow> netcode_address list \<Rightarrow> bytes \<Rightarrow> (netcode_address list \<times> bytes) c_result option" where
  "read_server_addresses 0 i xs p = Some (NETCODE_OK (xs, p))"
| "read_server_addresses (Suc k) i xs p =
     do { (type, p) \<leftarrow> netcode_read_uint8 p;
          if type = 1 then
            do { (ipv4, p) \<leftarrow> read_each netcode_read_uint8 4 p;
                 (port, p) \<leftarrow> netcode_read_uint16 p;
                 read_server_addresses k (Suc i) (xs[i := ADDRESS_IPV4 ipv4 port]) p }
          else if type = 2 then
            do { (ipv6, p) \<leftarrow> read_each netcode_read_uint16 8 p;
                 (port, p) \<leftarrow> netcode_read_uint16 p;
                 read_server_addresses k (Suc i) (xs[i := ADDRESS_IPV6 ipv6 port]) p }
          else Some NETCODE_ERROR }"

section \<open>Private connect token\<close>

text \<open>The two keys come from \<^verbatim>\<open>randombytes_buf\<close>: they are arguments.\<close>

definition netcode_generate_connect_token_private ::
    "u64 \<Rightarrow> int \<Rightarrow> int \<Rightarrow> netcode_address list \<Rightarrow> bytes \<Rightarrow> bytes \<Rightarrow> bytes \<Rightarrow> connect_token_private option" where
  "netcode_generate_connect_token_private client_id timeout_seconds num_server_addresses
       server_addresses user_data client_to_server_key server_to_client_key =
     do { c_assert (num_server_addresses > 0);
          c_assert (num_server_addresses \<le> int NETCODE_MAX_SERVERS_PER_CONNECT);
          Some \<lparr>ctp_client_id = client_id,
            ctp_timeout_seconds = timeout_seconds,
            ctp_num_server_addresses = num_server_addresses,
            ctp_server_addresses =
              take (nat num_server_addresses) server_addresses
              @ replicate (NETCODE_MAX_SERVERS_PER_CONNECT - nat num_server_addresses) zero_address,
            ctp_client_to_server_key = client_to_server_key,
            ctp_server_to_client_key = server_to_client_key,
            ctp_user_data = user_data\<rparr> }"

definition netcode_write_connect_token_private :: "connect_token_private \<Rightarrow> int \<Rightarrow> bytes option" where
  "netcode_write_connect_token_private connect_token buffer_length =
     do { c_assert (ctp_num_server_addresses connect_token > 0);
          c_assert (ctp_num_server_addresses connect_token \<le> int NETCODE_MAX_SERVERS_PER_CONNECT);
          c_assert (buffer_length \<ge> int NETCODE_CONNECT_TOKEN_PRIVATE_BYTES);
          let p = netcode_write_uint64 [] (ctp_client_id connect_token);
          let p = netcode_write_uint32 p (word_of_int (ctp_timeout_seconds connect_token));
          let p = netcode_write_uint32 p (word_of_int (ctp_num_server_addresses connect_token));
          p \<leftarrow> write_server_addresses (nat (ctp_num_server_addresses connect_token)) 0
                 (ctp_server_addresses connect_token) p;
          let p = netcode_write_bytes p (ctp_client_to_server_key connect_token);
          let p = netcode_write_bytes p (ctp_server_to_client_key connect_token);
          let p = netcode_write_bytes p (ctp_user_data connect_token);
          c_assert (length p \<le> NETCODE_CONNECT_TOKEN_PRIVATE_BYTES - NETCODE_MAC_BYTES);
          Some (p @ replicate (NETCODE_CONNECT_TOKEN_PRIVATE_BYTES - length p) 0) }"

text \<open>The associated data of the private token's encryption.\<close>

definition connect_token_additional_data :: "bytes \<Rightarrow> u64 \<Rightarrow> u64 \<Rightarrow> bytes" where
  "connect_token_additional_data version_info protocol_id expire_timestamp =
     netcode_write_uint64
       (netcode_write_uint64 (netcode_write_bytes [] version_info) protocol_id) expire_timestamp"

text \<open>
  Encryption and decryption work in place: the result is what the whole buffer holds afterwards. After a
  decryption the last 16 bytes of the buffer still hold the tag.
\<close>

definition netcode_encrypt_connect_token_private ::
    "crypto \<Rightarrow> bytes \<Rightarrow> bytes \<Rightarrow> u64 \<Rightarrow> u64 \<Rightarrow> u64 \<Rightarrow> bytes \<Rightarrow> bytes c_result option" where
  "netcode_encrypt_connect_token_private cr buffer version_info protocol_id expire_timestamp sequence key =
     do { c_assert (length buffer = NETCODE_CONNECT_TOKEN_PRIVATE_BYTES);
          netcode_encrypt_aead cr
            (take (NETCODE_CONNECT_TOKEN_PRIVATE_BYTES - NETCODE_MAC_BYTES) buffer)
            (connect_token_additional_data version_info protocol_id expire_timestamp)
            (sequence_nonce sequence) key }"

definition netcode_decrypt_connect_token_private ::
    "crypto \<Rightarrow> bytes \<Rightarrow> bytes \<Rightarrow> u64 \<Rightarrow> u64 \<Rightarrow> u64 \<Rightarrow> bytes \<Rightarrow> bytes c_result option" where
  "netcode_decrypt_connect_token_private cr buffer version_info protocol_id expire_timestamp sequence key =
     do { c_assert (length buffer = NETCODE_CONNECT_TOKEN_PRIVATE_BYTES);
          r \<leftarrow> netcode_decrypt_aead cr buffer
            (connect_token_additional_data version_info protocol_id expire_timestamp)
            (sequence_nonce sequence) key;
          Some (case r of
              NETCODE_ERROR \<Rightarrow> NETCODE_ERROR
            | NETCODE_OK m \<Rightarrow> NETCODE_OK (m @ drop (length m) buffer)) }"

definition netcode_read_connect_token_private :: "bytes \<Rightarrow> connect_token_private c_result option" where
  "netcode_read_connect_token_private buffer =
     (if length buffer < NETCODE_CONNECT_TOKEN_PRIVATE_BYTES then Some NETCODE_ERROR
      else do {
        (client_id, p) \<leftarrow> netcode_read_uint64 buffer;
        (timeout_seconds, p) \<leftarrow> netcode_read_uint32 p;
        (num_server_addresses, p) \<leftarrow> netcode_read_uint32 p;
        if sint num_server_addresses \<le> 0 then Some NETCODE_ERROR
        else if sint num_server_addresses > int NETCODE_MAX_SERVERS_PER_CONNECT then Some NETCODE_ERROR
        else do {
          r \<leftarrow> read_server_addresses (nat (sint num_server_addresses)) 0
                 (replicate NETCODE_MAX_SERVERS_PER_CONNECT zero_address) p;
          (case r of
             NETCODE_ERROR \<Rightarrow> Some NETCODE_ERROR
           | NETCODE_OK (server_addresses, p) \<Rightarrow> do {
               (client_to_server_key, p) \<leftarrow> netcode_read_bytes NETCODE_KEY_BYTES p;
               (server_to_client_key, p) \<leftarrow> netcode_read_bytes NETCODE_KEY_BYTES p;
               (user_data, p) \<leftarrow> netcode_read_bytes NETCODE_USER_DATA_BYTES p;
               Some (NETCODE_OK \<lparr>ctp_client_id = client_id,
                 ctp_timeout_seconds = sint timeout_seconds,
                 ctp_num_server_addresses = sint num_server_addresses,
                 ctp_server_addresses = server_addresses,
                 ctp_client_to_server_key = client_to_server_key,
                 ctp_server_to_client_key = server_to_client_key,
                 ctp_user_data = user_data\<rparr>) }) } })"

section \<open>Challenge token\<close>

definition netcode_write_challenge_token :: "challenge_token \<Rightarrow> int \<Rightarrow> bytes option" where
  "netcode_write_challenge_token challenge_token buffer_length =
     do { c_assert (buffer_length \<ge> int NETCODE_CHALLENGE_TOKEN_BYTES);
          let p = netcode_write_uint64 [] (cht_client_id challenge_token);
          let p = netcode_write_bytes p (cht_user_data challenge_token);
          c_assert (length p \<le> NETCODE_CHALLENGE_TOKEN_BYTES - NETCODE_MAC_BYTES);
          Some (p @ replicate (NETCODE_CHALLENGE_TOKEN_BYTES - length p) 0) }"

definition netcode_encrypt_challenge_token :: "crypto \<Rightarrow> bytes \<Rightarrow> u64 \<Rightarrow> bytes \<Rightarrow> bytes c_result option" where
  "netcode_encrypt_challenge_token cr buffer sequence key =
     do { c_assert (length buffer \<ge> NETCODE_CHALLENGE_TOKEN_BYTES);
          netcode_encrypt_aead cr (take (NETCODE_CHALLENGE_TOKEN_BYTES - NETCODE_MAC_BYTES) buffer) []
            (sequence_nonce sequence) key }"

definition netcode_decrypt_challenge_token :: "crypto \<Rightarrow> bytes \<Rightarrow> u64 \<Rightarrow> bytes \<Rightarrow> bytes c_result option" where
  "netcode_decrypt_challenge_token cr buffer sequence key =
     do { c_assert (length buffer \<ge> NETCODE_CHALLENGE_TOKEN_BYTES);
          r \<leftarrow> netcode_decrypt_aead cr (take NETCODE_CHALLENGE_TOKEN_BYTES buffer) []
                 (sequence_nonce sequence) key;
          Some (case r of
              NETCODE_ERROR \<Rightarrow> NETCODE_ERROR
            | NETCODE_OK m \<Rightarrow> NETCODE_OK (m @ drop (length m) buffer)) }"

definition netcode_read_challenge_token :: "bytes \<Rightarrow> challenge_token c_result option" where
  "netcode_read_challenge_token buffer =
     (if length buffer < NETCODE_CHALLENGE_TOKEN_BYTES then Some NETCODE_ERROR
      else do {
        (client_id, p) \<leftarrow> netcode_read_uint64 buffer;
        (user_data, p) \<leftarrow> netcode_read_bytes NETCODE_USER_DATA_BYTES p;
        c_assert (length buffer - length p = 8 + NETCODE_USER_DATA_BYTES);
        Some (NETCODE_OK \<lparr>cht_client_id = client_id, cht_user_data = user_data\<rparr>) })"

section \<open>Public connect token\<close>

definition netcode_write_connect_token :: "connect_token \<Rightarrow> int \<Rightarrow> bytes option" where
  "netcode_write_connect_token connect_token buffer_length =
     do { c_assert (buffer_length \<ge> int NETCODE_CONNECT_TOKEN_BYTES);
          let p = netcode_write_bytes [] (ct_version_info connect_token);
          let p = netcode_write_uint64 p (ct_protocol_id connect_token);
          let p = netcode_write_uint64 p (ct_create_timestamp connect_token);
          let p = netcode_write_uint64 p (ct_expire_timestamp connect_token);
          let p = netcode_write_uint64 p (ct_sequence connect_token);
          let p = netcode_write_bytes p (ct_private_data connect_token);
          let p = netcode_write_uint32 p (word_of_int (ct_timeout_seconds connect_token));
          let p = netcode_write_uint32 p (word_of_int (ct_num_server_addresses connect_token));
          p \<leftarrow> write_server_addresses (nat (ct_num_server_addresses connect_token)) 0
                 (ct_server_addresses connect_token) p;
          let p = netcode_write_bytes p (ct_client_to_server_key connect_token);
          let p = netcode_write_bytes p (ct_server_to_client_key connect_token);
          c_assert (length p \<le> NETCODE_CONNECT_TOKEN_BYTES);
          Some (p @ replicate (NETCODE_CONNECT_TOKEN_BYTES - length p) 0) }"

text \<open>
  The reader fills the caller's token field by field, so that what it has read stays there
  when it returns \<^verbatim>\<open>NETCODE_ERROR\<close> (\<open>False\<close>). After an address of unknown type the array is
  left as it was: no code reads it before it is filled again.
\<close>

definition netcode_read_connect_token :: "bytes \<Rightarrow> connect_token \<Rightarrow> (bool \<times> connect_token) option" where
  "netcode_read_connect_token buffer connect_token =
     (if length buffer \<noteq> NETCODE_CONNECT_TOKEN_BYTES then Some (False, connect_token)
      else do {
        (version_info, p) \<leftarrow> netcode_read_bytes NETCODE_VERSION_INFO_BYTES buffer;
        let connect_token = connect_token\<lparr>ct_version_info := version_info\<rparr>;
        if version_info \<noteq> NETCODE_VERSION_INFO then
          Some (False, connect_token\<lparr>ct_version_info := version_info[12 := 0]\<rparr>)
        else do {
          (protocol_id, p) \<leftarrow> netcode_read_uint64 p;
          (create_timestamp, p) \<leftarrow> netcode_read_uint64 p;
          (expire_timestamp, p) \<leftarrow> netcode_read_uint64 p;
          let connect_token = connect_token\<lparr>ct_protocol_id := protocol_id,
            ct_create_timestamp := create_timestamp, ct_expire_timestamp := expire_timestamp\<rparr>;
          if create_timestamp > expire_timestamp then Some (False, connect_token)
          else do {
            (sequence, p) \<leftarrow> netcode_read_uint64 p;
            (private_data, p) \<leftarrow> netcode_read_bytes NETCODE_CONNECT_TOKEN_PRIVATE_BYTES p;
            (timeout_seconds, p) \<leftarrow> netcode_read_uint32 p;
            (num_server_addresses, p) \<leftarrow> netcode_read_uint32 p;
            let connect_token = connect_token\<lparr>ct_sequence := sequence,
              ct_private_data := private_data, ct_timeout_seconds := sint timeout_seconds,
              ct_num_server_addresses := sint num_server_addresses\<rparr>;
            if sint num_server_addresses \<le> 0
               \<or> sint num_server_addresses > int NETCODE_MAX_SERVERS_PER_CONNECT
            then Some (False, connect_token)
            else do {
              r \<leftarrow> read_server_addresses (nat (sint num_server_addresses)) 0
                     (ct_server_addresses connect_token) p;
              (case r of
                 NETCODE_ERROR \<Rightarrow> Some (False, connect_token)
               | NETCODE_OK (server_addresses, p) \<Rightarrow> do {
                   (client_to_server_key, p) \<leftarrow> netcode_read_bytes NETCODE_KEY_BYTES p;
                   (server_to_client_key, p) \<leftarrow> netcode_read_bytes NETCODE_KEY_BYTES p;
                   Some (True, connect_token\<lparr>ct_server_addresses := server_addresses,
                     ct_client_to_server_key := client_to_server_key,
                     ct_server_to_client_key := server_to_client_key\<rparr>) }) } } } })"

section \<open>Server address lists, written and read\<close>

lemma write_server_address_ok:
  assumes "address_ok a"
  obtains w where "\<And>p. write_server_address a p = Some (p @ w)" and "length w \<le> 19"
    and "\<And>k i xs rest. read_server_addresses (Suc k) i xs (w @ rest)
           = read_server_addresses k (Suc i) (xs[i := a]) rest"
proof (cases a)
  case (ADDRESS_NONE port)
  with assms show ?thesis by (simp add: address_ok_def)
next
  case (ADDRESS_IPV4 x port)
  let ?w = "netcode_write_uint8 [] 1 @ write_each netcode_write_uint8 [] x @ netcode_write_uint16 [] port"
  from ADDRESS_IPV4 assms have "length x = 4" by (simp add: address_ok_def)
  then show ?thesis
  proof (intro that [of ?w])
    show "write_server_address a p = Some (p @ ?w)" for p
      by (simp add: ADDRESS_IPV4 wire_simps)
  qed (simp_all add: ADDRESS_IPV4)
next
  case (ADDRESS_IPV6 x port)
  let ?w = "netcode_write_uint8 [] 2 @ write_each netcode_write_uint16 [] x @ netcode_write_uint16 [] port"
  from ADDRESS_IPV6 assms have "length x = 8" by (simp add: address_ok_def)
  then show ?thesis
  proof (intro that [of ?w])
    show "write_server_address a p = Some (p @ ?w)" for p
      by (simp add: ADDRESS_IPV6 wire_simps)
  qed (simp_all add: ADDRESS_IPV6)
qed

lemma write_server_addresses_ok:
  assumes "\<And>j. i \<le> j \<Longrightarrow> j < i + k \<Longrightarrow> address_ok (xs ! j)"
  obtains w where "\<And>p. write_server_addresses k i xs p = Some (p @ w)" and "length w \<le> 19 * k"
    and "\<And>ys rest. read_server_addresses k i ys (w @ rest) = Some (NETCODE_OK (overwrite k i xs ys, rest))"
  using assms
proof (induction k arbitrary: i thesis)
  case 0
  show ?case by (rule "0.prems"(1) [of "[]"]) simp_all
next
  case (Suc k)
  have "address_ok (xs ! i)" using Suc.prems(2) by simp
  then obtain w1 where w1: "\<And>p. write_server_address (xs ! i) p = Some (p @ w1)" "length w1 \<le> 19"
    "\<And>k j ys rest. read_server_addresses (Suc k) j ys (w1 @ rest)
       = read_server_addresses k (Suc j) (ys[j := xs ! i]) rest"
    by (rule write_server_address_ok) blast
  obtain w2 where w2: "\<And>p. write_server_addresses k (Suc i) xs p = Some (p @ w2)" "length w2 \<le> 19 * k"
    "\<And>ys rest. read_server_addresses k (Suc i) ys (w2 @ rest)
       = Some (NETCODE_OK (overwrite k (Suc i) xs ys, rest))"
    using Suc.IH [of "Suc i"] Suc.prems(2) by (metis Suc_leD add_Suc add_Suc_right)
  show ?case
  proof (rule Suc.prems(1) [of "w1 @ w2"])
    show "read_server_addresses (Suc k) i ys ((w1 @ w2) @ rest)
        = Some (NETCODE_OK (overwrite (Suc k) i xs ys, rest))" for ys rest
      using w1(3) [of k i ys "w2 @ rest"] w2(3) by simp
  qed (use w1 w2 in simp_all)
qed

text \<open>Reading a list never leaves a buffer with 19 bytes for each address.\<close>

lemma runs_read_each_u8:
  "n \<le> length p \<Longrightarrow> (\<And>vs. length vs = n \<Longrightarrow> Q (vs, drop n p)) \<Longrightarrow> runs (read_each netcode_read_uint8 n p) Q"
  using u8_codec.read_each_in_bounds [of n p] by auto

lemma runs_read_each_u16:
  "2 * n \<le> length p \<Longrightarrow> (\<And>vs. length vs = n \<Longrightarrow> Q (vs, drop (2 * n) p)) \<Longrightarrow>
   runs (read_each netcode_read_uint16 n p) Q"
  using u16_codec.read_each_in_bounds [of n p] by auto

lemma runs_read_server_addresses:
  assumes "19 * k + m \<le> length p" and "i + k \<le> length xs"
    and "Q NETCODE_ERROR"
    and "\<And>ys q. length ys = length xs \<Longrightarrow> m \<le> length q \<Longrightarrow>
           (\<forall>j. i \<le> j \<and> j < i + k \<longrightarrow> address_ok (ys ! j)) \<Longrightarrow>
           (\<forall>j. j < i \<longrightarrow> ys ! j = xs ! j) \<Longrightarrow> (\<forall>j \<ge> i + k. j < length xs \<longrightarrow> ys ! j = xs ! j) \<Longrightarrow>
           Q (NETCODE_OK (ys, q))"
  shows "runs (read_server_addresses k i xs p) Q"
  using assms
proof (induction k arbitrary: i xs p)
  case 0
  from "0.prems"(1) show ?case by (auto intro!: "0.prems"(4))
next
  case (Suc k)
  have step: "runs (read_server_addresses k (Suc i) (xs[i := a]) q) Q"
    if "address_ok a" and "19 * k + m \<le> length q" for a q
  proof (rule Suc.IH [OF that(2) _ Suc.prems(3)])
    show "Suc i + k \<le> length (xs[i := a])" using Suc.prems(2) by simp
  next
    fix ys and r :: bytes
    assume a: "length ys = length (xs[i := a])" "m \<le> length r"
      "\<forall>j. Suc i \<le> j \<and> j < Suc i + k \<longrightarrow> address_ok (ys ! j)"
      "\<forall>j. j < Suc i \<longrightarrow> ys ! j = xs[i := a] ! j"
      "\<forall>j \<ge> Suc i + k. j < length (xs[i := a]) \<longrightarrow> ys ! j = xs[i := a] ! j"
    have "ys ! i = a" using a(4) Suc.prems(2) by simp
    then have ok: "address_ok (ys ! j)" if "i \<le> j" and "j < i + Suc k" for j
      using that a(3) \<open>address_ok a\<close> by (cases "j = i") auto
    show "Q (NETCODE_OK (ys, r))"
      using a(1,2,4,5) ok by (intro Suc.prems(4)) auto
  qed
  have v4: "runs (do { (ipv4, p) \<leftarrow> read_each netcode_read_uint8 4 q; (port, p) \<leftarrow> netcode_read_uint16 p;
       read_server_addresses k (Suc i) (xs[i := ADDRESS_IPV4 ipv4 port]) p }) Q"
    if "18 + (19 * k + m) \<le> length q" for q
    unfolding runs_bind
    by (rule runs_read_each_u8, use that in simp, simp only: prod.case runs_bind,
        rule runs_read_uint16, use that in simp, simp only: prod.case runs_bind,
        rule step, simp add: address_ok_def, use that in simp)
  have v6: "runs (do { (ipv6, p) \<leftarrow> read_each netcode_read_uint16 8 q; (port, p) \<leftarrow> netcode_read_uint16 p;
       read_server_addresses k (Suc i) (xs[i := ADDRESS_IPV6 ipv6 port]) p }) Q"
    if "18 + (19 * k + m) \<le> length q" for q
    unfolding runs_bind
    by (rule runs_read_each_u16, use that in simp, simp only: prod.case runs_bind,
        rule runs_read_uint16, use that in simp, simp only: prod.case runs_bind,
        rule step, simp add: address_ok_def, use that in simp)
  from Suc.prems(1) have "18 + (19 * k + m) \<le> length (drop 1 p)" by simp
  with v4 [of "drop 1 p"] v6 [of "drop 1 p"] Suc.prems(1,3) show ?case
    by (simp add: runs_bind [of "netcode_read_uint8 p"] runs_read_uint8)
qed

section \<open>Well-formed tokens\<close>

definition server_addresses_ok :: "int \<Rightarrow> netcode_address list \<Rightarrow> bool" where
  "server_addresses_ok n xs \<longleftrightarrow> 0 < n \<and> n \<le> int NETCODE_MAX_SERVERS_PER_CONNECT
     \<and> length xs = NETCODE_MAX_SERVERS_PER_CONNECT \<and> (\<forall>i < nat n. address_ok (xs ! i))"

definition connect_token_private_wf :: "connect_token_private \<Rightarrow> bool" where
  "connect_token_private_wf t \<longleftrightarrow>
     server_addresses_ok (ctp_num_server_addresses t) (ctp_server_addresses t)
     \<and> int32 (ctp_timeout_seconds t)
     \<and> length (ctp_client_to_server_key t) = NETCODE_KEY_BYTES
     \<and> length (ctp_server_to_client_key t) = NETCODE_KEY_BYTES
     \<and> length (ctp_user_data t) = NETCODE_USER_DATA_BYTES"

definition connect_token_wf :: "connect_token \<Rightarrow> bool" where
  "connect_token_wf t \<longleftrightarrow>
     server_addresses_ok (ct_num_server_addresses t) (ct_server_addresses t)
     \<and> int32 (ct_timeout_seconds t)
     \<and> ct_version_info t = NETCODE_VERSION_INFO
     \<and> ct_create_timestamp t \<le> ct_expire_timestamp t
     \<and> length (ct_private_data t) = NETCODE_CONNECT_TOKEN_PRIVATE_BYTES
     \<and> length (ct_client_to_server_key t) = NETCODE_KEY_BYTES
     \<and> length (ct_server_to_client_key t) = NETCODE_KEY_BYTES"

text \<open>The array of a token that nothing but its first addresses was ever written to.\<close>

definition rest_zero :: "int \<Rightarrow> netcode_address list \<Rightarrow> bool" where
  "rest_zero n xs \<longleftrightarrow> (\<forall>i. nat n \<le> i \<longrightarrow> i < NETCODE_MAX_SERVERS_PER_CONNECT \<longrightarrow> xs ! i = zero_address)"

lemma overwrite_zero_addresses:
  "server_addresses_ok n xs \<Longrightarrow> rest_zero n xs \<Longrightarrow>
   overwrite (nat n) 0 xs (replicate NETCODE_MAX_SERVERS_PER_CONNECT zero_address) = xs"
  by (rule overwrite_prefix) (auto simp: server_addresses_ok_def rest_zero_def)

section \<open>Round trips\<close>

lemma write_addresses_of_token:
  assumes "server_addresses_ok n xs"
  obtains w where "\<And>p. write_server_addresses (nat n) 0 xs p = Some (p @ w)" and "length w \<le> 608"
    and "\<And>ys rest. read_server_addresses (nat n) 0 ys (w @ rest) = Some (NETCODE_OK (overwrite (nat n) 0 xs ys, rest))"
proof -
  have "address_ok (xs ! j)" if "0 \<le> j" and "j < 0 + nat n" for j
    using assms that by (simp add: server_addresses_ok_def)
  then obtain w where w: "\<And>p. write_server_addresses (nat n) 0 xs p = Some (p @ w)" "length w \<le> 19 * nat n"
    "\<And>ys rest. read_server_addresses (nat n) 0 ys (w @ rest) = Some (NETCODE_OK (overwrite (nat n) 0 xs ys, rest))"
    using write_server_addresses_ok [of 0 "nat n" xs] by metis
  moreover have "nat n \<le> 32" using assms by (auto simp: server_addresses_ok_def)
  ultimately show ?thesis using that [of w] by simp
qed

lemma server_addresses_ok_int32: "server_addresses_ok n xs \<Longrightarrow> int32 n"
  by (simp add: server_addresses_ok_def int32_def)

lemma private_token_written:
  assumes "connect_token_private_wf t" and "rest_zero (ctp_num_server_addresses t) (ctp_server_addresses t)"
  obtains w where "netcode_write_connect_token_private t 1024 = Some (w @ replicate (1024 - length w) 0)"
    and "length w \<le> 1008"
    and "\<And>tail. length tail + length w = 1024 \<Longrightarrow>
           netcode_read_connect_token_private (w @ tail) = Some (NETCODE_OK t)"
proof -
  let ?n = "ctp_num_server_addresses t"
  from assms(1) have ok: "server_addresses_ok ?n (ctp_server_addresses t)"
    and wf: "int32 (ctp_timeout_seconds t)" "length (ctp_client_to_server_key t) = 32"
      "length (ctp_server_to_client_key t) = 32" "length (ctp_user_data t) = 256"
    by (simp_all add: connect_token_private_wf_def)
  from ok obtain a where a: "\<And>p. write_server_addresses (nat ?n) 0 (ctp_server_addresses t) p = Some (p @ a)"
    "length a \<le> 608"
    "\<And>ys rest. read_server_addresses (nat ?n) 0 ys (a @ rest)
       = Some (NETCODE_OK (overwrite (nat ?n) 0 (ctp_server_addresses t) ys, rest))"
    by (rule write_addresses_of_token) blast
  have n: "0 < ?n" "?n \<le> 32" "int32 ?n"
    using ok server_addresses_ok_int32 [OF ok] by (simp_all add: server_addresses_ok_def)
  let ?w = "netcode_write_uint64 [] (ctp_client_id t)
    @ netcode_write_uint32 [] (word_of_int (ctp_timeout_seconds t)) @ netcode_write_uint32 [] (word_of_int ?n)
    @ a @ ctp_client_to_server_key t @ ctp_server_to_client_key t @ ctp_user_data t"
  have "netcode_write_connect_token_private t 1024 = Some (?w @ replicate (1024 - length ?w) 0)"
    using n a wf by (simp add: netcode_write_connect_token_private_def wire_simps Let_def)
  moreover have "length ?w \<le> 1008" using a(2) wf by simp
  moreover have "netcode_read_connect_token_private (?w @ tail) = Some (NETCODE_OK t)"
    if "length tail + length ?w = 1024" for tail
    using that n a(3) wf overwrite_zero_addresses [OF ok assms(2)]
    by (simp add: netcode_read_connect_token_private_def)
  ultimately show ?thesis by (rule that)
qed

lemma connect_token_written:
  assumes "connect_token_wf t"
  obtains w where "netcode_write_connect_token t 2048 = Some (w @ replicate (2048 - length w) 0)"
    and "length w \<le> 1749"
    and "\<And>tail old. length tail + length w = 2048 \<Longrightarrow>
           netcode_read_connect_token (w @ tail) old = Some (True,
             t\<lparr>ct_server_addresses := overwrite (nat (ct_num_server_addresses t)) 0
                 (ct_server_addresses t) (ct_server_addresses old)\<rparr>)"
proof -
  let ?n = "ct_num_server_addresses t"
  from assms have ok: "server_addresses_ok ?n (ct_server_addresses t)"
    and wf: "int32 (ct_timeout_seconds t)" "length (ct_client_to_server_key t) = 32"
      "length (ct_server_to_client_key t) = 32" "length (ct_private_data t) = 1024"
      "ct_version_info t = NETCODE_VERSION_INFO" "ct_create_timestamp t \<le> ct_expire_timestamp t"
    by (simp_all add: connect_token_wf_def)
  from ok obtain a where a: "\<And>p. write_server_addresses (nat ?n) 0 (ct_server_addresses t) p = Some (p @ a)"
    "length a \<le> 608"
    "\<And>ys rest. read_server_addresses (nat ?n) 0 ys (a @ rest)
       = Some (NETCODE_OK (overwrite (nat ?n) 0 (ct_server_addresses t) ys, rest))"
    by (rule write_addresses_of_token) blast
  have n: "0 < ?n" "?n \<le> 32" "int32 ?n"
    using ok server_addresses_ok_int32 [OF ok] by (simp_all add: server_addresses_ok_def)
  let ?w = "NETCODE_VERSION_INFO @ netcode_write_uint64 [] (ct_protocol_id t)
    @ netcode_write_uint64 [] (ct_create_timestamp t) @ netcode_write_uint64 [] (ct_expire_timestamp t)
    @ netcode_write_uint64 [] (ct_sequence t) @ ct_private_data t
    @ netcode_write_uint32 [] (word_of_int (ct_timeout_seconds t)) @ netcode_write_uint32 [] (word_of_int ?n)
    @ a @ ct_client_to_server_key t @ ct_server_to_client_key t"
  have "netcode_write_connect_token t 2048 = Some (?w @ replicate (2048 - length ?w) 0)"
    using n a wf by (simp add: netcode_write_connect_token_def wire_simps Let_def)
  moreover have "length ?w \<le> 1749" using a(2) wf by simp
  moreover have "netcode_read_connect_token (?w @ tail) old = Some (True,
      t\<lparr>ct_server_addresses := overwrite (nat ?n) 0 (ct_server_addresses t) (ct_server_addresses old)\<rparr>)"
    if "length tail + length ?w = 2048" for tail and old :: connect_token
    using that n a(3) wf
    by (simp add: netcode_read_connect_token_def Let_def)
  ultimately show ?thesis by (rule that)
qed

text \<open>Reading validates, and never reads past the buffer.\<close>

lemma runs_read_private:
  "runs (netcode_read_connect_token_private buffer)
     (\<lambda>r. case r of NETCODE_ERROR \<Rightarrow> True | NETCODE_OK t \<Rightarrow> connect_token_private_wf t)"
proof (cases "length buffer < 1024")
  case True
  then show ?thesis by (simp add: netcode_read_connect_token_private_def)
next
  case False
  then obtain a p where p: "netcode_read_uint64 buffer = Some (a, p)" "length p \<ge> 1016"
    using read_uint64_None [of buffer] by (cases "netcode_read_uint64 buffer") (auto dest: read_uint64_shape)
  then obtain b q where q: "netcode_read_uint32 p = Some (b, q)" "length q \<ge> 1012"
    using read_uint32_None [of p] by (cases "netcode_read_uint32 p") (auto dest: read_uint32_shape)
  then obtain c r where r: "netcode_read_uint32 q = Some (c, r)" "length r \<ge> 1008"
    using read_uint32_None [of q] by (cases "netcode_read_uint32 q") (auto dest: read_uint32_shape)
  show ?thesis
  proof (cases "sint c \<le> 0 \<or> sint c > 32")
    case True
    with False p q r show ?thesis by (auto simp: netcode_read_connect_token_private_def)
  next
    case count: False
    let ?Q = "\<lambda>z. case z of NETCODE_ERROR \<Rightarrow> True
      | NETCODE_OK (ys, u) \<Rightarrow> 320 \<le> length u \<and> server_addresses_ok (sint c) ys"
    have "nat (sint c) \<le> 32" using count by (simp add: nat_le_iff)
    then have "19 * nat (sint c) + 320 \<le> length r" using r(2) by simp
    then have "runs (read_server_addresses (nat (sint c)) 0 (replicate 32 zero_address) r) ?Q"
      by (rule runs_read_server_addresses) (use count in \<open>auto simp: server_addresses_ok_def\<close>)
    then obtain z where "read_server_addresses (nat (sint c)) 0 (replicate 32 zero_address) r = Some z" "?Q z"
      by (rule runsE)
    with False p q r count show ?thesis
      by (auto simp: netcode_read_connect_token_private_def connect_token_private_wf_def read_bytes_take
          split: c_result.splits)
  qed
qed

lemma runs_read_connect_token:
  assumes "length (ct_server_addresses old) = 32"
  shows "runs (netcode_read_connect_token buffer old)
     (\<lambda>(ok, t). length (ct_server_addresses t) = 32 \<and> (ok \<longrightarrow> connect_token_wf t))"
proof (cases "length buffer = 2048 \<and> take 13 buffer = NETCODE_VERSION_INFO")
  case False
  with assms show ?thesis by (auto simp: netcode_read_connect_token_def read_bytes_take Let_def)
next
  case True
  have get64: "\<exists>v. netcode_read_uint64 p = Some (v, drop 8 p)" if "8 \<le> length p" for p
    using that read_uint64_None [of p] by (cases "netcode_read_uint64 p") (auto dest: read_uint64_shape)
  have get32: "\<exists>v. netcode_read_uint32 p = Some (v, drop 4 p)" if "4 \<le> length p" for p
    using that read_uint32_None [of p] by (cases "netcode_read_uint32 p") (auto dest: read_uint32_shape)
  from True obtain a b c d e f where
    p: "netcode_read_uint64 (drop 13 buffer) = Some (a, drop 21 buffer)"
      "netcode_read_uint64 (drop 21 buffer) = Some (b, drop 29 buffer)"
      "netcode_read_uint64 (drop 29 buffer) = Some (c, drop 37 buffer)"
      "netcode_read_uint64 (drop 37 buffer) = Some (d, drop 45 buffer)"
      "netcode_read_uint32 (drop 1069 buffer) = Some (e, drop 1073 buffer)"
      "netcode_read_uint32 (drop 1073 buffer) = Some (f, drop 1077 buffer)"
    using get64 [of "drop 13 buffer"] get64 [of "drop 21 buffer"] get64 [of "drop 29 buffer"]
      get64 [of "drop 37 buffer"] get32 [of "drop 1069 buffer"] get32 [of "drop 1073 buffer"] by auto
  note start = True p assms
  show ?thesis
  proof (cases "c < b \<or> sint f \<le> 0 \<or> sint f > 32")
    case True
    with start show ?thesis by (auto simp: netcode_read_connect_token_def read_bytes_take Let_def)
  next
    case count: False
    let ?Q = "\<lambda>z. case z of NETCODE_ERROR \<Rightarrow> True
      | NETCODE_OK (ys, u) \<Rightarrow> 64 \<le> length u \<and> server_addresses_ok (sint f) ys"
    have "nat (sint f) \<le> 32" using count by (simp add: nat_le_iff)
    then have "19 * nat (sint f) + 64 \<le> length (drop 1077 buffer)" using start(1) by simp
    then have "runs (read_server_addresses (nat (sint f)) 0 (ct_server_addresses old) (drop 1077 buffer)) ?Q"
      by (rule runs_read_server_addresses) (use count assms in \<open>auto simp: server_addresses_ok_def\<close>)
    then obtain z where "read_server_addresses (nat (sint f)) 0 (ct_server_addresses old) (drop 1077 buffer) = Some z"
      "?Q z" by (rule runsE)
    with start count show ?thesis
      by (auto simp: netcode_read_connect_token_def connect_token_wf_def server_addresses_ok_def
          read_bytes_take Let_def split: c_result.splits)
  qed
qed

section \<open>Sealing and opening\<close>

lemma sealed_private_token:
  assumes "aead_laws cr" and "length key = NETCODE_KEY_BYTES"
    and "connect_token_private_wf t" and "rest_zero (ctp_num_server_addresses t) (ctp_server_addresses t)"
  obtains plain sealed opened where
      "netcode_write_connect_token_private t 1024 = Some plain"
    and "netcode_encrypt_connect_token_private cr plain version_info protocol_id expire sequence key
        = Some (NETCODE_OK sealed)"
    and "length sealed = NETCODE_CONNECT_TOKEN_PRIVATE_BYTES"
    and "netcode_decrypt_connect_token_private cr sealed version_info protocol_id expire sequence key
        = Some (NETCODE_OK opened)"
    and "length opened = NETCODE_CONNECT_TOKEN_PRIVATE_BYTES"
    and "netcode_read_connect_token_private opened = Some (NETCODE_OK t)"
proof -
  obtain w where w: "netcode_write_connect_token_private t 1024 = Some (w @ replicate (1024 - length w) 0)"
    "length w \<le> 1008"
    "\<And>tail. length tail + length w = 1024 \<Longrightarrow> netcode_read_connect_token_private (w @ tail) = Some (NETCODE_OK t)"
    using private_token_written [OF assms(3,4)] by metis
  let ?m = "w @ replicate (1008 - length w) 0"
  have m: "take 1008 (w @ replicate (1024 - length w) 0) = ?m" using w(2) by simp
  obtain c where c: "netcode_encrypt_aead cr ?m (connect_token_additional_data version_info protocol_id expire)
      (sequence_nonce sequence) key = Some (NETCODE_OK c)"
    "length c = length ?m + 16"
    "netcode_decrypt_aead cr c (connect_token_additional_data version_info protocol_id expire)
      (sequence_nonce sequence) key = Some (NETCODE_OK ?m)"
    by (rule encrypt_aead_ok [OF assms(1) length_sequence_nonce assms(2)])
  have len: "length c = 1024" using c(2) w(2) by simp
  let ?tail = "replicate (1008 - length w) 0 @ drop 1008 c"
  have "netcode_encrypt_connect_token_private cr (w @ replicate (1024 - length w) 0)
      version_info protocol_id expire sequence key = Some (NETCODE_OK c)"
    using w(2) c(1) m by (simp add: netcode_encrypt_connect_token_private_def)
  moreover have "netcode_decrypt_connect_token_private cr c version_info protocol_id expire sequence key
      = Some (NETCODE_OK (w @ ?tail))"
    using w(2) c(3) len by (simp add: netcode_decrypt_connect_token_private_def)
  moreover have "netcode_read_connect_token_private (w @ ?tail) = Some (NETCODE_OK t)"
    using w(2) len by (intro w(3)) simp
  moreover have "length (w @ ?tail) = 1024" using len w(2) by simp
  ultimately show ?thesis using w(1) len that by blast
qed

lemma sealed_challenge_token:
  assumes "aead_laws cr" and "length key = NETCODE_KEY_BYTES"
    and "length (cht_user_data t) = NETCODE_USER_DATA_BYTES"
  obtains plain sealed opened where
      "netcode_write_challenge_token t 300 = Some plain"
    and "netcode_encrypt_challenge_token cr plain sequence key = Some (NETCODE_OK sealed)"
    and "length sealed = NETCODE_CHALLENGE_TOKEN_BYTES"
    and "netcode_decrypt_challenge_token cr sealed sequence key = Some (NETCODE_OK opened)"
    and "netcode_read_challenge_token opened = Some (NETCODE_OK t)"
proof -
  let ?w = "netcode_write_uint64 [] (cht_client_id t) @ cht_user_data t"
  let ?m = "?w @ replicate 20 0"
  have w: "netcode_write_challenge_token t 300 = Some (?w @ replicate 36 0)"
    using assms(3) by (simp add: netcode_write_challenge_token_def wire_simps Let_def)
  obtain c where c: "netcode_encrypt_aead cr ?m [] (sequence_nonce sequence) key = Some (NETCODE_OK c)"
    "length c = length ?m + 16" "netcode_decrypt_aead cr c [] (sequence_nonce sequence) key = Some (NETCODE_OK ?m)"
    by (rule encrypt_aead_ok [OF assms(1) length_sequence_nonce assms(2)])
  have len: "length c = 300" using c(2) assms(3) by simp
  have "netcode_encrypt_challenge_token cr (?w @ replicate 36 0) sequence key = Some (NETCODE_OK c)"
    using c(1) assms(3) by (simp add: netcode_encrypt_challenge_token_def)
  moreover have "netcode_decrypt_challenge_token cr c sequence key = Some (NETCODE_OK (?m @ drop 284 c))"
    using c(3) len assms(3) by (simp add: netcode_decrypt_challenge_token_def)
  moreover have "netcode_read_challenge_token (?m @ drop 284 c) = Some (NETCODE_OK t)"
    using len assms(3) by (simp add: netcode_read_challenge_token_def)
  ultimately show ?thesis using w len that by blast
qed

section \<open>Properties\<close>

text \<open>C11: sealing and opening the private connect token. A well-formed token is written, encrypted,
  decrypted with the same public data, sequence number and key, and read back unchanged; the sealed token
  fills the buffer of 1024 bytes exactly.\<close>

theorem private_token_sealed_and_opened:
  assumes "aead_laws cr" and "length key = NETCODE_KEY_BYTES"
    and "connect_token_private_wf t" and "rest_zero (ctp_num_server_addresses t) (ctp_server_addresses t)"
  shows "\<exists>plain sealed opened.
      netcode_write_connect_token_private t 1024 = Some plain
    \<and> netcode_encrypt_connect_token_private cr plain version_info protocol_id expire sequence key
        = Some (NETCODE_OK sealed)
    \<and> length sealed = NETCODE_CONNECT_TOKEN_PRIVATE_BYTES
    \<and> netcode_decrypt_connect_token_private cr sealed version_info protocol_id expire sequence key
        = Some (NETCODE_OK opened)
    \<and> netcode_read_connect_token_private opened = Some (NETCODE_OK t)"
  using sealed_private_token [OF assms, of version_info protocol_id expire sequence] by metis

definition example_private_token :: connect_token_private where
  "example_private_token = \<lparr>ctp_client_id = 1, ctp_timeout_seconds = 5, ctp_num_server_addresses = 1,
     ctp_server_addresses = ADDRESS_IPV4 [127, 0, 0, 1] 40000 # replicate 31 zero_address,
     ctp_client_to_server_key = replicate 32 1, ctp_server_to_client_key = replicate 32 2,
     ctp_user_data = replicate 256 3\<rparr>"

lemma example_private_token_wf:
  "connect_token_private_wf example_private_token"
  "rest_zero (ctp_num_server_addresses example_private_token) (ctp_server_addresses example_private_token)"
  by (auto simp: example_private_token_def connect_token_private_wf_def server_addresses_ok_def
      address_ok_def int32_def rest_zero_def nth_Cons')

theorem private_token_sealed_and_opened_witness:
  "\<exists>plain sealed opened.
      netcode_write_connect_token_private example_private_token 1024 = Some plain
    \<and> netcode_encrypt_connect_token_private clear_crypto plain NETCODE_VERSION_INFO 7 100 3 (replicate 32 9)
        = Some (NETCODE_OK sealed)
    \<and> length sealed = NETCODE_CONNECT_TOKEN_PRIVATE_BYTES
    \<and> netcode_decrypt_connect_token_private clear_crypto sealed NETCODE_VERSION_INFO 7 100 3 (replicate 32 9)
        = Some (NETCODE_OK opened)
    \<and> netcode_read_connect_token_private opened = Some (NETCODE_OK example_private_token)"
  by (rule private_token_sealed_and_opened) (simp_all add: example_private_token_wf)

text \<open>Reading a private connect token never reads past the buffer, whatever bytes it holds, and a
  token it accepts is well-formed: 1 to 32 server addresses, each an IPv4 or an IPv6 address.\<close>

lemma read_private_token_validates:
  "\<exists>r. netcode_read_connect_token_private buffer = Some r
     \<and> (case r of NETCODE_ERROR \<Rightarrow> True | NETCODE_OK t \<Rightarrow> connect_token_private_wf t)"
  using runs_read_private [of buffer] by (simp add: runs_ex)

text \<open>C31: sealing and opening the challenge token.\<close>

theorem challenge_token_sealed_and_opened:
  assumes "aead_laws cr" and "length key = NETCODE_KEY_BYTES"
    and "length (cht_user_data t) = NETCODE_USER_DATA_BYTES"
  shows "\<exists>plain sealed opened.
      netcode_write_challenge_token t 300 = Some plain
    \<and> netcode_encrypt_challenge_token cr plain sequence key = Some (NETCODE_OK sealed)
    \<and> length sealed = NETCODE_CHALLENGE_TOKEN_BYTES
    \<and> netcode_decrypt_challenge_token cr sealed sequence key = Some (NETCODE_OK opened)
    \<and> netcode_read_challenge_token opened = Some (NETCODE_OK t)"
  using sealed_challenge_token [OF assms, of sequence] by metis

theorem challenge_token_sealed_and_opened_witness:
  "\<exists>plain sealed opened.
      netcode_write_challenge_token \<lparr>cht_client_id = 7, cht_user_data = replicate 256 1\<rparr> 300 = Some plain
    \<and> netcode_encrypt_challenge_token clear_crypto plain 3 (replicate 32 9) = Some (NETCODE_OK sealed)
    \<and> length sealed = NETCODE_CHALLENGE_TOKEN_BYTES
    \<and> netcode_decrypt_challenge_token clear_crypto sealed 3 (replicate 32 9) = Some (NETCODE_OK opened)
    \<and> netcode_read_challenge_token opened
        = Some (NETCODE_OK \<lparr>cht_client_id = 7, cht_user_data = replicate 256 1\<rparr>)"
  by (rule challenge_token_sealed_and_opened) simp_all

text \<open>C13: the public connect token. A well-formed token always fits its buffer of 2048 bytes (1749 at most), and
  a reader with any previous content gets every field back, and every server address that counts.\<close>

theorem connect_token_roundtrip:
  assumes "connect_token_wf t"
  shows "\<exists>buffer. netcode_write_connect_token t 2048 = Some buffer
    \<and> length buffer = NETCODE_CONNECT_TOKEN_BYTES
    \<and> netcode_read_connect_token buffer old = Some (True,
        t\<lparr>ct_server_addresses := overwrite (nat (ct_num_server_addresses t)) 0
            (ct_server_addresses t) (ct_server_addresses old)\<rparr>)"
proof -
  obtain w where "netcode_write_connect_token t 2048 = Some (w @ replicate (2048 - length w) 0)"
    and "length w \<le> 1749"
    and "\<And>tail old. length tail + length w = 2048 \<Longrightarrow>
           netcode_read_connect_token (w @ tail) old = Some (True,
             t\<lparr>ct_server_addresses := overwrite (nat (ct_num_server_addresses t)) 0
                 (ct_server_addresses t) (ct_server_addresses old)\<rparr>)"
    using connect_token_written [OF assms] by metis
  then show ?thesis by simp
qed

definition example_connect_token :: connect_token where
  "example_connect_token = zero_connect_token\<lparr>ct_version_info := NETCODE_VERSION_INFO,
     ct_protocol_id := 7, ct_create_timestamp := 100, ct_expire_timestamp := 130,
     ct_timeout_seconds := 5, ct_num_server_addresses := 2,
     ct_server_addresses := ADDRESS_IPV4 [127, 0, 0, 1] 40000 # ADDRESS_IPV6 [0, 0, 0, 0, 0, 0, 0, 1] 40001
        # replicate 30 zero_address\<rparr>"

lemma example_connect_token_wf: "connect_token_wf example_connect_token"
  by (auto simp: example_connect_token_def zero_connect_token_def connect_token_wf_def
      server_addresses_ok_def address_ok_def int32_def nth_Cons')

theorem connect_token_roundtrip_witness:
  "\<exists>buffer. netcode_write_connect_token example_connect_token 2048 = Some buffer
    \<and> length buffer = NETCODE_CONNECT_TOKEN_BYTES
    \<and> netcode_read_connect_token buffer zero_connect_token = Some (True,
        example_connect_token\<lparr>ct_server_addresses := overwrite (nat (ct_num_server_addresses example_connect_token)) 0
            (ct_server_addresses example_connect_token) (ct_server_addresses zero_connect_token)\<rparr>)"
  by (rule connect_token_roundtrip) (rule example_connect_token_wf)

text \<open>C32: reading a public connect token never reads past the buffer, and a token it accepts is well-formed:
  the version, the timestamps in order, 1 to 32 IPv4 or IPv6 addresses.\<close>

theorem read_connect_token_validates:
  assumes "length (ct_server_addresses old) = NETCODE_MAX_SERVERS_PER_CONNECT"
  shows "\<exists>ok t. netcode_read_connect_token buffer old = Some (ok, t)
    \<and> length (ct_server_addresses t) = NETCODE_MAX_SERVERS_PER_CONNECT \<and> (ok \<longrightarrow> connect_token_wf t)"
  using runs_read_connect_token [OF assms, of buffer] by (auto simp: runs_ex)

theorem read_connect_token_validates_witness:
  "\<exists>ok t. netcode_read_connect_token (replicate 2048 78) zero_connect_token = Some (ok, t)
    \<and> length (ct_server_addresses t) = NETCODE_MAX_SERVERS_PER_CONNECT \<and> (ok \<longrightarrow> connect_token_wf t)"
  by (rule read_connect_token_validates) (simp add: zero_connect_token_def)

end
