(* ===== verification/Replay_Protection.thy ===== *)
theory Replay_Protection
  imports Prelude
begin

text \<open>
  \<^verbatim>\<open>struct netcode_replay_protection_t\<close>: the window of the last 256 sequence numbers. The abstract view is
  the set of sequence numbers accepted since the last reset; \<open>replay_inv\<close> relates a state to that set, and the
  one operation is proved to be the specification of \<^verbatim>\<open>STANDARD.md\<close> but for its bound: a packet is rejected exactly
  if it is at least 256, the size of the window, behind the most recent one, or was accepted before. (The document discards
  only what is more than 256 behind: it accepts the number exactly 256 behind, which the code refuses.) Sequence numbers
  with bit 63 set (the server's global packets) are outside the window: they are let through and not recorded.
  The locale \<open>duplicate_filter\<close> lifts "no accepted value is accepted again" from one step to runs.
\<close>

record replay_protection =
  rp_most_recent_sequence :: u64
  rp_received_packet :: "u64 list"

definition netcode_replay_protection_reset :: replay_protection where
  "netcode_replay_protection_reset = \<lparr>
     rp_most_recent_sequence = 0,
     rp_received_packet = replicate NETCODE_REPLAY_PROTECTION_BUFFER_SIZE 0xFFFFFFFFFFFFFFFF\<rparr>"

definition netcode_replay_protection_packet_already_received ::
    "replay_protection \<Rightarrow> u64 \<Rightarrow> bool \<times> replay_protection" where
  "netcode_replay_protection_packet_already_received rp sequence =
     (if sequence AND push_bit 63 1 \<noteq> 0 then (False, rp)
      else if sequence + of_nat NETCODE_REPLAY_PROTECTION_BUFFER_SIZE \<le> rp_most_recent_sequence rp
      then (True, rp)
      else
        let rp = (if sequence > rp_most_recent_sequence rp
                  then rp\<lparr>rp_most_recent_sequence := sequence\<rparr> else rp);
            index = unat (sequence mod of_nat NETCODE_REPLAY_PROTECTION_BUFFER_SIZE);
            received = rp_received_packet rp
        in if received ! index = 0xFFFFFFFFFFFFFFFF
           then (False, rp\<lparr>rp_received_packet := received[index := sequence]\<rparr>)
           else if received ! index \<ge> sequence then (True, rp)
           else (False, rp\<lparr>rp_received_packet := received[index := sequence]\<rparr>))"

section \<open>The abstract view\<close>

text \<open>The most recent of the accepted sequence numbers, 0 before the first.\<close>

definition newest :: "u64 set \<Rightarrow> nat" where
  "newest S = Max (insert 0 (unat ` S))"

definition replay_inv :: "replay_protection \<Rightarrow> u64 set \<Rightarrow> bool" where
  "replay_inv rp S \<longleftrightarrow> finite S \<and> (\<forall>s \<in> S. unat s < 2 ^ 63)
     \<and> length (rp_received_packet rp) = NETCODE_REPLAY_PROTECTION_BUFFER_SIZE
     \<and> unat (rp_most_recent_sequence rp) = newest S
     \<and> (\<forall>i < NETCODE_REPLAY_PROTECTION_BUFFER_SIZE.
          (rp_received_packet rp ! i = 0xFFFFFFFFFFFFFFFF \<and> (\<forall>s \<in> S. unat s mod 256 \<noteq> i))
        \<or> (rp_received_packet rp ! i \<in> S \<and> unat (rp_received_packet rp ! i) mod 256 = i
           \<and> (\<forall>s \<in> S. unat s mod 256 = i \<longrightarrow> s \<le> rp_received_packet rp ! i)))"

lemma unat_of_0xFF [simp]: "unat (0xFFFFFFFFFFFFFFFF :: u64) = 2 ^ 64 - 1"
  by simp

lemma top_bit: "(s :: u64) AND push_bit 63 1 \<noteq> 0 \<longleftrightarrow> \<not> unat s < 2 ^ 63"
proof -
  have "s AND push_bit 63 1 \<noteq> 0 \<longleftrightarrow> bit s 63"
    unfolding push_bit_eq_mult mult_1_left and_exp_eq_0_iff_not_bit by blast
  also have "\<dots> \<longleftrightarrow> bit (unat s) 63" by (simp add: bit_unsigned_iff)
  also have "\<dots> \<longleftrightarrow> odd (unat s div 2 ^ 63)" by (simp only: bit_iff_odd)
  also have "\<dots> \<longleftrightarrow> \<not> unat s < 2 ^ 63"
  proof -
    have "unat s < 2 ^ LENGTH(64)" by (rule unsigned_less)
    then have "unat s div 2 ^ 63 = 0 \<or> unat s div 2 ^ 63 = 1" by auto
    then show ?thesis by (metis div_eq_0_iff even_zero odd_one power_not_zero zero_neq_numeral)
  qed
  finally show ?thesis .
qed

lemma unat_mod_256: "unat ((s :: u64) mod 256) = unat s mod 256"
  by (simp add: unat_mod_distrib)

lemma unat_add_256: "unat (s :: u64) < 2 ^ 63 \<Longrightarrow> unat (s + 256) = unat s + 256"
  by (simp add: unat_word_ariths)

lemma newest_insert: "finite S \<Longrightarrow> newest (insert s S) = max (unat s) (newest S)"
  by (simp add: newest_def insert_commute [of 0])

lemma newest_ge: "finite S \<Longrightarrow> s \<in> S \<Longrightarrow> unat s \<le> newest S"
  by (simp add: newest_def)

lemma replay_inv_reset: "replay_inv netcode_replay_protection_reset {}"
  by (simp add: replay_inv_def netcode_replay_protection_reset_def newest_def)

lemma replay_inv_insert:
  assumes inv: "replay_inv rp S" and lt: "unat s < 2 ^ 63"
    and new: "\<forall>t \<in> S. unat t mod 256 = unat s mod 256 \<longrightarrow> t < s"
    and recent: "rp_most_recent_sequence rp' = max s (rp_most_recent_sequence rp)"
    and received: "rp_received_packet rp' = (rp_received_packet rp)[unat s mod 256 := s]"
  shows "replay_inv rp' (insert s S)"
proof -
  have fin: "finite S" and len: "length (rp_received_packet rp) = 256"
    and nr: "unat (rp_most_recent_sequence rp) = newest S"
    using inv by (simp_all add: replay_inv_def)
  have slot: "(rp_received_packet rp' ! i = 0xFFFFFFFFFFFFFFFF \<and> (\<forall>t \<in> insert s S. unat t mod 256 \<noteq> i))
      \<or> (rp_received_packet rp' ! i \<in> insert s S \<and> unat (rp_received_packet rp' ! i) mod 256 = i
         \<and> (\<forall>t \<in> insert s S. unat t mod 256 = i \<longrightarrow> t \<le> rp_received_packet rp' ! i))" if "i < 256" for i
  proof (cases "i = unat s mod 256")
    case True
    with len have "rp_received_packet rp' ! i = s" by (simp add: received)
    with True new show ?thesis by (auto intro: less_imp_le)
  next
    case False
    with that len have "rp_received_packet rp' ! i = rp_received_packet rp ! i" by (simp add: received)
    with False that inv show ?thesis unfolding replay_inv_def by auto
  qed
  have "unat (max s (rp_most_recent_sequence rp)) = max (unat s) (newest S)"
    by (simp add: max_def word_le_nat_alt flip: nr)
  with slot fin len lt inv show ?thesis
    by (simp add: replay_inv_def recent received newest_insert)
qed

lemma already_received_spec:
  assumes inv: "replay_inv rp S" and lt: "unat s < 2 ^ 63"
    and run: "netcode_replay_protection_packet_already_received rp s = (r, rp')"
  shows "r \<longleftrightarrow> unat s + 256 \<le> newest S \<or> s \<in> S"
    and "replay_inv rp' (if r then S else insert s S)"
proof -
  let ?i = "unat s mod 256" and ?e = "rp_received_packet rp ! (unat s mod 256)"
  have fin: "finite S" and nr: "unat (rp_most_recent_sequence rp) = newest S"
    and S: "\<forall>t \<in> S. unat t < 2 ^ 63" using inv by (simp_all add: replay_inv_def)
  have "?i < 256" by simp
  then have slot: "(?e = 0xFFFFFFFFFFFFFFFF \<and> (\<forall>t \<in> S. unat t mod 256 \<noteq> ?i))
    \<or> (?e \<in> S \<and> unat ?e mod 256 = ?i \<and> (\<forall>t \<in> S. unat t mod 256 = ?i \<longrightarrow> t \<le> ?e))"
    using inv unfolding replay_inv_def by blast
  have old: "s + 256 \<le> rp_most_recent_sequence rp \<longleftrightarrow> unat s + 256 \<le> newest S"
    by (simp add: word_le_nat_alt unat_add_256 [OF lt] nr)
  define rp1 where "rp1 = (if s > rp_most_recent_sequence rp then rp\<lparr>rp_most_recent_sequence := s\<rparr> else rp)"
  have rp1: "rp_received_packet rp1 = rp_received_packet rp"
    "rp_most_recent_sequence rp1 = max s (rp_most_recent_sequence rp)"
    by (auto simp: rp1_def max_def)
  have run1: "netcode_replay_protection_packet_already_received rp s =
     (if unat s + 256 \<le> newest S then (True, rp)
      else if ?e = 0xFFFFFFFFFFFFFFFF \<or> \<not> ?e \<ge> s
      then (False, rp1\<lparr>rp_received_packet := (rp_received_packet rp)[?i := s]\<rparr>)
      else (True, rp1))"
    using top_bit [of s] lt
    by (simp add: netcode_replay_protection_packet_already_received_def old unat_mod_256 Let_def
        flip: rp1_def add: rp1)
  have "(r \<longleftrightarrow> unat s + 256 \<le> newest S \<or> s \<in> S) \<and> replay_inv rp' (if r then S else insert s S)"
  proof (cases "unat s + 256 \<le> newest S")
    case True
    with run run1 inv show ?thesis by simp
  next
    case recent: False
    show ?thesis
    proof (cases "?e = 0xFFFFFFFFFFFFFFFF \<or> \<not> ?e \<ge> s")
      case True
      with slot S have new: "\<forall>t \<in> S. unat t mod 256 = ?i \<longrightarrow> t < s" by fastforce
      then have "s \<notin> S" by blast
      moreover have "replay_inv (rp1\<lparr>rp_received_packet := (rp_received_packet rp)[?i := s]\<rparr>) (insert s S)"
        by (rule replay_inv_insert [OF inv lt new]) (simp_all add: rp1)
      ultimately show ?thesis using True recent run run1 by auto
    next
      case False
      with slot have e: "?e \<in> S" "unat ?e mod 256 = ?i" "s \<le> ?e" by auto
      have "s = ?e"
      proof (rule ccontr)
        assume "s \<noteq> ?e"
        with e(3) have "s < ?e" by simp
        then have "unat s < unat ?e" by (simp add: word_less_nat_alt)
        with e(2) have "unat s + 256 \<le> unat ?e" by (intro same_residue_gap) simp_all
        with newest_ge [OF fin e(1)] recent show False by simp
      qed
      then have "s \<in> S" using e(1) by simp
      with newest_ge [OF fin this] have "\<not> s > rp_most_recent_sequence rp"
        by (simp add: word_less_nat_alt nr)
      then have "rp1 = rp" by (simp add: rp1_def)
      with False recent run run1 inv \<open>s \<in> S\<close> show ?thesis by simp
    qed
  qed
  then show "r \<longleftrightarrow> unat s + 256 \<le> newest S \<or> s \<in> S" and "replay_inv rp' (if r then S else insert s S)"
    by blast+
qed

lemma already_received_high:
  "\<not> unat s < 2 ^ 63 \<Longrightarrow> netcode_replay_protection_packet_already_received rp s = (False, rp)"
  using top_bit [of s] by (simp add: netcode_replay_protection_packet_already_received_def)

section \<open>Runs of a duplicate filter\<close>

text \<open>The values that a filter lets through, in order, when it is given a list of them one by one.\<close>

fun let_through :: "('s \<Rightarrow> 'k \<Rightarrow> bool \<times> 's) \<Rightarrow> 's \<Rightarrow> 'k list \<Rightarrow> 'k list \<times> 's" where
  "let_through check s [] = ([], s)"
| "let_through check s (k # ks) =
     (let (rejected, s) = check s k; (passed, s) = let_through check s ks
      in (if rejected then passed else k # passed, s))"

locale duplicate_filter =
  fixes check :: "'s \<Rightarrow> 'k \<Rightarrow> bool \<times> 's"
    and inv :: "'s \<Rightarrow> 'k set \<Rightarrow> bool"
    and tracked :: "'k \<Rightarrow> bool"
  assumes rejects_seen: "inv s K \<Longrightarrow> tracked k \<Longrightarrow> k \<in> K \<Longrightarrow> fst (check s k)"
    and keeps_inv: "inv s K \<Longrightarrow> tracked k \<Longrightarrow>
      inv (snd (check s k)) (if fst (check s k) then K else insert k K)"
begin

lemma let_through_distinct:
  "inv s K \<Longrightarrow> list_all tracked ks \<Longrightarrow> let_through check s ks = (passed, s') \<Longrightarrow>
   distinct passed \<and> set passed \<inter> K = {} \<and> inv s' (set passed \<union> K)"
proof (induction ks arbitrary: s K passed)
  case Nil
  then show ?case by simp
next
  case (Cons k ks)
  obtain r t where c: "check s k = (r, t)" by (cases "check s k")
  obtain passed1 where p: "let_through check t ks = (passed1, s')" "passed = (if r then passed1 else k # passed1)"
    using Cons.prems(3) c by (auto split: prod.splits)
  have inv: "inv t (if r then K else insert k K)"
    using keeps_inv [of s K k] Cons.prems(1,2) c by simp
  have seen: "k \<in> K \<Longrightarrow> r" using rejects_seen [of s K k] Cons.prems(1,2) c by simp
  have "distinct passed1 \<and> set passed1 \<inter> (if r then K else insert k K) = {}
      \<and> inv s' (set passed1 \<union> (if r then K else insert k K))"
    by (rule Cons.IH [OF inv _ p(1)]) (use Cons.prems(2) in simp)
  with p(2) seen show ?case by (cases r) auto
qed

end

interpretation replay_filter: duplicate_filter netcode_replay_protection_packet_already_received
    replay_inv "\<lambda>s. unat s < 2 ^ 63"
proof unfold_locales
  fix rp S and s :: u64
  assume "replay_inv rp S" and "unat s < 2 ^ 63"
  note spec = already_received_spec [OF this prod.collapse [symmetric]]
  show "s \<in> S \<Longrightarrow> fst (netcode_replay_protection_packet_already_received rp s)" using spec(1) by blast
  show "replay_inv (snd (netcode_replay_protection_packet_already_received rp s))
      (if fst (netcode_replay_protection_packet_already_received rp s) then S else insert s S)"
    using spec(2) by blast
qed

section \<open>Properties\<close>

text \<open>C9: replay protection implements its specification. In a state that has accepted the set \<open>S\<close>, a sequence number is
  reported as already received exactly if it is below 2^63 and in \<open>S\<close> or at least 256 behind the newest of \<open>S\<close>; the next
  state has accepted it too unless it was rejected. A number from 2^63 on is never refused and leaves the state as it is.\<close>

theorem replay_protection_refines_window:
  assumes "replay_inv rp S"
    and "netcode_replay_protection_packet_already_received rp s = (rejected, rp')"
  shows "(rejected \<longleftrightarrow> unat s < 2 ^ 63 \<and> (s \<in> S \<or> unat s + NETCODE_REPLAY_PROTECTION_BUFFER_SIZE \<le> newest S))
    \<and> (if unat s < 2 ^ 63 then replay_inv rp' (if rejected then S else insert s S) else rp' = rp)"
proof (cases "unat s < 2 ^ 63")
  case True
  with already_received_spec [OF assms(1) True assms(2)] show ?thesis by auto
next
  case False
  with already_received_high [OF False, of rp] assms show ?thesis by simp
qed

theorem replay_protection_refines_window_witness:
  "netcode_replay_protection_packet_already_received netcode_replay_protection_reset 5
     = (False, \<lparr>rp_most_recent_sequence = 5,
         rp_received_packet = (replicate 256 0xFFFFFFFFFFFFFFFF)[5 := 5]\<rparr>)
   \<and> replay_inv \<lparr>rp_most_recent_sequence = 5,
         rp_received_packet = (replicate 256 0xFFFFFFFFFFFFFFFF)[5 := 5]\<rparr> {5}"
proof -
  have run: "netcode_replay_protection_packet_already_received netcode_replay_protection_reset 5
     = (False, \<lparr>rp_most_recent_sequence = 5,
         rp_received_packet = (replicate 256 0xFFFFFFFFFFFFFFFF)[5 := 5]\<rparr>)"
    by (simp add: netcode_replay_protection_packet_already_received_def netcode_replay_protection_reset_def)
  from replay_protection_refines_window [OF replay_inv_reset this] run show ?thesis by simp
qed

text \<open>C14: no replay. Whatever the sequence numbers below 2^63 that arrive after a reset, in whatever order and however
  often, those let through are pairwise different.\<close>

theorem no_sequence_accepted_twice:
  assumes "\<forall>s \<in> set arrivals. unat s < 2 ^ 63"
  shows "distinct (fst (let_through netcode_replay_protection_packet_already_received
    netcode_replay_protection_reset arrivals))"
proof -
  have "list_all (\<lambda>s. unat s < 2 ^ 63) arrivals" using assms by (simp add: list_all_iff)
  from replay_filter.let_through_distinct [OF replay_inv_reset this prod.collapse [symmetric]]
  show ?thesis by blast
qed

theorem no_sequence_accepted_twice_witness:
  "distinct (fst (let_through netcode_replay_protection_packet_already_received
    netcode_replay_protection_reset [0, 1, 0, 300, 1, 45, 300]))"
  by (rule no_sequence_accepted_twice) simp

end
