(* ===== verification/Packets.thy ===== *)
theory Packets
  imports Connect_Token Replay_Protection Memory
begin

text \<open>
  The packets, their writer \<^verbatim>\<open>netcode_write_packet\<close> and their reader \<^verbatim>\<open>netcode_read_packet\<close>. A packet struct, which the
  C code handles as a \<^verbatim>\<open>void*\<close> whose first byte is the packet type, is a value of the datatype
  \<open>netcode_packet\<close>. The reader takes the datagram as received, checks it in the order of the code, runs the replay
  protection, decrypts and decodes, and allocates the block for the packet.
\<close>

section \<open>Data\<close>

record connection_request_packet =
  rq_version_info :: bytes
  rq_protocol_id :: u64
  rq_connect_token_expire_timestamp :: u64
  rq_connect_token_sequence :: u64
  rq_connect_token_data :: bytes

datatype netcode_packet =
    CONNECTION_REQUEST_PACKET connection_request_packet
  | CONNECTION_DENIED_PACKET
  | CONNECTION_CHALLENGE_PACKET u64 bytes
  | CONNECTION_RESPONSE_PACKET u64 bytes
  | CONNECTION_KEEP_ALIVE_PACKET int int
  | CONNECTION_PAYLOAD_PACKET bytes
  | CONNECTION_DISCONNECT_PACKET

fun packet_type :: "netcode_packet \<Rightarrow> byte" where
  "packet_type (CONNECTION_REQUEST_PACKET _) = 0"
| "packet_type CONNECTION_DENIED_PACKET = 1"
| "packet_type (CONNECTION_CHALLENGE_PACKET _ _) = 2"
| "packet_type (CONNECTION_RESPONSE_PACKET _ _) = 3"
| "packet_type (CONNECTION_KEEP_ALIVE_PACKET _ _) = 4"
| "packet_type (CONNECTION_PAYLOAD_PACKET _) = 5"
| "packet_type CONNECTION_DISCONNECT_PACKET = 6"

abbreviation (input) NETCODE_CONNECTION_NUM_PACKETS :: nat where
  "NETCODE_CONNECTION_NUM_PACKETS \<equiv> 7"

text \<open>
  What a block of the heap holds: a packet, a datagram in the network simulator, or the struct of a client, a server or a
  simulator (whose contents are the record of that component).
\<close>

datatype block = Packet_block netcode_packet | Buffer_block bytes | Struct_block

text \<open>
  \<^verbatim>\<open>netcode_create_payload_packet\<close>: the payload is uninitialised until the caller copies it in with \<open>heap_store\<close>.
\<close>

definition netcode_create_payload_packet :: "int \<Rightarrow> block heap \<Rightarrow> (nat option \<times> block heap) option" where
  "netcode_create_payload_packet payload_bytes h =
     do { c_assert (payload_bytes \<ge> 0);
          c_assert (payload_bytes \<le> int NETCODE_MAX_PAYLOAD_BYTES);
          Some (netcode_default_allocate_function
            (Packet_block (CONNECTION_PAYLOAD_PACKET (replicate (nat payload_bytes) 0))) h) }"

section \<open>Sequence numbers on the wire\<close>

fun sequence_mask_loop :: "nat \<Rightarrow> nat \<Rightarrow> u64 \<Rightarrow> u64 \<Rightarrow> nat" where
  "sequence_mask_loop 0 i m sequence = i"
| "sequence_mask_loop (Suc k) i m sequence =
     (if sequence AND m \<noteq> 0 then i
      else sequence_mask_loop k (Suc i) (drop_bit 8 m) sequence)"

definition netcode_sequence_number_bytes_required :: "u64 \<Rightarrow> nat" where
  "netcode_sequence_number_bytes_required sequence =
     8 - sequence_mask_loop 7 0 0xFF00000000000000 sequence"

fun write_sequence :: "nat \<Rightarrow> u64 \<Rightarrow> bytes \<Rightarrow> bytes" where
  "write_sequence 0 sequence_temp p = p"
| "write_sequence (Suc k) sequence_temp p =
     write_sequence k (drop_bit 8 sequence_temp) (netcode_write_uint8 p (ucast (sequence_temp AND 0xFF)))"

fun read_sequence :: "nat \<Rightarrow> nat \<Rightarrow> u64 \<Rightarrow> bytes \<Rightarrow> (u64 \<times> bytes) option" where
  "read_sequence 0 i sequence p = Some (sequence, p)"
| "read_sequence (Suc k) i sequence p =
     do { (v, p) \<leftarrow> netcode_read_uint8 p;
          read_sequence k (Suc i) (sequence OR push_bit (8 * i) (ucast v)) p }"

section \<open>Writing\<close>

text \<open>The \<^verbatim>\<open>switch\<close> that writes the data of an encrypted packet.\<close>

fun write_packet_data :: "netcode_packet \<Rightarrow> bytes \<Rightarrow> bytes option" where
  "write_packet_data CONNECTION_DENIED_PACKET p = Some p"
| "write_packet_data (CONNECTION_CHALLENGE_PACKET sequence data) p =
     Some (netcode_write_bytes (netcode_write_uint64 p sequence) data)"
| "write_packet_data (CONNECTION_RESPONSE_PACKET sequence data) p =
     Some (netcode_write_bytes (netcode_write_uint64 p sequence) data)"
| "write_packet_data (CONNECTION_KEEP_ALIVE_PACKET client_index max_clients) p =
     Some (netcode_write_uint32 (netcode_write_uint32 p (word_of_int client_index)) (word_of_int max_clients))"
| "write_packet_data (CONNECTION_PAYLOAD_PACKET payload) p =
     do { c_assert (length payload \<le> NETCODE_MAX_PAYLOAD_BYTES);
          Some (netcode_write_bytes p payload) }"
| "write_packet_data CONNECTION_DISCONNECT_PACKET p = Some p"
| "write_packet_data (CONNECTION_REQUEST_PACKET _) p = None"

definition packet_additional_data :: "u64 \<Rightarrow> byte \<Rightarrow> bytes" where
  "packet_additional_data protocol_id prefix_byte =
     netcode_write_uint8
       (netcode_write_uint64 (netcode_write_bytes [] NETCODE_VERSION_INFO) protocol_id) prefix_byte"

text \<open>The result is the contents of the buffer up to the cursor: its length is what the code returns.\<close>

definition write_connection_request_packet :: "connection_request_packet \<Rightarrow> nat \<Rightarrow> bytes c_result option" where
  "write_connection_request_packet rq buffer_length =
     do { c_assert (buffer_length \<ge> 1 + 13 + 8 + 8 + 8 + NETCODE_CONNECT_TOKEN_PRIVATE_BYTES);
          let p = netcode_write_uint8 [] 0;
          let p = netcode_write_bytes p (rq_version_info rq);
          let p = netcode_write_uint64 p (rq_protocol_id rq);
          let p = netcode_write_uint64 p (rq_connect_token_expire_timestamp rq);
          let p = netcode_write_uint64 p (rq_connect_token_sequence rq);
          let p = netcode_write_bytes p (rq_connect_token_data rq);
          c_assert (length p = 1 + 13 + 8 + 8 + 8 + NETCODE_CONNECT_TOKEN_PRIVATE_BYTES);
          Some (NETCODE_OK p) }"

definition write_encrypted_packet ::
    "crypto \<Rightarrow> netcode_packet \<Rightarrow> nat \<Rightarrow> u64 \<Rightarrow> bytes \<Rightarrow> u64 \<Rightarrow> bytes c_result option" where
  "write_encrypted_packet cr packet buffer_length sequence write_packet_key protocol_id =
     do { let sequence_bytes = netcode_sequence_number_bytes_required sequence;
          c_assert (sequence_bytes \<ge> 1);
          c_assert (sequence_bytes \<le> 8);
          c_assert (packet_type packet \<le> 0xF);
          let prefix_byte = packet_type packet OR push_bit 4 (of_nat sequence_bytes);
          let header = write_sequence sequence_bytes sequence (netcode_write_uint8 [] prefix_byte);
          data \<leftarrow> write_packet_data packet [];
          c_assert (length (header @ data) + NETCODE_MAC_BYTES \<le> buffer_length);
          r \<leftarrow> netcode_encrypt_aead cr data (packet_additional_data protocol_id prefix_byte)
                 (sequence_nonce sequence) write_packet_key;
          (case r of
             NETCODE_ERROR \<Rightarrow> Some NETCODE_ERROR
           | NETCODE_OK encrypted \<Rightarrow>
               do { let p = header @ encrypted;
                    c_assert (length p \<le> buffer_length);
                    Some (NETCODE_OK p) }) }"

definition netcode_write_packet ::
    "crypto \<Rightarrow> netcode_packet \<Rightarrow> nat \<Rightarrow> u64 \<Rightarrow> bytes \<Rightarrow> u64 \<Rightarrow> bytes c_result option" where
  "netcode_write_packet cr packet buffer_length sequence write_packet_key protocol_id =
     (case packet of
        CONNECTION_REQUEST_PACKET rq \<Rightarrow> write_connection_request_packet rq buffer_length
      | _ \<Rightarrow> write_encrypted_packet cr packet buffer_length sequence write_packet_key protocol_id)"

section \<open>Reading\<close>

text \<open>A connection request: \<open>p\<close> is the datagram after its prefix byte; \<open>None\<close> inside is \<^verbatim>\<open>return NULL\<close>.\<close>

definition read_connection_request_packet ::
    "crypto \<Rightarrow> bytes \<Rightarrow> u64 \<Rightarrow> u64 \<Rightarrow> bytes option \<Rightarrow> bool \<Rightarrow> netcode_packet option option" where
  "read_connection_request_packet cr p protocol_id current_timestamp private_key allowed =
     (if \<not> allowed then Some None
      else if 1 + length p \<noteq> 1 + NETCODE_VERSION_INFO_BYTES + 8 + 8 + 8 + NETCODE_CONNECT_TOKEN_PRIVATE_BYTES
      then Some None
      else (case private_key of
          None \<Rightarrow> Some None
        | Some private_key \<Rightarrow> do {
            (version_info, p) \<leftarrow> netcode_read_bytes NETCODE_VERSION_INFO_BYTES p;
            if version_info \<noteq> NETCODE_VERSION_INFO then Some None
            else do {
              (packet_protocol_id, p) \<leftarrow> netcode_read_uint64 p;
              if packet_protocol_id \<noteq> protocol_id then Some None
              else do {
                (expire_timestamp, p) \<leftarrow> netcode_read_uint64 p;
                if expire_timestamp \<le> current_timestamp then Some None
                else do {
                  (token_sequence, p) \<leftarrow> netcode_read_uint64 p;
                  r \<leftarrow> netcode_decrypt_connect_token_private cr p version_info protocol_id
                         expire_timestamp token_sequence private_key;
                  (case r of
                     NETCODE_ERROR \<Rightarrow> Some None
                   | NETCODE_OK p \<Rightarrow> do {
                       (token_data, p) \<leftarrow> netcode_read_bytes NETCODE_CONNECT_TOKEN_PRIVATE_BYTES p;
                       Some (Some (CONNECTION_REQUEST_PACKET
                         \<lparr>rq_version_info = version_info, rq_protocol_id = packet_protocol_id,
                          rq_connect_token_expire_timestamp = expire_timestamp,
                          rq_connect_token_sequence = token_sequence,
                          rq_connect_token_data = token_data\<rparr>)) }) } } } }))"

text \<open>The \<^verbatim>\<open>switch\<close> on the decrypted data, up to the allocation of the packet.\<close>

definition read_packet_data :: "nat \<Rightarrow> bytes \<Rightarrow> netcode_packet option option" where
  "read_packet_data type data =
     (if type = 1 then
        (if length data \<noteq> 0 then Some None else Some (Some CONNECTION_DENIED_PACKET))
      else if type = 2 then
        (if length data \<noteq> 8 + NETCODE_CHALLENGE_TOKEN_BYTES then Some None
         else do { (sequence, p) \<leftarrow> netcode_read_uint64 data;
                   (token, p) \<leftarrow> netcode_read_bytes NETCODE_CHALLENGE_TOKEN_BYTES p;
                   Some (Some (CONNECTION_CHALLENGE_PACKET sequence token)) })
      else if type = 3 then
        (if length data \<noteq> 8 + NETCODE_CHALLENGE_TOKEN_BYTES then Some None
         else do { (sequence, p) \<leftarrow> netcode_read_uint64 data;
                   (token, p) \<leftarrow> netcode_read_bytes NETCODE_CHALLENGE_TOKEN_BYTES p;
                   Some (Some (CONNECTION_RESPONSE_PACKET sequence token)) })
      else if type = 4 then
        (if length data \<noteq> 8 then Some None
         else do { (client_index, p) \<leftarrow> netcode_read_uint32 data;
                   (max_clients, p) \<leftarrow> netcode_read_uint32 p;
                   Some (Some (CONNECTION_KEEP_ALIVE_PACKET (sint client_index) (sint max_clients))) })
      else if type = 5 then
        (if length data < 1 then Some None
         else if length data > NETCODE_MAX_PAYLOAD_BYTES then Some None
         else Some (Some (CONNECTION_PAYLOAD_PACKET data)))
      else if type = 6 then
        (if length data \<noteq> 0 then Some None else Some (Some CONNECTION_DISCONNECT_PACKET))
      else Some None)"

text \<open>The replay protection is consulted before the packet is decrypted.\<close>

definition check_replay :: "replay_protection option \<Rightarrow> nat \<Rightarrow> u64 \<Rightarrow> bool \<times> replay_protection option" where
  "check_replay replay_protection type sequence =
     (case replay_protection of
        None \<Rightarrow> (False, None)
      | Some rp \<Rightarrow>
          if type \<ge> 4 then
            (let (r, rp) = netcode_replay_protection_packet_already_received rp sequence
             in (r, Some rp))
          else (False, Some rp))"

text \<open>
  An encrypted packet: the whole datagram, whose first byte is not zero. The result is the packet (not yet
  allocated) or \<open>None\<close>, the sequence number, and the replay protection afterwards.
\<close>

definition read_encrypted_packet ::
    "crypto \<Rightarrow> bytes \<Rightarrow> bytes option \<Rightarrow> u64 \<Rightarrow> bool list \<Rightarrow> replay_protection option \<Rightarrow>
     (netcode_packet option \<times> u64 \<times> replay_protection option) option" where
  "read_encrypted_packet cr buffer read_packet_key protocol_id allowed_packets replay_protection =
     (case read_packet_key of
        None \<Rightarrow> Some (None, 0, replay_protection)
      | Some key \<Rightarrow>
        if length buffer < 1 + 1 + NETCODE_MAC_BYTES then Some (None, 0, replay_protection)
        else do {
          (prefix_byte, p) \<leftarrow> netcode_read_uint8 buffer;
          let type = unat (prefix_byte AND 0xF);
          if type \<ge> NETCODE_CONNECTION_NUM_PACKETS then Some (None, 0, replay_protection)
          else if \<not> allowed_packets ! type then Some (None, 0, replay_protection)
          else do {
            let sequence_bytes = unat (drop_bit 4 prefix_byte);
            if sequence_bytes < 1 \<or> sequence_bytes > 8 then Some (None, 0, replay_protection)
            else if length buffer < 1 + sequence_bytes + NETCODE_MAC_BYTES
            then Some (None, 0, replay_protection)
            else do {
              (sequence, p) \<leftarrow> read_sequence sequence_bytes 0 0 p;
              let (already_received, replay_protection) = check_replay replay_protection type sequence;
              if already_received then Some (None, sequence, replay_protection)
              else if length p < NETCODE_MAC_BYTES then Some (None, sequence, replay_protection)
              else do {
                r \<leftarrow> netcode_decrypt_aead cr p (packet_additional_data protocol_id prefix_byte)
                       (sequence_nonce sequence) key;
                (case r of
                   NETCODE_ERROR \<Rightarrow> Some (None, sequence, replay_protection)
                 | NETCODE_OK data \<Rightarrow> do {
                     packet \<leftarrow> read_packet_data type data;
                     Some (packet, sequence, replay_protection) }) } } } })"

text \<open>The allocation at the end of every successful branch; a payload packet has its own routine.\<close>

fun allocate_packet :: "netcode_packet \<Rightarrow> block heap \<Rightarrow> (nat option \<times> block heap) option" where
  "allocate_packet (CONNECTION_PAYLOAD_PACKET payload) h =
     do { (ptr, h) \<leftarrow> netcode_create_payload_packet (int (length payload)) h;
          Some (case ptr of
              None \<Rightarrow> (None, h)
            | Some ptr \<Rightarrow> (Some ptr, heap_store ptr (Packet_block (CONNECTION_PAYLOAD_PACKET payload)) h)) }"
| "allocate_packet packet h = Some (netcode_default_allocate_function (Packet_block packet) h)"

definition netcode_read_packet ::
    "crypto \<Rightarrow> bytes \<Rightarrow> bytes option \<Rightarrow> u64 \<Rightarrow> u64 \<Rightarrow> bytes option \<Rightarrow> bool list \<Rightarrow>
     replay_protection option \<Rightarrow> block heap \<Rightarrow>
     (nat option \<times> u64 \<times> replay_protection option \<times> block heap) option" where
  "netcode_read_packet cr buffer read_packet_key protocol_id current_timestamp private_key
       allowed_packets replay_protection h =
     (if length buffer < 1 then Some (None, 0, replay_protection, h)
      else do {
        (packet, sequence, replay_protection) \<leftarrow>
          (if hd buffer = 0 then do {
             packet \<leftarrow> read_connection_request_packet cr (tl buffer) protocol_id current_timestamp
                         private_key (allowed_packets ! 0);
             Some (packet, 0, replay_protection) }
           else read_encrypted_packet cr buffer read_packet_key protocol_id allowed_packets replay_protection);
        (case packet of
           None \<Rightarrow> Some (None, sequence, replay_protection, h)
         | Some packet \<Rightarrow> do {
             (ptr, h) \<leftarrow> allocate_packet packet h;
             Some (ptr, sequence, replay_protection, h) }) })"

section \<open>Sequence numbers, written and read\<close>

lemma mask_shift: "k < 7 \<Longrightarrow> drop_bit 8 (push_bit (8 * Suc k) 0xFF :: u64) = push_bit (8 * k) 0xFF"
  by (rule bit_word_eqI) (auto simp: mask_255 bit_simps)

lemma take_bit_eq_iff_bits: "take_bit n (s :: u64) = s \<longleftrightarrow> (\<forall>j. n \<le> j \<longrightarrow> j < 64 \<longrightarrow> \<not> bit s j)"
proof
  assume s: "take_bit n s = s"
  show "\<forall>j. n \<le> j \<longrightarrow> j < 64 \<longrightarrow> \<not> bit s j"
  proof (intro allI impI)
    fix j assume "n \<le> j"
    then have "\<not> bit (take_bit n s) j" by (simp add: bit_simps)
    then show "\<not> bit s j" by (simp only: s) simp
  qed
next
  assume "\<forall>j. n \<le> j \<longrightarrow> j < 64 \<longrightarrow> \<not> bit s j"
  then show "take_bit n s = s" by (intro bit_word_eqI) (auto simp: bit_simps not_less [symmetric])
qed

lemma top_byte_zero:
  assumes "take_bit (8 * Suc k) (s :: u64) = s"
  shows "s AND push_bit (8 * k) 0xFF = 0 \<longleftrightarrow> take_bit (8 * k) s = s"
proof
  assume zero: "s AND push_bit (8 * k) 0xFF = 0"
  have "\<not> bit s j" if "8 * k \<le> j" "j < 64" for j
  proof (cases "j < 8 * Suc k")
    case True
    have "\<not> bit (s AND push_bit (8 * k) 0xFF) j" by (simp add: zero)
    with True that show ?thesis by (auto simp: bit_simps mask_255)
  next
    case False
    with assms that show ?thesis unfolding take_bit_eq_iff_bits not_less by blast
  qed
  then show "take_bit (8 * k) s = s" by (simp add: take_bit_eq_iff_bits)
next
  assume "take_bit (8 * k) s = s"
  then have "\<not> bit s j" if "8 * k \<le> j" "j < 64" for j using that unfolding take_bit_eq_iff_bits by blast
  then show "s AND push_bit (8 * k) 0xFF = 0"
    by (intro bit_word_eqI) (auto simp: bit_simps)
qed

lemma mask_loop:
  assumes "take_bit (8 * Suc k) (s :: u64) = s" and "k \<le> 7"
  shows "\<exists>n. sequence_mask_loop k i (push_bit (8 * k) 0xFF) s + n = i + Suc k \<and> 1 \<le> n \<and> n \<le> Suc k
    \<and> take_bit (8 * n) s = s \<and> (1 < n \<longrightarrow> take_bit (8 * (n - 1)) s \<noteq> s)"
  using assms
proof (induction k arbitrary: i)
  case 0
  then show ?case by simp
next
  case (Suc k)
  show ?case
  proof (cases "take_bit (8 * Suc k) s = s")
    case True
    then have zero: "s AND push_bit (8 * Suc k) 0xFF = 0" using top_byte_zero [OF Suc.prems(1)] by simp
    obtain n where n: "sequence_mask_loop k (Suc i) (push_bit (8 * k) 0xFF) s + n = Suc i + Suc k"
      and *: "1 \<le> n" "n \<le> Suc k" "take_bit (8 * n) s = s" "1 < n \<longrightarrow> take_bit (8 * (n - 1)) s \<noteq> s"
      using Suc.IH [OF True, of "Suc i"] Suc.prems(2) by auto
    have "sequence_mask_loop (Suc k) i (push_bit (8 * Suc k) 0xFF) s
        = sequence_mask_loop k (Suc i) (push_bit (8 * k) 0xFF) s"
      using zero mask_shift [of k] Suc.prems(2) by (simp only: sequence_mask_loop.simps) simp
    with n * show ?thesis by (intro exI [of _ n]) simp
  next
    case False
    then have "s AND push_bit (8 * Suc k) 0xFF \<noteq> 0" using top_byte_zero [OF Suc.prems(1)] by simp
    then have "sequence_mask_loop (Suc k) i (push_bit (8 * Suc k) 0xFF) s = i"
      by (simp only: sequence_mask_loop.simps if_True simp_thms)
    with False Suc.prems(1) show ?thesis by (intro exI [of _ "Suc (Suc k)"]) simp
  qed
qed

lemma bytes_required_spec:
  fixes s :: u64
  defines "n \<equiv> netcode_sequence_number_bytes_required s"
  shows "1 \<le> n" and "n \<le> 8" and "take_bit (8 * n) s = s"
    and "1 < n \<Longrightarrow> take_bit (8 * (n - 1)) s \<noteq> s"
proof -
  have "take_bit (8 * Suc 7) s = s" by (simp add: take_bit_eq_iff_bits)
  from mask_loop [OF this, of 0]
  obtain m where "sequence_mask_loop 7 0 (push_bit 56 0xFF) s + m = 8" "1 \<le> m" "m \<le> 8"
    "take_bit (8 * m) s = s" "1 < m \<longrightarrow> take_bit (8 * (m - 1)) s \<noteq> s"
    by auto
  moreover have "(push_bit 56 0xFF :: u64) = 0xFF00000000000000" by simp
  ultimately have "n = m" unfolding n_def netcode_sequence_number_bytes_required_def by simp
  with \<open>1 \<le> m\<close> \<open>m \<le> 8\<close> \<open>take_bit (8 * m) s = s\<close> \<open>1 < m \<longrightarrow> take_bit (8 * (m - 1)) s \<noteq> s\<close>
  show "1 \<le> n" "n \<le> 8" "take_bit (8 * n) s = s" "1 < n \<Longrightarrow> take_bit (8 * (n - 1)) s \<noteq> s" by auto
qed

lemma write_sequence_append: "write_sequence n t p = p @ write_sequence n t []"
proof (induction n arbitrary: t p)
  case 0
  show ?case by simp
next
  case (Suc n)
  show ?case
    using Suc.IH [of "drop_bit 8 t" "netcode_write_uint8 p (ucast (t AND 0xFF))"]
      Suc.IH [of "drop_bit 8 t" "netcode_write_uint8 [] (ucast (t AND 0xFF))"]
    by (simp add: netcode_write_uint8_def)
qed

lemma length_write_sequence [simp]: "length (write_sequence n t p) = length p + n"
  by (induction n arbitrary: t p) auto

lemma read_write_sequence:
  "read_sequence n i acc (write_sequence n t [] @ rest)
   = Some (acc OR push_bit (8 * i) (take_bit (8 * n) t), rest)"
proof (induction n arbitrary: i acc t)
  case 0
  show ?case by simp
next
  case (Suc n)
  have join: "acc OR push_bit (8 * i) (take_bit 8 t)
        OR push_bit (8 * Suc i) (take_bit (8 * n) (drop_bit 8 t))
      = acc OR push_bit (8 * i) (take_bit (8 * Suc n) t)"
  proof (rule bit_word_eqI)
    fix j assume "j < LENGTH(64)"
    then show "bit (acc OR push_bit (8 * i) (take_bit 8 t)
          OR push_bit (8 * Suc i) (take_bit (8 * n) (drop_bit 8 t))) j
        = bit (acc OR push_bit (8 * i) (take_bit (8 * Suc n) t)) j"
      by (cases "j < 8 * Suc i") (auto simp: bit_simps)
  qed
  have "write_sequence (Suc n) t [] = netcode_write_uint8 [] (ucast t) @ write_sequence n (drop_bit 8 t) []"
    using write_sequence_append [of n "drop_bit 8 t" "netcode_write_uint8 [] (ucast (t AND 0xFF))"]
    by (simp add: to_byte_mask)
  then show ?case using Suc.IH [of "Suc i" "acc OR push_bit (8 * i) (take_bit 8 t)" "drop_bit 8 t"]
    by (simp add: byte_at_0 join [simplified] or.assoc del: write_sequence.simps)
qed

lemma runs_read_sequence:
  "n \<le> length p \<Longrightarrow> (\<And>v. Q (v, drop n p)) \<Longrightarrow> runs (read_sequence n i acc p) Q"
proof (induction n arbitrary: i acc p)
  case 0
  then show ?case by simp
next
  case (Suc n)
  then show ?case by (cases p) (simp_all add: runs_simps)
qed

section \<open>Packets, written and read\<close>

text \<open>The structs the program builds: arrays of their declared length, payloads of 1 to 1200 bytes.\<close>

fun packet_wf :: "netcode_packet \<Rightarrow> bool" where
  "packet_wf (CONNECTION_REQUEST_PACKET rq) \<longleftrightarrow>
     length (rq_version_info rq) = NETCODE_VERSION_INFO_BYTES
     \<and> length (rq_connect_token_data rq) = NETCODE_CONNECT_TOKEN_PRIVATE_BYTES"
| "packet_wf (CONNECTION_CHALLENGE_PACKET _ data) \<longleftrightarrow> length data = NETCODE_CHALLENGE_TOKEN_BYTES"
| "packet_wf (CONNECTION_RESPONSE_PACKET _ data) \<longleftrightarrow> length data = NETCODE_CHALLENGE_TOKEN_BYTES"
| "packet_wf (CONNECTION_KEEP_ALIVE_PACKET client_index max_clients) \<longleftrightarrow> int32 client_index \<and> int32 max_clients"
| "packet_wf (CONNECTION_PAYLOAD_PACKET payload) \<longleftrightarrow> 1 \<le> length payload \<and> length payload \<le> NETCODE_MAX_PAYLOAD_BYTES"
| "packet_wf _ \<longleftrightarrow> True"

fun packet_data_bytes :: "netcode_packet \<Rightarrow> nat" where
  "packet_data_bytes (CONNECTION_REQUEST_PACKET rq) = 13 + 8 + 8 + 8 + NETCODE_CONNECT_TOKEN_PRIVATE_BYTES"
| "packet_data_bytes (CONNECTION_CHALLENGE_PACKET _ _) = 8 + NETCODE_CHALLENGE_TOKEN_BYTES"
| "packet_data_bytes (CONNECTION_RESPONSE_PACKET _ _) = 8 + NETCODE_CHALLENGE_TOKEN_BYTES"
| "packet_data_bytes (CONNECTION_KEEP_ALIVE_PACKET _ _) = 8"
| "packet_data_bytes (CONNECTION_PAYLOAD_PACKET payload) = length payload"
| "packet_data_bytes _ = 0"

definition is_request :: "netcode_packet \<Rightarrow> bool" where
  "is_request packet \<longleftrightarrow> packet_type packet = 0"

lemma is_request_simps [simp]:
  "is_request (CONNECTION_REQUEST_PACKET rq)" "\<not> is_request CONNECTION_DENIED_PACKET"
  "\<not> is_request (CONNECTION_CHALLENGE_PACKET a d)" "\<not> is_request (CONNECTION_RESPONSE_PACKET a d)"
  "\<not> is_request (CONNECTION_KEEP_ALIVE_PACKET i j)" "\<not> is_request (CONNECTION_PAYLOAD_PACKET d)"
  "\<not> is_request CONNECTION_DISCONNECT_PACKET"
  by (simp_all add: is_request_def)

lemma packet_type_less: "unat (packet_type packet) < 7"
  by (cases packet) simp_all

lemma packet_type_low: "packet_type packet \<le> 0xF"
  by (cases packet) simp_all

lemma prefix_byte_fields:
  assumes "1 \<le> n" and "n \<le> 8"
  shows "(packet_type packet OR push_bit 4 (of_nat n)) AND 0xF = packet_type packet"
    and "drop_bit 4 (packet_type packet OR push_bit 4 (of_nat n)) = (of_nat n :: byte)"
    and "packet_type packet OR push_bit 4 (of_nat n) \<noteq> 0"
proof -
  have "n = 1 \<or> n = 2 \<or> n = 3 \<or> n = 4 \<or> n = 5 \<or> n = 6 \<or> n = 7 \<or> n = 8" using assms by arith
  then show "(packet_type packet OR push_bit 4 (of_nat n)) AND 0xF = packet_type packet"
    and "drop_bit 4 (packet_type packet OR push_bit 4 (of_nat n)) = (of_nat n :: byte)"
    and "packet_type packet OR push_bit 4 (of_nat n) \<noteq> 0"
    by (cases packet; elim disjE; simp)+
qed

lemma packet_data_ok:
  assumes "packet_wf packet" and "\<not> is_request packet"
  obtains data where "write_packet_data packet [] = Some data"
    and "length data = packet_data_bytes packet"
    and "read_packet_data (unat (packet_type packet)) data = Some (Some packet)"
proof (cases packet)
  case (CONNECTION_REQUEST_PACKET rq)
  with assms show ?thesis by simp
qed (use assms in \<open>auto intro!: that simp: read_packet_data_def wire_simps runs_simps\<close>)


lemma write_packet_encrypted:
  "\<not> is_request packet \<Longrightarrow> netcode_write_packet cr packet n s k pid = write_encrypted_packet cr packet n s k pid"
  by (cases packet) (simp_all add: netcode_write_packet_def)

definition wire_bytes :: "netcode_packet \<Rightarrow> u64 \<Rightarrow> nat" where
  "wire_bytes packet sequence =
     1 + netcode_sequence_number_bytes_required sequence + packet_data_bytes packet + NETCODE_MAC_BYTES"

text \<open>What the writer leaves in the buffer, and that it succeeds exactly if the packet fits.\<close>

lemma write_encrypted_packet_cases:
  assumes laws: "aead_laws cr" and wf: "packet_wf packet" and enc: "\<not> is_request packet"
    and key: "length key = NETCODE_KEY_BYTES"
  obtains header data c where "length header = netcode_sequence_number_bytes_required s"
    and "header = write_sequence (netcode_sequence_number_bytes_required s) s []"
    and "read_packet_data (unat (packet_type packet)) data = Some (Some packet)"
    and "length data = packet_data_bytes packet"
    and "length c = length data + NETCODE_MAC_BYTES"
    and "netcode_decrypt_aead cr c (packet_additional_data pid
          (packet_type packet OR push_bit 4 (of_nat (netcode_sequence_number_bytes_required s))))
          (sequence_nonce s) key = Some (NETCODE_OK data)"
    and "netcode_write_packet cr packet n s key pid =
          (if wire_bytes packet s \<le> n
           then Some (NETCODE_OK ((packet_type packet
             OR push_bit 4 (of_nat (netcode_sequence_number_bytes_required s))) # header @ c))
           else None)"
proof -
  let ?sb = "netcode_sequence_number_bytes_required s"
  let ?prefix = "packet_type packet OR push_bit 4 (of_nat ?sb)"
  obtain data where data: "write_packet_data packet [] = Some data" "length data = packet_data_bytes packet"
    "read_packet_data (unat (packet_type packet)) data = Some (Some packet)"
    using packet_data_ok [OF wf enc] .
  obtain c where enc_ok: "netcode_encrypt_aead cr data (packet_additional_data pid ?prefix)
        (sequence_nonce s) key = Some (NETCODE_OK c)"
    and c: "length c = length data + NETCODE_MAC_BYTES"
    "netcode_decrypt_aead cr c (packet_additional_data pid ?prefix) (sequence_nonce s) key
      = Some (NETCODE_OK data)"
    using encrypt_aead_ok [OF laws length_sequence_nonce key] .
  have header: "write_sequence ?sb s (netcode_write_uint8 [] ?prefix) = ?prefix # write_sequence ?sb s []"
    by (subst write_sequence_append) (simp add: netcode_write_uint8_def)
  have "netcode_write_packet cr packet n s key pid =
          (if wire_bytes packet s \<le> n
           then Some (NETCODE_OK (?prefix # write_sequence ?sb s [] @ c)) else None)"
    unfolding write_packet_encrypted [OF enc] write_encrypted_packet_def Let_def header
    using bytes_required_spec(1,2) [of s] c(1) data(2)
    by (simp add: data(1) enc_ok packet_type_low wire_bytes_def c_assert_def)
  with data c show ?thesis
    by (intro that [of "write_sequence ?sb s []" data c]) simp_all
qed

lemma allocate_packet_eq:
  "packet_wf packet \<Longrightarrow>
   allocate_packet packet h = Some (netcode_default_allocate_function (Packet_block packet) h)"
  by (cases packet)
    (auto simp: netcode_create_payload_packet_def netcode_default_allocate_function_def heap_store_def)

lemma read_packet_data_wf:
  assumes "read_packet_data type data = Some (Some packet)"
  shows "packet_wf packet \<and> unat (packet_type packet) = type \<and> \<not> is_request packet"
  using assms unfolding read_packet_data_def
  by (auto simp: read_bytes_take Suc_le_eq split: if_splits bind_splits)

lemma runs_read_packet_data:
  assumes "\<And>packet. packet_wf packet \<Longrightarrow> unat (packet_type packet) = type \<Longrightarrow> \<not> is_request packet
      \<Longrightarrow> Q (Some packet)" and "Q None"
  shows "runs (read_packet_data type data) Q"
proof -
  have "runs (read_packet_data type data) (\<lambda>_. True)"
    unfolding read_packet_data_def
    by (auto simp: runs_simps intro!: runs_readers)
  then obtain r where r: "read_packet_data type data = Some r" by (auto simp: runs_ex)
  show ?thesis
  proof (cases r)
    case None
    with r assms show ?thesis by simp
  next
    case (Some packet)
    with r have "packet_wf packet \<and> unat (packet_type packet) = type \<and> \<not> is_request packet"
      using read_packet_data_wf by blast
    with r assms Some show ?thesis by simp
  qed
qed

lemma read_bytes_runs_simps [runs_simps]:
  "runs (netcode_read_bytes n p) Q \<longleftrightarrow> n \<le> length p \<and> Q (take n p, drop n p)"
  by (simp add: read_bytes_take)

lemma runs_decrypt_private:
  assumes "aead_laws cr" and "length buffer = NETCODE_CONNECT_TOKEN_PRIVATE_BYTES"
    and "Q NETCODE_ERROR" and "\<And>m. length m = NETCODE_CONNECT_TOKEN_PRIVATE_BYTES \<Longrightarrow> Q (NETCODE_OK m)"
  shows "runs (netcode_decrypt_connect_token_private cr buffer version protocol_id expire sequence key) Q"
  unfolding netcode_decrypt_connect_token_private_def runs_bind runs_assert
  using assms by (auto intro!: runs_decrypt_aead)

lemma runs_read_connection_request:
  assumes "aead_laws cr"
  shows "runs (read_connection_request_packet cr p pid now pk allowed)
    (\<lambda>r. \<forall>packet. r = Some packet \<longrightarrow>
       allowed \<and> (\<exists>rq. packet = CONNECTION_REQUEST_PACKET rq \<and> packet_wf packet
         \<and> rq_version_info rq = NETCODE_VERSION_INFO \<and> rq_protocol_id rq = pid
         \<and> now < rq_connect_token_expire_timestamp rq))"
  unfolding read_connection_request_packet_def
  by (auto simp: runs_simps read_bytes_take not_le split: option.split
      intro!: runs_read_uint64 runs_decrypt_private assms)

text \<open>What replay protection guarantees about one received packet.\<close>

definition replay_step :: "replay_protection option \<Rightarrow> nat \<Rightarrow> u64 \<Rightarrow> bool \<Rightarrow> replay_protection option \<Rightarrow> bool" where
  "replay_step rp type s accepted rp' \<longleftrightarrow>
     (rp = None \<longrightarrow> rp' = None) \<and>
     (\<forall>r S. rp = Some r \<longrightarrow> replay_inv r S \<longrightarrow>
        (\<exists>r' S'. rp' = Some r' \<and> replay_inv r' S' \<and> S \<subseteq> S'
           \<and> (accepted \<and> 4 \<le> type \<and> unat s < 2 ^ 63 \<longrightarrow> s \<notin> S \<and> s \<in> S')))"

lemma replay_step_refl [simp]: "replay_step rp type s False rp"
  by (auto simp: replay_step_def)

lemma replay_step_rejected: "replay_step rp type s a rp' \<Longrightarrow> replay_step rp type s False rp'"
  by (fastforce simp: replay_step_def)

lemma check_replay_step:
  assumes run: "check_replay rp type s = (received, rp')"
  shows "replay_step rp type s (\<not> received) rp'"
proof (cases rp)
  case None
  with run show ?thesis by (simp add: check_replay_def replay_step_def)
next
  case (Some r)
  show ?thesis
  proof (cases "4 \<le> type")
    case False
    with run Some show ?thesis by (auto simp: check_replay_def replay_step_def)
  next
    case True
    with run Some obtain r' where step: "netcode_replay_protection_packet_already_received r s = (received, r')"
      and rp': "rp' = Some r'" by (auto simp: check_replay_def split: prod.splits)
    show ?thesis
    proof (cases "unat s < 2 ^ 63")
      case lt: True
      show ?thesis unfolding replay_step_def Some rp'
      proof (intro conjI allI impI)
        fix r0 S assume "Some r = Some r0" and "replay_inv r0 S"
        then have "replay_inv r S" by simp
        from already_received_spec [OF this lt step]
        show "\<exists>r'' S'. Some r' = Some r'' \<and> replay_inv r'' S' \<and> S \<subseteq> S'
            \<and> (\<not> received \<and> 4 \<le> type \<and> unat s < 2 ^ 63 \<longrightarrow> s \<notin> S \<and> s \<in> S')"
          by (intro exI [of _ r'] exI [of _ "if received then S else insert s S"]) auto
      qed simp
    next
      case False
      with step have "r' = r" by (simp add: already_received_high)
      with False show ?thesis by (auto simp: replay_step_def Some rp')
    qed
  qed
qed

lemma runs_read_encrypted:
  assumes laws: "aead_laws cr"
  shows "runs (read_encrypted_packet cr buffer key pid allowed rp)
    (\<lambda>(r, s, rp'). replay_step rp (unat (hd buffer AND 0xF)) s (r \<noteq> None) rp' \<and>
       (\<forall>packet. r = Some packet \<longrightarrow> packet_wf packet \<and> \<not> is_request packet
          \<and> unat (packet_type packet) = unat (hd buffer AND 0xF) \<and> allowed ! unat (packet_type packet)))"
proof (cases key)
  case None
  then show ?thesis by (simp add: read_encrypted_packet_def)
next
  case (Some k)
  show ?thesis
    unfolding read_encrypted_packet_def Some option.case Let_def
    apply (simp only: runs_simps prod.case split: if_split)
    apply (intro conjI impI; (simp; fail)?)
    apply (rule runs_read_sequence)
     apply (simp; fail)
    apply (auto simp: runs_simps split: prod.split dest!: check_replay_step)
    apply (rule runs_decrypt_aead [OF laws])
     apply (auto simp: runs_simps intro!: runs_read_packet_data dest: replay_step_rejected)
    done
qed

text \<open>
  One call of the reader: at most one block is allocated, it holds a well-formed packet of an allowed type, and
  the replay protection takes one step.
\<close>

definition packet_read_ok ::
    "bool list \<Rightarrow> replay_protection option \<Rightarrow> block heap \<Rightarrow>
     nat option \<times> u64 \<times> replay_protection option \<times> block heap \<Rightarrow> bool" where
  "packet_read_ok allowed rp h = (\<lambda>(ptr, s, rp', h').
     heap_inv h' \<and> h_next h \<le> h_next h' \<and> h_out_of_memory h' = h_out_of_memory h
     \<and> (\<exists>type. replay_step rp type s False rp') \<and>
     (case ptr of
        None \<Rightarrow> h_blocks h' = h_blocks h
      | Some a \<Rightarrow> a \<notin> live h \<and> (\<exists>packet. h_blocks h' = (h_blocks h)(a \<mapsto> Packet_block packet)
          \<and> packet_wf packet \<and> allowed ! unat (packet_type packet)
          \<and> replay_step rp (unat (packet_type packet)) s True rp')))"

lemma replay_step_early [simp]: "type < 4 \<Longrightarrow> replay_step rp type s True rp"
  by (auto simp: replay_step_def)

lemma runs_read_packet:
  assumes laws: "aead_laws cr" and h: "heap_inv h"
  shows "runs (netcode_read_packet cr buffer key pid now pk allowed rp h) (packet_read_ok allowed rp h)"
proof -
  let ?ok = "\<lambda>(r, s, rp'). (\<exists>type. replay_step rp type s False rp') \<and>
      (\<forall>packet. r = Some packet \<longrightarrow> packet_wf packet \<and> allowed ! unat (packet_type packet)
         \<and> replay_step rp (unat (packet_type packet)) s True rp')"
  have inner: "runs (if hd buffer = 0 then do {
             packet \<leftarrow> read_connection_request_packet cr (tl buffer) pid now pk (allowed ! 0);
             Some (packet, 0, rp) }
           else read_encrypted_packet cr buffer key pid allowed rp) ?ok"
    unfolding runs_if runs_bind
    by (auto intro!: runs_mono [OF runs_read_connection_request [OF laws]]
        runs_mono [OF runs_read_encrypted [OF laws]] intro: replay_step_rejected replay_step_refl
        exI [of _ 0])
  have "packet_read_ok allowed rp h (None, 0, rp, h)"
    using h by (auto simp: packet_read_ok_def)
  moreover have "runs (case r of None \<Rightarrow> Some (None, s, rp', h)
       | Some packet \<Rightarrow> do { (ptr, h) \<leftarrow> allocate_packet packet h; Some (ptr, s, rp', h) })
       (packet_read_ok allowed rp h)" if "?ok (r, s, rp')" for r s rp'
    using that h
    by (cases r)
      (auto simp: packet_read_ok_def allocate_packet_eq runs_simps netcode_default_allocate_function_def
        heap_inv_def live_def less_Suc_eq split: prod.split)
  moreover obtain x where m: "(if hd buffer = 0 then do {
             packet \<leftarrow> read_connection_request_packet cr (tl buffer) pid now pk (allowed ! 0);
             Some (packet, 0, rp) }
           else read_encrypted_packet cr buffer key pid allowed rp) = Some x" and "?ok x"
    using inner by (rule runsE)
  moreover obtain r s rp' where "x = (r, s, rp')" by (rule prod_cases3)
  ultimately show ?thesis unfolding netcode_read_packet_def m by simp
qed

lemma read_request_datagram:
  assumes wf: "length data = NETCODE_CONNECT_TOKEN_PRIVATE_BYTES" and expire: "now < expire"
    and opened: "netcode_decrypt_connect_token_private cr data NETCODE_VERSION_INFO pid expire sequence key
      = Some (NETCODE_OK plain)" and len: "length plain = NETCODE_CONNECT_TOKEN_PRIVATE_BYTES"
    and allowed: "allowed ! 0" and n: "1062 \<le> n"
  obtains b where "netcode_write_packet cr' (CONNECTION_REQUEST_PACKET \<lparr>rq_version_info = NETCODE_VERSION_INFO,
          rq_protocol_id = pid, rq_connect_token_expire_timestamp = expire,
          rq_connect_token_sequence = sequence, rq_connect_token_data = data\<rparr>) n s k pid'
        = Some (NETCODE_OK b)"
    and "length b = 1062"
    and "netcode_read_packet cr b rk pid now (Some key) allowed rp h =
      (let (ptr, h) = netcode_default_allocate_function (Packet_block (CONNECTION_REQUEST_PACKET
          \<lparr>rq_version_info = NETCODE_VERSION_INFO, rq_protocol_id = pid,
            rq_connect_token_expire_timestamp = expire,
            rq_connect_token_sequence = sequence, rq_connect_token_data = plain\<rparr>)) h
       in Some (ptr, 0, rp, h))"
proof -
  let ?b = "0 # NETCODE_VERSION_INFO @ netcode_write_uint64 [] pid @ netcode_write_uint64 [] expire
    @ netcode_write_uint64 [] sequence @ data"
  have w: "netcode_write_packet cr' (CONNECTION_REQUEST_PACKET \<lparr>rq_version_info = NETCODE_VERSION_INFO,
          rq_protocol_id = pid, rq_connect_token_expire_timestamp = expire,
          rq_connect_token_sequence = sequence, rq_connect_token_data = data\<rparr>) n s k pid'
        = Some (NETCODE_OK ?b)"
    using wf n by (simp add: netcode_write_packet_def write_connection_request_packet_def wire_simps Let_def
        netcode_write_uint8_def)
  have "read_connection_request_packet cr (tl ?b) pid now (Some key) True
      = Some (Some (CONNECTION_REQUEST_PACKET
          \<lparr>rq_version_info = NETCODE_VERSION_INFO, rq_protocol_id = pid,
            rq_connect_token_expire_timestamp = expire,
            rq_connect_token_sequence = sequence, rq_connect_token_data = plain\<rparr>))"
    using wf expire opened len by (simp add: read_connection_request_packet_def)
  then have "netcode_read_packet cr ?b rk pid now (Some key) allowed rp h =
      (let (ptr, h) = netcode_default_allocate_function (Packet_block (CONNECTION_REQUEST_PACKET
          \<lparr>rq_version_info = NETCODE_VERSION_INFO, rq_protocol_id = pid,
            rq_connect_token_expire_timestamp = expire,
            rq_connect_token_sequence = sequence, rq_connect_token_data = plain\<rparr>)) h
       in Some (ptr, 0, rp, h))"
    using allowed by (simp add: netcode_read_packet_def Let_def split: prod.split)
  with w wf show ?thesis by (intro that [of ?b]) simp_all
qed

lemma four_sequence_bytes: "4 \<le> netcode_sequence_number_bytes_required s \<longleftrightarrow> 2 ^ 24 \<le> unat s"
proof -
  let ?n = "netcode_sequence_number_bytes_required s"
  have "4 \<le> ?n \<longleftrightarrow> take_bit 24 s \<noteq> s"
  proof
    assume "4 \<le> ?n"
    then have "take_bit (8 * (?n - 1)) s \<noteq> s" by (intro bytes_required_spec(4)) simp
    moreover have "24 \<le> 8 * (?n - 1)" using \<open>4 \<le> ?n\<close> by simp
    ultimately show "take_bit 24 s \<noteq> s" unfolding take_bit_eq_iff_bits by (meson order_trans)
  next
    assume "take_bit 24 s \<noteq> s"
    then obtain j where "24 \<le> j" "j < 64" "bit s j" unfolding take_bit_eq_iff_bits by blast
    moreover have "\<not> bit s j" if "8 * ?n \<le> j" "j < 64"
      using bytes_required_spec(3) [of s] that unfolding take_bit_eq_iff_bits by blast
    ultimately show "4 \<le> ?n" by (cases "8 * ?n \<le> j") auto
  qed
  also have "\<dots> \<longleftrightarrow> 2 ^ 24 \<le> unat s"
    by (simp only: word_unat_eq_iff unsigned_take_bit_eq take_bit_nat_eq_self_iff not_less)
  finally show ?thesis .
qed

text \<open>Any payload fits while the sequence number takes three bytes.\<close>

lemma payload_fits:
  "length payload \<le> NETCODE_MAX_PAYLOAD_BYTES \<Longrightarrow> unat s < 2 ^ 24 \<Longrightarrow>
   wire_bytes (CONNECTION_PAYLOAD_PACKET payload) s \<le> NETCODE_MAX_PACKET_BYTES"
  using four_sequence_bytes [of s] by (simp add: wire_bytes_def)

section \<open>Properties\<close>

text \<open>The number of bytes on the wire of a sequence number is the least number, at least one, of base-256
  digits that hold it; the unrolled mask loop of the code computes it without wrap-around.\<close>

lemma sequence_bytes_minimal:
  "netcode_sequence_number_bytes_required s = (LEAST n. 1 \<le> n \<and> unat s < 256 ^ n)"
proof (rule Least_equality [symmetric])
  let ?n = "netcode_sequence_number_bytes_required s"
  have fits: "take_bit (8 * n) s = s \<longleftrightarrow> unat s < 256 ^ n" for n
  proof -
    have "(256 :: nat) ^ n = 2 ^ (8 * n)" by (simp add: power_mult)
    then show ?thesis by (simp only: word_unat_eq_iff unsigned_take_bit_eq take_bit_nat_eq_self_iff)
  qed
  show "1 \<le> ?n \<and> unat s < 256 ^ ?n" using bytes_required_spec [of s] fits by blast
  fix n assume n: "1 \<le> n \<and> unat s < 256 ^ n"
  show "?n \<le> n"
  proof (rule ccontr)
    assume less: "\<not> ?n \<le> n"
    with n have "\<not> unat s < 256 ^ (?n - 1)" using bytes_required_spec(4) [of s] fits by auto
    moreover have "(256 :: nat) ^ n \<le> 256 ^ (?n - 1)" using less by (intro power_increasing) auto
    ultimately show False using n by linarith
  qed
qed

text \<open>The reader on a datagram whose header the writer could have made.\<close>

definition encrypted_datagram :: "byte \<Rightarrow> u64 \<Rightarrow> bytes \<Rightarrow> bytes" where
  "encrypted_datagram prefix_byte s c =
     prefix_byte # write_sequence (netcode_sequence_number_bytes_required s) s [] @ c"

definition prefix_of :: "netcode_packet \<Rightarrow> u64 \<Rightarrow> byte" where
  "prefix_of packet s = packet_type packet OR push_bit 4 (of_nat (netcode_sequence_number_bytes_required s))"

lemma read_encrypted_datagram:
  assumes enc: "\<not> is_request packet" and allowed: "allowed ! unat (packet_type packet)"
    and c: "NETCODE_MAC_BYTES \<le> length c"
    and fresh: "check_replay rp (unat (packet_type packet)) s = (False, rp')"
  shows "netcode_read_packet cr (encrypted_datagram (prefix_of packet s) s c) (Some key) pid now pk allowed rp h =
    do { r \<leftarrow> netcode_decrypt_aead cr c (packet_additional_data pid (prefix_of packet s)) (sequence_nonce s) key;
         (case r of
            NETCODE_ERROR \<Rightarrow> Some (None, s, rp', h)
          | NETCODE_OK data \<Rightarrow> do {
              packet \<leftarrow> read_packet_data (unat (packet_type packet)) data;
              (case packet of
                 None \<Rightarrow> Some (None, s, rp', h)
               | Some packet \<Rightarrow> do { (ptr, h) \<leftarrow> allocate_packet packet h; Some (ptr, s, rp', h) }) }) }"
proof -
  let ?n = "netcode_sequence_number_bytes_required s"
  note n = bytes_required_spec [of s]
  note prefix = prefix_byte_fields [OF n(1) n(2), of packet, folded prefix_of_def]
  have sb: "unat (of_nat ?n :: byte) = ?n" using n(2) by (simp add: unat_of_nat)
  have seq: "read_sequence ?n 0 0 (write_sequence ?n s [] @ c) = Some (s, c)"
    using n(3) by (simp add: read_write_sequence)
  show ?thesis
    unfolding netcode_read_packet_def read_encrypted_packet_def encrypted_datagram_def Let_def
    using n(1,2) c packet_type_less [of packet] allowed
    by (auto simp: prefix sb seq fresh not_le not_less split: c_result.split option.split bind_split)
qed

text \<open>C8: an encrypted packet that fits into the buffer is written, in exactly the number of bytes of its header, its
  data and the authentication tag; the reader at the other end, with the same key and protocol id, returns the same packet,
  in a new block, with the sequence number it was sent with.\<close>

theorem encrypted_packet_roundtrip:
  assumes laws: "aead_laws cr" and wf: "packet_wf packet" and enc: "\<not> is_request packet"
    and key: "length key = NETCODE_KEY_BYTES" and fits: "wire_bytes packet s \<le> n"
    and allowed: "allowed ! unat (packet_type packet)"
    and fresh: "check_replay rp (unat (packet_type packet)) s = (False, rp')"
    and mem: "\<not> h_out_of_memory h (h_next h)"
  shows "\<exists>b h'. netcode_write_packet cr packet n s key pid = Some (NETCODE_OK b)
    \<and> length b = wire_bytes packet s
    \<and> netcode_read_packet cr b (Some key) pid now pk allowed rp h = Some (Some (h_next h), s, rp', h')
    \<and> h_blocks h' = (h_blocks h)(h_next h \<mapsto> Packet_block packet)"
proof -
  obtain header data c where *: "length header = netcode_sequence_number_bytes_required s"
    "header = write_sequence (netcode_sequence_number_bytes_required s) s []"
    "read_packet_data (unat (packet_type packet)) data = Some (Some packet)"
    "length data = packet_data_bytes packet" "length c = length data + NETCODE_MAC_BYTES"
    "netcode_decrypt_aead cr c (packet_additional_data pid (prefix_of packet s)) (sequence_nonce s) key
      = Some (NETCODE_OK data)"
    "netcode_write_packet cr packet n s key pid =
      (if wire_bytes packet s \<le> n then Some (NETCODE_OK (prefix_of packet s # header @ c)) else None)"
    using write_encrypted_packet_cases [OF laws wf enc key] unfolding prefix_of_def .
  let ?b = "encrypted_datagram (prefix_of packet s) s c"
  have "netcode_write_packet cr packet n s key pid = Some (NETCODE_OK ?b)"
    using *(7) fits by (simp add: encrypted_datagram_def *(2))
  moreover have "length ?b = wire_bytes packet s"
    by (simp add: encrypted_datagram_def wire_bytes_def *(4,5))
  moreover have "netcode_read_packet cr ?b (Some key) pid now pk allowed rp h
      = Some (Some (h_next h), s, rp', snd (netcode_default_allocate_function (Packet_block packet) h))"
    using mem *(5) by (subst read_encrypted_datagram [OF enc allowed _ fresh])
      (simp_all add: *(3,6) allocate_packet_eq [OF wf] netcode_default_allocate_function_def)
  ultimately show ?thesis
    using mem by (auto simp: netcode_default_allocate_function_def)
qed

definition empty_heap :: "block heap" where
  "empty_heap = \<lparr>h_blocks = Map.empty, h_next = 0, h_out_of_memory = (\<lambda>_. False)\<rparr>"

lemma empty_heap_inv [simp]: "heap_inv empty_heap"
  by (simp add: heap_inv_def live_def empty_heap_def)

lemma first_packet_fresh:
  "unat s < 2 ^ 63 \<Longrightarrow> \<exists>rp'. check_replay (Some netcode_replay_protection_reset) type s = (False, rp')"
  using already_received_spec [OF replay_inv_reset, of s]
  by (cases "netcode_replay_protection_packet_already_received netcode_replay_protection_reset s")
    (auto simp: check_replay_def newest_def)

theorem encrypted_packet_roundtrip_witness:
  "\<exists>b rp' h'. netcode_write_packet clear_crypto (CONNECTION_KEEP_ALIVE_PACKET 3 16) 1220 258 (replicate 32 7) 99
      = Some (NETCODE_OK b)
    \<and> netcode_read_packet clear_crypto b (Some (replicate 32 7)) 99 0 None (replicate 7 True)
        (Some netcode_replay_protection_reset) empty_heap = Some (Some 0, 258, rp', h')
    \<and> h_blocks h' = [0 \<mapsto> Packet_block (CONNECTION_KEEP_ALIVE_PACKET 3 16)]"
proof -
  obtain rp' where "check_replay (Some netcode_replay_protection_reset) 4 258 = (False, rp')"
    using first_packet_fresh [of 258 4] by auto
  moreover have "wire_bytes (CONNECTION_KEEP_ALIVE_PACKET 3 16) 258 \<le> 1220"
    using bytes_required_spec(2) [of 258] by (simp add: wire_bytes_def)
  ultimately show ?thesis
    using encrypted_packet_roundtrip [of clear_crypto "CONNECTION_KEEP_ALIVE_PACKET 3 16" "replicate 32 7"
        258 1220 "replicate 7 True" "Some netcode_replay_protection_reset" rp' empty_heap 99 0 None]
    by (auto simp: int32_def empty_heap_def)
qed

text \<open>C12: the connection request carries the private connect token to the server: a well-formed token that the
  backend sealed under the private key is sent in a request of exactly 1062 bytes, and a server with that key, before the
  token expires, gets a request packet whose data reads back as the token.\<close>

theorem request_packet_delivers_token:
  assumes "aead_laws cr" and "length key = NETCODE_KEY_BYTES"
    and "connect_token_private_wf t" and "rest_zero (ctp_num_server_addresses t) (ctp_server_addresses t)"
    and "now < expire" and "allowed ! 0" and "\<not> h_out_of_memory h (h_next h)"
  shows "\<exists>plain sealed b rq h'.
      netcode_write_connect_token_private t 1024 = Some plain
    \<and> netcode_encrypt_connect_token_private cr plain NETCODE_VERSION_INFO pid expire sequence key
        = Some (NETCODE_OK sealed)
    \<and> netcode_write_packet cr (CONNECTION_REQUEST_PACKET \<lparr>rq_version_info = NETCODE_VERSION_INFO,
          rq_protocol_id = pid, rq_connect_token_expire_timestamp = expire,
          rq_connect_token_sequence = sequence, rq_connect_token_data = sealed\<rparr>) 1220 s wk pid
        = Some (NETCODE_OK b)
    \<and> length b = 1062
    \<and> netcode_read_packet cr b rk pid now (Some key) allowed rp h = Some (Some (h_next h), 0, rp, h')
    \<and> h_blocks h' = (h_blocks h)(h_next h \<mapsto> Packet_block (CONNECTION_REQUEST_PACKET rq))
    \<and> rq_connect_token_expire_timestamp rq = expire
    \<and> netcode_read_connect_token_private (rq_connect_token_data rq) = Some (NETCODE_OK t)"
proof -
  obtain plain sealed opened where sealed: "netcode_write_connect_token_private t 1024 = Some plain"
    "netcode_encrypt_connect_token_private cr plain NETCODE_VERSION_INFO pid expire sequence key
        = Some (NETCODE_OK sealed)"
    "length sealed = NETCODE_CONNECT_TOKEN_PRIVATE_BYTES"
    "netcode_decrypt_connect_token_private cr sealed NETCODE_VERSION_INFO pid expire sequence key
        = Some (NETCODE_OK opened)"
    "length opened = NETCODE_CONNECT_TOKEN_PRIVATE_BYTES"
    "netcode_read_connect_token_private opened = Some (NETCODE_OK t)"
    using sealed_private_token [OF assms(1-4)] .
  obtain b where "netcode_write_packet cr (CONNECTION_REQUEST_PACKET \<lparr>rq_version_info = NETCODE_VERSION_INFO,
          rq_protocol_id = pid, rq_connect_token_expire_timestamp = expire,
          rq_connect_token_sequence = sequence, rq_connect_token_data = sealed\<rparr>) 1220 s wk pid
        = Some (NETCODE_OK b)" and "length b = 1062"
    and "netcode_read_packet cr b rk pid now (Some key) allowed rp h =
      (let (ptr, h) = netcode_default_allocate_function (Packet_block (CONNECTION_REQUEST_PACKET
          \<lparr>rq_version_info = NETCODE_VERSION_INFO, rq_protocol_id = pid,
            rq_connect_token_expire_timestamp = expire,
            rq_connect_token_sequence = sequence, rq_connect_token_data = opened\<rparr>)) h
       in Some (ptr, 0, rp, h))"
    using read_request_datagram [OF sealed(3) assms(5) sealed(4,5) assms(6), of 1220 cr s wk pid rk rp h] by auto
  with sealed(1,2,6) assms(7) show ?thesis
    by (intro exI [of _ plain] exI [of _ sealed] exI [of _ b] exI [of _ "\<lparr>rq_version_info = NETCODE_VERSION_INFO,
            rq_protocol_id = pid, rq_connect_token_expire_timestamp = expire,
            rq_connect_token_sequence = sequence, rq_connect_token_data = opened\<rparr>"]
        exI [of _ "snd (netcode_default_allocate_function _ h)"])
      (auto simp: netcode_default_allocate_function_def)
qed

theorem request_packet_delivers_token_witness:
  "\<exists>plain sealed b rq h'.
      netcode_write_connect_token_private example_private_token 1024 = Some plain
    \<and> netcode_encrypt_connect_token_private clear_crypto plain NETCODE_VERSION_INFO 7 100 3 (replicate 32 9)
        = Some (NETCODE_OK sealed)
    \<and> netcode_write_packet clear_crypto (CONNECTION_REQUEST_PACKET \<lparr>rq_version_info = NETCODE_VERSION_INFO,
          rq_protocol_id = 7, rq_connect_token_expire_timestamp = 100,
          rq_connect_token_sequence = 3, rq_connect_token_data = sealed\<rparr>) 1220 0 [] 7
        = Some (NETCODE_OK b)
    \<and> length b = 1062
    \<and> netcode_read_packet clear_crypto b None 7 99 (Some (replicate 32 9)) (replicate 7 True) None empty_heap
        = Some (Some (h_next empty_heap), 0, None, h')
    \<and> h_blocks h' = (h_blocks empty_heap)(h_next empty_heap \<mapsto> Packet_block (CONNECTION_REQUEST_PACKET rq))
    \<and> rq_connect_token_expire_timestamp rq = 100
    \<and> netcode_read_connect_token_private (rq_connect_token_data rq) = Some (NETCODE_OK example_private_token)"
  by (rule request_packet_delivers_token) (simp_all add: example_private_token_wf empty_heap_def)

text \<open>C10: whatever datagram arrives and whatever keys are at hand, the reader returns: no read past the datagram, no
  failed assertion. Either no block changes, or exactly one new block holds a well-formed packet of a type the caller
  allowed; and a packet of the replay-protected types that comes with a sequence number below \<open>2^63\<close> was never let
  through before.\<close>

theorem read_packet_total:
  assumes "aead_laws cr" and "heap_inv h" and "replay_inv rp S"
  shows "\<exists>ptr s rp' h' S'.
      netcode_read_packet cr buffer key pid now pk allowed (Some rp) h = Some (ptr, s, Some rp', h')
    \<and> heap_inv h' \<and> replay_inv rp' S' \<and> S \<subseteq> S'
    \<and> (case ptr of
         None \<Rightarrow> h_blocks h' = h_blocks h
       | Some a \<Rightarrow> a \<notin> live h \<and> (\<exists>packet. h_blocks h' = (h_blocks h)(a \<mapsto> Packet_block packet)
           \<and> packet_wf packet \<and> allowed ! unat (packet_type packet)
           \<and> (unat (packet_type packet) < 4 \<or> \<not> unat s < 2 ^ 63 \<or> s \<notin> S \<and> s \<in> S')))"
proof -
  obtain ptr s r h' where run: "netcode_read_packet cr buffer key pid now pk allowed (Some rp) h = Some (ptr, s, r, h')"
    and ok: "packet_read_ok allowed (Some rp) h (ptr, s, r, h')"
    using runs_read_packet [OF assms(1,2)] by (metis runsE prod_cases3)
  show ?thesis
  proof (cases ptr)
    case None
    with ok assms(3) obtain rp' S' where "r = Some rp'" "replay_inv rp' S'" "S \<subseteq> S'"
      unfolding packet_read_ok_def replay_step_def prod.case by blast
    with None run ok show ?thesis by (auto simp: packet_read_ok_def)
  next
    case (Some a)
    with ok obtain packet where packet: "h_blocks h' = (h_blocks h)(a \<mapsto> Packet_block packet)" "a \<notin> live h"
      "packet_wf packet" "allowed ! unat (packet_type packet)" "heap_inv h'"
      and step: "replay_step (Some rp) (unat (packet_type packet)) s True r"
      by (auto simp: packet_read_ok_def)
    from step assms(3) obtain rp' S' where "r = Some rp'" "replay_inv rp' S'" "S \<subseteq> S'"
      "4 \<le> unat (packet_type packet) \<and> unat s < 2 ^ 63 \<longrightarrow> s \<notin> S \<and> s \<in> S'"
      unfolding replay_step_def by blast
    with Some run packet show ?thesis
      by (intro exI [of _ ptr] exI [of _ s] exI [of _ rp'] exI [of _ h'] exI [of _ S']) (auto simp: not_less)
  qed
qed

theorem read_packet_total_witness:
  "\<exists>ptr s rp' h' S'.
      netcode_read_packet clear_crypto [0x15, 1, 2] None 7 99 None (replicate 7 True)
        (Some netcode_replay_protection_reset) empty_heap = Some (ptr, s, Some rp', h')
    \<and> heap_inv h' \<and> replay_inv rp' S' \<and> {} \<subseteq> S'
    \<and> (case ptr of
         None \<Rightarrow> h_blocks h' = h_blocks empty_heap
       | Some a \<Rightarrow> a \<notin> live empty_heap \<and> (\<exists>packet. h_blocks h' = (h_blocks empty_heap)(a \<mapsto> Packet_block packet)
           \<and> packet_wf packet \<and> replicate 7 True ! unat (packet_type packet)
           \<and> (unat (packet_type packet) < 4 \<or> \<not> unat s < 2 ^ 63 \<or> s \<notin> {} \<and> s \<in> S')))"
  by (rule read_packet_total) (simp_all add: replay_inv_reset)

text \<open>C36: the buffer of 1220 bytes that every caller passes is too small for the largest payload once the sequence
  number needs four bytes: from the sixteen millionth packet of a connection on, a payload of 1200 bytes fails the
  writer's assertion (with assertions compiled out, the tag is written past the end of the buffer).\<close>

theorem largest_payload_overflows:
  assumes "aead_laws cr" and "length key = NETCODE_KEY_BYTES"
    and "length payload = NETCODE_MAX_PAYLOAD_BYTES"
  shows "netcode_write_packet cr (CONNECTION_PAYLOAD_PACKET payload) NETCODE_MAX_PACKET_BYTES s key pid = None
     \<longleftrightarrow> 2 ^ 24 \<le> unat s"
proof -
  let ?n = "netcode_sequence_number_bytes_required s"
  have wf: "packet_wf (CONNECTION_PAYLOAD_PACKET payload)" using assms(3) by simp
  have "netcode_write_packet cr (CONNECTION_PAYLOAD_PACKET payload) NETCODE_MAX_PACKET_BYTES s key pid = None
      \<longleftrightarrow> \<not> wire_bytes (CONNECTION_PAYLOAD_PACKET payload) s \<le> NETCODE_MAX_PACKET_BYTES"
    by (rule write_encrypted_packet_cases [OF assms(1) wf _ assms(2), of s pid NETCODE_MAX_PACKET_BYTES]) auto
  also have "\<dots> \<longleftrightarrow> 4 \<le> ?n" using assms(3) by (auto simp: wire_bytes_def)
  also have "\<dots> \<longleftrightarrow> 2 ^ 24 \<le> unat s" by (rule four_sequence_bytes)
  finally show ?thesis .
qed

theorem largest_payload_overflows_witness:
  "netcode_write_packet clear_crypto (CONNECTION_PAYLOAD_PACKET (replicate 1200 1)) NETCODE_MAX_PACKET_BYTES
     0x1000000 (replicate 32 9) 7 = None"
  by (rule iffD2 [OF largest_payload_overflows]) simp_all

text \<open>C37: the replay protection records a sequence number before the packet is authenticated. A datagram with no valid
  tag and a fresh sequence number \<open>s\<close> is dropped, but afterwards \<open>s\<close> counts as received: the genuine
  packet with that number is rejected, and so is every packet 256 or more below it.\<close>

theorem forged_packet_uses_up_sequence:
  assumes "replay_inv rp S" and "unat s < 2 ^ 63" and "s \<notin> S" and "newest S < unat s + 256"
    and "packet_type packet \<ge> 4" and "allowed ! unat (packet_type packet)"
    and "NETCODE_MAC_BYTES \<le> length c"
    and "netcode_decrypt_aead cr c (packet_additional_data pid (prefix_of packet s)) (sequence_nonce s) key
          = Some NETCODE_ERROR"
  shows "\<exists>rp'. netcode_read_packet cr (encrypted_datagram (prefix_of packet s) s c) (Some key) pid now pk allowed
        (Some rp) h = Some (None, s, Some rp', h)
    \<and> replay_inv rp' (insert s S)
    \<and> (\<forall>t. unat t < 2 ^ 63 \<longrightarrow> fst (netcode_replay_protection_packet_already_received rp' t)
         = (t = s \<or> t \<in> S \<or> unat t + 256 \<le> max (unat s) (newest S)))"
proof -
  obtain r rp' where run: "netcode_replay_protection_packet_already_received rp s = (r, rp')" by fastforce
  note spec = already_received_spec [OF assms(1,2) run]
  have r: "\<not> r" using spec(1) assms(3,4) by simp
  then have inv: "replay_inv rp' (insert s S)" using spec(2) by simp
  have type: "4 \<le> unat (packet_type packet)" using assms(5) by (simp add: word_le_nat_alt)
  then have enc: "\<not> is_request packet" by (auto simp: is_request_def)
  have fresh: "check_replay (Some rp) (unat (packet_type packet)) s = (False, Some rp')"
    using run r type by (simp add: check_replay_def)
  have fin: "finite S" using assms(1) by (simp add: replay_inv_def)
  have "fst (netcode_replay_protection_packet_already_received rp' t)
         = (t = s \<or> t \<in> S \<or> unat t + 256 \<le> max (unat s) (newest S))" if "unat t < 2 ^ 63" for t
    using already_received_spec(1) [OF inv that prod.collapse [symmetric]] fin newest_insert by auto
  then show ?thesis
    using read_encrypted_datagram [OF enc assms(6,7) fresh, of cr key pid now pk h] assms(8) inv by auto
qed

theorem forged_packet_uses_up_sequence_witness:
  "\<exists>rp'. netcode_read_packet clear_crypto
        (encrypted_datagram (prefix_of CONNECTION_DISCONNECT_PACKET 1000) 1000 (replicate 16 0))
        (Some (replicate 32 9)) 7 0 None (replicate 7 True) (Some netcode_replay_protection_reset) empty_heap
      = Some (None, 1000, Some rp', empty_heap)
    \<and> replay_inv rp' (insert 1000 {})
    \<and> (\<forall>t. unat t < 2 ^ 63 \<longrightarrow> fst (netcode_replay_protection_packet_already_received rp' t)
         = (t = 1000 \<or> t \<in> {} \<or> unat t + 256 \<le> max (unat (1000 :: u64)) (newest {})))"
  by (rule forged_packet_uses_up_sequence)
    (simp_all add: replay_inv_reset newest_def netcode_decrypt_aead_def clear_crypto_def)

end
