(* ===== verification/Packet_Queue.thy ===== *)
theory Packet_Queue
  imports Memory
begin

text \<open>
  \<^verbatim>\<open>struct netcode_packet_queue_t\<close>: the ring buffer of received packets, holding pointers to heap blocks.
  The locale \<open>fifo\<close> states the contract of a bounded queue against the list of its elements, and proves
  for any sequence of operations that what comes out, followed by what is still inside, is what went in. The ring buffer
  is an instance. \<open>netcode_packet_queue_clear\<close> is characterised in both cases: on a ring that starts
  at slot 0 it frees the contents; otherwise it frees the wrong slots.
\<close>

section \<open>Bounded queues\<close>

datatype 'a queue_op = Push 'a | Pop

text \<open>Running a list of operations: the elements accepted, the elements popped, the final queue.\<close>

fun queue_run ::
    "('q \<Rightarrow> 'a \<Rightarrow> bool \<times> 'q) \<Rightarrow> ('q \<Rightarrow> 'a option \<times> 'q) \<Rightarrow> 'q \<Rightarrow> 'a queue_op list \<Rightarrow> 'a list \<times> 'a list \<times> 'q" where
  "queue_run push pop q [] = ([], [], q)"
| "queue_run push pop q (Push x # ops) =
     (let (ok, q) = push q x; (accepted, popped, q) = queue_run push pop q ops
      in (if ok then x # accepted else accepted, popped, q))"
| "queue_run push pop q (Pop # ops) =
     (let (r, q) = pop q; (accepted, popped, q) = queue_run push pop q ops
      in (accepted, case r of None \<Rightarrow> popped | Some x \<Rightarrow> x # popped, q))"

locale fifo =
  fixes push :: "'q \<Rightarrow> 'a \<Rightarrow> bool \<times> 'q"
    and pop :: "'q \<Rightarrow> 'a option \<times> 'q"
    and contents :: "'q \<Rightarrow> 'a list"
    and inv :: "'q \<Rightarrow> bool"
    and capacity :: nat
  assumes bounded: "inv q \<Longrightarrow> length (contents q) \<le> capacity"
    and push_law: "inv q \<Longrightarrow> push q x = (ok, q') \<Longrightarrow> inv q' \<and> ok = (length (contents q) < capacity)
          \<and> contents q' = (if ok then contents q @ [x] else contents q)"
    and pop_law: "inv q \<Longrightarrow> pop q = (r, q') \<Longrightarrow> inv q' \<and>
          (case contents q of [] \<Rightarrow> r = None \<and> contents q' = [] | x # xs \<Rightarrow> r = Some x \<and> contents q' = xs)"
begin

lemma run_in_order:
  "inv q \<Longrightarrow> queue_run push pop q ops = (accepted, popped, q') \<Longrightarrow>
   inv q' \<and> popped @ contents q' = contents q @ accepted"
proof (induction ops arbitrary: q accepted popped q')
  case Nil
  then show ?case by simp
next
  case (Cons op ops)
  show ?case
  proof (cases op)
    case (Push x)
    obtain ok q1 where p: "push q x = (ok, q1)" by fastforce
    obtain a b c where r: "queue_run push pop q1 ops = (a, b, c)" by (rule prod_cases3)
    show ?thesis
      using push_law [OF Cons.prems(1) p] Cons.IH [OF _ r] Cons.prems(2) p r Push by (auto split: if_splits)
  next
    case Pop
    obtain x q1 where p: "pop q = (x, q1)" by fastforce
    obtain a b c where r: "queue_run push pop q1 ops = (a, b, c)" by (rule prod_cases3)
    show ?thesis
      using pop_law [OF Cons.prems(1) p] Cons.IH [OF _ r] Cons.prems(2) p r Pop
      by (auto split: list.splits)
  qed
qed

end

section \<open>The ring buffer\<close>

record packet_queue =
  pq_num_packets :: nat
  pq_start_index :: nat
  pq_packet_data :: "nat option list"
  pq_packet_sequence :: "u64 list"

definition netcode_packet_queue_init :: packet_queue where
  "netcode_packet_queue_init = \<lparr>pq_num_packets = 0, pq_start_index = 0,
     pq_packet_data = replicate NETCODE_PACKET_QUEUE_SIZE None,
     pq_packet_sequence = replicate NETCODE_PACKET_QUEUE_SIZE 0\<rparr>"

text \<open>The loop frees the slots \<open>i\<close>, \<open>i + 1\<close>, ... of the array, wherever the queue starts.\<close>

fun queue_free_slots :: "nat \<Rightarrow> nat \<Rightarrow> nat option list \<Rightarrow> 'b heap \<Rightarrow> 'b heap option" where
  "queue_free_slots 0 i slots h = Some h"
| "queue_free_slots (Suc k) i slots h =
     do { h \<leftarrow> netcode_default_free_function (slots ! i) h;
          queue_free_slots k (Suc i) slots h }"

definition netcode_packet_queue_clear :: "packet_queue \<Rightarrow> 'b heap \<Rightarrow> (packet_queue \<times> 'b heap) option" where
  "netcode_packet_queue_clear queue h =
     do { h \<leftarrow> queue_free_slots (pq_num_packets queue) 0 (pq_packet_data queue) h;
          Some (queue\<lparr>pq_num_packets := 0, pq_start_index := 0,
            pq_packet_data := replicate NETCODE_PACKET_QUEUE_SIZE None,
            pq_packet_sequence := replicate NETCODE_PACKET_QUEUE_SIZE 0\<rparr>, h) }"

text \<open>The assignments of a successful push.\<close>

definition queue_append :: "packet_queue \<Rightarrow> nat \<Rightarrow> u64 \<Rightarrow> packet_queue" where
  "queue_append queue packet_data packet_sequence =
     (let index = (pq_start_index queue + pq_num_packets queue) mod NETCODE_PACKET_QUEUE_SIZE
      in queue\<lparr>pq_packet_data := (pq_packet_data queue)[index := Some packet_data],
           pq_packet_sequence := (pq_packet_sequence queue)[index := packet_sequence],
           pq_num_packets := pq_num_packets queue + 1\<rparr>)"

definition netcode_packet_queue_push ::
    "packet_queue \<Rightarrow> nat \<Rightarrow> u64 \<Rightarrow> 'b heap \<Rightarrow> (bool \<times> packet_queue \<times> 'b heap) option" where
  "netcode_packet_queue_push queue packet_data packet_sequence h =
     (if pq_num_packets queue = NETCODE_PACKET_QUEUE_SIZE then
        do { h \<leftarrow> netcode_default_free_function (Some packet_data) h;
             Some (False, queue, h) }
      else Some (True, queue_append queue packet_data packet_sequence, h))"

text \<open>The popped pointer and, unless the queue is empty, the sequence number stored for the caller.\<close>

definition netcode_packet_queue_pop :: "packet_queue \<Rightarrow> nat option \<times> u64 option \<times> packet_queue" where
  "netcode_packet_queue_pop queue =
     (if pq_num_packets queue = 0 then (None, None, queue)
      else (pq_packet_data queue ! pq_start_index queue,
            Some (pq_packet_sequence queue ! pq_start_index queue),
            queue\<lparr>pq_start_index := (pq_start_index queue + 1) mod NETCODE_PACKET_QUEUE_SIZE,
              pq_num_packets := pq_num_packets queue - 1\<rparr>))"

section \<open>The ring buffer is a bounded queue\<close>

definition queue_slot :: "packet_queue \<Rightarrow> nat \<Rightarrow> nat option \<times> u64" where
  "queue_slot q i = (let j = (pq_start_index q + i) mod NETCODE_PACKET_QUEUE_SIZE
     in (pq_packet_data q ! j, pq_packet_sequence q ! j))"

definition queue_contents :: "packet_queue \<Rightarrow> (nat \<times> u64) list" where
  "queue_contents q = map (\<lambda>i. (the (fst (queue_slot q i)), snd (queue_slot q i))) [0..<pq_num_packets q]"

definition queue_inv :: "packet_queue \<Rightarrow> bool" where
  "queue_inv q \<longleftrightarrow> length (pq_packet_data q) = NETCODE_PACKET_QUEUE_SIZE
     \<and> length (pq_packet_sequence q) = NETCODE_PACKET_QUEUE_SIZE
     \<and> pq_start_index q < NETCODE_PACKET_QUEUE_SIZE \<and> pq_num_packets q \<le> NETCODE_PACKET_QUEUE_SIZE
     \<and> (\<forall>i < pq_num_packets q. fst (queue_slot q i) \<noteq> None)"

lemma length_queue_contents [simp]: "length (queue_contents q) = pq_num_packets q"
  by (simp add: queue_contents_def)

lemma queue_inv_init [simp]: "queue_inv netcode_packet_queue_init"
  by (simp add: queue_inv_def netcode_packet_queue_init_def)

lemma queue_contents_init [simp]: "queue_contents netcode_packet_queue_init = []"
  by (simp add: queue_contents_def netcode_packet_queue_init_def)

lemma queue_append_slot:
  assumes "queue_inv q" and "pq_num_packets q < 256" and "i \<le> pq_num_packets q"
  shows "queue_slot (queue_append q ptr s) i = (if i = pq_num_packets q then (Some ptr, s) else queue_slot q i)"
proof (cases "i = pq_num_packets q")
  case True
  with assms show ?thesis by (simp add: queue_slot_def queue_append_def queue_inv_def Let_def)
next
  case False
  with assms have "(pq_start_index q + pq_num_packets q) mod 256 \<noteq> (pq_start_index q + i) mod 256"
    using ring_distinct [of "pq_num_packets q" i "pq_start_index q"] by fastforce
  with False show ?thesis by (simp add: queue_slot_def queue_append_def Let_def)
qed

lemma queue_append_law:
  assumes "queue_inv q" and "pq_num_packets q < 256"
  shows "queue_inv (queue_append q ptr s)" and "queue_contents (queue_append q ptr s) = queue_contents q @ [(ptr, s)]"
proof -
  have n: "pq_num_packets (queue_append q ptr s) = Suc (pq_num_packets q)"
    by (simp add: queue_append_def Let_def)
  show "queue_inv (queue_append q ptr s)"
    using assms queue_append_slot [OF assms]
    by (auto simp: queue_inv_def n less_Suc_eq_le) (auto simp: queue_append_def Let_def)
  show "queue_contents (queue_append q ptr s) = queue_contents q @ [(ptr, s)]"
    using queue_append_slot [OF assms] by (simp add: queue_contents_def n)
qed

lemma queue_pop_slot:
  assumes "netcode_packet_queue_pop q = (r, s, q')" and "pq_num_packets q > 0"
  shows "queue_slot q' i = queue_slot q (Suc i)" and "pq_num_packets q' = pq_num_packets q - 1"
  using assms by (auto simp: netcode_packet_queue_pop_def queue_slot_def ring_next)

lemma queue_pop_law:
  assumes inv: "queue_inv q" and run: "netcode_packet_queue_pop q = (r, s, q')"
  shows "queue_inv q' \<and> (case queue_contents q of
      [] \<Rightarrow> r = None \<and> q' = q
    | (ptr, t) # xs \<Rightarrow> r = Some ptr \<and> s = Some t \<and> queue_contents q' = xs)"
proof (cases "pq_num_packets q")
  case 0
  with inv run show ?thesis by (simp add: netcode_packet_queue_pop_def queue_contents_def)
next
  case (Suc n)
  note slot = queue_pop_slot [OF run]
  have q': "pq_packet_data q' = pq_packet_data q" "pq_packet_sequence q' = pq_packet_sequence q"
    "pq_start_index q' < 256"
    using run Suc by (auto simp: netcode_packet_queue_pop_def)
  have hd: "queue_slot q 0 = (r, the s)" "s \<noteq> None" and "r \<noteq> None"
    using inv run Suc by (auto simp: netcode_packet_queue_pop_def queue_slot_def queue_inv_def Let_def)
  have "[0..<Suc n] = 0 # map Suc [0..<n]" by (simp add: map_Suc_upt upt_conv_Cons)
  then have "queue_contents q = (the r, the s) # queue_contents q'"
    using Suc hd slot by (simp add: queue_contents_def comp_def del: upt_Suc)
  moreover have "queue_inv q'"
    using inv Suc slot q' unfolding queue_inv_def by auto
  ultimately show ?thesis using hd(2) \<open>r \<noteq> None\<close> by auto
qed

text \<open>Push and pop without the heap.\<close>

definition ring_push :: "packet_queue \<Rightarrow> nat \<times> u64 \<Rightarrow> bool \<times> packet_queue" where
  "ring_push q x = (if pq_num_packets q = NETCODE_PACKET_QUEUE_SIZE then (False, q)
     else (True, queue_append q (fst x) (snd x)))"

definition ring_pop :: "packet_queue \<Rightarrow> (nat \<times> u64) option \<times> packet_queue" where
  "ring_pop q = (case netcode_packet_queue_pop q of (r, s, q) \<Rightarrow>
     (case r of None \<Rightarrow> None | Some ptr \<Rightarrow> Some (ptr, the s), q))"

interpretation ring: fifo ring_push ring_pop queue_contents queue_inv NETCODE_PACKET_QUEUE_SIZE
proof
  show "length (queue_contents q) \<le> NETCODE_PACKET_QUEUE_SIZE" if "queue_inv q" for q
    using that by (simp add: queue_inv_def)
next
  fix q x ok q' assume inv: "queue_inv q"
    and run: "ring_push q x = (ok, q')"
  have "pq_num_packets q \<le> 256" using inv by (simp add: queue_inv_def)
  with inv run show "queue_inv q' \<and> ok = (length (queue_contents q) < NETCODE_PACKET_QUEUE_SIZE)
      \<and> queue_contents q' = (if ok then queue_contents q @ [x] else queue_contents q)"
    by (auto simp: ring_push_def queue_append_law split: if_splits)
next
  fix q r q' assume inv: "queue_inv q"
    and run: "ring_pop q = (r, q')"
  obtain p s q1 where pop: "netcode_packet_queue_pop q = (p, s, q1)" by (rule prod_cases3)
  from queue_pop_law [OF inv pop] run pop show "queue_inv q' \<and> (case queue_contents q of
      [] \<Rightarrow> r = None \<and> queue_contents q' = [] | x # xs \<Rightarrow> r = Some x \<and> queue_contents q' = xs)"
    by (auto simp: ring_pop_def split: list.splits)
qed

section \<open>Clearing\<close>

lemma free_slots:
  assumes "\<And>j. j < k \<Longrightarrow> slots ! (i + j) = Some (ptrs ! j)" and "length ptrs = k"
    and "distinct ptrs" and "set ptrs \<subseteq> live h"
  shows "queue_free_slots k i slots h = Some (release ptrs h)"
  using assms
proof (induction k arbitrary: i h ptrs)
  case 0
  then show ?case by simp
next
  case (Suc k)
  then obtain ptr qs where ptrs: "ptrs = ptr # qs" by (cases ptrs) auto
  have "slots ! i = Some ptr" using Suc.prems(1) [of 0] ptrs by simp
  moreover have "queue_free_slots k (Suc i) slots (release [ptr] h) = Some (release qs (release [ptr] h))"
  proof (rule Suc.IH)
    show "slots ! (Suc i + j) = Some (qs ! j)" if "j < k" for j
      using Suc.prems(1) [of "Suc j"] that ptrs by simp
  qed (use Suc.prems ptrs in \<open>auto simp: live_release\<close>)
  moreover have "ptr \<in> live h" using Suc.prems(4) ptrs by simp
  ultimately show ?case by (simp add: free_live ptrs release_release)
qed

lemma clear_from_slot_0:
  assumes "queue_inv q" and "pq_start_index q = 0"
    and "distinct (map fst (queue_contents q))" and "fst ` set (queue_contents q) \<subseteq> live h"
  shows "netcode_packet_queue_clear q h
    = Some (netcode_packet_queue_init, release (map fst (queue_contents q)) h)"
proof -
  have "queue_free_slots (pq_num_packets q) 0 (pq_packet_data q) h = Some (release (map fst (queue_contents q)) h)"
  proof (rule free_slots)
    fix j assume j: "j < pq_num_packets q"
    with assms(1) have "fst (queue_slot q j) \<noteq> None" and "j < 256" by (auto simp: queue_inv_def)
    with j assms(2) show "pq_packet_data q ! (0 + j) = Some (map fst (queue_contents q) ! j)"
      by (auto simp: queue_contents_def queue_slot_def Let_def)
  qed (use assms in auto)
  moreover have "q\<lparr>pq_num_packets := 0, pq_start_index := 0,
            pq_packet_data := replicate NETCODE_PACKET_QUEUE_SIZE None,
            pq_packet_sequence := replicate NETCODE_PACKET_QUEUE_SIZE 0\<rparr> = netcode_packet_queue_init"
    by (cases q) (simp add: netcode_packet_queue_init_def)
  ultimately show ?thesis by (simp add: netcode_packet_queue_clear_def)
qed

lemma clear_empty [simp]:
  "pq_num_packets q = 0 \<Longrightarrow> netcode_packet_queue_clear q h = Some (netcode_packet_queue_init, h)"
  by (cases q) (simp add: netcode_packet_queue_clear_def netcode_packet_queue_init_def)

section \<open>Sessions\<close>

text \<open>A sequence of calls of push and pop, the heap included: accepted and popped elements, final queue and heap.\<close>

fun queue_session ::
    "packet_queue \<Rightarrow> 'b heap \<Rightarrow> (nat \<times> u64) queue_op list \<Rightarrow>
     ((nat \<times> u64) list \<times> (nat \<times> u64) list \<times> packet_queue \<times> 'b heap) option" where
  "queue_session q h [] = Some ([], [], q, h)"
| "queue_session q h (Push x # ops) =
     do { (ok, q, h) \<leftarrow> netcode_packet_queue_push q (fst x) (snd x) h;
          (accepted, popped, q, h) \<leftarrow> queue_session q h ops;
          Some (if ok then x # accepted else accepted, popped, q, h) }"
| "queue_session q h (Pop # ops) =
     (case netcode_packet_queue_pop q of (r, s, q) \<Rightarrow>
        do { (accepted, popped, q, h) \<leftarrow> queue_session q h ops;
             Some (accepted, case r of None \<Rightarrow> popped | Some ptr \<Rightarrow> (ptr, the s) # popped, q, h) })"

fun pushed :: "'a queue_op list \<Rightarrow> 'a list" where
  "pushed [] = []"
| "pushed (Push x # ops) = x # pushed ops"
| "pushed (Pop # ops) = pushed ops"

lemma queue_session_run:
  assumes "distinct (map fst (pushed ops))" and "fst ` set (pushed ops) \<subseteq> live h"
    and "queue_run ring_push ring_pop q ops = (accepted, popped, q')"
  shows "\<exists>rejected. queue_session q h ops = Some (accepted, popped, q', release (map fst rejected) h)
    \<and> set rejected \<union> set accepted = set (pushed ops) \<and> set rejected \<inter> set accepted = {}"
  using assms
proof (induction ops arbitrary: q h accepted popped q')
  case Nil
  then show ?case by (auto intro: exI [of _ "[]"])
next
  case (Cons op ops)
  show ?case
  proof (cases op)
    case Pop
    obtain r s q1 where pop: "netcode_packet_queue_pop q = (r, s, q1)" by (rule prod_cases3)
    obtain a b c where rest: "queue_run ring_push ring_pop q1 ops = (a, b, c)" by (rule prod_cases3)
    then obtain rejected where "queue_session q1 h ops = Some (a, b, c, release (map fst rejected) h)"
      "set rejected \<union> set a = set (pushed ops)" "set rejected \<inter> set a = {}"
      using Cons.IH [OF _ _ rest, of h] Cons.prems(1,2) Pop by auto
    moreover have "accepted = a" "popped = (case r of None \<Rightarrow> b | Some ptr \<Rightarrow> (ptr, the s) # b)" "q' = c"
      using Cons.prems(3) Pop pop rest by (auto simp: ring_pop_def [of q] split: option.splits)
    ultimately show ?thesis using Pop pop by (intro exI [of _ rejected]) simp
  next
    case (Push x)
    obtain ptr s where x: "x = (ptr, s)" by fastforce
    show ?thesis
    proof (cases "pq_num_packets q = 256")
      case True
      obtain a b c where rest: "queue_run ring_push ring_pop q ops = (a, b, c)" by (rule prod_cases3)
      have "fst ` set (pushed ops) \<subseteq> live (release [ptr] h)" using Cons.prems(1,2) Push x by auto
      then obtain rejected where "queue_session q (release [ptr] h) ops
            = Some (a, b, c, release (map fst rejected) (release [ptr] h))"
        "set rejected \<union> set a = set (pushed ops)" "set rejected \<inter> set a = {}"
        using Cons.IH [OF _ _ rest, of "release [ptr] h"] Cons.prems(1) Push by auto
      moreover have "ptr \<in> live h" using Cons.prems(2) Push x by simp
      moreover have "accepted = a" "popped = b" "q' = c" using Cons.prems(3) Push x True rest by (auto simp: ring_push_def [of q])
      moreover have "x \<notin> set (pushed ops)" using Cons.prems(1) Push by force
      ultimately show ?thesis using True Push x
        by (intro exI [of _ "x # rejected"])
          (auto simp: netcode_packet_queue_push_def free_live release_release)
    next
      case False
      obtain a b c where rest: "queue_run ring_push ring_pop (queue_append q ptr s) ops = (a, b, c)"
        by (rule prod_cases3)
      then obtain rejected where "queue_session (queue_append q ptr s) h ops
            = Some (a, b, c, release (map fst rejected) h)"
        "set rejected \<union> set a = set (pushed ops)" "set rejected \<inter> set a = {}"
        using Cons.IH [OF _ _ rest, of h] Cons.prems(1,2) Push by auto
      moreover have "accepted = x # a" "popped = b" "q' = c" using Cons.prems(3) Push x False rest by (auto simp: ring_push_def [of q])
      moreover have "x \<notin> set (pushed ops)" using Cons.prems(1) Push by force
      ultimately show ?thesis using False Push x
        by (intro exI [of _ rejected]) (auto simp: netcode_packet_queue_push_def)
    qed
  qed
qed

section \<open>Properties\<close>

text \<open>C15: the receive queue is first in, first out. Over any sequence of pushes (of distinct live blocks) and pops,
  the elements popped followed by those still in the queue are the elements it held at the start followed by those it
  accepted, in order; a push that finds 256 elements frees its block, and no other block is freed.\<close>

theorem packet_queue_first_in_first_out:
  assumes "queue_inv q" and "distinct (map fst (pushed ops))" and "fst ` set (pushed ops) \<subseteq> live h"
  shows "\<exists>accepted rejected popped q'.
      queue_session q h ops = Some (accepted, popped, q', release (map fst rejected) h)
    \<and> popped @ queue_contents q' = queue_contents q @ accepted
    \<and> length (queue_contents q') \<le> NETCODE_PACKET_QUEUE_SIZE
    \<and> set rejected \<union> set accepted = set (pushed ops) \<and> set rejected \<inter> set accepted = {}"
proof -
  obtain accepted popped q' where run: "queue_run ring_push ring_pop q ops = (accepted, popped, q')"
    by (rule prod_cases3)
  obtain rejected where "queue_session q h ops = Some (accepted, popped, q', release (map fst rejected) h)"
    "set rejected \<union> set accepted = set (pushed ops)" "set rejected \<inter> set accepted = {}"
    using queue_session_run [OF assms(2,3) run] by (elim exE conjE)
  moreover have inv: "queue_inv q'" and "popped @ queue_contents q' = queue_contents q @ accepted"
    using ring.run_in_order [OF assms(1) run] by simp_all
  ultimately show ?thesis using ring.bounded [OF inv]
    by (intro exI [of _ accepted] exI [of _ rejected] exI [of _ popped] exI [of _ q'] conjI)
qed

theorem packet_queue_first_in_first_out_witness:
  "\<exists>accepted rejected popped q'.
      queue_session netcode_packet_queue_init \<lparr>h_blocks = [0 \<mapsto> True, 1 \<mapsto> False], h_next = 2, h_out_of_memory = \<lambda>_. False\<rparr>
        [Push (0, 10), Push (1, 11), Pop]
      = Some (accepted, popped, q', release (map fst rejected)
          \<lparr>h_blocks = [0 \<mapsto> True, 1 \<mapsto> False], h_next = 2, h_out_of_memory = \<lambda>_. False\<rparr>)
    \<and> popped @ queue_contents q' = queue_contents netcode_packet_queue_init @ accepted
    \<and> length (queue_contents q') \<le> NETCODE_PACKET_QUEUE_SIZE
    \<and> set rejected \<union> set accepted = set (pushed [Push (0, 10), Push (1, 11), Pop])
    \<and> set rejected \<inter> set accepted = {}"
  by (rule packet_queue_first_in_first_out) (simp_all add: live_def)

text \<open>\<^verbatim>\<open>netcode_packet_queue_clear\<close> frees the slots from 0 on, not from the start of the ring. After two pushes and
  a pop, whose packet the caller frees as it must, clearing the queue frees that packet a second time (and would leave
  the one still in the queue allocated).\<close>

lemma clear_after_pop_frees_twice:
  assumes "a \<noteq> b" and "a \<in> live h" and "b \<in> live h"
  shows "do { (ok, q, h) \<leftarrow> netcode_packet_queue_push netcode_packet_queue_init a s h;
              (ok, q, h) \<leftarrow> netcode_packet_queue_push q b t h;
              let (r, u, q) = netcode_packet_queue_pop q;
              h \<leftarrow> netcode_default_free_function r h;
              netcode_packet_queue_clear q h } = None"
proof -
  have "a \<notin> live (release [a] h)" by simp
  then show ?thesis using assms
    by (simp add: netcode_packet_queue_push_def netcode_packet_queue_pop_def netcode_packet_queue_clear_def
        netcode_packet_queue_init_def queue_append_def free_live free_dead)
qed

lemma clear_after_pop_frees_twice_witness:
  "do { (ok, q, h) \<leftarrow> netcode_packet_queue_push netcode_packet_queue_init 0 10
          \<lparr>h_blocks = [0 \<mapsto> True, 1 \<mapsto> False], h_next = 2, h_out_of_memory = \<lambda>_. False\<rparr>;
        (ok, q, h) \<leftarrow> netcode_packet_queue_push q 1 11 h;
        let (r, u, q) = netcode_packet_queue_pop q;
        h \<leftarrow> netcode_default_free_function r h;
        netcode_packet_queue_clear q h } = None"
  by (rule clear_after_pop_frees_twice) (simp_all add: live_def)

end
