(* ===== verification/World.thy ===== *)
theory World
  imports Packets Packet_Queue
begin

text \<open>
  What the code of a process sees of its environment, as one record that every operation with an effect takes and
  returns: the global \<^verbatim>\<open>netcode\<close>, the clock \<^verbatim>\<open>time( NULL )\<close>, the heap, the results of \<^verbatim>\<open>rand\<close> and of
  \<^verbatim>\<open>randombytes_buf\<close> as streams with a position, the datagrams that the sockets will deliver and those that were sent, the
  network simulator, and the log of the user's callbacks. Callbacks are not modelled beyond their call: they are taken not to call
  back into the library. A pointer to the network simulator is a flag of the client or the server: there is
  one simulator in a world.
\<close>

section \<open>Sockets and addresses of the operating system\<close>

datatype sockaddr =
    SOCKADDR_IN u32 u16
  | SOCKADDR_IN6 "u16 list" u16
  | SOCKADDR_OTHER

record netcode_socket =
  so_address :: netcode_address
  so_handle :: int

definition zero_socket :: netcode_socket where
  "zero_socket = \<lparr>so_address = zero_address, so_handle = 0\<rparr>"

section \<open>The network simulator's data\<close>

record packet_entry =
  pe_from :: netcode_address
  pe_to :: netcode_address
  pe_delivery_time :: dbl
  pe_packet_data :: "nat option"
  pe_packet_bytes :: nat

abbreviation (input) NETCODE_NETWORK_SIMULATOR_NUM_PACKET_ENTRIES :: nat where
  "NETCODE_NETWORK_SIMULATOR_NUM_PACKET_ENTRIES \<equiv> NETCODE_MAX_CLIENTS * 256"
abbreviation (input) NETCODE_NETWORK_SIMULATOR_NUM_PENDING_RECEIVE_PACKETS :: nat where
  "NETCODE_NETWORK_SIMULATOR_NUM_PENDING_RECEIVE_PACKETS \<equiv> NETCODE_MAX_CLIENTS * 64"

text \<open>Arrays whose indices are bounded by the loops and checks of the code: functions of the index.\<close>

type_synonym 'a array = "nat \<Rightarrow> 'a"

record network_simulator =
  ns_latency_milliseconds :: dbl
  ns_jitter_milliseconds :: dbl
  ns_packet_loss_percent :: dbl
  ns_duplicate_packet_percent :: dbl
  ns_time :: dbl
  ns_current_index :: nat
  ns_num_pending_receive_packets :: nat
  ns_packet_entries :: "packet_entry array"
  ns_pending_receive_packets :: "packet_entry array"

definition zero_packet_entry :: packet_entry where
  "zero_packet_entry = \<lparr>pe_from = zero_address, pe_to = zero_address, pe_delivery_time = 0,
     pe_packet_data = None, pe_packet_bytes = 0\<rparr>"

definition zero_network_simulator :: network_simulator where
  "zero_network_simulator = \<lparr>ns_latency_milliseconds = 0, ns_jitter_milliseconds = 0,
     ns_packet_loss_percent = 0, ns_duplicate_packet_percent = 0, ns_time = 0, ns_current_index = 0,
     ns_num_pending_receive_packets = 0, ns_packet_entries = (\<lambda>_. zero_packet_entry),
     ns_pending_receive_packets = (\<lambda>_. zero_packet_entry)\<rparr>"

section \<open>Callbacks\<close>

text \<open>The first argument is the context the callback was registered with.\<close>

datatype callback =
    Client_state_change nat int int
  | Client_loopback_packet nat int bytes u64
  | Server_connect_disconnect nat nat bool
  | Server_loopback_packet nat nat bytes u64

section \<open>The world\<close>

record world =
  w_initialized :: bool
  w_timestamp :: u64
  w_heap :: "block heap"
  w_rand :: "nat \<Rightarrow> dbl"
  w_rand_next :: nat
  w_random :: "nat \<Rightarrow> byte"
  w_random_next :: nat
  w_inbox :: "int \<Rightarrow> (sockaddr \<times> bytes) list"
  w_sent :: "(int \<times> sockaddr \<times> bytes) list"
  w_closed :: "int list"
  w_simulator :: network_simulator
  w_callbacks :: "callback list"

text \<open>A world in which nothing has happened yet, for the concrete runs of the witnesses.\<close>

definition empty_world :: world where
  "empty_world = \<lparr>w_initialized = True, w_timestamp = 100, w_heap = empty_heap, w_rand = (\<lambda>_. 1 / 2), w_rand_next = 0,
     w_random = (\<lambda>i. of_nat i), w_random_next = 0, w_inbox = (\<lambda>_. []), w_sent = [], w_closed = [],
     w_simulator = zero_network_simulator, w_callbacks = []\<rparr>"

text \<open>\<^verbatim>\<open>sodium_init\<close> is a parameter: its result.\<close>

definition netcode_init :: "int \<Rightarrow> world \<Rightarrow> (unit c_result \<times> world) option" where
  "netcode_init sodium_init w =
     do { c_assert (\<not> w_initialized w);
          Some (if sodium_init = - 1 then (NETCODE_ERROR, w)
                else (NETCODE_OK (), w\<lparr>w_initialized := True\<rparr>)) }"

definition netcode_term :: "world \<Rightarrow> world option" where
  "netcode_term w = do { c_assert (w_initialized w); Some (w\<lparr>w_initialized := False\<rparr>) }"

definition w_alloc :: "block \<Rightarrow> world \<Rightarrow> nat option \<times> world" where
  "w_alloc contents w =
     (let (ptr, h) = netcode_default_allocate_function contents (w_heap w) in (ptr, w\<lparr>w_heap := h\<rparr>))"

definition w_free :: "nat option \<Rightarrow> world \<Rightarrow> world option" where
  "w_free ptr w = do { h \<leftarrow> netcode_default_free_function ptr (w_heap w); Some (w\<lparr>w_heap := h\<rparr>) }"

definition netcode_random_bytes :: "nat \<Rightarrow> world \<Rightarrow> bytes \<times> world" where
  "netcode_random_bytes n w =
     (map (\<lambda>i. w_random w (w_random_next w + i)) [0..<n], w\<lparr>w_random_next := w_random_next w + n\<rparr>)"

definition netcode_generate_key :: "world \<Rightarrow> bytes \<times> world" where
  "netcode_generate_key w = netcode_random_bytes NETCODE_KEY_BYTES w"

text \<open>\<open>w_rand\<close> is \<^verbatim>\<open>( (float) rand() ) / (float) RAND_MAX\<close>.\<close>

definition netcode_random_float :: "dbl \<Rightarrow> dbl \<Rightarrow> world \<Rightarrow> (dbl \<times> world) option" where
  "netcode_random_float a b w =
     do { c_assert (a < b);
          let random = w_rand w (w_rand_next w);
          let diff = b - a;
          let r = random * diff;
          Some (a + r, w\<lparr>w_rand_next := w_rand_next w + 1\<rparr>) }"

definition w_log :: "callback \<Rightarrow> world \<Rightarrow> world" where
  "w_log e w = w\<lparr>w_callbacks := w_callbacks w @ [e]\<rparr>"

lemma length_random_bytes [simp]: "netcode_random_bytes n w = (bs, w') \<Longrightarrow> length bs = n"
  by (auto simp: netcode_random_bytes_def)

lemma generate_key_length: "netcode_generate_key w = (bs, w') \<Longrightarrow> length bs = NETCODE_KEY_BYTES"
  by (simp add: netcode_generate_key_def)

lemma w_log_simps [simp]:
  "w_heap (w_log e w) = w_heap w" "w_inbox (w_log e w) = w_inbox w" "w_simulator (w_log e w) = w_simulator w"
  "w_sent (w_log e w) = w_sent w" "w_callbacks (w_log e w) = w_callbacks w @ [e]"
  "w_initialized (w_log e w) = w_initialized w" "w_timestamp (w_log e w) = w_timestamp w"
  by (simp_all add: w_log_def)

text \<open>What a pointer to a packet, or to a datagram that the simulator handed over, points to.\<close>

definition w_packet :: "nat \<Rightarrow> world \<Rightarrow> netcode_packet option" where
  "w_packet ptr w = (case h_blocks (w_heap w) ptr of Some (Packet_block packet) \<Rightarrow> Some packet | _ \<Rightarrow> None)"

definition w_buffer :: "nat \<Rightarrow> world \<Rightarrow> bytes option" where
  "w_buffer ptr w = (case h_blocks (w_heap w) ptr of Some (Buffer_block data) \<Rightarrow> Some data | _ \<Rightarrow> None)"

text \<open>The queue operations on the heap of a world.\<close>

definition queue_push :: "packet_queue \<Rightarrow> nat \<Rightarrow> u64 \<Rightarrow> world \<Rightarrow> (packet_queue \<times> world) option" where
  "queue_push q ptr s w =
     do { (ok, q, h) \<leftarrow> netcode_packet_queue_push q ptr s (w_heap w);
          Some (q, w\<lparr>w_heap := h\<rparr>) }"

text \<open>The loop that pops and frees every packet; \<open>pq_num_packets\<close> bounds its number of rounds.\<close>

fun queue_drain :: "nat \<Rightarrow> packet_queue \<Rightarrow> world \<Rightarrow> (packet_queue \<times> world) option" where
  "queue_drain 0 q w = None"
| "queue_drain (Suc fuel) q w =
     (case netcode_packet_queue_pop q of
        (None, _, q) \<Rightarrow> Some (q, w)
      | (Some ptr, _, q) \<Rightarrow> do { w \<leftarrow> w_free (Some ptr) w; queue_drain fuel q w })"

text \<open>The drain and the clear that follow each other in the client and in the server.\<close>

definition queue_empty_out :: "packet_queue \<Rightarrow> world \<Rightarrow> (packet_queue \<times> world) option" where
  "queue_empty_out q w =
     do { (q, w) \<leftarrow> queue_drain (Suc (pq_num_packets q)) q w;
          (q, h) \<leftarrow> netcode_packet_queue_clear q (w_heap w);
          Some (q, w\<lparr>w_heap := h\<rparr>) }"

section \<open>Draining\<close>

lemma w_free_live:
  "ptr \<in> live (w_heap w) \<Longrightarrow> w_free (Some ptr) w = Some (w\<lparr>w_heap := release [ptr] (w_heap w)\<rparr>)"
  by (simp add: w_free_def free_live)

lemma queue_drain_ok:
  "queue_inv q \<Longrightarrow> distinct (map fst (queue_contents q)) \<Longrightarrow> fst ` set (queue_contents q) \<subseteq> live (w_heap w)
   \<Longrightarrow> fuel > pq_num_packets q \<Longrightarrow>
   \<exists>q'. queue_drain fuel q w = Some (q', w\<lparr>w_heap := release (map fst (queue_contents q)) (w_heap w)\<rparr>)
     \<and> pq_num_packets q' = 0"
proof (induction fuel arbitrary: q w)
  case 0
  then show ?case by simp
next
  case (Suc fuel)
  obtain r s q1 where pop: "netcode_packet_queue_pop q = (r, s, q1)" by (rule prod_cases3)
  note law = queue_pop_law [OF Suc.prems(1) pop]
  show ?case
  proof (cases "queue_contents q")
    case Nil
    then have "pq_num_packets q = 0" by (metis length_queue_contents list.size(3))
    with Nil law pop show ?thesis by auto
  next
    case (Cons x xs)
    obtain ptr t where x: "x = (ptr, t)" by fastforce
    have q1: "r = Some ptr" "queue_contents q1 = xs" "queue_inv q1" using law Cons x by auto
    then have "pq_num_packets q1 < fuel" using Suc.prems(4) Cons by (metis length_queue_contents length_Cons Suc_less_eq)
    moreover have "fst ` set xs \<subseteq> live (w_heap (w\<lparr>w_heap := release [ptr] (w_heap w)\<rparr>))"
      using Suc.prems(2,3) Cons x by auto
    ultimately obtain q' where "queue_drain fuel q1 (w\<lparr>w_heap := release [ptr] (w_heap w)\<rparr>)
        = Some (q', w\<lparr>w_heap := release (map fst xs) (release [ptr] (w_heap w))\<rparr>)" "pq_num_packets q' = 0"
      using Suc.IH [of q1 "w\<lparr>w_heap := release [ptr] (w_heap w)\<rparr>"] q1 Suc.prems(2) Cons by auto
    moreover have "ptr \<in> live (w_heap w)" using Suc.prems(3) Cons x by simp
    ultimately show ?thesis using pop q1(1) Cons x by (simp add: w_free_live release_release)
  qed
qed

lemma queue_empty_out_ok:
  assumes "queue_inv q" and "distinct (map fst (queue_contents q))"
    and "fst ` set (queue_contents q) \<subseteq> live (w_heap w)"
  shows "queue_empty_out q w
    = Some (netcode_packet_queue_init, w\<lparr>w_heap := release (map fst (queue_contents q)) (w_heap w)\<rparr>)"
  using queue_drain_ok [OF assms, of "Suc (pq_num_packets q)"] by (auto simp: queue_empty_out_def)

end
