(* ===== verification/Sockets.thy ===== *)
theory Sockets
  imports World
begin

text \<open>
  UDP sockets: \<^verbatim>\<open>netcode_socket_create\<close>, \<^verbatim>\<open>netcode_socket_destroy\<close>, \<^verbatim>\<open>netcode_socket_send_packet\<close> and
  \<^verbatim>\<open>netcode_socket_receive_packet\<close> (the branches for Unix). The results of the operating system's calls on creation are the
  record \<open>os_calls\<close>; \<^verbatim>\<open>sendto\<close> appends to the log \<open>w_sent\<close>; \<^verbatim>\<open>recvfrom\<close> takes the next datagram of
  \<open>w_inbox\<close>, cut to the size of the buffer, and fails when there is none.
\<close>

section \<open>Creation\<close>

record os_calls =
  os_socket :: int
  os_ipv6_only :: int
  os_sndbuf :: int
  os_rcvbuf :: int
  os_bind :: int
  os_getsockname :: "u16 option"
  os_fcntl :: int

datatype socket_error =
    NETCODE_SOCKET_ERROR_NONE
  | NETCODE_SOCKET_ERROR_CREATE_FAILED
  | NETCODE_SOCKET_ERROR_SET_NON_BLOCKING_FAILED
  | NETCODE_SOCKET_ERROR_SOCKOPT_IPV6_ONLY_FAILED
  | NETCODE_SOCKET_ERROR_SOCKOPT_RCVBUF_FAILED
  | NETCODE_SOCKET_ERROR_SOCKOPT_SNDBUF_FAILED
  | NETCODE_SOCKET_ERROR_BIND_IPV4_FAILED
  | NETCODE_SOCKET_ERROR_BIND_IPV6_FAILED
  | NETCODE_SOCKET_ERROR_GET_SOCKNAME_IPV4_FAILED
  | NETCODE_SOCKET_ERROR_GET_SOCKNAME_IPV6_FAILED

text \<open>The number each error has in the code.\<close>

fun socket_error_code :: "socket_error \<Rightarrow> nat" where
  "socket_error_code NETCODE_SOCKET_ERROR_NONE = 0"
| "socket_error_code NETCODE_SOCKET_ERROR_CREATE_FAILED = 1"
| "socket_error_code NETCODE_SOCKET_ERROR_SET_NON_BLOCKING_FAILED = 2"
| "socket_error_code NETCODE_SOCKET_ERROR_SOCKOPT_IPV6_ONLY_FAILED = 3"
| "socket_error_code NETCODE_SOCKET_ERROR_SOCKOPT_RCVBUF_FAILED = 4"
| "socket_error_code NETCODE_SOCKET_ERROR_SOCKOPT_SNDBUF_FAILED = 5"
| "socket_error_code NETCODE_SOCKET_ERROR_BIND_IPV4_FAILED = 6"
| "socket_error_code NETCODE_SOCKET_ERROR_BIND_IPV6_FAILED = 7"
| "socket_error_code NETCODE_SOCKET_ERROR_GET_SOCKNAME_IPV4_FAILED = 8"
| "socket_error_code NETCODE_SOCKET_ERROR_GET_SOCKNAME_IPV6_FAILED = 7"

definition netcode_socket_destroy :: "netcode_socket \<Rightarrow> world \<Rightarrow> (netcode_socket \<times> world) option" where
  "netcode_socket_destroy socket w =
     do { c_assert (w_initialized w);
          Some (if so_handle socket \<noteq> 0
                then (socket\<lparr>so_handle := 0\<rparr>, w\<lparr>w_closed := w_closed w @ [so_handle socket]\<rparr>)
                else (socket, w)) }"

fun address_with_port :: "netcode_address \<Rightarrow> u16 \<Rightarrow> netcode_address" where
  "address_with_port (ADDRESS_NONE _) port = ADDRESS_NONE port"
| "address_with_port (ADDRESS_IPV4 a _) port = ADDRESS_IPV4 a port"
| "address_with_port (ADDRESS_IPV6 a _) port = ADDRESS_IPV6 a port"

text \<open>The exit of every failing step after the first: close the socket, return the error.\<close>

definition socket_fail :: "socket_error \<Rightarrow> netcode_socket \<Rightarrow> world \<Rightarrow> (socket_error \<times> netcode_socket \<times> world) option" where
  "socket_fail e s w = do { (s, w) \<leftarrow> netcode_socket_destroy s w; Some (e, s, w) }"

text \<open>From the non-blocking mode back to the port: the last steps of the creation.\<close>

definition socket_set_non_blocking ::
    "os_calls \<Rightarrow> netcode_socket \<Rightarrow> world \<Rightarrow> (socket_error \<times> netcode_socket \<times> world) option" where
  "socket_set_non_blocking os s w =
     (if os_fcntl os = - 1 then socket_fail NETCODE_SOCKET_ERROR_SET_NON_BLOCKING_FAILED s w
      else Some (NETCODE_SOCKET_ERROR_NONE, s, w))"

definition socket_get_port ::
    "os_calls \<Rightarrow> netcode_socket \<Rightarrow> netcode_address \<Rightarrow> world \<Rightarrow> (socket_error \<times> netcode_socket \<times> world) option" where
  "socket_get_port os s address w =
     (if address_port address = 0 then
        (case os_getsockname os of
           None \<Rightarrow> socket_fail (if address_type address = 2 then NETCODE_SOCKET_ERROR_GET_SOCKNAME_IPV6_FAILED
                                else NETCODE_SOCKET_ERROR_GET_SOCKNAME_IPV4_FAILED) s w
         | Some port \<Rightarrow>
             socket_set_non_blocking os (s\<lparr>so_address := address_with_port (so_address s) (ntohs port)\<rparr>) w)
      else socket_set_non_blocking os s w)"

definition netcode_socket_create ::
    "os_calls \<Rightarrow> netcode_socket \<Rightarrow> netcode_address \<Rightarrow> world \<Rightarrow> (socket_error \<times> netcode_socket \<times> world) option" where
  "netcode_socket_create os s address w =
     do { c_assert (w_initialized w);
          c_assert (address_type address \<noteq> 0);
          let s = s\<lparr>so_address := address\<rparr>;
          let s = s\<lparr>so_handle := os_socket os\<rparr>;
          if so_handle s \<le> 0 then Some (NETCODE_SOCKET_ERROR_CREATE_FAILED, s, w)
          else if address_type address = 2 \<and> os_ipv6_only os \<noteq> 0
          then socket_fail NETCODE_SOCKET_ERROR_SOCKOPT_IPV6_ONLY_FAILED s w
          else if os_sndbuf os \<noteq> 0 then socket_fail NETCODE_SOCKET_ERROR_SOCKOPT_SNDBUF_FAILED s w
          else if os_rcvbuf os \<noteq> 0 then socket_fail NETCODE_SOCKET_ERROR_SOCKOPT_RCVBUF_FAILED s w
          else if os_bind os < 0
          then socket_fail (if address_type address = 2 then NETCODE_SOCKET_ERROR_BIND_IPV6_FAILED
                            else NETCODE_SOCKET_ERROR_BIND_IPV4_FAILED) s w
          else socket_get_port os s address w }"

section \<open>Sending and receiving\<close>

fun sockaddr_of :: "netcode_address \<Rightarrow> sockaddr" where
  "sockaddr_of (ADDRESS_IPV6 a port) = SOCKADDR_IN6 (map htons a) (htons port)"
| "sockaddr_of (ADDRESS_IPV4 a port) = SOCKADDR_IN (s_addr_of a) (htons port)"
| "sockaddr_of (ADDRESS_NONE port) = SOCKADDR_OTHER"

definition netcode_socket_send_packet ::
    "netcode_socket \<Rightarrow> netcode_address \<Rightarrow> bytes \<Rightarrow> world \<Rightarrow> world option" where
  "netcode_socket_send_packet socket to packet_data w =
     do { c_assert (so_handle socket \<noteq> 0);
          c_assert (address_type to = 2 \<or> address_type to = 1);
          c_assert (length packet_data > 0);
          Some (w\<lparr>w_sent := w_sent w @ [(so_handle socket, sockaddr_of to, packet_data)]\<rparr>) }"

fun address_of_sockaddr :: "sockaddr \<Rightarrow> netcode_address option" where
  "address_of_sockaddr (SOCKADDR_IN6 a port) = Some (ADDRESS_IPV6 (map ntohs a) (ntohs port))"
| "address_of_sockaddr (SOCKADDR_IN a port) = Some (ADDRESS_IPV4 (s_addr_octets a) (ntohs port))"
| "address_of_sockaddr SOCKADDR_OTHER = None"

text \<open>The result is \<open>None\<close> where the code returns 0.\<close>

definition netcode_socket_receive_packet ::
    "netcode_socket \<Rightarrow> nat \<Rightarrow> world \<Rightarrow> ((netcode_address \<times> bytes) option \<times> world) option" where
  "netcode_socket_receive_packet socket max_packet_size w =
     do { c_assert (so_handle socket \<noteq> 0);
          c_assert (max_packet_size > 0);
          (case w_inbox w (so_handle socket) of
             [] \<Rightarrow> Some (None, w)
           | (sockaddr_from, datagram) # rest \<Rightarrow>
               do { let w = w\<lparr>w_inbox := (w_inbox w)(so_handle socket := rest)\<rparr>;
                    let packet_data = take max_packet_size datagram;
                    if packet_data = [] then Some (None, w)
                    else do { sender \<leftarrow> address_of_sockaddr sockaddr_from;
                              Some (Some (sender, packet_data), w) } }) }"

section \<open>Lemmas\<close>

text \<open>Socket addresses the operating system delivers: of one of the two families, of the right length.\<close>

fun sockaddr_ok :: "sockaddr \<Rightarrow> bool" where
  "sockaddr_ok (SOCKADDR_IN a port) = True"
| "sockaddr_ok (SOCKADDR_IN6 a port) \<longleftrightarrow> length a = 8"
| "sockaddr_ok SOCKADDR_OTHER = False"

lemma address_of_sockaddr_ok:
  "sockaddr_ok a \<Longrightarrow> \<exists>b. address_of_sockaddr a = Some b \<and> address_ok b"
  by (cases a) (auto simp: address_ok_def)

lemma map_ntohs_ntohs [simp]: "map (ntohs \<circ> ntohs) xs = xs"
  by (induction xs) simp_all

lemma address_of_sockaddr_of:
  "address_ok a \<Longrightarrow> address_of_sockaddr (sockaddr_of a) = Some a"
  by (cases a) (auto simp: address_ok_def octets_of_s_addr)

definition inbox_ok :: "world \<Rightarrow> bool" where
  "inbox_ok w \<longleftrightarrow> (\<forall>h. \<forall>d \<in> set (w_inbox w h). sockaddr_ok (fst d))"

lemma runs_socket_receive:
  assumes "so_handle s \<noteq> 0" and "inbox_ok w" and n: "0 < n"
    and empty: "\<And>rest. w_inbox w (so_handle s) = [] \<Longrightarrow> Q (None, w)"
    and zero: "\<And>d rest. w_inbox w (so_handle s) = d # rest \<Longrightarrow> snd d = [] \<Longrightarrow>
        Q (None, w\<lparr>w_inbox := (w_inbox w)(so_handle s := rest)\<rparr>)"
    and some: "\<And>sender data d rest. w_inbox w (so_handle s) = d # rest \<Longrightarrow> address_ok sender \<Longrightarrow>
        data = take n (snd d) \<Longrightarrow> data \<noteq> [] \<Longrightarrow> length data \<le> n \<Longrightarrow> address_of_sockaddr (fst d) = Some sender \<Longrightarrow>
        Q (Some (sender, data), w\<lparr>w_inbox := (w_inbox w)(so_handle s := rest)\<rparr>)"
  shows "runs (netcode_socket_receive_packet s n w) Q"
proof (cases "w_inbox w (so_handle s)")
  case Nil
  with assms show ?thesis by (simp add: netcode_socket_receive_packet_def runs_simps)
next
  case (Cons d rest)
  obtain a b where d: "d = (a, b)" by fastforce
  have "sockaddr_ok a" using assms(2) Cons d unfolding inbox_ok_def by (metis fst_conv list.set_intros(1))
  then obtain sender where sender: "address_of_sockaddr a = Some sender" "address_ok sender"
    using address_of_sockaddr_ok by blast
  with Cons d assms(1) n some [of d rest sender "take n b"] zero [of d rest] show ?thesis
    by (cases "b = []") (auto simp: netcode_socket_receive_packet_def runs_simps)
qed

lemma inbox_ok_tail:
  "inbox_ok w \<Longrightarrow> w_inbox w h = d # rest \<Longrightarrow> inbox_ok (w\<lparr>w_inbox := (w_inbox w)(h := rest)\<rparr>)"
  unfolding inbox_ok_def by (auto split: if_splits) (metis fst_conv list.set_intros(2))

section \<open>Properties\<close>

text \<open>C34: what happens to the handle that is opened for a socket. Whatever the operating system's calls return, creation comes
  to an end. If it succeeds, the socket has the handle that was opened and nothing was closed; if it fails after the handle was
  opened, the handle was closed exactly once and the socket's handle is 0; the port of a socket that asked for port 0 is the one the
  system assigned. The first call is taken as failed exactly if it returned 0 or less: nothing is closed then. For -1 that is
  right; the descriptor 0 is a valid one, which the system gives out if the standard input is closed, and it is lost: creation
  reports CREATE_FAILED and the descriptor is never closed.\<close>

theorem socket_create_accounts_for_handle:
  assumes "w_initialized w" and "address_type address \<noteq> 0"
  shows "runs (netcode_socket_create os s address w) (\<lambda>(e, s', w').
    if os_socket os \<le> 0
    then e = NETCODE_SOCKET_ERROR_CREATE_FAILED \<and> so_handle s' = os_socket os \<and> w' = w
    else if e = NETCODE_SOCKET_ERROR_NONE
    then so_handle s' = os_socket os \<and> w' = w
       \<and> (if address_port address \<noteq> 0 then so_address s' = address
          else \<exists>port. os_getsockname os = Some port \<and> so_address s' = address_with_port address (ntohs port))
    else e \<noteq> NETCODE_SOCKET_ERROR_CREATE_FAILED \<and> so_handle s' = 0 \<and> w' = w\<lparr>w_closed := w_closed w @ [os_socket os]\<rparr>)"
  using assms
  by (auto simp: netcode_socket_create_def socket_fail_def netcode_socket_destroy_def socket_get_port_def
      socket_set_non_blocking_def runs_simps Let_def split: option.splits)

text \<open>A socket that cannot be bound is closed; the descriptor 0 is not.\<close>

theorem socket_create_accounts_for_handle_witness:
  "runs (netcode_socket_create \<lparr>os_socket = 5, os_ipv6_only = 0, os_sndbuf = 0, os_rcvbuf = 0, os_bind = - 1,
        os_getsockname = None, os_fcntl = 0\<rparr> zero_socket (ADDRESS_IPV4 [127, 0, 0, 1] 0) empty_world)
    (\<lambda>(e, s', w'). e \<noteq> NETCODE_SOCKET_ERROR_NONE \<and> so_handle s' = 0 \<and> w_closed w' = [5])
   \<and> runs (netcode_socket_create \<lparr>os_socket = 0, os_ipv6_only = 0, os_sndbuf = 0, os_rcvbuf = 0, os_bind = 0,
        os_getsockname = Some 80, os_fcntl = 0\<rparr> zero_socket (ADDRESS_IPV4 [127, 0, 0, 1] 0) empty_world)
    (\<lambda>(e, s', w'). e = NETCODE_SOCKET_ERROR_CREATE_FAILED \<and> w_closed w' = [])"
proof -
  have "w_initialized empty_world" "address_type (ADDRESS_IPV4 [127, 0, 0, 1] 0) \<noteq> 0" "w_closed empty_world = []"
    by (simp_all add: empty_world_def)
  note handle = socket_create_accounts_for_handle [OF this(1,2)] and none = this(3)
  show ?thesis
    by (intro conjI; rule runs_mono [OF handle])
      (auto simp: none netcode_socket_create_def socket_fail_def netcode_socket_destroy_def split: if_splits)
qed

end
