(* ===== verification/Simulator.thy ===== *)
theory Simulator
  imports Sockets
begin

text \<open>
  \<^verbatim>\<open>struct netcode_network_simulator_t\<close>: datagrams with a delivery time in a ring of 65536 entries, moved by
  \<open>netcode_network_simulator_update\<close> to a list from which the receivers take theirs. The blocks of both
  arrays belong to the simulator; a receiver takes over the blocks it is given. \<open>sim_inv\<close> says that no block is owned twice and
  that all are live.
\<close>

section \<open>Operations\<close>

text \<open>The struct itself is a block; the simulator of the world is zeroed.\<close>

definition netcode_network_simulator_create :: "world \<Rightarrow> (nat \<times> world) option" where
  "netcode_network_simulator_create w =
     (let (ptr, w) = w_alloc Struct_block w
      in do { ptr \<leftarrow> ptr; Some (ptr, w\<lparr>w_simulator := zero_network_simulator\<rparr>) })"

definition sim_map :: "(network_simulator \<Rightarrow> network_simulator) \<Rightarrow> world \<Rightarrow> world" where
  "sim_map f w = w\<lparr>w_simulator := f (w_simulator w)\<rparr>"

text \<open>The two loops of the reset: free an entry's block and zero the entry.\<close>

fun reset_packet_entries :: "nat \<Rightarrow> nat \<Rightarrow> world \<Rightarrow> world option" where
  "reset_packet_entries 0 i w = Some w"
| "reset_packet_entries (Suc k) i w =
     do { w \<leftarrow> w_free (pe_packet_data (ns_packet_entries (w_simulator w) i)) w;
          reset_packet_entries k (Suc i)
            (sim_map (\<lambda>ns. ns\<lparr>ns_packet_entries := (ns_packet_entries ns)(i := zero_packet_entry)\<rparr>) w) }"

fun reset_pending_packets :: "nat \<Rightarrow> nat \<Rightarrow> world \<Rightarrow> world option" where
  "reset_pending_packets 0 i w = Some w"
| "reset_pending_packets (Suc k) i w =
     do { w \<leftarrow> w_free (pe_packet_data (ns_pending_receive_packets (w_simulator w) i)) w;
          reset_pending_packets k (Suc i)
            (sim_map (\<lambda>ns. ns\<lparr>ns_pending_receive_packets :=
               (ns_pending_receive_packets ns)(i := zero_packet_entry)\<rparr>) w) }"

definition netcode_network_simulator_reset :: "world \<Rightarrow> world option" where
  "netcode_network_simulator_reset w =
     do { w \<leftarrow> reset_packet_entries NETCODE_NETWORK_SIMULATOR_NUM_PACKET_ENTRIES 0 w;
          w \<leftarrow> reset_pending_packets (ns_num_pending_receive_packets (w_simulator w)) 0 w;
          Some (sim_map (\<lambda>ns. ns\<lparr>ns_current_index := 0, ns_num_pending_receive_packets := 0\<rparr>) w) }"

definition netcode_network_simulator_destroy :: "nat \<Rightarrow> world \<Rightarrow> world option" where
  "netcode_network_simulator_destroy ptr w =
     do { w \<leftarrow> netcode_network_simulator_reset w; w_free (Some ptr) w }"

text \<open>A failed allocation is not checked: the copy into the null pointer aborts.\<close>

definition netcode_network_simulator_queue_packet ::
    "netcode_address \<Rightarrow> netcode_address \<Rightarrow> bytes \<Rightarrow> dbl \<Rightarrow> world \<Rightarrow> world option" where
  "netcode_network_simulator_queue_packet from_addr to_addr packet_data delay w =
     (let (ptr, w) = w_alloc (Buffer_block packet_data) w
      in do { ptr \<leftarrow> ptr;
              Some (sim_map (\<lambda>ns. ns\<lparr>
                ns_packet_entries := (ns_packet_entries ns)(ns_current_index ns :=
                  \<lparr>pe_from = from_addr, pe_to = to_addr, pe_delivery_time = ns_time ns + delay,
                   pe_packet_data = Some ptr, pe_packet_bytes = length packet_data\<rparr>),
                ns_current_index := (ns_current_index ns + 1) mod NETCODE_NETWORK_SIMULATOR_NUM_PACKET_ENTRIES\<rparr>) w) })"

text \<open>The block that the current entry still holds is freed before the entry is reused.\<close>

definition free_current_entry :: "world \<Rightarrow> world option" where
  "free_current_entry w =
     (let ns = w_simulator w; i = ns_current_index ns in
      case pe_packet_data (ns_packet_entries ns i) of
        None \<Rightarrow> Some w
      | Some ptr \<Rightarrow> do {
          w \<leftarrow> w_free (Some ptr) w;
          Some (sim_map (\<lambda>ns. ns\<lparr>ns_packet_entries :=
            (ns_packet_entries ns)(i := (ns_packet_entries ns i)\<lparr>pe_packet_data := None\<rparr>)\<rparr>) w) })"

definition netcode_network_simulator_send_packet ::
    "netcode_address \<Rightarrow> netcode_address \<Rightarrow> bytes \<Rightarrow> world \<Rightarrow> world option" where
  "netcode_network_simulator_send_packet from_addr to_addr packet_data w =
     do { c_assert (address_type from_addr \<noteq> 0);
          c_assert (address_type to_addr \<noteq> 0);
          c_assert (length packet_data > 0);
          c_assert (length packet_data \<le> NETCODE_MAX_PACKET_BYTES);
          (lost, w) \<leftarrow> netcode_random_float 0 100 w;
          if lost \<le> ns_packet_loss_percent (w_simulator w) then Some w
          else do {
            w \<leftarrow> free_current_entry w;
            let delay = ns_latency_milliseconds (w_simulator w) / 1000;
            (delay, w) \<leftarrow>
              (if ns_jitter_milliseconds (w_simulator w) > 0 then do {
                 (j, w) \<leftarrow> netcode_random_float (- ns_jitter_milliseconds (w_simulator w))
                             (ns_jitter_milliseconds (w_simulator w)) w;
                 Some (delay + j / 1000, w) }
               else Some (delay, w));
            w \<leftarrow> netcode_network_simulator_queue_packet from_addr to_addr packet_data delay w;
            (duplicate, w) \<leftarrow> netcode_random_float 0 100 w;
            if duplicate \<le> ns_duplicate_packet_percent (w_simulator w) then do {
              (extra, w) \<leftarrow> netcode_random_float 0 1 w;
              netcode_network_simulator_queue_packet from_addr to_addr packet_data (delay + extra) w }
            else Some w } }"

text \<open>The blocks, their sizes and senders, in the order of the pending list; at most \<open>max_packets\<close>.\<close>

fun take_pending_packets ::
    "nat \<Rightarrow> nat \<Rightarrow> netcode_address \<Rightarrow> nat \<Rightarrow> network_simulator \<Rightarrow>
     (nat \<times> nat \<times> netcode_address) list \<times> network_simulator" where
  "take_pending_packets 0 i to_addr room ns = ([], ns)"
| "take_pending_packets (Suc k) i to_addr room ns =
     (let e = ns_pending_receive_packets ns i in
      if room = 0 then ([], ns)
      else case pe_packet_data e of
        None \<Rightarrow> take_pending_packets k (Suc i) to_addr room ns
      | Some ptr \<Rightarrow>
          if \<not> netcode_address_equal (pe_to e) to_addr then take_pending_packets k (Suc i) to_addr room ns
          else
            let ns = ns\<lparr>ns_pending_receive_packets :=
                  (ns_pending_receive_packets ns)(i := e\<lparr>pe_packet_data := None\<rparr>)\<rparr>;
                (received, ns) = take_pending_packets k (Suc i) to_addr (room - 1) ns
            in ((ptr, pe_packet_bytes e, pe_from e) # received, ns))"

definition netcode_network_simulator_receive_packets ::
    "netcode_address \<Rightarrow> nat \<Rightarrow> world \<Rightarrow> ((nat \<times> nat \<times> netcode_address) list \<times> world) option" where
  "netcode_network_simulator_receive_packets to_addr max_packets w =
     (let (received, ns) = take_pending_packets (ns_num_pending_receive_packets (w_simulator w)) 0
            to_addr max_packets (w_simulator w)
      in do { c_assert (length received \<le> max_packets);
              Some (received, w\<lparr>w_simulator := ns\<rparr>) })"

fun discard_pending_packets :: "nat \<Rightarrow> nat \<Rightarrow> world \<Rightarrow> world option" where
  "discard_pending_packets 0 i w = Some w"
| "discard_pending_packets (Suc k) i w =
     (case pe_packet_data (ns_pending_receive_packets (w_simulator w) i) of
        None \<Rightarrow> discard_pending_packets k (Suc i) w
      | Some ptr \<Rightarrow> do {
          w \<leftarrow> w_free (Some ptr) w;
          discard_pending_packets k (Suc i)
            (sim_map (\<lambda>ns. ns\<lparr>ns_pending_receive_packets := (ns_pending_receive_packets ns)(i :=
               (ns_pending_receive_packets ns i)\<lparr>pe_packet_data := None\<rparr>)\<rparr>) w) })"

fun move_ready_packets :: "nat \<Rightarrow> nat \<Rightarrow> dbl \<Rightarrow> network_simulator \<Rightarrow> network_simulator" where
  "move_ready_packets 0 i time ns = ns"
| "move_ready_packets (Suc k) i time ns =
     (let e = ns_packet_entries ns i in
      if pe_packet_data e = None then move_ready_packets k (Suc i) time ns
      else if ns_num_pending_receive_packets ns = NETCODE_NETWORK_SIMULATOR_NUM_PENDING_RECEIVE_PACKETS then ns
      else if pe_delivery_time e \<le> time then
        move_ready_packets k (Suc i) time (ns\<lparr>
          ns_pending_receive_packets := (ns_pending_receive_packets ns)(ns_num_pending_receive_packets ns := e),
          ns_num_pending_receive_packets := ns_num_pending_receive_packets ns + 1,
          ns_packet_entries := (ns_packet_entries ns)(i := e\<lparr>pe_packet_data := None\<rparr>)\<rparr>)
      else move_ready_packets k (Suc i) time ns)"

definition netcode_network_simulator_update :: "dbl \<Rightarrow> world \<Rightarrow> world option" where
  "netcode_network_simulator_update time w =
     do { let w = sim_map (\<lambda>ns. ns\<lparr>ns_time := time\<rparr>) w;
          w \<leftarrow> discard_pending_packets (ns_num_pending_receive_packets (w_simulator w)) 0 w;
          Some (sim_map (\<lambda>ns. move_ready_packets NETCODE_NETWORK_SIMULATOR_NUM_PACKET_ENTRIES 0 time
            (ns\<lparr>ns_num_pending_receive_packets := 0\<rparr>)) w) }"

section \<open>Ownership\<close>

text \<open>
  The entries of both arrays under one index. \<open>sim_inv A h ns\<close>: the blocks the simulator holds are
  datagrams of 1 to 1220 bytes, no two entries hold the same block, none is in the set \<open>A\<close> of the blocks owned by others,
  which are live too.
\<close>

fun sim_entry :: "network_simulator \<Rightarrow> nat + nat \<Rightarrow> packet_entry" where
  "sim_entry ns (Inl i) = ns_packet_entries ns i"
| "sim_entry ns (Inr i) = ns_pending_receive_packets ns i"

definition entry_ok :: "block heap \<Rightarrow> packet_entry \<Rightarrow> bool" where
  "entry_ok h e \<longleftrightarrow> (\<forall>p. pe_packet_data e = Some p \<longrightarrow>
     address_ok (pe_from e) \<and> 0 < pe_packet_bytes e \<and> pe_packet_bytes e \<le> NETCODE_MAX_PACKET_BYTES
     \<and> (\<exists>bs. h_blocks h p = Some (Buffer_block bs) \<and> length bs = pe_packet_bytes e))"

definition sim_owned :: "network_simulator \<Rightarrow> nat set" where
  "sim_owned ns = {p. \<exists>k. pe_packet_data (sim_entry ns k) = Some p}"

definition sim_inv :: "nat set \<Rightarrow> block heap \<Rightarrow> network_simulator \<Rightarrow> bool" where
  "sim_inv A h ns \<longleftrightarrow> heap_inv h \<and> A \<subseteq> live h \<and> sim_owned ns \<inter> A = {}
     \<and> (\<forall>k l p. pe_packet_data (sim_entry ns k) = Some p \<longrightarrow> pe_packet_data (sim_entry ns l) = Some p \<longrightarrow> k = l)
     \<and> (\<forall>k. entry_ok h (sim_entry ns k))
     \<and> (\<forall>i \<ge> NETCODE_NETWORK_SIMULATOR_NUM_PACKET_ENTRIES. pe_packet_data (sim_entry ns (Inl i)) = None)
     \<and> (\<forall>i \<ge> ns_num_pending_receive_packets ns. pe_packet_data (sim_entry ns (Inr i)) = None)
     \<and> ns_num_pending_receive_packets ns \<le> NETCODE_NETWORK_SIMULATOR_NUM_PENDING_RECEIVE_PACKETS
     \<and> ns_current_index ns < NETCODE_NETWORK_SIMULATOR_NUM_PACKET_ENTRIES"

lemma sim_entry_update [simp]:
  "sim_entry (ns\<lparr>ns_packet_entries := (ns_packet_entries ns)(i := e)\<rparr>) k = (if k = Inl i then e else sim_entry ns k)"
  "sim_entry (ns\<lparr>ns_pending_receive_packets := (ns_pending_receive_packets ns)(i := e)\<rparr>) k
    = (if k = Inr i then e else sim_entry ns k)"
  "sim_entry (ns\<lparr>ns_time := t\<rparr>) k = sim_entry ns k"
  "sim_entry (ns\<lparr>ns_current_index := n\<rparr>) k = sim_entry ns k"
  "sim_entry (ns\<lparr>ns_num_pending_receive_packets := n\<rparr>) k = sim_entry ns k"
  by (cases k; simp)+

declare sim_entry.simps [simp del]

lemma sim_owned_live: "sim_inv A h ns \<Longrightarrow> p \<in> sim_owned ns \<Longrightarrow> p \<in> live h \<and> p \<notin> A"
  unfolding sim_inv_def sim_owned_def entry_ok_def live_def by blast

text \<open>Freeing the block of an entry and marking the entry as free.\<close>

definition drop_entry :: "nat + nat \<Rightarrow> network_simulator \<Rightarrow> network_simulator" where
  "drop_entry k ns = (case k of
     Inl i \<Rightarrow> ns\<lparr>ns_packet_entries := (ns_packet_entries ns)(i := (ns_packet_entries ns i)\<lparr>pe_packet_data := None\<rparr>)\<rparr>
   | Inr i \<Rightarrow> ns\<lparr>ns_pending_receive_packets := (ns_pending_receive_packets ns)(i :=
       (ns_pending_receive_packets ns i)\<lparr>pe_packet_data := None\<rparr>)\<rparr>)"

lemma sim_entry_drop:
  "sim_entry (drop_entry k ns) l = (if l = k then (sim_entry ns k)\<lparr>pe_packet_data := None\<rparr> else sim_entry ns l)"
  by (cases k) (auto simp: drop_entry_def sim_entry.simps)

lemma drop_entry_fields [simp]:
  "ns_num_pending_receive_packets (drop_entry k ns) = ns_num_pending_receive_packets ns"
  "ns_current_index (drop_entry k ns) = ns_current_index ns"
  by (cases k; simp add: drop_entry_def)+

lemma sim_owned_drop:
  assumes "sim_inv A h ns" and "pe_packet_data (sim_entry ns k) = Some p"
  shows "sim_owned (drop_entry k ns) = sim_owned ns - {p}"
proof -
  have only: "l = k" if "pe_packet_data (sim_entry ns l) = Some p" for l
    using assms that unfolding sim_inv_def by blast
  have "(pe_packet_data (sim_entry (drop_entry k ns) l) = Some q)
      = (pe_packet_data (sim_entry ns l) = Some q \<and> q \<noteq> p)" for l q
  proof (cases "l = k")
    case True
    with assms(2) show ?thesis by (simp add: sim_entry_drop)
  next
    case False
    then have "pe_packet_data (sim_entry ns l) \<noteq> Some p" using only by blast
    with False show ?thesis by (simp add: sim_entry_drop) blast
  qed
  then show ?thesis unfolding sim_owned_def by blast
qed

lemma sim_inv_give:
  assumes inv: "sim_inv A h ns" and p: "pe_packet_data (sim_entry ns k) = Some p"
  shows "sim_inv (insert p A) h (drop_entry k ns)"
proof -
  have "p \<in> live h" using sim_owned_live [OF inv] p by (auto simp: sim_owned_def)
  moreover have "sim_owned (drop_entry k ns) \<inter> insert p A = {}"
    using sim_owned_drop [OF inv p] inv by (auto simp: sim_inv_def)
  ultimately show ?thesis
    using inv unfolding sim_inv_def by (auto simp: sim_entry_drop entry_ok_def)
qed

lemma sim_inv_release:
  assumes inv: "sim_inv (A \<union> set ps) h ns" and "A \<inter> set ps = {}"
  shows "sim_inv A (release ps h) ns"
proof -
  have "sim_owned ns \<inter> set ps = {}" using inv by (auto simp: sim_inv_def)
  then have "entry_ok (release ps h) (sim_entry ns k)" for k
    using inv unfolding sim_inv_def entry_ok_def sim_owned_def release_def
    by (auto simp: restrict_map_def)
  then show ?thesis using inv assms(2) unfolding sim_inv_def by (auto simp: heap_inv_release)
qed

lemma sim_inv_free_entry:
  assumes inv: "sim_inv A h ns" and p: "pe_packet_data (sim_entry ns k) = Some p"
  shows "sim_inv A (release [p] h) (drop_entry k ns)"
proof -
  have "p \<notin> A" using sim_owned_live [OF inv] p by (auto simp: sim_owned_def)
  then show ?thesis using sim_inv_give [OF inv p] by (intro sim_inv_release) auto
qed

lemma sim_inv_alloc:
  assumes inv: "sim_inv A h ns" and alloc: "netcode_default_allocate_function b h = (r, h')"
  shows "sim_inv A h' ns" and "r = Some p \<Longrightarrow> sim_inv (insert p A) h' ns \<and> p \<notin> A \<and> h_blocks h' p = Some b"
proof -
  have h: "heap_inv h" using inv by (simp add: sim_inv_def)
  have h': "heap_inv h'" by (rule allocate_inv [OF h alloc])
  have fresh: "h_next h \<notin> live h" by (rule fresh_not_live [OF h])
  have ok: "entry_ok h' e" if "entry_ok h e" for e
    using alloc that fresh
    by (auto simp: entry_ok_def netcode_default_allocate_function_def live_def dom_def split: if_splits)
  have l: "live h \<subseteq> live h'" using alloc by (rule allocate_cases) auto
  show "sim_inv A h' ns" using inv h' l ok unfolding sim_inv_def by blast
  assume "r = Some p"
  with alloc have p: "p = h_next h" "p \<in> live h'" "h_blocks h' p = Some b"
    by (auto simp: netcode_default_allocate_function_def live_def split: if_splits)
  moreover have "p \<notin> sim_owned ns" "p \<notin> A" using sim_owned_live [OF inv] fresh p inv by (auto simp: sim_inv_def)
  ultimately show "sim_inv (insert p A) h' ns \<and> p \<notin> A \<and> h_blocks h' p = Some b"
    using inv h' l ok unfolding sim_inv_def by auto
qed

text \<open>Putting a block into an entry; what the entry held before is forgotten.\<close>

lemma sim_inv_put:
  assumes inv: "sim_inv (insert p A) h ns" and p: "p \<notin> A" "pe_packet_data e = Some p" and e: "entry_ok h e"
    and ns': "\<And>l. sim_entry ns' l = (if l = k then e else sim_entry ns l)"
    and n: "ns_num_pending_receive_packets ns' \<ge> ns_num_pending_receive_packets ns"
      "ns_num_pending_receive_packets ns' \<le> NETCODE_NETWORK_SIMULATOR_NUM_PENDING_RECEIVE_PACKETS"
      "ns_current_index ns' < NETCODE_NETWORK_SIMULATOR_NUM_PACKET_ENTRIES"
    and k: "case k of Inl i \<Rightarrow> i < NETCODE_NETWORK_SIMULATOR_NUM_PACKET_ENTRIES
        | Inr i \<Rightarrow> i < ns_num_pending_receive_packets ns'"
  shows "sim_inv A h ns'"
proof -
  have other: "pe_packet_data (sim_entry ns l) \<noteq> Some p" for l
    using inv unfolding sim_inv_def sim_owned_def by blast
  have owned: "sim_owned ns' \<subseteq> insert p (sim_owned ns)"
    using p(2) unfolding sim_owned_def ns' by auto
  have "l = m" if "pe_packet_data (sim_entry ns' l) = Some q" "pe_packet_data (sim_entry ns' m) = Some q" for l m q
  proof (cases "l = k \<or> m = k")
    case True
    then have "q = p" using that p(2) by (auto simp: ns' split: if_splits)
    with that other show ?thesis by (auto simp: ns' split: if_splits)
  next
    case False
    with that have "pe_packet_data (sim_entry ns l) = Some q" "pe_packet_data (sim_entry ns m) = Some q"
      by (simp_all add: ns')
    then show ?thesis using inv unfolding sim_inv_def by blast
  qed
  moreover have "pe_packet_data (sim_entry ns' (Inl i)) = None" if "i \<ge> NETCODE_NETWORK_SIMULATOR_NUM_PACKET_ENTRIES" for i
    using inv that k unfolding sim_inv_def ns' by auto
  moreover have "pe_packet_data (sim_entry ns' (Inr i)) = None" if "i \<ge> ns_num_pending_receive_packets ns'" for i
    using inv that k n(1) unfolding sim_inv_def ns' by auto
  moreover have "entry_ok h (sim_entry ns' l)" for l using inv e unfolding sim_inv_def ns' by simp
  moreover have "sim_owned ns' \<inter> A = {}" using owned inv p(1) by (auto simp: sim_inv_def)
  ultimately show ?thesis using inv n(2,3) unfolding sim_inv_def by blast
qed

lemma sim_inv_other_fields:
  assumes "sim_inv A h ns" and "\<And>k. sim_entry ns' k = sim_entry ns k"
    and "ns_num_pending_receive_packets ns' = ns_num_pending_receive_packets ns"
    and "ns_current_index ns' = ns_current_index ns"
  shows "sim_inv A h ns'"
  using assms unfolding sim_inv_def sim_owned_def by simp

section \<open>The world's invariant\<close>

text \<open>
  \<open>world_inv sim A w\<close>: the simulator is in order, the blocks in \<open>A\<close> are live and not the simulator's, the
  operating system delivers proper socket addresses and, if the simulator is in use, memory does not run out (the simulator does
  not check its allocations). \<open>world_step A w w'\<close>: what sending leaves as it was.
\<close>

definition world_inv :: "bool \<Rightarrow> nat set \<Rightarrow> world \<Rightarrow> bool" where
  "world_inv sim A w \<longleftrightarrow> sim_inv A (w_heap w) (w_simulator w) \<and> inbox_ok w
     \<and> (sim \<longrightarrow> (\<forall>n. \<not> h_out_of_memory (w_heap w) n))"

definition world_step :: "nat set \<Rightarrow> world \<Rightarrow> world \<Rightarrow> bool" where
  "world_step A w w' \<longleftrightarrow> h_next (w_heap w) \<le> h_next (w_heap w')
     \<and> (\<forall>p \<in> A. h_blocks (w_heap w') p = h_blocks (w_heap w) p)
     \<and> w_inbox w' = w_inbox w \<and> w_initialized w' = w_initialized w \<and> w_timestamp w' = w_timestamp w"

lemma world_step_refl [simp]: "world_step A w w"
  by (simp add: world_step_def)

lemma world_step_trans: "world_step A w w' \<Longrightarrow> world_step A w' w'' \<Longrightarrow> world_step A w w''"
  by (auto simp: world_step_def)

lemma world_inv_fields [simp]:
  "world_inv sim A (w_log e w) = world_inv sim A w"
  "world_inv sim A (w\<lparr>w_sent := x\<rparr>) = world_inv sim A w"
  "world_inv sim A (w\<lparr>w_rand_next := n\<rparr>) = world_inv sim A w"
  "world_inv sim A (w\<lparr>w_random_next := n\<rparr>) = world_inv sim A w"
  "world_inv sim A (w\<lparr>w_closed := cs\<rparr>) = world_inv sim A w"
  by (simp_all add: world_inv_def inbox_ok_def)

lemma world_step_fields [simp]:
  "world_step A w (w_log e w') = world_step A w w'"
  "world_step A w (w'\<lparr>w_sent := x\<rparr>) = world_step A w w'"
  "world_step A w (w'\<lparr>w_rand_next := n\<rparr>) = world_step A w w'"
  "world_step A w (w'\<lparr>w_random_next := n\<rparr>) = world_step A w w'"
  "world_step A w (w'\<lparr>w_closed := cs\<rparr>) = world_step A w w'"
  "world_step A w (w'\<lparr>w_simulator := ns\<rparr>) = world_step A w w'"
  "world_step A (w\<lparr>w_simulator := ns\<rparr>) w' = world_step A w w'"
  by (simp_all add: world_step_def)

lemma world_inv_mono: "world_inv sim A w \<Longrightarrow> B \<subseteq> A \<Longrightarrow> world_inv sim B w"
  unfolding world_inv_def sim_inv_def by blast

lemma world_inv_release:
  assumes "world_inv sim A w" and "set ps \<subseteq> A"
  shows "world_inv sim (A - set ps) (w\<lparr>w_heap := release ps (w_heap w)\<rparr>)"
proof -
  have "sim_inv ((A - set ps) \<union> set ps) (w_heap w) (w_simulator w)"
    using assms by (simp add: world_inv_def Un_absorb2)
  then have "sim_inv (A - set ps) (release ps (w_heap w)) (w_simulator w)" by (intro sim_inv_release) auto
  with assms(1) show ?thesis by (simp add: world_inv_def inbox_ok_def release_def)
qed

lemma world_inv_live: "world_inv sim A w \<Longrightarrow> p \<in> A \<Longrightarrow> p \<in> live (w_heap w)"
  by (auto simp: world_inv_def sim_inv_def)

lemma world_inv_alloc:
  assumes inv: "world_inv sim A w" and alloc: "w_alloc b w = (r, w')"
  shows "world_inv sim A w'" and "world_step A w w'"
    and "r = Some p \<Longrightarrow> world_inv sim (insert p A) w' \<and> p \<notin> A \<and> h_blocks (w_heap w') p = Some b"
    and "sim \<Longrightarrow> r \<noteq> None"
proof -
  obtain h' where h': "netcode_default_allocate_function b (w_heap w) = (r, h')" and w': "w' = w\<lparr>w_heap := h'\<rparr>"
    using alloc by (auto simp: w_alloc_def split: prod.splits)
  have oom: "h_out_of_memory h' = h_out_of_memory (w_heap w)"
    using h' by (auto simp: netcode_default_allocate_function_def split: if_splits)
  have s: "sim_inv A (w_heap w) (w_simulator w)" using inv by (simp add: world_inv_def)
  note a = sim_inv_alloc [OF s h']
  show "world_inv sim A w'" using a(1) inv oom by (simp add: w' world_inv_def inbox_ok_def)
  show "r = Some p \<Longrightarrow> world_inv sim (insert p A) w' \<and> p \<notin> A \<and> h_blocks (w_heap w') p = Some b"
    using a(2) inv oom by (simp add: w' world_inv_def inbox_ok_def)
  show "sim \<Longrightarrow> r \<noteq> None"
    using inv h' by (auto simp: world_inv_def netcode_default_allocate_function_def)
  have "h_next (w_heap w) \<notin> A"
    using s fresh_not_live [of "w_heap w"] by (auto simp: sim_inv_def)
  then show "world_step A w w'"
    using h' by (auto simp: w' world_step_def netcode_default_allocate_function_def split: if_splits)
qed

section \<open>Sending through the simulator\<close>

lemma runs_random_float:
  "a < b \<Longrightarrow> (\<And>x. Q (x, w\<lparr>w_rand_next := w_rand_next w + 1\<rparr>)) \<Longrightarrow> runs (netcode_random_float a b w) Q"
  by (simp add: netcode_random_float_def)

lemma runs_queue_packet:
  assumes inv: "world_inv True A w" and "address_ok from_addr"
    and "0 < length data" and "length data \<le> NETCODE_MAX_PACKET_BYTES"
  shows "runs (netcode_network_simulator_queue_packet from_addr to_addr data delay w)
    (\<lambda>w'. world_inv True A w' \<and> world_step A w w')"
proof -
  obtain r w1 where alloc: "w_alloc (Buffer_block data) w = (r, w1)" by fastforce
  obtain p where r: "r = Some p" using world_inv_alloc(4) [OF inv alloc] by auto
  note a = world_inv_alloc(1,2) [OF inv alloc] world_inv_alloc(3) [OF inv alloc r]
  have ns: "w_simulator w1 = w_simulator w" using alloc by (auto simp: w_alloc_def split: prod.splits)
  let ?e = "\<lparr>pe_from = from_addr, pe_to = to_addr, pe_delivery_time = ns_time (w_simulator w1) + delay,
                   pe_packet_data = Some p, pe_packet_bytes = length data\<rparr>"
  have s: "sim_inv (insert p A) (w_heap w1) (w_simulator w1)" using a(3) r by (simp add: world_inv_def)
  have "sim_inv A (w_heap w1) ((w_simulator w1)\<lparr>
                ns_packet_entries := (ns_packet_entries (w_simulator w1))(ns_current_index (w_simulator w1) := ?e),
                ns_current_index := (ns_current_index (w_simulator w1) + 1)
                   mod NETCODE_NETWORK_SIMULATOR_NUM_PACKET_ENTRIES\<rparr>)"
    using a(3) r assms s
    by (intro sim_inv_put [OF s, where e = ?e and k = "Inl (ns_current_index (w_simulator w1))"])
      (auto simp: entry_ok_def sim_inv_def)
  then show ?thesis
    using a(1,2) r alloc
    by (simp add: netcode_network_simulator_queue_packet_def sim_map_def world_inv_def inbox_ok_def)
qed

lemma runs_free_current_entry:
  assumes inv: "world_inv sim A w"
  shows "runs (free_current_entry w) (\<lambda>w'. world_inv sim A w' \<and> world_step A w w')"
proof (cases "pe_packet_data (ns_packet_entries (w_simulator w) (ns_current_index (w_simulator w)))")
  case None
  with inv show ?thesis by (simp add: free_current_entry_def Let_def)
next
  case (Some p)
  let ?k = "Inl (ns_current_index (w_simulator w)) :: nat + nat"
  have s: "sim_inv A (w_heap w) (w_simulator w)" using inv by (simp add: world_inv_def)
  have p: "pe_packet_data (sim_entry (w_simulator w) ?k) = Some p" using Some by (simp add: sim_entry.simps)
  have live: "p \<in> live (w_heap w)" "p \<notin> A" using sim_owned_live [OF s] p by (auto simp: sim_owned_def)
  have "sim_inv A (release [p] (w_heap w)) (drop_entry ?k (w_simulator w))" by (rule sim_inv_free_entry [OF s p])
  moreover have "\<forall>q \<in> A. h_blocks (release [p] (w_heap w)) q = h_blocks (w_heap w) q"
    using live(2) by (intro ballI release_blocks) auto
  ultimately show ?thesis
    using inv live(1) Some
    by (auto simp: free_current_entry_def Let_def w_free_live sim_map_def drop_entry_def world_inv_def
        inbox_ok_def world_step_def)
qed

lemma runs_sim_send:
  assumes inv: "world_inv True A w" and ok: "address_ok from_addr" "address_type to_addr \<noteq> 0"
    and len: "0 < length data" "length data \<le> NETCODE_MAX_PACKET_BYTES"
  shows "runs (netcode_network_simulator_send_packet from_addr to_addr data w)
    (\<lambda>w'. world_inv True A w' \<and> world_step A w w')"
proof -
  let ?I = "\<lambda>w'. world_inv True A w' \<and> world_step A w w'"
  have random: "runs (netcode_random_float a b w1) (\<lambda>(x, w'). ?I w')" if "?I w1" "a < b" for a b w1
    using that by (intro runs_random_float) auto
  have queue: "runs (netcode_network_simulator_queue_packet from_addr to_addr data delay w1) ?I" if "?I w1" for delay w1
    by (rule runs_mono [OF runs_queue_packet [OF _ ok(1) len]]) (use that in \<open>auto intro: world_step_trans\<close>)
  have free: "runs (free_current_entry w1) ?I" if "?I w1" for w1
    by (rule runs_mono [OF runs_free_current_entry]) (use that in \<open>auto intro: world_step_trans\<close>)
  have type: "address_type from_addr \<noteq> 0" using ok(1) by (cases from_addr) (auto simp: address_ok_def)
  have jitter: "runs (if ns_jitter_milliseconds (w_simulator w1) > 0 then do {
                 (j, w) \<leftarrow> netcode_random_float (- ns_jitter_milliseconds (w_simulator w1))
                             (ns_jitter_milliseconds (w_simulator w1)) w1;
                 Some (delay + j / 1000, w) }
               else Some (delay, w1)) (\<lambda>(x, w'). ?I w')" if "?I w1" for delay w1
    unfolding runs_if runs_bind by (auto intro!: runs_mono [OF random [OF that]] that)
  have dup: "runs (do { (duplicate, w) \<leftarrow> netcode_random_float 0 100 w1;
            if duplicate \<le> ns_duplicate_packet_percent (w_simulator w) then do {
              (extra, w) \<leftarrow> netcode_random_float 0 1 w;
              netcode_network_simulator_queue_packet from_addr to_addr data (delay + extra) w }
            else Some w }) ?I" if "?I w1" for delay w1
    unfolding runs_bind
    by (rule runs_mono [OF random [OF that]])
      (auto simp: runs_bind intro!: runs_mono [OF random] queue)
  have rest: "runs (do { w \<leftarrow> free_current_entry w1;
            let delay = ns_latency_milliseconds (w_simulator w) / 1000;
            (delay, w) \<leftarrow>
              (if ns_jitter_milliseconds (w_simulator w) > 0 then do {
                 (j, w) \<leftarrow> netcode_random_float (- ns_jitter_milliseconds (w_simulator w))
                             (ns_jitter_milliseconds (w_simulator w)) w;
                 Some (delay + j / 1000, w) }
               else Some (delay, w));
            w \<leftarrow> netcode_network_simulator_queue_packet from_addr to_addr data delay w;
            (duplicate, w) \<leftarrow> netcode_random_float 0 100 w;
            if duplicate \<le> ns_duplicate_packet_percent (w_simulator w) then do {
              (extra, w) \<leftarrow> netcode_random_float 0 1 w;
              netcode_network_simulator_queue_packet from_addr to_addr data (delay + extra) w }
            else Some w }) ?I" if "?I w1" for w1
    unfolding runs_bind [where m = "free_current_entry w1"]
    apply (rule runs_mono [OF free [OF that]])
    apply (simp only: Let_def runs_bind [where m = "if _ then _ else _"])
    apply (erule runs_mono [OF jitter])
    apply (clarsimp simp only: prod.case runs_bind [where m = "netcode_network_simulator_queue_packet _ _ _ _ _"])
    apply (rule runs_mono [OF queue])
     apply blast
    apply (erule dup)
    done
  show ?thesis
    unfolding netcode_network_simulator_send_packet_def runs_bind runs_assert
    using ok(2) len type inv
    apply (intro conjI)
        apply assumption+
    apply (rule runs_random_float, simp)
    apply (simp only: prod.case runs_if split: if_split)
    apply (intro conjI impI)
     apply simp
    apply (rule rest)
    apply simp
    done
qed

section \<open>Receiving from the simulator\<close>

text \<open>What a receiver is given: blocks of its own, with datagrams of 1 to 1220 bytes and the length to go with them.\<close>

definition received_ok :: "block heap \<Rightarrow> nat \<times> nat \<times> netcode_address \<Rightarrow> bool" where
  "received_ok h = (\<lambda>(p, n, from_addr). address_ok from_addr \<and> 0 < n \<and> n \<le> NETCODE_MAX_PACKET_BYTES
     \<and> (\<exists>bs. h_blocks h p = Some (Buffer_block bs) \<and> length bs = n))"

lemma take_pending_ok:
  "sim_inv A h ns \<Longrightarrow> take_pending_packets k i to_addr room ns = (received, ns') \<Longrightarrow>
   sim_inv (A \<union> fst ` set received) h ns' \<and> distinct (map fst received) \<and> fst ` set received \<inter> A = {}
   \<and> length received \<le> room \<and> (\<forall>r \<in> set received. received_ok h r)"
proof (induction k i to_addr room ns arbitrary: A received ns' rule: take_pending_packets.induct)
  case (1 i to_addr room ns)
  then show ?case by simp
next
  case (2 k i to_addr room ns)
  let ?e = "ns_pending_receive_packets ns i"
  show ?case
  proof (cases "room = 0")
    case True
    with 2 show ?thesis by simp
  next
    case room: False
    show ?thesis
    proof (cases "pe_packet_data ?e")
      case None
      with 2 room show ?thesis by simp
    next
      case (Some p)
      show ?thesis
      proof (cases "netcode_address_equal (pe_to ?e) to_addr")
        case False
        with 2 room Some show ?thesis by simp
      next
        case True
        have p: "pe_packet_data (sim_entry ns (Inr i)) = Some p" using Some by (simp add: sim_entry.simps)
        have ok: "entry_ok h ?e" using 2(4) unfolding sim_inv_def by (metis sim_entry.simps(2))
        have notA: "p \<notin> A" using sim_owned_live [OF 2(4)] p by (auto simp: sim_owned_def)
        obtain rs ns1 where rest: "take_pending_packets k (Suc i) to_addr (room - 1) (drop_entry (Inr i) ns) = (rs, ns1)"
          by fastforce
        have "sim_inv (insert p A \<union> fst ` set rs) h ns1 \<and> distinct (map fst rs) \<and> fst ` set rs \<inter> insert p A = {}
            \<and> length rs \<le> room - 1 \<and> (\<forall>r \<in> set rs. received_ok h r)"
          using 2(3) [OF refl room Some] True sim_inv_give [OF 2(4) p] rest
          by (simp add: drop_entry_def del: Un_insert_left)
        moreover have "received = (p, pe_packet_bytes ?e, pe_from ?e) # rs" "ns' = ns1"
          using 2(5) room Some True rest by (simp_all add: drop_entry_def Let_def)
        moreover have "received_ok h (p, pe_packet_bytes ?e, pe_from ?e)"
          using ok Some by (simp add: entry_ok_def received_ok_def)
        ultimately show ?thesis using room notA by auto
      qed
    qed
  qed
qed

lemma runs_sim_receive:
  assumes inv: "world_inv sim A w"
  shows "runs (netcode_network_simulator_receive_packets to_addr n w) (\<lambda>(received, w').
     world_inv sim (A \<union> fst ` set received) w' \<and> world_step A w w' \<and> w_heap w' = w_heap w
   \<and> distinct (map fst received) \<and> fst ` set received \<inter> A = {} \<and> length received \<le> n
   \<and> (\<forall>r \<in> set received. received_ok (w_heap w) r))"
proof -
  obtain received ns where r: "take_pending_packets (ns_num_pending_receive_packets (w_simulator w)) 0 to_addr n
      (w_simulator w) = (received, ns)" by fastforce
  have "sim_inv A (w_heap w) (w_simulator w)" using inv by (simp add: world_inv_def)
  from take_pending_ok [OF this r] inv show ?thesis
    by (simp add: netcode_network_simulator_receive_packets_def r runs_simps world_inv_def inbox_ok_def)
qed

section \<open>Updating the simulator\<close>

lemma runs_discard_pending:
  "world_inv sim A w \<Longrightarrow>
   runs (discard_pending_packets k i w) (\<lambda>w'. world_inv sim A w' \<and> world_step A w w'
     \<and> ns_packet_entries (w_simulator w') = ns_packet_entries (w_simulator w)
     \<and> ns_num_pending_receive_packets (w_simulator w') = ns_num_pending_receive_packets (w_simulator w)
     \<and> ns_time (w_simulator w') = ns_time (w_simulator w)
     \<and> (\<forall>j. pe_packet_data (ns_pending_receive_packets (w_simulator w') j)
         = (if i \<le> j \<and> j < i + k then None else pe_packet_data (ns_pending_receive_packets (w_simulator w) j))))"
proof (induction k arbitrary: i w)
  case 0
  then show ?case by auto
next
  case (Suc k)
  show ?case
  proof (cases "pe_packet_data (ns_pending_receive_packets (w_simulator w) i)")
    case None
    have "runs (discard_pending_packets k (Suc i) w) (\<lambda>w'. world_inv sim A w' \<and> world_step A w w'
     \<and> ns_packet_entries (w_simulator w') = ns_packet_entries (w_simulator w)
     \<and> ns_num_pending_receive_packets (w_simulator w') = ns_num_pending_receive_packets (w_simulator w)
     \<and> ns_time (w_simulator w') = ns_time (w_simulator w)
     \<and> (\<forall>j. pe_packet_data (ns_pending_receive_packets (w_simulator w') j)
         = (if Suc i \<le> j \<and> j < Suc i + k then None else pe_packet_data (ns_pending_receive_packets (w_simulator w) j))))"
      by (rule Suc.IH [OF Suc.prems])
    then show ?thesis using None by (auto elim!: runs_mono simp: le_less Suc_le_eq)
  next
    case (Some p)
    let ?w = "sim_map (drop_entry (Inr i)) (w\<lparr>w_heap := release [p] (w_heap w)\<rparr>)"
    have s: "sim_inv A (w_heap w) (w_simulator w)" using Suc.prems by (simp add: world_inv_def)
    have p: "pe_packet_data (sim_entry (w_simulator w) (Inr i)) = Some p" using Some by (simp add: sim_entry.simps)
    have live: "p \<in> live (w_heap w)" "p \<notin> A" using sim_owned_live [OF s] p by (auto simp: sim_owned_def)
    have inv: "world_inv sim A ?w"
      using sim_inv_free_entry [OF s p] Suc.prems by (simp add: world_inv_def sim_map_def inbox_ok_def)
    have "\<forall>q \<in> A. h_blocks (release [p] (w_heap w)) q = h_blocks (w_heap w) q"
      using live(2) by (intro ballI release_blocks) auto
    then have step: "world_step A w ?w" by (simp add: world_step_def sim_map_def)
    have eq: "discard_pending_packets (Suc k) i w = discard_pending_packets k (Suc i) ?w"
      using Some live(1) by (simp add: w_free_live sim_map_def drop_entry_def)
    show ?thesis unfolding eq
      by (rule runs_mono [OF Suc.IH [OF inv]])
        (use step in \<open>auto intro: world_step_trans simp: sim_map_def drop_entry_def le_less Suc_le_eq\<close>)
  qed
qed

text \<open>The entries that an update at a given time moves, by index.\<close>

definition ready :: "dbl \<Rightarrow> packet_entry array \<Rightarrow> nat \<Rightarrow> bool" where
  "ready time entries i \<longleftrightarrow> pe_packet_data (entries i) \<noteq> None \<and> pe_delivery_time (entries i) \<le> time"

lemma move_ready_spec:
  "ns_num_pending_receive_packets ns \<le> 16384 \<Longrightarrow>
   R = take (16384 - ns_num_pending_receive_packets ns) (filter (ready time (ns_packet_entries ns)) [i..<i + k]) \<Longrightarrow>
   move_ready_packets k i time ns = ns\<lparr>
     ns_pending_receive_packets := (\<lambda>j. if ns_num_pending_receive_packets ns \<le> j
          \<and> j < ns_num_pending_receive_packets ns + length R
        then ns_packet_entries ns (R ! (j - ns_num_pending_receive_packets ns)) else ns_pending_receive_packets ns j),
     ns_num_pending_receive_packets := ns_num_pending_receive_packets ns + length R,
     ns_packet_entries := (\<lambda>j. if j \<in> set R then (ns_packet_entries ns j)\<lparr>pe_packet_data := None\<rparr>
        else ns_packet_entries ns j)\<rparr>"
proof (induction k arbitrary: i ns R)
  case 0
  then show ?case by (auto simp: fun_eq_iff intro!: network_simulator.equality)
next
  case (Suc k)
  let ?n = "ns_num_pending_receive_packets ns" and ?e = "ns_packet_entries ns i"
  have upt: "[i..<i + Suc k] = i # [Suc i..<Suc i + k]" by (simp add: upt_conv_Cons)
  show ?case
  proof (cases "ready time (ns_packet_entries ns) i")
    case False
    then have "R = take (16384 - ?n) (filter (ready time (ns_packet_entries ns)) [Suc i..<Suc i + k])"
      using Suc.prems(2) by (simp only: upt filter.simps if_False)
    note IH = Suc.IH [OF Suc.prems(1) this]
    show ?thesis
    proof (cases "?n = 16384")
      case True
      with Suc.prems show ?thesis using IH False
        by (auto simp: Let_def ready_def fun_eq_iff intro!: network_simulator.equality)
    next
      case False': False
      with IH False show ?thesis by (auto simp: Let_def ready_def)
    qed
  next
    case True
    then obtain p where p: "pe_packet_data ?e = Some p" "pe_delivery_time ?e \<le> time" by (auto simp: ready_def)
    show ?thesis
    proof (cases "?n = 16384")
      case full: True
      with p Suc.prems show ?thesis
        by (auto simp: Let_def fun_eq_iff intro!: network_simulator.equality)
    next
      case room: False
      define ns1 where "ns1 = ns\<lparr>ns_pending_receive_packets := (ns_pending_receive_packets ns)(?n := ?e),
          ns_num_pending_receive_packets := ?n + 1,
          ns_packet_entries := (ns_packet_entries ns)(i := ?e\<lparr>pe_packet_data := None\<rparr>)\<rparr>"
      define R1 where "R1 = take (16384 - (?n + 1)) (filter (ready time (ns_packet_entries ns)) [Suc i..<Suc i + k])"
      have n1: "ns_num_pending_receive_packets ns1 = ?n + 1" by (simp add: ns1_def)
      have "filter (ready time (ns_packet_entries ns1)) [Suc i..<Suc i + k]
          = filter (ready time (ns_packet_entries ns)) [Suc i..<Suc i + k]"
        by (rule filter_cong) (auto simp: ready_def ns1_def)
      then have "R1 = take (16384 - ns_num_pending_receive_packets ns1)
          (filter (ready time (ns_packet_entries ns1)) [Suc i..<Suc i + k])"
        by (simp only: R1_def n1)
      moreover have "ns_num_pending_receive_packets ns1 \<le> 16384" using room Suc.prems(1) n1 by simp
      ultimately have IH: "move_ready_packets k (Suc i) time ns1 = ns1\<lparr>
          ns_pending_receive_packets := (\<lambda>j. if ns_num_pending_receive_packets ns1 \<le> j
              \<and> j < ns_num_pending_receive_packets ns1 + length R1
            then ns_packet_entries ns1 (R1 ! (j - ns_num_pending_receive_packets ns1))
            else ns_pending_receive_packets ns1 j),
          ns_num_pending_receive_packets := ns_num_pending_receive_packets ns1 + length R1,
          ns_packet_entries := (\<lambda>j. if j \<in> set R1 then (ns_packet_entries ns1 j)\<lparr>pe_packet_data := None\<rparr>
            else ns_packet_entries ns1 j)\<rparr>"
        by (intro Suc.IH)
      have "16384 - ?n = Suc (16384 - (?n + 1))" using room Suc.prems(1) by arith
      then have R: "R = i # R1" using Suc.prems(2) True by (simp only: upt filter.simps if_True take_Suc_Cons R1_def)
      have notR: "i \<notin> set R1" by (auto simp: R1_def dest: in_set_takeD)
      have entry: "ns_packet_entries ns1 (R1 ! j) = ns_packet_entries ns (R1 ! j)" if "j < length R1" for j
        using notR that by (auto simp: ns1_def)
      have "move_ready_packets (Suc k) i time ns = move_ready_packets k (Suc i) time ns1"
        using p room by (simp add: Let_def ns1_def)
      also note IH
      finally have run: "move_ready_packets (Suc k) i time ns = ns1\<lparr>
          ns_pending_receive_packets := (\<lambda>j. if ns_num_pending_receive_packets ns1 \<le> j
              \<and> j < ns_num_pending_receive_packets ns1 + length R1
            then ns_packet_entries ns1 (R1 ! (j - ns_num_pending_receive_packets ns1))
            else ns_pending_receive_packets ns1 j),
          ns_num_pending_receive_packets := ns_num_pending_receive_packets ns1 + length R1,
          ns_packet_entries := (\<lambda>j. if j \<in> set R1 then (ns_packet_entries ns1 j)\<lparr>pe_packet_data := None\<rparr>
            else ns_packet_entries ns1 j)\<rparr>" .
      have "(\<lambda>j. if ?n + 1 \<le> j \<and> j < ?n + 1 + length R1 then ns_packet_entries ns1 (R1 ! (j - (?n + 1)))
            else ns_pending_receive_packets ns1 j)
          = (\<lambda>j. if ?n \<le> j \<and> j < ?n + length R then ns_packet_entries ns (R ! (j - ?n))
            else ns_pending_receive_packets ns j)"
      proof
        fix j
        consider "j = ?n" | "?n < j" "j < ?n + 1 + length R1" | "j < ?n \<or> \<not> j < ?n + 1 + length R1" by linarith
        then show "(if ?n + 1 \<le> j \<and> j < ?n + 1 + length R1 then ns_packet_entries ns1 (R1 ! (j - (?n + 1)))
            else ns_pending_receive_packets ns1 j)
          = (if ?n \<le> j \<and> j < ?n + length R then ns_packet_entries ns (R ! (j - ?n))
            else ns_pending_receive_packets ns j)"
        proof cases
          case 1
          then show ?thesis by (simp add: R ns1_def)
        next
          case 2
          then have "j - ?n = Suc (j - (?n + 1))" and "j - (?n + 1) < length R1" by arith+
          with 2 entry show ?thesis by (simp add: R)
        next
          case 3
          then show ?thesis by (auto simp: R ns1_def)
        qed
      qed
      moreover have "(\<lambda>j. if j \<in> set R1 then (ns_packet_entries ns1 j)\<lparr>pe_packet_data := None\<rparr>
            else ns_packet_entries ns1 j)
          = (\<lambda>j. if j \<in> set R then (ns_packet_entries ns j)\<lparr>pe_packet_data := None\<rparr> else ns_packet_entries ns j)"
        using notR by (auto simp: R ns1_def fun_eq_iff)
      ultimately show ?thesis unfolding run n1 by (simp add: R ns1_def)
    qed
  qed
qed

lemma sim_inv_move:
  assumes inv: "sim_inv A h ns" and p: "pe_packet_data (ns_packet_entries ns i) = Some p"
    and room: "ns_num_pending_receive_packets ns < NETCODE_NETWORK_SIMULATOR_NUM_PENDING_RECEIVE_PACKETS"
  shows "sim_inv A h (ns\<lparr>
          ns_pending_receive_packets := (ns_pending_receive_packets ns)(ns_num_pending_receive_packets ns := ns_packet_entries ns i),
          ns_num_pending_receive_packets := ns_num_pending_receive_packets ns + 1,
          ns_packet_entries := (ns_packet_entries ns)(i := (ns_packet_entries ns i)\<lparr>pe_packet_data := None\<rparr>)\<rparr>)"
    (is "sim_inv A h ?ns")
proof -
  have p': "pe_packet_data (sim_entry ns (Inl i)) = Some p" using p by (simp add: sim_entry.simps)
  note give = sim_inv_give [OF inv p']
  have "p \<notin> A" using sim_owned_live [OF inv] p' by (auto simp: sim_owned_def)
  moreover have "entry_ok h (ns_packet_entries ns i)" using inv unfolding sim_inv_def by (metis sim_entry.simps(1))
  moreover have "sim_entry ?ns l = (if l = Inr (ns_num_pending_receive_packets ns) then ns_packet_entries ns i
      else sim_entry (drop_entry (Inl i) ns) l)" for l
    by (cases l) (auto simp: sim_entry.simps drop_entry_def)
  ultimately show ?thesis
    using p room inv
    by (intro sim_inv_put [OF give, where e = "ns_packet_entries ns i" and k = "Inr (ns_num_pending_receive_packets ns)"])
      (simp_all add: sim_inv_def)
qed

lemma sim_inv_move_ready: "sim_inv A h ns \<Longrightarrow> sim_inv A h (move_ready_packets k i time ns)"
proof (induction k arbitrary: i ns)
  case 0
  then show ?case by simp
next
  case (Suc k)
  have "ns_num_pending_receive_packets ns \<le> 16384" using Suc.prems by (simp add: sim_inv_def)
  then show ?case
    using Suc.IH [OF Suc.prems] Suc.IH [OF sim_inv_move [OF Suc.prems]] Suc.prems by (auto simp: Let_def)
qed

lemma sim_inv_no_pending:
  assumes "sim_inv A h ns" and "\<And>j. pe_packet_data (ns_pending_receive_packets ns j) = None"
  shows "sim_inv A h (ns\<lparr>ns_num_pending_receive_packets := 0\<rparr>)"
  using assms unfolding sim_inv_def sim_owned_def by (simp add: sim_entry.simps)

lemma runs_sim_update:
  assumes inv: "world_inv sim A w"
  shows "runs (netcode_network_simulator_update time w) (\<lambda>w'. world_inv sim A w' \<and> world_step A w w')"
proof -
  let ?w = "sim_map (\<lambda>ns. ns\<lparr>ns_time := time\<rparr>) w"
  have inv': "world_inv sim A ?w"
    using inv sim_inv_other_fields [of A "w_heap w" "w_simulator w" "w_simulator w\<lparr>ns_time := time\<rparr>"]
    by (simp add: world_inv_def sim_map_def inbox_ok_def)
  have none: "pe_packet_data (ns_pending_receive_packets (w_simulator ?w) j) = None"
    if "j \<ge> ns_num_pending_receive_packets (w_simulator ?w)" for j
    using inv' that by (simp add: world_inv_def sim_inv_def sim_entry.simps)
  show ?thesis
    unfolding netcode_network_simulator_update_def runs_Let runs_bind
  proof (rule runs_mono [OF runs_discard_pending [OF inv']], clarify)
    fix w1 assume w1: "world_inv sim A w1" "world_step A ?w w1"
      and pending: "\<forall>j. pe_packet_data (ns_pending_receive_packets (w_simulator w1) j)
         = (if 0 \<le> j \<and> j < 0 + ns_num_pending_receive_packets (w_simulator ?w) then None
            else pe_packet_data (ns_pending_receive_packets (w_simulator ?w) j))"
    have "pe_packet_data (ns_pending_receive_packets (w_simulator w1) j) = None" for j
      using pending none [of j] by (cases "j < ns_num_pending_receive_packets (w_simulator ?w)") auto
    then have "sim_inv A (w_heap w1) (move_ready_packets NETCODE_NETWORK_SIMULATOR_NUM_PACKET_ENTRIES 0 time
        ((w_simulator w1)\<lparr>ns_num_pending_receive_packets := 0\<rparr>))"
      using w1(1) by (intro sim_inv_move_ready sim_inv_no_pending) (simp_all add: world_inv_def)
    with w1 show "runs (Some (sim_map (\<lambda>ns. move_ready_packets NETCODE_NETWORK_SIMULATOR_NUM_PACKET_ENTRIES 0 time
            (ns\<lparr>ns_num_pending_receive_packets := 0\<rparr>)) w1)) (\<lambda>w'. world_inv sim A w' \<and> world_step A w w')"
      by (simp add: sim_map_def world_inv_def inbox_ok_def)
  qed
qed

lemma sim_entry_zero [simp]: "sim_entry zero_network_simulator k = zero_packet_entry"
  by (cases k) (simp_all add: sim_entry.simps zero_network_simulator_def)

lemma zero_packet_entry_data [simp]: "pe_packet_data zero_packet_entry = None"
  by (simp add: zero_packet_entry_def)

section \<open>Resetting the simulator\<close>

lemma sim_inv_blank:
  assumes "sim_inv A h ns" and "\<And>l. sim_entry ns' l = (if l = k then e else sim_entry ns l)"
    and "pe_packet_data e = None" and "pe_packet_data (sim_entry ns k) = None"
    and "ns_num_pending_receive_packets ns' = ns_num_pending_receive_packets ns" and "ns_current_index ns' = ns_current_index ns"
  shows "sim_inv A h ns'"
proof -
  have "pe_packet_data (sim_entry ns' l) = pe_packet_data (sim_entry ns l)" for l using assms(2-4) by simp
  moreover from this have "sim_owned ns' = sim_owned ns" by (simp add: sim_owned_def)
  moreover have "entry_ok h (sim_entry ns' l)" for l
    using assms(1-3) by (cases "l = k") (simp_all add: sim_inv_def entry_ok_def)
  ultimately show ?thesis using assms(1,5,6) unfolding sim_inv_def by simp
qed

lemma runs_clear_entry:
  assumes inv: "world_inv sim A w" and entry: "\<And>ns l. sim_entry (f ns) l = (if l = k then zero_packet_entry else sim_entry ns l)"
    and same: "\<And>ns. ns_num_pending_receive_packets (f ns) = ns_num_pending_receive_packets ns"
      "\<And>ns. ns_current_index (f ns) = ns_current_index ns"
  shows "runs (w_free (pe_packet_data (sim_entry (w_simulator w) k)) w) (\<lambda>w'. w_simulator w' = w_simulator w
    \<and> world_inv sim A (sim_map f w') \<and> world_step A w (sim_map f w'))"
proof (cases "pe_packet_data (sim_entry (w_simulator w) k)")
  case None
  have "sim_inv A (w_heap w) (f (w_simulator w))"
    by (rule sim_inv_blank [OF _ entry _ None same]) (use inv in \<open>simp_all add: world_inv_def zero_packet_entry_def\<close>)
  with inv None show ?thesis by (simp add: w_free_def world_inv_def sim_map_def inbox_ok_def)
next
  case (Some p)
  have s: "sim_inv A (w_heap w) (w_simulator w)" using inv by (simp add: world_inv_def)
  have live: "p \<in> live (w_heap w)" "p \<notin> A" using sim_owned_live [OF s] Some by (auto simp: sim_owned_def)
  have "sim_inv A (release [p] (w_heap w)) (f (w_simulator w))"
    by (rule sim_inv_blank [OF sim_inv_free_entry [OF s Some], where k = k and e = zero_packet_entry])
      (simp_all add: entry same sim_entry_drop zero_packet_entry_def)
  moreover have "\<forall>q \<in> A. h_blocks (release [p] (w_heap w)) q = h_blocks (w_heap w) q"
    using live(2) by (intro ballI release_blocks) auto
  ultimately show ?thesis
    using inv Some live(1) by (simp add: w_free_live world_inv_def world_step_def sim_map_def inbox_ok_def)
qed

lemma runs_reset_entries:
  "world_inv sim A w \<Longrightarrow> runs (reset_packet_entries k i w) (\<lambda>w'. world_inv sim A w' \<and> world_step A w w')"
proof (induction k arbitrary: i w)
  case (Suc k)
  let ?f = "\<lambda>ns. ns\<lparr>ns_packet_entries := (ns_packet_entries ns)(i := zero_packet_entry)\<rparr>"
  obtain w1 where w1: "w_free (pe_packet_data (ns_packet_entries (w_simulator w) i)) w = Some w1"
    "world_inv sim A (sim_map ?f w1)" "world_step A w (sim_map ?f w1)"
    using runs_clear_entry [OF Suc.prems, of ?f "Inl i"] by (auto simp: runs_ex sim_entry.simps)
  show ?case
    unfolding reset_packet_entries.simps w1(1) bind.bind_lunit
    by (rule runs_mono [OF Suc.IH [OF w1(2)]]) (auto intro: world_step_trans [OF w1(3)])
qed simp

lemma runs_reset_pending:
  "world_inv sim A w \<Longrightarrow> runs (reset_pending_packets k i w) (\<lambda>w'. world_inv sim A w' \<and> world_step A w w'
    \<and> (\<forall>j. pe_packet_data (ns_pending_receive_packets (w_simulator w') j)
         = (if i \<le> j \<and> j < i + k then None else pe_packet_data (ns_pending_receive_packets (w_simulator w) j))))"
proof (induction k arbitrary: i w)
  case (Suc k)
  let ?f = "\<lambda>ns. ns\<lparr>ns_pending_receive_packets := (ns_pending_receive_packets ns)(i := zero_packet_entry)\<rparr>"
  obtain w1 where w1: "w_free (pe_packet_data (ns_pending_receive_packets (w_simulator w) i)) w = Some w1"
    "w_simulator w1 = w_simulator w" "world_inv sim A (sim_map ?f w1)" "world_step A w (sim_map ?f w1)"
    using runs_clear_entry [OF Suc.prems, of ?f "Inr i"] by (auto simp: runs_ex sim_entry.simps)
  show ?case
    unfolding reset_pending_packets.simps w1(1) bind.bind_lunit
    by (rule runs_mono [OF Suc.IH [OF w1(3)]])
      (use w1(2) in \<open>auto intro: world_step_trans [OF w1(4)] simp: sim_map_def zero_packet_entry_def le_less Suc_le_eq\<close>)
qed auto

lemma runs_sim_reset:
  assumes "world_inv sim A w"
  shows "runs (netcode_network_simulator_reset w) (\<lambda>w'. world_inv sim A w' \<and> world_step A w w')"
proof -
  obtain w1 where w1: "reset_packet_entries NETCODE_NETWORK_SIMULATOR_NUM_PACKET_ENTRIES 0 w = Some w1" "world_inv sim A w1" "world_step A w w1"
    using runs_reset_entries [OF assms] by (auto simp: runs_ex)
  let ?n = "ns_num_pending_receive_packets (w_simulator w1)"
  obtain w2 where w2: "reset_pending_packets ?n 0 w1 = Some w2" "world_inv sim A w2" "world_step A w1 w2"
    and none: "\<And>j. pe_packet_data (ns_pending_receive_packets (w_simulator w2) j)
         = (if j < ?n then None else pe_packet_data (ns_pending_receive_packets (w_simulator w1) j))"
    using runs_reset_pending [OF w1(2), of ?n 0] by (auto simp: runs_ex)
  have "pe_packet_data (ns_pending_receive_packets (w_simulator w1) j) = None" if "?n \<le> j" for j
    using w1(2) that by (simp add: world_inv_def sim_inv_def sim_entry.simps)
  then have "pe_packet_data (ns_pending_receive_packets (w_simulator w2) j) = None" for j by (simp add: none)
  then have "sim_inv A (w_heap w2) (w_simulator w2\<lparr>ns_num_pending_receive_packets := 0\<rparr>)"
    using w2(2) by (intro sim_inv_no_pending) (simp_all add: world_inv_def)
  then have "sim_inv A (w_heap w2) (w_simulator w2\<lparr>ns_current_index := 0, ns_num_pending_receive_packets := 0\<rparr>)"
    by (simp add: sim_inv_def sim_owned_def)
  with w1 w2 show ?thesis
    by (auto simp: netcode_network_simulator_reset_def sim_map_def world_inv_def inbox_ok_def intro: world_step_trans)
qed

text \<open>A new simulator is empty; its struct is a block. A destroyed one leaves the blocks of its lost duplicates behind.\<close>

lemma runs_sim_create:
  assumes inv: "world_inv True A w"
  shows "runs (netcode_network_simulator_create w) (\<lambda>(p, w'). p \<notin> A \<and> world_inv True (insert p A) w' \<and> world_step A w w')"
proof -
  obtain r w1 where a: "w_alloc Struct_block w = (r, w1)" by fastforce
  note alloc = world_inv_alloc [OF inv a]
  obtain p where p: "r = Some p" using alloc(4) by auto
  have "sim_inv (insert p A) (w_heap w1) zero_network_simulator"
    using alloc(3) [OF p] unfolding world_inv_def sim_inv_def
    by (simp add: sim_owned_def entry_ok_def) (simp add: zero_network_simulator_def)
  with alloc(2) alloc(3) [OF p] a p show ?thesis
    by (simp add: netcode_network_simulator_create_def world_inv_def inbox_ok_def)
qed

lemma runs_sim_destroy:
  assumes inv: "world_inv sim (insert p A) w" and p: "p \<notin> A"
  shows "runs (netcode_network_simulator_destroy p w) (\<lambda>w'. world_inv sim A w' \<and> world_step A w w')"
proof -
  obtain w1 where w1: "netcode_network_simulator_reset w = Some w1" "world_inv sim (insert p A) w1" "world_step (insert p A) w w1"
    using runs_sim_reset [OF inv] by (auto simp: runs_ex)
  have live: "p \<in> live (w_heap w1)" by (rule world_inv_live [OF w1(2)]) simp
  have "world_inv sim A (w1\<lparr>w_heap := release [p] (w_heap w1)\<rparr>)" using world_inv_release [OF w1(2), of "[p]"] p by simp
  moreover have "\<forall>q \<in> A. h_blocks (release [p] (w_heap w1)) q = h_blocks (w_heap w1) q"
    using p by (intro ballI release_blocks) auto
  ultimately show ?thesis
    using w1 live by (simp add: netcode_network_simulator_destroy_def w_free_live world_step_def)
qed

section \<open>Properties\<close>

text \<open>C33: a simulator update delivers what is due and nothing else. After an update at time \<open>t\<close> the pending list is,
  in the order of the ring and up to its 16384 places, the entries with a delivery time of \<open>t\<close> or earlier; exactly those
  entries become free, and no entry that is not due is touched. The update never aborts, and it touches no block of anyone else.\<close>

theorem simulator_update_delivers_due_packets:
  assumes "world_inv sim A w"
  shows "\<exists>w'. netcode_network_simulator_update time w = Some w' \<and> world_inv sim A w' \<and> world_step A w w'
    \<and> (let before = ns_packet_entries (w_simulator w); after = w_simulator w';
           due = take 16384 (filter (ready time before) [0..<65536])
       in map (ns_pending_receive_packets after) [0..<ns_num_pending_receive_packets after] = map before due
        \<and> ns_packet_entries after = (\<lambda>i. if i \<in> set due then (before i)\<lparr>pe_packet_data := None\<rparr> else before i))"
proof -
  let ?w = "sim_map (\<lambda>ns. ns\<lparr>ns_time := time\<rparr>) w"
  have inv': "world_inv sim A ?w"
    using assms sim_inv_other_fields [of A "w_heap w" "w_simulator w" "w_simulator w\<lparr>ns_time := time\<rparr>"]
    by (simp add: world_inv_def sim_map_def inbox_ok_def)
  from runs_discard_pending [OF inv', of "ns_num_pending_receive_packets (w_simulator ?w)" 0]
  obtain w1 where w1: "discard_pending_packets (ns_num_pending_receive_packets (w_simulator ?w)) 0 ?w = Some w1"
    "ns_packet_entries (w_simulator w1) = ns_packet_entries (w_simulator w)"
    by (rule runsE) (auto simp: sim_map_def)
  let ?before = "ns_packet_entries (w_simulator w)"
  define due where "due = take 16384 (filter (ready time ?before) [0..<65536])"
  define ns0 where "ns0 = (w_simulator w1)\<lparr>ns_num_pending_receive_packets := 0\<rparr>"
  have len: "length due \<le> 16384" by (simp add: due_def)
  have m: "move_ready_packets 65536 0 time ns0 = ns0\<lparr>
     ns_pending_receive_packets := (\<lambda>j. if ns_num_pending_receive_packets ns0 \<le> j
          \<and> j < ns_num_pending_receive_packets ns0 + length due
        then ns_packet_entries ns0 (due ! (j - ns_num_pending_receive_packets ns0)) else ns_pending_receive_packets ns0 j),
     ns_num_pending_receive_packets := ns_num_pending_receive_packets ns0 + length due,
     ns_packet_entries := (\<lambda>j. if j \<in> set due then (ns_packet_entries ns0 j)\<lparr>pe_packet_data := None\<rparr>
        else ns_packet_entries ns0 j)\<rparr>"
    by (rule move_ready_spec) (simp_all add: due_def ns0_def w1(2))
  have e0: "ns_packet_entries ns0 = ?before" "ns_num_pending_receive_packets ns0 = 0" by (simp_all add: ns0_def w1(2))
  let ?after = "move_ready_packets 65536 0 time ns0"
  have "map (ns_pending_receive_packets ?after) [0..<ns_num_pending_receive_packets ?after] = map ?before due"
    unfolding m e0 by (rule nth_equalityI) simp_all
  moreover have "ns_packet_entries ?after = (\<lambda>i. if i \<in> set due then (?before i)\<lparr>pe_packet_data := None\<rparr> else ?before i)"
    unfolding m e0 by simp
  moreover have "netcode_network_simulator_update time w = Some (w1\<lparr>w_simulator := ?after\<rparr>)"
    using w1(1) by (simp add: netcode_network_simulator_update_def sim_map_def ns0_def)
  ultimately show ?thesis
    using runs_sim_update [OF assms, of time] by (simp add: due_def Let_def)
qed

lemma world_inv_empty [simp]: "world_inv sim {} empty_world"
  unfolding world_inv_def sim_inv_def sim_owned_def entry_ok_def inbox_ok_def
  by (simp add: empty_world_def) (simp add: zero_network_simulator_def empty_heap_def)

theorem simulator_update_delivers_due_packets_witness:
  "\<exists>w'. netcode_network_simulator_update 5 empty_world = Some w' \<and> world_inv True {} w' \<and> world_step {} empty_world w'
    \<and> (let before = ns_packet_entries (w_simulator empty_world); after = w_simulator w';
           due = take 16384 (filter (ready 5 before) [0..<65536])
       in map (ns_pending_receive_packets after) [0..<ns_num_pending_receive_packets after] = map before due
        \<and> ns_packet_entries after = (\<lambda>i. if i \<in> set due then (before i)\<lparr>pe_packet_data := None\<rparr> else before i))"
  by (rule simulator_update_delivers_due_packets) (rule world_inv_empty)

lemma queue_packet_effect:
  assumes "\<not> h_out_of_memory (w_heap w) (h_next (w_heap w))" and "heap_inv (w_heap w)"
  obtains q w' where "netcode_network_simulator_queue_packet from_addr to_addr data delay w = Some w'"
    and "q \<notin> live (w_heap w)" and "live (w_heap w') = insert q (live (w_heap w))"
    and "heap_inv (w_heap w')" and "h_out_of_memory (w_heap w') = h_out_of_memory (w_heap w)" and "w_rand w' = w_rand w"
    and "\<And>k. pe_packet_data (sim_entry (w_simulator w') k)
      = (if k = Inl (ns_current_index (w_simulator w)) then Some q else pe_packet_data (sim_entry (w_simulator w) k))"
    and "ns_current_index (w_simulator w') = (ns_current_index (w_simulator w) + 1) mod 65536"
    and "ns_duplicate_packet_percent (w_simulator w') = ns_duplicate_packet_percent (w_simulator w)"
proof -
  let ?h = "w_heap w"
  let ?q = "h_next ?h"
  obtain h' where h': "netcode_default_allocate_function (Buffer_block data) ?h = (Some ?q, h')"
    and l: "live h' = insert ?q (live ?h)" and oom: "h_out_of_memory h' = h_out_of_memory ?h"
    using assms(1) by (auto simp: netcode_default_allocate_function_def live_def)
  have "heap_inv h'" by (rule allocate_inv [OF assms(2) h'])
  moreover define w' where "w' = sim_map (\<lambda>ns. ns\<lparr>
                ns_packet_entries := (ns_packet_entries ns)(ns_current_index ns :=
                  \<lparr>pe_from = from_addr, pe_to = to_addr, pe_delivery_time = ns_time ns + delay,
                   pe_packet_data = Some ?q, pe_packet_bytes = length data\<rparr>),
                ns_current_index := (ns_current_index ns + 1) mod 65536\<rparr>) (w\<lparr>w_heap := h'\<rparr>)"
  moreover have "netcode_network_simulator_queue_packet from_addr to_addr data delay w = Some w'"
    by (simp add: netcode_network_simulator_queue_packet_def w_alloc_def h' w'_def)
  ultimately show ?thesis using l oom
    by (intro that [of w' ?q]) (simp_all add: sim_map_def fresh_not_live [OF assms(2)])
qed

text \<open>A duplicated datagram leaks memory. The duplicate is queued in the entry after the one that was just filled, and
  that entry is not freed first: the block it held is in no entry any more, yet still allocated.\<close>

lemma duplicate_packet_leaks:
  assumes inv: "world_inv True A w" and ok: "address_type from_addr \<noteq> 0" "address_type to_addr \<noteq> 0"
    and len: "0 < length data" "length data \<le> NETCODE_MAX_PACKET_BYTES"
    and sent: "ns_packet_loss_percent (w_simulator w) < 0" and twice: "ns_duplicate_packet_percent (w_simulator w) \<ge> 100"
    and rand: "\<forall>n. 0 \<le> w_rand w n \<and> w_rand w n \<le> 1" and still: "ns_jitter_milliseconds (w_simulator w) = 0"
    and free: "pe_packet_data (ns_packet_entries (w_simulator w) (ns_current_index (w_simulator w))) = None"
    and held: "pe_packet_data (ns_packet_entries (w_simulator w)
        ((ns_current_index (w_simulator w) + 1) mod NETCODE_NETWORK_SIMULATOR_NUM_PACKET_ENTRIES)) = Some p"
  shows "\<exists>w'. netcode_network_simulator_send_packet from_addr to_addr data w = Some w'
    \<and> p \<in> live (w_heap w') \<and> p \<notin> sim_owned (w_simulator w')"
proof -
  let ?i = "ns_current_index (w_simulator w)" and ?j = "(ns_current_index (w_simulator w) + 1) mod 65536"
  let ?delay = "ns_latency_milliseconds (w_simulator w) / 1000"
  have s: "sim_inv A (w_heap w) (w_simulator w)" and oom: "\<And>n. \<not> h_out_of_memory (w_heap w) n"
    using inv by (simp_all add: world_inv_def)
  have p: "pe_packet_data (sim_entry (w_simulator w) (Inl ?j)) = Some p" using held by (simp add: sim_entry.simps)
  have live: "p \<in> live (w_heap w)" using sim_owned_live [OF s] p by (auto simp: sim_owned_def)
  have only: "k = Inl ?j" if "pe_packet_data (sim_entry (w_simulator w) k) = Some p" for k
    using s p that unfolding sim_inv_def by blast
  define w1 where "w1 = w\<lparr>w_rand_next := w_rand_next w + 1\<rparr>"
  have w1: "w_heap w1 = w_heap w" "w_simulator w1 = w_simulator w" "w_rand w1 = w_rand w" by (simp_all add: w1_def)
  have "heap_inv (w_heap w1)" using s w1(1) by (simp add: sim_inv_def)
  then obtain q w2 where w2: "netcode_network_simulator_queue_packet from_addr to_addr data ?delay w1 = Some w2"
    "live (w_heap w2) = insert q (live (w_heap w))" "heap_inv (w_heap w2)" "q \<notin> live (w_heap w)"
    "h_out_of_memory (w_heap w2) = h_out_of_memory (w_heap w)" "w_rand w2 = w_rand w"
    "\<And>k. pe_packet_data (sim_entry (w_simulator w2) k)
      = (if k = Inl ?i then Some q else pe_packet_data (sim_entry (w_simulator w) k))"
    "ns_current_index (w_simulator w2) = ?j"
    "ns_duplicate_packet_percent (w_simulator w2) = ns_duplicate_packet_percent (w_simulator w)"
    using queue_packet_effect [of w1 from_addr to_addr data ?delay] oom unfolding w1 by metis
  define extra where "extra = w_rand w (w_rand_next w2 + 1)"
  define w3 where "w3 = w2\<lparr>w_rand_next := w_rand_next w2 + 2\<rparr>"
  have w3: "w_heap w3 = w_heap w2" "w_simulator w3 = w_simulator w2" by (simp_all add: w3_def)
  obtain q' w4 where w4: "netcode_network_simulator_queue_packet from_addr to_addr data (?delay + extra) w3 = Some w4"
    "live (w_heap w4) = insert q' (live (w_heap w2))" "q' \<notin> live (w_heap w2)"
    "\<And>k. pe_packet_data (sim_entry (w_simulator w4) k)
      = (if k = Inl ?j then Some q' else pe_packet_data (sim_entry (w_simulator w2) k))"
    using queue_packet_effect [of w3 from_addr to_addr data "?delay + extra"] oom w2(3,5,8) unfolding w3 by metis
  have lost: "\<not> 100 * w_rand w (w_rand_next w) \<le> ns_packet_loss_percent (w_simulator w)"
    using sent rand [rule_format, of "w_rand_next w"] by linarith
  have dup: "100 * w_rand w (w_rand_next w2) \<le> ns_duplicate_packet_percent (w_simulator w2)"
    using twice rand [rule_format, of "w_rand_next w2"] w2(9) by linarith
  have "netcode_network_simulator_send_packet from_addr to_addr data w = Some w4"
    using ok len lost dup still free w2(1) w4(1)
    by (simp add: netcode_network_simulator_send_packet_def netcode_random_float_def free_current_entry_def
        Let_def w2(6) w1_def w3_def extra_def mult.commute)
  moreover have "p \<in> live (w_heap w4)" using live by (simp add: w2(2) w4(2))
  moreover have "p \<notin> sim_owned (w_simulator w4)"
  proof
    assume "p \<in> sim_owned (w_simulator w4)"
    then obtain k where "pe_packet_data (sim_entry (w_simulator w4) k) = Some p" by (auto simp: sim_owned_def)
    then show False using w4(3,4) w2(2,4,7) only [of k] live by (auto split: if_splits)
  qed
  ultimately show ?thesis by blast
qed

lemma duplicate_packet_leaks_witness:
  "\<exists>w'. netcode_network_simulator_send_packet (ADDRESS_IPV4 [1, 1, 1, 1] 1) (ADDRESS_IPV4 [2, 2, 2, 2] 2) [7]
      (empty_world\<lparr>
         w_heap := \<lparr>h_blocks = [0 \<mapsto> Buffer_block [9]], h_next = 1, h_out_of_memory = \<lambda>_. False\<rparr>,
         w_simulator := zero_network_simulator\<lparr>ns_packet_loss_percent := - 1, ns_duplicate_packet_percent := 100,
           ns_packet_entries := (\<lambda>_. zero_packet_entry)(1 :=
             \<lparr>pe_from = ADDRESS_IPV4 [1, 1, 1, 1] 1, pe_to = ADDRESS_IPV4 [2, 2, 2, 2] 2, pe_delivery_time = 0,
              pe_packet_data = Some 0, pe_packet_bytes = 1\<rparr>)\<rparr>\<rparr>) = Some w'
    \<and> 0 \<in> live (w_heap w') \<and> 0 \<notin> sim_owned (w_simulator w')"
    (is "\<exists>w'. netcode_network_simulator_send_packet ?f ?t ?d ?w = Some w' \<and> _")
proof (rule duplicate_packet_leaks)
  let ?ns = "w_simulator ?w"
  have e: "pe_packet_data (sim_entry ?ns k) = (if k = Inl 1 then Some 0 else None)" for k
    by (cases k) (auto simp: sim_entry.simps zero_network_simulator_def)
  have ok: "entry_ok (w_heap ?w) (sim_entry ?ns k)" for k
  proof (cases "k = Inl 1")
    case True
    then show ?thesis by (simp add: sim_entry.simps entry_ok_def address_ok_def)
  next
    case False
    then show ?thesis using e [of k] by (simp add: entry_ok_def)
  qed
  show "world_inv True {} ?w"
    unfolding world_inv_def sim_inv_def
    using e ok by (auto simp: heap_inv_def live_def inbox_ok_def empty_world_def zero_network_simulator_def
        split: if_splits)
qed (simp_all add: empty_world_def zero_network_simulator_def)

end
