(* ===== verification/Endpoint.thy ===== *)
theory Endpoint
  imports Simulator
begin

text \<open>
  What the client and the server have in common, over the world: the blocks that one of them must leave alone, the
  reading of one datagram, a queue of received payloads, and the two transports (a socket, the simulator) behind one contract,
  the locale \<open>transport\<close>. The locale \<open>step_system\<close> turns the preservation of an invariant by one step into its preservation
  by every run; both endpoints instantiate it with their calls.
\<close>

section \<open>What is left alone\<close>

text \<open>The blocks \<open>B\<close> belong to somebody else: the user, or another endpoint of the process.\<close>

definition frame :: "nat set \<Rightarrow> world \<Rightarrow> world \<Rightarrow> bool" where
  "frame B w w' \<longleftrightarrow> (\<forall>p \<in> B. h_blocks (w_heap w') p = h_blocks (w_heap w) p)
     \<and> w_inbox w' = w_inbox w \<and> w_initialized w' = w_initialized w \<and> w_timestamp w' = w_timestamp w"

lemma frame_refl [simp]: "frame B w w"
  by (simp add: frame_def)

lemma frame_trans [trans]: "frame B w w' \<Longrightarrow> frame B w' w'' \<Longrightarrow> frame B w w''"
  by (simp add: frame_def)

lemma frame_mono: "frame A w w' \<Longrightarrow> B \<subseteq> A \<Longrightarrow> frame B w w'"
  by (auto simp: frame_def)

lemma frame_world_step: "world_step A w w' \<Longrightarrow> frame A w w'"
  by (simp add: frame_def world_step_def)

lemma frame_fields [simp]:
  "frame B w (w_log e w') = frame B w w'"
  "frame B w (w'\<lparr>w_sent := x\<rparr>) = frame B w w'"
  "frame B w (w'\<lparr>w_closed := cs\<rparr>) = frame B w w'"
  "frame B w (w'\<lparr>w_random_next := n\<rparr>) = frame B w w'"
  by (simp_all add: frame_def)

lemma frame_release: "set ps \<inter> B = {} \<Longrightarrow> frame B w (w\<lparr>w_heap := release ps (w_heap w)\<rparr>)"
  by (auto simp: frame_def disjoint_iff intro!: release_blocks)

lemma frame_packet: "frame B w w' \<Longrightarrow> p \<in> B \<Longrightarrow> w_packet p w' = w_packet p w"
  by (simp add: frame_def w_packet_def)

lemma frame_buffer: "frame B w w' \<Longrightarrow> p \<in> B \<Longrightarrow> w_buffer p w' = w_buffer p w"
  by (simp add: frame_def w_buffer_def)

lemma world_inv_frame:
  assumes "world_inv sim A w" and "h_blocks h' = h_blocks (w_heap w)" and "heap_inv h'"
    and "h_out_of_memory h' = h_out_of_memory (w_heap w)"
  shows "world_inv sim A (w\<lparr>w_heap := h'\<rparr>)"
  using assms unfolding world_inv_def sim_inv_def entry_ok_def live_def inbox_ok_def by simp

lemma world_inv_new_block:
  assumes "world_inv sim A w" and "h_blocks h' = (h_blocks (w_heap w))(a \<mapsto> b)" and "heap_inv h'"
    and "h_out_of_memory h' = h_out_of_memory (w_heap w)" and "a \<notin> live (w_heap w)"
  shows "world_inv sim (insert a A) (w\<lparr>w_heap := h'\<rparr>)"
proof -
  have s: "sim_inv A (w_heap w) (w_simulator w)" using assms(1) by (simp add: world_inv_def)
  have a: "a \<notin> sim_owned (w_simulator w)" "a \<notin> A"
    using sim_owned_live [OF s] assms(5) s by (auto simp: sim_inv_def)
  have "entry_ok h' (sim_entry (w_simulator w) k)" for k
  proof -
    have ok: "entry_ok (w_heap w) (sim_entry (w_simulator w) k)" using s by (simp add: sim_inv_def)
    have "pe_packet_data (sim_entry (w_simulator w) k) \<noteq> Some a" using a(1) unfolding sim_owned_def by blast
    with ok show ?thesis unfolding entry_ok_def assms(2) by auto
  qed
  moreover have "A \<subseteq> live h'" using s assms(2) unfolding sim_inv_def live_def by auto
  moreover have "a \<in> live h'" using assms(2) by (simp add: live_def)
  ultimately have "sim_inv (insert a A) h' (w_simulator w)"
    using s a assms(3) unfolding sim_inv_def by blast
  with assms(1,4) show ?thesis by (simp add: world_inv_def inbox_ok_def)
qed

text \<open>Freeing one block that the caller owns.\<close>

lemma runs_w_free:
  assumes "world_inv sim (insert p A) w" and "p \<notin> A"
  shows "runs (w_free (Some p) w) (\<lambda>w'. world_inv sim A w' \<and> frame A w w')"
proof -
  have "p \<in> live (w_heap w)" using assms(1) by (rule world_inv_live) simp
  moreover have "insert p A - {p} = A" using assms(2) by simp
  moreover have "world_inv sim (insert p A - set [p]) (w\<lparr>w_heap := release [p] (w_heap w)\<rparr>)"
    by (rule world_inv_release [OF assms(1)]) simp
  moreover have "frame A w (w\<lparr>w_heap := release [p] (w_heap w)\<rparr>)"
    by (rule frame_release) (use assms(2) in simp)
  ultimately show ?thesis by (simp add: w_free_live)
qed

text \<open>The same, but for datagrams that were received.\<close>

definition frame_rx :: "nat set \<Rightarrow> world \<Rightarrow> world \<Rightarrow> bool" where
  "frame_rx B w w' \<longleftrightarrow> frame B w (w'\<lparr>w_inbox := w_inbox w\<rparr>)"

lemma frame_rx_refl [simp]: "frame_rx B w w"
  by (simp add: frame_rx_def)

lemma frame_rx_trans [trans]: "frame_rx B w w' \<Longrightarrow> frame_rx B w' w'' \<Longrightarrow> frame_rx B w w''"
  by (simp add: frame_rx_def frame_def)

lemma frame_rx_mono: "frame_rx A w w' \<Longrightarrow> B \<subseteq> A \<Longrightarrow> frame_rx B w w'"
  unfolding frame_rx_def by (rule frame_mono)

lemma frame_rx_frame: "frame B w w' \<Longrightarrow> frame_rx B w w'"
  by (simp add: frame_rx_def frame_def)

lemma frame_rx_inbox [simp]: "frame_rx B w (w'\<lparr>w_inbox := i\<rparr>) = frame_rx B w w'"
  by (simp add: frame_rx_def)

lemma frame_rx_packet: "frame_rx B w w' \<Longrightarrow> p \<in> B \<Longrightarrow> w_packet p w' = w_packet p w"
  by (simp add: frame_rx_def frame_def w_packet_def)

text \<open>Only what the blocks of \<open>B\<close> hold is the same: the clock, the datagrams and everything else may have changed.\<close>

definition untouched :: "nat set \<Rightarrow> world \<Rightarrow> world \<Rightarrow> bool" where
  "untouched B w w' \<longleftrightarrow> (\<forall>p \<in> B. h_blocks (w_heap w') p = h_blocks (w_heap w) p)"

lemma untouched_packet: "untouched B w w' \<Longrightarrow> p \<in> B \<Longrightarrow> w_packet p w' = w_packet p w"
  by (simp add: untouched_def w_packet_def)

lemma frame_rx_untouched: "frame_rx B w w' \<Longrightarrow> A \<subseteq> B \<Longrightarrow> untouched A w w'"
  by (auto simp: frame_rx_def frame_def untouched_def)

section \<open>Reading a datagram\<close>

text \<open>\<open>packet_read_ok\<close> in terms of the world: the packet's block is new, and nobody else's.\<close>

definition packet_received :: "bool list \<Rightarrow> bool \<Rightarrow> nat set \<Rightarrow> nat option \<Rightarrow> world \<Rightarrow> bool" where
  "packet_received allowed sim A ptr w' \<longleftrightarrow>
     (case ptr of
        None \<Rightarrow> world_inv sim A w'
      | Some p \<Rightarrow> p \<notin> A \<and> world_inv sim (insert p A) w' \<and> (\<exists>packet. w_packet p w' = Some packet
          \<and> packet_wf packet \<and> allowed ! unat (packet_type packet)))"

lemma read_packet_received:
  assumes inv: "world_inv sim A w" and ok: "packet_read_ok allowed rp (w_heap w) (ptr, s, rp', h')"
  shows "packet_received allowed sim A ptr (w\<lparr>w_heap := h'\<rparr>)" and "frame A w (w\<lparr>w_heap := h'\<rparr>)"
    and "\<exists>type. replay_step rp type s False rp'"
proof -
  show "\<exists>type. replay_step rp type s False rp'" using ok by (simp add: packet_read_ok_def)
  have "packet_received allowed sim A ptr (w\<lparr>w_heap := h'\<rparr>) \<and> frame A w (w\<lparr>w_heap := h'\<rparr>)"
  proof (cases ptr)
    case None
    then show ?thesis
      using ok world_inv_frame [OF inv, of h']
      by (auto simp: packet_received_def packet_read_ok_def frame_def)
  next
    case (Some a)
    with ok obtain packet where a: "a \<notin> live (w_heap w)" "packet_wf packet" "allowed ! unat (packet_type packet)"
      "h_blocks h' = (h_blocks (w_heap w))(a \<mapsto> Packet_block packet)" "heap_inv h'"
      "h_out_of_memory h' = h_out_of_memory (w_heap w)"
      by (auto simp: packet_read_ok_def)
    have "a \<notin> A" using a(1) world_inv_live [OF inv] by blast
    moreover from this have "frame A w (w\<lparr>w_heap := h'\<rparr>)" by (auto simp: frame_def a(4))
    ultimately show ?thesis
      using world_inv_new_block [OF inv a(4,5,6,1)] a(2,3,4) Some
      by (simp add: packet_received_def w_packet_def)
  qed
  then show "packet_received allowed sim A ptr (w\<lparr>w_heap := h'\<rparr>)" "frame A w (w\<lparr>w_heap := h'\<rparr>)" by auto
qed

text \<open>The datagram's buffer is freed after the packet was read from it.\<close>

lemma runs_free_buffer:
  assumes rx: "packet_received allowed sim (insert b A) ptr w" and b: "b \<notin> A"
  shows "runs (w_free (Some b) w) (\<lambda>w'. packet_received allowed sim A ptr w' \<and> frame A w w')"
proof (cases ptr)
  case None
  with rx b runs_w_free [of sim b A w] show ?thesis by (simp add: packet_received_def)
next
  case (Some p)
  with rx obtain packet where p: "p \<noteq> b" "p \<notin> A" "world_inv sim (insert b (insert p A)) w"
    "w_packet p w = Some packet" "packet_wf packet" "allowed ! unat (packet_type packet)"
    by (auto simp: packet_received_def insert_commute)
  then have "b \<notin> insert p A" using b by simp
  from runs_w_free [OF p(3) this] show ?thesis
    by (rule runs_mono) (use p Some in \<open>auto simp: packet_received_def frame_packet intro: frame_mono\<close>)
qed

lemma packet_received_inv: "packet_received allowed sim A ptr w \<Longrightarrow> world_inv sim A w"
  by (auto simp: packet_received_def split: option.splits intro: world_inv_mono)

lemma replay_inv_reset_ex [simp]: "Ex (replay_inv netcode_replay_protection_reset)"
  using replay_inv_reset by blast

section \<open>A queue of received payloads\<close>

definition queue_ptrs :: "packet_queue \<Rightarrow> nat set" where
  "queue_ptrs q = fst ` set (queue_contents q)"

definition payload_at :: "nat \<Rightarrow> world \<Rightarrow> bool" where
  "payload_at p w \<longleftrightarrow> (\<exists>payload. w_packet p w = Some (CONNECTION_PAYLOAD_PACKET payload)
     \<and> length payload \<le> NETCODE_MAX_PAYLOAD_BYTES)"

definition receive_queue_ok :: "packet_queue \<Rightarrow> world \<Rightarrow> bool" where
  "receive_queue_ok q w \<longleftrightarrow> queue_inv q \<and> distinct (map fst (queue_contents q)) \<and> (\<forall>p \<in> queue_ptrs q. payload_at p w)"

text \<open>The queue holds its blocks, apart from those in \<open>B\<close>.\<close>

definition queue_held :: "bool \<Rightarrow> nat set \<Rightarrow> packet_queue \<Rightarrow> world \<Rightarrow> bool" where
  "queue_held sim B q w \<longleftrightarrow> world_inv sim (B \<union> queue_ptrs q) w \<and> B \<inter> queue_ptrs q = {} \<and> receive_queue_ok q w"

lemma queue_ptrs_init [simp]: "queue_ptrs netcode_packet_queue_init = {}"
  by (simp add: queue_ptrs_def)

lemma receive_queue_init [simp]: "receive_queue_ok netcode_packet_queue_init w"
  by (simp add: receive_queue_ok_def)

lemma payload_at_frame: "frame A w w' \<Longrightarrow> p \<in> A \<Longrightarrow> payload_at p w \<Longrightarrow> payload_at p w'"
  by (simp add: payload_at_def frame_packet)

lemma receive_queue_frame:
  "receive_queue_ok q w \<Longrightarrow> frame A w w' \<Longrightarrow> queue_ptrs q \<subseteq> A \<Longrightarrow> receive_queue_ok q w'"
  unfolding receive_queue_ok_def using payload_at_frame by blast

lemma queue_held_frame:
  "queue_held sim B q w \<Longrightarrow> world_inv sim (B \<union> queue_ptrs q) w' \<Longrightarrow> frame (B \<union> queue_ptrs q) w w'
   \<Longrightarrow> queue_held sim B q w'"
  unfolding queue_held_def using receive_queue_frame by blast

lemma runs_queue_push:
  assumes held: "queue_held sim B q w" and inv: "world_inv sim (insert p (B \<union> queue_ptrs q)) w"
    and p: "p \<notin> B \<union> queue_ptrs q" "payload_at p w"
  shows "runs (queue_push q p s w) (\<lambda>(q', w'). queue_held sim B q' w' \<and> frame B w w')"
proof (cases "pq_num_packets q = NETCODE_PACKET_QUEUE_SIZE")
  case True
  have "runs (w_free (Some p) w) (\<lambda>w'. world_inv sim (B \<union> queue_ptrs q) w' \<and> frame (B \<union> queue_ptrs q) w w')"
    by (rule runs_w_free [OF inv p(1)])
  then obtain w' where w': "w_free (Some p) w = Some w'" "world_inv sim (B \<union> queue_ptrs q) w'"
    "frame (B \<union> queue_ptrs q) w w'" by (auto elim: runsE)
  then obtain h where h: "netcode_default_free_function (Some p) (w_heap w) = Some h" "w' = w\<lparr>w_heap := h\<rparr>"
    by (auto simp: w_free_def split: bind_splits)
  have "queue_held sim B q w'" by (rule queue_held_frame [OF held w'(2,3)])
  moreover have "frame B w w'" using w'(3) by (rule frame_mono) simp
  ultimately show ?thesis using True h
    by (simp add: queue_push_def netcode_packet_queue_push_def)
next
  case False
  let ?q = "queue_append q p s"
  have q: "queue_inv q" "pq_num_packets q < 256" "distinct (map fst (queue_contents q))"
    "\<forall>r \<in> queue_ptrs q. payload_at r w"
    using held False by (auto simp: queue_held_def receive_queue_ok_def queue_inv_def)
  note law = queue_append_law [OF q(1,2), of p s]
  have ptrs: "queue_ptrs ?q = insert p (queue_ptrs q)" by (auto simp: queue_ptrs_def law(2))
  have "p \<notin> fst ` set (queue_contents q)" using p(1) by (simp add: queue_ptrs_def)
  then have "receive_queue_ok ?q w" using q p law unfolding receive_queue_ok_def ptrs by auto
  then have "queue_held sim B ?q w"
    using held inv p(1) unfolding queue_held_def ptrs by auto
  then show ?thesis using False q(1)
    by (simp add: queue_push_def netcode_packet_queue_push_def queue_append_def)
qed

lemma runs_queue_empty_out:
  assumes "queue_held sim B q w"
  shows "runs (queue_empty_out q w) (\<lambda>(q', w'). q' = netcode_packet_queue_init \<and> world_inv sim B w' \<and> frame B w w')"
proof -
  let ?ps = "map fst (queue_contents q)"
  have inv: "world_inv sim (B \<union> set ?ps) w" and dis: "set ?ps \<inter> B = {}"
    using assms by (auto simp: queue_held_def queue_ptrs_def)
  have "fst ` set (queue_contents q) \<subseteq> live (w_heap w)" using world_inv_live [OF inv] by auto
  then have "queue_empty_out q w = Some (netcode_packet_queue_init, w\<lparr>w_heap := release ?ps (w_heap w)\<rparr>)"
    using assms by (intro queue_empty_out_ok) (auto simp: queue_held_def receive_queue_ok_def)
  moreover have "world_inv sim B (w\<lparr>w_heap := release ?ps (w_heap w)\<rparr>)"
  proof -
    have "B \<union> set ?ps - set ?ps = B" using dis by blast
    with world_inv_release [OF inv, of ?ps] show ?thesis by simp
  qed
  ultimately show ?thesis using frame_release [OF dis] by simp
qed

lemma queue_popped:
  assumes held: "queue_held sim B q w" and pop: "netcode_packet_queue_pop q = (r, s, q')"
  shows "case r of None \<Rightarrow> q' = q
    | Some p \<Rightarrow> queue_held sim (insert p B) q' w \<and> payload_at p w \<and> p \<notin> B \<and> s \<noteq> None"
proof -
  have inv: "queue_inv q" using held by (simp add: queue_held_def receive_queue_ok_def)
  show ?thesis
  proof (cases "queue_contents q")
    case Nil
    with queue_pop_law [OF inv pop] show ?thesis by simp
  next
    case (Cons x xs)
    obtain p t where x: "x = (p, t)" by fastforce
    have law: "r = Some p" "s = Some t" "queue_contents q' = xs" "queue_inv q'"
      using queue_pop_law [OF inv pop] Cons x by auto
    have ptrs: "queue_ptrs q = insert p (queue_ptrs q')" using Cons x law(3) by (simp add: queue_ptrs_def)
    have "p \<notin> queue_ptrs q'" "distinct (map fst (queue_contents q'))"
      using held Cons x law(3) by (auto simp: queue_held_def receive_queue_ok_def queue_ptrs_def)
    then show ?thesis using held law(1,2,4) unfolding queue_held_def receive_queue_ok_def ptrs by auto
  qed
qed

text \<open>A packet of the loopback: its block is allocated and filled.\<close>

lemma payload_block_fresh:
  assumes inv: "world_inv sim A w" and n: "length data \<le> NETCODE_MAX_PAYLOAD_BYTES"
    and alloc: "netcode_create_payload_packet (int (length data)) (w_heap w) = Some (Some p, h)"
  defines "w' \<equiv> w\<lparr>w_heap := heap_store p (Packet_block (CONNECTION_PAYLOAD_PACKET data)) h\<rparr>"
  shows "world_inv sim (insert p A) w'" and "p \<notin> A" and "payload_at p w'" and "frame A w w'"
proof -
  have heap: "heap_inv (w_heap w)" using inv by (simp add: world_inv_def sim_inv_def)
  have h: "p = h_next (w_heap w)" "h_next h = h_next (w_heap w) + 1"
    "h_blocks (heap_store p (Packet_block (CONNECTION_PAYLOAD_PACKET data)) h)
      = (h_blocks (w_heap w))(p \<mapsto> Packet_block (CONNECTION_PAYLOAD_PACKET data))"
    "h_out_of_memory h = h_out_of_memory (w_heap w)"
    using alloc n
    by (auto simp: netcode_create_payload_packet_def netcode_default_allocate_function_def heap_store_def
        split: if_splits)
  have p: "p \<notin> live (w_heap w)" using fresh_not_live [OF heap] h(1) by simp
  then show "p \<notin> A" using world_inv_live [OF inv] by blast
  then show "frame A w w'" unfolding frame_def w'_def by (auto simp: h(3))
  have "heap_inv (heap_store p (Packet_block (CONNECTION_PAYLOAD_PACKET data)) h)"
    using heap h(1,2) unfolding heap_inv_def live_def h(3) by (auto simp: heap_store_def less_Suc_eq)
  then show "world_inv sim (insert p A) w'"
    unfolding w'_def
    by (intro world_inv_new_block [OF inv h(3)]) (use h(4) p in \<open>auto simp: heap_store_def\<close>)
  show "payload_at p w'" using n by (simp add: payload_at_def w_packet_def w'_def h(3))
qed

lemma world_inv_alloc_failed:
  assumes inv: "world_inv sim A w" and n: "length data \<le> NETCODE_MAX_PAYLOAD_BYTES"
    and alloc: "netcode_create_payload_packet (int (length data)) (w_heap w) = Some (None, h)"
  shows "world_inv sim A (w\<lparr>w_heap := h\<rparr>)" and "frame A w (w\<lparr>w_heap := h\<rparr>)"
proof -
  have h: "h_blocks h = h_blocks (w_heap w)" "h_out_of_memory h = h_out_of_memory (w_heap w)" "heap_inv h"
    using alloc n inv
    by (auto simp: netcode_create_payload_packet_def netcode_default_allocate_function_def world_inv_def sim_inv_def
        heap_inv_def live_def less_Suc_eq split: if_splits)
  then show "world_inv sim A (w\<lparr>w_heap := h\<rparr>)" by (intro world_inv_frame [OF inv]) auto
  show "frame A w (w\<lparr>w_heap := h\<rparr>)" by (simp add: frame_def h)
qed

lemma create_payload_runs:
  "length data \<le> NETCODE_MAX_PAYLOAD_BYTES \<Longrightarrow>
   \<exists>ptr h'. netcode_create_payload_packet (int (length data)) h = Some (ptr, h')"
  by (auto simp: netcode_create_payload_packet_def netcode_default_allocate_function_def)

section \<open>Transports\<close>

lemma address_ok_type: "address_ok a \<Longrightarrow> address_type a \<noteq> 0 \<and> (address_type a = 2 \<or> address_type a = 1)"
  by (cases a) (auto simp: address_ok_def)

text \<open>
  What sending a datagram promises: it does not fail, it touches nobody's blocks, and the world is as sound as before. The
  sender has to be ready: the socket open, or the simulated address a proper one.
\<close>

locale transport =
  fixes send :: "netcode_address \<Rightarrow> bytes \<Rightarrow> world \<Rightarrow> world option" and sim :: bool and ready :: bool
  assumes send_ok: "ready \<Longrightarrow> world_inv sim A w \<Longrightarrow> address_ok to_addr \<Longrightarrow> 0 < length data
    \<Longrightarrow> length data \<le> NETCODE_MAX_PACKET_BYTES \<Longrightarrow>
    runs (send to_addr data w) (\<lambda>w'. world_inv sim A w' \<and> world_step A w w')"
begin

text \<open>A packet that fits is written and sent.\<close>

lemma write_and_send:
  assumes "ready" and "world_inv sim A w" and "address_ok to_addr" and laws: "aead_laws cr"
    and wf: "packet_wf packet" and key: "length key = NETCODE_KEY_BYTES"
    and fits: "is_request packet \<or> wire_bytes packet s \<le> NETCODE_MAX_PACKET_BYTES"
  shows "runs (netcode_write_packet cr packet NETCODE_MAX_PACKET_BYTES s key pid)
    (\<lambda>r. length (case r of NETCODE_OK b \<Rightarrow> b | NETCODE_ERROR \<Rightarrow> []) \<le> NETCODE_MAX_PACKET_BYTES
       \<and> runs (send to_addr (case r of NETCODE_OK b \<Rightarrow> b | NETCODE_ERROR \<Rightarrow> []) w)
           (\<lambda>w'. world_inv sim A w' \<and> world_step A w w'))"
proof (cases "is_request packet")
  case True
  then obtain rq where rq: "packet = CONNECTION_REQUEST_PACKET rq" by (cases packet) (auto simp: is_request_def)
  with wf obtain b where "netcode_write_packet cr packet NETCODE_MAX_PACKET_BYTES s key pid = Some (NETCODE_OK b)"
    "length b = 1062"
    by (auto simp: netcode_write_packet_def write_connection_request_packet_def wire_simps)
  with assms(1-3) show ?thesis by (simp add: send_ok)
next
  case False
  show ?thesis
    by (rule write_encrypted_packet_cases [OF laws wf False key, of s pid NETCODE_MAX_PACKET_BYTES])
      (use assms(1-3) fits False in \<open>simp add: send_ok wire_bytes_def\<close>)
qed

end

interpretation socket_transport: transport "netcode_socket_send_packet s" sim "so_handle s \<noteq> 0"
  for s sim
  by unfold_locales (auto simp: netcode_socket_send_packet_def runs_simps address_ok_type)

interpretation simulator_transport: transport "netcode_network_simulator_send_packet from_addr" True
  "address_ok from_addr" for from_addr
  by unfold_locales (simp add: runs_sim_send address_ok_type)

text \<open>The small packets always fit.\<close>

lemma small_packet_fits: "packet_data_bytes packet \<le> 1194 \<Longrightarrow> wire_bytes packet s \<le> NETCODE_MAX_PACKET_BYTES"
  using bytes_required_spec(2) [of s] by (simp add: wire_bytes_def)

lemma socket_destroyed:
  assumes "w_initialized w"
  obtains socket cs where "netcode_socket_destroy s w = Some (socket, w\<lparr>w_closed := cs\<rparr>)"
proof (cases "so_handle s \<noteq> 0")
  case False
  then show ?thesis using that [of _ "w_closed w"] assms by (simp add: netcode_socket_destroy_def)
qed (use that assms in \<open>simp add: netcode_socket_destroy_def\<close>)

section \<open>Runs of steps\<close>

locale step_system =
  fixes step :: "'s \<Rightarrow> 's \<Rightarrow> bool" and inv :: "'s \<Rightarrow> bool"
  assumes step_inv: "inv s \<Longrightarrow> step s s' \<Longrightarrow> inv s'"
begin

lemma run_inv: "inv s \<Longrightarrow> step\<^sup>*\<^sup>* s s' \<Longrightarrow> inv s'"
  by (rotate_tac, induction rule: rtranclp_induct) (auto intro: step_inv)

end

end
