(* ===== verification/Client.thy ===== *)
theory Client
  imports Simulator
begin

text \<open>
  The client: \<^verbatim>\<open>struct netcode_client_t\<close> and its functions, on the state (client, world). The states are a datatype
  ordered by the numbers that \<^verbatim>\<open>c/netcode.h\<close> gives them (negative: an error, 0: disconnected, positive: connecting or
  connected), as the code compares them. The two callbacks are given by the context they were registered with, \<open>None\<close> being a
  null function pointer. The receive loop on a socket ends when the operating system has no more datagrams; its fuel
  is one more than their number.
\<close>

section \<open>States\<close>

datatype client_state =
    NETCODE_CLIENT_STATE_CONNECT_TOKEN_EXPIRED
  | NETCODE_CLIENT_STATE_INVALID_CONNECT_TOKEN
  | NETCODE_CLIENT_STATE_CONNECTION_TIMED_OUT
  | NETCODE_CLIENT_STATE_CONNECTION_RESPONSE_TIMED_OUT
  | NETCODE_CLIENT_STATE_CONNECTION_REQUEST_TIMED_OUT
  | NETCODE_CLIENT_STATE_CONNECTION_DENIED
  | NETCODE_CLIENT_STATE_DISCONNECTED
  | NETCODE_CLIENT_STATE_SENDING_CONNECTION_REQUEST
  | NETCODE_CLIENT_STATE_SENDING_CONNECTION_RESPONSE
  | NETCODE_CLIENT_STATE_CONNECTED

fun client_state_code :: "client_state \<Rightarrow> int" where
  "client_state_code NETCODE_CLIENT_STATE_CONNECT_TOKEN_EXPIRED = - 6"
| "client_state_code NETCODE_CLIENT_STATE_INVALID_CONNECT_TOKEN = - 5"
| "client_state_code NETCODE_CLIENT_STATE_CONNECTION_TIMED_OUT = - 4"
| "client_state_code NETCODE_CLIENT_STATE_CONNECTION_RESPONSE_TIMED_OUT = - 3"
| "client_state_code NETCODE_CLIENT_STATE_CONNECTION_REQUEST_TIMED_OUT = - 2"
| "client_state_code NETCODE_CLIENT_STATE_CONNECTION_DENIED = - 1"
| "client_state_code NETCODE_CLIENT_STATE_DISCONNECTED = 0"
| "client_state_code NETCODE_CLIENT_STATE_SENDING_CONNECTION_REQUEST = 1"
| "client_state_code NETCODE_CLIENT_STATE_SENDING_CONNECTION_RESPONSE = 2"
| "client_state_code NETCODE_CLIENT_STATE_CONNECTED = 3"

lemma client_state_code_inj: "client_state_code s = client_state_code t \<Longrightarrow> s = t"
  by (cases s; cases t; simp)

instantiation client_state :: linorder
begin

definition less_eq_client_state :: "client_state \<Rightarrow> client_state \<Rightarrow> bool" where
  "less_eq_client_state s t \<longleftrightarrow> client_state_code s \<le> client_state_code t"

definition less_client_state :: "client_state \<Rightarrow> client_state \<Rightarrow> bool" where
  "less_client_state s t \<longleftrightarrow> client_state_code s < client_state_code t"

instance
  by intro_classes (auto simp: less_eq_client_state_def less_client_state_def client_state_code_inj)

end

lemmas client_state_order = less_eq_client_state_def less_client_state_def

fun netcode_client_state_name :: "client_state \<Rightarrow> string" where
  "netcode_client_state_name NETCODE_CLIENT_STATE_CONNECT_TOKEN_EXPIRED = ''connect token expired''"
| "netcode_client_state_name NETCODE_CLIENT_STATE_INVALID_CONNECT_TOKEN = ''invalid connect token''"
| "netcode_client_state_name NETCODE_CLIENT_STATE_CONNECTION_TIMED_OUT = ''connection timed out''"
| "netcode_client_state_name NETCODE_CLIENT_STATE_CONNECTION_REQUEST_TIMED_OUT = ''connection request timed out''"
| "netcode_client_state_name NETCODE_CLIENT_STATE_CONNECTION_RESPONSE_TIMED_OUT = ''connection response timed out''"
| "netcode_client_state_name NETCODE_CLIENT_STATE_CONNECTION_DENIED = ''connection denied''"
| "netcode_client_state_name NETCODE_CLIENT_STATE_DISCONNECTED = ''disconnected''"
| "netcode_client_state_name NETCODE_CLIENT_STATE_SENDING_CONNECTION_REQUEST = ''sending connection request''"
| "netcode_client_state_name NETCODE_CLIENT_STATE_SENDING_CONNECTION_RESPONSE = ''sending connection response''"
| "netcode_client_state_name NETCODE_CLIENT_STATE_CONNECTED = ''connected''"

section \<open>The struct\<close>

record netcode_context =
  cx_write_packet_key :: bytes
  cx_read_packet_key :: bytes

definition zero_context :: netcode_context where
  "zero_context = \<lparr>cx_write_packet_key = replicate NETCODE_KEY_BYTES 0, cx_read_packet_key = replicate NETCODE_KEY_BYTES 0\<rparr>"

record netcode_client =
  cl_state :: client_state
  cl_time :: dbl
  cl_connect_start_time :: dbl
  cl_last_packet_send_time :: dbl
  cl_last_packet_receive_time :: dbl
  cl_should_disconnect :: bool
  cl_should_disconnect_state :: client_state
  cl_sequence :: u64
  cl_client_index :: int
  cl_max_clients :: int
  cl_server_address_index :: int
  cl_address :: netcode_address
  cl_server_address :: netcode_address
  cl_connect_token :: connect_token
  cl_network_simulator :: bool
  cl_socket :: netcode_socket
  cl_context :: netcode_context
  cl_replay_protection :: replay_protection
  cl_packet_receive_queue :: packet_queue
  cl_challenge_token_sequence :: u64
  cl_challenge_token_data :: bytes
  cl_state_change_callback :: "nat option"
  cl_loopback :: bool
  cl_send_loopback_packet_callback :: "nat option"

section \<open>Creation\<close>

definition new_client :: "netcode_address \<Rightarrow> netcode_socket \<Rightarrow> dbl \<Rightarrow> bool \<Rightarrow> netcode_client" where
  "new_client address socket time network_simulator = \<lparr>
     cl_state = NETCODE_CLIENT_STATE_DISCONNECTED,
     cl_time = time,
     cl_connect_start_time = 0,
     cl_last_packet_send_time = - 1000,
     cl_last_packet_receive_time = - 1000,
     cl_should_disconnect = False,
     cl_should_disconnect_state = NETCODE_CLIENT_STATE_DISCONNECTED,
     cl_sequence = 0,
     cl_client_index = 0,
     cl_max_clients = 0,
     cl_server_address_index = 0,
     cl_address = (if network_simulator then address else so_address socket),
     cl_server_address = zero_address,
     cl_connect_token = zero_connect_token,
     cl_network_simulator = network_simulator,
     cl_socket = socket,
     cl_context = zero_context,
     cl_replay_protection = netcode_replay_protection_reset,
     cl_packet_receive_queue = netcode_packet_queue_init,
     cl_challenge_token_sequence = 0,
     cl_challenge_token_data = replicate NETCODE_CHALLENGE_TOKEN_BYTES 0,
     cl_state_change_callback = None,
     cl_loopback = False,
     cl_send_loopback_packet_callback = None\<rparr>"

text \<open>The result is the struct's block and its contents, or \<open>None\<close> for \<^verbatim>\<open>NULL\<close>.\<close>

definition netcode_client_create_internal ::
    "inet \<Rightarrow> os_calls \<Rightarrow> string \<Rightarrow> dbl \<Rightarrow> bool \<Rightarrow> world \<Rightarrow> ((nat \<times> netcode_client) option \<times> world) option" where
  "netcode_client_create_internal inet os address_string time network_simulator w =
     do { c_assert (w_initialized w);
          (case netcode_parse_address inet address_string of
             NETCODE_ERROR \<Rightarrow> Some (None, w)
           | NETCODE_OK address \<Rightarrow>
               do { (e, socket, w) \<leftarrow>
                      (if network_simulator then Some (NETCODE_SOCKET_ERROR_NONE, zero_socket, w)
                       else netcode_socket_create os zero_socket address w);
                    if e \<noteq> NETCODE_SOCKET_ERROR_NONE then Some (None, w)
                    else if network_simulator \<and> address_port address = 0 then Some (None, w)
                    else (case w_alloc Struct_block w of
                        (None, w) \<Rightarrow> do { (socket, w) \<leftarrow> netcode_socket_destroy socket w; Some (None, w) }
                      | (Some ptr, w) \<Rightarrow> Some (Some (ptr, new_client address socket time network_simulator), w)) }) }"

definition netcode_client_create ::
    "inet \<Rightarrow> os_calls \<Rightarrow> string \<Rightarrow> dbl \<Rightarrow> world \<Rightarrow> ((nat \<times> netcode_client) option \<times> world) option" where
  "netcode_client_create inet os address time w = netcode_client_create_internal inet os address time False w"

section \<open>State changes and resets\<close>

definition netcode_client_set_state :: "netcode_client \<Rightarrow> client_state \<Rightarrow> world \<Rightarrow> netcode_client \<times> world" where
  "netcode_client_set_state client client_state w =
     (let w = (case cl_state_change_callback client of
            None \<Rightarrow> w
          | Some context \<Rightarrow>
              w_log (Client_state_change context (client_state_code (cl_state client)) (client_state_code client_state)) w)
      in (client\<lparr>cl_state := client_state\<rparr>, w))"

definition netcode_client_reset_before_next_connect :: "netcode_client \<Rightarrow> netcode_client" where
  "netcode_client_reset_before_next_connect client = client\<lparr>
     cl_connect_start_time := cl_time client,
     cl_last_packet_send_time := cl_time client - 1,
     cl_last_packet_receive_time := cl_time client,
     cl_should_disconnect := False,
     cl_should_disconnect_state := NETCODE_CLIENT_STATE_DISCONNECTED,
     cl_challenge_token_sequence := 0,
     cl_challenge_token_data := replicate NETCODE_CHALLENGE_TOKEN_BYTES 0,
     cl_replay_protection := netcode_replay_protection_reset\<rparr>"

definition netcode_client_reset_connection_data ::
    "netcode_client \<Rightarrow> client_state \<Rightarrow> world \<Rightarrow> (netcode_client \<times> world) option" where
  "netcode_client_reset_connection_data client client_state w =
     (let client = client\<lparr>
            cl_sequence := 0,
            cl_loopback := False,
            cl_client_index := 0,
            cl_max_clients := 0,
            cl_connect_start_time := 0,
            cl_server_address_index := 0,
            cl_server_address := zero_address,
            cl_connect_token := zero_connect_token,
            cl_context := zero_context\<rparr>;
          (client, w) = netcode_client_set_state client client_state w;
          client = netcode_client_reset_before_next_connect client
      in do { (queue, w) \<leftarrow> queue_empty_out (cl_packet_receive_queue client) w;
              Some (client\<lparr>cl_packet_receive_queue := queue\<rparr>, w) })"

section \<open>Sending\<close>

definition client_transmit :: "netcode_client \<Rightarrow> bytes \<Rightarrow> world \<Rightarrow> world option" where
  "client_transmit client packet_data w =
     (if cl_network_simulator client
      then netcode_network_simulator_send_packet (cl_address client) (cl_server_address client) packet_data w
      else netcode_socket_send_packet (cl_socket client) (cl_server_address client) packet_data w)"

text \<open>A failed encryption is 0 bytes (\<^verbatim>\<open>NETCODE_ERROR\<close>), which the transports refuse.\<close>

definition netcode_client_send_packet_to_server_internal ::
    "crypto \<Rightarrow> netcode_client \<Rightarrow> netcode_packet \<Rightarrow> world \<Rightarrow> (netcode_client \<times> world) option" where
  "netcode_client_send_packet_to_server_internal cr client packet w =
     do { c_assert (\<not> cl_loopback client);
          r \<leftarrow> netcode_write_packet cr packet NETCODE_MAX_PACKET_BYTES (cl_sequence client)
                 (cx_write_packet_key (cl_context client)) (ct_protocol_id (cl_connect_token client));
          let client = client\<lparr>cl_sequence := cl_sequence client + 1\<rparr>;
          let packet_data = (case r of NETCODE_OK b \<Rightarrow> b | NETCODE_ERROR \<Rightarrow> []);
          c_assert (length packet_data \<le> NETCODE_MAX_PACKET_BYTES);
          w \<leftarrow> client_transmit client packet_data w;
          Some (client\<lparr>cl_last_packet_send_time := cl_time client\<rparr>, w) }"

definition client_request_packet :: "netcode_client \<Rightarrow> netcode_packet" where
  "client_request_packet client = CONNECTION_REQUEST_PACKET \<lparr>
     rq_version_info = NETCODE_VERSION_INFO,
     rq_protocol_id = ct_protocol_id (cl_connect_token client),
     rq_connect_token_expire_timestamp = ct_expire_timestamp (cl_connect_token client),
     rq_connect_token_sequence = ct_sequence (cl_connect_token client),
     rq_connect_token_data = ct_private_data (cl_connect_token client)\<rparr>"

definition netcode_client_send_packets ::
    "crypto \<Rightarrow> netcode_client \<Rightarrow> world \<Rightarrow> (netcode_client \<times> world) option" where
  "netcode_client_send_packets cr client w =
     do { c_assert (\<not> cl_loopback client);
          (case cl_state client of
             NETCODE_CLIENT_STATE_SENDING_CONNECTION_REQUEST \<Rightarrow>
               if cl_last_packet_send_time client + 1 / NETCODE_PACKET_SEND_RATE \<ge> cl_time client then Some (client, w)
               else netcode_client_send_packet_to_server_internal cr client (client_request_packet client) w
           | NETCODE_CLIENT_STATE_SENDING_CONNECTION_RESPONSE \<Rightarrow>
               if cl_last_packet_send_time client + 1 / NETCODE_PACKET_SEND_RATE \<ge> cl_time client then Some (client, w)
               else netcode_client_send_packet_to_server_internal cr client
                      (CONNECTION_RESPONSE_PACKET (cl_challenge_token_sequence client) (cl_challenge_token_data client)) w
           | NETCODE_CLIENT_STATE_CONNECTED \<Rightarrow>
               if cl_last_packet_send_time client + 1 / NETCODE_PACKET_SEND_RATE \<ge> cl_time client then Some (client, w)
               else netcode_client_send_packet_to_server_internal cr client (CONNECTION_KEEP_ALIVE_PACKET 0 0) w
           | _ \<Rightarrow> Some (client, w)) }"

section \<open>Disconnecting and connecting\<close>

fun client_send_disconnect_packets :: "crypto \<Rightarrow> nat \<Rightarrow> netcode_client \<Rightarrow> world \<Rightarrow> (netcode_client \<times> world) option" where
  "client_send_disconnect_packets cr 0 client w = Some (client, w)"
| "client_send_disconnect_packets cr (Suc k) client w =
     do { (client, w) \<leftarrow> netcode_client_send_packet_to_server_internal cr client CONNECTION_DISCONNECT_PACKET w;
          client_send_disconnect_packets cr k client w }"

definition netcode_client_disconnect_internal ::
    "crypto \<Rightarrow> netcode_client \<Rightarrow> client_state \<Rightarrow> bool \<Rightarrow> world \<Rightarrow> (netcode_client \<times> world) option" where
  "netcode_client_disconnect_internal cr client destination_state send_disconnect_packets w =
     do { c_assert (\<not> cl_loopback client);
          c_assert (destination_state \<le> NETCODE_CLIENT_STATE_DISCONNECTED);
          if cl_state client \<le> NETCODE_CLIENT_STATE_DISCONNECTED \<or> cl_state client = destination_state
          then Some (client, w)
          else do {
            (client, w) \<leftarrow>
              (if \<not> cl_loopback client \<and> send_disconnect_packets \<and> cl_state client > NETCODE_CLIENT_STATE_DISCONNECTED
               then client_send_disconnect_packets cr NETCODE_NUM_DISCONNECT_PACKETS client w
               else Some (client, w));
            netcode_client_reset_connection_data client destination_state w } }"

definition netcode_client_disconnect :: "crypto \<Rightarrow> netcode_client \<Rightarrow> world \<Rightarrow> (netcode_client \<times> world) option" where
  "netcode_client_disconnect cr client w =
     do { c_assert (\<not> cl_loopback client);
          netcode_client_disconnect_internal cr client NETCODE_CLIENT_STATE_DISCONNECTED True w }"

definition netcode_client_disconnect_loopback :: "netcode_client \<Rightarrow> world \<Rightarrow> (netcode_client \<times> world) option" where
  "netcode_client_disconnect_loopback client w =
     do { c_assert (cl_loopback client);
          netcode_client_reset_connection_data client NETCODE_CLIENT_STATE_DISCONNECTED w }"

definition netcode_client_destroy :: "crypto \<Rightarrow> nat \<Rightarrow> netcode_client \<Rightarrow> world \<Rightarrow> world option" where
  "netcode_client_destroy cr ptr client w =
     do { (client, w) \<leftarrow> (if \<not> cl_loopback client then netcode_client_disconnect cr client w
                         else netcode_client_disconnect_loopback client w);
          (socket, w) \<leftarrow> netcode_socket_destroy (cl_socket client) w;
          (queue, h) \<leftarrow> netcode_packet_queue_clear (cl_packet_receive_queue client) (w_heap w);
          w_free (Some ptr) (w\<lparr>w_heap := h\<rparr>) }"

definition netcode_client_connect :: "crypto \<Rightarrow> netcode_client \<Rightarrow> bytes \<Rightarrow> world \<Rightarrow> (netcode_client \<times> world) option" where
  "netcode_client_connect cr client connect_token w =
     do { c_assert (length connect_token = NETCODE_CONNECT_TOKEN_BYTES);
          (client, w) \<leftarrow> netcode_client_disconnect cr client w;
          (ok, token) \<leftarrow> netcode_read_connect_token connect_token (cl_connect_token client);
          let client = client\<lparr>cl_connect_token := token\<rparr>;
          if \<not> ok then Some (netcode_client_set_state client NETCODE_CLIENT_STATE_INVALID_CONNECT_TOKEN w)
          else do {
            server_address \<leftarrow> array_get (ct_server_addresses token) 0;
            let client = client\<lparr>cl_server_address_index := 0, cl_server_address := server_address,
                  cl_context := \<lparr>cx_write_packet_key = ct_client_to_server_key token,
                                 cx_read_packet_key = ct_server_to_client_key token\<rparr>\<rparr>;
            let client = netcode_client_reset_before_next_connect client;
            Some (netcode_client_set_state client NETCODE_CLIENT_STATE_SENDING_CONNECTION_REQUEST w) } }"

definition netcode_client_connect_to_next_server ::
    "netcode_client \<Rightarrow> world \<Rightarrow> (bool \<times> netcode_client \<times> world) option" where
  "netcode_client_connect_to_next_server client w =
     (if cl_server_address_index client + 1 \<ge> ct_num_server_addresses (cl_connect_token client)
      then Some (False, client, w)
      else do {
        let client = client\<lparr>cl_server_address_index := cl_server_address_index client + 1\<rparr>;
        server_address \<leftarrow> array_get (ct_server_addresses (cl_connect_token client)) (nat (cl_server_address_index client));
        let client = client\<lparr>cl_server_address := server_address\<rparr>;
        let client = netcode_client_reset_before_next_connect client;
        let (client, w) = netcode_client_set_state client NETCODE_CLIENT_STATE_SENDING_CONNECTION_REQUEST w;
        Some (True, client, w) })"

section \<open>Receiving\<close>

text \<open>The \<^verbatim>\<open>switch\<close> on the packet type; \<open>None\<close> inside says that the packet is a payload to be queued.\<close>

definition client_handle_packet ::
    "netcode_client \<Rightarrow> netcode_address \<Rightarrow> netcode_packet \<Rightarrow> world \<Rightarrow> (netcode_client \<times> world) option" where
  "client_handle_packet client from_addr packet w =
     (case packet of
        CONNECTION_DENIED_PACKET \<Rightarrow>
          if (cl_state client = NETCODE_CLIENT_STATE_SENDING_CONNECTION_REQUEST
              \<or> cl_state client = NETCODE_CLIENT_STATE_SENDING_CONNECTION_RESPONSE)
             \<and> netcode_address_equal from_addr (cl_server_address client)
          then Some (client\<lparr>cl_should_disconnect := True,
                 cl_should_disconnect_state := NETCODE_CLIENT_STATE_CONNECTION_DENIED,
                 cl_last_packet_receive_time := cl_time client\<rparr>, w)
          else Some (client, w)
      | CONNECTION_CHALLENGE_PACKET sequence data \<Rightarrow>
          if cl_state client = NETCODE_CLIENT_STATE_SENDING_CONNECTION_REQUEST
             \<and> netcode_address_equal from_addr (cl_server_address client)
          then let client = client\<lparr>cl_challenge_token_sequence := sequence, cl_challenge_token_data := data,
                     cl_last_packet_receive_time := cl_time client\<rparr>
               in Some (netcode_client_set_state client NETCODE_CLIENT_STATE_SENDING_CONNECTION_RESPONSE w)
          else Some (client, w)
      | CONNECTION_KEEP_ALIVE_PACKET client_index max_clients \<Rightarrow>
          if netcode_address_equal from_addr (cl_server_address client) then
            if cl_state client = NETCODE_CLIENT_STATE_CONNECTED
            then Some (client\<lparr>cl_last_packet_receive_time := cl_time client\<rparr>, w)
            else if cl_state client = NETCODE_CLIENT_STATE_SENDING_CONNECTION_RESPONSE
            then let client = client\<lparr>cl_last_packet_receive_time := cl_time client,
                       cl_client_index := client_index, cl_max_clients := max_clients\<rparr>
                 in Some (netcode_client_set_state client NETCODE_CLIENT_STATE_CONNECTED w)
            else Some (client, w)
          else Some (client, w)
      | CONNECTION_PAYLOAD_PACKET _ \<Rightarrow>
          if cl_state client = NETCODE_CLIENT_STATE_CONNECTED
             \<and> netcode_address_equal from_addr (cl_server_address client)
          then None else Some (client, w)
      | CONNECTION_DISCONNECT_PACKET \<Rightarrow>
          if cl_state client = NETCODE_CLIENT_STATE_CONNECTED
             \<and> netcode_address_equal from_addr (cl_server_address client)
          then Some (client\<lparr>cl_should_disconnect := True,
                 cl_should_disconnect_state := NETCODE_CLIENT_STATE_DISCONNECTED,
                 cl_last_packet_receive_time := cl_time client\<rparr>, w)
          else Some (client, w)
      | _ \<Rightarrow> Some (client, w))"

definition netcode_client_process_packet ::
    "netcode_client \<Rightarrow> netcode_address \<Rightarrow> nat \<Rightarrow> u64 \<Rightarrow> world \<Rightarrow> (netcode_client \<times> world) option" where
  "netcode_client_process_packet client from_addr ptr sequence w =
     do { packet \<leftarrow> w_packet ptr w;
          (case client_handle_packet client from_addr packet w of
             None \<Rightarrow> do {
               (queue, w) \<leftarrow> queue_push (cl_packet_receive_queue client) ptr sequence w;
               Some (client\<lparr>cl_packet_receive_queue := queue, cl_last_packet_receive_time := cl_time client\<rparr>, w) }
           | Some (client, w) \<Rightarrow> do { w \<leftarrow> w_free (Some ptr) w; Some (client, w) }) }"

definition client_allowed_packets :: "bool list" where
  "client_allowed_packets = [False, True, True, False, True, True, True]"

text \<open>The call of \<^verbatim>\<open>netcode_read_packet\<close>: the packet's block if there is one, and its sequence number.\<close>

definition client_read_packet ::
    "crypto \<Rightarrow> u64 \<Rightarrow> bytes \<Rightarrow> netcode_client \<Rightarrow> world \<Rightarrow> ((nat option \<times> u64) \<times> netcode_client \<times> world) option" where
  "client_read_packet cr current_timestamp packet_data client w =
     do { (ptr, sequence, rp, h) \<leftarrow> netcode_read_packet cr packet_data
            (Some (cx_read_packet_key (cl_context client))) (ct_protocol_id (cl_connect_token client))
            current_timestamp None client_allowed_packets (Some (cl_replay_protection client)) (w_heap w);
          rp \<leftarrow> rp;
          Some ((ptr, sequence), client\<lparr>cl_replay_protection := rp\<rparr>, w\<lparr>w_heap := h\<rparr>) }"

fun client_receive_from_socket ::
    "crypto \<Rightarrow> u64 \<Rightarrow> nat \<Rightarrow> netcode_client \<Rightarrow> world \<Rightarrow> (netcode_client \<times> world) option" where
  "client_receive_from_socket cr current_timestamp 0 client w = None"
| "client_receive_from_socket cr current_timestamp (Suc fuel) client w =
     do { (r, w) \<leftarrow> netcode_socket_receive_packet (cl_socket client) NETCODE_MAX_PACKET_BYTES w;
          (case r of
             None \<Rightarrow> Some (client, w)
           | Some (from_addr, packet_data) \<Rightarrow> do {
               ((ptr, sequence), client, w) \<leftarrow> client_read_packet cr current_timestamp packet_data client w;
               (case ptr of
                  None \<Rightarrow> client_receive_from_socket cr current_timestamp fuel client w
                | Some ptr \<Rightarrow> do {
                    (client, w) \<leftarrow> netcode_client_process_packet client from_addr ptr sequence w;
                    client_receive_from_socket cr current_timestamp fuel client w }) }) }"

fun client_receive_from_simulator ::
    "crypto \<Rightarrow> u64 \<Rightarrow> (nat \<times> nat \<times> netcode_address) list \<Rightarrow> netcode_client \<Rightarrow> world \<Rightarrow> (netcode_client \<times> world) option" where
  "client_receive_from_simulator cr current_timestamp [] client w = Some (client, w)"
| "client_receive_from_simulator cr current_timestamp ((buffer, packet_bytes, from_addr) # received) client w =
     do { packet_data \<leftarrow> w_buffer buffer w;
          ((ptr, sequence), client, w) \<leftarrow> client_read_packet cr current_timestamp (take packet_bytes packet_data) client w;
          w \<leftarrow> w_free (Some buffer) w;
          (case ptr of
             None \<Rightarrow> client_receive_from_simulator cr current_timestamp received client w
           | Some ptr \<Rightarrow> do {
               (client, w) \<leftarrow> netcode_client_process_packet client from_addr ptr sequence w;
               client_receive_from_simulator cr current_timestamp received client w }) }"

definition netcode_client_receive_packets ::
    "crypto \<Rightarrow> netcode_client \<Rightarrow> world \<Rightarrow> (netcode_client \<times> world) option" where
  "netcode_client_receive_packets cr client w =
     do { c_assert (\<not> cl_loopback client);
          let current_timestamp = w_timestamp w;
          if \<not> cl_network_simulator client
          then client_receive_from_socket cr current_timestamp
                 (Suc (length (w_inbox w (so_handle (cl_socket client))))) client w
          else do {
            (received, w) \<leftarrow> netcode_network_simulator_receive_packets (cl_address client)
                              NETCODE_CLIENT_MAX_RECEIVE_PACKETS w;
            client_receive_from_simulator cr current_timestamp received client w } }"

section \<open>Update\<close>

definition client_token_expired :: "netcode_client \<Rightarrow> bool" where
  "client_token_expired client \<longleftrightarrow>
     cl_state client > NETCODE_CLIENT_STATE_DISCONNECTED \<and> cl_state client < NETCODE_CLIENT_STATE_CONNECTED
     \<and> cl_connect_start_time client
         + of_nat (unat (ct_expire_timestamp (cl_connect_token client) - ct_create_timestamp (cl_connect_token client)))
       \<le> cl_time client"

definition client_timed_out :: "netcode_client \<Rightarrow> dbl \<Rightarrow> bool" where
  "client_timed_out client time \<longleftrightarrow>
     ct_timeout_seconds (cl_connect_token client) > 0
     \<and> cl_last_packet_receive_time client + of_int (ct_timeout_seconds (cl_connect_token client)) < time"

text \<open>The reaction to a timeout: the next server if there is one, else disconnected.\<close>

definition client_next_server_or_disconnect ::
    "crypto \<Rightarrow> netcode_client \<Rightarrow> client_state \<Rightarrow> world \<Rightarrow> (netcode_client \<times> world) option" where
  "client_next_server_or_disconnect cr client destination_state w =
     do { (connecting, client, w) \<leftarrow> netcode_client_connect_to_next_server client w;
          if connecting then Some (client, w)
          else netcode_client_disconnect_internal cr client destination_state False w }"

definition netcode_client_update ::
    "crypto \<Rightarrow> dbl \<Rightarrow> netcode_client \<Rightarrow> world \<Rightarrow> (netcode_client \<times> world) option" where
  "netcode_client_update cr time client w =
     (let client = client\<lparr>cl_time := time\<rparr> in
      if cl_loopback client then Some (client, w)
      else do {
        (client, w) \<leftarrow> netcode_client_receive_packets cr client w;
        (client, w) \<leftarrow> netcode_client_send_packets cr client w;
        if client_token_expired client
        then netcode_client_disconnect_internal cr client NETCODE_CLIENT_STATE_CONNECT_TOKEN_EXPIRED False w
        else if cl_should_disconnect client
        then client_next_server_or_disconnect cr client (cl_should_disconnect_state client) w
        else (case cl_state client of
            NETCODE_CLIENT_STATE_SENDING_CONNECTION_REQUEST \<Rightarrow>
              if client_timed_out client time
              then client_next_server_or_disconnect cr client NETCODE_CLIENT_STATE_CONNECTION_REQUEST_TIMED_OUT w
              else Some (client, w)
          | NETCODE_CLIENT_STATE_SENDING_CONNECTION_RESPONSE \<Rightarrow>
              if client_timed_out client time
              then client_next_server_or_disconnect cr client NETCODE_CLIENT_STATE_CONNECTION_RESPONSE_TIMED_OUT w
              else Some (client, w)
          | NETCODE_CLIENT_STATE_CONNECTED \<Rightarrow>
              if client_timed_out client time
              then netcode_client_disconnect_internal cr client NETCODE_CLIENT_STATE_CONNECTION_TIMED_OUT False w
              else Some (client, w)
          | _ \<Rightarrow> Some (client, w)) })"

section \<open>The user's calls\<close>

definition netcode_client_next_packet_sequence :: "netcode_client \<Rightarrow> u64" where
  "netcode_client_next_packet_sequence client = cl_sequence client"

definition netcode_client_send_packet ::
    "crypto \<Rightarrow> netcode_client \<Rightarrow> bytes \<Rightarrow> world \<Rightarrow> (netcode_client \<times> world) option" where
  "netcode_client_send_packet cr client packet_data w =
     do { c_assert (length packet_data \<le> NETCODE_MAX_PACKET_SIZE);
          if cl_state client \<noteq> NETCODE_CLIENT_STATE_CONNECTED then Some (client, w)
          else if \<not> cl_loopback client
          then netcode_client_send_packet_to_server_internal cr client (CONNECTION_PAYLOAD_PACKET packet_data) w
          else do {
            context \<leftarrow> cl_send_loopback_packet_callback client;
            Some (client\<lparr>cl_sequence := cl_sequence client + 1\<rparr>,
              w_log (Client_loopback_packet context (cl_client_index client) packet_data (cl_sequence client)) w) } }"

text \<open>The user is given the block of the packet (the code's pointer into it), the payload and the sequence number.\<close>

definition netcode_client_receive_packet ::
    "netcode_client \<Rightarrow> world \<Rightarrow> ((nat \<times> bytes \<times> u64) option \<times> netcode_client) option" where
  "netcode_client_receive_packet client w =
     (case netcode_packet_queue_pop (cl_packet_receive_queue client) of
        (None, _, queue) \<Rightarrow> Some (None, client\<lparr>cl_packet_receive_queue := queue\<rparr>)
      | (Some ptr, sequence, queue) \<Rightarrow> do {
          packet \<leftarrow> w_packet ptr w;
          (case packet of
             CONNECTION_PAYLOAD_PACKET payload \<Rightarrow> do {
               c_assert (length payload \<le> NETCODE_MAX_PACKET_BYTES);
               Some (Some (ptr, payload, the sequence), client\<lparr>cl_packet_receive_queue := queue\<rparr>) }
           | _ \<Rightarrow> None) })"

definition netcode_client_free_packet :: "nat \<Rightarrow> world \<Rightarrow> world option" where
  "netcode_client_free_packet ptr w = w_free (Some ptr) w"

definition netcode_client_state :: "netcode_client \<Rightarrow> client_state" where
  "netcode_client_state client = cl_state client"

definition netcode_client_index :: "netcode_client \<Rightarrow> int" where
  "netcode_client_index client = cl_client_index client"

definition netcode_client_max_clients :: "netcode_client \<Rightarrow> int" where
  "netcode_client_max_clients client = cl_max_clients client"

definition netcode_client_state_change_callback :: "netcode_client \<Rightarrow> nat option \<Rightarrow> netcode_client" where
  "netcode_client_state_change_callback client callback = client\<lparr>cl_state_change_callback := callback\<rparr>"

definition netcode_client_connect_loopback :: "netcode_client \<Rightarrow> int \<Rightarrow> int \<Rightarrow> netcode_client option" where
  "netcode_client_connect_loopback client client_index max_clients =
     do { c_assert (cl_state client \<le> NETCODE_CLIENT_STATE_DISCONNECTED);
          Some (client\<lparr>cl_state := NETCODE_CLIENT_STATE_CONNECTED, cl_client_index := client_index,
            cl_max_clients := max_clients, cl_loopback := True\<rparr>) }"

definition netcode_client_loopback :: "netcode_client \<Rightarrow> bool" where
  "netcode_client_loopback client = cl_loopback client"

definition netcode_client_process_loopback_packet ::
    "netcode_client \<Rightarrow> bytes \<Rightarrow> u64 \<Rightarrow> world \<Rightarrow> (netcode_client \<times> world) option" where
  "netcode_client_process_loopback_packet client packet_data packet_sequence w =
     do { c_assert (cl_loopback client);
          (ptr, h) \<leftarrow> netcode_create_payload_packet (int (length packet_data)) (w_heap w);
          let w = w\<lparr>w_heap := h\<rparr>;
          (case ptr of
             None \<Rightarrow> Some (client, w)
           | Some ptr \<Rightarrow> do {
               let w = w\<lparr>w_heap := heap_store ptr (Packet_block (CONNECTION_PAYLOAD_PACKET packet_data)) (w_heap w)\<rparr>;
               (queue, w) \<leftarrow> queue_push (cl_packet_receive_queue client) ptr packet_sequence w;
               Some (client\<lparr>cl_packet_receive_queue := queue\<rparr>, w) }) }"

definition netcode_client_send_loopback_packet_callback :: "netcode_client \<Rightarrow> nat option \<Rightarrow> netcode_client" where
  "netcode_client_send_loopback_packet_callback client callback =
     client\<lparr>cl_send_loopback_packet_callback := callback\<rparr>"

end
