(* ===== verification/Client_Invariant.thy ===== *)
theory Client_Invariant
  imports Client Endpoint
begin

text \<open>
  The client is sound: its invariant \<open>client_inv\<close> says that its transport is usable, its keys and arrays
  have their sizes, its token is well-formed and its server index in range while it is connecting or connected, and that its receive queue
  holds blocks of its own with payloads. Every call of the client, used as \<^verbatim>\<open>c/netcode.h\<close> intends it, runs to its end without
  a failed assertion, a double free or an access out of bounds, whatever datagrams arrive, keeps the invariant and
  leaves the blocks of everybody else alone.
\<close>

section \<open>The invariant\<close>

definition client_ready :: "netcode_client \<Rightarrow> bool" where
  "client_ready client \<longleftrightarrow>
     (if cl_network_simulator client then address_ok (cl_address client) else so_handle (cl_socket client) \<noteq> 0)"

text \<open>What holds while the client talks to a server.\<close>

definition client_connecting :: "netcode_client \<Rightarrow> bool" where
  "client_connecting client \<longleftrightarrow> connect_token_wf (cl_connect_token client) \<and> address_ok (cl_server_address client)
     \<and> 0 \<le> cl_server_address_index client
     \<and> cl_server_address_index client < ct_num_server_addresses (cl_connect_token client)"

definition client_ok :: "netcode_client \<Rightarrow> bool" where
  "client_ok client \<longleftrightarrow> client_ready client \<and> (\<exists>S. replay_inv (cl_replay_protection client) S)
     \<and> length (cx_write_packet_key (cl_context client)) = NETCODE_KEY_BYTES
     \<and> length (cx_read_packet_key (cl_context client)) = NETCODE_KEY_BYTES
     \<and> length (ct_server_addresses (cl_connect_token client)) = NETCODE_MAX_SERVERS_PER_CONNECT
     \<and> length (cl_challenge_token_data client) = NETCODE_CHALLENGE_TOKEN_BYTES
     \<and> cl_should_disconnect_state client \<le> NETCODE_CLIENT_STATE_DISCONNECTED
     \<and> (cl_should_disconnect client \<longrightarrow> cl_state client > NETCODE_CLIENT_STATE_DISCONNECTED \<and> \<not> cl_loopback client)
     \<and> (cl_loopback client \<longrightarrow> cl_state client = NETCODE_CLIENT_STATE_CONNECTED)
     \<and> (cl_state client > NETCODE_CLIENT_STATE_DISCONNECTED \<longrightarrow> \<not> cl_loopback client \<longrightarrow> client_connecting client)"

definition client_inv :: "nat set \<Rightarrow> netcode_client \<Rightarrow> world \<Rightarrow> bool" where
  "client_inv B client w \<longleftrightarrow>
     client_ok client \<and> queue_held (cl_network_simulator client) B (cl_packet_receive_queue client) w
     \<and> (cl_state client \<le> NETCODE_CLIENT_STATE_DISCONNECTED \<longrightarrow> pq_num_packets (cl_packet_receive_queue client) = 0)"

lemma client_states [simp]:
  "NETCODE_CLIENT_STATE_CONNECTED > NETCODE_CLIENT_STATE_DISCONNECTED"
  "NETCODE_CLIENT_STATE_SENDING_CONNECTION_REQUEST > NETCODE_CLIENT_STATE_DISCONNECTED"
  "NETCODE_CLIENT_STATE_SENDING_CONNECTION_RESPONSE > NETCODE_CLIENT_STATE_DISCONNECTED"
  "NETCODE_CLIENT_STATE_CONNECT_TOKEN_EXPIRED \<le> NETCODE_CLIENT_STATE_DISCONNECTED"
  "NETCODE_CLIENT_STATE_INVALID_CONNECT_TOKEN \<le> NETCODE_CLIENT_STATE_DISCONNECTED"
  "NETCODE_CLIENT_STATE_CONNECTION_TIMED_OUT \<le> NETCODE_CLIENT_STATE_DISCONNECTED"
  "NETCODE_CLIENT_STATE_CONNECTION_RESPONSE_TIMED_OUT \<le> NETCODE_CLIENT_STATE_DISCONNECTED"
  "NETCODE_CLIENT_STATE_CONNECTION_REQUEST_TIMED_OUT \<le> NETCODE_CLIENT_STATE_DISCONNECTED"
  "NETCODE_CLIENT_STATE_CONNECTION_DENIED \<le> NETCODE_CLIENT_STATE_DISCONNECTED"
  "\<not> NETCODE_CLIENT_STATE_CONNECTED \<le> NETCODE_CLIENT_STATE_DISCONNECTED"
  "\<not> NETCODE_CLIENT_STATE_SENDING_CONNECTION_REQUEST \<le> NETCODE_CLIENT_STATE_DISCONNECTED"
  "\<not> NETCODE_CLIENT_STATE_SENDING_CONNECTION_RESPONSE \<le> NETCODE_CLIENT_STATE_DISCONNECTED"
  by (simp_all add: client_state_order)

lemma init_queue_empty [simp]: "pq_num_packets netcode_packet_queue_init = 0"
  by (simp add: netcode_packet_queue_init_def)

text \<open>Out of use, the client has no packets.\<close>

lemma client_inv_idle:
  "client_inv B client w \<Longrightarrow> cl_state client \<le> NETCODE_CLIENT_STATE_DISCONNECTED \<longrightarrow>
   pq_num_packets (cl_packet_receive_queue client) = 0"
  by (simp add: client_inv_def)

text \<open>The states above \<open>DISCONNECTED\<close> are three.\<close>

lemma client_active_cases:
  assumes "cl_state client > NETCODE_CLIENT_STATE_DISCONNECTED"
  obtains "cl_state client = NETCODE_CLIENT_STATE_SENDING_CONNECTION_REQUEST"
    | "cl_state client = NETCODE_CLIENT_STATE_SENDING_CONNECTION_RESPONSE"
    | "cl_state client = NETCODE_CLIENT_STATE_CONNECTED"
  using assms by (cases "cl_state client") (auto simp: client_state_order)

text \<open>Updates of single fields.\<close>

lemma client_ok_updates [simp]:
  "client_ok (client\<lparr>cl_time := t\<rparr>) = client_ok client"
  "client_ok (client\<lparr>cl_last_packet_receive_time := t\<rparr>) = client_ok client"
  "client_ok (client\<lparr>cl_last_packet_send_time := t\<rparr>) = client_ok client"
  "client_ok (client\<lparr>cl_sequence := s\<rparr>) = client_ok client"
  "client_ok (client\<lparr>cl_client_index := i\<rparr>) = client_ok client"
  "client_ok (client\<lparr>cl_max_clients := i\<rparr>) = client_ok client"
  "client_ok (client\<lparr>cl_challenge_token_sequence := s\<rparr>) = client_ok client"
  "client_ok (client\<lparr>cl_packet_receive_queue := q\<rparr>) = client_ok client"
  "client_ok (client\<lparr>cl_state_change_callback := cb\<rparr>) = client_ok client"
  "client_ok (client\<lparr>cl_send_loopback_packet_callback := cb\<rparr>) = client_ok client"
  by (simp_all add: client_ok_def client_ready_def client_connecting_def)

lemma client_ok_challenge:
  "client_ok client \<Longrightarrow> length data = NETCODE_CHALLENGE_TOKEN_BYTES \<Longrightarrow>
   client_ok (client\<lparr>cl_challenge_token_data := data\<rparr>)"
  by (simp add: client_ok_def client_ready_def client_connecting_def)

lemma client_ok_state:
  "client_ok client \<Longrightarrow> \<not> cl_loopback client \<Longrightarrow> cl_state client > NETCODE_CLIENT_STATE_DISCONNECTED \<Longrightarrow>
   s > NETCODE_CLIENT_STATE_DISCONNECTED \<Longrightarrow> client_ok (client\<lparr>cl_state := s\<rparr>)"
  by (simp add: client_ok_def client_ready_def client_connecting_def)

lemma client_ok_should_disconnect:
  "client_ok client \<Longrightarrow> \<not> cl_loopback client \<Longrightarrow> cl_state client > NETCODE_CLIENT_STATE_DISCONNECTED \<Longrightarrow>
   s \<le> NETCODE_CLIENT_STATE_DISCONNECTED \<Longrightarrow>
   client_ok (client\<lparr>cl_should_disconnect := b, cl_should_disconnect_state := s\<rparr>)"
  by (simp add: client_ok_def client_ready_def client_connecting_def)

lemmas client_ok_intros = client_ok_challenge client_ok_state client_ok_should_disconnect

section \<open>State changes\<close>

definition client_notified :: "netcode_client \<Rightarrow> client_state \<Rightarrow> world \<Rightarrow> world" where
  "client_notified client client_state w = snd (netcode_client_set_state client client_state w)"

lemma set_state_eq:
  "netcode_client_set_state client client_state w =
     (client\<lparr>cl_state := client_state\<rparr>, client_notified client client_state w)"
  by (simp add: client_notified_def netcode_client_set_state_def Let_def)

lemma client_notified_frame [simp]:
  "frame B w (client_notified client s w') = frame B w w'"
  "frame B (client_notified client s w) w' = frame B w w'"
  "world_inv sim A (client_notified client s w') = world_inv sim A w'"
  "w_heap (client_notified client s w') = w_heap w'"
  "w_inbox (client_notified client s w') = w_inbox w'"
  by (simp_all add: client_notified_def netcode_client_set_state_def Let_def frame_def split: option.split)

lemma queue_held_same_heap:
  "w_heap w' = w_heap w \<Longrightarrow> (\<And>A. world_inv sim A w' = world_inv sim A w) \<Longrightarrow>
   queue_held sim B q w' = queue_held sim B q w"
  by (simp add: queue_held_def receive_queue_ok_def payload_at_def w_packet_def)

lemma queue_held_notified [simp]:
  "queue_held sim B q (client_notified client s w) = queue_held sim B q w"
  by (rule queue_held_same_heap) simp_all

lemma client_reset_ok:
  assumes "client_ready client" and "length (ct_server_addresses (cl_connect_token client)) = 32"
    and "length (cx_write_packet_key (cl_context client)) = 32" and "length (cx_read_packet_key (cl_context client)) = 32"
    and "cl_state client > NETCODE_CLIENT_STATE_DISCONNECTED \<longrightarrow> client_connecting client" and "\<not> cl_loopback client"
  shows "client_ok (netcode_client_reset_before_next_connect client)"
  using assms
  by (auto simp: client_ok_def netcode_client_reset_before_next_connect_def client_ready_def client_connecting_def)

lemma zero_token_lengths [simp]: "length (ct_server_addresses zero_connect_token) = 32"
  "length (cx_write_packet_key zero_context) = 32" "length (cx_read_packet_key zero_context) = 32"
  by (simp_all add: zero_connect_token_def zero_context_def)

lemma runs_client_reset:
  assumes inv: "client_inv B client w" and state: "client_state \<le> NETCODE_CLIENT_STATE_DISCONNECTED"
  shows "runs (netcode_client_reset_connection_data client client_state w)
    (\<lambda>(client', w'). client_inv B client' w' \<and> frame B w w' \<and> cl_state client' = client_state \<and> \<not> cl_loopback client'
       \<and> cl_socket client' = cl_socket client \<and> cl_network_simulator client' = cl_network_simulator client
       \<and> \<not> cl_should_disconnect client' \<and> cl_packet_receive_queue client' = netcode_packet_queue_init)"
proof -
  have held: "queue_held (cl_network_simulator client) B (cl_packet_receive_queue client)
      (client_notified c client_state w)" for c
    using inv by (simp add: client_inv_def)
  have not_active: "(NETCODE_CLIENT_STATE_DISCONNECTED < client_state) = False" using state by simp
  have ready: "client_ready client" using inv by (simp add: client_inv_def client_ok_def)
  show ?thesis
    unfolding netcode_client_reset_connection_data_def Let_def set_state_eq prod.case runs_bind
    apply (simp add: netcode_client_reset_before_next_connect_def)
    apply (rule runs_mono [OF runs_queue_empty_out [OF held]])
    using ready
    by (auto simp: client_inv_def client_ok_def client_ready_def queue_held_def not_active)
qed

section \<open>Sending\<close>

lemma client_inv_connecting:
  "client_inv B client w \<Longrightarrow> cl_state client > NETCODE_CLIENT_STATE_DISCONNECTED \<Longrightarrow> \<not> cl_loopback client \<Longrightarrow>
   client_connecting client"
  by (simp add: client_inv_def client_ok_def)

lemma client_sent_inv:
  assumes inv: "client_inv B client w"
    and step: "world_inv (cl_network_simulator client) (B \<union> queue_ptrs (cl_packet_receive_queue client)) w'"
      "world_step (B \<union> queue_ptrs (cl_packet_receive_queue client)) w w'"
  shows "client_inv B (client\<lparr>cl_sequence := s, cl_last_packet_send_time := t\<rparr>) w' \<and> frame B w w'"
proof -
  have f: "frame (B \<union> queue_ptrs (cl_packet_receive_queue client)) w w'" by (rule frame_world_step [OF step(2)])
  have "queue_held (cl_network_simulator client) B (cl_packet_receive_queue client) w'"
    using inv by (intro queue_held_frame [OF _ step(1) f]) (simp add: client_inv_def)
  moreover have "frame B w w'" by (rule frame_mono [OF f]) simp
  ultimately show ?thesis
    using inv by (simp add: client_inv_def client_ok_def client_ready_def client_connecting_def)
qed

lemma runs_client_send:
  assumes laws: "aead_laws cr" and inv: "client_inv B client w"
    and up: "cl_state client > NETCODE_CLIENT_STATE_DISCONNECTED" "\<not> cl_loopback client"
    and wf: "packet_wf packet" and fits: "is_request packet \<or> wire_bytes packet (cl_sequence client) \<le> NETCODE_MAX_PACKET_BYTES"
  shows "runs (netcode_client_send_packet_to_server_internal cr client packet w)
    (\<lambda>(client', w'). client_inv B client' w' \<and> frame B w w'
       \<and> client' = client\<lparr>cl_sequence := cl_sequence client + 1, cl_last_packet_send_time := cl_time client\<rparr>)"
proof -
  let ?A = "B \<union> queue_ptrs (cl_packet_receive_queue client)"
  let ?data = "\<lambda>r. case r of NETCODE_OK b \<Rightarrow> b | NETCODE_ERROR \<Rightarrow> []"
  have w: "world_inv (cl_network_simulator client) ?A w" using inv by (simp add: client_inv_def queue_held_def)
  have key: "length (cx_write_packet_key (cl_context client)) = 32" and ready: "client_ready client"
    using inv by (auto simp: client_inv_def client_ok_def)
  have addr: "address_ok (cl_server_address client)"
    using client_inv_connecting [OF inv up] by (simp add: client_connecting_def)
  have "runs (netcode_write_packet cr packet NETCODE_MAX_PACKET_BYTES (cl_sequence client)
                 (cx_write_packet_key (cl_context client)) (ct_protocol_id (cl_connect_token client)))
     (\<lambda>r. length (?data r) \<le> NETCODE_MAX_PACKET_BYTES \<and> runs (client_transmit client (?data r) w)
           (\<lambda>w'. world_inv (cl_network_simulator client) ?A w' \<and> world_step ?A w w'))"
    using simulator_transport.write_and_send [OF _ _ addr laws wf key fits, of "cl_address client" ?A w]
      socket_transport.write_and_send [OF _ _ addr laws wf key fits, of "cl_socket client" False ?A w] w ready
    by (cases "cl_network_simulator client") (simp_all add: client_ready_def client_transmit_def)
  then show ?thesis
    using up client_sent_inv [OF inv]
    unfolding netcode_client_send_packet_to_server_internal_def runs_bind runs_assert runs_Let
    by (auto elim!: runs_mono simp: client_transmit_def)
qed

lemma runs_client_send_disconnects:
  assumes laws: "aead_laws cr"
  shows "client_inv B client w \<Longrightarrow> cl_state client > NETCODE_CLIENT_STATE_DISCONNECTED \<Longrightarrow> \<not> cl_loopback client \<Longrightarrow>
    runs (client_send_disconnect_packets cr k client w)
      (\<lambda>(client', w'). client_inv B client' w' \<and> frame B w w' \<and> cl_socket client' = cl_socket client
        \<and> cl_network_simulator client' = cl_network_simulator client)"
proof (induction k arbitrary: client w)
  case 0
  then show ?case by simp
next
  case (Suc k)
  have fits: "wire_bytes CONNECTION_DISCONNECT_PACKET (cl_sequence client) \<le> NETCODE_MAX_PACKET_BYTES"
    by (rule small_packet_fits) simp
  have "runs (netcode_client_send_packet_to_server_internal cr client CONNECTION_DISCONNECT_PACKET w)
    (\<lambda>(client', w'). client_inv B client' w' \<and> frame B w w'
       \<and> client' = client\<lparr>cl_sequence := cl_sequence client + 1, cl_last_packet_send_time := cl_time client\<rparr>)"
    by (rule runs_client_send [OF laws Suc.prems]) (simp_all add: fits)
  then show ?case
    unfolding client_send_disconnect_packets.simps runs_bind
    by (rule runs_mono) (auto simp: Suc.prems(2,3) intro!: runs_mono [OF Suc.IH] intro: frame_trans)
qed

section \<open>Disconnecting and connecting\<close>

lemma runs_client_disconnect_internal:
  assumes laws: "aead_laws cr" and inv: "client_inv B client w" and loop: "\<not> cl_loopback client"
    and state: "destination_state \<le> NETCODE_CLIENT_STATE_DISCONNECTED"
  shows "runs (netcode_client_disconnect_internal cr client destination_state send w)
    (\<lambda>(client', w'). client_inv B client' w' \<and> frame B w w' \<and> \<not> cl_loopback client'
       \<and> cl_state client' \<le> NETCODE_CLIENT_STATE_DISCONNECTED \<and> cl_socket client' = cl_socket client
       \<and> cl_network_simulator client' = cl_network_simulator client)"
proof (cases "cl_state client \<le> NETCODE_CLIENT_STATE_DISCONNECTED")
  case True
  then show ?thesis
    using inv loop state by (simp add: netcode_client_disconnect_internal_def)
next
  case False
  then have up: "cl_state client > NETCODE_CLIENT_STATE_DISCONNECTED" "cl_state client \<noteq> destination_state"
    using state by auto
  have reset: "runs (netcode_client_reset_connection_data c destination_state w1)
      (\<lambda>(client', w'). client_inv B client' w' \<and> frame B w w' \<and> \<not> cl_loopback client'
       \<and> cl_state client' \<le> NETCODE_CLIENT_STATE_DISCONNECTED \<and> cl_socket client' = cl_socket client
       \<and> cl_network_simulator client' = cl_network_simulator client)"
    if "client_inv B c w1" "frame B w w1" "cl_socket c = cl_socket client"
      "cl_network_simulator c = cl_network_simulator client" for c w1
    by (rule runs_mono [OF runs_client_reset [OF that(1) state]]) (use that state in \<open>auto intro: frame_trans\<close>)
  show ?thesis
    using False up state loop inv
    unfolding netcode_client_disconnect_internal_def
    by (auto simp: runs_bind not_le intro!: reset runs_mono [OF runs_client_send_disconnects [OF laws inv up(1) loop]])
qed

lemma runs_client_connect:
  assumes laws: "aead_laws cr" and inv: "client_inv B client w" and loop: "\<not> cl_loopback client"
    and len: "length token = NETCODE_CONNECT_TOKEN_BYTES"
  shows "runs (netcode_client_connect cr client token w) (\<lambda>(client', w'). client_inv B client' w' \<and> frame B w w'
    \<and> (cl_state client' = NETCODE_CLIENT_STATE_INVALID_CONNECT_TOKEN
       \<or> cl_state client' = NETCODE_CLIENT_STATE_SENDING_CONNECTION_REQUEST
         \<and> (\<exists>old. netcode_read_connect_token token old = Some (True, cl_connect_token client'))))"
proof -
  have read: "runs (netcode_read_connect_token token (cl_connect_token c))
     (\<lambda>(ok, t). length (ct_server_addresses t) = 32 \<and> (ok \<longrightarrow> connect_token_wf t))" if "client_inv B c w'" for c w'
    using that by (intro runs_read_connect_token) (simp add: client_inv_def client_ok_def)
  have addr: "address_ok (ct_server_addresses t ! 0)" if "connect_token_wf t" for t
    using that by (simp add: connect_token_wf_def server_addresses_ok_def)
  show ?thesis
    unfolding netcode_client_connect_def netcode_client_disconnect_def set_state_eq
    apply (simp add: runs_simps len loop)
    apply (rule runs_mono [OF runs_client_disconnect_internal [OF laws inv loop]])
     apply simp
    apply (clarsimp simp: runs_bind)
    apply (frule read)
    apply (erule runsE)
    apply (auto simp: runs_simps client_inv_def connect_token_wf_def server_addresses_ok_def
        client_ok_def client_ready_def client_connecting_def netcode_client_reset_before_next_connect_def
        client_state_order split: prod.split)
    done
qed

text \<open>The next server of the token, if there is one.\<close>

lemma runs_client_next_server:
  assumes inv: "client_inv B client w" and loop: "\<not> cl_loopback client"
    and up: "cl_state client > NETCODE_CLIENT_STATE_DISCONNECTED"
  shows "runs (netcode_client_connect_to_next_server client w)
    (\<lambda>(connecting, client', w'). client_inv B client' w' \<and> frame B w w' \<and> \<not> cl_loopback client'
       \<and> (if connecting
          then cl_state client' = NETCODE_CLIENT_STATE_SENDING_CONNECTION_REQUEST
            \<and> cl_server_address_index client' = cl_server_address_index client + 1
          else client' = client \<and> w' = w))"
proof (cases "cl_server_address_index client + 1 \<ge> ct_num_server_addresses (cl_connect_token client)")
  case True
  with inv loop show ?thesis by (simp add: netcode_client_connect_to_next_server_def)
next
  case False
  have c: "client_connecting client" by (rule client_inv_connecting [OF inv up loop])
  then have n: "0 \<le> cl_server_address_index client" "ct_num_server_addresses (cl_connect_token client) \<le> 32"
      "length (ct_server_addresses (cl_connect_token client)) = 32"
      "\<forall>i < nat (ct_num_server_addresses (cl_connect_token client)). address_ok (ct_server_addresses (cl_connect_token client) ! i)"
    by (auto simp: client_connecting_def connect_token_wf_def server_addresses_ok_def)
  let ?i = "nat (cl_server_address_index client + 1)"
  have i: "?i < 32" "?i < nat (ct_num_server_addresses (cl_connect_token client))"
    using False n(1,2) by auto
  then have ok: "address_ok (ct_server_addresses (cl_connect_token client) ! ?i)" using n(4) by blast
  have get: "array_get (ct_server_addresses (cl_connect_token client)) ?i
      = Some (ct_server_addresses (cl_connect_token client) ! ?i)" using n(3) i(1) by simp
  show ?thesis
    unfolding netcode_client_connect_to_next_server_def set_state_eq
    using False inv loop c ok n(1)
    by (simp add: get runs_Let client_inv_def client_ok_def client_ready_def client_connecting_def
        netcode_client_reset_before_next_connect_def)
qed

lemma runs_next_server_or_disconnect:
  assumes laws: "aead_laws cr" and inv: "client_inv B client w" and loop: "\<not> cl_loopback client"
    and up: "cl_state client > NETCODE_CLIENT_STATE_DISCONNECTED"
    and state: "destination_state \<le> NETCODE_CLIENT_STATE_DISCONNECTED"
  shows "runs (client_next_server_or_disconnect cr client destination_state w)
    (\<lambda>(client', w'). client_inv B client' w' \<and> frame B w w')"
  unfolding client_next_server_or_disconnect_def runs_bind
  by (rule runs_mono [OF runs_client_next_server [OF inv loop up]])
    (auto split: if_splits intro!: runs_mono [OF runs_client_disconnect_internal [OF laws _ _ state]]
      intro: frame_trans)

section \<open>Sending what is due\<close>

lemma runs_client_send_packets:
  assumes laws: "aead_laws cr" and inv: "client_inv B client w" and loop: "\<not> cl_loopback client"
  shows "runs (netcode_client_send_packets cr client w)
    (\<lambda>(client', w'). client_inv B client' w' \<and> frame B w w' \<and> cl_loopback client' = cl_loopback client
       \<and> cl_state client' = cl_state client \<and> cl_should_disconnect client' = cl_should_disconnect client
       \<and> cl_should_disconnect_state client' = cl_should_disconnect_state client)"
proof -
  define Q where "Q = (\<lambda>(client', w'). client_inv B client' w' \<and> frame B w w' \<and> cl_loopback client' = cl_loopback client
       \<and> cl_state client' = cl_state client \<and> cl_should_disconnect client' = cl_should_disconnect client
       \<and> cl_should_disconnect_state client' = cl_should_disconnect_state client)"
  have send: "runs (netcode_client_send_packet_to_server_internal cr client packet w) Q"
    if "packet_wf packet" "is_request packet \<or> wire_bytes packet (cl_sequence client) \<le> NETCODE_MAX_PACKET_BYTES"
      "cl_state client > NETCODE_CLIENT_STATE_DISCONNECTED" for packet
    by (rule runs_mono [OF runs_client_send [OF laws inv that(3) loop that(1,2)]]) (auto simp: Q_def)
  have keep: "Q (client, w)" using inv by (simp add: Q_def)
  have request: "packet_wf (client_request_packet client)" if "cl_state client > NETCODE_CLIENT_STATE_DISCONNECTED"
    using client_inv_connecting [OF inv that loop]
    by (simp add: client_request_packet_def client_connecting_def connect_token_wf_def)
  have challenge: "length (cl_challenge_token_data client) = 300" using inv by (simp add: client_inv_def client_ok_def)
  have fits: "wire_bytes (CONNECTION_RESPONSE_PACKET a b) s \<le> NETCODE_MAX_PACKET_BYTES"
    "wire_bytes (CONNECTION_KEEP_ALIVE_PACKET i j) s \<le> NETCODE_MAX_PACKET_BYTES" for a b s i j
    by (rule small_packet_fits, simp)+
  have "runs (netcode_client_send_packets cr client w) Q"
    using loop request challenge fits keep
    by (cases "cl_state client")
      (simp_all add: netcode_client_send_packets_def client_request_packet_def is_request_def int32_def send)
  then show ?thesis by (simp add: Q_def)
qed

section \<open>Receiving\<close>

definition client_same :: "netcode_client \<Rightarrow> netcode_client \<Rightarrow> bool" where
  "client_same client client' \<longleftrightarrow> cl_loopback client' = cl_loopback client \<and> cl_socket client' = cl_socket client
     \<and> cl_network_simulator client' = cl_network_simulator client \<and> cl_address client' = cl_address client"

lemma client_same_refl [simp]: "client_same client client"
  by (simp add: client_same_def)

lemma client_same_trans: "client_same c c' \<Longrightarrow> client_same c' c'' \<Longrightarrow> client_same c c''"
  by (simp add: client_same_def)

text \<open>The packets that a client lets through carry data of the right size.\<close>

lemma client_handle_ok:
  assumes ok: "client_ok client" and wf: "packet_wf packet" and loop: "\<not> cl_loopback client"
    and run: "client_handle_packet client from_addr packet w = Some (client', w')"
  shows "client_ok client'" and "client_same client client'" and "cl_packet_receive_queue client' = cl_packet_receive_queue client"
    and "w' = w \<or> (\<exists>c. w' = client_notified c (cl_state client') w)"
    and "cl_state client' \<le> NETCODE_CLIENT_STATE_DISCONNECTED \<longrightarrow> cl_state client \<le> NETCODE_CLIENT_STATE_DISCONNECTED"
proof -
  have "(cl_state client' \<le> NETCODE_CLIENT_STATE_DISCONNECTED \<longrightarrow> cl_state client \<le> NETCODE_CLIENT_STATE_DISCONNECTED)
     \<and> client_ok client' \<and> client_same client client' \<and> cl_packet_receive_queue client' = cl_packet_receive_queue client
     \<and> (w' = w \<or> (\<exists>c. w' = client_notified c (cl_state client') w))"
    using ok wf loop run
    by (cases packet)
      (auto simp: client_handle_packet_def client_same_def set_state_eq Let_def client_ok_intros split: if_splits)
  then show "client_ok client'" "client_same client client'"
    "cl_packet_receive_queue client' = cl_packet_receive_queue client"
    "w' = w \<or> (\<exists>c. w' = client_notified c (cl_state client') w)"
    "cl_state client' \<le> NETCODE_CLIENT_STATE_DISCONNECTED \<longrightarrow> cl_state client \<le> NETCODE_CLIENT_STATE_DISCONNECTED"
    by auto
qed

lemma client_handle_None:
  "client_handle_packet client from_addr packet w = None \<Longrightarrow>
   (\<exists>payload. packet = CONNECTION_PAYLOAD_PACKET payload) \<and> cl_state client = NETCODE_CLIENT_STATE_CONNECTED"
  by (cases packet) (auto simp: client_handle_packet_def Let_def split: if_splits)

lemma runs_client_process_packet:
  assumes inv: "client_inv B client w" and loop: "\<not> cl_loopback client"
    and rx: "packet_received allowed (cl_network_simulator client)
      (B \<union> queue_ptrs (cl_packet_receive_queue client)) (Some p) w"
  shows "runs (netcode_client_process_packet client from_addr p s w)
    (\<lambda>(client', w'). client_inv B client' w' \<and> frame B w w' \<and> client_same client client')"
proof -
  let ?q = "cl_packet_receive_queue client" and ?sim = "cl_network_simulator client"
  from rx obtain packet where p: "p \<notin> B \<union> queue_ptrs ?q" "world_inv ?sim (insert p (B \<union> queue_ptrs ?q)) w"
    "w_packet p w = Some packet" "packet_wf packet"
    by (auto simp: packet_received_def)
  have ok: "client_ok client" and held: "queue_held ?sim B ?q w" using inv by (auto simp: client_inv_def)
  show ?thesis
  proof (cases "client_handle_packet client from_addr packet w")
    case None
    then obtain payload where "packet = CONNECTION_PAYLOAD_PACKET payload"
      and up: "cl_state client = NETCODE_CLIENT_STATE_CONNECTED" using client_handle_None by blast
    then have "payload_at p w" using p(3,4) by (simp add: payload_at_def)
    from runs_queue_push [OF held p(2,1) this, of s]
    show ?thesis
      using None p(3) ok up
      by (auto simp: netcode_client_process_packet_def runs_bind client_inv_def client_same_def elim!: runs_mono)
  next
    case (Some r)
    obtain client' w' where r: "r = (client', w')" by fastforce
    note h = client_handle_ok [OF ok p(4) loop Some [unfolded r]]
    have inv': "world_inv ?sim (insert p (B \<union> queue_ptrs ?q)) w'" and same: "frame X w w'" for X
      using h(4) p(2) by auto
    have "runs (w_free (Some p) w')
        (\<lambda>w''. world_inv ?sim (B \<union> queue_ptrs ?q) w'' \<and> frame (B \<union> queue_ptrs ?q) w' w'')"
      by (rule runs_w_free [OF inv' p(1)])
    moreover have "queue_held ?sim B ?q w'" using held h(4) by auto
    ultimately have "runs (w_free (Some p) w') (\<lambda>w''. queue_held ?sim B ?q w'' \<and> frame B w w'')"
      by (elim runs_mono) (auto intro: queue_held_frame frame_trans [OF same] frame_mono)
    then show ?thesis
      using Some r p(3) h client_inv_idle [OF inv]
      by (auto simp: netcode_client_process_packet_def runs_bind client_inv_def client_same_def elim!: runs_mono)
  qed
qed

lemma runs_client_read_packet:
  assumes laws: "aead_laws cr" and inv: "client_inv B client w"
  shows "runs (client_read_packet cr now data client w) (\<lambda>((ptr, s), client', w').
    client_inv B client' w' \<and> frame B w w' \<and> client_same client client'
    \<and> packet_received client_allowed_packets (cl_network_simulator client')
        (B \<union> queue_ptrs (cl_packet_receive_queue client')) ptr w')"
proof -
  let ?q = "cl_packet_receive_queue client" and ?sim = "cl_network_simulator client"
  have w: "world_inv ?sim (B \<union> queue_ptrs ?q) w" and held: "queue_held ?sim B ?q w"
    using inv by (auto simp: client_inv_def queue_held_def)
  have heap: "heap_inv (w_heap w)" using w by (simp add: world_inv_def sim_inv_def)
  show ?thesis
    unfolding client_read_packet_def runs_bind
  proof (rule runs_mono [OF runs_read_packet [OF laws heap]])
    fix x
    assume ok: "packet_read_ok client_allowed_packets (Some (cl_replay_protection client)) (w_heap w) x"
    obtain ptr s rp h where x: "x = (ptr, s, rp, h)" by (cases x) auto
    note rx = read_packet_received [OF w ok [unfolded x]]
    have held': "queue_held ?sim B ?q (w\<lparr>w_heap := h\<rparr>)"
      by (rule queue_held_frame [OF held packet_received_inv [OF rx(1)] rx(2)])
    obtain S where "replay_inv (cl_replay_protection client) S" using inv by (auto simp: client_inv_def client_ok_def)
    with rx(3) obtain rp' S' where rp: "rp = Some rp'" "replay_inv rp' S'" by (fastforce simp: replay_step_def)
    have "client_ok (client\<lparr>cl_replay_protection := rp'\<rparr>)"
      using inv rp(2) by (auto simp: client_inv_def client_ok_def client_ready_def client_connecting_def)
    moreover have "frame B w (w\<lparr>w_heap := h\<rparr>)" by (rule frame_mono [OF rx(2)]) simp
    ultimately show "runs (case x of (ptr, sequence, rp, h) \<Rightarrow> rp \<bind> (\<lambda>rp. Some ((ptr, sequence),
          client\<lparr>cl_replay_protection := rp\<rparr>, w\<lparr>w_heap := h\<rparr>)))
        (\<lambda>((ptr, s), client', w'). client_inv B client' w' \<and> frame B w w' \<and> client_same client client'
          \<and> packet_received client_allowed_packets (cl_network_simulator client')
              (B \<union> queue_ptrs (cl_packet_receive_queue client')) ptr w')"
      using rp(1) rx(1) held' client_inv_idle [OF inv] by (simp add: x client_inv_def client_same_def)
  qed
qed

text \<open>One datagram from the socket: read, and processed if it is a packet.\<close>

lemma runs_client_datagram:
  assumes laws: "aead_laws cr" and inv: "client_inv B client w" and loop: "\<not> cl_loopback client"
    and next_ok: "\<And>client' w'. client_inv B client' w' \<Longrightarrow> frame B w w' \<Longrightarrow> client_same client client' \<Longrightarrow>
      runs (k client' w') Q"
  shows "runs (do { ((ptr, sequence), client, w) \<leftarrow> client_read_packet cr now data client w;
               (case ptr of
                  None \<Rightarrow> k client w
                | Some ptr \<Rightarrow> do {
                    (client, w) \<leftarrow> netcode_client_process_packet client from_addr ptr sequence w;
                    k client w }) }) Q"
  unfolding runs_bind
proof (rule runs_mono [OF runs_client_read_packet [OF laws inv]], clarify)
  fix ptr s client1 w1
  assume 1: "client_inv B client1 w1" "frame B w w1" "client_same client client1"
    "packet_received client_allowed_packets (cl_network_simulator client1)
       (B \<union> queue_ptrs (cl_packet_receive_queue client1)) ptr w1"
  then have loop1: "\<not> cl_loopback client1" using loop by (simp add: client_same_def)
  show "runs (case ptr of None \<Rightarrow> k client1 w1
      | Some ptr \<Rightarrow> do { (client, w) \<leftarrow> netcode_client_process_packet client1 from_addr ptr s w1; k client w }) Q"
  proof (cases ptr)
    case None
    with 1 next_ok show ?thesis by simp
  next
    case (Some p)
    from runs_client_process_packet [OF 1(1) loop1 1(4) [unfolded Some], of from_addr s]
    show ?thesis
      unfolding Some option.case runs_bind
      by (rule runs_mono) (use 1 in \<open>auto intro!: next_ok intro: frame_trans client_same_trans\<close>)
  qed
qed

lemma client_inv_inbox:
  "client_inv B client w \<Longrightarrow> w_inbox w h = d # rest \<Longrightarrow>
   client_inv B client (w\<lparr>w_inbox := (w_inbox w)(h := rest)\<rparr>)"
  unfolding client_inv_def queue_held_def
  using inbox_ok_tail [of w h d rest]
  by (auto simp: world_inv_def receive_queue_ok_def payload_at_def w_packet_def)

lemma runs_client_receive_from_socket:
  assumes laws: "aead_laws cr"
  shows "client_inv B client w \<Longrightarrow> \<not> cl_loopback client \<Longrightarrow> \<not> cl_network_simulator client \<Longrightarrow>
    length (w_inbox w (so_handle (cl_socket client))) < fuel \<Longrightarrow>
    runs (client_receive_from_socket cr now fuel client w)
      (\<lambda>(client', w'). client_inv B client' w' \<and> frame_rx B w w' \<and> client_same client client')"
proof (induction fuel arbitrary: client w)
  case 0
  then show ?case by simp
next
  case (Suc fuel)
  note inv = Suc.prems(1) and loop = Suc.prems(2)
  let ?h = "so_handle (cl_socket client)"
  have h: "?h \<noteq> 0" using inv Suc.prems(3) by (simp add: client_inv_def client_ok_def client_ready_def)
  have inbox: "inbox_ok w" using inv by (simp add: client_inv_def queue_held_def world_inv_def)
  show ?case
    unfolding client_receive_from_socket.simps runs_bind
  proof (rule runs_socket_receive [OF h inbox])
    fix sender data d rest
    assume d: "w_inbox w ?h = d # rest"
    let ?w = "w\<lparr>w_inbox := (w_inbox w)(?h := rest)\<rparr>"
    have inv': "client_inv B client ?w" by (rule client_inv_inbox [OF inv d])
    show "runs (case (Some (sender, data), ?w) of (r, w) \<Rightarrow> (case r of
             None \<Rightarrow> Some (client, w)
           | Some (from_addr, packet_data) \<Rightarrow> do {
               ((ptr, sequence), client, w) \<leftarrow> client_read_packet cr now packet_data client w;
               (case ptr of
                  None \<Rightarrow> client_receive_from_socket cr now fuel client w
                | Some ptr \<Rightarrow> do {
                    (client, w) \<leftarrow> netcode_client_process_packet client from_addr ptr sequence w;
                    client_receive_from_socket cr now fuel client w }) }))
        (\<lambda>(client', w'). client_inv B client' w' \<and> frame_rx B w w' \<and> client_same client client')"
      unfolding prod.case option.case
    proof (rule runs_client_datagram [OF laws inv' loop])
      fix client1 w1
      assume 1: "client_inv B client1 w1" "frame B ?w w1" "client_same client client1"
      have "length (w_inbox w1 (so_handle (cl_socket client1))) < fuel"
        using 1(2,3) d Suc.prems(4) by (simp add: frame_def client_same_def)
      moreover have "frame_rx B w w1" using frame_rx_frame [OF 1(2)] by (simp add: frame_rx_def frame_def)
      ultimately show "runs (client_receive_from_socket cr now fuel client1 w1)
          (\<lambda>(client', w'). client_inv B client' w' \<and> frame_rx B w w' \<and> client_same client client')"
        using 1 loop Suc.prems(3)
        by (intro runs_mono [OF Suc.IH]) (auto simp: client_same_def intro: frame_rx_trans)
    qed
  qed (use inv in \<open>auto intro: client_inv_inbox\<close>)
qed

text \<open>The datagrams that the simulator hands over are blocks of the loop, which frees each after reading it.\<close>

lemma runs_client_receive_from_simulator:
  assumes laws: "aead_laws cr"
  shows "client_inv (B \<union> fst ` set received) client w \<Longrightarrow> \<not> cl_loopback client \<Longrightarrow>
    distinct (map fst received) \<Longrightarrow> fst ` set received \<inter> B = {} \<Longrightarrow>
    \<forall>r \<in> set received. \<exists>data. w_buffer (fst r) w = Some data \<Longrightarrow>
    runs (client_receive_from_simulator cr now received client w)
      (\<lambda>(client', w'). client_inv B client' w' \<and> frame B w w' \<and> client_same client client')"
proof (induction received arbitrary: client w)
  case Nil
  then show ?case by simp
next
  case (Cons r received)
  obtain buffer n from_addr where r: "r = (buffer, n, from_addr)" by (rule prod_cases3)
  let ?A = "B \<union> fst ` set received"
  from Cons.prems r obtain data where data: "w_buffer buffer w = Some data" by auto
  have b: "buffer \<notin> ?A" using Cons.prems(3,4) r by auto
  have inv: "client_inv (insert buffer ?A) client w" using Cons.prems(1) r by simp
  have later: "runs (client_receive_from_simulator cr now received client2 w2)
      (\<lambda>(client', w'). client_inv B client' w' \<and> frame B w w' \<and> client_same client client')"
    if "client_inv ?A client2 w2" "frame ?A w w2" "client_same client client2" for client2 w2
  proof -
    have "\<forall>r \<in> set received. \<exists>data. w_buffer (fst r) w2 = Some data"
      using that(2) Cons.prems(5) by (simp add: frame_buffer)
    moreover have "frame B w w2" using that(2) by (rule frame_mono) simp
    ultimately show ?thesis
      using that(1,3) Cons.prems(2,3,4)
      by (intro runs_mono [OF Cons.IH]) (auto simp: client_same_def intro: frame_trans)
  qed
  show ?case
    unfolding r client_receive_from_simulator.simps data bind.bind_lunit runs_bind
  proof (rule runs_mono [OF runs_client_read_packet [OF laws inv]], clarify)
    fix ptr s client1 w1
    assume 1: "client_inv (insert buffer ?A) client1 w1" "frame (insert buffer ?A) w w1" "client_same client client1"
      "packet_received client_allowed_packets (cl_network_simulator client1)
         (insert buffer ?A \<union> queue_ptrs (cl_packet_receive_queue client1)) ptr w1"
    let ?q = "cl_packet_receive_queue client1" and ?sim = "cl_network_simulator client1"
    have loop1: "\<not> cl_loopback client1" using 1(3) Cons.prems(2) by (simp add: client_same_def)
    have held: "queue_held ?sim (insert buffer ?A) ?q w1" and ok: "client_ok client1"
      using 1(1) by (auto simp: client_inv_def)
    then have b': "buffer \<notin> ?A \<union> queue_ptrs ?q" using b by (auto simp: queue_held_def)
    have f1: "frame ?A w w1" using 1(2) by (rule frame_mono) auto
    have "insert buffer ?A \<union> queue_ptrs ?q = insert buffer (?A \<union> queue_ptrs ?q)" by simp
    with 1(4) have rx: "packet_received client_allowed_packets ?sim (insert buffer (?A \<union> queue_ptrs ?q)) ptr w1" by simp
    show "runs (do { w \<leftarrow> w_free (Some buffer) w1; (case ptr of
             None \<Rightarrow> client_receive_from_simulator cr now received client1 w
           | Some ptr \<Rightarrow> do {
               (client, w) \<leftarrow> netcode_client_process_packet client1 from_addr ptr s w;
               client_receive_from_simulator cr now received client w }) })
         (\<lambda>(client', w'). client_inv B client' w' \<and> frame B w w' \<and> client_same client client')"
      unfolding runs_bind
    proof (rule runs_mono [OF runs_free_buffer [OF rx b']], elim conjE)
      fix w2
      assume 2: "packet_received client_allowed_packets ?sim (?A \<union> queue_ptrs ?q) ptr w2"
        "frame (?A \<union> queue_ptrs ?q) w1 w2"
      have f2: "frame ?A w w2" using f1 frame_mono [OF 2(2)] by (auto intro: frame_trans)
      have "receive_queue_ok ?q w2" "?A \<inter> queue_ptrs ?q = {}"
        using held receive_queue_frame [OF _ 2(2)] by (auto simp: queue_held_def)
      then have inv2: "client_inv ?A client1 w2"
        using ok packet_received_inv [OF 2(1)] client_inv_idle [OF 1(1)] by (simp add: client_inv_def queue_held_def)
      show "runs (case ptr of
             None \<Rightarrow> client_receive_from_simulator cr now received client1 w2
           | Some ptr \<Rightarrow> do {
               (client, w) \<leftarrow> netcode_client_process_packet client1 from_addr ptr s w2;
               client_receive_from_simulator cr now received client w })
         (\<lambda>(client', w'). client_inv B client' w' \<and> frame B w w' \<and> client_same client client')"
      proof (cases ptr)
        case None
        with later [OF inv2 f2 1(3)] show ?thesis by simp
      next
        case (Some p)
        from runs_client_process_packet [OF inv2 loop1 2(1) [unfolded Some], of from_addr s]
        show ?thesis
          unfolding Some option.case runs_bind
          by (rule runs_mono) (use f2 1(3) in \<open>auto intro!: later intro: frame_trans client_same_trans\<close>)
      qed
    qed
  qed
qed

lemma runs_client_receive_packets:
  assumes laws: "aead_laws cr" and inv: "client_inv B client w" and loop: "\<not> cl_loopback client"
  shows "runs (netcode_client_receive_packets cr client w)
    (\<lambda>(client', w'). client_inv B client' w' \<and> frame_rx B w w' \<and> \<not> cl_loopback client')"
proof (cases "cl_network_simulator client")
  case False
  have "runs (client_receive_from_socket cr (w_timestamp w)
      (Suc (length (w_inbox w (so_handle (cl_socket client))))) client w)
     (\<lambda>(client', w'). client_inv B client' w' \<and> frame_rx B w w' \<and> client_same client client')"
    by (rule runs_client_receive_from_socket [OF laws inv loop False]) simp
  then show ?thesis
    using False loop
    unfolding netcode_client_receive_packets_def runs_bind runs_assert runs_Let
    by (auto simp: client_same_def simp del: client_receive_from_socket.simps elim!: runs_mono)
next
  case True
  let ?q = "cl_packet_receive_queue client"
  have w: "world_inv True (B \<union> queue_ptrs ?q) w" and held: "queue_held True B ?q w" and ok: "client_ok client"
    using inv True by (auto simp: client_inv_def queue_held_def)
  have step: "runs (client_receive_from_simulator cr now received client w1)
      (\<lambda>(client', w'). client_inv B client' w' \<and> frame_rx B w w' \<and> \<not> cl_loopback client')"
    if a: "world_inv True (B \<union> queue_ptrs ?q \<union> fst ` set received) w1"
      "world_step (B \<union> queue_ptrs ?q) w w1" "w_heap w1 = w_heap w"
      "distinct (map fst received)" "fst ` set received \<inter> (B \<union> queue_ptrs ?q) = {}"
      "\<forall>r \<in> set received. received_ok (w_heap w) r" for received w1 now
  proof -
    have f: "frame (B \<union> queue_ptrs ?q) w w1" by (rule frame_world_step [OF a(2)])
    have "receive_queue_ok ?q w1" using held by (intro receive_queue_frame [OF _ f]) (auto simp: queue_held_def)
    moreover have "B \<union> fst ` set received \<union> queue_ptrs ?q = B \<union> queue_ptrs ?q \<union> fst ` set received" by auto
    ultimately have inv1: "client_inv (B \<union> fst ` set received) client w1"
      using ok True a(1,5) held client_inv_idle [OF inv] by (auto simp: client_inv_def queue_held_def)
    have data: "\<forall>r \<in> set received. \<exists>data. w_buffer (fst r) w1 = Some data"
      using a(3,6) by (fastforce simp: received_ok_def w_buffer_def)
    have "frame B w w1" by (rule frame_mono [OF f]) simp
    moreover have "runs (client_receive_from_simulator cr now received client w1)
        (\<lambda>(client', w'). client_inv B client' w' \<and> frame B w1 w' \<and> client_same client client')"
      using a(4,5) by (intro runs_client_receive_from_simulator [OF laws inv1 loop _ _ data]) auto
    ultimately show ?thesis
      using loop by (elim runs_mono) (auto simp: client_same_def intro: frame_trans frame_rx_frame)
  qed
  show ?thesis
    using loop True
    unfolding netcode_client_receive_packets_def runs_bind runs_assert runs_Let
    by (simp add: runs_bind) (rule runs_mono [OF runs_sim_receive [OF w]], auto intro!: step)
qed

section \<open>Update\<close>

text \<open>What an update does after it has received and sent.\<close>

lemma runs_client_after_io:
  assumes laws: "aead_laws cr" and inv: "client_inv B client w" and loop: "\<not> cl_loopback client"
  shows "runs (if client_token_expired client
        then netcode_client_disconnect_internal cr client NETCODE_CLIENT_STATE_CONNECT_TOKEN_EXPIRED False w
        else if cl_should_disconnect client
        then client_next_server_or_disconnect cr client (cl_should_disconnect_state client) w
        else (case cl_state client of
            NETCODE_CLIENT_STATE_SENDING_CONNECTION_REQUEST \<Rightarrow>
              if client_timed_out client time
              then client_next_server_or_disconnect cr client NETCODE_CLIENT_STATE_CONNECTION_REQUEST_TIMED_OUT w
              else Some (client, w)
          | NETCODE_CLIENT_STATE_SENDING_CONNECTION_RESPONSE \<Rightarrow>
              if client_timed_out client time
              then client_next_server_or_disconnect cr client NETCODE_CLIENT_STATE_CONNECTION_RESPONSE_TIMED_OUT w
              else Some (client, w)
          | NETCODE_CLIENT_STATE_CONNECTED \<Rightarrow>
              if client_timed_out client time
              then netcode_client_disconnect_internal cr client NETCODE_CLIENT_STATE_CONNECTION_TIMED_OUT False w
              else Some (client, w)
          | _ \<Rightarrow> Some (client, w)))
    (\<lambda>(client', w'). client_inv B client' w' \<and> frame B w w')"
    (is "runs ?m ?Q")
proof -
  have disconnect: "runs (netcode_client_disconnect_internal cr client s False w) ?Q"
    if "s \<le> NETCODE_CLIENT_STATE_DISCONNECTED" for s
    by (rule runs_mono [OF runs_client_disconnect_internal [OF laws inv loop that]]) auto
  have next_server: "runs (client_next_server_or_disconnect cr client s w) ?Q"
    if "s \<le> NETCODE_CLIENT_STATE_DISCONNECTED" "cl_state client > NETCODE_CLIENT_STATE_DISCONNECTED" for s
    by (rule runs_next_server_or_disconnect [OF laws inv loop that(2,1)])
  have keep: "?Q (client, w)" using inv by simp
  have should: "cl_should_disconnect client \<Longrightarrow> cl_state client > NETCODE_CLIENT_STATE_DISCONNECTED"
    "cl_should_disconnect_state client \<le> NETCODE_CLIENT_STATE_DISCONNECTED"
    using inv by (auto simp: client_inv_def client_ok_def)
  define Q where "Q = ?Q"
  note rules = disconnect [folded Q_def] next_server [folded Q_def] keep [folded Q_def] should
  have "runs ?m Q" by (cases "cl_state client") (auto simp: rules intro: rules)
  then show ?thesis by (simp add: Q_def)
qed

lemma client_inv_time [simp]: "client_inv B (client\<lparr>cl_time := t\<rparr>) w = client_inv B client w"
  by (simp add: client_inv_def)

lemma runs_client_update:
  assumes laws: "aead_laws cr" and inv: "client_inv B client w"
  shows "runs (netcode_client_update cr time client w) (\<lambda>(client', w'). client_inv B client' w' \<and> frame_rx B w w')"
proof (cases "cl_loopback client")
  case True
  with inv show ?thesis by (simp add: netcode_client_update_def)
next
  case False
  let ?c = "client\<lparr>cl_time := time\<rparr>"
  have inv': "client_inv B ?c w" and loop: "\<not> cl_loopback ?c" using inv False by auto
  show ?thesis
    unfolding netcode_client_update_def Let_def runs_if runs_bind
    apply (simp only: False loop if_False netcode_client.simps)
    apply (rule runs_mono [OF runs_client_receive_packets [OF laws inv' loop]], clarsimp)
    apply (simp only: runs_bind)
    apply (rule runs_mono [OF runs_client_send_packets [OF laws]], assumption, assumption)
    apply (elim case_prodE conjE, hypsubst, unfold prod.case)
    apply (rule runs_mono [OF runs_client_after_io [OF laws]], assumption, simp)
    apply (auto intro: frame_rx_trans frame_rx_frame frame_trans)
    done
qed

section \<open>The user's calls\<close>

lemma runs_client_send_payload:
  assumes laws: "aead_laws cr" and inv: "client_inv B client w"
    and payload: "1 \<le> length data" "length data \<le> NETCODE_MAX_PACKET_SIZE"
    and fits: "cl_loopback client \<or> wire_bytes (CONNECTION_PAYLOAD_PACKET data) (cl_sequence client) \<le> NETCODE_MAX_PACKET_BYTES"
    and loop: "cl_loopback client \<Longrightarrow> cl_send_loopback_packet_callback client \<noteq> None"
  shows "runs (netcode_client_send_packet cr client data w) (\<lambda>(client', w'). client_inv B client' w' \<and> frame B w w')"
proof (cases "cl_loopback client")
  case True
  then obtain cb where "cl_send_loopback_packet_callback client = Some cb" using loop by auto
  moreover have "queue_held (cl_network_simulator client) B (cl_packet_receive_queue client) (w_log e w)" for e
    using inv queue_held_same_heap [of "w_log e w" w] by (simp add: client_inv_def)
  ultimately show ?thesis
    using True inv payload by (simp add: netcode_client_send_packet_def runs_simps client_inv_def)
next
  case False
  show ?thesis
  proof (cases "cl_state client = NETCODE_CLIENT_STATE_CONNECTED")
    case True
    have "runs (netcode_client_send_packet_to_server_internal cr client (CONNECTION_PAYLOAD_PACKET data) w)
        (\<lambda>(client', w'). client_inv B client' w' \<and> frame B w w'
           \<and> client' = client\<lparr>cl_sequence := cl_sequence client + 1, cl_last_packet_send_time := cl_time client\<rparr>)"
      by (rule runs_client_send [OF laws inv _ False]) (use True payload fits False in auto)
    then show ?thesis using True False payload
      by (auto simp: netcode_client_send_packet_def runs_simps elim!: runs_mono)
  next
    case disconnected: False
    with inv payload show ?thesis by (simp add: netcode_client_send_packet_def runs_simps)
  qed
qed

text \<open>The block of a received payload passes to the user, who frees it.\<close>

lemma runs_client_receive_packet:
  assumes inv: "client_inv B client w"
  shows "runs (netcode_client_receive_packet client w) (\<lambda>(r, client').
    case r of None \<Rightarrow> client_inv B client' w
    | Some (p, payload, s) \<Rightarrow> p \<notin> B \<and> client_inv (insert p B) client' w
        \<and> w_packet p w = Some (CONNECTION_PAYLOAD_PACKET payload))"
proof -
  obtain r s q where pop: "netcode_packet_queue_pop (cl_packet_receive_queue client) = (r, s, q)" by (rule prod_cases3)
  have held: "queue_held (cl_network_simulator client) B (cl_packet_receive_queue client) w" and ok: "client_ok client"
    using inv by (auto simp: client_inv_def)
  from queue_popped [OF held pop] show ?thesis
    using pop inv ok
    by (cases r) (auto simp: netcode_client_receive_packet_def client_inv_def runs_simps payload_at_def
        netcode_packet_queue_pop_def)
qed

lemma runs_client_free_packet:
  assumes inv: "client_inv (insert p B) client w" and p: "p \<notin> B"
  shows "runs (netcode_client_free_packet p w) (\<lambda>w'. client_inv B client w' \<and> frame B w w')"
proof -
  let ?q = "cl_packet_receive_queue client"
  have held: "queue_held (cl_network_simulator client) (insert p B) ?q w" and ok: "client_ok client"
    using inv by (auto simp: client_inv_def)
  then have "p \<notin> B \<union> queue_ptrs ?q" and w: "world_inv (cl_network_simulator client) (insert p (B \<union> queue_ptrs ?q)) w"
    using p by (auto simp: queue_held_def)
  from runs_w_free [OF w this(1)] show ?thesis
    unfolding netcode_client_free_packet_def
    by (rule runs_mono)
      (use held ok client_inv_idle [OF inv] in
        \<open>auto simp: client_inv_def queue_held_def intro: receive_queue_frame frame_mono\<close>)
qed

lemma runs_client_disconnect:
  assumes laws: "aead_laws cr" and inv: "client_inv B client w" and loop: "\<not> cl_loopback client"
  shows "runs (netcode_client_disconnect cr client w) (\<lambda>(client', w'). client_inv B client' w' \<and> frame B w w'
    \<and> cl_state client' \<le> NETCODE_CLIENT_STATE_DISCONNECTED \<and> cl_socket client' = cl_socket client
    \<and> cl_network_simulator client' = cl_network_simulator client)"
  unfolding netcode_client_disconnect_def runs_bind runs_assert
  using loop by (auto intro!: runs_mono [OF runs_client_disconnect_internal [OF laws inv loop]])

lemma runs_client_disconnect_loopback:
  assumes inv: "client_inv B client w" and loop: "cl_loopback client"
  shows "runs (netcode_client_disconnect_loopback client w) (\<lambda>(client', w'). client_inv B client' w' \<and> frame B w w'
    \<and> cl_state client' = NETCODE_CLIENT_STATE_DISCONNECTED \<and> cl_socket client' = cl_socket client
    \<and> cl_network_simulator client' = cl_network_simulator client
    \<and> cl_packet_receive_queue client' = netcode_packet_queue_init)"
  unfolding netcode_client_disconnect_loopback_def runs_bind runs_assert
  using loop by (auto intro!: runs_mono [OF runs_client_reset [OF inv]])

lemma client_connect_loopback_inv:
  assumes inv: "client_inv B client w" and state: "cl_state client \<le> NETCODE_CLIENT_STATE_DISCONNECTED"
  shows "runs (netcode_client_connect_loopback client i n) (\<lambda>client'. client_inv B client' w \<and> cl_loopback client')"
proof -
  have "\<not> cl_should_disconnect client" using inv state by (auto simp: client_inv_def client_ok_def)
  with inv state show ?thesis
    by (simp add: netcode_client_connect_loopback_def runs_simps client_inv_def client_ok_def client_ready_def)
qed

lemma runs_client_process_loopback:
  assumes inv: "client_inv B client w" and loop: "cl_loopback client"
    and n: "length data \<le> NETCODE_MAX_PAYLOAD_BYTES"
  shows "runs (netcode_client_process_loopback_packet client data s w)
    (\<lambda>(client', w'). client_inv B client' w' \<and> frame B w w')"
proof -
  let ?q = "cl_packet_receive_queue client" and ?sim = "cl_network_simulator client"
  have held: "queue_held ?sim B ?q w" and ok: "client_ok client" using inv by (auto simp: client_inv_def)
  then have w: "world_inv ?sim (B \<union> queue_ptrs ?q) w" by (simp add: queue_held_def)
  obtain ptr h where alloc: "netcode_create_payload_packet (int (length data)) (w_heap w) = Some (ptr, h)"
    using create_payload_runs [OF n] by blast
  show ?thesis
  proof (cases ptr)
    case None
    note failed = world_inv_alloc_failed [OF w n alloc [unfolded None]]
    have "queue_held ?sim B ?q (w\<lparr>w_heap := h\<rparr>)" by (rule queue_held_frame [OF held failed])
    moreover have "frame B w (w\<lparr>w_heap := h\<rparr>)" by (rule frame_mono [OF failed(2)]) simp
    ultimately show ?thesis
      using alloc None loop ok client_inv_idle [OF inv]
      by (simp add: netcode_client_process_loopback_packet_def runs_simps client_inv_def)
  next
    case (Some p)
    let ?w = "w\<lparr>w_heap := heap_store p (Packet_block (CONNECTION_PAYLOAD_PACKET data)) h\<rparr>"
    note new = payload_block_fresh [OF w n alloc [unfolded Some]]
    have "world_inv ?sim (B \<union> queue_ptrs ?q) ?w" by (rule world_inv_mono [OF new(1)]) auto
    then have "queue_held ?sim B ?q ?w" by (rule queue_held_frame [OF held _ new(4)])
    moreover have "frame B w ?w" by (rule frame_mono [OF new(4)]) simp
    moreover have "cl_state client = NETCODE_CLIENT_STATE_CONNECTED" using ok loop by (simp add: client_ok_def)
    ultimately show ?thesis
      using alloc Some loop ok runs_queue_push [OF _ new(1,2,3), of s]
      unfolding netcode_client_process_loopback_packet_def
      by (auto simp: runs_simps client_inv_def elim!: runs_mono intro: frame_trans)
  qed
qed

section \<open>Creation and destruction\<close>

lemma new_client_inv:
  assumes "world_inv sim B w" and "client_ready (new_client address socket time sim)"
  shows "client_inv B (new_client address socket time sim) w"
  using assms
  by (simp add: client_inv_def client_ok_def new_client_def queue_held_def client_ready_def)

lemma runs_client_destroy:
  assumes laws: "aead_laws cr" and inv: "client_inv (insert p B) client w" and p: "p \<notin> B" and init: "w_initialized w"
  shows "runs (netcode_client_destroy cr p client w)
    (\<lambda>w'. world_inv (cl_network_simulator client) B w' \<and> frame B w w')"
proof -
  have finish: "runs (do { (socket, w) \<leftarrow> netcode_socket_destroy (cl_socket c) w1;
        (queue, h) \<leftarrow> netcode_packet_queue_clear (cl_packet_receive_queue c) (w_heap w);
        w_free (Some p) (w\<lparr>w_heap := h\<rparr>) })
      (\<lambda>w'. world_inv (cl_network_simulator client) B w' \<and> frame B w w')"
    if c: "client_inv (insert p B) c w1" "frame (insert p B) w w1" "pq_num_packets (cl_packet_receive_queue c) = 0"
      "cl_network_simulator c = cl_network_simulator client" for c w1
  proof -
    have "w_initialized w1" using init c(2) by (simp add: frame_def)
    then obtain socket cs where d: "netcode_socket_destroy (cl_socket c) w1 = Some (socket, w1\<lparr>w_closed := cs\<rparr>)"
      by (rule socket_destroyed)
    have "queue_ptrs (cl_packet_receive_queue c) = {}" using c(3) by (simp add: queue_ptrs_def queue_contents_def)
    then have "world_inv (cl_network_simulator client) (insert p B) (w1\<lparr>w_closed := cs\<rparr>)"
      using c(1,4) by (simp add: client_inv_def queue_held_def)
    from runs_w_free [OF this p] show ?thesis
      using frame_mono [OF c(2) subset_insertI]
      by (auto simp: d c(3) runs_simps frame_def elim!: runs_mono)
  qed
  show ?thesis
  proof (cases "cl_loopback client")
    case True
    show ?thesis
      unfolding netcode_client_destroy_def runs_bind
      by (simp only: True if_False not_True_eq_False)
        (rule runs_mono [OF runs_client_disconnect_loopback [OF inv True]],
          elim case_prodE conjE, hypsubst, unfold prod.case, rule finish, simp_all add: client_inv_def)
  next
    case False
    show ?thesis
      unfolding netcode_client_destroy_def runs_bind
      by (simp only: False if_True not_False_eq_True)
        (rule runs_mono [OF runs_client_disconnect [OF laws inv False]],
          elim case_prodE conjE, hypsubst, unfold prod.case, rule finish, simp_all add: client_inv_def)
  qed
qed

end
