(* ===== verification/Encryption_Manager.thy ===== *)
theory Encryption_Manager
  imports World
begin

text \<open>
  \<^verbatim>\<open>struct netcode_encryption_manager_t\<close>: the server's map from addresses to the keys of their connection, in 1024
  slots of which the first \<open>em_num_encryption_mappings\<close> are searched. An index of -1 is \<open>None\<close>. The abstract
  view \<open>em_lookup\<close> is the partial map from addresses to slots that a search at a given time finds.
\<close>

abbreviation (input) NETCODE_MAX_ENCRYPTION_MAPPINGS :: nat where
  "NETCODE_MAX_ENCRYPTION_MAPPINGS \<equiv> NETCODE_MAX_CLIENTS * 4"

record encryption_manager =
  em_num_encryption_mappings :: nat
  em_timeout :: "int array"
  em_expire_time :: "dbl array"
  em_last_access_time :: "dbl array"
  em_address :: "netcode_address array"
  em_send_key :: "bytes array"
  em_receive_key :: "bytes array"

section \<open>Operations\<close>

definition netcode_encryption_manager_reset :: encryption_manager where
  "netcode_encryption_manager_reset = \<lparr>
     em_num_encryption_mappings = 0,
     em_timeout = (\<lambda>_. 0),
     em_expire_time = (\<lambda>_. - 1),
     em_last_access_time = (\<lambda>_. - 1000),
     em_address = (\<lambda>_. zero_address),
     em_send_key = (\<lambda>_. replicate NETCODE_KEY_BYTES 0),
     em_receive_key = (\<lambda>_. replicate NETCODE_KEY_BYTES 0)\<rparr>"

fun netcode_encryption_manager_entry_expired :: "encryption_manager \<Rightarrow> nat option \<Rightarrow> dbl \<Rightarrow> bool" where
  "netcode_encryption_manager_entry_expired em None time = False"
| "netcode_encryption_manager_entry_expired em (Some i) time =
     (if em_timeout em i > 0 \<and> em_last_access_time em i + of_int (em_timeout em i) < time then True
      else if em_expire_time em i \<ge> 0 \<and> em_expire_time em i < time then True
      else False)"

text \<open>The assignments to a slot that both loops of the insertion make.\<close>

definition em_set_entry ::
    "encryption_manager \<Rightarrow> nat \<Rightarrow> bytes \<Rightarrow> bytes \<Rightarrow> dbl \<Rightarrow> dbl \<Rightarrow> int \<Rightarrow> encryption_manager" where
  "em_set_entry em i send_key receive_key time expire_time timeout = em\<lparr>
     em_timeout := (em_timeout em)(i := timeout),
     em_expire_time := (em_expire_time em)(i := expire_time),
     em_last_access_time := (em_last_access_time em)(i := time),
     em_send_key := (em_send_key em)(i := send_key),
     em_receive_key := (em_receive_key em)(i := receive_key)\<rparr>"

definition em_matches :: "encryption_manager \<Rightarrow> netcode_address \<Rightarrow> dbl \<Rightarrow> nat \<Rightarrow> bool" where
  "em_matches em address time i \<longleftrightarrow>
     netcode_address_equal (em_address em i) address \<and> \<not> netcode_encryption_manager_entry_expired em (Some i) time"

definition em_free :: "encryption_manager \<Rightarrow> dbl \<Rightarrow> nat \<Rightarrow> bool" where
  "em_free em time i \<longleftrightarrow>
     address_type (em_address em i) = 0 \<or> netcode_encryption_manager_entry_expired em (Some i) time"

definition netcode_encryption_manager_add_encryption_mapping ::
    "encryption_manager \<Rightarrow> netcode_address \<Rightarrow> bytes \<Rightarrow> bytes \<Rightarrow> dbl \<Rightarrow> dbl \<Rightarrow> int \<Rightarrow> bool \<times> encryption_manager" where
  "netcode_encryption_manager_add_encryption_mapping em address send_key receive_key time expire_time timeout =
     (case first_index (em_matches em address time) (em_num_encryption_mappings em) of
        Some i \<Rightarrow> (True, em_set_entry em i send_key receive_key time expire_time timeout)
      | None \<Rightarrow>
          (case first_index (em_free em time) NETCODE_MAX_ENCRYPTION_MAPPINGS of
             Some i \<Rightarrow>
               let em = (em_set_entry em i send_key receive_key time expire_time timeout)
                          \<lparr>em_address := (em_address em)(i := address)\<rparr>
               in (True, if i + 1 > em_num_encryption_mappings em
                         then em\<lparr>em_num_encryption_mappings := i + 1\<rparr> else em)
           | None \<Rightarrow> (False, em)))"

text \<open>\<open>k\<close> is \<^verbatim>\<open>index + 1\<close>: the loop walks down over expired entries and gives the number of those that stay.\<close>

fun trim_expired :: "nat \<Rightarrow> encryption_manager \<Rightarrow> dbl \<Rightarrow> nat \<times> encryption_manager" where
  "trim_expired 0 em time = (0, em)"
| "trim_expired (Suc k) em time =
     (if \<not> netcode_encryption_manager_entry_expired em (Some k) time then (Suc k, em)
      else trim_expired k
        (em\<lparr>em_address := (em_address em)(k := ADDRESS_NONE (address_port (em_address em k)))\<rparr>) time)"

definition netcode_encryption_manager_remove_encryption_mapping ::
    "encryption_manager \<Rightarrow> netcode_address \<Rightarrow> dbl \<Rightarrow> bool \<times> encryption_manager" where
  "netcode_encryption_manager_remove_encryption_mapping em address time =
     (case first_index (\<lambda>i. netcode_address_equal (em_address em i) address) (em_num_encryption_mappings em) of
        None \<Rightarrow> (False, em)
      | Some i \<Rightarrow>
          let em = em\<lparr>
                em_expire_time := (em_expire_time em)(i := - 1),
                em_last_access_time := (em_last_access_time em)(i := - 1000),
                em_address := (em_address em)(i := zero_address),
                em_send_key := (em_send_key em)(i := replicate NETCODE_KEY_BYTES 0),
                em_receive_key := (em_receive_key em)(i := replicate NETCODE_KEY_BYTES 0)\<rparr>
          in (True, if i + 1 = em_num_encryption_mappings em
                    then let (n, em) = trim_expired i em time in em\<lparr>em_num_encryption_mappings := n\<rparr>
                    else em))"

definition netcode_encryption_manager_find_encryption_mapping ::
    "encryption_manager \<Rightarrow> netcode_address \<Rightarrow> dbl \<Rightarrow> nat option \<times> encryption_manager" where
  "netcode_encryption_manager_find_encryption_mapping em address time =
     (case first_index (em_matches em address time) (em_num_encryption_mappings em) of
        Some i \<Rightarrow> (Some i, em\<lparr>em_last_access_time := (em_last_access_time em)(i := time)\<rparr>)
      | None \<Rightarrow> (None, em))"

text \<open>The two assertions on an index that must not be -1.\<close>

definition em_index :: "encryption_manager \<Rightarrow> nat option \<Rightarrow> nat option" where
  "em_index em index = do { i \<leftarrow> index; c_assert (i < em_num_encryption_mappings em); Some i }"

definition netcode_encryption_manager_touch ::
    "encryption_manager \<Rightarrow> nat option \<Rightarrow> netcode_address \<Rightarrow> dbl \<Rightarrow> (bool \<times> encryption_manager) option" where
  "netcode_encryption_manager_touch em index address time =
     do { i \<leftarrow> em_index em index;
          Some (if \<not> netcode_address_equal (em_address em i) address then (False, em)
                else (True, em\<lparr>em_last_access_time := (em_last_access_time em)(i := time)\<rparr>)) }"

definition netcode_encryption_manager_set_expire_time ::
    "encryption_manager \<Rightarrow> nat option \<Rightarrow> dbl \<Rightarrow> encryption_manager option" where
  "netcode_encryption_manager_set_expire_time em index expire_time =
     do { i \<leftarrow> em_index em index;
          Some (em\<lparr>em_expire_time := (em_expire_time em)(i := expire_time)\<rparr>) }"

text \<open>The getters: \<^verbatim>\<open>NULL\<close> (or 0) for -1, the slot's value otherwise.\<close>

definition netcode_encryption_manager_get_send_key :: "encryption_manager \<Rightarrow> nat option \<Rightarrow> bytes option option" where
  "netcode_encryption_manager_get_send_key em index =
     (if index = None then Some None else do { i \<leftarrow> em_index em index; Some (Some (em_send_key em i)) })"

definition netcode_encryption_manager_get_receive_key :: "encryption_manager \<Rightarrow> nat option \<Rightarrow> bytes option option" where
  "netcode_encryption_manager_get_receive_key em index =
     (if index = None then Some None else do { i \<leftarrow> em_index em index; Some (Some (em_receive_key em i)) })"

definition netcode_encryption_manager_get_timeout :: "encryption_manager \<Rightarrow> nat option \<Rightarrow> int option" where
  "netcode_encryption_manager_get_timeout em index =
     (if index = None then Some 0 else do { i \<leftarrow> em_index em index; Some (em_timeout em i) })"

section \<open>The interface: a table of keys\<close>

text \<open>
  What the server relies on. \<open>entry s a i k u\<close>: the slot \<open>i\<close> is the address \<open>a\<close>'s, with the contents \<open>k\<close>, and was
  last used at the time \<open>u\<close>; \<open>alive k u t\<close>: at the time \<open>t\<close> it is not too old. An operation for one address leaves the slots of
  all others, as long as they are alive, and makes none for them; a search finds the first slot of its address that is alive, and counts as a use.
\<close>

datatype ('a, 'k) table_op = Table_add 'a 'k | Table_find 'a | Table_remove 'a

fun op_address :: "('a, 'k) table_op \<Rightarrow> 'a" where
  "op_address (Table_add a k) = a"
| "op_address (Table_find a) = a"
| "op_address (Table_remove a) = a"

fun op_ok :: "('a \<Rightarrow> bool) \<Rightarrow> ('k \<Rightarrow> bool) \<Rightarrow> ('a, 'k) table_op \<Rightarrow> bool" where
  "op_ok addr_ok key_ok (Table_add a k) \<longleftrightarrow> addr_ok a \<and> key_ok k"
| "op_ok addr_ok key_ok (Table_find a) \<longleftrightarrow> addr_ok a"
| "op_ok addr_ok key_ok (Table_remove a) \<longleftrightarrow> addr_ok a"

text \<open>Whether an entry with the contents \<open>k\<close>, last used at \<open>u\<close>, is alive at each search for its address, the last of which is at \<open>t\<close>.\<close>

fun kept_alive :: "('k \<Rightarrow> 't \<Rightarrow> 't \<Rightarrow> bool) \<Rightarrow> 'a \<Rightarrow> 'k \<Rightarrow> 't \<Rightarrow> ('t \<times> ('a, 'k) table_op) list \<Rightarrow> 't \<Rightarrow> bool" where
  "kept_alive alive a k u [] t \<longleftrightarrow> alive k u t"
| "kept_alive alive a k u ((t', p) # ps) t \<longleftrightarrow>
     (if op_address p = a then alive k u t' \<and> kept_alive alive a k t' ps t else kept_alive alive a k u ps t)"

text \<open>Operations that do not change the entry of \<open>a\<close>: all those for other addresses, and searches.\<close>

definition leaves_entry :: "'a \<Rightarrow> ('a, 'k) table_op \<Rightarrow> bool" where
  "leaves_entry a p \<longleftrightarrow> (op_address p = a \<longrightarrow> p = Table_find a)"

locale key_table =
  fixes entry :: "'s \<Rightarrow> 'a \<Rightarrow> nat \<Rightarrow> 'k \<Rightarrow> 't::linorder \<Rightarrow> bool"
    and alive :: "'k \<Rightarrow> 't \<Rightarrow> 't \<Rightarrow> bool"
    and add :: "'s \<Rightarrow> 'a \<Rightarrow> 'k \<Rightarrow> 't \<Rightarrow> bool \<times> 's"
    and find :: "'s \<Rightarrow> 'a \<Rightarrow> 't \<Rightarrow> nat option \<times> 's"
    and remove :: "'s \<Rightarrow> 'a \<Rightarrow> 't \<Rightarrow> bool \<times> 's"
    and ok :: "'s \<Rightarrow> bool" and addr_ok :: "'a \<Rightarrow> bool" and key_ok :: "'k \<Rightarrow> bool"
  assumes alive_earlier: "alive k u t' \<Longrightarrow> t \<le> t' \<Longrightarrow> alive k u t"
    and add_ok: "ok s \<Longrightarrow> addr_ok a \<Longrightarrow> key_ok k \<Longrightarrow> ok (snd (add s a k t))"
    and add_keeps: "ok s \<Longrightarrow> addr_ok a \<Longrightarrow> addr_ok b \<Longrightarrow> b \<noteq> a \<Longrightarrow> entry s b i k' u \<Longrightarrow> alive k' u t \<Longrightarrow>
      entry (snd (add s a k t)) b i k' u"
    and add_old: "ok s \<Longrightarrow> addr_ok a \<Longrightarrow> addr_ok b \<Longrightarrow> b \<noteq> a \<Longrightarrow> entry (snd (add s a k t)) b i k' u \<Longrightarrow> entry s b i k' u"
    and add_entry: "ok s \<Longrightarrow> addr_ok a \<Longrightarrow> fst (add s a k t) \<Longrightarrow>
      \<exists>i. entry (snd (add s a k t)) a i k t
        \<and> (\<forall>j k' u. entry (snd (add s a k t)) a j k' u \<longrightarrow> j = i \<and> k' = k \<and> u = t \<or> j \<noteq> i \<and> entry s a j k' u)
        \<and> (\<forall>j < i. \<forall>k' u. entry (snd (add s a k t)) a j k' u \<longrightarrow> \<not> alive k' u t)"
    and find_ok: "ok s \<Longrightarrow> ok (snd (find s a t))"
    and find_others: "ok s \<Longrightarrow> addr_ok a \<Longrightarrow> addr_ok b \<Longrightarrow> b \<noteq> a \<Longrightarrow> entry (snd (find s a t)) b i k u \<longleftrightarrow> entry s b i k u"
    and find_first: "ok s \<Longrightarrow> addr_ok a \<Longrightarrow> fst (find s a t) = Some i \<longleftrightarrow>
      (\<exists>k u. entry s a i k u \<and> alive k u t) \<and> (\<forall>j < i. \<forall>k u. entry s a j k u \<longrightarrow> \<not> alive k u t)"
    and find_uses: "ok s \<Longrightarrow> fst (find s a t) = Some i \<Longrightarrow>
      entry (snd (find s a t)) a j k u \<longleftrightarrow> (if j = i then u = t \<and> (\<exists>v. entry s a i k v) else entry s a j k u)"
    and find_none: "fst (find s a t) = None \<Longrightarrow> snd (find s a t) = s"
    and remove_ok: "ok s \<Longrightarrow> ok (snd (remove s a t))"
    and remove_keeps: "ok s \<Longrightarrow> addr_ok a \<Longrightarrow> addr_ok b \<Longrightarrow> b \<noteq> a \<Longrightarrow> entry s b i k u \<Longrightarrow> alive k u t \<Longrightarrow>
      entry (snd (remove s a t)) b i k u"
    and remove_old: "ok s \<Longrightarrow> addr_ok a \<Longrightarrow> addr_ok b \<Longrightarrow> b \<noteq> a \<Longrightarrow> entry (snd (remove s a t)) b i k u \<Longrightarrow> entry s b i k u"
begin

fun table_step :: "'t \<times> ('a, 'k) table_op \<Rightarrow> 's \<Rightarrow> 's" where
  "table_step (t, Table_add a k) s = snd (add s a k t)"
| "table_step (t, Table_find a) s = snd (find s a t)"
| "table_step (t, Table_remove a) s = snd (remove s a t)"

lemma step_ok: "ok s \<Longrightarrow> op_ok addr_ok key_ok p \<Longrightarrow> ok (table_step (t, p) s)"
  by (cases p) (simp_all add: add_ok find_ok remove_ok)

lemma step_keeps:
  "ok s \<Longrightarrow> op_ok addr_ok key_ok p \<Longrightarrow> addr_ok b \<Longrightarrow> op_address p \<noteq> b \<Longrightarrow> entry s b i k u \<Longrightarrow> alive k u t \<Longrightarrow>
   entry (table_step (t, p) s) b i k u"
  by (cases p) (auto simp: add_keeps find_others remove_keeps)

lemma step_old:
  "ok s \<Longrightarrow> op_ok addr_ok key_ok p \<Longrightarrow> addr_ok b \<Longrightarrow> op_address p \<noteq> b \<Longrightarrow> entry (table_step (t, p) s) b i k u \<Longrightarrow>
   entry s b i k u"
  by (cases p) (simp_all add: find_others, metis add_old, metis remove_old)

text \<open>The entry \<open>i\<close> of \<open>a\<close> is the one that a search from the time \<open>now\<close> on finds, if it is alive then.\<close>

definition first_entry :: "'s \<Rightarrow> 'a \<Rightarrow> nat \<Rightarrow> 'k \<Rightarrow> 't \<Rightarrow> 't \<Rightarrow> bool" where
  "first_entry s a i k u now \<longleftrightarrow> entry s a i k u \<and> (\<forall>j < i. \<forall>k' u'. entry s a j k' u' \<longrightarrow> \<not> alive k' u' now)"

text \<open>It is the only one, if it is there at all.\<close>

definition only_entry :: "'s \<Rightarrow> 'a \<Rightarrow> nat \<Rightarrow> 'k \<Rightarrow> 't \<Rightarrow> bool" where
  "only_entry s a i k u \<longleftrightarrow> (\<forall>j k' u'. entry s a j k' u' \<longrightarrow> j = i \<and> k' = k \<and> u' = u)"

lemma first_step:
  assumes "ok s" and "op_ok addr_ok key_ok p" and "addr_ok a" and "op_address p \<noteq> a"
    and "first_entry s a i k u now" and "now \<le> t" and "alive k u t"
  shows "first_entry (table_step (t, p) s) a i k u t"
  using assms step_keeps [OF assms(1-4), of i k u t] step_old [OF assms(1-4)] alive_earlier [OF _ assms(6)]
  unfolding first_entry_def by blast

lemma first_find:
  assumes "ok s" and "addr_ok a" and "first_entry s a i k u now" and "now \<le> t" and "alive k u t"
  shows "fst (find s a t) = Some i" and "first_entry (snd (find s a t)) a i k t t"
proof -
  show found: "fst (find s a t) = Some i"
    using assms alive_earlier [OF _ assms(4)] unfolding find_first [OF assms(1,2)] first_entry_def by blast
  show "first_entry (snd (find s a t)) a i k t t"
    using assms(3) find_uses [OF assms(1) found] unfolding first_entry_def by (auto dest: alive_earlier [OF _ assms(4)])
qed

lemma only_step:
  assumes "ok s" and "op_ok addr_ok key_ok p" and "addr_ok a" and "op_address p \<noteq> a" and "only_entry s a i k u"
  shows "only_entry (table_step (t, p) s) a i k u"
  using assms(5) step_old [OF assms(1-4)] unfolding only_entry_def by blast

lemma only_find:
  assumes "ok s" and "addr_ok a" and "only_entry s a i k u" and "fst (find s a t) = Some i"
  shows "only_entry (snd (find s a t)) a i k t"
  using assms(3) find_uses [OF assms(1,4)] unfolding only_entry_def by (auto split: if_splits)

lemma dead_find:
  assumes "ok s" and "addr_ok a" and "only_entry s a i k u" and "\<not> alive k u t"
  shows "fst (find s a t) = None"
proof (rule ccontr)
  assume "fst (find s a t) \<noteq> None"
  then obtain j where "fst (find s a t) = Some j" by blast
  with assms show False unfolding find_first [OF assms(1,2)] only_entry_def by blast
qed

lemma kept_alive_at:
  "kept_alive alive a k u ps t \<Longrightarrow> sorted (now # map fst ps @ [t]) \<Longrightarrow> alive k u now"
proof (induction ps)
  case (Cons q ps)
  then show ?case by (cases q) (auto split: if_splits dest: alive_earlier)
qed (auto intro: alive_earlier)

text \<open>What was added is found while it is kept alive, whatever is done for other addresses in between; once it was not, it is not
  found any more, unless there was another entry of the address.\<close>

lemma kept_is_found:
  assumes "addr_ok a" and "ok s" and "first_entry s a i k u now" and "sorted (now # map fst ps @ [t])"
    and "list_all (\<lambda>(_, p). op_ok addr_ok key_ok p \<and> leaves_entry a p) ps" and "kept_alive alive a k u ps t"
  shows "ok (fold table_step ps s) \<and> fst (find (fold table_step ps s) a t) = Some i
    \<and> entry (snd (find (fold table_step ps s) a t)) a i k t"
  using assms(2-)
proof (induction ps arbitrary: s u now)
  case Nil
  then have "now \<le> t" "alive k u t" by simp_all
  from first_find [OF Nil(1) assms(1) Nil(2) this] Nil(1) show ?case unfolding first_entry_def by simp
next
  case (Cons q ps)
  obtain t' p where q: "q = (t', p)" by (cases q)
  have p: "op_ok addr_ok key_ok p" "leaves_entry a p" and now: "now \<le> t'" "sorted (t' # map fst ps @ [t])"
    using Cons.prems(3,4) by (auto simp: q)
  show ?case
  proof (cases "op_address p = a")
    case True
    with p(2) have "p = Table_find a" by (simp add: leaves_entry_def)
    moreover have "alive k u t'" "kept_alive alive a k t' ps t" using Cons.prems(5) True by (simp_all add: q)
    ultimately show ?thesis
      using Cons.IH [OF find_ok [OF Cons.prems(1)] first_find(2) [OF Cons.prems(1) assms(1) Cons.prems(2) now(1)] now(2)] Cons.prems(4)
      by (simp add: q)
  next
    case False
    then have kept: "kept_alive alive a k u ps t" using Cons.prems(5) by (simp add: q)
    note alive = kept_alive_at [OF this now(2)]
    show ?thesis
      using Cons.IH [OF step_ok [OF Cons.prems(1) p(1)] first_step [OF Cons.prems(1) p(1) assms(1) False Cons.prems(2) now(1) alive] now(2)]
        Cons.prems(4) kept by (simp add: q)
  qed
qed

lemma dead_is_lost:
  assumes "addr_ok a" and "ok s" and "only_entry s a i k u" and "\<not> alive k u now" and "sorted (now # map fst ps @ [t])"
    and "list_all (\<lambda>(_, p). op_ok addr_ok key_ok p \<and> leaves_entry a p) ps"
  shows "fst (find (fold table_step ps s) a t) = None"
  using assms(2-)
proof (induction ps arbitrary: s now)
  case Nil
  with alive_earlier have "\<not> alive k u t" by fastforce
  with dead_find [OF Nil(1) assms(1) Nil(2)] show ?case by simp
next
  case (Cons q ps)
  obtain t' p where q: "q = (t', p)" by (cases q)
  have p: "op_ok addr_ok key_ok p" "leaves_entry a p" and now: "now \<le> t'" "sorted (t' # map fst ps @ [t])"
    using Cons.prems(4,5) by (auto simp: q)
  have dead: "\<not> alive k u t'" using Cons.prems(3) now(1) alive_earlier by blast
  have "ok (table_step q s) \<and> only_entry (table_step q s) a i k u"
  proof (cases "op_address p = a")
    case True
    with p(2) have "p = Table_find a" by (simp add: leaves_entry_def)
    with Cons.prems(1,2) find_none [OF dead_find [OF Cons.prems(1) assms(1) Cons.prems(2) dead]] show ?thesis by (simp add: q)
  next
    case False
    with only_step [OF Cons.prems(1) p(1) assms(1) False Cons.prems(2)] step_ok [OF Cons.prems(1) p(1)] show ?thesis by (simp add: q)
  qed
  with Cons.IH [OF _ _ dead now(2)] Cons.prems(5) show ?case by simp
qed

lemma unkept_is_lost:
  assumes "addr_ok a" and "ok s" and "first_entry s a i k u now" and "only_entry s a i k u" and "sorted (now # map fst ps @ [t])"
    and "list_all (\<lambda>(_, p). op_ok addr_ok key_ok p \<and> leaves_entry a p) ps" and "\<not> kept_alive alive a k u ps t"
  shows "fst (find (fold table_step ps s) a t) = None"
  using assms(2-)
proof (induction ps arbitrary: s u now)
  case Nil
  with dead_find [OF Nil(1) assms(1) Nil(3)] show ?case by simp
next
  case (Cons q ps)
  obtain t' p where q: "q = (t', p)" by (cases q)
  have p: "op_ok addr_ok key_ok p" "leaves_entry a p" and now: "now \<le> t'" "sorted (t' # map fst ps @ [t])" "sorted (now # map fst ((t', p) # ps) @ [t])"
    using Cons.prems(4,5) by (auto simp: q)
  show ?case
  proof (cases "alive k u t'")
    case False
    have "sorted (t' # map fst (q # ps) @ [t])" using now(2) by (simp add: q)
    then show ?thesis by (rule dead_is_lost [OF assms(1) Cons.prems(1,3) False _ Cons.prems(5)])
  next
    case alive: True
    show ?thesis
    proof (cases "op_address p = a")
      case True
      with p(2) have "p = Table_find a" by (simp add: leaves_entry_def)
      moreover note find = first_find [OF Cons.prems(1) assms(1) Cons.prems(2) now(1) alive]
      ultimately show ?thesis
        using Cons.IH [OF find_ok [OF Cons.prems(1)] find(2) only_find [OF Cons.prems(1) assms(1) Cons.prems(3) find(1)] now(2)]
          Cons.prems(5,6) alive by (simp add: q)
    next
      case False
      then show ?thesis
        using Cons.IH [OF step_ok [OF Cons.prems(1) p(1)] first_step [OF Cons.prems(1) p(1) assms(1) False Cons.prems(2) now(1) alive]
            only_step [OF Cons.prems(1) p(1) assms(1) False Cons.prems(3)] now(2)] Cons.prems(5,6) by (simp add: q)
    qed
  qed
qed

lemma added_is_found:
  assumes "ok s" and "addr_ok a" and "key_ok k" and added: "fst (add s a k t0)"
    and ops: "sorted (t0 # map fst ps @ [t])" "list_all (\<lambda>(_, p). op_ok addr_ok key_ok p \<and> leaves_entry a p) ps"
  shows "kept_alive alive a k t0 ps t \<Longrightarrow> \<exists>i. ok (fold table_step ps (snd (add s a k t0)))
      \<and> fst (find (fold table_step ps (snd (add s a k t0))) a t) = Some i
      \<and> entry (snd (find (fold table_step ps (snd (add s a k t0))) a t)) a i k t"
    and "\<not> kept_alive alive a k t0 ps t \<Longrightarrow> \<forall>i k u. \<not> entry s a i k u \<Longrightarrow>
      fst (find (fold table_step ps (snd (add s a k t0))) a t) = None"
proof -
  let ?s = "snd (add s a k t0)"
  have ok: "ok ?s" by (rule add_ok [OF assms(1-3)])
  obtain i where i: "entry ?s a i k t0"
      "\<forall>j k' u. entry ?s a j k' u \<longrightarrow> j = i \<and> k' = k \<and> u = t0 \<or> j \<noteq> i \<and> entry s a j k' u"
      "\<forall>j < i. \<forall>k' u. entry ?s a j k' u \<longrightarrow> \<not> alive k' u t0"
    using add_entry [OF assms(1,2) added] by blast
  then have first: "first_entry ?s a i k t0 t0" by (simp add: first_entry_def)
  show "\<exists>i. ok (fold table_step ps ?s) \<and> fst (find (fold table_step ps ?s) a t) = Some i
      \<and> entry (snd (find (fold table_step ps ?s) a t)) a i k t" if "kept_alive alive a k t0 ps t"
    using kept_is_found [OF assms(2) ok first ops that] by blast
  show "fst (find (fold table_step ps ?s) a t) = None"
    if "\<not> kept_alive alive a k t0 ps t" "\<forall>i k u. \<not> entry s a i k u"
  proof -
    have "only_entry ?s a i k t0" using i(2) that(2) unfolding only_entry_def by blast
    from unkept_is_lost [OF assms(2) ok first this ops that(1)] show ?thesis .
  qed
qed

end

section \<open>The encryption manager is a table of keys\<close>

definition em_ok :: "encryption_manager \<Rightarrow> bool" where
  "em_ok em \<longleftrightarrow> em_num_encryption_mappings em \<le> NETCODE_MAX_ENCRYPTION_MAPPINGS
     \<and> (\<forall>i. length (em_send_key em i) = NETCODE_KEY_BYTES \<and> length (em_receive_key em i) = NETCODE_KEY_BYTES)
     \<and> (\<forall>i. address_wf (em_address em i))
     \<and> (\<forall>i \<ge> em_num_encryption_mappings em. address_type (em_address em i) = 0)"

type_synonym mapping_data = "bytes \<times> bytes \<times> dbl \<times> int"

definition em_contents :: "encryption_manager \<Rightarrow> nat \<Rightarrow> mapping_data" where
  "em_contents em i = (em_send_key em i, em_receive_key em i, em_expire_time em i, em_timeout em i)"

definition em_slot :: "encryption_manager \<Rightarrow> dbl \<Rightarrow> netcode_address \<Rightarrow> nat \<Rightarrow> mapping_data \<Rightarrow> bool" where
  "em_slot em time address i d \<longleftrightarrow> i < em_num_encryption_mappings em \<and> em_matches em address time i \<and> em_contents em i = d"

text \<open>The entry without the time, and the time.\<close>

definition em_entry :: "encryption_manager \<Rightarrow> netcode_address \<Rightarrow> nat \<Rightarrow> mapping_data \<Rightarrow> dbl \<Rightarrow> bool" where
  "em_entry em address i d u \<longleftrightarrow> i < em_num_encryption_mappings em \<and> netcode_address_equal (em_address em i) address
     \<and> em_contents em i = d \<and> em_last_access_time em i = u"

fun mapping_alive :: "mapping_data \<Rightarrow> dbl \<Rightarrow> dbl \<Rightarrow> bool" where
  "mapping_alive (_, _, expire_time, timeout) last_access time \<longleftrightarrow>
     \<not> (0 < timeout \<and> last_access + of_int timeout < time) \<and> \<not> (0 \<le> expire_time \<and> expire_time < time)"

definition em_add :: "encryption_manager \<Rightarrow> netcode_address \<Rightarrow> mapping_data \<Rightarrow> dbl \<Rightarrow> bool \<times> encryption_manager" where
  "em_add em address = (\<lambda>(send_key, receive_key, expire_time, timeout) time.
     netcode_encryption_manager_add_encryption_mapping em address send_key receive_key time expire_time timeout)"

fun mapping_ok :: "mapping_data \<Rightarrow> bool" where
  "mapping_ok (send_key, receive_key, _) \<longleftrightarrow> length send_key = NETCODE_KEY_BYTES \<and> length receive_key = NETCODE_KEY_BYTES"

lemma em_ok_reset [simp]: "em_ok netcode_encryption_manager_reset"
  by (simp add: em_ok_def netcode_encryption_manager_reset_def zero_address_def)

lemma em_matches_eq:
  "em_ok em \<Longrightarrow> address_ok a \<Longrightarrow> em_matches em a t i \<longleftrightarrow>
   em_address em i = a \<and> \<not> netcode_encryption_manager_entry_expired em (Some i) t"
  by (auto simp: em_matches_def em_ok_def address_ok_def address_equal_iff)

lemma mapping_alive_earlier: "mapping_alive d u t' \<Longrightarrow> t \<le> t' \<Longrightarrow> mapping_alive d u t"
  by (cases d) auto

lemma entry_expired_iff:
  "netcode_encryption_manager_entry_expired em (Some i) t \<longleftrightarrow> \<not> mapping_alive (em_contents em i) (em_last_access_time em i) t"
  by (auto simp: em_contents_def)

lemma em_slot_entry: "em_slot em t a i d \<longleftrightarrow> (\<exists>u. em_entry em a i d u \<and> mapping_alive d u t)"
  unfolding em_slot_def em_entry_def em_matches_def entry_expired_iff by auto

lemma em_entry_used: "em_ok em \<Longrightarrow> netcode_address_equal (em_address em i) a \<Longrightarrow> i < em_num_encryption_mappings em"
  using address_equal_type [of "em_address em i" a] by (auto simp: em_ok_def not_le [symmetric])

lemma em_same_address:
  "em_ok em \<Longrightarrow> address_ok a \<Longrightarrow> address_ok b \<Longrightarrow> netcode_address_equal (em_address em i) a \<Longrightarrow>
   netcode_address_equal (em_address em i) b \<Longrightarrow> b = a"
  by (auto simp: em_ok_def address_ok_def address_equal_iff)

text \<open>A slot in use is below the number of mappings, and is not free.\<close>

lemma em_matches_used:
  assumes "em_ok em" and "em_matches em a t i"
  shows "i < em_num_encryption_mappings em" and "\<not> em_free em t i"
  using assms address_equal_type [of "em_address em i" a]
  by (auto simp: em_ok_def em_matches_def em_free_def not_le [symmetric])

lemma em_slot_ex [simp]: "(\<exists>d. em_slot em t a i d) \<longleftrightarrow> i < em_num_encryption_mappings em \<and> em_matches em a t i"
  by (simp add: em_slot_def del: split_paired_Ex)

lemma em_slot_all [simp]: "(\<forall>d. \<not> em_slot em t a i d) \<longleftrightarrow> \<not> (i < em_num_encryption_mappings em \<and> em_matches em a t i)"
  by (auto simp: em_slot_def simp del: split_paired_All)

lemma first_match:
  assumes "em_ok em"
  shows "first_index (em_matches em a t) (em_num_encryption_mappings em) = Some i \<longleftrightarrow>
    (\<exists>d. em_slot em t a i d) \<and> (\<forall>j < i. \<forall>d. \<not> em_slot em t a j d)"
  by (auto simp: first_index_Some simp del: split_paired_Ex split_paired_All dest: less_trans)

text \<open>The two ways an insertion goes.\<close>

lemma em_add_cases:
  assumes "em_ok em"
  obtains (known) i where "em_slot em t a i (em_contents em i)" "\<forall>j < i. \<not> em_matches em a t j"
      "em_add em a (sk, rk, ex, to) t = (True, em_set_entry em i sk rk t ex to)"
  | (new) i em' where "\<forall>j < em_num_encryption_mappings em. \<not> em_matches em a t j"
      "i < NETCODE_MAX_ENCRYPTION_MAPPINGS" "em_free em t i"
      "em' = (em_set_entry em i sk rk t ex to)\<lparr>em_address := (em_address em)(i := a),
         em_num_encryption_mappings := max (i + 1) (em_num_encryption_mappings em)\<rparr>"
      "em_add em a (sk, rk, ex, to) t = (True, em')"
  | (full) "em_add em a (sk, rk, ex, to) t = (False, em)"
proof (cases "first_index (em_matches em a t) (em_num_encryption_mappings em)")
  case (Some i)
  then have "em_add em a (sk, rk, ex, to) t = (True, em_set_entry em i sk rk t ex to)"
    by (simp add: em_add_def netcode_encryption_manager_add_encryption_mapping_def)
  with Some show ?thesis by (intro known [of i]) (auto simp: first_index_Some em_slot_def)
next
  case None
  show ?thesis
  proof (cases "first_index (em_free em t) NETCODE_MAX_ENCRYPTION_MAPPINGS")
    case (Some i)
    let ?em = "(em_set_entry em i sk rk t ex to)\<lparr>em_address := (em_address em)(i := a),
         em_num_encryption_mappings := max (i + 1) (em_num_encryption_mappings em)\<rparr>"
    have "em_add em a (sk, rk, ex, to) t = (True, ?em)"
      using None Some by (simp add: em_add_def Let_def max_def
          netcode_encryption_manager_add_encryption_mapping_def em_set_entry_def)
    with None Some show ?thesis
      by (intro new [of i, OF _ _ _ refl]) (auto simp: first_index_None first_index_Some)
  next
    case None2: None
    with None show ?thesis
      by (intro full) (simp add: em_add_def netcode_encryption_manager_add_encryption_mapping_def)
  qed
qed

lemma em_set_entry_fields [simp]:
  "em_num_encryption_mappings (em_set_entry em i sk rk t ex to) = em_num_encryption_mappings em"
  "em_address (em_set_entry em i sk rk t ex to) = em_address em"
  by (simp_all add: em_set_entry_def)

lemma em_add_ok:
  assumes ok: "em_ok em" and a: "address_ok a" and d: "mapping_ok d"
  shows "em_ok (snd (em_add em a d t))"
proof -
  obtain sk rk ex to where [simp]: "d = (sk, rk, ex, to)" by (cases d) auto
  show ?thesis
    by (rule em_add_cases [OF ok, of t a sk rk ex to])
      (use ok a d in \<open>auto simp: em_ok_def em_set_entry_def em_slot_def address_ok_def\<close>)
qed

lemma em_add_keeps:
  assumes ok: "em_ok em" and a: "address_ok a" and b: "address_ok b" "b \<noteq> a"
    and e: "em_entry em b j d' u" and alive: "mapping_alive d' u t"
  shows "em_entry (snd (em_add em a d t)) b j d' u"
proof -
  obtain sk rk ex to where d: "d = (sk, rk, ex, to)" by (cases d) auto
  have m: "em_matches em b t j" using e alive em_slot_entry [of em t b j d'] by (auto simp: em_slot_def)
  show ?thesis unfolding d
  proof (rule em_add_cases [OF ok, of t a sk rk ex to])
    fix i assume i: "em_slot em t a i (em_contents em i)" "em_add em a (sk, rk, ex, to) t = (True, em_set_entry em i sk rk t ex to)"
    have "i \<noteq> j" using i(1) m em_same_address [OF ok a b(1), of i] b(2) by (auto simp: em_slot_def em_matches_def)
    with e i(2) show "em_entry (snd (em_add em a (sk, rk, ex, to) t)) b j d' u"
      by (simp add: em_entry_def em_contents_def em_set_entry_def)
  next
    fix i em' assume i: "em_free em t i" and em': "em' = (em_set_entry em i sk rk t ex to)\<lparr>em_address := (em_address em)(i := a),
         em_num_encryption_mappings := max (i + 1) (em_num_encryption_mappings em)\<rparr>"
      and add: "em_add em a (sk, rk, ex, to) t = (True, em')"
    have "i \<noteq> j" using i m em_matches_used(2) [OF ok] by blast
    with e show "em_entry (snd (em_add em a (sk, rk, ex, to) t)) b j d' u"
      by (auto simp: add em' em_entry_def em_contents_def em_set_entry_def)
  qed (use e in simp)
qed

lemma em_add_old:
  assumes ok: "em_ok em" and a: "address_ok a" and b: "address_ok b" "b \<noteq> a"
    and e: "em_entry (snd (em_add em a d t)) b j d' u"
  shows "em_entry em b j d' u"
proof -
  obtain sk rk ex to where d: "d = (sk, rk, ex, to)" by (cases d) auto
  note e = e [unfolded d]
  show ?thesis
  proof (rule em_add_cases [OF ok, of t a sk rk ex to])
    fix i assume i: "em_slot em t a i (em_contents em i)" "em_add em a (sk, rk, ex, to) t = (True, em_set_entry em i sk rk t ex to)"
    have "i \<noteq> j"
      using i e em_same_address [OF ok a b(1), of i] b(2) by (auto simp: em_slot_def em_matches_def em_entry_def)
    with e i(2) show ?thesis by (simp add: em_entry_def em_contents_def em_set_entry_def)
  next
    fix i em' assume em': "em' = (em_set_entry em i sk rk t ex to)\<lparr>em_address := (em_address em)(i := a),
         em_num_encryption_mappings := max (i + 1) (em_num_encryption_mappings em)\<rparr>"
      and add: "em_add em a (sk, rk, ex, to) t = (True, em')"
    have "i \<noteq> j" using e a b by (auto simp: add em' em_entry_def address_ok_def address_equal_iff)
    with e em_entry_used [OF ok, of j b] show ?thesis
      by (auto simp: add em' em_entry_def em_contents_def em_set_entry_def)
  qed (use e in simp)
qed

lemma em_add_others:
  assumes "em_ok em" and "address_ok a" and "address_ok b" "b \<noteq> a"
  shows "em_slot (snd (em_add em a d t)) t b j d' \<longleftrightarrow> em_slot em t b j d'"
  using em_add_keeps [OF assms] em_add_old [OF assms] unfolding em_slot_entry by blast

lemma em_add_entry:
  assumes ok: "em_ok em" and a: "address_ok a" and added: "fst (em_add em a d t)"
  shows "\<exists>i. em_entry (snd (em_add em a d t)) a i d t
    \<and> (\<forall>j d' u. em_entry (snd (em_add em a d t)) a j d' u \<longrightarrow> j = i \<and> d' = d \<and> u = t \<or> j \<noteq> i \<and> em_entry em a j d' u)
    \<and> (\<forall>j < i. \<forall>d' u. em_entry (snd (em_add em a d t)) a j d' u \<longrightarrow> \<not> mapping_alive d' u t)" (is "\<exists>i. ?entry i")
proof -
  obtain sk rk ex to where d: "d = (sk, rk, ex, to)" by (cases d) auto
  have unmatched: "\<not> mapping_alive d' u t" if "em_entry em a j d' u" "\<not> em_matches em a t j" for j d' u
    using that unfolding em_entry_def em_matches_def entry_expired_iff by auto
  show ?thesis
  proof (rule em_add_cases [OF ok, of t a sk rk ex to])
    fix i assume i: "em_slot em t a i (em_contents em i)" "\<forall>j < i. \<not> em_matches em a t j"
      and add: "em_add em a (sk, rk, ex, to) t = (True, em_set_entry em i sk rk t ex to)"
    have other: "em_entry (snd (em_add em a d t)) a j d' u \<longleftrightarrow> em_entry em a j d' u" if "j \<noteq> i" for j d' u
      using that by (simp add: d add em_entry_def em_contents_def em_set_entry_def)
    have this_one: "em_entry (snd (em_add em a d t)) a i d' u \<longleftrightarrow> d' = d \<and> u = t" for d' u
      using i(1) by (auto simp: d add em_entry_def em_slot_def em_matches_def em_contents_def em_set_entry_def)
    have "?entry i" using other this_one unmatched i(2) by (metis less_irrefl)
    then show ?thesis by blast
  next
    fix i em' assume none: "\<forall>j < em_num_encryption_mappings em. \<not> em_matches em a t j"
      and em': "em' = (em_set_entry em i sk rk t ex to)\<lparr>em_address := (em_address em)(i := a),
         em_num_encryption_mappings := max (i + 1) (em_num_encryption_mappings em)\<rparr>"
      and add: "em_add em a (sk, rk, ex, to) t = (True, em')"
    have other: "em_entry (snd (em_add em a d t)) a j d' u \<longleftrightarrow> em_entry em a j d' u" if "j \<noteq> i" for j d' u
      using that em_entry_used [OF ok, of j a] by (auto simp: d add em' em_entry_def em_contents_def em_set_entry_def)
    have this_one: "em_entry (snd (em_add em a d t)) a i d' u \<longleftrightarrow> d' = d \<and> u = t" for d' u
      using a by (auto simp: d add em' em_entry_def em_contents_def em_set_entry_def address_ok_def)
    have "\<not> em_matches em a t j" for j using none em_matches_used(1) [OF ok] by blast
    then have "?entry i" using other this_one unmatched by (metis less_irrefl)
    then show ?thesis by blast
  next
    assume "em_add em a (sk, rk, ex, to) t = (False, em)"
    with added show ?thesis by (simp add: d)
  qed
qed

lemma em_find_ok: "em_ok em \<Longrightarrow> em_ok (snd (netcode_encryption_manager_find_encryption_mapping em a t))"
  by (auto simp: netcode_encryption_manager_find_encryption_mapping_def em_ok_def split: option.split)

lemma em_find_keeps:
  "em_slot (snd (netcode_encryption_manager_find_encryption_mapping em a t)) t b i d \<longleftrightarrow> em_slot em t b i d"
  by (auto simp: netcode_encryption_manager_find_encryption_mapping_def em_slot_def em_matches_def em_contents_def
      first_index_Some split: option.split)

lemma em_find_first:
  "em_ok em \<Longrightarrow> fst (netcode_encryption_manager_find_encryption_mapping em a t) = Some i \<longleftrightarrow>
   (\<exists>d. em_slot em t a i d) \<and> (\<forall>j < i. \<forall>d. \<not> em_slot em t a j d)"
  by (simp only: first_match [symmetric])
    (auto simp: netcode_encryption_manager_find_encryption_mapping_def split: option.split)

lemma em_find_first_entry:
  "em_ok em \<Longrightarrow> fst (netcode_encryption_manager_find_encryption_mapping em a t) = Some i \<longleftrightarrow>
   (\<exists>d u. em_entry em a i d u \<and> mapping_alive d u t) \<and> (\<forall>j < i. \<forall>d u. em_entry em a j d u \<longrightarrow> \<not> mapping_alive d u t)"
  unfolding em_find_first em_slot_entry by blast

lemma em_find_others:
  assumes "em_ok em" and "address_ok a" and "address_ok b" "b \<noteq> a"
  shows "em_entry (snd (netcode_encryption_manager_find_encryption_mapping em a t)) b j d u \<longleftrightarrow> em_entry em b j d u"
  using em_same_address [OF assms(1-3), of j] assms(4)
  by (auto simp: netcode_encryption_manager_find_encryption_mapping_def em_entry_def em_contents_def first_index_Some em_matches_def
      split: option.split)

lemma em_find_uses:
  assumes "em_ok em" and "fst (netcode_encryption_manager_find_encryption_mapping em a t) = Some i"
  shows "em_entry (snd (netcode_encryption_manager_find_encryption_mapping em a t)) a j d u \<longleftrightarrow>
    (if j = i then u = t \<and> (\<exists>v. em_entry em a i d v) else em_entry em a j d u)"
  using assms(2)
  by (auto simp: netcode_encryption_manager_find_encryption_mapping_def em_entry_def em_contents_def split: option.splits)

lemma em_find_none:
  "fst (netcode_encryption_manager_find_encryption_mapping em a t) = None \<Longrightarrow>
   snd (netcode_encryption_manager_find_encryption_mapping em a t) = em"
  by (simp add: netcode_encryption_manager_find_encryption_mapping_def split: option.splits)

text \<open>The trimming loop: it stops above the last entry that is not expired.\<close>

lemma trim_expired_spec:
  assumes "trim_expired k em t = (n, em')"
  shows "n \<le> k" and "\<forall>i < k. n \<le> i \<longrightarrow> netcode_encryption_manager_entry_expired em (Some i) t"
    and "em' = em\<lparr>em_address := (\<lambda>i. if n \<le> i \<and> i < k then ADDRESS_NONE (address_port (em_address em i)) else em_address em i)\<rparr>"
proof -
  have "n \<le> k \<and> (\<forall>i < k. n \<le> i \<longrightarrow> netcode_encryption_manager_entry_expired em (Some i) t)
    \<and> em' = em\<lparr>em_address := (\<lambda>i. if n \<le> i \<and> i < k then ADDRESS_NONE (address_port (em_address em i)) else em_address em i)\<rparr>"
    using assms
  proof (induction k arbitrary: em)
    case 0
    then show ?case by simp
  next
    case (Suc k)
    show ?case
    proof (cases "netcode_encryption_manager_entry_expired em (Some k) t")
      case False
      with Suc.prems show ?thesis
        by (auto simp: fun_eq_iff simp del: netcode_encryption_manager_entry_expired.simps
            intro!: encryption_manager.equality)
    next
      case True
      have "netcode_encryption_manager_entry_expired (em\<lparr>em_address := x\<rparr>) j t
          = netcode_encryption_manager_entry_expired em j t" for x j by (cases j) auto
      with True Suc.IH [of "em\<lparr>em_address := (em_address em)(k := ADDRESS_NONE (address_port (em_address em k)))\<rparr>"] Suc.prems
      show ?thesis
        by (auto simp: less_Suc_eq fun_eq_iff simp del: netcode_encryption_manager_entry_expired.simps
            intro!: encryption_manager.equality)
    qed
  qed
  then show "n \<le> k" and "\<forall>i < k. n \<le> i \<longrightarrow> netcode_encryption_manager_entry_expired em (Some i) t"
    and "em' = em\<lparr>em_address := (\<lambda>i. if n \<le> i \<and> i < k then ADDRESS_NONE (address_port (em_address em i)) else em_address em i)\<rparr>"
    by auto
qed

text \<open>A removal clears one slot of the address and drops expired slots at the end.\<close>

lemma em_remove_cases:
  assumes "netcode_encryption_manager_remove_encryption_mapping em a t = (b, em')"
  obtains (none) "\<forall>i < em_num_encryption_mappings em. \<not> netcode_address_equal (em_address em i) a" "em' = em" "\<not> b"
  | (one) i where "i < em_num_encryption_mappings em" "netcode_address_equal (em_address em i) a" "b"
      "em_num_encryption_mappings em' \<le> em_num_encryption_mappings em"
      "\<And>j. j \<noteq> i \<Longrightarrow> j < em_num_encryption_mappings em' \<Longrightarrow> em_address em' j = em_address em j"
      "\<And>j. j \<noteq> i \<Longrightarrow> j < em_num_encryption_mappings em \<Longrightarrow> em_num_encryption_mappings em' \<le> j \<Longrightarrow>
         netcode_encryption_manager_entry_expired em (Some j) t"
      "\<And>j. em_num_encryption_mappings em' \<le> j \<Longrightarrow> j < em_num_encryption_mappings em \<Longrightarrow> address_type (em_address em' j) = 0"
      "\<And>j. em_num_encryption_mappings em \<le> j \<Longrightarrow> em_address em' j = em_address em j"
      "address_type (em_address em' i) = 0" "\<And>j. address_wf (em_address em j) \<Longrightarrow> address_wf (em_address em' j)"
      "\<And>j. j \<noteq> i \<Longrightarrow> em_contents em' j = em_contents em j"
      "\<And>j. j \<noteq> i \<Longrightarrow> em_last_access_time em' j = em_last_access_time em j"
      "length (em_send_key em' i) = NETCODE_KEY_BYTES" "length (em_receive_key em' i) = NETCODE_KEY_BYTES"
proof (cases "first_index (\<lambda>i. netcode_address_equal (em_address em i) a) (em_num_encryption_mappings em)")
  case None
  with assms show ?thesis
    by (intro none) (auto simp: netcode_encryption_manager_remove_encryption_mapping_def first_index_None)
next
  case (Some i)
  let ?em = "em\<lparr>em_expire_time := (em_expire_time em)(i := - 1),
                em_last_access_time := (em_last_access_time em)(i := - 1000),
                em_address := (em_address em)(i := zero_address),
                em_send_key := (em_send_key em)(i := replicate NETCODE_KEY_BYTES 0),
                em_receive_key := (em_receive_key em)(i := replicate NETCODE_KEY_BYTES 0)\<rparr>"
  have i: "i < em_num_encryption_mappings em" "netcode_address_equal (em_address em i) a"
    using first_index_SomeD [OF Some] by auto
  show ?thesis
  proof (cases "i + 1 = em_num_encryption_mappings em")
    case False
    then have "b" "em' = ?em" using assms Some by (auto simp: netcode_encryption_manager_remove_encryption_mapping_def)
    with i show ?thesis
      by (intro one [of i]) (auto simp: zero_address_def em_contents_def)
  next
    case True
    obtain n em2 where trim: "trim_expired i ?em t = (n, em2)" by fastforce
    then have em': "b" "em' = em2\<lparr>em_num_encryption_mappings := n\<rparr>"
      using assms Some True by (auto simp: netcode_encryption_manager_remove_encryption_mapping_def)
    note spec = trim_expired_spec [OF trim]
    have exp: "netcode_encryption_manager_entry_expired ?em (Some j) t = netcode_encryption_manager_entry_expired em (Some j) t"
      if "j \<noteq> i" for j using that by simp
    have wf: "address_wf (ADDRESS_NONE p)" for p by simp
    show ?thesis
      using i em' spec True exp
      by (intro one [of i]) (auto simp: zero_address_def em_contents_def
          simp del: netcode_encryption_manager_entry_expired.simps)
  qed
qed

lemma em_remove_ok:
  assumes ok: "em_ok em"
  shows "em_ok (snd (netcode_encryption_manager_remove_encryption_mapping em a t))"
proof -
  obtain b em' where r: "netcode_encryption_manager_remove_encryption_mapping em a t = (b, em')" by fastforce
  from r show ?thesis
  proof (rule em_remove_cases)
    fix i assume i: "em_num_encryption_mappings em' \<le> em_num_encryption_mappings em"
      "\<And>j. em_num_encryption_mappings em' \<le> j \<Longrightarrow> j < em_num_encryption_mappings em \<Longrightarrow> address_type (em_address em' j) = 0"
      "\<And>j. em_num_encryption_mappings em \<le> j \<Longrightarrow> em_address em' j = em_address em j"
      "\<And>j. address_wf (em_address em j) \<Longrightarrow> address_wf (em_address em' j)"
      "\<And>j. j \<noteq> i \<Longrightarrow> em_contents em' j = em_contents em j"
      "length (em_send_key em' i) = NETCODE_KEY_BYTES" "length (em_receive_key em' i) = NETCODE_KEY_BYTES"
    have "length (em_send_key em' j) = NETCODE_KEY_BYTES \<and> length (em_receive_key em' j) = NETCODE_KEY_BYTES" for j
      using i(5) [of j] i(6,7) ok by (cases "j = i") (auto simp: em_contents_def em_ok_def)
    moreover have "address_type (em_address em' j) = 0" if "em_num_encryption_mappings em' \<le> j" for j
      using i(2,3) [of j] that ok by (cases "j < em_num_encryption_mappings em") (auto simp: em_ok_def)
    ultimately show ?thesis using i(1,4) ok r by (simp add: em_ok_def)
  qed (use ok r in simp)
qed

lemma em_remove_entry:
  assumes ok: "em_ok em" and a: "address_ok a" and b: "address_ok b" "b \<noteq> a"
  shows "em_entry (snd (netcode_encryption_manager_remove_encryption_mapping em a t)) b j d u \<Longrightarrow> em_entry em b j d u"
    and "em_entry em b j d u \<Longrightarrow> mapping_alive d u t \<Longrightarrow>
      em_entry (snd (netcode_encryption_manager_remove_encryption_mapping em a t)) b j d u"
proof -
  obtain r em' where r: "netcode_encryption_manager_remove_encryption_mapping em a t = (r, em')" by fastforce
  from r have "(em_entry em' b j d u \<longrightarrow> em_entry em b j d u)
    \<and> (em_entry em b j d u \<longrightarrow> mapping_alive d u t \<longrightarrow> em_entry em' b j d u)"
  proof (rule em_remove_cases)
    fix i assume i: "i < em_num_encryption_mappings em" "netcode_address_equal (em_address em i) a"
      "em_num_encryption_mappings em' \<le> em_num_encryption_mappings em"
      "\<And>j. j \<noteq> i \<Longrightarrow> j < em_num_encryption_mappings em' \<Longrightarrow> em_address em' j = em_address em j"
      "\<And>j. j \<noteq> i \<Longrightarrow> j < em_num_encryption_mappings em \<Longrightarrow> em_num_encryption_mappings em' \<le> j \<Longrightarrow>
         netcode_encryption_manager_entry_expired em (Some j) t"
      "address_type (em_address em' i) = 0"
      "\<And>j. j \<noteq> i \<Longrightarrow> em_contents em' j = em_contents em j"
      "\<And>j. j \<noteq> i \<Longrightarrow> em_last_access_time em' j = em_last_access_time em j"
    have "\<not> netcode_address_equal (em_address em i) b" using em_same_address [OF ok a b(1) i(2)] b(2) by blast
    moreover have "\<not> netcode_address_equal (em_address em' i) b" using i(6) address_equal_type by metis
    ultimately show ?thesis
      using i(3) i(4,5,7,8) [of j] unfolding entry_expired_iff em_entry_def
      by (cases "j = i"; cases "j < em_num_encryption_mappings em'") auto
  qed simp
  then show "em_entry (snd (netcode_encryption_manager_remove_encryption_mapping em a t)) b j d u \<Longrightarrow> em_entry em b j d u"
    and "em_entry em b j d u \<Longrightarrow> mapping_alive d u t \<Longrightarrow>
      em_entry (snd (netcode_encryption_manager_remove_encryption_mapping em a t)) b j d u"
    using r by simp_all
qed

lemma em_remove_others:
  assumes "em_ok em" and "address_ok a" and "address_ok b" "b \<noteq> a"
  shows "em_slot (snd (netcode_encryption_manager_remove_encryption_mapping em a t)) t b j d \<longleftrightarrow> em_slot em t b j d"
  using em_remove_entry [OF assms] unfolding em_slot_entry by blast

interpretation key_manager: key_table em_entry mapping_alive em_add netcode_encryption_manager_find_encryption_mapping
  netcode_encryption_manager_remove_encryption_mapping em_ok address_ok mapping_ok
  by unfold_locales ((rule mapping_alive_earlier em_add_ok em_add_keeps em_add_old em_add_entry em_find_ok em_find_others
      em_find_first_entry em_find_uses em_find_none em_remove_ok em_remove_entry; assumption)+)

section \<open>Properties\<close>

text \<open>C19: the keys that were added for an address are found under it for as long as they are in use. After they were added at the time
  \<open>t0\<close>, any mappings of other addresses may be added, searched for and removed, and the address's own keys may be searched for, at times
  that do not go back. If no more than the timeout, if it is positive, passes from one use of the keys to the next (the insertion, then each search for the
  address) and the expiry time is not passed, then a search at a later time \<open>t\<close> finds them, the getters give them out, and the
  search counts as a use at \<open>t\<close>. If the keys were not kept alive in this way, and the table had no entry of the address before,
  then the search at \<open>t\<close> finds nothing.\<close>

theorem encryption_mapping_found:
  assumes "em_ok em" and "address_ok a" and "length send_key = NETCODE_KEY_BYTES" and "length receive_key = NETCODE_KEY_BYTES"
    and add: "netcode_encryption_manager_add_encryption_mapping em a send_key receive_key t0 expire_time timeout = (True, em1)"
    and times: "sorted (t0 # map fst ops @ [t])"
    and ops: "\<forall>(time, op) \<in> set ops. op_ok address_ok mapping_ok op \<and> leaves_entry a op"
    and em2: "em2 = fold key_manager.table_step ops em1"
  shows "if kept_alive mapping_alive a (send_key, receive_key, expire_time, timeout) t0 ops t
    then \<exists>i em3. netcode_encryption_manager_find_encryption_mapping em2 a t = (Some i, em3)
      \<and> netcode_encryption_manager_get_send_key em3 (Some i) = Some (Some send_key)
      \<and> netcode_encryption_manager_get_receive_key em3 (Some i) = Some (Some receive_key)
      \<and> netcode_encryption_manager_get_timeout em3 (Some i) = Some timeout
      \<and> em_last_access_time em3 i = t
    else (\<forall>i < em_num_encryption_mappings em. \<not> netcode_address_equal (em_address em i) a) \<longrightarrow>
      netcode_encryption_manager_find_encryption_mapping em2 a t = (None, em2)"
proof -
  let ?d = "(send_key, receive_key, expire_time, timeout)"
  have e: "fst (em_add em a ?d t0)" "em1 = snd (em_add em a ?d t0)" using add by (simp_all add: em_add_def)
  have key: "mapping_ok ?d" using assms(3,4) by simp
  have ops: "list_all (\<lambda>(_, p). op_ok address_ok mapping_ok p \<and> leaves_entry a p) ops" using ops by (simp add: list_all_iff)
  note found = key_manager.added_is_found [OF assms(1,2) key e(1) times ops, folded e(2), folded em2]
  show ?thesis
  proof (cases "kept_alive mapping_alive a ?d t0 ops t")
    case True
    from found(1) [OF this] obtain i where "fst (netcode_encryption_manager_find_encryption_mapping em2 a t) = Some i"
      "em_entry (snd (netcode_encryption_manager_find_encryption_mapping em2 a t)) a i ?d t" by blast
    then show ?thesis
      using True by (cases "netcode_encryption_manager_find_encryption_mapping em2 a t")
        (simp add: em_entry_def em_contents_def em_index_def netcode_encryption_manager_get_send_key_def
          netcode_encryption_manager_get_receive_key_def netcode_encryption_manager_get_timeout_def)
  next
    case False
    have "netcode_encryption_manager_find_encryption_mapping em2 a t = (None, em2)"
      if "\<forall>i < em_num_encryption_mappings em. \<not> netcode_address_equal (em_address em i) a"
    proof -
      have "\<forall>i d u. \<not> em_entry em a i d u" using that unfolding em_entry_def by blast
      from found(2) [OF False this] em_find_none [OF found(2) [OF False this]] show ?thesis by (intro prod_eqI) simp_all
    qed
    with False show ?thesis by simp
  qed
qed

text \<open>Keys with a timeout of 10 seconds that are added at 5 and expire at 50: a search at 14 keeps them until 23; without it they are lost.\<close>

definition example_mapping :: encryption_manager where
  "example_mapping = snd (netcode_encryption_manager_add_encryption_mapping netcode_encryption_manager_reset
     (ADDRESS_IPV4 [1, 2, 3, 4] 80) (replicate 32 7) (replicate 32 8) 5 50 10)"

theorem encryption_mapping_found_witness:
  "(\<exists>i em3. netcode_encryption_manager_find_encryption_mapping
       (fold key_manager.table_step [(14, Table_find (ADDRESS_IPV4 [1, 2, 3, 4] 80)), (16, Table_remove (ADDRESS_IPV4 [1, 2, 3, 6] 80))]
          example_mapping) (ADDRESS_IPV4 [1, 2, 3, 4] 80) 23 = (Some i, em3)
      \<and> netcode_encryption_manager_get_send_key em3 (Some i) = Some (Some (replicate 32 7)) \<and> em_last_access_time em3 i = 23)
   \<and> fst (netcode_encryption_manager_find_encryption_mapping
       (fold key_manager.table_step [(16, Table_remove (ADDRESS_IPV4 [1, 2, 3, 6] 80))] example_mapping)
       (ADDRESS_IPV4 [1, 2, 3, 4] 80) 23) = None"
proof -
  let ?a = "ADDRESS_IPV4 [1, 2, 3, 4] 80" and ?b = "ADDRESS_IPV4 [1, 2, 3, 6] 80"
  have "first_index (em_free netcode_encryption_manager_reset 5) NETCODE_MAX_ENCRYPTION_MAPPINGS = Some 0"
    by (simp add: first_index_Some em_free_def netcode_encryption_manager_reset_def zero_address_def)
  moreover have "first_index p (em_num_encryption_mappings netcode_encryption_manager_reset) = None" for p
    by (simp add: first_index_None netcode_encryption_manager_reset_def)
  ultimately have r: "netcode_encryption_manager_add_encryption_mapping netcode_encryption_manager_reset ?a
      (replicate 32 7) (replicate 32 8) 5 50 10 = (True, example_mapping)"
    by (simp add: netcode_encryption_manager_add_encryption_mapping_def Let_def example_mapping_def)
  have ok: "address_ok ?a" "address_ok ?b" by (simp_all add: address_ok_def)
  have none: "em_num_encryption_mappings netcode_encryption_manager_reset = 0" by (simp add: netcode_encryption_manager_reset_def)
  note found = encryption_mapping_found [OF em_ok_reset ok(1) _ _ r]
  show ?thesis
    using found [of "[(14, Table_find ?a), (16, Table_remove ?b)]" 23 "fold key_manager.table_step [(14, Table_find ?a), (16, Table_remove ?b)] example_mapping"]
      found [of "[(16, Table_remove ?b)]" 23 "fold key_manager.table_step [(16, Table_remove ?b)] example_mapping"]
      ok none by (auto simp: leaves_entry_def)
qed

end
