(* ===== verification/Token_Entries.thy ===== *)
theory Token_Entries
  imports World
begin

text \<open>
  The server's memory of the connect tokens it has seen, by the authentication tag of their private part: 2048 entries
  with the time and the address of their first use. A token that was used from one address is refused from another, as long as its
  entry was not replaced, which happens to the oldest entry when a new token comes.
\<close>

abbreviation (input) NETCODE_MAX_CONNECT_TOKEN_ENTRIES :: nat where
  "NETCODE_MAX_CONNECT_TOKEN_ENTRIES \<equiv> NETCODE_MAX_CLIENTS * 8"

record connect_token_entry =
  te_time :: dbl
  te_mac :: bytes
  te_address :: netcode_address

type_synonym connect_token_entries = "connect_token_entry array"

definition netcode_connect_token_entries_reset :: connect_token_entries where
  "netcode_connect_token_entries_reset =
     (\<lambda>_. \<lparr>te_time = - 1000, te_mac = replicate NETCODE_MAC_BYTES 0, te_address = zero_address\<rparr>)"

text \<open>The scan: the last entry with the tag, the first of the oldest entries, and its time.\<close>

fun token_entries_scan ::
    "nat \<Rightarrow> nat \<Rightarrow> connect_token_entries \<Rightarrow> bytes \<Rightarrow> nat option \<times> nat option \<times> dbl \<Rightarrow> nat option \<times> nat option \<times> dbl" where
  "token_entries_scan 0 i entries mac r = r"
| "token_entries_scan (Suc k) i entries mac (matching, oldest, oldest_time) =
     token_entries_scan k (Suc i) entries mac
       (if mac = te_mac (entries i) then Some i else matching,
        if oldest = None \<or> te_time (entries i) < oldest_time then Some i else oldest,
        if oldest = None \<or> te_time (entries i) < oldest_time then te_time (entries i) else oldest_time)"

definition netcode_connect_token_entries_find_or_add ::
    "connect_token_entries \<Rightarrow> netcode_address \<Rightarrow> bytes \<Rightarrow> dbl \<Rightarrow> (bool \<times> connect_token_entries) option" where
  "netcode_connect_token_entries_find_or_add entries address mac time =
     (case token_entries_scan NETCODE_MAX_CONNECT_TOKEN_ENTRIES 0 entries mac (None, None, 0) of
        (matching, oldest, _) \<Rightarrow> do {
          oldest \<leftarrow> oldest;
          (case matching of
             None \<Rightarrow> Some (True, entries(oldest := \<lparr>te_time = time, te_mac = mac, te_address = address\<rparr>))
           | Some i \<Rightarrow> do {
               c_assert (i < NETCODE_MAX_CONNECT_TOKEN_ENTRIES);
               Some (netcode_address_equal (te_address (entries i)) address, entries) }) })"

section \<open>The scan\<close>

text \<open>What the loop has found in the first \<open>n\<close> entries.\<close>

definition scanned :: "connect_token_entries \<Rightarrow> bytes \<Rightarrow> nat \<Rightarrow> nat option \<times> nat option \<times> dbl \<Rightarrow> bool" where
  "scanned entries mac n = (\<lambda>(matching, oldest, oldest_time).
     (case matching of
        None \<Rightarrow> \<forall>i < n. te_mac (entries i) \<noteq> mac
      | Some m \<Rightarrow> m < n \<and> te_mac (entries m) = mac \<and> (\<forall>i < n. te_mac (entries i) = mac \<longrightarrow> i \<le> m)) \<and>
     (case oldest of
        None \<Rightarrow> n = 0
      | Some k \<Rightarrow> k < n \<and> te_time (entries k) = oldest_time
          \<and> (\<forall>i < n. te_time (entries k) \<le> te_time (entries i)) \<and> (\<forall>i < k. te_time (entries k) < te_time (entries i))))"

lemma token_entries_scan_ok:
  "scanned entries mac i r \<Longrightarrow> scanned entries mac (i + k) (token_entries_scan k i entries mac r)"
proof (induction k arbitrary: i r)
  case 0
  then show ?case by simp
next
  case (Suc k)
  obtain m old t where r: "r = (m, old, t)" by (rule prod_cases3)
  have "scanned entries mac (Suc i)
       (if mac = te_mac (entries i) then Some i else m,
        if old = None \<or> te_time (entries i) < t then Some i else old,
        if old = None \<or> te_time (entries i) < t then te_time (entries i) else t)"
    using Suc.prems unfolding scanned_def r
    by (auto simp: less_Suc_eq split: option.splits intro: order.strict_implies_order)
  from Suc.IH [OF this] show ?case by (simp add: r)
qed

lemma scan_all:
  obtains matching oldest t where
    "token_entries_scan NETCODE_MAX_CONNECT_TOKEN_ENTRIES 0 entries mac (None, None, 0) = (matching, Some oldest, t)"
    and "scanned entries mac NETCODE_MAX_CONNECT_TOKEN_ENTRIES (matching, Some oldest, t)"
proof -
  obtain m old t where r: "token_entries_scan NETCODE_MAX_CONNECT_TOKEN_ENTRIES 0 entries mac (None, None, 0) = (m, old, t)"
    by (rule prod_cases3)
  have "scanned entries mac 0 (None, None, 0)" by (simp add: scanned_def)
  from token_entries_scan_ok [OF this, of NETCODE_MAX_CONNECT_TOKEN_ENTRIES]
  have s: "scanned entries mac NETCODE_MAX_CONNECT_TOKEN_ENTRIES (m, old, t)" by (simp only: r add_0)
  then obtain k where "old = Some k" unfolding scanned_def by (auto split: option.splits)
  with r s that show ?thesis by simp
qed

section \<open>Uses of a token\<close>

text \<open>The call never fails, and has one of two outcomes.\<close>

lemma find_or_add_cases:
  obtains (known) m where "m < NETCODE_MAX_CONNECT_TOKEN_ENTRIES" "te_mac (entries m) = mac"
      "netcode_connect_token_entries_find_or_add entries a mac t
         = Some (netcode_address_equal (te_address (entries m)) a, entries)"
  | (new) k where "\<forall>i < NETCODE_MAX_CONNECT_TOKEN_ENTRIES. te_mac (entries i) \<noteq> mac"
      "k < NETCODE_MAX_CONNECT_TOKEN_ENTRIES"
      "\<forall>i < NETCODE_MAX_CONNECT_TOKEN_ENTRIES. te_time (entries k) \<le> te_time (entries i)"
      "netcode_connect_token_entries_find_or_add entries a mac t
         = Some (True, entries(k := \<lparr>te_time = t, te_mac = mac, te_address = a\<rparr>))"
proof -
  obtain m k t0 where r: "token_entries_scan NETCODE_MAX_CONNECT_TOKEN_ENTRIES 0 entries mac (None, None, 0) = (m, Some k, t0)"
    and s: "scanned entries mac NETCODE_MAX_CONNECT_TOKEN_ENTRIES (m, Some k, t0)" by (rule scan_all)
  show ?thesis
  proof (cases m)
    case None
    with r s show ?thesis
      by (intro new [of k]) (auto simp: scanned_def netcode_connect_token_entries_find_or_add_def
          simp del: token_entries_scan.simps)
  next
    case (Some i)
    with r s show ?thesis
      by (intro known [of i]) (auto simp: scanned_def netcode_connect_token_entries_find_or_add_def
          simp del: token_entries_scan.simps)
  qed
qed

text \<open>The number of entries that are older than a given time, and the uses of other tokens one after the other.\<close>

definition older :: "dbl \<Rightarrow> connect_token_entries \<Rightarrow> nat" where
  "older t entries = card {i. i < NETCODE_MAX_CONNECT_TOKEN_ENTRIES \<and> te_time (entries i) < t}"

fun use_tokens :: "(netcode_address \<times> bytes \<times> dbl) list \<Rightarrow> connect_token_entries \<Rightarrow> connect_token_entries option" where
  "use_tokens [] entries = Some entries"
| "use_tokens ((a, mac, t) # uses) entries =
     do { (ok, entries) \<leftarrow> netcode_connect_token_entries_find_or_add entries a mac t; use_tokens uses entries }"

text \<open>The entry \<open>i\<close> is the only one of the token, and its address is \<open>a\<close>.\<close>

definition remembered :: "connect_token_entries \<Rightarrow> nat \<Rightarrow> bytes \<Rightarrow> netcode_address \<Rightarrow> dbl \<Rightarrow> bool" where
  "remembered entries i mac a t \<longleftrightarrow> i < NETCODE_MAX_CONNECT_TOKEN_ENTRIES
     \<and> (\<forall>j < NETCODE_MAX_CONNECT_TOKEN_ENTRIES. te_mac (entries j) = mac \<longleftrightarrow> j = i)
     \<and> te_address (entries i) = a \<and> t \<le> te_time (entries i)"

lemma remembered_lookup:
  assumes "remembered entries i mac a t"
  shows "netcode_connect_token_entries_find_or_add entries b mac t' = Some (netcode_address_equal a b, entries)"
  by (rule find_or_add_cases [of entries mac b t']) (use assms in \<open>auto simp: remembered_def\<close>)

lemma older_update:
  "older t entries \<le> Suc (older t (entries(k := e)))"
proof -
  have "{i. i < NETCODE_MAX_CONNECT_TOKEN_ENTRIES \<and> te_time (entries i) < t}
      \<subseteq> insert k {i. i < NETCODE_MAX_CONNECT_TOKEN_ENTRIES \<and> te_time ((entries(k := e)) i) < t}" (is "?A \<subseteq> insert k ?B")
    by auto
  then have "card ?A \<le> card (insert k ?B)" by (intro card_mono) auto
  also have "\<dots> \<le> Suc (card ?B)" by (simp add: card_insert_if)
  finally show ?thesis by (simp add: older_def)
qed

text \<open>As long as there is an older entry, the use of another token keeps this one's.\<close>

lemma remembered_step:
  assumes r: "remembered entries i mac a t" and other: "mac' \<noteq> mac" and old: "0 < older t entries"
    and use: "netcode_connect_token_entries_find_or_add entries b mac' t' = Some (ok, entries')"
  shows "remembered entries' i mac a t \<and> older t entries \<le> Suc (older t entries')"
proof (rule find_or_add_cases [of entries mac' b t'])
  fix m assume "netcode_connect_token_entries_find_or_add entries b mac' t'
      = Some (netcode_address_equal (te_address (entries m)) b, entries)"
  with use r show ?thesis by simp
next
  fix k assume k: "k < NETCODE_MAX_CONNECT_TOKEN_ENTRIES"
    "\<forall>i < NETCODE_MAX_CONNECT_TOKEN_ENTRIES. te_time (entries k) \<le> te_time (entries i)"
    "netcode_connect_token_entries_find_or_add entries b mac' t'
       = Some (True, entries(k := \<lparr>te_time = t', te_mac = mac', te_address = b\<rparr>))"
  have "{i. i < NETCODE_MAX_CONNECT_TOKEN_ENTRIES \<and> te_time (entries i) < t} \<noteq> {}"
    using old by (auto simp: older_def card_gt_0_iff)
  then obtain j where "j < NETCODE_MAX_CONNECT_TOKEN_ENTRIES" "te_time (entries j) < t" by blast
  then have "k \<noteq> i" using k(2) r by (auto simp: remembered_def dest: spec [of _ j])
  let ?e = "entries(k := \<lparr>te_time = t', te_mac = mac', te_address = b\<rparr>)"
  have "remembered ?e i mac a t"
    using r other \<open>k \<noteq> i\<close> unfolding remembered_def by (simp add: fun_upd_def)
  moreover have "entries' = ?e" using use k(3) by simp
  ultimately show ?thesis using older_update [of t entries k] by simp
qed

lemma remembered_uses:
  "remembered entries i mac a t \<Longrightarrow> \<forall>(b, mac', t') \<in> set uses. mac' \<noteq> mac \<Longrightarrow> length uses \<le> older t entries \<Longrightarrow>
   \<exists>entries'. use_tokens uses entries = Some entries' \<and> remembered entries' i mac a t"
proof (induction uses arbitrary: entries)
  case (Cons u uses)
  obtain b mac' t' where u: "u = (b, mac', t')" by (rule prod_cases3)
  obtain ok e where e: "netcode_connect_token_entries_find_or_add entries b mac' t' = Some (ok, e)"
    by (rule find_or_add_cases [of entries mac' b t']) auto
  have "remembered e i mac a t \<and> older t entries \<le> Suc (older t e)"
    by (rule remembered_step [OF Cons.prems(1) _ _ e]) (use Cons.prems u in auto)
  with Cons.IH [of e] Cons.prems e u show ?case by auto
qed simp

section \<open>A reference definition\<close>

text \<open>Without a loop: the last entry with the tag answers; if there is none, the first of the oldest entries is replaced.\<close>

definition find_or_add_reference ::
    "connect_token_entries \<Rightarrow> netcode_address \<Rightarrow> bytes \<Rightarrow> dbl \<Rightarrow> bool \<times> connect_token_entries" where
  "find_or_add_reference entries address mac time =
     (case List.find (\<lambda>i. te_mac (entries i) = mac) (rev [0..<NETCODE_MAX_CONNECT_TOKEN_ENTRIES]) of
        Some i \<Rightarrow> (netcode_address_equal (te_address (entries i)) address, entries)
      | None \<Rightarrow> (True, entries(arg_min_list (\<lambda>i. te_time (entries i)) [0..<NETCODE_MAX_CONNECT_TOKEN_ENTRIES] :=
          \<lparr>te_time = time, te_mac = mac, te_address = address\<rparr>)))"

lemma find_last:
  "m < n \<Longrightarrow> P m \<Longrightarrow> (\<And>i. i < n \<Longrightarrow> P i \<Longrightarrow> i \<le> m) \<Longrightarrow> List.find P (rev [0..<n]) = Some m"
proof (induction n)
  case (Suc n)
  then show ?case by (cases "m = n") (auto simp: less_Suc_eq dest: leD)
qed simp

lemma arg_min_list_first:
  "(\<And>y. y \<in> set ys \<Longrightarrow> f k < f y) \<Longrightarrow> (\<And>z. z \<in> set zs \<Longrightarrow> f k \<le> f z) \<Longrightarrow> arg_min_list f (ys @ k # zs) = k"
proof (induction ys)
  case Nil
  show ?case
  proof (cases zs)
    case (Cons z zs')
    then have "f k \<le> f (arg_min_list f zs)" using Nil(2) arg_min_list_in [of zs f] by blast
    with Cons show ?thesis by (simp add: Let_def)
  qed simp
next
  case (Cons y ys)
  obtain x xs where split: "ys @ k # zs = x # xs" by (cases "ys @ k # zs") auto
  have "arg_min_list f (x # xs) = k" using Cons by (simp flip: split)
  with Cons.prems(1) [of y] show ?case by (auto simp: split Let_def dest: leD)
qed

lemma arg_min_upt:
  assumes "k < n" "\<And>i. i < n \<Longrightarrow> f k \<le> f i" "\<And>i. i < k \<Longrightarrow> f k < f i"
  shows "arg_min_list f [0..<n] = k"
proof -
  have "[0..<n] = [0..<k] @ k # [Suc k..<n]" using assms(1) upt_add_eq_append [of 0 k "n - k"] by (simp add: upt_conv_Cons)
  with arg_min_list_first [of "[0..<k]" f k "[Suc k..<n]"] assms show ?thesis by simp
qed

section \<open>Properties\<close>

text \<open>C25: the loop that finds or adds a token computes what the definition without a loop says: the last entry with the tag answers,
  and an unknown token takes the place of the oldest entry, the first of them if there are several. It never fails an assertion.\<close>

theorem find_or_add_is_reference:
  "netcode_connect_token_entries_find_or_add entries address mac time
     = Some (find_or_add_reference entries address mac time)"
proof -
  obtain m k t0 where r: "token_entries_scan NETCODE_MAX_CONNECT_TOKEN_ENTRIES 0 entries mac (None, None, 0) = (m, Some k, t0)"
    and s: "scanned entries mac NETCODE_MAX_CONNECT_TOKEN_ENTRIES (m, Some k, t0)" by (rule scan_all)
  have oldest: "arg_min_list (\<lambda>i. te_time (entries i)) [0..<NETCODE_MAX_CONNECT_TOKEN_ENTRIES] = k"
    by (rule arg_min_upt) (use s in \<open>auto simp: scanned_def\<close>)
  have matching: "List.find (\<lambda>i. te_mac (entries i) = mac) (rev [0..<NETCODE_MAX_CONNECT_TOKEN_ENTRIES]) = m"
  proof (cases m)
    case None
    with s have "\<forall>i < NETCODE_MAX_CONNECT_TOKEN_ENTRIES. te_mac (entries i) \<noteq> mac" by (simp add: scanned_def)
    then show ?thesis unfolding None by (simp only: find_None_iff set_rev set_upt) auto
  next
    case (Some i)
    show ?thesis unfolding Some by (rule find_last) (use s Some in \<open>auto simp: scanned_def\<close>)
  qed
  show ?thesis
    unfolding netcode_connect_token_entries_find_or_add_def find_or_add_reference_def r oldest matching
    using s by (auto simp: scanned_def split: option.splits)
qed

text \<open>C26: a connect token is bound to the address it was first used from. After its first use at time \<open>t\<close>, and the use of other
  tokens at most as many times as there are older entries besides the one it took, it is accepted from that address and from no other.\<close>

theorem token_bound_to_address:
  assumes new: "\<forall>i < NETCODE_MAX_CONNECT_TOKEN_ENTRIES. te_mac (entries i) \<noteq> mac"
    and others: "\<forall>(b, mac', t') \<in> set uses. mac' \<noteq> mac" and few: "length uses < older t entries"
  shows "\<exists>entries1 entries2. netcode_connect_token_entries_find_or_add entries a mac t = Some (True, entries1)
    \<and> use_tokens uses entries1 = Some entries2
    \<and> (\<forall>b t'. netcode_connect_token_entries_find_or_add entries2 b mac t' = Some (netcode_address_equal a b, entries2))"
proof (rule find_or_add_cases [of entries mac a t])
  fix k assume k: "k < NETCODE_MAX_CONNECT_TOKEN_ENTRIES"
    "netcode_connect_token_entries_find_or_add entries a mac t
       = Some (True, entries(k := \<lparr>te_time = t, te_mac = mac, te_address = a\<rparr>))"
  let ?e = "entries(k := \<lparr>te_time = t, te_mac = mac, te_address = a\<rparr>)"
  have r: "remembered ?e k mac a t" using k(1) new by (simp add: remembered_def)
  have len: "length uses \<le> older t ?e" 
    using few older_update [of t entries k "\<lparr>te_time = t, te_mac = mac, te_address = a\<rparr>"] by linarith
  from remembered_uses [OF r others len] k(2) remembered_lookup show ?thesis by blast
qed (use new in auto)

text \<open>A token that is used by 10.0.0.1, then by 10.0.0.2, after a second token.\<close>

theorem token_bound_to_address_witness:
  "\<exists>e1 e2. netcode_connect_token_entries_find_or_add netcode_connect_token_entries_reset
        (ADDRESS_IPV4 [10, 0, 0, 1] 80) (replicate 16 7) 1 = Some (True, e1)
    \<and> use_tokens [(ADDRESS_IPV4 [10, 0, 0, 3] 80, replicate 16 8, 2)] e1 = Some e2
    \<and> netcode_connect_token_entries_find_or_add e2 (ADDRESS_IPV4 [10, 0, 0, 2] 80) (replicate 16 7) 3 = Some (False, e2)"
proof -
  have new: "\<forall>i < NETCODE_MAX_CONNECT_TOKEN_ENTRIES. te_mac (netcode_connect_token_entries_reset i) \<noteq> replicate 16 7"
    by (simp add: netcode_connect_token_entries_reset_def)
  have "older 1 netcode_connect_token_entries_reset = 2048"
    by (simp add: older_def netcode_connect_token_entries_reset_def)
  moreover have "\<not> netcode_address_equal (ADDRESS_IPV4 [10, 0, 0, 1] 80) (ADDRESS_IPV4 [10, 0, 0, 2] 80)"
    by (simp add: address_equal_iff)
  ultimately show ?thesis
    using token_bound_to_address [OF new, of "[(ADDRESS_IPV4 [10, 0, 0, 3] 80, replicate 16 8, 2)]" 1
        "ADDRESS_IPV4 [10, 0, 0, 1] 80"] by fastforce
qed

end
