(* ===== verification/Server.thy ===== *)
theory Server
  imports Simulator Encryption_Manager Token_Entries
begin

text \<open>
  The server: \<^verbatim>\<open>struct netcode_server_t\<close> and its functions, on the state (server, world). The per-client arrays are functions
  of the client index: every index that reaches them is one the code has asserted, or searched for, below
  \<^verbatim>\<open>max_clients\<close>. An encryption index or a client index of -1 is \<open>None\<close>. Callbacks are given by
  the context they were registered with.
\<close>

section \<open>The struct\<close>

record netcode_server =
  sv_socket :: netcode_socket
  sv_address :: netcode_address
  sv_network_simulator :: bool
  sv_flags :: u32
  sv_protocol_id :: u64
  sv_time :: dbl
  sv_running :: bool
  sv_max_clients :: nat
  sv_num_connected_clients :: int
  sv_global_sequence :: u64
  sv_private_key :: bytes
  sv_challenge_sequence :: u64
  sv_challenge_key :: bytes
  sv_client_connected :: "bool array"
  sv_client_timeout :: "int array"
  sv_client_loopback :: "bool array"
  sv_client_confirmed :: "bool array"
  sv_client_encryption_index :: "nat option array"
  sv_client_id :: "u64 array"
  sv_client_sequence :: "u64 array"
  sv_client_last_packet_send_time :: "dbl array"
  sv_client_last_packet_receive_time :: "dbl array"
  sv_client_user_data :: "bytes array"
  sv_client_replay_protection :: "replay_protection array"
  sv_client_packet_queue :: "packet_queue array"
  sv_client_address :: "netcode_address array"
  sv_connect_token_entries :: connect_token_entries
  sv_encryption_manager :: encryption_manager
  sv_connect_disconnect_callback :: "nat option"
  sv_send_loopback_packet_callback :: "nat option"

text \<open>\<open>client_timeout\<close> and \<open>challenge_key\<close> are not initialised on creation: what they hold is an argument.\<close>

definition zero_packet_queue :: packet_queue where
  "zero_packet_queue = netcode_packet_queue_init"

definition new_server ::
    "int array \<Rightarrow> bytes \<Rightarrow> u64 \<Rightarrow> netcode_socket \<Rightarrow> netcode_address \<Rightarrow> bool \<Rightarrow> u64 \<Rightarrow> bytes \<Rightarrow> dbl \<Rightarrow> netcode_server" where
  "new_server timeouts challenge_key challenge_sequence socket address network_simulator protocol_id private_key time = \<lparr>
     sv_socket = socket,
     sv_address = address,
     sv_network_simulator = network_simulator,
     sv_flags = 0,
     sv_protocol_id = protocol_id,
     sv_time = time,
     sv_running = False,
     sv_max_clients = 0,
     sv_num_connected_clients = 0,
     sv_global_sequence = push_bit 63 1,
     sv_private_key = private_key,
     sv_challenge_sequence = challenge_sequence,
     sv_challenge_key = challenge_key,
     sv_client_connected = (\<lambda>_. False),
     sv_client_timeout = timeouts,
     sv_client_loopback = (\<lambda>_. False),
     sv_client_confirmed = (\<lambda>_. False),
     sv_client_encryption_index = (\<lambda>_. None),
     sv_client_id = (\<lambda>_. 0),
     sv_client_sequence = (\<lambda>_. 0),
     sv_client_last_packet_send_time = (\<lambda>_. 0),
     sv_client_last_packet_receive_time = (\<lambda>_. 0),
     sv_client_user_data = (\<lambda>_. replicate NETCODE_USER_DATA_BYTES 0),
     sv_client_replay_protection = (\<lambda>_. netcode_replay_protection_reset),
     sv_client_packet_queue = (\<lambda>_. zero_packet_queue),
     sv_client_address = (\<lambda>_. zero_address),
     sv_connect_token_entries = netcode_connect_token_entries_reset,
     sv_encryption_manager = netcode_encryption_manager_reset,
     sv_connect_disconnect_callback = None,
     sv_send_loopback_packet_callback = None\<rparr>"

fun any_address :: "netcode_address \<Rightarrow> netcode_address" where
  "any_address (ADDRESS_IPV4 _ port) = ADDRESS_IPV4 [0, 0, 0, 0] port"
| "any_address (ADDRESS_IPV6 _ port) = ADDRESS_IPV6 [0, 0, 0, 0, 0, 0, 0, 0] port"
| "any_address (ADDRESS_NONE port) = ADDRESS_NONE port"

definition netcode_server_create_internal ::
    "inet \<Rightarrow> os_calls \<Rightarrow> int array \<Rightarrow> bytes \<Rightarrow> u64 \<Rightarrow> string \<Rightarrow> u64 \<Rightarrow> bytes \<Rightarrow> dbl \<Rightarrow> bool \<Rightarrow> world \<Rightarrow>
     ((nat \<times> netcode_server) option \<times> world) option" where
  "netcode_server_create_internal inet os timeouts challenge_key challenge_sequence server_address_string protocol_id
       private_key time network_simulator w =
     do { c_assert (w_initialized w);
          (case netcode_parse_address inet server_address_string of
             NETCODE_ERROR \<Rightarrow> Some (None, w)
           | NETCODE_OK server_address \<Rightarrow>
               do { (e, socket, w) \<leftarrow>
                      (if network_simulator then Some (NETCODE_SOCKET_ERROR_NONE, zero_socket, w)
                       else netcode_socket_create os zero_socket (any_address server_address) w);
                    if e \<noteq> NETCODE_SOCKET_ERROR_NONE then Some (None, w)
                    else (case w_alloc Struct_block w of
                        (None, w) \<Rightarrow> do { (socket, w) \<leftarrow> netcode_socket_destroy socket w; Some (None, w) }
                      | (Some ptr, w) \<Rightarrow>
                          Some (Some (ptr, new_server timeouts challenge_key challenge_sequence socket server_address
                            network_simulator protocol_id private_key time), w)) }) }"

definition netcode_server_create ::
    "inet \<Rightarrow> os_calls \<Rightarrow> int array \<Rightarrow> bytes \<Rightarrow> u64 \<Rightarrow> string \<Rightarrow> u64 \<Rightarrow> bytes \<Rightarrow> dbl \<Rightarrow> world \<Rightarrow>
     ((nat \<times> netcode_server) option \<times> world) option" where
  "netcode_server_create inet os timeouts challenge_key challenge_sequence server_address protocol_id private_key time w =
     netcode_server_create_internal inet os timeouts challenge_key challenge_sequence server_address protocol_id
       private_key time False w"

section \<open>Sending\<close>

definition server_transmit :: "netcode_server \<Rightarrow> netcode_address \<Rightarrow> bytes \<Rightarrow> world \<Rightarrow> world option" where
  "server_transmit server to_addr packet_data w =
     (if sv_network_simulator server
      then netcode_network_simulator_send_packet (sv_address server) to_addr packet_data w
      else netcode_socket_send_packet (sv_socket server) to_addr packet_data w)"

definition netcode_server_send_global_packet ::
    "crypto \<Rightarrow> netcode_server \<Rightarrow> netcode_packet \<Rightarrow> netcode_address \<Rightarrow> bytes \<Rightarrow> world \<Rightarrow> (netcode_server \<times> world) option" where
  "netcode_server_send_global_packet cr server packet to_addr packet_key w =
     do { r \<leftarrow> netcode_write_packet cr packet NETCODE_MAX_PACKET_BYTES (sv_global_sequence server)
                 packet_key (sv_protocol_id server);
          let packet_data = (case r of NETCODE_OK b \<Rightarrow> b | NETCODE_ERROR \<Rightarrow> []);
          c_assert (length packet_data \<le> NETCODE_MAX_PACKET_BYTES);
          w \<leftarrow> server_transmit server to_addr packet_data w;
          Some (server\<lparr>sv_global_sequence := sv_global_sequence server + 1\<rparr>, w) }"

definition netcode_server_send_client_packet ::
    "crypto \<Rightarrow> netcode_server \<Rightarrow> netcode_packet \<Rightarrow> nat \<Rightarrow> world \<Rightarrow> (netcode_server \<times> world) option" where
  "netcode_server_send_client_packet cr server packet client_index w =
     do { c_assert (client_index < sv_max_clients server);
          c_assert (sv_client_connected server client_index);
          c_assert (\<not> sv_client_loopback server client_index);
          (ok, em) \<leftarrow> netcode_encryption_manager_touch (sv_encryption_manager server)
                        (sv_client_encryption_index server client_index)
                        (sv_client_address server client_index) (sv_time server);
          let server = server\<lparr>sv_encryption_manager := em\<rparr>;
          if \<not> ok then Some (server, w)
          else do {
            packet_key \<leftarrow> netcode_encryption_manager_get_send_key (sv_encryption_manager server)
                            (sv_client_encryption_index server client_index);
            packet_key \<leftarrow> packet_key;
            r \<leftarrow> netcode_write_packet cr packet NETCODE_MAX_PACKET_BYTES (sv_client_sequence server client_index)
                   packet_key (sv_protocol_id server);
            let packet_data = (case r of NETCODE_OK b \<Rightarrow> b | NETCODE_ERROR \<Rightarrow> []);
            c_assert (length packet_data \<le> NETCODE_MAX_PACKET_BYTES);
            w \<leftarrow> server_transmit server (sv_client_address server client_index) packet_data w;
            Some (server\<lparr>
              sv_client_sequence := (sv_client_sequence server)(client_index := sv_client_sequence server client_index + 1),
              sv_client_last_packet_send_time := (sv_client_last_packet_send_time server)(client_index := sv_time server)\<rparr>, w) } }"

section \<open>Disconnecting clients, starting and stopping\<close>

fun server_send_disconnect_packets ::
    "crypto \<Rightarrow> nat \<Rightarrow> netcode_server \<Rightarrow> nat \<Rightarrow> world \<Rightarrow> (netcode_server \<times> world) option" where
  "server_send_disconnect_packets cr 0 server client_index w = Some (server, w)"
| "server_send_disconnect_packets cr (Suc k) server client_index w =
     do { (server, w) \<leftarrow> netcode_server_send_client_packet cr server CONNECTION_DISCONNECT_PACKET client_index w;
          server_send_disconnect_packets cr k server client_index w }"

definition server_log_callback :: "netcode_server \<Rightarrow> nat \<Rightarrow> bool \<Rightarrow> world \<Rightarrow> world" where
  "server_log_callback server client_index is_connected w =
     (case sv_connect_disconnect_callback server of
        None \<Rightarrow> w
      | Some context \<Rightarrow> w_log (Server_connect_disconnect context client_index is_connected) w)"

text \<open>The assignments that free a client's slot, on a disconnect of either kind.\<close>

definition server_clear_slot :: "netcode_server \<Rightarrow> nat \<Rightarrow> netcode_server" where
  "server_clear_slot server i = server\<lparr>
     sv_client_connected := (sv_client_connected server)(i := False),
     sv_client_confirmed := (sv_client_confirmed server)(i := False),
     sv_client_id := (sv_client_id server)(i := 0),
     sv_client_sequence := (sv_client_sequence server)(i := 0),
     sv_client_last_packet_send_time := (sv_client_last_packet_send_time server)(i := 0),
     sv_client_last_packet_receive_time := (sv_client_last_packet_receive_time server)(i := 0),
     sv_client_address := (sv_client_address server)(i := zero_address),
     sv_client_encryption_index := (sv_client_encryption_index server)(i := None),
     sv_client_user_data := (sv_client_user_data server)(i := replicate NETCODE_USER_DATA_BYTES 0),
     sv_num_connected_clients := sv_num_connected_clients server - 1\<rparr>"

text \<open>The end of a disconnect, after the packets.\<close>

definition server_free_slot :: "netcode_server \<Rightarrow> nat \<Rightarrow> world \<Rightarrow> (netcode_server \<times> world) option" where
  "server_free_slot server client_index w =
     do { (queue, w) \<leftarrow> queue_empty_out (sv_client_packet_queue server client_index) w;
          let (_, em) = netcode_encryption_manager_remove_encryption_mapping (sv_encryption_manager server)
                (sv_client_address server client_index) (sv_time server);
          let server = server_clear_slot (server\<lparr>
                sv_client_packet_queue := (sv_client_packet_queue server)(client_index := queue),
                sv_client_replay_protection :=
                  (sv_client_replay_protection server)(client_index := netcode_replay_protection_reset),
                sv_encryption_manager := em\<rparr>) client_index;
          c_assert (sv_num_connected_clients server \<ge> 0);
          Some (server, w) }"

definition netcode_server_disconnect_client_internal ::
    "crypto \<Rightarrow> netcode_server \<Rightarrow> nat \<Rightarrow> bool \<Rightarrow> world \<Rightarrow> (netcode_server \<times> world) option" where
  "netcode_server_disconnect_client_internal cr server client_index send_disconnect_packets w =
     do { c_assert (sv_running server);
          c_assert (client_index < sv_max_clients server);
          c_assert (sv_client_connected server client_index);
          c_assert (\<not> sv_client_loopback server client_index);
          let w = server_log_callback server client_index False w;
          (server, w) \<leftarrow> (if send_disconnect_packets
             then server_send_disconnect_packets cr NETCODE_NUM_DISCONNECT_PACKETS server client_index w
             else Some (server, w));
          server_free_slot server client_index w }"

text \<open>The second test of \<^verbatim>\<open>client_loopback\<close>, after the assertion, is kept.\<close>

definition netcode_server_disconnect_client ::
    "crypto \<Rightarrow> netcode_server \<Rightarrow> int \<Rightarrow> world \<Rightarrow> (netcode_server \<times> world) option" where
  "netcode_server_disconnect_client cr server client_index w =
     (if \<not> sv_running server then Some (server, w)
      else do {
        c_assert (client_index \<ge> 0);
        c_assert (client_index < int (sv_max_clients server));
        c_assert (\<not> sv_client_loopback server (nat client_index));
        if \<not> sv_client_connected server (nat client_index) then Some (server, w)
        else if sv_client_loopback server (nat client_index) then Some (server, w)
        else netcode_server_disconnect_client_internal cr server (nat client_index) True w })"

fun server_disconnect_clients ::
    "crypto \<Rightarrow> nat \<Rightarrow> nat \<Rightarrow> netcode_server \<Rightarrow> world \<Rightarrow> (netcode_server \<times> world) option" where
  "server_disconnect_clients cr 0 i server w = Some (server, w)"
| "server_disconnect_clients cr (Suc k) i server w =
     do { (server, w) \<leftarrow>
            (if sv_client_connected server i \<and> \<not> sv_client_loopback server i
             then netcode_server_disconnect_client_internal cr server i True w
             else Some (server, w));
          server_disconnect_clients cr k (Suc i) server w }"

definition netcode_server_disconnect_all_clients :: "crypto \<Rightarrow> netcode_server \<Rightarrow> world \<Rightarrow> (netcode_server \<times> world) option" where
  "netcode_server_disconnect_all_clients cr server w =
     (if \<not> sv_running server then Some (server, w)
      else server_disconnect_clients cr (sv_max_clients server) 0 server w)"

definition netcode_server_stop :: "crypto \<Rightarrow> netcode_server \<Rightarrow> world \<Rightarrow> (netcode_server \<times> world) option" where
  "netcode_server_stop cr server w =
     (if \<not> sv_running server then Some (server, w)
      else do {
        (server, w) \<leftarrow> netcode_server_disconnect_all_clients cr server w;
        Some (server\<lparr>
          sv_running := False,
          sv_max_clients := 0,
          sv_num_connected_clients := 0,
          sv_global_sequence := 0,
          sv_challenge_sequence := 0,
          sv_challenge_key := replicate NETCODE_KEY_BYTES 0,
          sv_connect_token_entries := netcode_connect_token_entries_reset,
          sv_encryption_manager := netcode_encryption_manager_reset\<rparr>, w) })"

definition netcode_server_destroy :: "crypto \<Rightarrow> nat \<Rightarrow> netcode_server \<Rightarrow> world \<Rightarrow> world option" where
  "netcode_server_destroy cr ptr server w =
     do { (server, w) \<leftarrow> netcode_server_stop cr server w;
          (socket, w) \<leftarrow> netcode_socket_destroy (sv_socket server) w;
          w_free (Some ptr) w }"

definition netcode_server_start :: "crypto \<Rightarrow> netcode_server \<Rightarrow> nat \<Rightarrow> world \<Rightarrow> (netcode_server \<times> world) option" where
  "netcode_server_start cr server max_clients w =
     do { c_assert (max_clients > 0);
          c_assert (max_clients \<le> NETCODE_MAX_CLIENTS);
          (server, w) \<leftarrow> (if sv_running server then netcode_server_stop cr server w else Some (server, w));
          let (key, w) = netcode_generate_key w;
          Some (server\<lparr>
            sv_running := True,
            sv_max_clients := max_clients,
            sv_num_connected_clients := 0,
            sv_challenge_sequence := 0,
            sv_challenge_key := key,
            sv_client_packet_queue := (\<lambda>i. if i < max_clients then netcode_packet_queue_init
                                           else sv_client_packet_queue server i)\<rparr>, w) }"

section \<open>Searching\<close>

definition netcode_server_find_client_index_by_id :: "netcode_server \<Rightarrow> u64 \<Rightarrow> nat option" where
  "netcode_server_find_client_index_by_id server client_id =
     first_index (\<lambda>i. sv_client_connected server i \<and> sv_client_id server i = client_id) (sv_max_clients server)"

definition netcode_server_find_client_index_by_address :: "netcode_server \<Rightarrow> netcode_address \<Rightarrow> nat option" where
  "netcode_server_find_client_index_by_address server address =
     (if address_type address = 0 then None
      else first_index (\<lambda>i. sv_client_connected server i \<and> netcode_address_equal (sv_client_address server i) address)
             (sv_max_clients server))"

definition netcode_server_find_free_client_index :: "netcode_server \<Rightarrow> nat option" where
  "netcode_server_find_free_client_index server =
     first_index (\<lambda>i. \<not> sv_client_connected server i) (sv_max_clients server)"

section \<open>Connection requests\<close>

definition server_address_in_token :: "netcode_server \<Rightarrow> connect_token_private \<Rightarrow> bool" where
  "server_address_in_token server token \<longleftrightarrow>
     first_index (\<lambda>i. netcode_address_equal (sv_address server) (ctp_server_addresses token ! i))
       (nat (ctp_num_server_addresses token)) \<noteq> None"

text \<open>The end of a successful request: the challenge packet.\<close>

definition server_send_challenge ::
    "crypto \<Rightarrow> netcode_server \<Rightarrow> netcode_address \<Rightarrow> connect_token_private \<Rightarrow> world \<Rightarrow> (netcode_server \<times> world) option" where
  "server_send_challenge cr server from_addr token w =
     do { challenge_token_data \<leftarrow> netcode_write_challenge_token
            \<lparr>cht_client_id = ctp_client_id token, cht_user_data = ctp_user_data token\<rparr>
            (int NETCODE_CHALLENGE_TOKEN_BYTES);
          r \<leftarrow> netcode_encrypt_challenge_token cr challenge_token_data (sv_challenge_sequence server)
                 (sv_challenge_key server);
          (case r of
             NETCODE_ERROR \<Rightarrow> Some (server, w)
           | NETCODE_OK challenge_token_data \<Rightarrow>
               let packet = CONNECTION_CHALLENGE_PACKET (sv_challenge_sequence server) challenge_token_data;
                   server = server\<lparr>sv_challenge_sequence := sv_challenge_sequence server + 1\<rparr>
               in netcode_server_send_global_packet cr server packet from_addr (ctp_server_to_client_key token) w) }"

definition netcode_server_process_connection_request_packet ::
    "crypto \<Rightarrow> netcode_server \<Rightarrow> netcode_address \<Rightarrow> connection_request_packet \<Rightarrow> world \<Rightarrow> (netcode_server \<times> world) option" where
  "netcode_server_process_connection_request_packet cr server from_addr packet w =
     do { r \<leftarrow> netcode_read_connect_token_private (rq_connect_token_data packet);
          (case r of
             NETCODE_ERROR \<Rightarrow> Some (server, w)
           | NETCODE_OK token \<Rightarrow>
               if \<not> server_address_in_token server token then Some (server, w)
               else if netcode_server_find_client_index_by_address server from_addr \<noteq> None then Some (server, w)
               else if netcode_server_find_client_index_by_id server (ctp_client_id token) \<noteq> None then Some (server, w)
               else do {
                 (new_token, entries) \<leftarrow> netcode_connect_token_entries_find_or_add (sv_connect_token_entries server)
                   from_addr (drop (NETCODE_CONNECT_TOKEN_PRIVATE_BYTES - NETCODE_MAC_BYTES) (rq_connect_token_data packet))
                   (sv_time server);
                 let server = server\<lparr>sv_connect_token_entries := entries\<rparr>;
                 if \<not> new_token then Some (server, w)
                 else if sv_num_connected_clients server = int (sv_max_clients server)
                 then netcode_server_send_global_packet cr server CONNECTION_DENIED_PACKET from_addr
                        (ctp_server_to_client_key token) w
                 else do {
                   let (added, em) = netcode_encryption_manager_add_encryption_mapping (sv_encryption_manager server)
                         from_addr (ctp_server_to_client_key token) (ctp_client_to_server_key token)
                         (sv_time server) (sv_time server + of_int (ctp_timeout_seconds token)) (ctp_timeout_seconds token);
                   let server = server\<lparr>sv_encryption_manager := em\<rparr>;
                   if \<not> added then Some (server, w)
                   else server_send_challenge cr server from_addr token w } }) }"

section \<open>Connection responses\<close>

text \<open>The assignments that fill a client's slot.\<close>

definition server_fill_slot ::
    "netcode_server \<Rightarrow> nat \<Rightarrow> netcode_address \<Rightarrow> u64 \<Rightarrow> nat option \<Rightarrow> int \<Rightarrow> bytes \<Rightarrow> netcode_server" where
  "server_fill_slot server i address client_id encryption_index timeout_seconds user_data = server\<lparr>
     sv_client_connected := (sv_client_connected server)(i := True),
     sv_client_timeout := (sv_client_timeout server)(i := timeout_seconds),
     sv_client_encryption_index := (sv_client_encryption_index server)(i := encryption_index),
     sv_client_id := (sv_client_id server)(i := client_id),
     sv_client_sequence := (sv_client_sequence server)(i := 0),
     sv_client_address := (sv_client_address server)(i := address),
     sv_client_last_packet_send_time := (sv_client_last_packet_send_time server)(i := sv_time server),
     sv_client_last_packet_receive_time := (sv_client_last_packet_receive_time server)(i := sv_time server),
     sv_client_user_data := (sv_client_user_data server)(i := user_data)\<rparr>"

definition keep_alive_packet :: "netcode_server \<Rightarrow> nat \<Rightarrow> netcode_packet" where
  "keep_alive_packet server client_index =
     CONNECTION_KEEP_ALIVE_PACKET (int client_index) (int (sv_max_clients server))"

definition netcode_server_connect_client ::
    "crypto \<Rightarrow> netcode_server \<Rightarrow> nat \<Rightarrow> netcode_address \<Rightarrow> u64 \<Rightarrow> nat option \<Rightarrow> int \<Rightarrow> bytes \<Rightarrow> world \<Rightarrow>
     (netcode_server \<times> world) option" where
  "netcode_server_connect_client cr server client_index address client_id encryption_index timeout_seconds user_data w =
     do { c_assert (sv_running server);
          c_assert (client_index < sv_max_clients server);
          c_assert (encryption_index \<noteq> None);
          let server = server\<lparr>sv_num_connected_clients := sv_num_connected_clients server + 1\<rparr>;
          c_assert (sv_num_connected_clients server \<le> int (sv_max_clients server));
          c_assert (\<not> sv_client_connected server client_index);
          em \<leftarrow> netcode_encryption_manager_set_expire_time (sv_encryption_manager server) encryption_index (- 1);
          let server = server_fill_slot (server\<lparr>sv_encryption_manager := em\<rparr>) client_index address client_id
                encryption_index timeout_seconds user_data;
          (server, w) \<leftarrow> netcode_server_send_client_packet cr server (keep_alive_packet server client_index) client_index w;
          Some (server, server_log_callback server client_index True w) }"

definition netcode_server_process_connection_response_packet ::
    "crypto \<Rightarrow> netcode_server \<Rightarrow> netcode_address \<Rightarrow> u64 \<Rightarrow> bytes \<Rightarrow> nat option \<Rightarrow> world \<Rightarrow> (netcode_server \<times> world) option" where
  "netcode_server_process_connection_response_packet cr server from_addr challenge_token_sequence challenge_token_data
       encryption_index w =
     do { r \<leftarrow> netcode_decrypt_challenge_token cr challenge_token_data challenge_token_sequence (sv_challenge_key server);
          (case r of
             NETCODE_ERROR \<Rightarrow> Some (server, w)
           | NETCODE_OK challenge_token_data \<Rightarrow> do {
               r \<leftarrow> netcode_read_challenge_token challenge_token_data;
               (case r of
                  NETCODE_ERROR \<Rightarrow> Some (server, w)
                | NETCODE_OK challenge_token \<Rightarrow> do {
                    packet_send_key \<leftarrow> netcode_encryption_manager_get_send_key (sv_encryption_manager server) encryption_index;
                    (case packet_send_key of
                       None \<Rightarrow> Some (server, w)
                     | Some packet_send_key \<Rightarrow>
                         if netcode_server_find_client_index_by_address server from_addr \<noteq> None then Some (server, w)
                         else if netcode_server_find_client_index_by_id server (cht_client_id challenge_token) \<noteq> None
                         then Some (server, w)
                         else if sv_num_connected_clients server = int (sv_max_clients server)
                         then netcode_server_send_global_packet cr server CONNECTION_DENIED_PACKET from_addr packet_send_key w
                         else do {
                           client_index \<leftarrow> netcode_server_find_free_client_index server;
                           timeout_seconds \<leftarrow> netcode_encryption_manager_get_timeout (sv_encryption_manager server) encryption_index;
                           netcode_server_connect_client cr server client_index from_addr (cht_client_id challenge_token)
                             encryption_index timeout_seconds (cht_user_data challenge_token) w }) }) }) }"

section \<open>Processing packets\<close>

text \<open>A keep-alive or a payload of a connected client.\<close>

definition server_heard_from :: "netcode_server \<Rightarrow> nat \<Rightarrow> netcode_server" where
  "server_heard_from server i = server\<lparr>
     sv_client_last_packet_receive_time := (sv_client_last_packet_receive_time server)(i := sv_time server),
     sv_client_confirmed := (if \<not> sv_client_confirmed server i then (sv_client_confirmed server)(i := True)
                             else sv_client_confirmed server)\<rparr>"

text \<open>All cases of the \<^verbatim>\<open>switch\<close> but a payload, which is queued and not freed.\<close>

definition server_handle_packet ::
    "crypto \<Rightarrow> netcode_server \<Rightarrow> netcode_address \<Rightarrow> netcode_packet \<Rightarrow> nat option \<Rightarrow> nat option \<Rightarrow> world \<Rightarrow>
     (netcode_server \<times> world) option" where
  "server_handle_packet cr server from_addr packet encryption_index client_index w =
     (case packet of
        CONNECTION_REQUEST_PACKET p \<Rightarrow>
          if sv_flags server AND 1 = 0
          then netcode_server_process_connection_request_packet cr server from_addr p w
          else Some (server, w)
      | CONNECTION_RESPONSE_PACKET challenge_token_sequence challenge_token_data \<Rightarrow>
          if sv_flags server AND push_bit 1 1 = 0
          then netcode_server_process_connection_response_packet cr server from_addr challenge_token_sequence
                 challenge_token_data encryption_index w
          else Some (server, w)
      | CONNECTION_KEEP_ALIVE_PACKET _ _ \<Rightarrow>
          Some (case client_index of None \<Rightarrow> server | Some i \<Rightarrow> server_heard_from server i, w)
      | CONNECTION_DISCONNECT_PACKET \<Rightarrow>
          (case client_index of
             None \<Rightarrow> Some (server, w)
           | Some i \<Rightarrow> netcode_server_disconnect_client_internal cr server i False w)
      | _ \<Rightarrow> Some (server, w))"

definition netcode_server_process_packet ::
    "crypto \<Rightarrow> netcode_server \<Rightarrow> netcode_address \<Rightarrow> nat \<Rightarrow> u64 \<Rightarrow> nat option \<Rightarrow> nat option \<Rightarrow> world \<Rightarrow>
     (netcode_server \<times> world) option" where
  "netcode_server_process_packet cr server from_addr ptr sequence encryption_index client_index w =
     do { packet \<leftarrow> w_packet ptr w;
          (case (packet, client_index) of
             (CONNECTION_PAYLOAD_PACKET _, Some i) \<Rightarrow> do {
               let server = server_heard_from server i;
               (queue, w) \<leftarrow> queue_push (sv_client_packet_queue server i) ptr sequence w;
               Some (server\<lparr>sv_client_packet_queue := (sv_client_packet_queue server)(i := queue)\<rparr>, w) }
           | _ \<Rightarrow> do {
               (server, w) \<leftarrow> server_handle_packet cr server from_addr packet encryption_index client_index w;
               w \<leftarrow> w_free (Some ptr) w;
               Some (server, w) }) }"

definition server_allowed_packets :: "bool list" where
  "server_allowed_packets = [True, False, False, True, True, True, True]"

text \<open>The encryption index and the client index for the sender of a datagram.\<close>

definition server_lookup_sender ::
    "netcode_server \<Rightarrow> netcode_address \<Rightarrow> nat option \<times> nat option \<times> netcode_server" where
  "server_lookup_sender server from_addr =
     (case netcode_server_find_client_index_by_address server from_addr of
        Some i \<Rightarrow> (sv_client_encryption_index server i, Some i, server)
      | None \<Rightarrow>
          let (index, em) = netcode_encryption_manager_find_encryption_mapping (sv_encryption_manager server)
                from_addr (sv_time server)
          in (index, None, server\<lparr>sv_encryption_manager := em\<rparr>))"

definition netcode_server_read_and_process_packet ::
    "crypto \<Rightarrow> netcode_server \<Rightarrow> netcode_address \<Rightarrow> bytes \<Rightarrow> u64 \<Rightarrow> world \<Rightarrow> (netcode_server \<times> world) option" where
  "netcode_server_read_and_process_packet cr server from_addr packet_data current_timestamp w =
     (if \<not> sv_running server then Some (server, w)
      else if length packet_data \<le> 1 then Some (server, w)
      else do {
        let (encryption_index, client_index, server) = server_lookup_sender server from_addr;
        read_packet_key \<leftarrow> netcode_encryption_manager_get_receive_key (sv_encryption_manager server) encryption_index;
        if read_packet_key = None \<and> hd packet_data \<noteq> 0 then Some (server, w)
        else do {
          (ptr, sequence, rp, h) \<leftarrow> netcode_read_packet cr packet_data read_packet_key (sv_protocol_id server)
             current_timestamp (Some (sv_private_key server)) server_allowed_packets
             (case client_index of None \<Rightarrow> None | Some i \<Rightarrow> Some (sv_client_replay_protection server i)) (w_heap w);
          let server = (case (client_index, rp) of
                (Some i, Some rp) \<Rightarrow>
                  server\<lparr>sv_client_replay_protection := (sv_client_replay_protection server)(i := rp)\<rparr>
              | _ \<Rightarrow> server);
          let w = w\<lparr>w_heap := h\<rparr>;
          (case ptr of
             None \<Rightarrow> Some (server, w)
           | Some ptr \<Rightarrow>
               netcode_server_process_packet cr server from_addr ptr sequence encryption_index client_index w) } })"

fun server_receive_from_socket ::
    "crypto \<Rightarrow> u64 \<Rightarrow> nat \<Rightarrow> netcode_server \<Rightarrow> world \<Rightarrow> (netcode_server \<times> world) option" where
  "server_receive_from_socket cr current_timestamp 0 server w = None"
| "server_receive_from_socket cr current_timestamp (Suc fuel) server w =
     do { (r, w) \<leftarrow> netcode_socket_receive_packet (sv_socket server) NETCODE_MAX_PACKET_BYTES w;
          (case r of
             None \<Rightarrow> Some (server, w)
           | Some (from_addr, packet_data) \<Rightarrow> do {
               (server, w) \<leftarrow> netcode_server_read_and_process_packet cr server from_addr packet_data current_timestamp w;
               server_receive_from_socket cr current_timestamp fuel server w }) }"

fun server_receive_from_simulator ::
    "crypto \<Rightarrow> u64 \<Rightarrow> (nat \<times> nat \<times> netcode_address) list \<Rightarrow> netcode_server \<Rightarrow> world \<Rightarrow> (netcode_server \<times> world) option" where
  "server_receive_from_simulator cr current_timestamp [] server w = Some (server, w)"
| "server_receive_from_simulator cr current_timestamp ((buffer, packet_bytes, from_addr) # received) server w =
     do { packet_data \<leftarrow> w_buffer buffer w;
          (server, w) \<leftarrow> netcode_server_read_and_process_packet cr server from_addr (take packet_bytes packet_data)
                          current_timestamp w;
          w \<leftarrow> w_free (Some buffer) w;
          server_receive_from_simulator cr current_timestamp received server w }"

definition netcode_server_receive_packets :: "crypto \<Rightarrow> netcode_server \<Rightarrow> world \<Rightarrow> (netcode_server \<times> world) option" where
  "netcode_server_receive_packets cr server w =
     (let current_timestamp = w_timestamp w in
      if \<not> sv_network_simulator server
      then server_receive_from_socket cr current_timestamp
             (Suc (length (w_inbox w (so_handle (sv_socket server))))) server w
      else do {
        (received, w) \<leftarrow> netcode_network_simulator_receive_packets (sv_address server)
                          NETCODE_SERVER_MAX_RECEIVE_PACKETS w;
        server_receive_from_simulator cr current_timestamp received server w })"

section \<open>Keep-alives and timeouts\<close>

fun server_send_keep_alives :: "crypto \<Rightarrow> nat \<Rightarrow> nat \<Rightarrow> netcode_server \<Rightarrow> world \<Rightarrow> (netcode_server \<times> world) option" where
  "server_send_keep_alives cr 0 i server w = Some (server, w)"
| "server_send_keep_alives cr (Suc k) i server w =
     do { (server, w) \<leftarrow>
            (if sv_client_connected server i \<and> \<not> sv_client_loopback server i
                \<and> sv_client_last_packet_send_time server i + 1 / NETCODE_PACKET_SEND_RATE \<le> sv_time server
             then netcode_server_send_client_packet cr server (keep_alive_packet server i) i w
             else Some (server, w));
          server_send_keep_alives cr k (Suc i) server w }"

definition netcode_server_send_packets :: "crypto \<Rightarrow> netcode_server \<Rightarrow> world \<Rightarrow> (netcode_server \<times> world) option" where
  "netcode_server_send_packets cr server w =
     (if \<not> sv_running server then Some (server, w)
      else server_send_keep_alives cr (sv_max_clients server) 0 server w)"

definition server_client_timed_out :: "netcode_server \<Rightarrow> nat \<Rightarrow> bool" where
  "server_client_timed_out server i \<longleftrightarrow>
     sv_client_connected server i \<and> sv_client_timeout server i > 0 \<and> \<not> sv_client_loopback server i
     \<and> sv_client_last_packet_receive_time server i + of_int (sv_client_timeout server i) \<le> sv_time server"

text \<open>The loop returns after the first client it disconnects.\<close>

definition netcode_server_check_for_timeouts ::
    "crypto \<Rightarrow> netcode_server \<Rightarrow> world \<Rightarrow> (netcode_server \<times> world) option" where
  "netcode_server_check_for_timeouts cr server w =
     (if \<not> sv_running server then Some (server, w)
      else (case first_index (server_client_timed_out server) (sv_max_clients server) of
              None \<Rightarrow> Some (server, w)
            | Some i \<Rightarrow> netcode_server_disconnect_client_internal cr server i False w))"

definition netcode_server_update ::
    "crypto \<Rightarrow> dbl \<Rightarrow> netcode_server \<Rightarrow> world \<Rightarrow> (netcode_server \<times> world) option" where
  "netcode_server_update cr time server w =
     do { let server = server\<lparr>sv_time := time\<rparr>;
          (server, w) \<leftarrow> netcode_server_receive_packets cr server w;
          (server, w) \<leftarrow> netcode_server_send_packets cr server w;
          netcode_server_check_for_timeouts cr server w }"

section \<open>The user's calls\<close>

text \<open>An index that the code asserts to be the index of a slot of the running server.\<close>

definition slot_index :: "netcode_server \<Rightarrow> int \<Rightarrow> nat option" where
  "slot_index server client_index =
     do { c_assert (client_index \<ge> 0);
          c_assert (client_index < int (sv_max_clients server));
          Some (nat client_index) }"

definition netcode_server_client_connected :: "netcode_server \<Rightarrow> int \<Rightarrow> bool" where
  "netcode_server_client_connected server client_index =
     (if \<not> sv_running server then False
      else if client_index < 0 \<or> client_index \<ge> int (sv_max_clients server) then False
      else sv_client_connected server (nat client_index))"

definition netcode_server_client_id :: "netcode_server \<Rightarrow> int \<Rightarrow> u64" where
  "netcode_server_client_id server client_index =
     (if \<not> sv_running server then 0
      else if client_index < 0 \<or> client_index \<ge> int (sv_max_clients server) then 0
      else sv_client_id server (nat client_index))"

definition netcode_server_next_packet_sequence :: "netcode_server \<Rightarrow> int \<Rightarrow> u64 option" where
  "netcode_server_next_packet_sequence server client_index =
     do { i \<leftarrow> slot_index server client_index;
          Some (if \<not> sv_client_connected server i then 0 else sv_client_sequence server i) }"

definition netcode_server_send_packet ::
    "crypto \<Rightarrow> netcode_server \<Rightarrow> int \<Rightarrow> bytes \<Rightarrow> world \<Rightarrow> (netcode_server \<times> world) option" where
  "netcode_server_send_packet cr server client_index packet_data w =
     do { c_assert (length packet_data \<le> NETCODE_MAX_PACKET_SIZE);
          if \<not> sv_running server then Some (server, w)
          else do {
            i \<leftarrow> slot_index server client_index;
            if \<not> sv_client_connected server i then Some (server, w)
            else if \<not> sv_client_loopback server i then do {
              (server, w) \<leftarrow>
                (if \<not> sv_client_confirmed server i
                 then netcode_server_send_client_packet cr server (keep_alive_packet server i) i w
                 else Some (server, w));
              netcode_server_send_client_packet cr server (CONNECTION_PAYLOAD_PACKET packet_data) i w }
            else do {
              context \<leftarrow> sv_send_loopback_packet_callback server;
              let w = w_log (Server_loopback_packet context i packet_data (sv_client_sequence server i)) w;
              Some (server\<lparr>
                sv_client_sequence := (sv_client_sequence server)(i := sv_client_sequence server i + 1),
                sv_client_last_packet_send_time := (sv_client_last_packet_send_time server)(i := sv_time server)\<rparr>, w) } } }"

text \<open>
  \<^verbatim>\<open>client_connected[client_index]\<close> is read before the assertions on the index: outside the array, of 256 elements, the read is
  undefined, and inside it but beyond \<^verbatim>\<open>max_clients\<close> it decides whether the assertions are reached.
\<close>

definition netcode_server_receive_packet ::
    "netcode_server \<Rightarrow> int \<Rightarrow> world \<Rightarrow> ((nat \<times> bytes \<times> u64) option \<times> netcode_server) option" where
  "netcode_server_receive_packet server client_index w =
     (if \<not> sv_running server then Some (None, server)
      else do {
        c_assert (0 \<le> client_index \<and> client_index < int NETCODE_MAX_CLIENTS);
        if \<not> sv_client_connected server (nat client_index) then Some (None, server)
        else do {
          i \<leftarrow> slot_index server client_index;
          (case netcode_packet_queue_pop (sv_client_packet_queue server i) of
             (None, _, queue) \<Rightarrow>
               Some (None, server\<lparr>sv_client_packet_queue := (sv_client_packet_queue server)(i := queue)\<rparr>)
           | (Some ptr, sequence, queue) \<Rightarrow> do {
               packet \<leftarrow> w_packet ptr w;
               (case packet of
                  CONNECTION_PAYLOAD_PACKET payload \<Rightarrow> do {
                    c_assert (length payload \<le> NETCODE_MAX_PACKET_BYTES);
                    Some (Some (ptr, payload, the sequence),
                      server\<lparr>sv_client_packet_queue := (sv_client_packet_queue server)(i := queue)\<rparr>) }
                | _ \<Rightarrow> None) }) } })"

definition netcode_server_free_packet :: "nat \<Rightarrow> world \<Rightarrow> world option" where
  "netcode_server_free_packet ptr w = w_free (Some ptr) w"

definition netcode_server_num_connected_clients :: "netcode_server \<Rightarrow> int" where
  "netcode_server_num_connected_clients server = sv_num_connected_clients server"

definition netcode_server_client_user_data :: "netcode_server \<Rightarrow> int \<Rightarrow> bytes option" where
  "netcode_server_client_user_data server client_index =
     do { i \<leftarrow> slot_index server client_index; Some (sv_client_user_data server i) }"

definition netcode_server_running :: "netcode_server \<Rightarrow> bool" where
  "netcode_server_running server = sv_running server"

definition netcode_server_max_clients :: "netcode_server \<Rightarrow> nat" where
  "netcode_server_max_clients server = sv_max_clients server"

definition netcode_server_connect_disconnect_callback :: "netcode_server \<Rightarrow> nat option \<Rightarrow> netcode_server" where
  "netcode_server_connect_disconnect_callback server callback =
     server\<lparr>sv_connect_disconnect_callback := callback\<rparr>"

section \<open>Loopback clients\<close>

definition netcode_server_connect_loopback_client ::
    "netcode_server \<Rightarrow> int \<Rightarrow> u64 \<Rightarrow> bytes option \<Rightarrow> world \<Rightarrow> (netcode_server \<times> world) option" where
  "netcode_server_connect_loopback_client server client_index client_id user_data w =
     do { i \<leftarrow> slot_index server client_index;
          c_assert (sv_running server);
          c_assert (\<not> sv_client_connected server i);
          let server = server\<lparr>sv_num_connected_clients := sv_num_connected_clients server + 1\<rparr>;
          c_assert (sv_num_connected_clients server \<le> int (sv_max_clients server));
          let server = server\<lparr>
            sv_client_loopback := (sv_client_loopback server)(i := True),
            sv_client_connected := (sv_client_connected server)(i := True),
            sv_client_confirmed := (sv_client_confirmed server)(i := True),
            sv_client_encryption_index := (sv_client_encryption_index server)(i := None),
            sv_client_id := (sv_client_id server)(i := client_id),
            sv_client_sequence := (sv_client_sequence server)(i := 0),
            sv_client_address := (sv_client_address server)(i := zero_address),
            sv_client_last_packet_send_time := (sv_client_last_packet_send_time server)(i := sv_time server),
            sv_client_last_packet_receive_time := (sv_client_last_packet_receive_time server)(i := sv_time server),
            sv_client_user_data := (sv_client_user_data server)(i :=
              (case user_data of Some data \<Rightarrow> take NETCODE_USER_DATA_BYTES data
               | None \<Rightarrow> replicate NETCODE_USER_DATA_BYTES 0))\<rparr>;
          Some (server, server_log_callback server i True w) }"

definition netcode_server_disconnect_loopback_client ::
    "netcode_server \<Rightarrow> int \<Rightarrow> world \<Rightarrow> (netcode_server \<times> world) option" where
  "netcode_server_disconnect_loopback_client server client_index w =
     do { i \<leftarrow> slot_index server client_index;
          c_assert (sv_running server);
          c_assert (sv_client_connected server i);
          c_assert (sv_client_loopback server i);
          let w = server_log_callback server i False w;
          (queue, w) \<leftarrow> queue_empty_out (sv_client_packet_queue server i) w;
          let server = server_clear_slot (server\<lparr>
                sv_client_packet_queue := (sv_client_packet_queue server)(i := queue),
                sv_client_loopback := (sv_client_loopback server)(i := False)\<rparr>) i;
          c_assert (sv_num_connected_clients server \<ge> 0);
          Some (server, w) }"

definition netcode_server_client_loopback :: "netcode_server \<Rightarrow> int \<Rightarrow> bool option" where
  "netcode_server_client_loopback server client_index =
     do { c_assert (sv_running server); i \<leftarrow> slot_index server client_index; Some (sv_client_loopback server i) }"

definition netcode_server_process_loopback_packet ::
    "netcode_server \<Rightarrow> int \<Rightarrow> bytes \<Rightarrow> u64 \<Rightarrow> world \<Rightarrow> (netcode_server \<times> world) option" where
  "netcode_server_process_loopback_packet server client_index packet_data packet_sequence w =
     do { i \<leftarrow> slot_index server client_index;
          c_assert (length packet_data \<le> NETCODE_MAX_PACKET_SIZE);
          c_assert (sv_client_connected server i);
          c_assert (sv_client_loopback server i);
          c_assert (sv_running server);
          (ptr, h) \<leftarrow> netcode_create_payload_packet (int (length packet_data)) (w_heap w);
          let w = w\<lparr>w_heap := h\<rparr>;
          (case ptr of
             None \<Rightarrow> Some (server, w)
           | Some ptr \<Rightarrow> do {
               let w = w\<lparr>w_heap := heap_store ptr (Packet_block (CONNECTION_PAYLOAD_PACKET packet_data)) (w_heap w)\<rparr>;
               let server = server\<lparr>sv_client_last_packet_receive_time :=
                     (sv_client_last_packet_receive_time server)(i := sv_time server)\<rparr>;
               (queue, w) \<leftarrow> queue_push (sv_client_packet_queue server i) ptr packet_sequence w;
               Some (server\<lparr>sv_client_packet_queue := (sv_client_packet_queue server)(i := queue)\<rparr>, w) }) }"

definition netcode_server_send_loopback_packet_callback :: "netcode_server \<Rightarrow> nat option \<Rightarrow> netcode_server" where
  "netcode_server_send_loopback_packet_callback server callback =
     server\<lparr>sv_send_loopback_packet_callback := callback\<rparr>"

end
