(* ===== verification/Token_Generation.thy ===== *)
theory Token_Generation
  imports Connect_Token World
begin

text \<open>
  \<^verbatim>\<open>netcode_generate_connect_token\<close>, what a backend calls: it parses the server addresses, makes the private token with
  fresh random keys and user data, writes and encrypts it, and wraps it in the public token. The result is the contents of
  the output buffer. The encryption of the private token is the parameter \<open>cr\<close> of the model.
\<close>

text \<open>The loop over the address strings; \<open>None\<close> is its early \<^verbatim>\<open>return NETCODE_ERROR\<close>.\<close>

fun parse_server_addresses :: "inet \<Rightarrow> string list \<Rightarrow> netcode_address list option" where
  "parse_server_addresses inet [] = Some []"
| "parse_server_addresses inet (s # ss) =
     (case netcode_parse_address inet s of
        NETCODE_ERROR \<Rightarrow> None
      | NETCODE_OK a \<Rightarrow> map_option ((#) a) (parse_server_addresses inet ss))"

text \<open>A negative lifetime means no expiry: the largest timestamp.\<close>

definition token_expire_timestamp :: "u64 \<Rightarrow> int \<Rightarrow> u64" where
  "token_expire_timestamp create_timestamp expire_seconds =
     (if expire_seconds \<ge> 0 then create_timestamp + word_of_int expire_seconds else 0xFFFFFFFFFFFFFFFF)"

definition netcode_generate_connect_token ::
    "crypto \<Rightarrow> inet \<Rightarrow> string list \<Rightarrow> int \<Rightarrow> int \<Rightarrow> u64 \<Rightarrow> u64 \<Rightarrow> u64 \<Rightarrow> bytes \<Rightarrow> world \<Rightarrow>
     (bytes c_result \<times> world) option" where
  "netcode_generate_connect_token cr inet server_addresses expire_seconds timeout_seconds client_id protocol_id
       sequence private_key w =
     do { c_assert (length server_addresses > 0);
          c_assert (length server_addresses \<le> NETCODE_MAX_SERVERS_PER_CONNECT);
          (case parse_server_addresses inet server_addresses of
             None \<Rightarrow> Some (NETCODE_ERROR, w)
           | Some parsed_server_addresses \<Rightarrow> do {
               let (user_data, w) = netcode_random_bytes NETCODE_USER_DATA_BYTES w;
               let (client_to_server_key, w) = netcode_generate_key w;
               let (server_to_client_key, w) = netcode_generate_key w;
               connect_token_private \<leftarrow> netcode_generate_connect_token_private client_id timeout_seconds
                 (int (length server_addresses)) parsed_server_addresses user_data
                 client_to_server_key server_to_client_key;
               connect_token_data \<leftarrow> netcode_write_connect_token_private connect_token_private
                 (int NETCODE_CONNECT_TOKEN_PRIVATE_BYTES);
               let create_timestamp = w_timestamp w;
               let expire_timestamp = token_expire_timestamp create_timestamp expire_seconds;
               r \<leftarrow> netcode_encrypt_connect_token_private cr connect_token_data NETCODE_VERSION_INFO protocol_id
                 expire_timestamp sequence private_key;
               (case r of
                  NETCODE_ERROR \<Rightarrow> Some (NETCODE_ERROR, w)
                | NETCODE_OK connect_token_data \<Rightarrow> do {
                    output_buffer \<leftarrow> netcode_write_connect_token
                      \<lparr>ct_version_info = NETCODE_VERSION_INFO,
                       ct_protocol_id = protocol_id,
                       ct_create_timestamp = create_timestamp,
                       ct_expire_timestamp = expire_timestamp,
                       ct_sequence = sequence,
                       ct_private_data = connect_token_data,
                       ct_timeout_seconds = timeout_seconds,
                       ct_num_server_addresses = int (length server_addresses),
                       ct_server_addresses = parsed_server_addresses
                         @ replicate (NETCODE_MAX_SERVERS_PER_CONNECT - length server_addresses) zero_address,
                       ct_client_to_server_key = ctp_client_to_server_key connect_token_private,
                       ct_server_to_client_key = ctp_server_to_client_key connect_token_private\<rparr>
                      (int NETCODE_CONNECT_TOKEN_BYTES);
                    Some (NETCODE_OK output_buffer, w) }) }) }"

section \<open>Generated tokens\<close>

lemma parse_server_addresses_length: "parse_server_addresses inet ss = Some as \<Longrightarrow> length as = length ss"
  by (induction ss arbitrary: as) (auto split: c_result.splits)

lemma token_expire_later:
  assumes "expire_seconds < 0 \<or> unat t + nat expire_seconds < 2 ^ 64"
  shows "t \<le> token_expire_timestamp t expire_seconds"
proof (cases "expire_seconds < 0")
  case False
  with assms have "unat t + nat expire_seconds < 2 ^ 64" by simp
  then have "unat (t + of_nat (nat expire_seconds)) = unat t + nat expire_seconds"
    by (simp add: unat_word_ariths unat_of_nat)
  with False show ?thesis by (simp add: token_expire_timestamp_def word_le_nat_alt)
next
  case True
  have "unat t < 2 ^ LENGTH(64)" by (rule unsigned_less)
  with True show ?thesis by (simp add: token_expire_timestamp_def word_le_nat_alt)
qed

lemma padded_addresses_ok:
  assumes "\<forall>a \<in> set as. address_ok a" and "0 < length as" and "length as \<le> NETCODE_MAX_SERVERS_PER_CONNECT"
  defines "xs \<equiv> as @ replicate (NETCODE_MAX_SERVERS_PER_CONNECT - length as) zero_address"
  shows "server_addresses_ok (int (length as)) xs" and "rest_zero (int (length as)) xs"
  using assms by (auto simp: server_addresses_ok_def rest_zero_def nth_append)

lemma token_generated:
  assumes laws: "aead_laws cr" and key: "length private_key = NETCODE_KEY_BYTES"
    and names: "0 < length names" "length names \<le> NETCODE_MAX_SERVERS_PER_CONNECT"
    and parsed: "parse_server_addresses inet names = Some addresses" "\<forall>a \<in> set addresses. address_ok a"
    and timeout: "int32 timeout_seconds" and expire: "expire_seconds < 0 \<or> unat (w_timestamp w) + nat expire_seconds < 2 ^ 64"
  shows "\<exists>buffer w' token opened private.
      netcode_generate_connect_token cr inet names expire_seconds timeout_seconds client_id protocol_id sequence private_key w
        = Some (NETCODE_OK buffer, w') \<and> length buffer = NETCODE_CONNECT_TOKEN_BYTES \<and> w' = w\<lparr>w_random_next := w_random_next w'\<rparr>
    \<and> netcode_read_connect_token buffer zero_connect_token = Some (True, token)
    \<and> ct_protocol_id token = protocol_id \<and> ct_timeout_seconds token = timeout_seconds
    \<and> take (length names) (ct_server_addresses token) = addresses
    \<and> netcode_decrypt_connect_token_private cr (ct_private_data token) NETCODE_VERSION_INFO protocol_id
        (ct_expire_timestamp token) (ct_sequence token) private_key = Some (NETCODE_OK opened)
    \<and> netcode_read_connect_token_private opened = Some (NETCODE_OK private)
    \<and> ctp_client_id private = client_id \<and> ctp_timeout_seconds private = timeout_seconds
    \<and> take (length names) (ctp_server_addresses private) = addresses
    \<and> ctp_client_to_server_key private = ct_client_to_server_key token
    \<and> ctp_server_to_client_key private = ct_server_to_client_key token
    \<and> ct_create_timestamp token = w_timestamp w \<and> ct_expire_timestamp token = token_expire_timestamp (w_timestamp w) expire_seconds"
proof -
  let ?n = "length names" and ?xs = "addresses @ replicate (NETCODE_MAX_SERVERS_PER_CONNECT - length names) zero_address"
  have n: "length addresses = ?n" by (rule parse_server_addresses_length [OF parsed(1)])
  have xs: "server_addresses_ok (int ?n) ?xs" "rest_zero (int ?n) ?xs"
    using padded_addresses_ok [OF parsed(2)] names n by simp_all
  obtain user w1 n1 where 1: "netcode_random_bytes NETCODE_USER_DATA_BYTES w = (user, w1)" "length user = NETCODE_USER_DATA_BYTES"
      "w1 = w\<lparr>w_random_next := n1\<rparr>" by (simp add: netcode_random_bytes_def)
  obtain c2s w2 n2 where 2: "netcode_generate_key w1 = (c2s, w2)" "length c2s = NETCODE_KEY_BYTES" "w2 = w\<lparr>w_random_next := n2\<rparr>"
    using 1(3) by (simp add: netcode_generate_key_def netcode_random_bytes_def)
  obtain s2c w3 n3 where 3: "netcode_generate_key w2 = (s2c, w3)" "length s2c = NETCODE_KEY_BYTES" "w3 = w\<lparr>w_random_next := n3\<rparr>"
    using 2(3) by (simp add: netcode_generate_key_def netcode_random_bytes_def)
  have same: "w3 = w\<lparr>w_random_next := w_random_next w3\<rparr>" "w_timestamp w3 = w_timestamp w"
    using 3(3) by simp_all
  let ?p = "\<lparr>ctp_client_id = client_id, ctp_timeout_seconds = timeout_seconds, ctp_num_server_addresses = int ?n,
     ctp_server_addresses = ?xs, ctp_client_to_server_key = c2s, ctp_server_to_client_key = s2c, ctp_user_data = user\<rparr>"
  let ?e = "token_expire_timestamp (w_timestamp w) expire_seconds"
  have p: "netcode_generate_connect_token_private client_id timeout_seconds (int ?n) addresses user c2s s2c = Some ?p"
    using names n by (simp add: netcode_generate_connect_token_private_def)
  have wf: "connect_token_private_wf ?p" using xs timeout 1(2) 2(2) 3(2) by (simp add: connect_token_private_wf_def)
  obtain plain sealed opened where t: "netcode_write_connect_token_private ?p 1024 = Some plain"
    "netcode_encrypt_connect_token_private cr plain NETCODE_VERSION_INFO protocol_id ?e sequence private_key = Some (NETCODE_OK sealed)"
    "length sealed = NETCODE_CONNECT_TOKEN_PRIVATE_BYTES"
    "netcode_decrypt_connect_token_private cr sealed NETCODE_VERSION_INFO protocol_id ?e sequence private_key = Some (NETCODE_OK opened)"
    "netcode_read_connect_token_private opened = Some (NETCODE_OK ?p)"
    by (rule sealed_private_token [OF laws key wf, of NETCODE_VERSION_INFO protocol_id ?e sequence]) (use xs(2) in auto)
  let ?t = "\<lparr>ct_version_info = NETCODE_VERSION_INFO, ct_protocol_id = protocol_id, ct_create_timestamp = w_timestamp w,
     ct_expire_timestamp = ?e, ct_sequence = sequence, ct_private_data = sealed, ct_timeout_seconds = timeout_seconds,
     ct_num_server_addresses = int ?n, ct_server_addresses = ?xs, ct_client_to_server_key = c2s, ct_server_to_client_key = s2c\<rparr>"
  have "connect_token_wf ?t"
    using xs(1) timeout t(3) 2(2) 3(2) token_expire_later [OF expire] by (simp add: connect_token_wf_def)
  then obtain b where b: "netcode_write_connect_token ?t 2048 = Some (b @ replicate (2048 - length b) 0)" "length b \<le> 1749"
    "\<And>tail old. length tail + length b = 2048 \<Longrightarrow> netcode_read_connect_token (b @ tail) old = Some (True,
       ?t\<lparr>ct_server_addresses := overwrite (nat (ct_num_server_addresses ?t)) 0 (ct_server_addresses ?t) (ct_server_addresses old)\<rparr>)"
    using connect_token_written by blast
  have over: "overwrite ?n 0 ?xs (replicate NETCODE_MAX_SERVERS_PER_CONNECT zero_address) = ?xs"
    using overwrite_zero_addresses [OF xs] by simp
  let ?b = "b @ replicate (2048 - length b) 0"
  have "netcode_generate_connect_token cr inet names expire_seconds timeout_seconds client_id protocol_id sequence private_key w
      = Some (NETCODE_OK ?b, w3)"
    using names parsed 1(1) 2(1) 3(1) same(2) p t(1,2) b(1) by (simp add: netcode_generate_connect_token_def Let_def)
  moreover have "netcode_read_connect_token ?b zero_connect_token = Some (True, ?t)"
    using b(2) over by (subst b(3)) (simp_all add: zero_connect_token_def)
  ultimately show ?thesis
    using t(4,5) b(2) n same(1) by (intro exI [of _ ?b] exI [of _ w3] exI [of _ ?t] exI [of _ opened] exI [of _ ?p]) simp
qed

text \<open>C27: a generated connect token works. For server addresses that can be parsed and a lifetime that does not overflow the
  clock, the backend's call returns 2048 bytes that the client reads as a connect token, and the private part, opened with
  the private key, is a private token with the client id, the timeout and the addresses asked for and with the keys that the client was
  given.\<close>

theorem generated_token_opens:
  assumes laws: "aead_laws cr" and key: "length private_key = NETCODE_KEY_BYTES"
    and names: "0 < length names" "length names \<le> NETCODE_MAX_SERVERS_PER_CONNECT"
    and parsed: "parse_server_addresses inet names = Some addresses" "\<forall>a \<in> set addresses. address_ok a"
    and timeout: "int32 timeout_seconds" and expire: "expire_seconds < 0 \<or> unat (w_timestamp w) + nat expire_seconds < 2 ^ 64"
  shows "\<exists>buffer w' token opened private.
      netcode_generate_connect_token cr inet names expire_seconds timeout_seconds client_id protocol_id sequence private_key w
        = Some (NETCODE_OK buffer, w') \<and> length buffer = NETCODE_CONNECT_TOKEN_BYTES
    \<and> netcode_read_connect_token buffer zero_connect_token = Some (True, token)
    \<and> ct_protocol_id token = protocol_id \<and> ct_timeout_seconds token = timeout_seconds
    \<and> take (length names) (ct_server_addresses token) = addresses
    \<and> netcode_decrypt_connect_token_private cr (ct_private_data token) NETCODE_VERSION_INFO protocol_id
        (ct_expire_timestamp token) (ct_sequence token) private_key = Some (NETCODE_OK opened)
    \<and> netcode_read_connect_token_private opened = Some (NETCODE_OK private)
    \<and> ctp_client_id private = client_id \<and> ctp_timeout_seconds private = timeout_seconds
    \<and> take (length names) (ctp_server_addresses private) = addresses
    \<and> ctp_client_to_server_key private = ct_client_to_server_key token
    \<and> ctp_server_to_client_key private = ct_server_to_client_key token"
  using token_generated [OF assms, of client_id protocol_id sequence] by blast

text \<open>Whatever the addresses, a call with a sound clock returns, and only draws random bytes.\<close>

lemma parsed_addresses_ok:
  "inet_ok inet \<Longrightarrow> parse_server_addresses inet names = Some addresses \<Longrightarrow> \<forall>a \<in> set addresses. address_ok a"
  by (induction names arbitrary: addresses) (auto split: c_result.splits dest: parsed_address_ok)

lemma runs_generate_connect_token:
  assumes "aead_laws cr" and "length private_key = NETCODE_KEY_BYTES" and "inet_ok inet"
    and "0 < length names" "length names \<le> NETCODE_MAX_SERVERS_PER_CONNECT"
    and "int32 timeout_seconds" and "expire_seconds < 0 \<or> unat (w_timestamp w) + nat expire_seconds < 2 ^ 64"
  shows "runs (netcode_generate_connect_token cr inet names expire_seconds timeout_seconds client_id protocol_id sequence private_key w)
    (\<lambda>(r, w'). w' = w\<lparr>w_random_next := w_random_next w'\<rparr>
       \<and> (\<forall>buffer. r = NETCODE_OK buffer \<longrightarrow> length buffer = NETCODE_CONNECT_TOKEN_BYTES))"
proof (cases "parse_server_addresses inet names")
  case None
  with assms(4,5) show ?thesis by (simp add: netcode_generate_connect_token_def runs_simps)
next
  case (Some addresses)
  from token_generated [OF assms(1,2,4,5) Some parsed_addresses_ok [OF assms(3) Some] assms(6,7), of client_id protocol_id sequence]
  show ?thesis by (auto simp: runs_ex)
qed

definition local_inet :: inet where
  "local_inet = \<lparr>pton4 = (\<lambda>s. if s = ''127.0.0.1'' then Some (s_addr_of [127, 0, 0, 1]) else None),
     pton6 = (\<lambda>_. None), ntop6 = (\<lambda>_. [])\<rparr>"

lemma local_inet_ok [simp]: "inet_ok local_inet"
  by (simp add: inet_ok_def local_inet_def)

lemma local_names_parsed: "parse_server_addresses local_inet [''127.0.0.1:40000''] = Some [ADDRESS_IPV4 [127, 0, 0, 1] 40000]"
  by code_simp

theorem generated_token_opens_witness:
  "\<exists>buffer w' token opened private.
      netcode_generate_connect_token clear_crypto local_inet [''127.0.0.1:40000''] 45 5 11 7 1 (replicate 32 9) empty_world
        = Some (NETCODE_OK buffer, w') \<and> length buffer = NETCODE_CONNECT_TOKEN_BYTES
    \<and> netcode_read_connect_token buffer zero_connect_token = Some (True, token)
    \<and> netcode_decrypt_connect_token_private clear_crypto (ct_private_data token) NETCODE_VERSION_INFO 7
        (ct_expire_timestamp token) (ct_sequence token) (replicate 32 9) = Some (NETCODE_OK opened)
    \<and> netcode_read_connect_token_private opened = Some (NETCODE_OK private) \<and> ctp_client_id private = 11"
  using generated_token_opens [OF clear_crypto_laws _ _ _ local_names_parsed, of "replicate 32 9" 5 45 empty_world 11 7 1]
  by (auto simp: int32_def address_ok_def empty_world_def)

end
