(* ===== verification/Client_Protocol.thy ===== *)
theory Client_Protocol
  imports Client_Invariant
begin

text \<open>
  The client as a state machine. \<open>client_step\<close>: one call of the user, or anything that the rest of the process and the
  network do in between; \<open>client_step_inv\<close> and the interpretation \<open>client_run\<close> carry the invariant along every
  run, and \<open>client_calls_run\<close> says that in its states every call runs to its end.
\<close>

section \<open>Runs of a client\<close>

text \<open>The first component is the set of blocks that belong to the user and to the rest of the process.\<close>

type_synonym client_conf = "nat set \<times> netcode_client \<times> world"

definition client_may_send :: "netcode_client \<Rightarrow> bytes \<Rightarrow> bool" where
  "client_may_send client data \<longleftrightarrow> 1 \<le> length data \<and> length data \<le> NETCODE_MAX_PACKET_SIZE
     \<and> (if cl_loopback client then cl_send_loopback_packet_callback client \<noteq> None
        else wire_bytes (CONNECTION_PAYLOAD_PACKET data) (cl_sequence client) \<le> NETCODE_MAX_PACKET_BYTES)"

inductive client_step :: "crypto \<Rightarrow> client_conf \<Rightarrow> client_conf \<Rightarrow> bool" for cr where
  step_connect: "\<not> cl_loopback c \<Longrightarrow> length token = NETCODE_CONNECT_TOKEN_BYTES \<Longrightarrow>
    netcode_client_connect cr c token w = Some (c', w') \<Longrightarrow> client_step cr (B, c, w) (B, c', w')"
| step_update: "netcode_client_update cr time c w = Some (c', w') \<Longrightarrow> client_step cr (B, c, w) (B, c', w')"
| step_send: "client_may_send c data \<Longrightarrow> netcode_client_send_packet cr c data w = Some (c', w') \<Longrightarrow>
    client_step cr (B, c, w) (B, c', w')"
| step_receive: "netcode_client_receive_packet c w = Some (r, c') \<Longrightarrow>
    client_step cr (B, c, w) (case r of None \<Rightarrow> B | Some (p, _, _) \<Rightarrow> insert p B, c', w)"
| step_free: "p \<in> B \<Longrightarrow> netcode_client_free_packet p w = Some w' \<Longrightarrow> client_step cr (B, c, w) (B - {p}, c, w')"
| step_disconnect: "\<not> cl_loopback c \<Longrightarrow> netcode_client_disconnect cr c w = Some (c', w') \<Longrightarrow>
    client_step cr (B, c, w) (B, c', w')"
| step_connect_loopback: "cl_state c \<le> NETCODE_CLIENT_STATE_DISCONNECTED \<Longrightarrow>
    netcode_client_connect_loopback c i n = Some c' \<Longrightarrow> client_step cr (B, c, w) (B, c', w)"
| step_disconnect_loopback: "cl_loopback c \<Longrightarrow> netcode_client_disconnect_loopback c w = Some (c', w') \<Longrightarrow>
    client_step cr (B, c, w) (B, c', w')"
| step_process_loopback: "cl_loopback c \<Longrightarrow> length data \<le> NETCODE_MAX_PAYLOAD_BYTES \<Longrightarrow>
    netcode_client_process_loopback_packet c data s w = Some (c', w') \<Longrightarrow> client_step cr (B, c, w) (B, c', w')"
| step_state_change_callback: "client_step cr (B, c, w) (B, netcode_client_state_change_callback c cb, w)"
| step_loopback_callback: "client_step cr (B, c, w) (B, netcode_client_send_loopback_packet_callback c cb, w)"
| step_environment: "world_inv (cl_network_simulator c) (B' \<union> queue_ptrs (cl_packet_receive_queue c)) w' \<Longrightarrow>
    B' \<inter> queue_ptrs (cl_packet_receive_queue c) = {} \<Longrightarrow>
    untouched (queue_ptrs (cl_packet_receive_queue c)) w w' \<Longrightarrow> client_step cr (B, c, w) (B', c, w')"

inductive_cases client_stepE: "client_step cr (B, c, w) s"

fun client_conf_inv :: "crypto \<Rightarrow> client_conf \<Rightarrow> bool" where
  "client_conf_inv cr (B, c, w) \<longleftrightarrow> aead_laws cr \<and> client_inv B c w"

lemma receive_queue_untouched:
  "receive_queue_ok q w \<Longrightarrow> untouched (queue_ptrs q) w w' \<Longrightarrow> receive_queue_ok q w'"
  by (simp add: receive_queue_ok_def payload_at_def untouched_packet)

lemma client_inv_environment:
  assumes "client_inv B c w" and "world_inv (cl_network_simulator c) (B' \<union> queue_ptrs (cl_packet_receive_queue c)) w'"
    and "B' \<inter> queue_ptrs (cl_packet_receive_queue c) = {}" and "untouched (queue_ptrs (cl_packet_receive_queue c)) w w'"
  shows "client_inv B' c w'"
  using assms by (auto simp: client_inv_def queue_held_def intro: receive_queue_untouched)

lemma client_inv_callbacks [simp]:
  "client_inv B (netcode_client_state_change_callback c cb) w = client_inv B c w"
  "client_inv B (netcode_client_send_loopback_packet_callback c cb) w = client_inv B c w"
  by (simp_all add: client_inv_def netcode_client_state_change_callback_def
      netcode_client_send_loopback_packet_callback_def)

text \<open>What each call leaves, as a rule for the simplifier's \<open>runs\<close>.\<close>

lemma client_step_inv:
  assumes "client_step cr s s'" and "client_conf_inv cr s"
  shows "client_conf_inv cr s'"
  using assms(1)
proof cases
  case (step_connect c token w c' w' B)
  with assms(2) show ?thesis
    using runs_SomeD [OF runs_client_connect [of cr B c w token]] by auto
next
  case (step_update time c w c' w' B)
  with assms(2) show ?thesis using runs_SomeD [OF runs_client_update [of cr B c w time]] by auto
next
  case (step_send c data w c' w' B)
  with assms(2) show ?thesis
    using runs_SomeD [OF runs_client_send_payload [of cr B c w data]] by (auto simp: client_may_send_def split: if_splits)
next
  case (step_receive c w r c' B)
  with assms(2) show ?thesis
    using runs_SomeD [OF runs_client_receive_packet [of B c w]] by (auto split: option.splits)
next
  case (step_free p B w w' c)
  then have "insert p (B - {p}) = B" by auto
  with step_free assms(2) show ?thesis
    using runs_SomeD [OF runs_client_free_packet [of p "B - {p}" c w]] by auto
next
  case (step_disconnect c w c' w' B)
  with assms(2) show ?thesis using runs_SomeD [OF runs_client_disconnect [of cr B c w]] by auto
next
  case (step_connect_loopback c i n c' B w)
  with assms(2) show ?thesis using runs_SomeD [OF client_connect_loopback_inv [of B c w i n]] by auto
next
  case (step_disconnect_loopback c w c' w' B)
  with assms(2) show ?thesis using runs_SomeD [OF runs_client_disconnect_loopback [of B c w]] by auto
next
  case (step_process_loopback c data s w c' w' B)
  with assms(2) show ?thesis using runs_SomeD [OF runs_client_process_loopback [of B c w data s]] by auto
next
  case (step_environment c B' w' w B)
  with assms(2) show ?thesis using client_inv_environment [of B c w B' w'] by auto
qed (use assms(2) in auto)

interpretation client_run: step_system "client_step cr" "client_conf_inv cr" for cr
  by unfold_locales (rule client_step_inv)

text \<open>Every call that the user may make returns.\<close>

lemma client_calls_run:
  assumes laws: "aead_laws cr" and inv: "client_inv B' client w'"
  shows "client_inv B' client w'
    \<and> netcode_client_update cr t client w' \<noteq> None
    \<and> netcode_client_receive_packet client w' \<noteq> None
    \<and> (client_may_send client data \<longrightarrow> netcode_client_send_packet cr client data w' \<noteq> None)
    \<and> (p \<in> B' \<longrightarrow> netcode_client_free_packet p w' \<noteq> None)
    \<and> (\<not> cl_loopback client \<longrightarrow> length token = NETCODE_CONNECT_TOKEN_BYTES \<longrightarrow>
        netcode_client_connect cr client token w' \<noteq> None)
    \<and> (\<not> cl_loopback client \<longrightarrow> netcode_client_disconnect cr client w' \<noteq> None)
    \<and> (cl_state client \<le> NETCODE_CLIENT_STATE_DISCONNECTED \<longrightarrow>
        netcode_client_connect_loopback client index max_clients \<noteq> None)
    \<and> (cl_loopback client \<longrightarrow> netcode_client_disconnect_loopback client w' \<noteq> None)
    \<and> (cl_loopback client \<longrightarrow> length data \<le> NETCODE_MAX_PAYLOAD_BYTES \<longrightarrow>
        netcode_client_process_loopback_packet client data sequence w' \<noteq> None)
    \<and> (p \<in> B' \<longrightarrow> w_initialized w' \<longrightarrow> netcode_client_destroy cr p client w' \<noteq> None)"
proof -
  have "netcode_client_send_packet cr client data w' \<noteq> None" if "client_may_send client data"
    by (rule runs_not_None [OF runs_client_send_payload [OF laws inv]])
      (use that in \<open>auto simp: client_may_send_def split: if_splits\<close>)
  moreover have "netcode_client_free_packet p w' \<noteq> None" "w_initialized w' \<Longrightarrow> netcode_client_destroy cr p client w' \<noteq> None"
    if p: "p \<in> B'"
  proof -
    have "insert p (B' - {p}) = B'" using p by auto
    then have inv': "client_inv (insert p (B' - {p})) client w'" using inv by simp
    show "netcode_client_free_packet p w' \<noteq> None" using runs_not_None [OF runs_client_free_packet [OF inv']] by simp
    show "netcode_client_destroy cr p client w' \<noteq> None" if "w_initialized w'"
      using runs_not_None [OF runs_client_destroy [OF laws inv' _ that]] by simp
  qed
  ultimately show ?thesis
    using inv runs_not_None [OF runs_client_update [OF laws inv, of t]]
      runs_not_None [OF runs_client_receive_packet [OF inv]] runs_not_None [OF runs_client_connect [OF laws inv, of token]]
      runs_not_None [OF runs_client_disconnect [OF laws inv]] runs_not_None [OF client_connect_loopback_inv [OF inv, of index max_clients]]
      runs_not_None [OF runs_client_disconnect_loopback [OF inv]] runs_not_None [OF runs_client_process_loopback [OF inv, of data sequence]]
    by blast
qed

section \<open>Properties\<close>

text \<open>C5: an update of a sound client, at any time and whatever datagrams have arrived, runs to its end: no failed assertion, no
  double free, no access out of bounds. The client is sound afterwards, and nobody else's memory was touched.\<close>

theorem client_update_safe:
  assumes "aead_laws cr" and "client_inv B client w"
  shows "\<exists>client' w'. netcode_client_update cr time client w = Some (client', w') \<and> client_inv B client' w'
    \<and> frame_rx B w w'"
  using runs_client_update [OF assms, of time] by (auto elim: runsE)

lemma new_client_simulated_inv:
  "client_inv {} (new_client (ADDRESS_IPV4 [127, 0, 0, 1] 50000) zero_socket 0 True) empty_world"
  by (rule new_client_inv) (simp_all add: client_ready_def new_client_def address_ok_def)

theorem client_update_safe_witness:
  "\<exists>client' w'. netcode_client_update clear_crypto 5
       (new_client (ADDRESS_IPV4 [127, 0, 0, 1] 50000) zero_socket 0 True) empty_world = Some (client', w')
    \<and> client_inv {} client' w' \<and> frame_rx {} empty_world w'"
  using client_update_safe [OF clear_crypto_laws new_client_simulated_inv] .

text \<open>C4: no run of a client goes wrong. After any sequence of calls by a user who keeps to the interface, with anything happening in
  between, the client is sound, and every call of the interface that the user may make next runs to its end, whatever the state of
  the client. To keep to the interface is: to connect with 2048 bytes, to send payloads that fit, to free only what was received, to
  connect over loopback only a client that is disconnected, and to use the two calls for loopback clients, and not those for the
  network, on a client that is connected over loopback. Setting the two callbacks is always possible, and so are the calls that only
  look at the client.\<close>

theorem client_calls_never_abort:
  assumes laws: "aead_laws cr" and "world_inv sim B w" and "client_ready (new_client address socket time sim)"
    and run: "(client_step cr)\<^sup>*\<^sup>* (B, new_client address socket time sim, w) (B', client, w')"
  shows "client_inv B' client w'
    \<and> netcode_client_update cr t client w' \<noteq> None
    \<and> netcode_client_receive_packet client w' \<noteq> None
    \<and> (client_may_send client data \<longrightarrow> netcode_client_send_packet cr client data w' \<noteq> None)
    \<and> (p \<in> B' \<longrightarrow> netcode_client_free_packet p w' \<noteq> None)
    \<and> (\<not> cl_loopback client \<longrightarrow> length token = NETCODE_CONNECT_TOKEN_BYTES \<longrightarrow>
        netcode_client_connect cr client token w' \<noteq> None)
    \<and> (\<not> cl_loopback client \<longrightarrow> netcode_client_disconnect cr client w' \<noteq> None)
    \<and> (cl_state client \<le> NETCODE_CLIENT_STATE_DISCONNECTED \<longrightarrow>
        netcode_client_connect_loopback client index max_clients \<noteq> None)
    \<and> (cl_loopback client \<longrightarrow> netcode_client_disconnect_loopback client w' \<noteq> None)
    \<and> (cl_loopback client \<longrightarrow> length data \<le> NETCODE_MAX_PAYLOAD_BYTES \<longrightarrow>
        netcode_client_process_loopback_packet client data sequence w' \<noteq> None)
    \<and> (p \<in> B' \<longrightarrow> w_initialized w' \<longrightarrow> netcode_client_destroy cr p client w' \<noteq> None)"
proof -
  have "client_conf_inv cr (B, new_client address socket time sim, w)"
    using laws new_client_inv [OF assms(2,3)] by simp
  from client_run.run_inv [OF this run] have inv: "client_inv B' client w'" by simp
  show ?thesis by (rule client_calls_run [OF laws inv])
qed

text \<open>A client that was created, and one that was connected over loopback.\<close>

abbreviation simulated_client :: netcode_client where
  "simulated_client \<equiv> new_client (ADDRESS_IPV4 [127, 0, 0, 1] 50000) zero_socket 0 True"

lemma simulated_client_ready: "client_ready simulated_client"
  by (simp add: client_ready_def new_client_def address_ok_def)

lemma loopback_client_run:
  obtains client where "(client_step clear_crypto)\<^sup>*\<^sup>* ({}, simulated_client, empty_world) ({}, client, empty_world)"
    and "cl_loopback client"
proof -
  have idle: "cl_state simulated_client \<le> NETCODE_CLIENT_STATE_DISCONNECTED" by (simp add: new_client_def)
  obtain c where c: "netcode_client_connect_loopback simulated_client 0 2 = Some c" "cl_loopback c"
    using client_connect_loopback_inv [OF new_client_simulated_inv idle, of 0 2] by (auto elim: runsE)
  have "client_step clear_crypto ({}, simulated_client, empty_world) ({}, c, empty_world)"
    by (rule step_connect_loopback [OF idle c(1)])
  then show ?thesis using that c(2) by blast
qed

theorem client_calls_never_abort_witness:
  "netcode_client_update clear_crypto 5 simulated_client empty_world \<noteq> None
    \<and> (\<exists>client. cl_loopback client \<and> netcode_client_process_loopback_packet client [1, 2, 3] 5 empty_world \<noteq> None
      \<and> netcode_client_disconnect_loopback client empty_world \<noteq> None)"
proof -
  obtain c where run: "(client_step clear_crypto)\<^sup>*\<^sup>* ({}, simulated_client, empty_world) ({}, c, empty_world)"
    and c: "cl_loopback c" by (rule loopback_client_run)
  note calls = client_calls_never_abort [OF clear_crypto_laws world_inv_empty simulated_client_ready]
  show ?thesis
    using calls [OF rtranclp.rtrancl_refl, where t = 5] calls [OF run, where data = "[1, 2, 3]" and sequence = 5] c
    by (intro conjI exI [of _ c]) simp_all
qed

end
