(* ===== verification/Client_Diagram.thy ===== *)
theory Client_Diagram
  imports Client_Protocol
begin

text \<open>
  The diagram of the client's states, as the code has it, and the proof that the changes of state that the user's callback sees are
  its edges and follow each other. \<open>client_edge\<close> is a specification, not code. It has every change that the code can make, and so two edges
  that the protocol's description has not: from connected back to sending a connection request (the server's disconnect packet makes
  the client try the next server of its token), and from connected to denied (a denial that came in before the packet that connected the
  client, with it in one update, is acted on after both); \<open>connected_then_next_server\<close> and \<open>connected_then_denied\<close> at the end are
  updates that go along them. A client that is connected over loopback is not on the diagram's way: the callback is not told of it.
\<close>

inductive client_edge :: "client_state \<Rightarrow> client_state \<Rightarrow> bool" where
  edge_connect: "s \<le> NETCODE_CLIENT_STATE_DISCONNECTED \<Longrightarrow> client_edge s NETCODE_CLIENT_STATE_SENDING_CONNECTION_REQUEST"
| edge_bad_token: "s \<le> NETCODE_CLIENT_STATE_DISCONNECTED \<Longrightarrow> client_edge s NETCODE_CLIENT_STATE_INVALID_CONNECT_TOKEN"
| edge_challenge: "client_edge NETCODE_CLIENT_STATE_SENDING_CONNECTION_REQUEST NETCODE_CLIENT_STATE_SENDING_CONNECTION_RESPONSE"
| edge_accepted: "client_edge NETCODE_CLIENT_STATE_SENDING_CONNECTION_RESPONSE NETCODE_CLIENT_STATE_CONNECTED"
| edge_next_server: "s > NETCODE_CLIENT_STATE_DISCONNECTED \<Longrightarrow> client_edge s NETCODE_CLIENT_STATE_SENDING_CONNECTION_REQUEST"
| edge_request_expired: "client_edge NETCODE_CLIENT_STATE_SENDING_CONNECTION_REQUEST NETCODE_CLIENT_STATE_CONNECT_TOKEN_EXPIRED"
| edge_response_expired: "client_edge NETCODE_CLIENT_STATE_SENDING_CONNECTION_RESPONSE NETCODE_CLIENT_STATE_CONNECT_TOKEN_EXPIRED"
| edge_request_timeout: "client_edge NETCODE_CLIENT_STATE_SENDING_CONNECTION_REQUEST NETCODE_CLIENT_STATE_CONNECTION_REQUEST_TIMED_OUT"
| edge_response_timeout: "client_edge NETCODE_CLIENT_STATE_SENDING_CONNECTION_RESPONSE NETCODE_CLIENT_STATE_CONNECTION_RESPONSE_TIMED_OUT"
| edge_timeout: "client_edge NETCODE_CLIENT_STATE_CONNECTED NETCODE_CLIENT_STATE_CONNECTION_TIMED_OUT"
| edge_denied: "s > NETCODE_CLIENT_STATE_DISCONNECTED \<Longrightarrow> client_edge s NETCODE_CLIENT_STATE_CONNECTION_DENIED"
| edge_disconnected: "s > NETCODE_CLIENT_STATE_DISCONNECTED \<Longrightarrow> client_edge s NETCODE_CLIENT_STATE_DISCONNECTED"

inductive_cases edge_to_connected: "client_edge s NETCODE_CLIENT_STATE_CONNECTED"
inductive_cases edge_to_response: "client_edge s NETCODE_CLIENT_STATE_SENDING_CONNECTION_RESPONSE"

text \<open>The states of a run, as pairs of an old and a new state.\<close>

inductive client_path :: "client_state \<Rightarrow> (client_state \<times> client_state) list \<Rightarrow> client_state \<Rightarrow> bool" where
  path_nil: "client_path s [] s"
| path_step: "client_edge s t \<Longrightarrow> client_path t es u \<Longrightarrow> client_path s ((s, t) # es) u"

inductive_simps path_Nil_simp [simp]: "client_path s [] t"
inductive_simps path_Cons_simp [simp]: "client_path s (e # es) t"

lemma path_append: "client_path s es t \<Longrightarrow> client_path t fs u \<Longrightarrow> client_path s (es @ fs) u"
  by (induction rule: client_path.induct) auto

lemma path_snoc: "client_path s (es @ [(u, t)]) v \<longleftrightarrow> t = v \<and> client_path s es u \<and> client_edge u t"
  by (induction es arbitrary: s) auto

lemma path_one: "client_edge s t \<Longrightarrow> client_path s [(s, t)] t"
  by simp

text \<open>What the callback is told.\<close>

fun reported :: "nat option \<Rightarrow> (client_state \<times> client_state) list \<Rightarrow> callback list" where
  "reported None es = []"
| "reported (Some cb) es = map (\<lambda>(s, t). Client_state_change cb (client_state_code s) (client_state_code t)) es"

lemma reported_append: "reported cb (es @ fs) = reported cb es @ reported cb fs"
  by (cases cb) auto

lemma reported_Nil [simp]: "reported cb [] = []"
  by (cases cb) auto

section \<open>What an operation reports\<close>

definition answer_ok :: "netcode_client \<Rightarrow> bool" where
  "answer_ok client \<longleftrightarrow> (cl_should_disconnect_state client = NETCODE_CLIENT_STATE_DISCONNECTED
     \<or> cl_should_disconnect_state client = NETCODE_CLIENT_STATE_CONNECTION_DENIED)
     \<and> (cl_should_disconnect client \<longrightarrow> cl_state client > NETCODE_CLIENT_STATE_DISCONNECTED)"

definition logs :: "netcode_client \<Rightarrow> world \<Rightarrow> netcode_client \<Rightarrow> world \<Rightarrow> bool" where
  "logs c w c' w' \<longleftrightarrow> (answer_ok c \<longrightarrow> answer_ok c' \<and> cl_state_change_callback c' = cl_state_change_callback c
     \<and> (\<exists>es. client_path (cl_state c) es (cl_state c')
          \<and> w_callbacks w' = w_callbacks w @ reported (cl_state_change_callback c) es))"

lemma logs_refl [simp]: "logs c w c w"
  by (auto simp: logs_def intro!: exI [of _ "[]"])

lemma logs_trans [trans]: "logs c w c' w' \<Longrightarrow> logs c' w' c'' w'' \<Longrightarrow> logs c w c'' w''"
  unfolding logs_def using path_append by (fastforce simp: reported_append)

lemma logs_assume: "(answer_ok c \<Longrightarrow> logs c w c' w') \<Longrightarrow> logs c w c' w'"
  by (simp add: logs_def)

lemma logs_answer: "logs c w c' w' \<Longrightarrow> answer_ok c \<Longrightarrow> answer_ok c'"
  by (simp add: logs_def)

text \<open>A change that the log does not see.\<close>

definition logs_same :: "netcode_client \<Rightarrow> netcode_client \<Rightarrow> bool" where
  "logs_same c c' \<longleftrightarrow> cl_state c' = cl_state c \<and> cl_should_disconnect c' = cl_should_disconnect c
     \<and> cl_should_disconnect_state c' = cl_should_disconnect_state c
     \<and> cl_state_change_callback c' = cl_state_change_callback c"

lemma logs_quiet: "logs_same c c' \<Longrightarrow> w_callbacks w' = w_callbacks w \<Longrightarrow> logs c w c' w'"
  by (auto simp: logs_def logs_same_def answer_ok_def intro!: exI [of _ "[]"])

lemma logs_same_trans: "logs_same c c' \<Longrightarrow> logs_same c' c'' \<Longrightarrow> logs_same c c''"
  by (simp add: logs_same_def)

text \<open>A change of state, with the other assignments that come with it.\<close>

lemma notified_callbacks:
  "w_callbacks (client_notified c s w) = w_callbacks w @ reported (cl_state_change_callback c) [(cl_state c, s)]"
  by (auto simp: client_notified_def netcode_client_set_state_def Let_def split: option.split)

lemma logs_set_state:
  assumes "client_edge (cl_state c) s" and "cl_state d = cl_state c" and "cl_state c' = s" and "answer_ok c'"
    and "cl_state_change_callback d = cl_state_change_callback c"
    and "cl_state_change_callback c' = cl_state_change_callback c"
  shows "logs c w c' (client_notified d s w)"
  using assms path_one [OF assms(1)]
  by (auto simp: logs_def notified_callbacks intro!: exI [of _ "[(cl_state c, s)]"])

section \<open>Operations that call nobody\<close>

named_theorems quiet "operations that do not touch the log of callbacks"

lemma w_free_quiet [quiet]: "w_free p w = Some w' \<Longrightarrow> w_callbacks w' = w_callbacks w"
  by (auto simp: w_free_def split: bind_splits)

lemma queue_push_quiet [quiet]: "queue_push q p s w = Some (q', w') \<Longrightarrow> w_callbacks w' = w_callbacks w"
  by (auto simp: queue_push_def split: bind_splits)

lemma queue_drain_quiet [quiet]: "queue_drain n q w = Some (q', w') \<Longrightarrow> w_callbacks w' = w_callbacks w"
proof (induction n arbitrary: q w)
  case (Suc n)
  then show ?case by (auto split: prod.splits option.splits bind_splits dest: w_free_quiet)
qed simp

lemma queue_empty_out_quiet [quiet]: "queue_empty_out q w = Some (q', w') \<Longrightarrow> w_callbacks w' = w_callbacks w"
  by (auto simp: queue_empty_out_def simp del: queue_drain.simps split: bind_splits dest!: queue_drain_quiet)

lemma w_alloc_quiet: "w_alloc b w = (p, w') \<Longrightarrow> w_callbacks w' = w_callbacks w"
  by (auto simp: w_alloc_def split: prod.splits)

lemma random_float_quiet: "netcode_random_float a b w = Some (x, w') \<Longrightarrow> w_callbacks w' = w_callbacks w"
  by (auto simp: netcode_random_float_def Let_def split: bind_splits)

lemma sim_queue_packet_quiet:
  "netcode_network_simulator_queue_packet f t d delay w = Some w' \<Longrightarrow> w_callbacks w' = w_callbacks w"
  by (auto simp: netcode_network_simulator_queue_packet_def sim_map_def Let_def
      split: bind_splits prod.splits dest: w_alloc_quiet)

lemma sim_send_quiet [quiet]:
  "netcode_network_simulator_send_packet f t d w = Some w' \<Longrightarrow> w_callbacks w' = w_callbacks w"
  unfolding netcode_network_simulator_send_packet_def
  by (auto simp: free_current_entry_def sim_map_def Let_def split: bind_splits prod.splits if_splits option.splits
      dest!: random_float_quiet sim_queue_packet_quiet w_free_quiet)

lemma socket_send_quiet [quiet]: "netcode_socket_send_packet s t d w = Some w' \<Longrightarrow> w_callbacks w' = w_callbacks w"
  by (auto simp: netcode_socket_send_packet_def split: bind_splits)

lemma client_transmit_quiet [quiet]: "client_transmit c d w = Some w' \<Longrightarrow> w_callbacks w' = w_callbacks w"
  by (auto simp: client_transmit_def split: if_splits dest: quiet)

lemma socket_receive_quiet [quiet]:
  "netcode_socket_receive_packet s n w = Some (r, w') \<Longrightarrow> w_callbacks w' = w_callbacks w"
  by (auto simp: netcode_socket_receive_packet_def Let_def split: bind_splits list.splits if_splits prod.splits)

lemma sim_receive_quiet [quiet]:
  "netcode_network_simulator_receive_packets t n w = Some (r, w') \<Longrightarrow> w_callbacks w' = w_callbacks w"
  by (auto simp: netcode_network_simulator_receive_packets_def sim_map_def Let_def split: bind_splits prod.splits)

text \<open>Of the callbacks, the reports of a change of state. A packet that is sent over loopback is given to another callback.\<close>

fun is_report :: "callback \<Rightarrow> bool" where
  "is_report (Client_state_change cb s t) \<longleftrightarrow> True"
| "is_report _ \<longleftrightarrow> False"

definition reports_nothing :: "netcode_client \<Rightarrow> world \<Rightarrow> netcode_client \<times> world \<Rightarrow> bool" where
  "reports_nothing c w = (\<lambda>(c', w'). cl_state c' = cl_state c
     \<and> filter is_report (w_callbacks w') = filter is_report (w_callbacks w))"

section \<open>Operations that change the state\<close>

lemma logs_same_updates [simp]:
  "logs_same c (c\<lparr>cl_sequence := s\<rparr>)" "logs_same c (c\<lparr>cl_last_packet_send_time := t\<rparr>)"
  "logs_same c (c\<lparr>cl_last_packet_receive_time := t\<rparr>)" "logs_same c (c\<lparr>cl_packet_receive_queue := q\<rparr>)"
  "logs_same c (c\<lparr>cl_replay_protection := rp\<rparr>)" "logs_same c (c\<lparr>cl_time := t\<rparr>)"
  "logs_same c c"
  by (simp_all add: logs_same_def)

lemma send_internal_quiet:
  assumes "netcode_client_send_packet_to_server_internal cr c packet w = Some (c', w')"
  shows "logs_same c c' \<and> w_callbacks w' = w_callbacks w"
  using assms
  by (auto simp: netcode_client_send_packet_to_server_internal_def logs_same_def Let_def
      split: bind_splits dest!: client_transmit_quiet)

lemma send_disconnects_quiet:
  "client_send_disconnect_packets cr n c w = Some (c', w') \<Longrightarrow> logs_same c c' \<and> w_callbacks w' = w_callbacks w"
proof (induction n arbitrary: c w)
  case (Suc n)
  then obtain d v where "netcode_client_send_packet_to_server_internal cr c CONNECTION_DISCONNECT_PACKET w = Some (d, v)"
    "client_send_disconnect_packets cr n d v = Some (c', w')" by (auto split: bind_splits)
  with Suc.IH send_internal_quiet show ?case by (metis logs_same_trans)
qed simp

lemma send_packets_logs:
  assumes "netcode_client_send_packets cr c w = Some (c', w')"
  shows "logs c w c' w'"
  using assms unfolding netcode_client_send_packets_def
  by (auto split: client_state.splits if_splits dest: send_internal_quiet intro: logs_quiet)

lemma reset_answer_ok:
  "netcode_client_reset_connection_data c s w = Some (c', w') \<Longrightarrow> answer_ok c' \<and> cl_state c' = s"
  by (auto simp: netcode_client_reset_connection_data_def netcode_client_reset_before_next_connect_def
      set_state_eq Let_def answer_ok_def split: bind_splits)

lemma reset_logs:
  assumes r: "netcode_client_reset_connection_data c s w = Some (c', w')" and e: "client_edge (cl_state c) s"
  shows "logs c w c' w'"
proof -
  obtain q where q: "queue_empty_out (cl_packet_receive_queue c) (client_notified c s w) = Some (q, w')"
    and cb: "cl_state_change_callback c' = cl_state_change_callback c"
    using r by (auto simp: netcode_client_reset_connection_data_def netcode_client_reset_before_next_connect_def
        netcode_client_set_state_def client_notified_def Let_def
        cong: option.case_cong split: bind_splits)
  have "logs c w c' (client_notified c s w)"
    using e cb reset_answer_ok [OF r] by (intro logs_set_state) auto
  also have "logs c' (client_notified c s w) c' w'" using queue_empty_out_quiet [OF q] by (intro logs_quiet) auto
  finally show ?thesis .
qed

lemma disconnect_internal_logs:
  assumes r: "netcode_client_disconnect_internal cr c s send w = Some (c', w')"
    and e: "cl_state c > NETCODE_CLIENT_STATE_DISCONNECTED \<Longrightarrow> client_edge (cl_state c) s"
  shows "logs c w c' w'"
proof (cases "cl_state c \<le> NETCODE_CLIENT_STATE_DISCONNECTED \<or> cl_state c = s")
  case True
  with r show ?thesis by (auto simp: netcode_client_disconnect_internal_def)
next
  case False
  then obtain d v where d: "logs_same c d \<and> w_callbacks v = w_callbacks w"
    "netcode_client_reset_connection_data d s v = Some (c', w')"
    using r unfolding netcode_client_disconnect_internal_def
    by (auto split: bind_splits if_splits dest: send_disconnects_quiet intro: logs_same_updates(7))
  have "logs c w d v" using d(1) by (auto intro: logs_quiet)
  also have "logs d v c' w'"
    using d e False by (intro reset_logs) (auto simp: logs_same_def)
  finally show ?thesis .
qed

lemma disconnect_internal_state:
  "netcode_client_disconnect_internal cr c s send w = Some (c', w') \<Longrightarrow> cl_state c' \<le> NETCODE_CLIENT_STATE_DISCONNECTED"
  unfolding netcode_client_disconnect_internal_def
  by (auto split: bind_splits if_splits dest: reset_answer_ok)

lemma disconnect_logs: "netcode_client_disconnect cr c w = Some (c', w') \<Longrightarrow> logs c w c' w'"
  unfolding netcode_client_disconnect_def
  by (auto intro!: disconnect_internal_logs intro: edge_disconnected)

lemma next_server_logs:
  assumes "netcode_client_connect_to_next_server c w = Some (b, c', w')"
    and "cl_state c > NETCODE_CLIENT_STATE_DISCONNECTED"
  shows "logs c w c' w'" and "\<not> b \<Longrightarrow> c' = c"
proof -
  show "logs c w c' w'"
    using assms edge_next_server [OF assms(2)]
    by (auto simp: netcode_client_connect_to_next_server_def netcode_client_reset_before_next_connect_def
        set_state_eq Let_def answer_ok_def client_state_order split: if_splits bind_splits intro!: logs_set_state)
  show "\<not> b \<Longrightarrow> c' = c"
    using assms by (auto simp: netcode_client_connect_to_next_server_def set_state_eq Let_def split: if_splits bind_splits)
qed

lemma next_or_disconnect_logs:
  assumes r: "client_next_server_or_disconnect cr c s w = Some (c', w')"
    and st: "cl_state c > NETCODE_CLIENT_STATE_DISCONNECTED" and e: "client_edge (cl_state c) s"
  shows "logs c w c' w'"
proof -
  obtain b d v where n: "netcode_client_connect_to_next_server c w = Some (b, d, v)"
    and d: "if b then c' = d \<and> w' = v else netcode_client_disconnect_internal cr d s False v = Some (c', w')"
    using r by (auto simp: client_next_server_or_disconnect_def split: bind_splits if_splits)
  have "logs c w d v" by (rule next_server_logs [OF n st])
  also have "logs d v c' w'"
    using d e next_server_logs(2) [OF n st] by (auto split: if_splits intro: disconnect_internal_logs)
  finally show ?thesis .
qed

lemma connect_logs:
  assumes "netcode_client_connect cr c token w = Some (c', w')"
  shows "logs c w c' w'"
proof -
  obtain d v where d: "netcode_client_disconnect cr c w = Some (d, v)"
    and rest: "netcode_client_connect cr c token w = Some (c', w')" "length token = NETCODE_CONNECT_TOKEN_BYTES"
    using assms by (auto simp: netcode_client_connect_def split: bind_splits)
  have low: "cl_state d \<le> NETCODE_CLIENT_STATE_DISCONNECTED"
    using d by (auto simp: netcode_client_disconnect_def dest: disconnect_internal_state)
  have "logs c w d v" by (rule disconnect_logs [OF d])
  also have "logs d v c' w'"
  proof (rule logs_assume)
    assume ok: "answer_ok d"
    obtain f token' where t: "netcode_read_connect_token token (cl_connect_token d) = Some (f, token')"
      using rest d by (auto simp: netcode_client_connect_def split: bind_splits)
    show "logs d v c' w'"
      using rest d t ok low edge_connect [OF low] edge_bad_token [OF low]
      by (auto simp: netcode_client_connect_def netcode_client_reset_before_next_connect_def set_state_eq Let_def
          answer_ok_def client_state_order split: if_splits bind_splits intro!: logs_set_state)
  qed
  finally show ?thesis .
qed

lemma handle_packet_logs:
  assumes "client_handle_packet c from_addr packet w = Some (c', w')"
  shows "logs c w c' w'"
proof (rule logs_assume)
  assume ok: "answer_ok c"
  show ?thesis
  proof (cases "cl_state c' = cl_state c")
    case True
    then have "w_callbacks w' = w_callbacks w \<and> answer_ok c' \<and> cl_state_change_callback c' = cl_state_change_callback c"
      using assms ok
      by (auto simp: client_handle_packet_def set_state_eq Let_def answer_ok_def client_state_order
          split: netcode_packet.splits if_splits)
    with True show ?thesis by (auto simp: logs_def intro!: exI [of _ "[]"])
  next
    case False
    with assms ok show ?thesis
      by (auto simp: client_handle_packet_def set_state_eq Let_def answer_ok_def client_state_order
          split: netcode_packet.splits if_splits intro!: logs_set_state intro: client_edge.intros)
  qed
qed

lemma process_packet_logs:
  assumes "netcode_client_process_packet c from_addr ptr s w = Some (c', w')"
  shows "logs c w c' w'"
proof -
  obtain packet where packet: "w_packet ptr w = Some packet"
    using assms by (auto simp: netcode_client_process_packet_def split: bind_splits)
  show ?thesis
  proof (cases "client_handle_packet c from_addr packet w")
    case None
    with assms packet show ?thesis
      by (auto simp: netcode_client_process_packet_def logs_same_def split: bind_splits
          dest!: queue_push_quiet intro!: logs_quiet)
  next
    case (Some r)
    then obtain d v where d: "client_handle_packet c from_addr packet w = Some (d, v)" by (cases r) auto
    have "logs c w d v" by (rule handle_packet_logs [OF d])
    also have "logs d v c' w'"
      using assms packet d
      by (auto simp: netcode_client_process_packet_def split: bind_splits dest!: w_free_quiet intro!: logs_quiet)
    finally show ?thesis .
  qed
qed

lemma read_packet_logs:
  assumes "client_read_packet cr t data c w = Some (r, c', w')"
  shows "logs c w c' w'"
  using assms by (auto simp: client_read_packet_def split: bind_splits prod.splits intro!: logs_quiet)

lemma receive_from_socket_logs:
  "client_receive_from_socket cr t n c w = Some (c', w') \<Longrightarrow> logs c w c' w'"
proof (induction n arbitrary: c w)
  case (Suc n)
  obtain r v where r: "netcode_socket_receive_packet (cl_socket c) NETCODE_MAX_PACKET_BYTES w = Some (r, v)"
    using Suc.prems by (auto split: bind_splits)
  have first: "logs c w c v" by (rule logs_quiet) (use socket_receive_quiet [OF r] in auto)
  show ?case
  proof (cases r)
    case None
    with Suc.prems r first show ?thesis by simp
  next
    case (Some x)
    then obtain a data where x: "r = Some (a, data)" by (cases x) auto
    obtain ptr s d v' where d: "client_read_packet cr t data c v = Some ((ptr, s), d, v')"
      using Suc.prems r x by (auto split: bind_splits)
    note first
    also have "logs c v d v'" by (rule read_packet_logs [OF d])
    also have "logs d v' c' w'"
      using Suc.prems r x d
      by (auto split: bind_splits option.splits intro: Suc.IH logs_trans [OF process_packet_logs])
    finally show ?thesis .
  qed
qed simp

lemma receive_from_simulator_logs:
  "client_receive_from_simulator cr t received c w = Some (c', w') \<Longrightarrow> logs c w c' w'"
proof (induction received arbitrary: c w)
  case (Cons x received)
  obtain buffer n from_addr where x: "x = (buffer, n, from_addr)" by (cases x) auto
  note run = Cons.prems [unfolded x client_receive_from_simulator.simps]
  obtain data where b: "w_buffer buffer w = Some data" using run by (cases "w_buffer buffer w") auto
  note run = run [unfolded b Option.bind.bind_lunit]
  obtain ptr s d v where d: "client_read_packet cr t (take n data) c w = Some ((ptr, s), d, v)"
    using run by (cases "client_read_packet cr t (take n data) c w") auto
  note run = run [unfolded d Option.bind.bind_lunit prod.case]
  obtain u where u: "w_free (Some buffer) v = Some u" using run by (cases "w_free (Some buffer) v") auto
  note run = run [unfolded u Option.bind.bind_lunit]
  have "logs c w d v" by (rule read_packet_logs [OF d])
  also have "logs d v d u" by (rule logs_quiet) (use w_free_quiet [OF u] in auto)
  also have "logs d u c' w'"
  proof (cases ptr)
    case None
    with run show ?thesis by (auto intro: Cons.IH)
  next
    case (Some p)
    then obtain e w2 where "netcode_client_process_packet d from_addr p s u = Some (e, w2)"
      "client_receive_from_simulator cr t received e w2 = Some (c', w')"
      using run by (auto split: bind_splits)
    then show ?thesis by (intro logs_trans [OF process_packet_logs Cons.IH])
  qed
  finally show ?case .
qed simp

lemma receive_packets_logs:
  assumes "netcode_client_receive_packets cr c w = Some (c', w')"
  shows "logs c w c' w'"
proof (cases "cl_network_simulator c")
  case True
  then obtain r v where r: "netcode_network_simulator_receive_packets (cl_address c) NETCODE_CLIENT_MAX_RECEIVE_PACKETS w
      = Some (r, v)" "client_receive_from_simulator cr (w_timestamp w) r c v = Some (c', w')"
    using assms by (auto simp: netcode_client_receive_packets_def Let_def split: bind_splits)
  have "logs c w c v" by (rule logs_quiet) (use sim_receive_quiet [OF r(1)] in auto)
  also have "logs c v c' w'" by (rule receive_from_simulator_logs [OF r(2)])
  finally show ?thesis .
next
  case False
  with assms show ?thesis
    by (auto simp: netcode_client_receive_packets_def Let_def intro: receive_from_socket_logs
        simp del: client_receive_from_socket.simps)
qed

lemma update_logs:
  assumes "netcode_client_update cr time c w = Some (c', w')"
  shows "logs c w c' w'"
proof (cases "cl_loopback c")
  case True
  with assms show ?thesis by (auto simp: netcode_client_update_def Let_def intro: logs_quiet)
next
  case False
  let ?c = "c\<lparr>cl_time := time\<rparr>"
  obtain d v e u where d: "netcode_client_receive_packets cr ?c w = Some (d, v)"
    and e: "netcode_client_send_packets cr d v = Some (e, u)"
    using assms False by (auto simp: netcode_client_update_def Let_def split: bind_splits)
  have "logs c w ?c w" by (rule logs_quiet) auto
  also have "logs ?c w d v" by (rule receive_packets_logs [OF d])
  also have "logs d v e u" by (rule send_packets_logs [OF e])
  also have "logs e u c' w'"
  proof (rule logs_assume)
    assume ok: "answer_ok e"
    note run = assms [unfolded netcode_client_update_def Let_def] False d e
    consider (expired) "client_token_expired e" | (answer) "\<not> client_token_expired e" "cl_should_disconnect e"
      | (silence) "\<not> client_token_expired e" "\<not> cl_should_disconnect e" by auto
    then show "logs e u c' w'"
    proof cases
      case expired
      then have "client_edge (cl_state e) NETCODE_CLIENT_STATE_CONNECT_TOKEN_EXPIRED"
        by (cases "cl_state e") (auto simp: client_token_expired_def client_state_order intro: client_edge.intros)
      with expired run show ?thesis by (auto intro: disconnect_internal_logs)
    next
      case answer
      then have "cl_state e > NETCODE_CLIENT_STATE_DISCONNECTED"
        and "client_edge (cl_state e) (cl_should_disconnect_state e)"
        using ok by (auto simp: answer_ok_def intro: edge_disconnected edge_denied)
      with answer run show ?thesis by (auto intro: next_or_disconnect_logs)
    next
      case silence
      with run show ?thesis
        by (cases "cl_state e") (auto split: if_splits simp: client_state_order
            elim!: next_or_disconnect_logs disconnect_internal_logs intro: client_edge.intros)
    qed
  qed
  finally show ?thesis .
qed

lemma disconnect_loopback_logs:
  assumes "netcode_client_disconnect_loopback c w = Some (c', w')" and "cl_state c > NETCODE_CLIENT_STATE_DISCONNECTED"
  shows "logs c w c' w'"
  using assms by (auto simp: netcode_client_disconnect_loopback_def intro!: reset_logs edge_disconnected)

lemma destroy_logs:
  assumes "netcode_client_destroy cr p c w = Some w'" and "cl_loopback c \<Longrightarrow> cl_state c > NETCODE_CLIENT_STATE_DISCONNECTED"
  shows "\<exists>c'. logs c w c' w'"
proof -
  obtain c1 w1 where first: "(if \<not> cl_loopback c then netcode_client_disconnect cr c w
      else netcode_client_disconnect_loopback c w) = Some (c1, w1)" and rest: "w_callbacks w' = w_callbacks w1"
    using assms(1) by (auto simp: netcode_client_destroy_def netcode_socket_destroy_def split: bind_splits if_splits dest!: w_free_quiet)
  have "logs c w c1 w1"
    using first assms(2) by (auto split: if_splits intro: disconnect_logs disconnect_loopback_logs)
  also have "logs c1 w1 c1 w'" using rest by (intro logs_quiet) simp_all
  finally show ?thesis by blast
qed

text \<open>Calls that report no change of state.\<close>

lemma send_reports_nothing:
  assumes "netcode_client_send_packet cr c data w = Some (c', w')"
  shows "reports_nothing c w (c', w')"
  using assms by (auto simp: netcode_client_send_packet_def reports_nothing_def logs_same_def split: bind_splits if_splits
      dest!: send_internal_quiet)

lemma process_loopback_reports_nothing:
  assumes "netcode_client_process_loopback_packet c data s w = Some (c', w')"
  shows "reports_nothing c w (c', w')"
  using assms by (auto simp: netcode_client_process_loopback_packet_def reports_nothing_def Let_def
      split: bind_splits prod.splits option.splits dest!: queue_push_quiet)

lemma receive_keeps_state: "netcode_client_receive_packet c w = Some (r, c') \<Longrightarrow> cl_state c' = cl_state c"
  by (auto simp: netcode_client_receive_packet_def split: bind_splits prod.splits option.splits netcode_packet.splits)

section \<open>Every run keeps the answer\<close>

lemma new_client_answer [simp]: "answer_ok (new_client address socket time sim)"
  by (simp add: answer_ok_def new_client_def)

lemma client_step_answer:
  assumes "client_step cr (B, c, w) (B', c', w')" and ok: "answer_ok c"
  shows "answer_ok c'"
  using assms(1)
proof cases
  case step_connect
  then show ?thesis using logs_answer [OF connect_logs ok] by simp
next
  case step_update
  then show ?thesis using logs_answer [OF update_logs ok] by simp
next
  case (step_send data)
  then show ?thesis
    using ok by (auto simp: netcode_client_send_packet_def answer_ok_def logs_same_def split: bind_splits if_splits
        dest!: send_internal_quiet)
next
  case (step_receive r)
  then show ?thesis
    using ok by (auto simp: netcode_client_receive_packet_def answer_ok_def
        split: bind_splits prod.splits option.splits netcode_packet.splits)
next
  case step_disconnect
  then show ?thesis using logs_answer [OF disconnect_logs ok] by simp
next
  case (step_connect_loopback i n)
  then show ?thesis using ok by (auto simp: netcode_client_connect_loopback_def answer_ok_def client_state_order)
next
  case step_disconnect_loopback
  then show ?thesis using reset_answer_ok by (auto simp: netcode_client_disconnect_loopback_def)
next
  case (step_process_loopback data s)
  then show ?thesis
    using ok by (auto simp: netcode_client_process_loopback_packet_def answer_ok_def Let_def
        split: bind_splits prod.splits option.splits)
qed (use ok in \<open>auto simp: answer_ok_def netcode_client_state_change_callback_def
  netcode_client_send_loopback_packet_callback_def\<close>)

lemma client_run_answer:
  "(client_step cr)\<^sup>*\<^sup>* (B, c, w) (B', c', w') \<Longrightarrow> answer_ok c \<Longrightarrow> answer_ok c'"
proof (induction "(B', c', w')" arbitrary: B' c' w' rule: rtranclp_induct)
  case (step y)
  obtain B1 c1 w1 where y: "y = (B1, c1, w1)" by (rule prod_cases3)
  from step.hyps(3) [OF y step.prems] step.hyps(2) show ?case unfolding y by (rule client_step_answer [rotated])
qed simp

section \<open>Properties\<close>

definition follows_diagram :: "netcode_client \<Rightarrow> world \<Rightarrow> netcode_client \<times> world \<Rightarrow> bool" where
  "follows_diagram c w = (\<lambda>(c', w'). \<exists>es. client_path (cl_state c) es (cl_state c')
     \<and> w_callbacks w' = w_callbacks w @ reported (cl_state_change_callback c) es)"

lemma logs_follows: "logs c w c' w' \<Longrightarrow> answer_ok c \<Longrightarrow> follows_diagram c w (c', w')"
  by (simp add: logs_def follows_diagram_def)

lemma runs_returned: "m \<noteq> None \<Longrightarrow> (\<And>x. m = Some x \<Longrightarrow> Q x) \<Longrightarrow> runs m Q"
  by (cases m) simp_all

lemma runs_follows:
  assumes "m \<noteq> None" and "\<And>c' w'. m = Some (c', w') \<Longrightarrow> logs c w c' w'" and "answer_ok c"
  shows "runs m (follows_diagram c w)"
  using assms logs_follows by (auto intro!: runs_returned)

lemma path_last:
  assumes "client_path s es t" and "s \<noteq> t"
  shows "\<exists>fs u. es = fs @ [(u, t)] \<and> client_path s fs u \<and> client_edge u t"
proof (cases es rule: rev_cases)
  case (snoc fs e)
  with assms show ?thesis by (cases e) (auto simp: path_snoc)
qed (use assms in simp)

text \<open>C17: after any run of a client, any call of the interface returns, and the changes of state that the callback is told of during
  the call are edges of the diagram, the first from the state before the call, each from the one to which the last one led, and the
  last to the state after the call. This holds for an update, for connect and disconnect, for the disconnection of a loopback client and for
  the destruction of a client. There is one exception: connecting over loopback takes a client that is disconnected
  (or in one of the error states) to connected, and the callback is not told. To send, to receive, to free a packet and to process a loopback
  packet leaves the state as it is, and no change is reported.\<close>

theorem client_follows_diagram:
  assumes laws: "aead_laws cr" and "world_inv sim B w" and "client_ready (new_client address socket time sim)"
    and run: "(client_step cr)\<^sup>*\<^sup>* (B, new_client address socket time sim, w) (B', client, w')"
  shows "runs (netcode_client_update cr t client w') (follows_diagram client w')
    \<and> (\<not> cl_loopback client \<longrightarrow> runs (netcode_client_disconnect cr client w') (follows_diagram client w'))
    \<and> (\<not> cl_loopback client \<longrightarrow> length token = NETCODE_CONNECT_TOKEN_BYTES \<longrightarrow>
        runs (netcode_client_connect cr client token w') (follows_diagram client w'))
    \<and> (cl_loopback client \<longrightarrow> runs (netcode_client_disconnect_loopback client w') (follows_diagram client w'))
    \<and> (p \<in> B' \<longrightarrow> w_initialized w' \<longrightarrow>
        runs (netcode_client_destroy cr p client w') (\<lambda>w''. \<exists>client'. follows_diagram client w' (client', w'')))
    \<and> (cl_state client \<le> NETCODE_CLIENT_STATE_DISCONNECTED \<longrightarrow>
        runs (netcode_client_connect_loopback client index max_clients) (\<lambda>client'. cl_state client' = NETCODE_CLIENT_STATE_CONNECTED))
    \<and> (client_may_send client data \<longrightarrow> runs (netcode_client_send_packet cr client data w') (reports_nothing client w'))
    \<and> runs (netcode_client_receive_packet client w') (\<lambda>(r, client'). cl_state client' = cl_state client)
    \<and> (p \<in> B' \<longrightarrow> runs (netcode_client_free_packet p w') (\<lambda>w''. w_callbacks w'' = w_callbacks w'))
    \<and> (cl_loopback client \<longrightarrow> length data \<le> NETCODE_MAX_PAYLOAD_BYTES \<longrightarrow>
        runs (netcode_client_process_loopback_packet client data sequence w') (reports_nothing client w'))"
proof -
  have "client_conf_inv cr (B, new_client address socket time sim, w)"
    using laws new_client_inv [OF assms(2,3)] by simp
  from client_run.run_inv [OF this run] have inv: "client_inv B' client w'" by simp
  have ok: "answer_ok client" by (rule client_run_answer [OF run]) simp
  have loop: "cl_state client > NETCODE_CLIENT_STATE_DISCONNECTED" if "cl_loopback client"
    using inv that by (simp add: client_inv_def client_ok_def)
  note calls = client_calls_run [OF laws inv, of t data p token index max_clients sequence]
  have "runs (netcode_client_update cr t client w') (follows_diagram client w')"
    by (rule runs_follows [OF _ update_logs ok]) (use calls in blast)
  moreover have "runs (netcode_client_disconnect cr client w') (follows_diagram client w')" if "\<not> cl_loopback client"
    by (rule runs_follows [OF _ disconnect_logs ok]) (use calls that in blast)
  moreover have "runs (netcode_client_connect cr client token w') (follows_diagram client w')"
    if "\<not> cl_loopback client" "length token = NETCODE_CONNECT_TOKEN_BYTES"
    by (rule runs_follows [OF _ connect_logs ok]) (use calls that in blast)
  moreover have "runs (netcode_client_disconnect_loopback client w') (follows_diagram client w')" if "cl_loopback client"
    by (rule runs_follows [OF _ disconnect_loopback_logs ok]) (use calls that loop in blast)+
  moreover have "runs (netcode_client_destroy cr p client w') (\<lambda>w''. \<exists>client'. follows_diagram client w' (client', w''))"
    if "p \<in> B'" "w_initialized w'"
    by (rule runs_returned) (use calls that destroy_logs loop logs_follows ok in blast)+
  moreover have "runs (netcode_client_connect_loopback client index max_clients) (\<lambda>client'. cl_state client' = NETCODE_CLIENT_STATE_CONNECTED)"
    if "cl_state client \<le> NETCODE_CLIENT_STATE_DISCONNECTED"
    using that by (simp add: netcode_client_connect_loopback_def runs_simps)
  moreover have "runs (netcode_client_send_packet cr client data w') (reports_nothing client w')" if "client_may_send client data"
    by (rule runs_returned, use calls that in blast) (auto intro: send_reports_nothing)
  moreover have "runs (netcode_client_receive_packet client w') (\<lambda>(r, client'). cl_state client' = cl_state client)"
    by (rule runs_returned, use calls in blast) (auto dest: receive_keeps_state)
  moreover have "runs (netcode_client_free_packet p w') (\<lambda>w''. w_callbacks w'' = w_callbacks w')" if "p \<in> B'"
    by (rule runs_returned, use calls that in blast) (auto simp: netcode_client_free_packet_def dest: w_free_quiet)
  moreover have "runs (netcode_client_process_loopback_packet client data sequence w') (reports_nothing client w')"
    if "cl_loopback client" "length data \<le> NETCODE_MAX_PAYLOAD_BYTES"
    by (rule runs_returned, use calls that in blast) (auto intro: process_loopback_reports_nothing)
  ultimately show ?thesis by blast
qed

text \<open>A client with a callback: it is given a token that is no token, or is connected over loopback and disconnected.\<close>

abbreviation watched_client :: netcode_client where
  "watched_client \<equiv> netcode_client_state_change_callback simulated_client (Some 9)"

lemma bad_token_reported:
  "map_option (\<lambda>(c, w). (client_state_code (cl_state c), w_callbacks w))
     (netcode_client_connect clear_crypto watched_client (replicate 2048 0) empty_world) = Some (- 5, [Client_state_change 9 0 (- 5)])"
  by code_simp

lemma loopback_reported:
  "map_option (\<lambda>c. map_option (\<lambda>(c, w). (client_state_code (cl_state c), w_callbacks w)) (netcode_client_disconnect_loopback c empty_world))
     (netcode_client_connect_loopback watched_client 0 2) = Some (Some (0, [Client_state_change 9 3 0]))"
  by code_simp

theorem client_follows_diagram_witness:
  "(\<exists>client' w'. netcode_client_connect clear_crypto watched_client (replicate 2048 0) empty_world = Some (client', w')
      \<and> follows_diagram watched_client empty_world (client', w') \<and> w_callbacks w' = [Client_state_change 9 0 (- 5)])
   \<and> (\<exists>client client' w'. netcode_client_connect_loopback watched_client 0 2 = Some client
      \<and> netcode_client_disconnect_loopback client empty_world = Some (client', w')
      \<and> follows_diagram client empty_world (client', w') \<and> w_callbacks w' = [Client_state_change 9 3 0])"
proof -
  have run1: "(client_step clear_crypto)\<^sup>*\<^sup>* ({}, simulated_client, empty_world) ({}, watched_client, empty_world)"
    by (intro r_into_rtranclp step_state_change_callback)
  have idle: "\<not> cl_loopback watched_client" "cl_state watched_client \<le> NETCODE_CLIENT_STATE_DISCONNECTED"
    by (simp_all add: new_client_def netcode_client_state_change_callback_def)
  obtain client where client: "netcode_client_connect_loopback watched_client 0 2 = Some client" "cl_loopback client"
    using idle(2) by (auto simp: netcode_client_connect_loopback_def)
  have run2: "(client_step clear_crypto)\<^sup>*\<^sup>* ({}, simulated_client, empty_world) ({}, client, empty_world)"
    using run1 step_connect_loopback [OF idle(2) client(1)] by (rule rtranclp.rtrancl_into_rtrancl)
  note follows = client_follows_diagram [OF clear_crypto_laws world_inv_empty simulated_client_ready]
  have "runs (netcode_client_connect clear_crypto watched_client (replicate 2048 0) empty_world) (follows_diagram watched_client empty_world)"
    using follows [OF run1, where token = "replicate 2048 0"] idle(1) by simp
  moreover have "runs (netcode_client_disconnect_loopback client empty_world) (follows_diagram client empty_world)"
    using follows [OF run2] client(2) by blast
  ultimately show ?thesis using bad_token_reported loopback_reported client(1) by (auto elim!: runsE)
qed

text \<open>C18: a client becomes connected in one way only. An update that finds it not connected and leaves it connected has told the
  callback, as the last change of state, of the one from sending the connection response; and if the client was not sending the response
  before the update, of the one from sending the connection request just before.\<close>

theorem connected_only_after_response:
  assumes "netcode_client_update cr t client w = Some (client', w')" and "answer_ok client"
    and "cl_state_change_callback client = Some cb"
    and "cl_state client \<noteq> NETCODE_CLIENT_STATE_CONNECTED" and "cl_state client' = NETCODE_CLIENT_STATE_CONNECTED"
  shows "\<exists>before. w_callbacks w' = w_callbacks w @ before @ [Client_state_change cb 2 3]
    \<and> (cl_state client \<noteq> NETCODE_CLIENT_STATE_SENDING_CONNECTION_RESPONSE \<longrightarrow>
         before \<noteq> [] \<and> last before = Client_state_change cb 1 2)"
proof -
  obtain es where path: "client_path (cl_state client) es NETCODE_CLIENT_STATE_CONNECTED"
    and log: "w_callbacks w' = w_callbacks w @ reported (Some cb) es"
    using update_logs [OF assms(1)] assms by (auto simp: logs_def)
  from path_last [OF path assms(4)] obtain fs
    where fs: "es = fs @ [(NETCODE_CLIENT_STATE_SENDING_CONNECTION_RESPONSE, NETCODE_CLIENT_STATE_CONNECTED)]"
      "client_path (cl_state client) fs NETCODE_CLIENT_STATE_SENDING_CONNECTION_RESPONSE"
    by (auto elim: edge_to_connected)
  have "reported (Some cb) fs \<noteq> [] \<and> last (reported (Some cb) fs) = Client_state_change cb 1 2"
    if "cl_state client \<noteq> NETCODE_CLIENT_STATE_SENDING_CONNECTION_RESPONSE"
    using path_last [OF fs(2) that] by (auto elim: edge_to_response)
  with log fs(1) show ?thesis by (intro exI [of _ "reported (Some cb) fs"]) simp
qed

text \<open>A client that waits for the answer to its response, and a world in which the answer, a keep-alive packet, has arrived.\<close>

definition waiting_client :: netcode_client where
  "waiting_client = (new_client (ADDRESS_IPV4 [127, 0, 0, 1] 50000) \<lparr>so_address = zero_address, so_handle = 3\<rparr> 5 False)
     \<lparr>cl_state := NETCODE_CLIENT_STATE_SENDING_CONNECTION_RESPONSE, cl_state_change_callback := Some 9,
       cl_server_address := ADDRESS_IPV4 [127, 0, 0, 1] 40000, cl_last_packet_send_time := 5,
       cl_connect_start_time := 9\<rparr>"

definition answered_world :: world where
  "answered_world = empty_world\<lparr>w_inbox := (\<lambda>_. [])(3 := [(sockaddr_of (ADDRESS_IPV4 [127, 0, 0, 1] 40000),
     [0x14, 0, 2, 0, 0, 0, 16, 0, 0, 0] @ replicate 16 0)])\<rparr>"

lemma waiting_client_run:
  "map_option (\<lambda>(c, w). (client_state_code (cl_state c), w_callbacks w))
     (netcode_client_update clear_crypto 5 waiting_client answered_world) = Some (3, [Client_state_change 9 2 3])"
  by code_simp

theorem connected_only_after_response_witness:
  "\<exists>client' w' before. netcode_client_update clear_crypto 5 waiting_client answered_world = Some (client', w')
    \<and> cl_state client' = NETCODE_CLIENT_STATE_CONNECTED
    \<and> w_callbacks w' = w_callbacks answered_world @ before @ [Client_state_change 9 2 3]"
proof -
  obtain client' w' where run: "netcode_client_update clear_crypto 5 waiting_client answered_world = Some (client', w')"
    and "client_state_code (cl_state client') = client_state_code NETCODE_CLIENT_STATE_CONNECTED"
    using waiting_client_run by auto
  then have conn: "cl_state client' = NETCODE_CLIENT_STATE_CONNECTED" by (simp only: client_state_code_inj)
  have "answer_ok waiting_client" "cl_state_change_callback waiting_client = Some 9"
    "cl_state waiting_client \<noteq> NETCODE_CLIENT_STATE_CONNECTED"
    by (simp_all add: waiting_client_def new_client_def answer_ok_def)
  from connected_only_after_response [OF run this conn] run conn show ?thesis by blast
qed

text \<open>Updates along the two edges that the protocol's description has not. A denial and the keep-alive packet that connects the client have
  arrived together; and the disconnect packet of the first of the two servers of a token.\<close>

definition denied_world :: world where
  "denied_world = empty_world\<lparr>w_inbox := (\<lambda>_. [])(3 := map (Pair (sockaddr_of (ADDRESS_IPV4 [127, 0, 0, 1] 40000)))
     [[0x11, 1] @ replicate 16 0, [0x14, 0, 2, 0, 0, 0, 16, 0, 0, 0] @ replicate 16 0])\<rparr>"

lemma connected_then_denied:
  "map_option (\<lambda>(c, w). (client_state_code (cl_state c), w_callbacks w))
     (netcode_client_update clear_crypto 5 waiting_client denied_world)
   = Some (- 1, [Client_state_change 9 2 3, Client_state_change 9 3 (- 1)])"
  by code_simp

definition left_world :: world where
  "left_world = empty_world\<lparr>w_inbox := (\<lambda>_. [])(3 := [(sockaddr_of (ADDRESS_IPV4 [127, 0, 0, 1] 40000), [0x16, 0] @ replicate 16 0)])\<rparr>"

lemma connected_then_next_server:
  "map_option (\<lambda>(c, w). (client_state_code (cl_state c), w_callbacks w))
     (netcode_client_update clear_crypto 5 (waiting_client\<lparr>cl_state := NETCODE_CLIENT_STATE_CONNECTED,
        cl_connect_token := example_connect_token\<lparr>ct_protocol_id := 0\<rparr>\<rparr>) left_world)
   = Some (1, [Client_state_change 9 3 1])"
  by code_simp

end
