(* ===== verification/Server_Invariant.thy ===== *)
theory Server_Invariant
  imports Server Endpoint
begin

text \<open>
  The server is sound: its invariant \<open>server_inv\<close> says that its transport is usable, its keys have their sizes, the number of
  connected clients is the size of the set of connected slots, that no two remote clients share an address or an id, that each of them has a
  mapping of its own in the encryption manager that has not expired, and that every slot's queue holds blocks of
  its own with payloads. This theory has the invariant, and its preservation by sending, disconnecting, starting and stopping.
\<close>

section \<open>The queues of all slots\<close>

abbreviation all_ptrs :: "packet_queue array \<Rightarrow> nat set" where
  "all_ptrs qs \<equiv> (\<Union>i. queue_ptrs (qs i))"

abbreviation other_ptrs :: "packet_queue array \<Rightarrow> nat \<Rightarrow> nat set" where
  "other_ptrs qs i \<equiv> (\<Union>j \<in> - {i}. queue_ptrs (qs j))"

definition queues_held :: "bool \<Rightarrow> nat set \<Rightarrow> packet_queue array \<Rightarrow> world \<Rightarrow> bool" where
  "queues_held sim B qs w \<longleftrightarrow> world_inv sim (B \<union> all_ptrs qs) w
     \<and> (\<forall>i. B \<inter> queue_ptrs (qs i) = {} \<and> receive_queue_ok (qs i) w)
     \<and> (\<forall>i j. i \<noteq> j \<longrightarrow> queue_ptrs (qs i) \<inter> queue_ptrs (qs j) = {})"

lemma all_ptrs_split: "all_ptrs qs = other_ptrs qs i \<union> queue_ptrs (qs i)"
  by auto

lemma other_ptrs_upd [simp]: "other_ptrs (qs(i := q)) i = other_ptrs qs i"
  by auto

lemma all_ptrs_upd: "all_ptrs (qs(i := q)) = other_ptrs qs i \<union> queue_ptrs q"
  by (auto split: if_splits)

lemma queues_held_world: "queues_held sim B qs w \<Longrightarrow> world_inv sim (B \<union> all_ptrs qs) w"
  by (simp add: queues_held_def)

lemma queues_held_one:
  assumes "queues_held sim B qs w"
  shows "queue_held sim (B \<union> other_ptrs qs i) (qs i) w"
proof -
  have "B \<union> other_ptrs qs i \<union> queue_ptrs (qs i) = B \<union> all_ptrs qs" by (auto simp: all_ptrs_split [of qs i])
  moreover have "(B \<union> other_ptrs qs i) \<inter> queue_ptrs (qs i) = {}" using assms unfolding queues_held_def by blast
  ultimately show ?thesis using assms by (simp add: queue_held_def queues_held_def)
qed

lemma queues_held_upd:
  assumes held: "queues_held sim B qs w" and q: "queue_held sim (B \<union> other_ptrs qs i) q w'"
    and f: "frame (B \<union> other_ptrs qs i) w w'"
  shows "queues_held sim B (qs(i := q)) w'"
proof -
  have "B \<union> other_ptrs qs i \<union> queue_ptrs q = B \<union> all_ptrs (qs(i := q))" by (simp only: all_ptrs_upd Un_assoc)
  moreover have "receive_queue_ok (qs j) w'" if "j \<noteq> i" for j
    using held that by (intro receive_queue_frame [OF _ f]) (auto simp: queues_held_def)
  moreover have "queue_ptrs q \<inter> queue_ptrs (qs j) = {}" "queue_ptrs (qs j) \<inter> queue_ptrs q = {}" if "j \<noteq> i" for j
    using q that unfolding queue_held_def by blast+
  moreover have "B \<inter> queue_ptrs q = {}" using q unfolding queue_held_def by blast
  ultimately show ?thesis
    using held q unfolding queues_held_def queue_held_def by (simp add: fun_upd_def)
qed

lemma queues_held_frame:
  assumes "queues_held sim B qs w" and "world_inv sim (B \<union> all_ptrs qs) w'" and "frame (B \<union> all_ptrs qs) w w'"
  shows "queues_held sim B qs w'"
  using assms receive_queue_frame [OF _ assms(3)] unfolding queues_held_def by blast

lemma queues_held_same_heap:
  "w_heap w' = w_heap w \<Longrightarrow> (\<And>A. world_inv sim A w' = world_inv sim A w) \<Longrightarrow>
   queues_held sim B qs w' = queues_held sim B qs w"
  by (simp add: queues_held_def receive_queue_ok_def payload_at_def w_packet_def)

lemma queues_held_log [simp]: "queues_held sim B qs (w_log e w) = queues_held sim B qs w"
  by (rule queues_held_same_heap) simp_all

section \<open>The invariant\<close>

definition server_ready :: "netcode_server \<Rightarrow> bool" where
  "server_ready server \<longleftrightarrow>
     (if sv_network_simulator server then address_ok (sv_address server) else so_handle (sv_socket server) \<noteq> 0)"

definition remote :: "netcode_server \<Rightarrow> nat \<Rightarrow> bool" where
  "remote server i \<longleftrightarrow> sv_client_connected server i \<and> \<not> sv_client_loopback server i"

text \<open>The mapping of a remote client: its slot is in use for its address, has its timeout and no expiry time, and was last accessed no
  earlier than the last packet was sent to the client.\<close>

definition leased :: "netcode_server \<Rightarrow> nat \<Rightarrow> bool" where
  "leased server i \<longleftrightarrow> (case sv_client_encryption_index server i of
     None \<Rightarrow> False
   | Some e \<Rightarrow> e < em_num_encryption_mappings (sv_encryption_manager server)
       \<and> em_matches (sv_encryption_manager server) (sv_client_address server i) (sv_time server) e
       \<and> em_timeout (sv_encryption_manager server) e = sv_client_timeout server i
       \<and> em_expire_time (sv_encryption_manager server) e = - 1
       \<and> sv_client_last_packet_send_time server i \<le> em_last_access_time (sv_encryption_manager server) e)"

definition slots_ok :: "netcode_server \<Rightarrow> bool" where
  "slots_ok server \<longleftrightarrow> sv_max_clients server \<le> NETCODE_MAX_CLIENTS
     \<and> (\<forall>i. sv_client_connected server i \<longrightarrow> i < sv_max_clients server)
     \<and> (\<forall>i. sv_client_loopback server i \<longrightarrow> sv_client_connected server i)
     \<and> sv_num_connected_clients server = int (card {i. sv_client_connected server i})
     \<and> (\<not> sv_running server \<longrightarrow> sv_max_clients server = 0)"

definition remotes_ok :: "netcode_server \<Rightarrow> bool" where
  "remotes_ok server \<longleftrightarrow> (\<forall>i. remote server i \<longrightarrow> address_ok (sv_client_address server i) \<and> leased server i)
     \<and> (\<forall>i j. remote server i \<longrightarrow> remote server j \<longrightarrow> i \<noteq> j \<longrightarrow>
          sv_client_address server i \<noteq> sv_client_address server j \<and> sv_client_id server i \<noteq> sv_client_id server j)
     \<and> (\<forall>i. sv_client_loopback server i \<longrightarrow> address_type (sv_client_address server i) = 0)"

definition server_ok :: "netcode_server \<Rightarrow> bool" where
  "server_ok server \<longleftrightarrow> server_ready server
     \<and> length (sv_private_key server) = NETCODE_KEY_BYTES \<and> length (sv_challenge_key server) = NETCODE_KEY_BYTES
     \<and> em_ok (sv_encryption_manager server) \<and> (\<forall>i. \<exists>S. replay_inv (sv_client_replay_protection server i) S)
     \<and> slots_ok server \<and> remotes_ok server"

definition server_inv :: "nat set \<Rightarrow> netcode_server \<Rightarrow> world \<Rightarrow> bool" where
  "server_inv B server w \<longleftrightarrow> server_ok server
     \<and> queues_held (sv_network_simulator server) B (sv_client_packet_queue server) w
     \<and> (\<forall>i. \<not> sv_client_connected server i \<longrightarrow> queue_ptrs (sv_client_packet_queue server i) = {})"

text \<open>What the processing of packets does not change.\<close>

definition server_same :: "netcode_server \<Rightarrow> netcode_server \<Rightarrow> bool" where
  "server_same s s' \<longleftrightarrow> sv_socket s' = sv_socket s \<and> sv_address s' = sv_address s
     \<and> sv_network_simulator s' = sv_network_simulator s \<and> sv_time s' = sv_time s \<and> sv_running s' = sv_running s
     \<and> sv_max_clients s' = sv_max_clients s \<and> sv_client_loopback s' = sv_client_loopback s
     \<and> sv_connect_disconnect_callback s' = sv_connect_disconnect_callback s
     \<and> sv_send_loopback_packet_callback s' = sv_send_loopback_packet_callback s"

lemma server_same_refl [simp]: "server_same s s"
  by (simp add: server_same_def)

lemma server_same_trans: "server_same s s' \<Longrightarrow> server_same s' s'' \<Longrightarrow> server_same s s''"
  by (simp add: server_same_def)

lemma connected_finite: "slots_ok server \<Longrightarrow> finite {i. sv_client_connected server i}"
  by (rule finite_subset [of _ "{..<sv_max_clients server}"]) (auto simp: slots_ok_def)

lemma server_inv_ok: "server_inv B server w \<Longrightarrow> server_ok server"
  by (simp add: server_inv_def)

lemma server_inv_world:
  "server_inv B server w \<Longrightarrow>
   world_inv (sv_network_simulator server) (B \<union> all_ptrs (sv_client_packet_queue server)) w"
  by (simp add: server_inv_def queues_held_world)

section \<open>Mappings\<close>

text \<open>\<open>leased\<close> in terms of the table of keys, and what keeps it.\<close>

lemma leased_iff:
  "leased s i \<longleftrightarrow> (\<exists>e sk rk. sv_client_encryption_index s i = Some e
     \<and> em_slot (sv_encryption_manager s) (sv_time s) (sv_client_address s i) e (sk, rk, - 1, sv_client_timeout s i)
     \<and> sv_client_last_packet_send_time s i \<le> em_last_access_time (sv_encryption_manager s) e)"
  by (cases "sv_client_encryption_index s i") (simp_all add: leased_def em_slot_def em_contents_def conj_ac)

definition em_access_kept :: "encryption_manager \<Rightarrow> dbl \<Rightarrow> netcode_address \<Rightarrow> encryption_manager \<Rightarrow> bool" where
  "em_access_kept em t a em' \<longleftrightarrow> (\<forall>b e d. address_ok b \<longrightarrow> b \<noteq> a \<longrightarrow> em_slot em t b e d \<longrightarrow>
     em_slot em' t b e d \<and> em_last_access_time em' e = em_last_access_time em e)"

lemma em_slots_differ:
  "em_ok em \<Longrightarrow> em_slot em t a e d \<Longrightarrow> em_slot em t b e d' \<Longrightarrow> address_ok a \<Longrightarrow> address_ok b \<Longrightarrow> a = b"
  by (simp add: em_slot_def em_matches_eq)

lemma em_add_access:
  assumes ok: "em_ok em" and a: "address_ok a"
  shows "em_access_kept em t a (snd (em_add em a d t))"
  unfolding em_access_kept_def
proof (intro allI impI conjI)
  fix b e d' assume b: "address_ok b" "b \<noteq> a" and s: "em_slot em t b e d'"
  show "em_slot (snd (em_add em a d t)) t b e d'" using em_add_others [OF ok a b] s by simp
  obtain sk rk ex to where d: "d = (sk, rk, ex, to)" by (cases d) auto
  show "em_last_access_time (snd (em_add em a d t)) e = em_last_access_time em e" unfolding d
  proof (rule em_add_cases [OF ok, of t a sk rk ex to])
    fix i assume i: "em_slot em t a i (em_contents em i)"
      "em_add em a (sk, rk, ex, to) t = (True, em_set_entry em i sk rk t ex to)"
    have "e \<noteq> i" using em_slots_differ [OF ok i(1) _ a b(1), of d'] s b(2) by blast
    with i(2) show "em_last_access_time (snd (em_add em a (sk, rk, ex, to) t)) e = em_last_access_time em e"
      by (simp add: em_set_entry_def)
  next
    fix i em' assume i: "em_free em t i" "em' = (em_set_entry em i sk rk t ex to)\<lparr>em_address := (em_address em)(i := a),
         em_num_encryption_mappings := max (i + 1) (em_num_encryption_mappings em)\<rparr>"
      "em_add em a (sk, rk, ex, to) t = (True, em')"
    have "e \<noteq> i" using i(1) s em_matches_used(2) [OF ok] by (auto simp: em_slot_def)
    then show "em_last_access_time (snd (em_add em a (sk, rk, ex, to) t)) e = em_last_access_time em e"
      using i(2,3) by (simp add: em_set_entry_def)
  qed simp
qed

lemma em_find_access:
  assumes ok: "em_ok em" and a: "address_ok a"
  shows "em_access_kept em t a (snd (netcode_encryption_manager_find_encryption_mapping em a t))"
  unfolding em_access_kept_def
proof (intro allI impI conjI)
  fix b e d assume b: "address_ok b" "b \<noteq> a" and s: "em_slot em t b e d"
  show "em_slot (snd (netcode_encryption_manager_find_encryption_mapping em a t)) t b e d"
    using em_find_keeps s by blast
  have "\<not> em_matches em a t e" using em_matches_eq [OF ok] a b s by (auto simp: em_slot_def)
  then show "em_last_access_time (snd (netcode_encryption_manager_find_encryption_mapping em a t)) e = em_last_access_time em e"
    by (auto simp: netcode_encryption_manager_find_encryption_mapping_def first_index_Some split: option.split)
qed

lemma em_remove_access:
  assumes ok: "em_ok em" and a: "address_ok a"
  shows "em_access_kept em t a (snd (netcode_encryption_manager_remove_encryption_mapping em a t))"
  unfolding em_access_kept_def
proof (intro allI impI conjI)
  fix b e d assume b: "address_ok b" "b \<noteq> a" and s: "em_slot em t b e d"
  show "em_slot (snd (netcode_encryption_manager_remove_encryption_mapping em a t)) t b e d"
    using em_remove_others [OF ok a b] s by simp
  obtain r em' where r: "netcode_encryption_manager_remove_encryption_mapping em a t = (r, em')" by fastforce
  then show "em_last_access_time (snd (netcode_encryption_manager_remove_encryption_mapping em a t)) e
      = em_last_access_time em e"
  proof (rule em_remove_cases)
    fix i assume "netcode_address_equal (em_address em i) a"
      "\<And>j. j \<noteq> i \<Longrightarrow> em_last_access_time em' j = em_last_access_time em j"
    moreover from this(1) have "e \<noteq> i"
      using ok s a b em_matches_eq [OF ok b(1)] by (auto simp: em_slot_def em_ok_def address_ok_def address_equal_iff)
    ultimately show ?thesis using r by simp
  qed (use r in simp)
qed

lemma em_touch:
  assumes ok: "em_ok em" and a: "address_ok a" and s: "em_slot em t a e d"
  defines "em' \<equiv> em\<lparr>em_last_access_time := (em_last_access_time em)(e := t)\<rparr>"
  shows "netcode_encryption_manager_touch em (Some e) a t = Some (True, em')"
    and "em_ok em'" and "em_access_kept em t a em'" and "em_slot em' t a e d"
proof -
  have e: "e < em_num_encryption_mappings em" "em_address em e = a"
    using s em_matches_eq [OF ok a] by (auto simp: em_slot_def)
  show "netcode_encryption_manager_touch em (Some e) a t = Some (True, em')"
    using e a by (simp add: netcode_encryption_manager_touch_def em_index_def em'_def address_ok_def)
  show "em_ok em'" using ok by (simp add: em_ok_def em'_def)
  show "em_slot em' t a e d" 
    using s by (auto simp: em_slot_def em_matches_def em_contents_def em'_def split: if_splits)
  show "em_access_kept em t a em'"
    unfolding em_access_kept_def
  proof (intro allI impI)
    fix b f d' assume b: "address_ok b" "b \<noteq> a" and f: "em_slot em t b f d'"
    have "f \<noteq> e" using em_slots_differ [OF ok s _ a b(1), of d'] f b(2) by blast
    with f show "em_slot em' t b f d' \<and> em_last_access_time em' f = em_last_access_time em f"
      by (auto simp: em_slot_def em_matches_def em_contents_def em'_def split: if_splits)
  qed
qed

text \<open>A change of the table on behalf of one address keeps the mappings of the clients at other addresses.\<close>

lemma leased_kept:
  assumes "leased s i" and "address_ok (sv_client_address s i)"
    and "em_access_kept (sv_encryption_manager s) (sv_time s) a (sv_encryption_manager s')"
    and "sv_client_address s i \<noteq> a"
    and "sv_client_encryption_index s' i = sv_client_encryption_index s i"
      "sv_client_address s' i = sv_client_address s i" "sv_client_timeout s' i = sv_client_timeout s i"
      "sv_client_last_packet_send_time s' i = sv_client_last_packet_send_time s i" "sv_time s' = sv_time s"
  shows "leased s' i"
  using assms unfolding leased_iff em_access_kept_def by fastforce

section \<open>Sending\<close>

lemma remotes_okD:
  assumes "server_ok s" and "remote s i"
  shows "address_ok (sv_client_address s i)" and "leased s i"
  using assms by (auto simp: server_ok_def remotes_ok_def)

lemma server_ok_remote: "server_ok s \<Longrightarrow> remote s i \<Longrightarrow> i < sv_max_clients s \<and> sv_running s"
  by (auto simp: server_ok_def slots_ok_def remote_def)

text \<open>The server after a packet was sent to a client.\<close>

definition server_sent :: "netcode_server \<Rightarrow> nat \<Rightarrow> netcode_server" where
  "server_sent s i = s\<lparr>
     sv_encryption_manager := (sv_encryption_manager s)\<lparr>em_last_access_time :=
       (em_last_access_time (sv_encryption_manager s))(the (sv_client_encryption_index s i) := sv_time s)\<rparr>,
     sv_client_sequence := (sv_client_sequence s)(i := sv_client_sequence s i + 1),
     sv_client_last_packet_send_time := (sv_client_last_packet_send_time s)(i := sv_time s)\<rparr>"

lemma server_sent_same [simp]: "server_same s (server_sent s i)" "server_ready (server_sent s i) = server_ready s"
  "remote (server_sent s i) = remote s" "slots_ok (server_sent s i) = slots_ok s"
  by (simp_all add: server_same_def server_sent_def server_ready_def remote_def slots_ok_def fun_eq_iff)

lemma server_sent_fields [simp]:
  "sv_client_connected (server_sent s i) = sv_client_connected s"
  "sv_client_packet_queue (server_sent s i) = sv_client_packet_queue s"
  "sv_network_simulator (server_sent s i) = sv_network_simulator s"
  "sv_client_address (server_sent s i) = sv_client_address s" "sv_client_id (server_sent s i) = sv_client_id s"
  "sv_client_loopback (server_sent s i) = sv_client_loopback s" "sv_max_clients (server_sent s i) = sv_max_clients s"
  "sv_running (server_sent s i) = sv_running s" "sv_time (server_sent s i) = sv_time s"
  "sv_client_last_packet_send_time (server_sent s i) = (sv_client_last_packet_send_time s)(i := sv_time s)"
  "sv_client_confirmed (server_sent s i) = sv_client_confirmed s"
  "sv_client_timeout (server_sent s i) = sv_client_timeout s"
  by (simp_all add: server_sent_def)

lemma server_sent_ok:
  assumes ok: "server_ok s" and i: "remote s i"
  shows "server_ok (server_sent s i)"
proof -
  have em: "em_ok (sv_encryption_manager s)" using ok by (simp add: server_ok_def)
  note a = remotes_okD [OF ok i]
  obtain e d where e: "sv_client_encryption_index s i = Some e"
    and slot: "em_slot (sv_encryption_manager s) (sv_time s) (sv_client_address s i) e d"
    and d: "snd (snd d) = (- 1, sv_client_timeout s i)"
    using a(2) by (auto simp: leased_iff)
  note t = em_touch [OF em a(1) slot]
  have "leased (server_sent s i) j" if j: "remote s j" for j
  proof (cases "j = i")
    case True
    obtain sk rk where "d = (sk, rk, - 1, sv_client_timeout s i)" using d by (cases d) auto
    with t(4) e show ?thesis unfolding True leased_iff by (simp add: server_sent_def) blast
  next
    case False
    then have "sv_client_address s j \<noteq> sv_client_address s i" using ok i j by (auto simp: server_ok_def remotes_ok_def)
    moreover have "em_access_kept (sv_encryption_manager s) (sv_time s) (sv_client_address s i)
        (sv_encryption_manager (server_sent s i))" using t(3) e by (simp add: server_sent_def)
    ultimately show ?thesis
      using False by (intro leased_kept [OF remotes_okD(2,1) [OF ok j]]) (simp_all add: server_sent_def)
  qed
  then show ?thesis
    using ok t(2) e unfolding server_ok_def remotes_ok_def by (simp add: server_sent_def [of s i] server_ready_def slots_ok_def remote_def)
qed

lemma runs_server_transmit:
  assumes laws: "aead_laws cr" and inv: "world_inv (sv_network_simulator s) A w" and ready: "server_ready s"
    and wf: "packet_wf packet" and key: "length key = NETCODE_KEY_BYTES" and addr: "address_ok to_addr"
    and fits: "is_request packet \<or> wire_bytes packet n \<le> NETCODE_MAX_PACKET_BYTES"
  shows "runs (netcode_write_packet cr packet NETCODE_MAX_PACKET_BYTES n key pid)
     (\<lambda>r. length (case r of NETCODE_OK b \<Rightarrow> b | NETCODE_ERROR \<Rightarrow> []) \<le> NETCODE_MAX_PACKET_BYTES
       \<and> runs (server_transmit s to_addr (case r of NETCODE_OK b \<Rightarrow> b | NETCODE_ERROR \<Rightarrow> []) w)
           (\<lambda>w'. world_inv (sv_network_simulator s) A w' \<and> frame A w w'))"
proof -
  have "runs (netcode_write_packet cr packet NETCODE_MAX_PACKET_BYTES n key pid)
     (\<lambda>r. length (case r of NETCODE_OK b \<Rightarrow> b | NETCODE_ERROR \<Rightarrow> []) \<le> NETCODE_MAX_PACKET_BYTES
       \<and> runs (server_transmit s to_addr (case r of NETCODE_OK b \<Rightarrow> b | NETCODE_ERROR \<Rightarrow> []) w)
           (\<lambda>w'. world_inv (sv_network_simulator s) A w' \<and> world_step A w w'))"
    using simulator_transport.write_and_send [OF _ _ addr laws wf key fits, of "sv_address s" A w]
      socket_transport.write_and_send [OF _ _ addr laws wf key fits, of "sv_socket s" False A w] inv ready
    by (cases "sv_network_simulator s") (simp_all add: server_ready_def server_transmit_def)
  then show ?thesis by (rule runs_mono) (auto elim!: runs_mono intro: frame_world_step)
qed

lemma server_inv_queues:
  "server_inv B s w \<Longrightarrow> world_inv (sv_network_simulator s) (B \<union> all_ptrs (sv_client_packet_queue s)) w' \<Longrightarrow>
   frame (B \<union> all_ptrs (sv_client_packet_queue s)) w w' \<Longrightarrow> server_inv B s w' \<and> frame B w w'"
  by (auto simp: server_inv_def intro: queues_held_frame frame_mono)

lemma server_send_client_eq:
  assumes ok: "server_ok s" and i: "remote s i"
  obtains e d where "sv_client_encryption_index s i = Some e"
    and "em_slot (sv_encryption_manager s) (sv_time s) (sv_client_address s i) e d"
    and "length (em_send_key (sv_encryption_manager s) e) = NETCODE_KEY_BYTES"
    and "\<forall>packet w. netcode_server_send_client_packet cr s packet i w =
     do { r \<leftarrow> netcode_write_packet cr packet NETCODE_MAX_PACKET_BYTES (sv_client_sequence s i)
            (em_send_key (sv_encryption_manager s) e) (sv_protocol_id s);
          c_assert (length (case r of NETCODE_OK b \<Rightarrow> b | NETCODE_ERROR \<Rightarrow> []) \<le> NETCODE_MAX_PACKET_BYTES);
          w \<leftarrow> server_transmit s (sv_client_address s i) (case r of NETCODE_OK b \<Rightarrow> b | NETCODE_ERROR \<Rightarrow> []) w;
          Some (server_sent s i, w) }"
proof -
  have em: "em_ok (sv_encryption_manager s)" using ok by (auto simp: server_ok_def)
  note a = remotes_okD [OF ok i]
  obtain e d where e: "sv_client_encryption_index s i = Some e"
    and slot: "em_slot (sv_encryption_manager s) (sv_time s) (sv_client_address s i) e d"
    using a(2) by (auto simp: leased_iff)
  let ?em = "(sv_encryption_manager s)\<lparr>em_last_access_time :=
       (em_last_access_time (sv_encryption_manager s))(e := sv_time s)\<rparr>"
  note t = em_touch [OF em a(1) slot]
  have "e < em_num_encryption_mappings (sv_encryption_manager s)" using slot by (simp add: em_slot_def)
  then have key: "netcode_encryption_manager_get_send_key ?em (Some e) = Some (Some (em_send_key (sv_encryption_manager s) e))"
    by (simp add: netcode_encryption_manager_get_send_key_def em_index_def)
  have tr: "server_transmit (s\<lparr>sv_encryption_manager := em'\<rparr>) = server_transmit s" for em'
    by (simp add: server_transmit_def fun_eq_iff)
  show ?thesis
    using server_ok_remote [OF ok i] i e slot t(1) key em
    by (intro that [of e d]) (simp_all add: netcode_server_send_client_packet_def remote_def tr server_sent_def Let_def em_ok_def)
qed

lemma runs_server_send_client:
  assumes laws: "aead_laws cr" and inv: "server_inv B s w" and i: "remote s i" and wf: "packet_wf packet"
    and fits: "wire_bytes packet (sv_client_sequence s i) \<le> NETCODE_MAX_PACKET_BYTES"
  shows "runs (netcode_server_send_client_packet cr s packet i w)
    (\<lambda>(s', w'). server_inv B s' w' \<and> frame B w w' \<and> s' = server_sent s i)"
proof -
  note ok = server_inv_ok [OF inv]
  have ready: "server_ready s" using ok by (simp add: server_ok_def)
  obtain e d where "sv_client_encryption_index s i = Some e"
      "em_slot (sv_encryption_manager s) (sv_time s) (sv_client_address s i) e d"
    and e: "length (em_send_key (sv_encryption_manager s) e) = NETCODE_KEY_BYTES"
    and run: "\<forall>packet w. netcode_server_send_client_packet cr s packet i w =
     do { r \<leftarrow> netcode_write_packet cr packet NETCODE_MAX_PACKET_BYTES (sv_client_sequence s i)
            (em_send_key (sv_encryption_manager s) e) (sv_protocol_id s);
          c_assert (length (case r of NETCODE_OK b \<Rightarrow> b | NETCODE_ERROR \<Rightarrow> []) \<le> NETCODE_MAX_PACKET_BYTES);
          w \<leftarrow> server_transmit s (sv_client_address s i) (case r of NETCODE_OK b \<Rightarrow> b | NETCODE_ERROR \<Rightarrow> []) w;
          Some (server_sent s i, w) }"
    by (rule server_send_client_eq [OF ok i, of cr])
  have inv': "server_inv B (server_sent s i) w' \<and> frame B w w'"
    if "world_inv (sv_network_simulator s) (B \<union> all_ptrs (sv_client_packet_queue s)) w'"
      "frame (B \<union> all_ptrs (sv_client_packet_queue s)) w w'" for w'
    using server_inv_queues [OF inv that] server_sent_ok [OF ok i] by (simp add: server_inv_def)
  show ?thesis
    unfolding run [rule_format] runs_bind runs_assert
    by (rule runs_mono [OF runs_server_transmit [OF laws server_inv_world [OF inv] ready wf e remotes_okD(1) [OF ok i]]])
      (use fits inv' in \<open>auto elim!: runs_mono\<close>)
qed

text \<open>Fields that the invariant does not speak of.\<close>

lemmas server_ok_unfold = server_ok_def slots_ok_def remotes_ok_def remote_def leased_def server_ready_def

lemma server_ok_updates [simp]:
  "server_ok (s\<lparr>sv_global_sequence := n\<rparr>) = server_ok s"
  "server_ok (s\<lparr>sv_challenge_sequence := n\<rparr>) = server_ok s"
  "server_ok (s\<lparr>sv_connect_token_entries := es\<rparr>) = server_ok s"
  "server_ok (s\<lparr>sv_flags := f\<rparr>) = server_ok s"
  "server_ok (s\<lparr>sv_client_confirmed := b\<rparr>) = server_ok s"
  "server_ok (s\<lparr>sv_client_last_packet_receive_time := ts\<rparr>) = server_ok s"
  "server_ok (s\<lparr>sv_client_user_data := us\<rparr>) = server_ok s"
  "server_ok (s\<lparr>sv_client_packet_queue := qs\<rparr>) = server_ok s"
  "server_ok (s\<lparr>sv_connect_disconnect_callback := cb\<rparr>) = server_ok s"
  "server_ok (s\<lparr>sv_send_loopback_packet_callback := cb\<rparr>) = server_ok s"
  by (simp_all add: server_ok_unfold cong: option.case_cong)

lemma server_inv_log [simp]: "server_inv B s (w_log e w) = server_inv B s w"
  by (simp add: server_inv_def)

lemma server_log_callback_simps [simp]:
  "server_inv B s (server_log_callback t i b w) = server_inv B s w"
  "frame B w (server_log_callback t i b w') = frame B w w'"
  "frame B (server_log_callback t i b w) w' = frame B w w'"
  by (auto simp: server_log_callback_def frame_def split: option.split)

lemma runs_server_send_global:
  assumes laws: "aead_laws cr" and inv: "server_inv B s w" and addr: "address_ok to_addr" and wf: "packet_wf packet"
    and key: "length key = NETCODE_KEY_BYTES"
    and fits: "wire_bytes packet (sv_global_sequence s) \<le> NETCODE_MAX_PACKET_BYTES"
  shows "runs (netcode_server_send_global_packet cr s packet to_addr key w)
    (\<lambda>(s', w'). server_inv B s' w' \<and> frame B w w' \<and> s' = s\<lparr>sv_global_sequence := sv_global_sequence s + 1\<rparr>)"
proof -
  have ready: "server_ready s" using server_inv_ok [OF inv] by (simp add: server_ok_def)
  have inv': "server_inv B (s\<lparr>sv_global_sequence := sv_global_sequence s + 1\<rparr>) w' \<and> frame B w w'"
    if "world_inv (sv_network_simulator s) (B \<union> all_ptrs (sv_client_packet_queue s)) w'"
      "frame (B \<union> all_ptrs (sv_client_packet_queue s)) w w'" for w'
    using server_inv_queues [OF inv that] by (simp add: server_inv_def)
  show ?thesis
    unfolding netcode_server_send_global_packet_def runs_bind runs_assert runs_Let
    by (rule runs_mono [OF runs_server_transmit [OF laws server_inv_world [OF inv] ready wf key addr]])
      (use fits inv' in \<open>auto elim!: runs_mono\<close>)
qed

section \<open>Freeing a slot\<close>

lemma slot_freed_ok:
  assumes ok: "server_ok s" and i: "sv_client_connected s i"
    and s': "sv_client_connected s' = (sv_client_connected s)(i := False)"
      "sv_client_loopback s' = (sv_client_loopback s)(i := False)"
      "sv_num_connected_clients s' = sv_num_connected_clients s - 1" "sv_max_clients s' = sv_max_clients s"
      "sv_running s' = sv_running s" "server_ready s'"
      "length (sv_private_key s') = NETCODE_KEY_BYTES" "length (sv_challenge_key s') = NETCODE_KEY_BYTES"
      "em_ok (sv_encryption_manager s')" "\<And>j. \<exists>S. replay_inv (sv_client_replay_protection s' j) S"
      "\<And>j. j \<noteq> i \<Longrightarrow> sv_client_address s' j = sv_client_address s j \<and> sv_client_id s' j = sv_client_id s j"
      "\<And>j. remote s j \<Longrightarrow> j \<noteq> i \<Longrightarrow> leased s' j"
  shows "server_ok s'" and "0 \<le> sv_num_connected_clients s'"
proof -
  have slots: "slots_ok s" and remotes: "remotes_ok s" using ok by (auto simp: server_ok_def)
  have "{j. sv_client_connected s' j} = {j. sv_client_connected s j} - {i}" by (auto simp: s'(1))
  then have "card {j. sv_client_connected s j} = Suc (card {j. sv_client_connected s' j})"
    using card.remove [OF connected_finite [OF slots], of i] i by simp
  then have num: "sv_num_connected_clients s' = int (card {j. sv_client_connected s' j})"
    using slots by (simp add: s'(3) slots_ok_def)
  then show "0 \<le> sv_num_connected_clients s'" by simp
  have rem: "remote s' j \<longleftrightarrow> remote s j \<and> j \<noteq> i" for j by (auto simp: remote_def s'(1,2))
  have "slots_ok s'"
    using slots num by (auto simp: slots_ok_def s'(1,2,4,5))
  moreover have "address_type (sv_client_address s' j) = 0" if "sv_client_loopback s' j" for j
    using that remotes s'(2) s'(11) [of j] by (cases "j = i") (auto simp: remotes_ok_def)
  then have "remotes_ok s'"
    using remotes s'(11,12) unfolding remotes_ok_def rem by metis
  ultimately show "server_ok s'" using s'(6-10) \<open>remotes_ok s'\<close> by (simp add: server_ok_def)
qed

definition others_kept :: "nat \<Rightarrow> netcode_server \<Rightarrow> netcode_server \<Rightarrow> bool" where
  "others_kept i s s' \<longleftrightarrow> (\<forall>j. j \<noteq> i \<longrightarrow> sv_client_last_packet_send_time s' j = sv_client_last_packet_send_time s j)"

lemma others_kept_refl [simp]: "others_kept i s s"
  by (simp add: others_kept_def)

lemma others_kept_sent [simp]: "others_kept i s (server_sent s i)"
  by (simp add: others_kept_def)

lemma others_kept_trans: "others_kept i s s' \<Longrightarrow> others_kept i s' s'' \<Longrightarrow> others_kept i s s''"
  by (simp add: others_kept_def)

lemma runs_server_send_disconnects:
  assumes laws: "aead_laws cr"
  shows "server_inv B s w \<Longrightarrow> remote s i \<Longrightarrow>
    runs (server_send_disconnect_packets cr k s i w) (\<lambda>(s', w'). server_inv B s' w' \<and> frame B w w' \<and> server_same s s'
      \<and> sv_client_connected s' = sv_client_connected s \<and> others_kept i s s')"
proof (induction k arbitrary: s w)
  case 0
  then show ?case by simp
next
  case (Suc k)
  have fits: "wire_bytes CONNECTION_DISCONNECT_PACKET (sv_client_sequence s i) \<le> NETCODE_MAX_PACKET_BYTES"
    by (rule small_packet_fits) simp
  have "runs (netcode_server_send_client_packet cr s CONNECTION_DISCONNECT_PACKET i w)
    (\<lambda>(s', w'). server_inv B s' w' \<and> frame B w w' \<and> s' = server_sent s i)"
    by (rule runs_server_send_client [OF laws Suc.prems _ fits]) simp
  then show ?case
    unfolding server_send_disconnect_packets.simps runs_bind
    by (rule runs_mono)
      (auto simp: Suc.prems(2) intro!: runs_mono [OF Suc.IH]
        intro: frame_trans server_same_trans [OF server_sent_same(1)] others_kept_trans [OF others_kept_sent])
qed

text \<open>Emptying the queue of one slot.\<close>

lemma runs_server_empty_queue:
  assumes "queues_held sim B qs w"
  shows "runs (queue_empty_out (qs i) w) (\<lambda>(q, w'). q = netcode_packet_queue_init
    \<and> queues_held sim B (qs(i := netcode_packet_queue_init)) w' \<and> frame B w w')"
proof (rule runs_mono [OF runs_queue_empty_out [OF queues_held_one [OF assms, of i]]], clarify, intro conjI)
  fix w' assume w': "world_inv sim (B \<union> other_ptrs qs i) w'" "frame (B \<union> other_ptrs qs i) w w'"
  then have "queue_held sim (B \<union> other_ptrs qs i) netcode_packet_queue_init w'" by (simp add: queue_held_def)
  from queues_held_upd [OF assms this w'(2)] show "queues_held sim B (qs(i := netcode_packet_queue_init)) w'" .
  from w'(2) show "frame B w w'" by (rule frame_mono) simp
qed simp

text \<open>The end of a disconnect: the slot of a remote client is freed.\<close>

lemma runs_server_free_remote:
  assumes inv: "server_inv B s w" and i: "remote s i"
  shows "runs (server_free_slot s i w)
    (\<lambda>(s', w'). server_inv B s' w' \<and> frame B w w' \<and> server_same s s'
       \<and> sv_client_connected s' = (sv_client_connected s)(i := False) \<and> others_kept i s s')"
proof -
  note ok = server_inv_ok [OF inv]
  have em: "em_ok (sv_encryption_manager s)" using ok by (simp add: server_ok_def)
  note a = remotes_okD [OF ok i]
  obtain b em' where rem: "netcode_encryption_manager_remove_encryption_mapping (sv_encryption_manager s)
      (sv_client_address s i) (sv_time s) = (b, em')" by fastforce
  have em': "em_ok em'" "em_access_kept (sv_encryption_manager s) (sv_time s) (sv_client_address s i) em'"
    using em_remove_ok [OF em, of "sv_client_address s i" "sv_time s"] em_remove_access [OF em a(1), of "sv_time s"] rem
    by simp_all
  define s' where "s' q = server_clear_slot (s\<lparr>
            sv_client_packet_queue := (sv_client_packet_queue s)(i := q),
            sv_client_replay_protection := (sv_client_replay_protection s)(i := netcode_replay_protection_reset),
            sv_encryption_manager := em'\<rparr>) i" for q
  have kept: "leased (s' q) j" if j: "remote s j" "j \<noteq> i" for j q
  proof -
    have "sv_client_address s j \<noteq> sv_client_address s i" using ok i j by (auto simp: server_ok_def remotes_ok_def)
    moreover have "em_access_kept (sv_encryption_manager s) (sv_time s) (sv_client_address s i) (sv_encryption_manager (s' q))"
      using em'(2) by (simp add: s'_def server_clear_slot_def)
    ultimately show ?thesis
      using j by (intro leased_kept [OF remotes_okD(2,1) [OF ok j(1)]]) (simp_all add: s'_def server_clear_slot_def)
  qed
  have fields: "sv_client_connected (s' q) = (sv_client_connected s)(i := False)" "server_same s (s' q)"
      "sv_client_packet_queue (s' q) = (sv_client_packet_queue s)(i := q)" "sv_network_simulator (s' q) = sv_network_simulator s"
      "others_kept i s (s' q)" for q
    using i by (simp_all add: s'_def server_clear_slot_def server_same_def others_kept_def)
  have freed: "server_ok (s' q) \<and> 0 \<le> sv_num_connected_clients (s' q)" for q
    using i ok em'(1) by (intro conjI slot_freed_ok [OF ok _ _ _ _ _ _ _ _ _ _ _ _ kept])
      (auto simp: s'_def server_clear_slot_def remote_def server_ok_def server_ready_def fun_eq_iff)
  show ?thesis
    unfolding server_free_slot_def runs_bind
    apply (rule runs_mono [OF runs_server_empty_queue [of "sv_network_simulator s" B "sv_client_packet_queue s" w i]])
    subgoal using inv by (simp add: server_inv_def)
    using inv freed [of netcode_packet_queue_init] fields [of netcode_packet_queue_init]
    by (auto simp: rem Let_def runs_simps s'_def [symmetric] server_inv_def)
qed

lemma runs_server_disconnect_internal:
  assumes laws: "aead_laws cr" and inv: "server_inv B s w" and i: "remote s i"
  shows "runs (netcode_server_disconnect_client_internal cr s i send w)
    (\<lambda>(s', w'). server_inv B s' w' \<and> frame B w w' \<and> server_same s s'
       \<and> sv_client_connected s' = (sv_client_connected s)(i := False) \<and> others_kept i s s')"
proof -
  define P where "P = (\<lambda>(s', w'). server_inv B s' w' \<and> frame B w w' \<and> server_same s s'
      \<and> sv_client_connected s' = sv_client_connected s \<and> others_kept i s s')"
  let ?w = "server_log_callback s i False w"
  have sent: "runs (if send then server_send_disconnect_packets cr NETCODE_NUM_DISCONNECT_PACKETS s i ?w else Some (s, ?w)) P"
  proof (cases send)
    case True
    have "server_inv B s ?w" using inv by simp
    from runs_server_send_disconnects [OF laws this i, of NETCODE_NUM_DISCONNECT_PACKETS] True
    show ?thesis by (auto simp: P_def elim!: runs_mono)
  qed (use inv in \<open>simp add: P_def\<close>)
  have start: "i < sv_max_clients s" "sv_running s" "sv_client_connected s i" "\<not> sv_client_loopback s i"
    using server_ok_remote [OF server_inv_ok [OF inv] i] i by (auto simp: remote_def)
  show ?thesis
    unfolding netcode_server_disconnect_client_internal_def runs_bind runs_assert runs_Let
  proof (intro conjI start runs_mono [OF sent], unfold P_def, elim case_prodE conjE, hypsubst, unfold prod.case)
    fix s1 w1
    assume 1: "server_inv B s1 w1" "frame B w w1" "server_same s s1" "sv_client_connected s1 = sv_client_connected s"
      "others_kept i s s1"
    then have "remote s1 i" using i by (simp add: remote_def server_same_def)
    from runs_server_free_remote [OF 1(1) this] show "runs (server_free_slot s1 i w1)
        (\<lambda>(s', w'). server_inv B s' w' \<and> frame B w w' \<and> server_same s s'
           \<and> sv_client_connected s' = (sv_client_connected s)(i := False) \<and> others_kept i s s')"
      by (rule runs_mono) (use 1 in \<open>auto intro: frame_trans server_same_trans others_kept_trans\<close>)
  qed
qed

section \<open>Disconnecting, stopping and starting\<close>

lemma runs_server_disconnect_client:
  assumes laws: "aead_laws cr" and inv: "server_inv B s w"
    and i: "sv_running s \<longrightarrow> 0 \<le> i \<and> i < int (sv_max_clients s) \<and> \<not> sv_client_loopback s (nat i)"
  shows "runs (netcode_server_disconnect_client cr s i w) (\<lambda>(s', w'). server_inv B s' w' \<and> frame B w w' \<and> server_same s s')"
proof (cases "sv_running s \<and> sv_client_connected s (nat i)")
  case True
  with i have "remote s (nat i)" by (simp add: remote_def)
  from runs_server_disconnect_internal [OF laws inv this, of True] True i show ?thesis
    by (auto simp: netcode_server_disconnect_client_def runs_simps elim!: runs_mono)
next
  case False
  with inv i show ?thesis by (auto simp: netcode_server_disconnect_client_def runs_simps)
qed

lemma runs_server_disconnect_clients:
  assumes laws: "aead_laws cr"
  shows "server_inv B s w \<Longrightarrow>
    runs (server_disconnect_clients cr k i s w) (\<lambda>(s', w'). server_inv B s' w' \<and> frame B w w' \<and> server_same s s'
      \<and> sv_client_connected s' = (\<lambda>j. sv_client_connected s j \<and> \<not> (i \<le> j \<and> j < i + k \<and> \<not> sv_client_loopback s j)))"
proof (induction k arbitrary: i s w)
  case 0
  then show ?case by (simp add: fun_eq_iff)
next
  case (Suc k)
  let ?c = "\<lambda>j. sv_client_connected s j \<and> \<not> (j = i \<and> \<not> sv_client_loopback s j)"
  have one: "runs (if sv_client_connected s i \<and> \<not> sv_client_loopback s i
        then netcode_server_disconnect_client_internal cr s i True w else Some (s, w))
     (\<lambda>(s', w'). server_inv B s' w' \<and> frame B w w' \<and> server_same s s' \<and> sv_client_connected s' = ?c)"
  proof (cases "remote s i")
    case True
    then have "?c = (sv_client_connected s)(i := False)" by (auto simp: remote_def fun_eq_iff)
    with True runs_server_disconnect_internal [OF laws Suc.prems True, of True] show ?thesis
      by (auto simp: remote_def elim!: runs_mono)
  next
    case False
    then have "?c = sv_client_connected s" by (auto simp: remote_def fun_eq_iff)
    with False Suc.prems show ?thesis by (auto simp: remote_def)
  qed
  show ?case
    unfolding server_disconnect_clients.simps runs_bind
  proof (rule runs_mono [OF one], elim case_prodE conjE, hypsubst, unfold prod.case)
    fix s1 w1
    assume 1: "server_inv B s1 w1" "frame B w w1" "server_same s s1" "sv_client_connected s1 = ?c"
    have range: "i \<le> j \<and> j < i + Suc k \<longleftrightarrow> j = i \<or> Suc i \<le> j \<and> j < Suc i + k" for j by arith
    have l: "sv_client_loopback s1 = sv_client_loopback s" using 1(3) by (simp add: server_same_def)
    have c: "(\<lambda>j. sv_client_connected s1 j \<and> \<not> (Suc i \<le> j \<and> j < Suc i + k \<and> \<not> sv_client_loopback s1 j))
        = (\<lambda>j. sv_client_connected s j \<and> \<not> (i \<le> j \<and> j < i + Suc k \<and> \<not> sv_client_loopback s j))"
      unfolding 1(4) l using range by (intro ext) blast
    show "runs (server_disconnect_clients cr k (Suc i) s1 w1) (\<lambda>(s', w'). server_inv B s' w' \<and> frame B w w'
        \<and> server_same s s'
        \<and> sv_client_connected s' = (\<lambda>j. sv_client_connected s j \<and> \<not> (i \<le> j \<and> j < i + Suc k \<and> \<not> sv_client_loopback s j)))"
      by (rule runs_mono [OF Suc.IH [OF 1(1)]]) (use 1(2,3) c in \<open>auto intro: frame_trans server_same_trans\<close>)
  qed
qed

lemma runs_server_disconnect_all:
  assumes laws: "aead_laws cr" and inv: "server_inv B s w"
  shows "runs (netcode_server_disconnect_all_clients cr s w) (\<lambda>(s', w'). server_inv B s' w' \<and> frame B w w' \<and> server_same s s'
    \<and> sv_client_connected s' = (\<lambda>j. sv_client_connected s j \<and> sv_client_loopback s j))"
proof -
  have slots: "slots_ok s" using server_inv_ok [OF inv] by (simp add: server_ok_def)
  show ?thesis
  proof (cases "sv_running s")
    case True
    have "(\<lambda>j. sv_client_connected s j \<and> \<not> (0 \<le> j \<and> j < 0 + sv_max_clients s \<and> \<not> sv_client_loopback s j))
        = (\<lambda>j. sv_client_connected s j \<and> sv_client_loopback s j)"
      using slots by (auto simp: slots_ok_def fun_eq_iff)
    with True runs_server_disconnect_clients [OF laws inv, of "sv_max_clients s" 0] show ?thesis
      by (simp add: netcode_server_disconnect_all_clients_def)
  next
    case False
    then have "sv_client_connected s j = (sv_client_connected s j \<and> sv_client_loopback s j)" for j
      using slots by (auto simp: slots_ok_def)
    with False inv show ?thesis by (simp add: netcode_server_disconnect_all_clients_def)
  qed
qed

definition server_stopped :: "netcode_server \<Rightarrow> bool" where
  "server_stopped s \<longleftrightarrow> \<not> sv_running s \<and> (\<forall>i. \<not> sv_client_connected s i \<and> \<not> sv_client_loopback s i)"

lemma not_running_stopped: "server_ok s \<Longrightarrow> \<not> sv_running s \<Longrightarrow> server_stopped s"
  by (auto simp: server_ok_def slots_ok_def server_stopped_def)

lemma runs_server_stop:
  assumes laws: "aead_laws cr" and inv: "server_inv B s w" and loop: "\<forall>i. \<not> sv_client_loopback s i"
  shows "runs (netcode_server_stop cr s w) (\<lambda>(s', w'). server_inv B s' w' \<and> frame B w w' \<and> server_stopped s'
    \<and> sv_socket s' = sv_socket s \<and> sv_network_simulator s' = sv_network_simulator s)"
proof (cases "sv_running s")
  case False
  with inv not_running_stopped [OF server_inv_ok [OF inv]] show ?thesis by (simp add: netcode_server_stop_def)
next
  case True
  have off: "server_inv B (s1\<lparr>sv_running := False, sv_max_clients := 0, sv_num_connected_clients := 0,
        sv_global_sequence := 0, sv_challenge_sequence := 0, sv_challenge_key := replicate NETCODE_KEY_BYTES 0,
        sv_connect_token_entries := netcode_connect_token_entries_reset,
        sv_encryption_manager := netcode_encryption_manager_reset\<rparr>) w1"
    if "server_inv B s1 w1" "\<And>i. \<not> sv_client_connected s1 i" "\<And>i. \<not> sv_client_loopback s1 i" for s1 w1
    using that by (simp add: server_inv_def server_ok_def slots_ok_def remotes_ok_def remote_def server_ready_def)
  have rest: "runs (Some (s1\<lparr>sv_running := False, sv_max_clients := 0, sv_num_connected_clients := 0,
        sv_global_sequence := 0, sv_challenge_sequence := 0, sv_challenge_key := replicate NETCODE_KEY_BYTES 0,
        sv_connect_token_entries := netcode_connect_token_entries_reset,
        sv_encryption_manager := netcode_encryption_manager_reset\<rparr>, w1))
      (\<lambda>(s', w'). server_inv B s' w' \<and> frame B w w' \<and> server_stopped s'
        \<and> sv_socket s' = sv_socket s \<and> sv_network_simulator s' = sv_network_simulator s)"
    if 1: "server_inv B s1 w1" "frame B w w1" "server_same s s1"
      "sv_client_connected s1 = (\<lambda>j. sv_client_connected s j \<and> sv_client_loopback s j)" for s1 w1
  proof -
    have none: "\<not> sv_client_connected s1 i" "\<not> sv_client_loopback s1 i" for i
      using 1(3,4) loop by (simp_all add: server_same_def)
    from off [OF 1(1) none] none 1(2,3) show ?thesis by (simp add: server_stopped_def server_same_def)
  qed
  show ?thesis
    unfolding netcode_server_stop_def
    by (simp only: True if_False not_True_eq_False runs_bind)
      (rule runs_mono [OF runs_server_disconnect_all [OF laws inv]],
        elim case_prodE conjE, hypsubst, unfold prod.case, rule rest)
qed

lemma queues_held_reset:
  assumes held: "queues_held sim B qs w" and empty: "\<forall>i. queue_ptrs (qs i) = {}"
    and new: "\<forall>i. qs' i = netcode_packet_queue_init \<or> qs' i = qs i"
  shows "queues_held sim B qs' w" and "\<forall>i. queue_ptrs (qs' i) = {}"
proof -
  show e: "\<forall>i. queue_ptrs (qs' i) = {}" using empty new by (metis queue_ptrs_init)
  have "receive_queue_ok (qs' i) w" for i using held new by (metis queues_held_def receive_queue_init)
  with held empty e show "queues_held sim B qs' w" by (simp add: queues_held_def)
qed

lemma runs_server_start:
  assumes laws: "aead_laws cr" and inv: "server_inv B s w" and loop: "\<forall>i. \<not> sv_client_loopback s i"
    and n: "0 < n" "n \<le> NETCODE_MAX_CLIENTS"
  shows "runs (netcode_server_start cr s n w) (\<lambda>(s', w'). server_inv B s' w' \<and> frame B w w' \<and> sv_running s'
    \<and> sv_max_clients s' = n \<and> sv_client_connected s' = (\<lambda>_. False))"
proof -
  have stop: "runs (if sv_running s then netcode_server_stop cr s w else Some (s, w))
     (\<lambda>(s', w'). server_inv B s' w' \<and> frame B w w' \<and> server_stopped s')"
    using runs_server_stop [OF laws inv loop] inv not_running_stopped [OF server_inv_ok [OF inv]]
    by (auto elim!: runs_mono)
  have up: "server_inv B (s1\<lparr>sv_running := True, sv_max_clients := n, sv_num_connected_clients := 0,
        sv_challenge_sequence := 0, sv_challenge_key := key,
        sv_client_packet_queue := (\<lambda>i. if i < n then netcode_packet_queue_init else sv_client_packet_queue s1 i)\<rparr>)
      (w1\<lparr>w_random_next := m\<rparr>)" (is "server_inv B ?s ?w")
    if 1: "server_inv B s1 w1" "server_stopped s1" and key: "length key = NETCODE_KEY_BYTES" for s1 w1 key m
  proof -
    have off: "\<not> sv_client_connected s1 i" "\<not> sv_client_loopback s1 i" for i using 1(2) by (auto simp: server_stopped_def)
    have "queues_held (sv_network_simulator s1) B (sv_client_packet_queue s1) w1"
      "\<forall>i. queue_ptrs (sv_client_packet_queue s1 i) = {}" using 1(1) off by (auto simp: server_inv_def)
    note q = queues_held_reset [OF this, of "sv_client_packet_queue ?s"]
    have "queues_held (sv_network_simulator s1) B (sv_client_packet_queue ?s) ?w = queues_held (sv_network_simulator s1) B (sv_client_packet_queue ?s) w1"
      by (rule queues_held_same_heap) simp_all
    then show ?thesis
      using q 1(1) off n key
      by (simp add: server_inv_def server_ok_def slots_ok_def remotes_ok_def remote_def server_ready_def)
  qed
  show ?thesis
    unfolding netcode_server_start_def runs_bind runs_assert
  proof (intro conjI n runs_mono [OF stop], elim case_prodE conjE, hypsubst, unfold prod.case)
    fix s1 w1
    assume 1: "server_inv B s1 w1" "frame B w w1" "server_stopped s1"
    obtain key w2 where k: "netcode_generate_key w1 = (key, w2)" by fastforce
    then have "w2 = w1\<lparr>w_random_next := w_random_next w1 + 32\<rparr>" "length key = NETCODE_KEY_BYTES"
      by (auto simp: netcode_generate_key_def netcode_random_bytes_def)
    with k 1 up [OF 1(1,3)] show "runs (let (key, w) = netcode_generate_key w1 in
          Some (s1\<lparr>sv_running := True, sv_max_clients := n, sv_num_connected_clients := 0,
            sv_challenge_sequence := 0, sv_challenge_key := key,
            sv_client_packet_queue := (\<lambda>i. if i < n then netcode_packet_queue_init else sv_client_packet_queue s1 i)\<rparr>, w))
        (\<lambda>(s', w'). server_inv B s' w' \<and> frame B w w' \<and> sv_running s' \<and> sv_max_clients s' = n
           \<and> sv_client_connected s' = (\<lambda>_. False))"
      by (simp add: server_stopped_def fun_eq_iff Let_def)
  qed
qed

end
