(* ===== verification/Server_Packets.thy ===== *)
theory Server_Packets
  imports Server_Invariant
begin

text \<open>
  The server stays sound while it processes packets, whatever they are and whoever sends them: the search for the sender, connection
  requests, connection responses, and the packets of connected clients; then one update.
\<close>

section \<open>The sender of a datagram\<close>

lemma server_ok_table:
  assumes ok: "server_ok s" and em: "em_ok em'" "em_access_kept (sv_encryption_manager s) (sv_time s) a em'"
    and new: "\<And>i. remote s i \<Longrightarrow> sv_client_address s i \<noteq> a"
  shows "server_ok (s\<lparr>sv_encryption_manager := em'\<rparr>)"
proof -
  let ?s = "s\<lparr>sv_encryption_manager := em'\<rparr>"
  have "leased ?s i" if "remote s i" for i
    using em(2) new [OF that] by (intro leased_kept [OF remotes_okD(2,1) [OF ok that], of a]) simp_all
  moreover have "remote ?s = remote s" by (simp add: remote_def fun_eq_iff)
  ultimately show ?thesis
    using ok em(1) by (simp add: server_ok_def remotes_ok_def slots_ok_def server_ready_def)
qed

lemma server_inv_table:
  "server_inv B s w \<Longrightarrow> em_ok em' \<Longrightarrow> em_access_kept (sv_encryption_manager s) (sv_time s) a em' \<Longrightarrow>
   (\<And>i. remote s i \<Longrightarrow> sv_client_address s i \<noteq> a) \<Longrightarrow> server_inv B (s\<lparr>sv_encryption_manager := em'\<rparr>) w"
  using server_ok_table [of s em' a] by (simp add: server_inv_def)

lemma found_by_address:
  assumes ok: "server_ok s" and a: "address_ok a" and i: "netcode_server_find_client_index_by_address s a = Some i"
  shows "remote s i" and "sv_client_address s i = a"
proof -
  have c: "sv_client_connected s i" "netcode_address_equal (sv_client_address s i) a"
    using i by (auto simp: netcode_server_find_client_index_by_address_def first_index_Some split: if_splits)
  have "\<not> sv_client_loopback s i"
    using ok address_equal_type [OF c(2)] by (auto simp: server_ok_def remotes_ok_def)
  with c(1) show "remote s i" by (simp add: remote_def)
  from remotes_okD(1) [OF ok this] c(2) a show "sv_client_address s i = a"
    by (simp add: address_ok_def address_equal_iff)
qed

lemma not_found_by_address:
  assumes ok: "server_ok s" and a: "address_ok a" and none: "netcode_server_find_client_index_by_address s a = None"
    and i: "remote s i"
  shows "sv_client_address s i \<noteq> a"
proof
  assume "sv_client_address s i = a"
  then have "netcode_address_equal (sv_client_address s i) a" using a by (simp add: address_ok_def)
  with none a i server_ok_remote [OF ok i] show False
    by (auto simp: netcode_server_find_client_index_by_address_def first_index_None address_ok_def remote_def)
qed

lemma not_found_by_id:
  assumes ok: "server_ok s" and "netcode_server_find_client_index_by_id s n = None" and i: "remote s i"
  shows "sv_client_id s i \<noteq> n"
  using assms(2) i server_ok_remote [OF ok i]
  by (auto simp: netcode_server_find_client_index_by_id_def first_index_None remote_def)

text \<open>What the search finds: a remote client with its mapping, or a mapping of the address that was accessed just now, or nothing.\<close>

definition sender_ok :: "netcode_server \<Rightarrow> netcode_address \<Rightarrow> nat option \<Rightarrow> nat option \<Rightarrow> bool" where
  "sender_ok s a e i \<longleftrightarrow> (case i of
     Some i \<Rightarrow> remote s i \<and> sv_client_address s i = a \<and> e = sv_client_encryption_index s i
   | None \<Rightarrow> (\<forall>j. remote s j \<longrightarrow> sv_client_address s j \<noteq> a)
       \<and> (\<forall>k. e = Some k \<longrightarrow> (\<exists>d. em_slot (sv_encryption_manager s) (sv_time s) a k d)
            \<and> em_last_access_time (sv_encryption_manager s) k = sv_time s))"

lemma server_lookup_sender_ok:
  assumes inv: "server_inv B s w" and a: "address_ok a" and look: "server_lookup_sender s a = (e, i, s')"
  shows "server_inv B s' w" and "server_same s s'" and "sender_ok s' a e i"
    and "sv_client_connected s' = sv_client_connected s"
proof -
  note ok = server_inv_ok [OF inv]
  have em: "em_ok (sv_encryption_manager s)" using ok by (simp add: server_ok_def)
  have "server_inv B s' w \<and> server_same s s' \<and> sender_ok s' a e i \<and> sv_client_connected s' = sv_client_connected s"
  proof (cases "netcode_server_find_client_index_by_address s a")
    case (Some j)
    then have "e = sv_client_encryption_index s j" "i = Some j" "s' = s"
      using look by (auto simp: server_lookup_sender_def)
    with inv found_by_address [OF ok a Some] show ?thesis by (simp add: sender_ok_def)
  next
    case None
    note others = not_found_by_address [OF ok a None]
    obtain k em' where find: "netcode_encryption_manager_find_encryption_mapping (sv_encryption_manager s) a (sv_time s) = (k, em')"
      by fastforce
    then have s': "e = k" "i = None" "s' = s\<lparr>sv_encryption_manager := em'\<rparr>"
      using look None by (auto simp: server_lookup_sender_def)
    have em': "em_ok em'" "em_access_kept (sv_encryption_manager s) (sv_time s) a em'"
      using em_find_ok [OF em, of a "sv_time s"] em_find_access [OF em a, of "sv_time s"] find by simp_all
    have k: "(\<exists>d. em_slot em' (sv_time s) a x d) \<and> em_last_access_time em' x = sv_time s" if "k = Some x" for x
    proof
      have "\<exists>d. em_slot (sv_encryption_manager s) (sv_time s) a x d"
        using em_find_first [OF em, of a "sv_time s" x] find that by simp
      then show "\<exists>d. em_slot em' (sv_time s) a x d" using em_find_keeps [of _ a "sv_time s" a x] find by (metis snd_conv)
      show "em_last_access_time em' x = sv_time s"
        using find that by (auto simp: netcode_encryption_manager_find_encryption_mapping_def split: option.splits)
    qed
    have "remote s' = remote s" by (simp add: s' remote_def fun_eq_iff)
    then show ?thesis
      using server_inv_table [OF inv em' others] others k by (auto simp: s' sender_ok_def server_same_def)
  qed
  then show "server_inv B s' w" and "server_same s s'" and "sender_ok s' a e i"
    and "sv_client_connected s' = sv_client_connected s" by auto
qed

section \<open>Connection requests\<close>

text \<open>What every handler keeps.\<close>

definition server_kept :: "nat set \<Rightarrow> netcode_server \<Rightarrow> world \<Rightarrow> netcode_server \<times> world \<Rightarrow> bool" where
  "server_kept B s w = (\<lambda>(s', w'). server_inv B s' w' \<and> frame B w w' \<and> server_same s s')"

lemma server_kept_refl: "server_inv B s w \<Longrightarrow> server_kept B s w (s, w)"
  by (simp add: server_kept_def)

lemma server_kept_trans:
  "server_same s s1 \<Longrightarrow> frame B w w1 \<Longrightarrow> server_kept B s1 w1 r \<Longrightarrow> server_kept B s w r"
  by (cases r) (auto simp: server_kept_def intro: frame_trans server_same_trans)

lemma runs_kept_trans:
  "server_same s s1 \<Longrightarrow> frame B w w1 \<Longrightarrow> runs m (server_kept B s1 w1) \<Longrightarrow> runs m (server_kept B s w)"
  by (erule runs_mono) (rule server_kept_trans)

lemma server_kept_global:
  assumes "aead_laws cr" and "server_inv B s w" and "address_ok to_addr" and "packet_wf packet"
    and "length key = NETCODE_KEY_BYTES" and "packet_data_bytes packet \<le> 1194"
  shows "runs (netcode_server_send_global_packet cr s packet to_addr key w) (server_kept B s w)"
  by (rule runs_mono [OF runs_server_send_global [OF assms(1-5) small_packet_fits [OF assms(6)]]])
    (auto simp: server_kept_def server_same_def)

lemma runs_send_challenge:
  assumes laws: "aead_laws cr" and inv: "server_inv B s w" and a: "address_ok a" and token: "connect_token_private_wf token"
  shows "runs (server_send_challenge cr s a token w) (server_kept B s w)"
proof -
  have key: "length (sv_challenge_key s) = NETCODE_KEY_BYTES" using server_inv_ok [OF inv] by (simp add: server_ok_def)
  have len: "length (ctp_user_data token) = NETCODE_USER_DATA_BYTES" "length (ctp_server_to_client_key token) = NETCODE_KEY_BYTES"
    using token by (auto simp: connect_token_private_wf_def)
  let ?t = "\<lparr>cht_client_id = ctp_client_id token, cht_user_data = ctp_user_data token\<rparr>"
  obtain plain sealed opened where t: "netcode_write_challenge_token ?t 300 = Some plain"
    "netcode_encrypt_challenge_token cr plain (sv_challenge_sequence s) (sv_challenge_key s) = Some (NETCODE_OK sealed)"
    "length sealed = NETCODE_CHALLENGE_TOKEN_BYTES"
    by (rule sealed_challenge_token [OF laws key, of ?t "sv_challenge_sequence s"]) (use len(1) in auto)
  let ?s = "s\<lparr>sv_challenge_sequence := sv_challenge_sequence s + 1\<rparr>"
  have "server_inv B ?s w" using inv by (simp add: server_inv_def)
  from server_kept_global [OF laws this a _ len(2), of "CONNECTION_CHALLENGE_PACKET (sv_challenge_sequence s) sealed"] t(3)
  have "runs (netcode_server_send_global_packet cr ?s (CONNECTION_CHALLENGE_PACKET (sv_challenge_sequence s) sealed) a
      (ctp_server_to_client_key token) w) (server_kept B ?s w)" by simp
  then have "runs (netcode_server_send_global_packet cr ?s (CONNECTION_CHALLENGE_PACKET (sv_challenge_sequence s) sealed) a
      (ctp_server_to_client_key token) w) (server_kept B s w)"
    by (rule runs_kept_trans [rotated 2]) (simp_all add: server_same_def)
  then show ?thesis using t by (simp add: server_send_challenge_def)
qed

lemma runs_find_or_add:
  "runs (netcode_connect_token_entries_find_or_add entries a mac t) (\<lambda>_. True)"
  by (rule find_or_add_cases [of entries mac a t]) simp_all

lemma runs_process_request:
  assumes laws: "aead_laws cr" and inv: "server_inv B s w" and a: "address_ok a"
  shows "runs (netcode_server_process_connection_request_packet cr s a rq w) (server_kept B s w)"
proof -
  note ok = server_inv_ok [OF inv]
  have em: "em_ok (sv_encryption_manager s)" using ok by (simp add: server_ok_def)
  have keep: "server_kept B s w (s, w)" using inv by (rule server_kept_refl)
  have entries: "server_inv B (s\<lparr>sv_connect_token_entries := es\<rparr>) w" "server_kept B s w (s\<lparr>sv_connect_token_entries := es\<rparr>, w)" for es
    using inv by (simp_all add: server_inv_def server_kept_def server_same_def)
  have token: "runs (do {
        (new_token, entries) \<leftarrow> netcode_connect_token_entries_find_or_add (sv_connect_token_entries s) a
          (drop (NETCODE_CONNECT_TOKEN_PRIVATE_BYTES - NETCODE_MAC_BYTES) (rq_connect_token_data rq)) (sv_time s);
        let server = s\<lparr>sv_connect_token_entries := entries\<rparr>;
        if \<not> new_token then Some (server, w)
        else if sv_num_connected_clients server = int (sv_max_clients server)
        then netcode_server_send_global_packet cr server CONNECTION_DENIED_PACKET a (ctp_server_to_client_key token) w
        else do {
          let (added, em) = netcode_encryption_manager_add_encryption_mapping (sv_encryption_manager server)
                a (ctp_server_to_client_key token) (ctp_client_to_server_key token)
                (sv_time server) (sv_time server + of_int (ctp_timeout_seconds token)) (ctp_timeout_seconds token);
          let server = server\<lparr>sv_encryption_manager := em\<rparr>;
          if \<not> added then Some (server, w) else server_send_challenge cr server a token w } }) (server_kept B s w)"
    if wf: "connect_token_private_wf token" and none: "netcode_server_find_client_index_by_address s a = None" for token
    unfolding runs_bind
  proof (rule runs_mono [OF runs_find_or_add], clarsimp simp: runs_Let, intro conjI impI)
    fix entries :: connect_token_entries
    let ?s = "s\<lparr>sv_connect_token_entries := entries\<rparr>"
    have same: "server_same s ?s" by (simp add: server_same_def)
    have keys: "length (ctp_server_to_client_key token) = NETCODE_KEY_BYTES" "length (ctp_client_to_server_key token) = NETCODE_KEY_BYTES"
      using wf by (simp_all add: connect_token_private_wf_def)
    show "server_kept B s w (?s, w)" by (rule entries)
    have "runs (netcode_server_send_global_packet cr ?s CONNECTION_DENIED_PACKET a (ctp_server_to_client_key token) w)
       (server_kept B ?s w)"
      by (rule server_kept_global [OF laws entries(1) a _ keys(1)]) simp_all
    then show "runs (netcode_server_send_global_packet cr ?s CONNECTION_DENIED_PACKET a (ctp_server_to_client_key token) w)
       (server_kept B s w)" by (rule runs_kept_trans [OF same frame_refl])
    let ?d = "(ctp_server_to_client_key token, ctp_client_to_server_key token,
        sv_time s + of_int (ctp_timeout_seconds token), ctp_timeout_seconds token)"
    obtain added em' where add: "em_add (sv_encryption_manager s) a ?d (sv_time s) = (added, em')" by fastforce
    then have add': "netcode_encryption_manager_add_encryption_mapping (sv_encryption_manager s)
           a (ctp_server_to_client_key token) (ctp_client_to_server_key token)
           (sv_time s) (sv_time s + of_int (ctp_timeout_seconds token)) (ctp_timeout_seconds token) = (added, em')"
      by (simp add: em_add_def)
    have em': "em_ok em'" "em_access_kept (sv_encryption_manager s) (sv_time s) a em'"
      using em_add_ok [OF em a, of ?d "sv_time s"] em_add_access [OF em a, of "sv_time s" ?d] add keys by simp_all
    have inv2: "server_inv B (?s\<lparr>sv_encryption_manager := em'\<rparr>) w"
      by (rule server_inv_table [OF entries(1), where a = a])
        (use em' not_found_by_address [OF ok a none] in \<open>simp_all add: remote_def\<close>)
    have same2: "server_same s (?s\<lparr>sv_encryption_manager := em'\<rparr>)" by (simp add: server_same_def)
    have "runs (server_send_challenge cr (?s\<lparr>sv_encryption_manager := em'\<rparr>) a token w) (server_kept B s w)"
      by (rule runs_kept_trans [OF same2 frame_refl runs_send_challenge [OF laws inv2 a wf]])
    then show "runs (case netcode_encryption_manager_add_encryption_mapping (sv_encryption_manager s)
           a (ctp_server_to_client_key token) (ctp_client_to_server_key token)
           (sv_time s) (sv_time s + of_int (ctp_timeout_seconds token)) (ctp_timeout_seconds token) of
        (added, em) \<Rightarrow> let server = ?s\<lparr>sv_encryption_manager := em\<rparr> in
          if \<not> added then Some (server, w) else server_send_challenge cr server a token w) (server_kept B s w)"
      using inv2 same2 by (simp add: add' server_kept_def Let_def)
  qed (use entries in simp)
  show ?thesis
    unfolding netcode_server_process_connection_request_packet_def runs_bind
    by (rule runs_mono [OF runs_read_private]) (use keep token in \<open>auto split: c_result.splits\<close>)
qed

section \<open>Connection responses\<close>

lemma em_set_expire:
  assumes ok: "em_ok em" and a: "address_ok a" and s: "em_slot em t a e (sk, rk, ex, to)"
  defines "em' \<equiv> em\<lparr>em_expire_time := (em_expire_time em)(e := - 1)\<rparr>"
  shows "netcode_encryption_manager_set_expire_time em (Some e) (- 1) = Some em'"
    and "em_ok em'" and "em_access_kept em t a em'" and "em_slot em' t a e (sk, rk, - 1, to)"
proof -
  show "netcode_encryption_manager_set_expire_time em (Some e) (- 1) = Some em'"
    using s by (simp add: netcode_encryption_manager_set_expire_time_def em_index_def em_slot_def em'_def)
  show "em_ok em'" using ok by (simp add: em_ok_def em'_def)
  show "em_slot em' t a e (sk, rk, - 1, to)"
    using s by (auto simp: em_slot_def em_matches_def em_contents_def em'_def split: if_splits)
  show "em_access_kept em t a em'"
    unfolding em_access_kept_def
  proof (intro allI impI)
    fix b f d' assume b: "address_ok b" "b \<noteq> a" and f: "em_slot em t b f d'"
    have "f \<noteq> e" using em_slots_differ [OF ok s _ a b(1), of d'] f b(2) by blast
    with f show "em_slot em' t b f d' \<and> em_last_access_time em' f = em_last_access_time em f"
      by (auto simp: em_slot_def em_matches_def em_contents_def em'_def split: if_splits)
  qed
qed

text \<open>A slot that is not connected is filled for a client whose address and id no remote client has.\<close>

lemma slot_filled_ok:
  assumes ok: "server_ok s" and i: "\<not> sv_client_connected s i" "i < sv_max_clients s" and a: "address_ok a"
    and new: "\<And>j. remote s j \<Longrightarrow> sv_client_address s j \<noteq> a \<and> sv_client_id s j \<noteq> n"
    and em: "em_ok em'" "em_access_kept (sv_encryption_manager s) (sv_time s) a em'"
    and e: "em_slot em' (sv_time s) a e (sk, rk, - 1, to)" "sv_time s \<le> em_last_access_time em' e"
  shows "server_ok (server_fill_slot (s\<lparr>sv_num_connected_clients := sv_num_connected_clients s + 1,
    sv_encryption_manager := em'\<rparr>) i a n (Some e) to user)" (is "server_ok ?s")
proof -
  have slots: "slots_ok s" and remotes: "remotes_ok s" using ok by (auto simp: server_ok_def)
  have not_loop: "\<not> sv_client_loopback s i" using slots i by (auto simp: slots_ok_def)
  have "{j. sv_client_connected ?s j} = insert i {j. sv_client_connected s j}"
    by (auto simp: server_fill_slot_def)
  then have "card {j. sv_client_connected ?s j} = Suc (card {j. sv_client_connected s j})"
    using i connected_finite [OF slots] by simp
  then have s1: "slots_ok ?s" using slots i by (auto simp: slots_ok_def server_fill_slot_def)
  have rem: "remote ?s j \<longleftrightarrow> j = i \<or> remote s j" for j
    using not_loop by (auto simp: remote_def server_fill_slot_def)
  have leased_i: "leased ?s i" using e unfolding leased_iff by (auto simp: server_fill_slot_def)
  have leased_j: "leased ?s j" if j: "remote s j" "j \<noteq> i" for j
    using new [OF j(1)] em(2) j(2)
    by (intro leased_kept [OF remotes_okD(2,1) [OF ok j(1)], of a]) (simp_all add: server_fill_slot_def)
  have not_i: "\<not> remote s i" using i by (simp add: remote_def)
  have "remotes_ok ?s"
    unfolding remotes_ok_def
  proof (intro conjI allI impI)
    fix j assume "remote ?s j"
    then show "address_ok (sv_client_address ?s j)" "leased ?s j"
      using a leased_i leased_j [of j] remotes_okD(1) [OF ok, of j] unfolding rem
      by (cases "j = i"; simp add: server_fill_slot_def)+
  next
    fix j k assume "remote ?s j" "remote ?s k" "j \<noteq> k"
    then show "sv_client_address ?s j \<noteq> sv_client_address ?s k" "sv_client_id ?s j \<noteq> sv_client_id ?s k"
      using remotes new [of j] new [of k] unfolding rem remotes_ok_def
      by (cases "j = i"; cases "k = i"; auto simp: server_fill_slot_def)+
  next
    fix j assume "sv_client_loopback ?s j"
    then show "address_type (sv_client_address ?s j) = 0"
      using remotes not_loop by (cases "j = i") (auto simp: remotes_ok_def server_fill_slot_def)
  qed
  with s1 ok em(1) show ?thesis
    by (simp add: server_ok_def server_fill_slot_def server_ready_def)
qed

text \<open>The server when a client has joined, before the first packet is sent to it.\<close>

definition server_joined ::
    "netcode_server \<Rightarrow> nat \<Rightarrow> netcode_address \<Rightarrow> u64 \<Rightarrow> nat \<Rightarrow> int \<Rightarrow> bytes \<Rightarrow> netcode_server" where
  "server_joined s i a n e to user = server_fill_slot (s\<lparr>sv_num_connected_clients := sv_num_connected_clients s + 1,
     sv_encryption_manager := (sv_encryption_manager s)\<lparr>em_expire_time :=
       (em_expire_time (sv_encryption_manager s))(e := - 1)\<rparr>\<rparr>) i a n (Some e) to user"

lemma connect_client_joined:
  assumes inv: "server_inv B s w"
    and i: "\<not> sv_client_connected s i" "i < sv_max_clients s" and a: "address_ok a"
    and new: "\<And>j. remote s j \<Longrightarrow> sv_client_address s j \<noteq> a \<and> sv_client_id s j \<noteq> n"
    and e: "em_slot (sv_encryption_manager s) (sv_time s) a e (sk, rk, ex, to)"
      "em_last_access_time (sv_encryption_manager s) e = sv_time s"
  shows "server_inv B (server_joined s i a n e to user) w" and "remote (server_joined s i a n e to user) i"
    and "server_same s (server_joined s i a n e to user)"
    and "packet_wf (keep_alive_packet (server_joined s i a n e to user) i)"
    and "netcode_server_connect_client cr s i a n (Some e) to user w' = do {
      (s', w) \<leftarrow> netcode_server_send_client_packet cr (server_joined s i a n e to user)
                 (keep_alive_packet (server_joined s i a n e to user) i) i w';
      Some (s', server_log_callback s' i True w) }"
proof -
  note ok = server_inv_ok [OF inv]
  have em: "em_ok (sv_encryption_manager s)" and slots: "slots_ok s" using ok by (auto simp: server_ok_def)
  have run: "sv_running s" using slots i(2) by (auto simp: slots_ok_def)
  define em' where "em' = (sv_encryption_manager s)\<lparr>em_expire_time := (em_expire_time (sv_encryption_manager s))(e := - 1)\<rparr>"
  note set = em_set_expire [OF em a e(1), folded em'_def]
  let ?s = "server_joined s i a n e to user"
  have s: "?s = server_fill_slot (s\<lparr>sv_num_connected_clients := sv_num_connected_clients s + 1,
    sv_encryption_manager := em'\<rparr>) i a n (Some e) to user" by (simp add: server_joined_def em'_def)
  have filled: "server_ok ?s" unfolding s
    by (rule slot_filled_ok [OF ok i a new set(2,3,4)]) (use e(2) in \<open>simp_all add: em'_def\<close>)
  have not_loop: "\<not> sv_client_loopback s i" using slots i by (auto simp: slots_ok_def)
  then show rem: "remote ?s i" by (simp add: remote_def server_fill_slot_def s)
  show "server_inv B ?s w" using inv filled by (auto simp: server_inv_def server_fill_slot_def s)
  show "server_same s ?s" by (simp add: server_same_def server_fill_slot_def s)
  show "packet_wf (keep_alive_packet ?s i)"
    using i(2) slots by (auto simp: keep_alive_packet_def server_fill_slot_def s int32_def slots_ok_def)
  have "slots_ok ?s" using filled by (simp add: server_ok_def)
  then have num: "sv_num_connected_clients ?s = int (card {j. sv_client_connected ?s j})"
    and "{j. sv_client_connected ?s j} \<subseteq> {..<sv_max_clients ?s}" unfolding slots_ok_def by blast+
  from card_mono [OF _ this(2)] have "card {j. sv_client_connected ?s j} \<le> sv_max_clients ?s" by simp
  moreover have "sv_num_connected_clients ?s = sv_num_connected_clients s + 1" "sv_max_clients ?s = sv_max_clients s"
    by (simp_all add: server_fill_slot_def s)
  ultimately have "sv_num_connected_clients s + 1 \<le> int (sv_max_clients s)" using num by linarith
  then show "netcode_server_connect_client cr s i a n (Some e) to user w' = do {
      (s', w) \<leftarrow> netcode_server_send_client_packet cr ?s (keep_alive_packet ?s i) i w';
      Some (s', server_log_callback s' i True w) }"
    using run i by (simp add: netcode_server_connect_client_def set(1) s Let_def)
qed

lemma runs_connect_client:
  assumes laws: "aead_laws cr" and inv: "server_inv B s w"
    and i: "\<not> sv_client_connected s i" "i < sv_max_clients s" and a: "address_ok a"
    and new: "\<And>j. remote s j \<Longrightarrow> sv_client_address s j \<noteq> a \<and> sv_client_id s j \<noteq> n"
    and e: "em_slot (sv_encryption_manager s) (sv_time s) a e (sk, rk, ex, to)"
      "em_last_access_time (sv_encryption_manager s) e = sv_time s"
  shows "runs (netcode_server_connect_client cr s i a n (Some e) to user w) (server_kept B s w)"
proof -
  let ?s = "server_joined s i a n e to user"
  note joined = connect_client_joined [OF inv i a new e]
  have fits: "wire_bytes (keep_alive_packet ?s i) (sv_client_sequence ?s i) \<le> NETCODE_MAX_PACKET_BYTES"
    by (rule small_packet_fits) (simp add: keep_alive_packet_def)
  have "server_same s (server_sent ?s i)" by (rule server_same_trans [OF joined(3) server_sent_same(1)])
  then show ?thesis
    by (subst joined(5)) (auto simp: runs_bind server_kept_def intro!: runs_mono [OF runs_server_send_client [OF laws joined(1,2,4) fits]])
qed

lemma runs_decrypt_challenge:
  assumes "aead_laws cr" and "length data = NETCODE_CHALLENGE_TOKEN_BYTES"
  shows "runs (netcode_decrypt_challenge_token cr data n key)
    (\<lambda>r. case r of NETCODE_ERROR \<Rightarrow> True | NETCODE_OK d \<Rightarrow> runs (netcode_read_challenge_token d) (\<lambda>_. True))"
  unfolding netcode_decrypt_challenge_token_def runs_bind runs_assert
  using assms
  by (auto simp: netcode_read_challenge_token_def runs_simps intro!: runs_decrypt_aead runs_readers)

lemma free_client_index:
  assumes slots: "slots_ok s" and room: "sv_num_connected_clients s \<noteq> int (sv_max_clients s)"
  obtains i where "netcode_server_find_free_client_index s = Some i" "i < sv_max_clients s" "\<not> sv_client_connected s i"
proof (cases "netcode_server_find_free_client_index s")
  case None
  then have "{j. sv_client_connected s j} = {..<sv_max_clients s}"
    using slots by (auto simp: netcode_server_find_free_client_index_def first_index_None slots_ok_def)
  with slots room show ?thesis by (simp add: slots_ok_def)
next
  case (Some i)
  then show ?thesis by (intro that) (auto simp: netcode_server_find_free_client_index_def first_index_Some)
qed

lemma runs_process_response:
  assumes laws: "aead_laws cr" and inv: "server_inv B s w" and a: "address_ok a" and sender: "sender_ok s a e i"
    and len: "length data = NETCODE_CHALLENGE_TOKEN_BYTES"
  shows "runs (netcode_server_process_connection_response_packet cr s a n data e w) (server_kept B s w)"
proof -
  note ok = server_inv_ok [OF inv]
  have em: "em_ok (sv_encryption_manager s)" and slots: "slots_ok s" using ok by (auto simp: server_ok_def)
  have keep: "server_kept B s w (s, w)" using inv by (rule server_kept_refl)
  have known: "\<exists>d. em_slot (sv_encryption_manager s) (sv_time s) a k d" if "e = Some k" for k
    using sender that remotes_okD(2) [OF ok] by (fastforce simp: sender_ok_def leased_iff split: option.splits)
  have key: "runs (netcode_encryption_manager_get_send_key (sv_encryption_manager s) e)
      (\<lambda>key. (e = None \<longleftrightarrow> key = None) \<and> (\<forall>k. key = Some k \<longrightarrow> length k = NETCODE_KEY_BYTES))"
    using known em by (cases e) (auto simp: netcode_encryption_manager_get_send_key_def em_index_def em_slot_def em_ok_def runs_simps)
  have connect: "runs (do {
        client_index \<leftarrow> netcode_server_find_free_client_index s;
        timeout_seconds \<leftarrow> netcode_encryption_manager_get_timeout (sv_encryption_manager s) e;
        netcode_server_connect_client cr s client_index a (cht_client_id t) e timeout_seconds (cht_user_data t) w })
     (server_kept B s w)"
    if none: "netcode_server_find_client_index_by_address s a = None"
        "netcode_server_find_client_index_by_id s (cht_client_id t) = None"
      and room: "sv_num_connected_clients s \<noteq> int (sv_max_clients s)" and e: "e \<noteq> None" for t
  proof -
    obtain k where k: "e = Some k" using e by auto
    have "i = None"
      using sender not_found_by_address [OF ok a none(1)] by (auto simp: sender_ok_def split: option.splits)
    then obtain d where d: "em_slot (sv_encryption_manager s) (sv_time s) a k d"
      "em_last_access_time (sv_encryption_manager s) k = sv_time s" using sender k by (auto simp: sender_ok_def)
    obtain sk rk ex to where d': "d = (sk, rk, ex, to)" by (cases d) auto
    have to: "netcode_encryption_manager_get_timeout (sv_encryption_manager s) e = Some to"
      using d(1) by (simp add: k d' netcode_encryption_manager_get_timeout_def em_index_def em_slot_def em_contents_def)
    obtain j where j: "netcode_server_find_free_client_index s = Some j" "j < sv_max_clients s" "\<not> sv_client_connected s j"
      by (rule free_client_index [OF slots room])
    have "sv_client_address s x \<noteq> a \<and> sv_client_id s x \<noteq> cht_client_id t" if "remote s x" for x
      using not_found_by_address [OF ok a none(1) that] not_found_by_id [OF ok none(2) that] by simp
    from runs_connect_client [OF laws inv j(3,2) a this d(1)[unfolded d'] d(2)] show ?thesis
      by (simp add: j(1) to) (simp add: k)
  qed
  have answer: "runs (do {
      packet_send_key \<leftarrow> netcode_encryption_manager_get_send_key (sv_encryption_manager s) e;
      (case packet_send_key of
         None \<Rightarrow> Some (s, w)
       | Some packet_send_key \<Rightarrow>
           if netcode_server_find_client_index_by_address s a \<noteq> None then Some (s, w)
           else if netcode_server_find_client_index_by_id s (cht_client_id t) \<noteq> None then Some (s, w)
           else if sv_num_connected_clients s = int (sv_max_clients s)
           then netcode_server_send_global_packet cr s CONNECTION_DENIED_PACKET a packet_send_key w
           else do {
             client_index \<leftarrow> netcode_server_find_free_client_index s;
             timeout_seconds \<leftarrow> netcode_encryption_manager_get_timeout (sv_encryption_manager s) e;
             netcode_server_connect_client cr s client_index a (cht_client_id t) e timeout_seconds (cht_user_data t) w }) })
     (server_kept B s w)" for t
    unfolding runs_bind [where m = "netcode_encryption_manager_get_send_key _ _"]
    by (rule runs_mono [OF key])
      (use keep connect [of t] server_kept_global [OF laws inv a, of CONNECTION_DENIED_PACKET] in \<open>auto split: option.splits\<close>)
  show ?thesis
    unfolding netcode_server_process_connection_response_packet_def runs_bind [where m = "netcode_decrypt_challenge_token _ _ _ _"]
    apply (rule runs_mono [OF runs_decrypt_challenge [OF laws len]])
    subgoal for r
      using keep answer
      by (cases r) (auto simp: runs_bind [where m = "netcode_read_challenge_token _"] elim!: runs_mono split: c_result.splits)
    done
qed

section \<open>Processing a packet\<close>

text \<open>Blocks that pass to the server and back.\<close>

lemma server_inv_insert:
  assumes inv: "server_inv B s w" and p: "p \<notin> B \<union> all_ptrs (sv_client_packet_queue s)"
    and w': "world_inv (sv_network_simulator s) (insert p (B \<union> all_ptrs (sv_client_packet_queue s))) w'"
    and f: "frame (B \<union> all_ptrs (sv_client_packet_queue s)) w w'"
  shows "server_inv (insert p B) s w'"
proof -
  have "queues_held (sv_network_simulator s) B (sv_client_packet_queue s) w'"
    by (rule queues_held_frame [OF _ world_inv_mono [OF w'] f]) (use inv in \<open>auto simp: server_inv_def\<close>)
  with p w' have "queues_held (sv_network_simulator s) (insert p B) (sv_client_packet_queue s) w'"
    by (auto simp: queues_held_def)
  with inv show ?thesis by (simp add: server_inv_def)
qed

lemma runs_server_free_block:
  assumes inv: "server_inv (insert p B) s w" and p: "p \<notin> B"
  shows "runs (w_free (Some p) w) (\<lambda>w'. server_inv B s w' \<and> frame B w w')"
proof -
  let ?A = "B \<union> all_ptrs (sv_client_packet_queue s)"
  have held: "queues_held (sv_network_simulator s) (insert p B) (sv_client_packet_queue s) w"
    using inv by (simp add: server_inv_def)
  have "p \<notin> ?A" using p held by (auto simp: queues_held_def)
  moreover have "world_inv (sv_network_simulator s) (insert p ?A) w" using server_inv_world [OF inv] by simp
  ultimately have "runs (w_free (Some p) w) (\<lambda>w'. world_inv (sv_network_simulator s) ?A w' \<and> frame ?A w w')"
    by (intro runs_w_free)
  then show ?thesis
  proof (rule runs_mono, elim conjE)
    fix w' assume w': "world_inv (sv_network_simulator s) ?A w'" "frame ?A w w'"
    have "queues_held (sv_network_simulator s) B (sv_client_packet_queue s) w'"
      using held w' receive_queue_frame [OF _ w'(2)] by (auto simp: queues_held_def)
    then show "server_inv B s w' \<and> frame B w w'"
      using inv frame_mono [OF w'(2)] by (simp add: server_inv_def)
  qed
qed

lemma server_heard_from_inv: "server_inv B s w \<Longrightarrow> server_inv B (server_heard_from s i) w"
  by (simp add: server_heard_from_def server_inv_def)

lemma server_heard_from_same: "server_same s (server_heard_from s i)"
  by (simp add: server_heard_from_def server_same_def)

lemma runs_server_handle:
  assumes laws: "aead_laws cr" and inv: "server_inv B s w" and a: "address_ok a" and sender: "sender_ok s a e i"
    and wf: "packet_wf packet"
  shows "runs (server_handle_packet cr s a packet e i w) (server_kept B s w)"
proof -
  have keep: "server_kept B s w (s, w)" using inv by (rule server_kept_refl)
  have heard: "server_kept B s w (server_heard_from s j, w)" for j
    using server_heard_from_inv [OF inv] server_heard_from_same by (simp add: server_kept_def)
  have disconnect: "runs (netcode_server_disconnect_client_internal cr s j False w) (server_kept B s w)" if "i = Some j" for j
    using runs_server_disconnect_internal [OF laws inv, of j False] sender that
    by (auto simp: sender_ok_def server_kept_def elim!: runs_mono)
  show ?thesis
    using keep heard disconnect wf runs_process_request [OF laws inv a]
      runs_process_response [OF laws inv a sender]
    by (cases packet) (auto simp: server_handle_packet_def split: option.split)
qed

lemma runs_server_queue_payload:
  assumes inv: "server_inv B s w" and i: "sv_client_connected s i"
    and w: "world_inv (sv_network_simulator s) (insert p (B \<union> all_ptrs (sv_client_packet_queue s))) w"
    and p: "p \<notin> B \<union> all_ptrs (sv_client_packet_queue s)" "payload_at p w"
  shows "runs (do { (queue, w) \<leftarrow> queue_push (sv_client_packet_queue s i) p n w;
      Some (s\<lparr>sv_client_packet_queue := (sv_client_packet_queue s)(i := queue)\<rparr>, w) }) (server_kept B s w)"
proof -
  let ?qs = "sv_client_packet_queue s" and ?sim = "sv_network_simulator s"
  let ?B = "B \<union> other_ptrs ?qs i"
  have all: "B \<union> all_ptrs ?qs = ?B \<union> queue_ptrs (?qs i)" by (auto simp: all_ptrs_split [of ?qs i])
  have held: "queues_held ?sim B ?qs w" using inv by (simp add: server_inv_def)
  have "runs (queue_push (?qs i) p n w) (\<lambda>(q', w'). queue_held ?sim ?B q' w' \<and> frame ?B w w')"
    by (rule runs_queue_push [OF queues_held_one [OF held]]) (use w p all in auto)
  then show ?thesis
    unfolding runs_bind
    by (rule runs_mono)
      (use inv i queues_held_upd [OF held] in
        \<open>auto simp: server_kept_def server_inv_def server_same_def intro: frame_mono\<close>)
qed

lemma runs_server_process_packet:
  assumes laws: "aead_laws cr" and inv: "server_inv B s w" and a: "address_ok a" and sender: "sender_ok s a e i"
    and rx: "packet_received allowed (sv_network_simulator s) (B \<union> all_ptrs (sv_client_packet_queue s)) (Some p) w"
  shows "runs (netcode_server_process_packet cr s a p n e i w) (server_kept B s w)"
proof -
  let ?A = "B \<union> all_ptrs (sv_client_packet_queue s)"
  from rx obtain packet where p: "p \<notin> ?A" "world_inv (sv_network_simulator s) (insert p ?A) w"
    "w_packet p w = Some packet" "packet_wf packet"
    by (auto simp: packet_received_def)
  have inv': "server_inv (insert p B) s w" by (rule server_inv_insert [OF inv p(1,2) frame_refl])
  have handled: "runs (do { (server, w) \<leftarrow> server_handle_packet cr s a packet e i w; w \<leftarrow> w_free (Some p) w; Some (server, w) })
      (server_kept B s w)"
    unfolding runs_bind
  proof (rule runs_mono [OF runs_server_handle [OF laws inv' a sender p(4)]])
    fix x assume "server_kept (insert p B) s w x"
    then obtain s1 w1 where x: "x = (s1, w1)" and 1: "server_inv (insert p B) s1 w1" "frame (insert p B) w w1" "server_same s s1"
      by (cases x) (auto simp: server_kept_def)
    have "frame B w w1" using 1(2) by (rule frame_mono) auto
    with 1(3) show "runs (case x of (server, w) \<Rightarrow> do { w \<leftarrow> w_free (Some p) w; Some (server, w) }) (server_kept B s w)"
      using p(1) unfolding x prod.case runs_bind
      by (intro runs_mono [OF runs_server_free_block [OF 1(1)]]) (auto simp: server_kept_def intro: frame_trans)
  qed
  show ?thesis
  proof (cases "\<exists>data j. packet = CONNECTION_PAYLOAD_PACKET data \<and> i = Some j")
    case True
    then obtain data j where d: "packet = CONNECTION_PAYLOAD_PACKET data" "i = Some j" by blast
    then have "sv_client_connected s j" using sender by (simp add: sender_ok_def remote_def)
    let ?s = "server_heard_from s j"
    have fields: "sv_client_packet_queue ?s = sv_client_packet_queue s" "sv_network_simulator ?s = sv_network_simulator s"
      "sv_client_connected ?s = sv_client_connected s" by (simp_all add: server_heard_from_def)
    have "payload_at p w" using d(1) p(3,4) by (simp add: payload_at_def)
    with \<open>sv_client_connected s j\<close> p(1,2) have "runs (do { (queue, w) \<leftarrow> queue_push (sv_client_packet_queue ?s j) p n w;
        Some (?s\<lparr>sv_client_packet_queue := (sv_client_packet_queue ?s)(j := queue)\<rparr>, w) }) (server_kept B ?s w)"
      by (intro runs_server_queue_payload server_heard_from_inv inv) (simp_all only: fields not_False_eq_True)
    then have "runs (do { (queue, w) \<leftarrow> queue_push (sv_client_packet_queue ?s j) p n w;
        Some (?s\<lparr>sv_client_packet_queue := (sv_client_packet_queue ?s)(j := queue)\<rparr>, w) }) (server_kept B s w)"
      by (rule runs_kept_trans [OF server_heard_from_same frame_refl])
    with p(3) d show ?thesis by (simp add: netcode_server_process_packet_def Let_def)
  next
    case False
    then have "netcode_server_process_packet cr s a p n e i w
      = do { (server, w) \<leftarrow> server_handle_packet cr s a packet e i w; w \<leftarrow> w_free (Some p) w; Some (server, w) }"
      using p(3) by (auto simp: netcode_server_process_packet_def split: netcode_packet.split option.split)
    with handled show ?thesis by simp
  qed
qed

section \<open>Reading a datagram\<close>

lemma server_replay_update:
  assumes "server_inv B s w" and "replay_inv rp S"
  shows "server_inv B (s\<lparr>sv_client_replay_protection := (sv_client_replay_protection s)(i := rp)\<rparr>) w"
  using assms by (auto simp: server_inv_def server_ok_unfold cong: option.case_cong)

text \<open>The replay protection that the reader is given, and what is stored afterwards.\<close>

lemma server_replay_step:
  assumes inv: "server_inv B s w"
    and step: "replay_step (case i of None \<Rightarrow> None | Some i \<Rightarrow> Some (sv_client_replay_protection s i)) type n False rp"
  shows "server_inv B (case (i, rp) of (Some i, Some rp) \<Rightarrow>
      s\<lparr>sv_client_replay_protection := (sv_client_replay_protection s)(i := rp)\<rparr> | _ \<Rightarrow> s) w"
proof (cases i)
  case (Some j)
  obtain S where "replay_inv (sv_client_replay_protection s j) S" using inv unfolding server_inv_def server_ok_def by blast
  with step Some obtain rp' S' where "rp = Some rp'" "replay_inv rp' S'" by (fastforce simp: replay_step_def)
  with Some server_replay_update [OF inv] show ?thesis by simp
qed (use inv in simp)

lemma receive_key_runs:
  assumes ok: "server_ok s" and sender: "sender_ok s a e i"
  shows "runs (netcode_encryption_manager_get_receive_key (sv_encryption_manager s) e) (\<lambda>_. True)"
proof (cases e)
  case None
  then show ?thesis by (simp add: netcode_encryption_manager_get_receive_key_def)
next
  case (Some k)
  have "k < em_num_encryption_mappings (sv_encryption_manager s)"
    using sender Some remotes_okD(2) [OF ok] by (fastforce simp: sender_ok_def leased_iff em_slot_def split: option.splits)
  with Some show ?thesis by (simp add: netcode_encryption_manager_get_receive_key_def em_index_def)
qed

lemma runs_read_and_process:
  assumes laws: "aead_laws cr" and inv: "server_inv B s w" and a: "address_ok a"
  shows "runs (netcode_server_read_and_process_packet cr s a data now w) (server_kept B s w)"
proof (cases "\<not> sv_running s \<or> length data \<le> 1")
  case True
  with server_kept_refl [OF inv] show ?thesis by (auto simp: netcode_server_read_and_process_packet_def)
next
  case False
  obtain e i s1 where look: "server_lookup_sender s a = (e, i, s1)" by (rule prod_cases3)
  note l = server_lookup_sender_ok [OF inv a look]
  let ?A = "B \<union> all_ptrs (sv_client_packet_queue s1)" and ?sim = "sv_network_simulator s1"
  let ?rp = "case i of None \<Rightarrow> None | Some i \<Rightarrow> Some (sv_client_replay_protection s1 i)"
  let ?s2 = "\<lambda>rp. case (i, rp) of (Some i, Some rp) \<Rightarrow>
      s1\<lparr>sv_client_replay_protection := (sv_client_replay_protection s1)(i := rp)\<rparr> | _ \<Rightarrow> s1"
  have w: "world_inv ?sim ?A w" by (rule server_inv_world [OF l(1)])
  then have heap: "heap_inv (w_heap w)" by (simp add: world_inv_def sim_inv_def)
  have read: "runs (do {
      (ptr, sequence, rp, h) \<leftarrow> netcode_read_packet cr data key (sv_protocol_id s1) now
         (Some (sv_private_key s1)) server_allowed_packets ?rp (w_heap w);
      let server = ?s2 rp;
      let w = w\<lparr>w_heap := h\<rparr>;
      (case ptr of
         None \<Rightarrow> Some (server, w)
       | Some ptr \<Rightarrow> netcode_server_process_packet cr server a ptr sequence e i w) }) (server_kept B s w)" for key
    unfolding runs_bind
  proof (rule runs_mono [OF runs_read_packet [OF laws heap]])
    fix x
    assume rok: "packet_read_ok server_allowed_packets ?rp (w_heap w) x"
    obtain ptr n rp h where x: "x = (ptr, n, rp, h)" by (cases x) auto
    let ?w = "w\<lparr>w_heap := h\<rparr>"
    note rx = read_packet_received [OF w rok [unfolded x]]
    from server_inv_queues [OF l(1) packet_received_inv [OF rx(1)] rx(2)]
    have inv1: "server_inv B s1 ?w" and f: "frame B w ?w" by auto
    have inv2: "server_inv B (?s2 rp) ?w" using rx(3) server_replay_step [OF inv1] by blast
    have same: "server_same s (?s2 rp)" and sender: "sender_ok (?s2 rp) a e i"
      and fields: "sv_network_simulator (?s2 rp) = ?sim" "sv_client_packet_queue (?s2 rp) = sv_client_packet_queue s1"
      using l(2,3) by (auto simp: server_same_def sender_ok_def remote_def split: option.splits)
    have "runs (case ptr of None \<Rightarrow> Some (?s2 rp, ?w)
        | Some ptr \<Rightarrow> netcode_server_process_packet cr (?s2 rp) a ptr n e i ?w) (server_kept B (?s2 rp) ?w)"
    proof (cases ptr)
      case None
      then show ?thesis using server_kept_refl [OF inv2] by simp
    next
      case (Some p)
      have "packet_received server_allowed_packets (sv_network_simulator (?s2 rp))
          (B \<union> all_ptrs (sv_client_packet_queue (?s2 rp))) (Some p) ?w" using rx(1) Some by (simp only: fields)
      from runs_server_process_packet [OF laws inv2 a sender this] Some show ?thesis by simp
    qed
    from runs_kept_trans [OF same f this] show "runs (case x of (ptr, sequence, rp, h) \<Rightarrow>
        let server = ?s2 rp; w = w\<lparr>w_heap := h\<rparr> in
        (case ptr of None \<Rightarrow> Some (server, w)
         | Some ptr \<Rightarrow> netcode_server_process_packet cr server a ptr sequence e i w)) (server_kept B s w)"
      by (simp only: x prod.case Let_def)
  qed
  have "server_kept B s w (s1, w)" using l by (simp add: server_kept_def)
  moreover obtain key where "netcode_encryption_manager_get_receive_key (sv_encryption_manager s1) e = Some key"
    using receive_key_runs [OF server_inv_ok [OF l(1)] l(3)] by (auto elim: runsE)
  ultimately show ?thesis
    using False read [of key] by (simp add: netcode_server_read_and_process_packet_def look)
qed

section \<open>Receiving\<close>

definition server_received :: "nat set \<Rightarrow> netcode_server \<Rightarrow> world \<Rightarrow> netcode_server \<times> world \<Rightarrow> bool" where
  "server_received B s w = (\<lambda>(s', w'). server_inv B s' w' \<and> frame_rx B w w' \<and> server_same s s')"

lemma server_kept_received: "server_kept B s w r \<Longrightarrow> server_received B s w r"
  by (auto simp: server_kept_def server_received_def intro: frame_rx_frame)

lemma server_received_trans:
  "server_same s s1 \<Longrightarrow> frame_rx B w w1 \<Longrightarrow> server_received B s1 w1 r \<Longrightarrow> server_received B s w r"
  by (cases r) (auto simp: server_received_def intro: frame_rx_trans server_same_trans)

lemma server_inv_inbox:
  "server_inv B s w \<Longrightarrow> w_inbox w h = d # rest \<Longrightarrow> server_inv B s (w\<lparr>w_inbox := (w_inbox w)(h := rest)\<rparr>)"
  unfolding server_inv_def queues_held_def
  using inbox_ok_tail [of w h d rest]
  by (auto simp: world_inv_def receive_queue_ok_def payload_at_def w_packet_def)

lemma runs_server_receive_from_socket:
  assumes laws: "aead_laws cr"
  shows "server_inv B s w \<Longrightarrow> \<not> sv_network_simulator s \<Longrightarrow> length (w_inbox w (so_handle (sv_socket s))) < fuel \<Longrightarrow>
    runs (server_receive_from_socket cr now fuel s w) (server_received B s w)"
proof (induction fuel arbitrary: s w)
  case 0
  then show ?case by simp
next
  case (Suc fuel)
  note inv = Suc.prems(1)
  let ?h = "so_handle (sv_socket s)"
  have h: "?h \<noteq> 0" using inv Suc.prems(2) by (simp add: server_inv_def server_ok_def server_ready_def)
  have inbox: "inbox_ok w" using server_inv_world [OF inv] by (simp add: world_inv_def)
  have over: "server_received B s w (s, w')" if "server_inv B s w'" "frame_rx B w w'" for w'
    using that by (simp add: server_received_def)
  show ?case
    unfolding server_receive_from_socket.simps runs_bind
  proof (rule runs_socket_receive [OF h inbox])
    fix sender data d rest
    assume d: "w_inbox w ?h = d # rest" and sender: "address_ok sender"
    let ?w = "w\<lparr>w_inbox := (w_inbox w)(?h := rest)\<rparr>"
    have inv': "server_inv B s ?w" by (rule server_inv_inbox [OF inv d])
    have "runs (do { (server, w) \<leftarrow> netcode_server_read_and_process_packet cr s sender data now ?w;
          server_receive_from_socket cr now fuel server w }) (server_received B s w)"
      unfolding runs_bind
    proof (rule runs_mono [OF runs_read_and_process [OF laws inv' sender]])
      fix x assume "server_kept B s ?w x"
      then obtain s1 w1 where x: "x = (s1, w1)" and 1: "server_inv B s1 w1" "frame B ?w w1" "server_same s s1"
        by (cases x) (auto simp: server_kept_def)
      have "length (w_inbox w1 (so_handle (sv_socket s1))) < fuel"
        using 1(2,3) d Suc.prems(3) by (simp add: frame_def server_same_def)
      moreover have "frame_rx B w w1" using frame_rx_frame [OF 1(2)] by (simp add: frame_rx_def frame_def)
      moreover have "\<not> sv_network_simulator s1" using 1(3) Suc.prems(2) by (simp add: server_same_def)
      ultimately show "runs (case x of (server, w) \<Rightarrow> server_receive_from_socket cr now fuel server w)
          (server_received B s w)"
        unfolding x prod.case using 1(1,3) by (intro runs_mono [OF Suc.IH]) (auto intro: server_received_trans)
    qed
    then show "runs (case (Some (sender, data), ?w) of (r, w) \<Rightarrow> (case r of
             None \<Rightarrow> Some (s, w)
           | Some (from_addr, packet_data) \<Rightarrow> do {
               (server, w) \<leftarrow> netcode_server_read_and_process_packet cr s from_addr packet_data now w;
               server_receive_from_socket cr now fuel server w })) (server_received B s w)"
      by simp
  qed (use inv in \<open>auto intro!: over server_inv_inbox\<close>)
qed

text \<open>The blocks that the simulator hands over belong to the loop, which frees each after it was read.\<close>

lemma runs_server_receive_from_simulator:
  assumes laws: "aead_laws cr"
  shows "server_inv (B \<union> fst ` set received) s w \<Longrightarrow> distinct (map fst received) \<Longrightarrow> fst ` set received \<inter> B = {} \<Longrightarrow>
    \<forall>(p, n, a) \<in> set received. address_ok a \<and> (\<exists>data. w_buffer p w = Some data) \<Longrightarrow>
    runs (server_receive_from_simulator cr now received s w) (server_kept B s w)"
proof (induction received arbitrary: s w)
  case Nil
  then show ?case by (simp add: server_kept_refl)
next
  case (Cons r received)
  obtain buffer n a where r: "r = (buffer, n, a)" by (rule prod_cases3)
  let ?A = "B \<union> fst ` set received"
  from Cons.prems(4) r obtain data where data: "w_buffer buffer w = Some data" and a: "address_ok a" by auto
  have b: "buffer \<notin> ?A" using Cons.prems(2,3) r by auto
  have inv: "server_inv (insert buffer ?A) s w" using Cons.prems(1) r by simp
  show ?case
    unfolding r server_receive_from_simulator.simps data bind.bind_lunit runs_bind
  proof (rule runs_mono [OF runs_read_and_process [OF laws inv a]])
    fix x assume "server_kept (insert buffer ?A) s w x"
    then obtain s1 w1 where x: "x = (s1, w1)" and 1: "server_inv (insert buffer ?A) s1 w1"
        "frame (insert buffer ?A) w w1" "server_same s s1"
      by (cases x) (auto simp: server_kept_def)
    show "runs (case x of (server, w) \<Rightarrow> do { w \<leftarrow> w_free (Some buffer) w; server_receive_from_simulator cr now received server w })
        (server_kept B s w)"
      unfolding x prod.case runs_bind
    proof (rule runs_mono [OF runs_server_free_block [OF 1(1) b]], elim conjE)
      fix w2 assume 2: "server_inv ?A s1 w2" "frame ?A w1 w2"
      have f: "frame ?A w w2" by (rule frame_trans [OF frame_mono [OF 1(2)] 2(2)]) auto
      have "w_buffer (fst y) w2 = w_buffer (fst y) w" if "y \<in> set received" for y
        by (rule frame_buffer [OF f]) (use that in auto)
      with Cons.prems(4) have "\<forall>(p, n, a) \<in> set received. address_ok a \<and> (\<exists>data. w_buffer p w2 = Some data)"
        by fastforce
      moreover have "frame B w w2" using f by (rule frame_mono) simp
      ultimately show "runs (server_receive_from_simulator cr now received s1 w2) (server_kept B s w)"
        using 2(1) 1(3) Cons.prems(2,3) by (intro runs_kept_trans [OF _ _ Cons.IH]) auto
    qed
  qed
qed

lemma runs_server_receive_packets:
  assumes laws: "aead_laws cr" and inv: "server_inv B s w"
  shows "runs (netcode_server_receive_packets cr s w) (server_received B s w)"
proof (cases "sv_network_simulator s")
  case False
  with runs_server_receive_from_socket [OF laws inv] show ?thesis
    by (simp add: netcode_server_receive_packets_def Let_def del: server_receive_from_socket.simps)
next
  case True
  let ?A = "B \<union> all_ptrs (sv_client_packet_queue s)"
  have w: "world_inv True ?A w" using server_inv_world [OF inv] True by simp
  have "runs (do {
        (received, w) \<leftarrow> netcode_network_simulator_receive_packets (sv_address s) NETCODE_SERVER_MAX_RECEIVE_PACKETS w;
        server_receive_from_simulator cr (w_timestamp w0) received s w }) (server_received B s w)" for w0
    unfolding runs_bind
  proof (rule runs_mono [OF runs_sim_receive [OF w]])
    fix x
    assume "case x of (received, w') \<Rightarrow>
       world_inv True (?A \<union> fst ` set received) w' \<and> world_step ?A w w' \<and> w_heap w' = w_heap w
     \<and> distinct (map fst received) \<and> fst ` set received \<inter> ?A = {} \<and> length received \<le> NETCODE_SERVER_MAX_RECEIVE_PACKETS
     \<and> (\<forall>r \<in> set received. received_ok (w_heap w) r)"
    then obtain received w' where x: "x = (received, w')" and 1: "world_inv True (?A \<union> fst ` set received) w'"
        "world_step ?A w w'" "w_heap w' = w_heap w" "distinct (map fst received)" "fst ` set received \<inter> ?A = {}"
        "\<forall>r \<in> set received. received_ok (w_heap w) r"
      by (cases x) auto
    have f: "frame ?A w w'" by (rule frame_world_step [OF 1(2)])
    have "queues_held True B (sv_client_packet_queue s) w'"
      by (rule queues_held_frame [OF _ world_inv_mono [OF 1(1)] f]) (use inv True in \<open>auto simp: server_inv_def\<close>)
    moreover have "B \<union> fst ` set received \<union> all_ptrs (sv_client_packet_queue s) = ?A \<union> fst ` set received" by blast
    ultimately have "queues_held True (B \<union> fst ` set received) (sv_client_packet_queue s) w'"
      using 1(1,5) by (auto simp: queues_held_def)
    with inv True have inv': "server_inv (B \<union> fst ` set received) s w'" by (simp add: server_inv_def)
    have "address_ok (snd (snd r)) \<and> (\<exists>data. w_buffer (fst r) w' = Some data)" if "r \<in> set received" for r
      using bspec [OF 1(6) that] 1(3) by (auto simp: received_ok_def w_buffer_def split: prod.splits)
    then have bufs: "\<forall>(p, n, a) \<in> set received. address_ok a \<and> (\<exists>data. w_buffer p w' = Some data)" by fastforce
    have "fst ` set received \<inter> B = {}" using 1(5) by blast
    from runs_server_receive_from_simulator [OF laws inv' 1(4) this bufs]
    have kept: "runs (server_receive_from_simulator cr (w_timestamp w0) received s w') (server_kept B s w')" .
    have "frame B w w'" by (rule frame_mono [OF f]) simp
    from runs_kept_trans [OF server_same_refl this kept]
    have "runs (server_receive_from_simulator cr (w_timestamp w0) received s w') (server_kept B s w)" .
    then show "runs (case x of (received, w) \<Rightarrow> server_receive_from_simulator cr (w_timestamp w0) received s w)
        (server_received B s w)"
      unfolding x prod.case by (rule runs_mono) (rule server_kept_received)
  qed
  with True show ?thesis by (simp add: netcode_server_receive_packets_def Let_def)
qed

section \<open>Keep-alives, timeouts, and the update\<close>

text \<open>After the keep-alives were sent, the last packet to each remote client is less than a tenth of a second old.\<close>

definition packet_recent :: "netcode_server \<Rightarrow> nat \<Rightarrow> bool" where
  "packet_recent s i \<longleftrightarrow> sv_time s < sv_client_last_packet_send_time s i + 1 / NETCODE_PACKET_SEND_RATE"

lemma keep_alive_wf: "server_ok s \<Longrightarrow> remote s i \<Longrightarrow> packet_wf (keep_alive_packet s i)"
  by (auto simp: keep_alive_packet_def int32_def server_ok_def slots_ok_def remote_def)

lemma runs_keep_alive:
  assumes laws: "aead_laws cr" and inv: "server_inv B s w"
  shows "runs (if sv_client_connected s i \<and> \<not> sv_client_loopback s i
                \<and> sv_client_last_packet_send_time s i + 1 / NETCODE_PACKET_SEND_RATE \<le> sv_time s
             then netcode_server_send_client_packet cr s (keep_alive_packet s i) i w
             else Some (s, w))
    (\<lambda>(s', w'). server_inv B s' w' \<and> frame B w w' \<and> server_same s s' \<and> sv_client_connected s' = sv_client_connected s
       \<and> (remote s i \<longrightarrow> packet_recent s' i) \<and> (\<forall>j. packet_recent s j \<longrightarrow> packet_recent s' j))"
proof (cases "remote s i \<and> sv_client_last_packet_send_time s i + 1 / NETCODE_PACKET_SEND_RATE \<le> sv_time s")
  case True
  have fits: "wire_bytes (keep_alive_packet s i) (sv_client_sequence s i) \<le> NETCODE_MAX_PACKET_BYTES"
    by (rule small_packet_fits) (simp add: keep_alive_packet_def)
  have recent: "packet_recent (server_sent s i) i" "packet_recent s j \<Longrightarrow> packet_recent (server_sent s i) j" for j
    by (auto simp: packet_recent_def)
  have "runs (netcode_server_send_client_packet cr s (keep_alive_packet s i) i w)
      (\<lambda>(s', w'). server_inv B s' w' \<and> frame B w w' \<and> s' = server_sent s i)"
    by (rule runs_server_send_client [OF laws inv _ keep_alive_wf [OF server_inv_ok [OF inv]] fits]) (use True in auto)
  with True recent show ?thesis by (auto simp: remote_def elim!: runs_mono)
next
  case False
  with inv show ?thesis by (auto simp: remote_def packet_recent_def)
qed

lemma runs_server_keep_alives:
  assumes laws: "aead_laws cr"
  shows "server_inv B s w \<Longrightarrow> runs (server_send_keep_alives cr k i s w) (\<lambda>(s', w'). server_kept B s w (s', w')
    \<and> sv_client_connected s' = sv_client_connected s
    \<and> (\<forall>j. packet_recent s j \<or> remote s j \<and> i \<le> j \<and> j < i + k \<longrightarrow> packet_recent s' j))"
proof (induction k arbitrary: i s w)
  case 0
  then show ?case by (auto simp: server_kept_refl)
next
  case (Suc k)
  show ?case
    unfolding server_send_keep_alives.simps runs_bind
  proof (rule runs_mono [OF runs_keep_alive [OF laws Suc.prems]], elim case_prodE conjE, hypsubst, unfold prod.case)
    fix s1 w1
    assume 1: "server_inv B s1 w1" "frame B w w1" "server_same s s1" "sv_client_connected s1 = sv_client_connected s"
      "remote s i \<longrightarrow> packet_recent s1 i" "\<forall>j. packet_recent s j \<longrightarrow> packet_recent s1 j"
    have rem: "remote s1 = remote s" using 1(3,4) by (simp add: remote_def server_same_def fun_eq_iff)
    have "packet_recent s1 j \<or> remote s1 j \<and> Suc i \<le> j \<and> j < Suc i + k"
      if "packet_recent s j \<or> remote s j \<and> i \<le> j \<and> j < i + Suc k" for j
      using that 1(5,6) unfolding rem by (cases "j = i") auto
    then show "runs (server_send_keep_alives cr k (Suc i) s1 w1) (\<lambda>(s', w'). server_kept B s w (s', w')
        \<and> sv_client_connected s' = sv_client_connected s
        \<and> (\<forall>j. packet_recent s j \<or> remote s j \<and> i \<le> j \<and> j < i + Suc k \<longrightarrow> packet_recent s' j))"
      using 1(2,3,4) by (intro runs_mono [OF Suc.IH [OF 1(1)]]) (auto intro: server_kept_trans)
  qed
qed

lemma runs_server_send_packets:
  assumes laws: "aead_laws cr" and inv: "server_inv B s w"
  shows "runs (netcode_server_send_packets cr s w) (\<lambda>(s', w'). server_kept B s w (s', w')
    \<and> (\<forall>j. remote s' j \<longrightarrow> packet_recent s' j))"
proof (cases "sv_running s")
  case True
  have "runs (server_send_keep_alives cr (sv_max_clients s) 0 s w) (\<lambda>(s', w'). server_kept B s w (s', w')
    \<and> (\<forall>j. remote s' j \<longrightarrow> packet_recent s' j))"
  proof (rule runs_mono [OF runs_server_keep_alives [OF laws inv]], elim case_prodE conjE, hypsubst, unfold prod.case, intro conjI)
    fix s1 w1
    assume 1: "server_kept B s w (s1, w1)" "sv_client_connected s1 = sv_client_connected s"
      "\<forall>j. packet_recent s j \<or> remote s j \<and> 0 \<le> j \<and> j < 0 + sv_max_clients s \<longrightarrow> packet_recent s1 j"
    show "server_kept B s w (s1, w1)" by (rule 1(1))
    have "remote s1 = remote s" using 1(1,2) by (simp add: server_kept_def server_same_def remote_def fun_eq_iff)
    then show "\<forall>j. remote s1 j \<longrightarrow> packet_recent s1 j"
      using 1(3) server_ok_remote [OF server_inv_ok [OF inv]] by simp
  qed
  with True show ?thesis by (simp add: netcode_server_send_packets_def)
next
  case False
  then have "\<not> remote s j" for j using server_ok_remote [OF server_inv_ok [OF inv]] by blast
  with False server_kept_refl [OF inv] show ?thesis by (simp add: netcode_server_send_packets_def)
qed

lemma runs_server_timeouts:
  assumes laws: "aead_laws cr" and inv: "server_inv B s w" and recent: "\<forall>j. remote s j \<longrightarrow> packet_recent s j"
  shows "runs (netcode_server_check_for_timeouts cr s w) (\<lambda>(s', w'). server_kept B s w (s', w')
    \<and> (\<forall>j. remote s' j \<longrightarrow> packet_recent s' j))"
proof (cases "sv_running s \<and> first_index (server_client_timed_out s) (sv_max_clients s) \<noteq> None")
  case True
  then obtain i where i: "first_index (server_client_timed_out s) (sv_max_clients s) = Some i" by blast
  then have "remote s i" by (auto simp: first_index_Some server_client_timed_out_def remote_def)
  have rest: "packet_recent s' j"
    if "server_same s s'" "sv_client_connected s' = (sv_client_connected s)(i := False)" "others_kept i s s'" "remote s' j" for s' j
  proof -
    have "j \<noteq> i" "remote s j" using that(1,2,4) by (auto simp: remote_def server_same_def split: if_splits)
    with recent that(1,3) show ?thesis by (simp add: packet_recent_def others_kept_def server_same_def)
  qed
  from runs_server_disconnect_internal [OF laws inv \<open>remote s i\<close>, of False] i True show ?thesis
    by (auto simp: netcode_server_check_for_timeouts_def server_kept_def elim!: runs_mono intro: rest)
next
  case False
  with server_kept_refl [OF inv] recent show ?thesis
    by (auto simp: netcode_server_check_for_timeouts_def split: option.split)
qed

end
