(* ===== verification/Server_Protocol.thy ===== *)
theory Server_Protocol
  imports Server_Packets
begin

text \<open>
  The server over time. One update is safe if it comes before the mapping of any client that is connected has gone unused for its
  timeout (\<open>server_alive\<close>), and it leaves a server that is safe to update again; the calls of the user; and the runs of a server,
  in which updates and calls alternate with whatever the rest of the process and the network do.
\<close>

section \<open>Update\<close>

text \<open>
  At the given time, no remote client that can time out was last sent a packet longer ago than its timeout. The code relies on it: the
  mapping of such a client must not be treated as expired, and is refreshed only by the packets sent to the client.
\<close>

definition server_alive :: "dbl \<Rightarrow> netcode_server \<Rightarrow> bool" where
  "server_alive time s \<longleftrightarrow> (\<forall>i. remote s i \<longrightarrow> sv_client_timeout s i > 0 \<longrightarrow>
     time \<le> sv_client_last_packet_send_time s i + of_int (sv_client_timeout s i))"

lemma em_matches_alive:
  assumes "em_matches em a t e" and "em_expire_time em e = - 1"
    and "0 < em_timeout em e \<Longrightarrow> time \<le> em_last_access_time em e + of_int (em_timeout em e)"
  shows "em_matches em a time e"
  using assms by (auto simp: em_matches_def)

lemma leased_alive:
  assumes "leased s i" and "remote s i" and "server_alive time s"
  shows "leased (s\<lparr>sv_time := time\<rparr>) i"
proof (cases "sv_client_encryption_index s i")
  case (Some e)
  let ?em = "sv_encryption_manager s"
  have 1: "em_matches ?em (sv_client_address s i) (sv_time s) e" "em_timeout ?em e = sv_client_timeout s i"
    "em_expire_time ?em e = - 1" "sv_client_last_packet_send_time s i \<le> em_last_access_time ?em e"
    using assms(1) Some by (auto simp: leased_def)
  have "time \<le> em_last_access_time ?em e + of_int (em_timeout ?em e)" if "0 < em_timeout ?em e"
    using assms(2,3) 1(2,4) that unfolding server_alive_def by fastforce
  from em_matches_alive [OF 1(1,3) this] assms(1) Some show ?thesis by (simp add: leased_def)
qed (use assms(1) in \<open>simp add: leased_def\<close>)

lemma server_inv_time:
  assumes "server_inv B s w" and alive: "server_alive time s"
  shows "server_inv B (s\<lparr>sv_time := time\<rparr>) w"
proof -
  have "remote (s\<lparr>sv_time := time\<rparr>) = remote s" by (simp add: remote_def fun_eq_iff)
  then show ?thesis
    using assms(1) leased_alive [OF _ _ alive]
    by (auto simp: server_inv_def server_ok_def slots_ok_def remotes_ok_def server_ready_def)
qed

text \<open>The next update is due within the shortest timeout, less the tenth of a second between two packets.\<close>

definition server_fresh :: "netcode_server \<Rightarrow> bool" where
  "server_fresh s \<longleftrightarrow> (\<forall>i. remote s i \<longrightarrow> packet_recent s i)"

lemma server_fresh_alive:
  assumes "server_fresh s"
    and "\<And>i. remote s i \<Longrightarrow> sv_client_timeout s i > 0 \<Longrightarrow> time + 1 / NETCODE_PACKET_SEND_RATE \<le> sv_time s + of_int (sv_client_timeout s i)"
  shows "server_alive time s"
  using assms unfolding server_fresh_def server_alive_def packet_recent_def by fastforce

lemma runs_server_update:
  assumes laws: "aead_laws cr" and inv: "server_inv B s w" and alive: "server_alive time s"
  shows "runs (netcode_server_update cr time s w) (\<lambda>(s', w'). server_inv B s' w' \<and> frame_rx B w w'
    \<and> server_same (s\<lparr>sv_time := time\<rparr>) s' \<and> server_fresh s')"
proof -
  let ?s = "s\<lparr>sv_time := time\<rparr>"
  show ?thesis
    unfolding netcode_server_update_def runs_Let runs_bind
  proof (rule runs_mono [OF runs_server_receive_packets [OF laws server_inv_time [OF inv alive]]])
    fix x assume "server_received B ?s w x"
    then obtain s1 w1 where x: "x = (s1, w1)" and 1: "server_inv B s1 w1" "frame_rx B w w1" "server_same ?s s1"
      by (cases x) (auto simp: server_received_def)
    show "runs (case x of (server, w) \<Rightarrow> do {
           (server, w) \<leftarrow> netcode_server_send_packets cr server w; netcode_server_check_for_timeouts cr server w })
        (\<lambda>(s', w'). server_inv B s' w' \<and> frame_rx B w w' \<and> server_same ?s s' \<and> server_fresh s')"
      unfolding x prod.case runs_bind
    proof (rule runs_mono [OF runs_server_send_packets [OF laws 1(1)]], elim case_prodE conjE, hypsubst, unfold prod.case)
      fix s2 w2 assume 2: "server_kept B s1 w1 (s2, w2)" "\<forall>j. remote s2 j \<longrightarrow> packet_recent s2 j"
      then have k: "server_inv B s2 w2" "frame B w1 w2" "server_same s1 s2" by (auto simp: server_kept_def)
      have f: "frame_rx B w w2" by (rule frame_rx_trans [OF 1(2) frame_rx_frame [OF k(2)]])
      show "runs (netcode_server_check_for_timeouts cr s2 w2)
          (\<lambda>(s', w'). server_inv B s' w' \<and> frame_rx B w w' \<and> server_same ?s s' \<and> server_fresh s')"
        by (rule runs_mono [OF runs_server_timeouts [OF laws k(1) 2(2)]])
          (use 1(3) k f in \<open>auto simp: server_kept_def server_fresh_def intro: frame_rx_trans [OF f] frame_rx_frame server_same_trans\<close>)
    qed
  qed
qed

section \<open>Payloads\<close>

text \<open>What the user of a server has to keep to when sending: a slot of the server, a payload that fits, with the sequence number that
  it gets after the keep-alive that precedes the payloads to a client that has not confirmed its connection, and a callback for a
  loopback client.\<close>

definition server_may_send :: "netcode_server \<Rightarrow> int \<Rightarrow> bytes \<Rightarrow> bool" where
  "server_may_send s i data \<longleftrightarrow> 1 \<le> length data \<and> length data \<le> NETCODE_MAX_PACKET_SIZE
     \<and> (sv_running s \<longrightarrow> 0 \<le> i \<and> i < int (sv_max_clients s)
        \<and> (if sv_client_loopback s (nat i) then sv_send_loopback_packet_callback s \<noteq> None
           else wire_bytes (CONNECTION_PAYLOAD_PACKET data)
             (sv_client_sequence s (nat i) + (if sv_client_confirmed s (nat i) then 0 else 1)) \<le> NETCODE_MAX_PACKET_BYTES))"

lemma slot_index_Some: "0 \<le> i \<Longrightarrow> i < int (sv_max_clients s) \<Longrightarrow> slot_index s i = Some (nat i)"
  by (simp add: slot_index_def)

lemma runs_server_send_payload:
  assumes laws: "aead_laws cr" and inv: "server_inv B s w" and may: "server_may_send s i data"
  shows "runs (netcode_server_send_packet cr s i data w) (server_kept B s w)"
proof (cases "sv_running s \<and> sv_client_connected s (nat i)")
  case False
  with inv may show ?thesis
    by (auto simp: netcode_server_send_packet_def server_may_send_def slot_index_Some runs_simps server_kept_refl)
next
  case True
  let ?i = "nat i" and ?p = "CONNECTION_PAYLOAD_PACKET data"
  have idx: "slot_index s i = Some ?i" using True may by (simp add: server_may_send_def slot_index_Some)
  show ?thesis
  proof (cases "sv_client_loopback s ?i")
    case loop: True
    then obtain cb where "sv_send_loopback_packet_callback s = Some cb" using True may by (auto simp: server_may_send_def)
    moreover have "remote (s\<lparr>sv_client_sequence := a, sv_client_last_packet_send_time := b\<rparr>) = remote s" for a b
      by (simp add: remote_def fun_eq_iff)
    moreover have "leased (s\<lparr>sv_client_sequence := a, sv_client_last_packet_send_time :=
        (sv_client_last_packet_send_time s)(?i := b)\<rparr>) j = leased s j" if "remote s j" for a b j
      using that loop by (auto simp: leased_def remote_def split: option.split)
    ultimately show ?thesis
      using True loop idx may inv
      by (simp add: netcode_server_send_packet_def server_may_send_def runs_simps server_kept_def server_inv_def server_same_def
          server_ok_def slots_ok_def remotes_ok_def server_ready_def frame_def)
  next
    case False
    let ?n = "sv_client_sequence s ?i + (if sv_client_confirmed s ?i then 0 else 1)"
    have i: "remote s ?i" using True False by (simp add: remote_def)
    have wf: "packet_wf ?p" and fits: "wire_bytes ?p ?n \<le> NETCODE_MAX_PACKET_BYTES"
      using may True False by (auto simp: server_may_send_def)
    have first: "runs (if \<not> sv_client_confirmed s ?i then netcode_server_send_client_packet cr s (keep_alive_packet s ?i) ?i w
          else Some (s, w))
        (\<lambda>(s', w'). server_kept B s w (s', w') \<and> remote s' ?i \<and> sv_client_sequence s' ?i = ?n)"
    proof (cases "sv_client_confirmed s ?i")
      case False
      have "wire_bytes (keep_alive_packet s ?i) (sv_client_sequence s ?i) \<le> NETCODE_MAX_PACKET_BYTES"
        by (rule small_packet_fits) (simp add: keep_alive_packet_def)
      from runs_server_send_client [OF laws inv i keep_alive_wf [OF server_inv_ok [OF inv] i] this] False i
      show ?thesis by (auto simp: server_kept_def server_sent_def remote_def server_same_def elim!: runs_mono)
    qed (use inv i in \<open>simp add: server_kept_refl\<close>)
    have second: "runs (netcode_server_send_client_packet cr s' ?p ?i w') (server_kept B s w)"
      if "server_kept B s w (s', w')" "remote s' ?i" "sv_client_sequence s' ?i = ?n" for s' w'
    proof -
      have k: "server_inv B s' w'" "frame B w w'" "server_same s s'" using that(1) by (auto simp: server_kept_def)
      have "wire_bytes ?p (sv_client_sequence s' ?i) \<le> NETCODE_MAX_PACKET_BYTES" using fits that(3) by simp
      then have "runs (netcode_server_send_client_packet cr s' ?p ?i w') (server_kept B s' w')"
        by (rule runs_mono [OF runs_server_send_client [OF laws k(1) that(2) wf]]) (auto simp: server_kept_def)
      with k(2,3) show ?thesis by (intro runs_kept_trans [of s s'])
    qed
    have "netcode_server_send_packet cr s i data w = do {
        (s', w') \<leftarrow> (if \<not> sv_client_confirmed s ?i then netcode_server_send_client_packet cr s (keep_alive_packet s ?i) ?i w
          else Some (s, w));
        netcode_server_send_client_packet cr s' ?p ?i w' }"
      using True False idx may by (simp add: netcode_server_send_packet_def server_may_send_def)
    note send = this
    show ?thesis
      unfolding send runs_bind by (rule runs_mono [OF first]) (auto intro: second)
  qed
qed

text \<open>The block of a received payload passes to the user, who frees it.\<close>

lemma queues_held_pop:
  assumes held: "queues_held sim B qs w" and pop: "netcode_packet_queue_pop (qs i) = (Some p, n, q)"
  shows "queues_held sim (insert p B) (qs(i := q)) w" and "payload_at p w" and "p \<notin> B"
proof -
  from queue_popped [OF queues_held_one [OF held] pop]
  have q: "queue_held sim (insert p (B \<union> other_ptrs qs i)) q w" and p: "payload_at p w" "p \<notin> B \<union> other_ptrs qs i" by auto
  have "insert p B \<union> all_ptrs (qs(i := q)) = insert p (B \<union> other_ptrs qs i) \<union> queue_ptrs q"
    unfolding all_ptrs_upd by blast
  then show "queues_held sim (insert p B) (qs(i := q)) w"
    using held q p(2) unfolding queues_held_def queue_held_def by (auto 0 3)
  from p show "payload_at p w" and "p \<notin> B" by auto
qed

lemma runs_server_receive_packet:
  assumes inv: "server_inv B s w" and i: "sv_running s \<longrightarrow> 0 \<le> i \<and> i < int (sv_max_clients s)"
  shows "runs (netcode_server_receive_packet s i w) (\<lambda>(r, s'). server_same s s' \<and> (
    case r of None \<Rightarrow> server_inv B s' w
    | Some (p, payload, n) \<Rightarrow> p \<notin> B \<and> server_inv (insert p B) s' w
        \<and> w_packet p w = Some (CONNECTION_PAYLOAD_PACKET payload)))"
proof (cases "sv_running s \<and> sv_client_connected s (nat i)")
  case False
  have "sv_max_clients s \<le> NETCODE_MAX_CLIENTS" using server_inv_ok [OF inv] by (simp add: server_ok_def slots_ok_def)
  with False i inv show ?thesis by (auto simp: netcode_server_receive_packet_def runs_simps)
next
  case True
  let ?i = "nat i" and ?qs = "sv_client_packet_queue s" and ?sim = "sv_network_simulator s"
  have "sv_max_clients s \<le> NETCODE_MAX_CLIENTS" using server_inv_ok [OF inv] by (simp add: server_ok_def slots_ok_def)
  with True i have idx: "slot_index s i = Some ?i" "0 \<le> i" "i < int NETCODE_MAX_CLIENTS" by (simp_all add: slot_index_Some)
  obtain r n q where pop: "netcode_packet_queue_pop (?qs ?i) = (r, n, q)" by (rule prod_cases3)
  have held: "queues_held ?sim B ?qs w" using inv by (simp add: server_inv_def)
  have set: "server_inv B' (s\<lparr>sv_client_packet_queue := ?qs(?i := q)\<rparr>) w"
    if "queues_held ?sim B' (?qs(?i := q)) w" for B'
    using inv True that by (auto simp: server_inv_def)
  show ?thesis
  proof (cases r)
    case None
    have "q = ?qs ?i" using queue_popped [OF queues_held_one [OF held, of ?i] pop] None by simp
    then have "server_inv B (s\<lparr>sv_client_packet_queue := ?qs(?i := q)\<rparr>) w" using set [of B] held by simp
    with True idx pop None show ?thesis
      by (simp add: netcode_server_receive_packet_def runs_simps server_same_def)
  next
    case (Some p)
    note popped = queues_held_pop [OF held pop [unfolded Some]]
    obtain payload where "w_packet p w = Some (CONNECTION_PAYLOAD_PACKET payload)" "length payload \<le> NETCODE_MAX_PAYLOAD_BYTES"
      using popped(2) by (auto simp: payload_at_def)
    with set [OF popped(1)] popped(3) True idx pop Some show ?thesis
      by (simp add: netcode_server_receive_packet_def runs_simps server_same_def)
  qed
qed

section \<open>Loopback clients\<close>

lemma leased_cong:
  assumes "sv_encryption_manager s' = sv_encryption_manager s" "sv_time s' = sv_time s"
    "sv_client_encryption_index s' j = sv_client_encryption_index s j" "sv_client_address s' j = sv_client_address s j"
    "sv_client_timeout s' j = sv_client_timeout s j"
    "sv_client_last_packet_send_time s' j = sv_client_last_packet_send_time s j"
  shows "leased s' j = leased s j"
  unfolding leased_def assms ..

lemma slots_filled:
  assumes "slots_ok s" and "\<not> sv_client_connected s i" and "i < sv_max_clients s"
  shows "int (card (insert i {j. sv_client_connected s j})) = sv_num_connected_clients s + 1"
    and "sv_num_connected_clients s + 1 \<le> int (sv_max_clients s)"
proof -
  show card: "int (card (insert i {j. sv_client_connected s j})) = sv_num_connected_clients s + 1"
    using assms connected_finite [OF assms(1)] by (simp add: slots_ok_def)
  have "insert i {j. sv_client_connected s j} \<subseteq> {..<sv_max_clients s}" using assms by (auto simp: slots_ok_def)
  from card_mono [OF _ this] card show "sv_num_connected_clients s + 1 \<le> int (sv_max_clients s)" by simp
qed

lemma runs_server_connect_loopback:
  assumes inv: "server_inv B s w" and i: "sv_running s" "0 \<le> i" "i < int (sv_max_clients s)" "\<not> sv_client_connected s (nat i)"
  shows "runs (netcode_server_connect_loopback_client s i n user w) (\<lambda>(s', w'). server_inv B s' w' \<and> frame B w w')"
proof -
  let ?i = "nat i"
  have slots: "slots_ok s" and remotes: "remotes_ok s" using server_inv_ok [OF inv] by (auto simp: server_ok_def)
  have "?i < sv_max_clients s" using i by simp
  note room = slots_filled [OF slots i(4) this]
  define s' where "s' = s\<lparr>sv_num_connected_clients := sv_num_connected_clients s + 1,
            sv_client_loopback := (sv_client_loopback s)(?i := True),
            sv_client_connected := (sv_client_connected s)(?i := True),
            sv_client_confirmed := (sv_client_confirmed s)(?i := True),
            sv_client_encryption_index := (sv_client_encryption_index s)(?i := None),
            sv_client_id := (sv_client_id s)(?i := n),
            sv_client_sequence := (sv_client_sequence s)(?i := 0),
            sv_client_address := (sv_client_address s)(?i := zero_address),
            sv_client_last_packet_send_time := (sv_client_last_packet_send_time s)(?i := sv_time s),
            sv_client_last_packet_receive_time := (sv_client_last_packet_receive_time s)(?i := sv_time s),
            sv_client_user_data := (sv_client_user_data s)(?i :=
              (case user of Some data \<Rightarrow> take NETCODE_USER_DATA_BYTES data
               | None \<Rightarrow> replicate NETCODE_USER_DATA_BYTES 0))\<rparr>"
  have "{j. sv_client_connected s' j} = insert ?i {j. sv_client_connected s j}" by (auto simp: s'_def)
  with room(1) slots i have slots': "slots_ok s'" by (auto simp: slots_ok_def s'_def)
  have rem: "remote s' j \<longleftrightarrow> remote s j" for j using i(4) by (auto simp: remote_def s'_def)
  have other: "j \<noteq> ?i" if "remote s j" for j using that i(4) by (auto simp: remote_def)
  have "leased s' j" if "remote s j" for j
    using remotes_okD(2) [OF server_inv_ok [OF inv] that] other [OF that]
    by (subst leased_cong [of _ s]) (simp_all add: s'_def)
  moreover have "sv_client_address s' j = sv_client_address s j" "sv_client_id s' j = sv_client_id s j" if "remote s j" for j
    using other [OF that] by (simp_all add: s'_def)
  moreover have "address_type (sv_client_address s' j) = 0" if "sv_client_loopback s' j" for j
    using that remotes by (auto simp: s'_def remotes_ok_def zero_address_def split: if_splits)
  ultimately have remotes': "remotes_ok s'"
    using remotes unfolding remotes_ok_def rem by metis
  have "server_ok s'"
    using server_inv_ok [OF inv] slots' remotes' by (simp add: server_ok_def) (simp add: s'_def server_ready_def)
  then have "server_inv B s' w" using inv by (auto simp: server_inv_def s'_def)
  then show ?thesis
    using i room(2) by (simp add: netcode_server_connect_loopback_client_def slot_index_Some runs_simps s'_def [symmetric])
qed

lemma runs_server_disconnect_loopback:
  assumes inv: "server_inv B s w" and i: "sv_running s" "0 \<le> i" "i < int (sv_max_clients s)" "sv_client_loopback s (nat i)"
  shows "runs (netcode_server_disconnect_loopback_client s i w) (\<lambda>(s', w'). server_inv B s' w' \<and> frame B w w'
    \<and> sv_client_loopback s' = (sv_client_loopback s)(nat i := False))"
proof -
  let ?i = "nat i"
  note ok = server_inv_ok [OF inv]
  have c: "sv_client_connected s ?i" using ok i(4) by (auto simp: server_ok_def slots_ok_def)
  define s' where "s' q = server_clear_slot (s\<lparr>sv_client_packet_queue := (sv_client_packet_queue s)(?i := q),
      sv_client_loopback := (sv_client_loopback s)(?i := False)\<rparr>) ?i" for q
  have kept: "leased (s' q) j" if j: "remote s j" "j \<noteq> ?i" for j q
    using remotes_okD(2) [OF ok j(1)] j(2) by (subst leased_cong [of _ s]) (simp_all add: s'_def server_clear_slot_def)
  have freed: "server_ok (s' q) \<and> 0 \<le> sv_num_connected_clients (s' q)" for q
    using ok by (intro conjI slot_freed_ok [OF ok c _ _ _ _ _ _ _ _ _ _ _ kept])
      (auto simp: s'_def server_clear_slot_def server_ok_def server_ready_def fun_eq_iff)
  have fields: "sv_client_connected (s' q) = (sv_client_connected s)(?i := False)"
      "sv_client_loopback (s' q) = (sv_client_loopback s)(?i := False)"
      "sv_client_packet_queue (s' q) = (sv_client_packet_queue s)(?i := q)" "sv_network_simulator (s' q) = sv_network_simulator s" for q
    by (simp_all add: s'_def server_clear_slot_def)
  have "queues_held (sv_network_simulator s) B (sv_client_packet_queue s) (server_log_callback s ?i False w)"
    using inv by (auto simp: server_inv_def server_log_callback_def split: option.split)
  note emptied = runs_server_empty_queue [OF this, of ?i]
  show ?thesis
    unfolding netcode_server_disconnect_loopback_client_def slot_index_Some [OF i(2,3)] bind.bind_lunit runs_Let runs_bind runs_assert
    by (intro conjI i c runs_mono [OF emptied])
      (use inv freed [of netcode_packet_queue_init] fields [of netcode_packet_queue_init] in
        \<open>auto simp: runs_simps Let_def s'_def [symmetric] server_inv_def\<close>)
qed

lemma runs_server_process_loopback:
  assumes inv: "server_inv B s w" and i: "sv_running s" "0 \<le> i" "i < int (sv_max_clients s)" "sv_client_loopback s (nat i)"
    and n: "length data \<le> NETCODE_MAX_PACKET_SIZE"
  shows "runs (netcode_server_process_loopback_packet s i data m w) (server_kept B s w)"
proof -
  let ?i = "nat i" and ?A = "B \<union> all_ptrs (sv_client_packet_queue s)"
  note ok = server_inv_ok [OF inv]
  have c: "sv_client_connected s ?i" using ok i(4) by (auto simp: server_ok_def slots_ok_def)
  obtain ptr h where alloc: "netcode_create_payload_packet (int (length data)) (w_heap w) = Some (ptr, h)"
    using create_payload_runs [OF n] by blast
  note start = netcode_server_process_loopback_packet_def slot_index_Some [OF i(2,3)]
  show ?thesis
  proof (cases ptr)
    case None
    from world_inv_alloc_failed [OF server_inv_world [OF inv] n alloc [unfolded None]]
    have "server_inv B s (w\<lparr>w_heap := h\<rparr>) \<and> frame B w (w\<lparr>w_heap := h\<rparr>)" by (rule server_inv_queues [OF inv])
    with i c n alloc None show ?thesis by (simp add: start runs_simps server_kept_def)
  next
    case (Some p)
    let ?w = "w\<lparr>w_heap := heap_store p (Packet_block (CONNECTION_PAYLOAD_PACKET data)) h\<rparr>"
    let ?s = "s\<lparr>sv_client_last_packet_receive_time := (sv_client_last_packet_receive_time s)(?i := sv_time s)\<rparr>"
    note new = payload_block_fresh [OF server_inv_world [OF inv] n alloc [unfolded Some]]
    have "world_inv (sv_network_simulator s) ?A ?w" by (rule world_inv_mono [OF new(1)]) auto
    from server_inv_queues [OF inv this new(4)] have inv': "server_inv B ?s ?w" and f: "frame B w ?w"
      by (auto simp: server_inv_def)
    from runs_server_queue_payload [OF inv', of ?i p m] c new(1,2,3)
    have "runs (do { (queue, w) \<leftarrow> queue_push (sv_client_packet_queue ?s ?i) p m ?w;
        Some (?s\<lparr>sv_client_packet_queue := (sv_client_packet_queue ?s)(?i := queue)\<rparr>, w) }) (server_kept B ?s ?w)" by simp
    moreover have "server_same s ?s" by (simp add: server_same_def)
    ultimately have "runs (do { (queue, w) \<leftarrow> queue_push (sv_client_packet_queue ?s ?i) p m ?w;
        Some (?s\<lparr>sv_client_packet_queue := (sv_client_packet_queue ?s)(?i := queue)\<rparr>, w) }) (server_kept B s w)"
      using runs_kept_trans [OF _ f] by blast
    with i c n alloc Some show ?thesis by (simp add: start Let_def)
  qed
qed

section \<open>Creation and destruction\<close>

lemma new_server_inv:
  assumes "world_inv sim B w" and "server_ready (new_server timeouts ckey cseq socket address sim pid pkey time)"
    and "length pkey = NETCODE_KEY_BYTES" and "length ckey = NETCODE_KEY_BYTES"
  shows "server_inv B (new_server timeouts ckey cseq socket address sim pid pkey time) w"
  using assms
  by (simp add: server_inv_def server_ok_def new_server_def queues_held_def server_ready_def slots_ok_def remotes_ok_def
      remote_def zero_packet_queue_def )

lemma runs_server_destroy:
  assumes laws: "aead_laws cr" and inv: "server_inv (insert p B) s w" and p: "p \<notin> B" and loop: "\<forall>i. \<not> sv_client_loopback s i"
    and init: "w_initialized w"
  shows "runs (netcode_server_destroy cr p s w) (\<lambda>w'. world_inv (sv_network_simulator s) B w' \<and> frame B w w')"
  unfolding netcode_server_destroy_def runs_bind
proof (rule runs_mono [OF runs_server_stop [OF laws inv loop]], elim case_prodE conjE, hypsubst, unfold prod.case runs_bind)
  fix s1 w1
  assume 1: "server_inv (insert p B) s1 w1" "frame (insert p B) w w1" "server_stopped s1"
    "sv_network_simulator s1 = sv_network_simulator s"
  have "w_initialized w1" using init 1(2) by (simp add: frame_def)
  then obtain socket cs where d: "netcode_socket_destroy (sv_socket s1) w1 = Some (socket, w1\<lparr>w_closed := cs\<rparr>)"
    by (rule socket_destroyed)
  have "all_ptrs (sv_client_packet_queue s1) = {}" using 1(1,3) by (auto simp: server_inv_def server_stopped_def)
  with server_inv_world [OF 1(1)] 1(4)
  have "world_inv (sv_network_simulator s) (insert p B) (w1\<lparr>w_closed := cs\<rparr>)" by simp
  from runs_w_free [OF this p] show "runs (netcode_socket_destroy (sv_socket s1) w1)
      (\<lambda>x. runs (case x of (socket, w) \<Rightarrow> w_free (Some p) w) (\<lambda>w'. world_inv (sv_network_simulator s) B w' \<and> frame B w w'))"
    using frame_mono [OF 1(2) subset_insertI] by (auto simp: d frame_def elim!: runs_mono)
qed

section \<open>Runs of a server\<close>

text \<open>The first component is the set of blocks that belong to the user and to the rest of the process.\<close>

type_synonym server_conf = "nat set \<times> netcode_server \<times> world"

abbreviation slot_of :: "netcode_server \<Rightarrow> int \<Rightarrow> bool" where
  "slot_of s i \<equiv> sv_running s \<and> 0 \<le> i \<and> i < int (sv_max_clients s)"

abbreviation no_loopback :: "netcode_server \<Rightarrow> bool" where
  "no_loopback s \<equiv> \<forall>i. \<not> sv_client_loopback s i"

inductive server_step :: "crypto \<Rightarrow> server_conf \<Rightarrow> server_conf \<Rightarrow> bool" for cr where
  sv_step_start: "no_loopback s \<Longrightarrow> 0 < n \<Longrightarrow> n \<le> NETCODE_MAX_CLIENTS \<Longrightarrow>
    netcode_server_start cr s n w = Some (s', w') \<Longrightarrow> server_step cr (B, s, w) (B, s', w')"
| sv_step_stop: "no_loopback s \<Longrightarrow> netcode_server_stop cr s w = Some (s', w') \<Longrightarrow> server_step cr (B, s, w) (B, s', w')"
| sv_step_update: "server_alive time s \<Longrightarrow> netcode_server_update cr time s w = Some (s', w') \<Longrightarrow>
    server_step cr (B, s, w) (B, s', w')"
| sv_step_send: "server_may_send s i data \<Longrightarrow> netcode_server_send_packet cr s i data w = Some (s', w') \<Longrightarrow>
    server_step cr (B, s, w) (B, s', w')"
| sv_step_receive: "slot_of s i \<Longrightarrow> netcode_server_receive_packet s i w = Some (r, s') \<Longrightarrow>
    server_step cr (B, s, w) (case r of None \<Rightarrow> B | Some (p, _, _) \<Rightarrow> insert p B, s', w)"
| sv_step_free: "p \<in> B \<Longrightarrow> netcode_server_free_packet p w = Some w' \<Longrightarrow> server_step cr (B, s, w) (B - {p}, s, w')"
| sv_step_disconnect: "slot_of s i \<Longrightarrow> \<not> sv_client_loopback s (nat i) \<Longrightarrow>
    netcode_server_disconnect_client cr s i w = Some (s', w') \<Longrightarrow> server_step cr (B, s, w) (B, s', w')"
| sv_step_disconnect_all: "netcode_server_disconnect_all_clients cr s w = Some (s', w') \<Longrightarrow>
    server_step cr (B, s, w) (B, s', w')"
| sv_step_connect_loopback: "slot_of s i \<Longrightarrow> \<not> sv_client_connected s (nat i) \<Longrightarrow>
    netcode_server_connect_loopback_client s i n user w = Some (s', w') \<Longrightarrow> server_step cr (B, s, w) (B, s', w')"
| sv_step_disconnect_loopback: "slot_of s i \<Longrightarrow> sv_client_loopback s (nat i) \<Longrightarrow>
    netcode_server_disconnect_loopback_client s i w = Some (s', w') \<Longrightarrow> server_step cr (B, s, w) (B, s', w')"
| sv_step_process_loopback: "slot_of s i \<Longrightarrow> sv_client_loopback s (nat i) \<Longrightarrow> length data \<le> NETCODE_MAX_PACKET_SIZE \<Longrightarrow>
    netcode_server_process_loopback_packet s i data m w = Some (s', w') \<Longrightarrow> server_step cr (B, s, w) (B, s', w')"
| sv_step_callback: "server_step cr (B, s, w) (B, netcode_server_connect_disconnect_callback s cb, w)"
| sv_step_loopback_callback: "server_step cr (B, s, w) (B, netcode_server_send_loopback_packet_callback s cb, w)"
| sv_step_environment: "world_inv (sv_network_simulator s) (B' \<union> all_ptrs (sv_client_packet_queue s)) w' \<Longrightarrow>
    B' \<inter> all_ptrs (sv_client_packet_queue s) = {} \<Longrightarrow>
    untouched (all_ptrs (sv_client_packet_queue s)) w w' \<Longrightarrow> server_step cr (B, s, w) (B', s, w')"

inductive_cases server_stepE: "server_step cr (B, s, w) s'"

fun server_conf_inv :: "crypto \<Rightarrow> server_conf \<Rightarrow> bool" where
  "server_conf_inv cr (B, s, w) \<longleftrightarrow> aead_laws cr \<and> server_inv B s w"

lemma server_inv_callbacks [simp]:
  "server_inv B (netcode_server_connect_disconnect_callback s cb) w = server_inv B s w"
  "server_inv B (netcode_server_send_loopback_packet_callback s cb) w = server_inv B s w"
  by (simp_all add: server_inv_def netcode_server_connect_disconnect_callback_def
      netcode_server_send_loopback_packet_callback_def)

lemma queue_untouched:
  "receive_queue_ok (qs i) w \<Longrightarrow> untouched (all_ptrs qs) w w' \<Longrightarrow> receive_queue_ok (qs i) w'"
  by (simp add: receive_queue_ok_def payload_at_def) (metis UN_I UNIV_I untouched_packet)

lemma server_inv_environment:
  assumes "server_inv B s w" and "world_inv (sv_network_simulator s) (B' \<union> all_ptrs (sv_client_packet_queue s)) w'"
    and "B' \<inter> all_ptrs (sv_client_packet_queue s) = {}" and "untouched (all_ptrs (sv_client_packet_queue s)) w w'"
  shows "server_inv B' s w'"
  using assms queue_untouched [OF _ assms(4)] by (auto simp: server_inv_def queues_held_def)

lemma server_step_inv:
  assumes "server_step cr c c'" and "server_conf_inv cr c"
  shows "server_conf_inv cr c'"
  using assms(1)
proof cases
  case (sv_step_start s n w s' w' B)
  with assms(2) show ?thesis using runs_SomeD [OF runs_server_start [of cr B s w n]] by auto
next
  case (sv_step_stop s w s' w' B)
  with assms(2) show ?thesis using runs_SomeD [OF runs_server_stop [of cr B s w]] by auto
next
  case (sv_step_update time s w s' w' B)
  with assms(2) show ?thesis using runs_SomeD [OF runs_server_update [of cr B s w time]] by auto
next
  case (sv_step_send s i data w s' w' B)
  with assms(2) show ?thesis
    using runs_SomeD [OF runs_server_send_payload [of cr B s w i data]] by (auto simp: server_kept_def)
next
  case (sv_step_receive s i w r s' B)
  with assms(2) show ?thesis
    using runs_SomeD [OF runs_server_receive_packet [of B s w i]] by (auto split: option.splits)
next
  case (sv_step_free p B w w' s)
  then have "insert p (B - {p}) = B" by auto
  with sv_step_free assms(2) show ?thesis
    using runs_SomeD [OF runs_server_free_block [of p "B - {p}" s w]] by (auto simp: netcode_server_free_packet_def)
next
  case (sv_step_disconnect s i w s' w' B)
  with assms(2) show ?thesis using runs_SomeD [OF runs_server_disconnect_client [of cr B s w i]] by auto
next
  case (sv_step_disconnect_all s w s' w' B)
  with assms(2) show ?thesis using runs_SomeD [OF runs_server_disconnect_all [of cr B s w]] by auto
next
  case (sv_step_connect_loopback s i n user w s' w' B)
  with assms(2) show ?thesis using runs_SomeD [OF runs_server_connect_loopback [of B s w i n user]] by auto
next
  case (sv_step_disconnect_loopback s i w s' w' B)
  with assms(2) show ?thesis using runs_SomeD [OF runs_server_disconnect_loopback [of B s w i]] by auto
next
  case (sv_step_process_loopback s i data m w s' w' B)
  with assms(2) show ?thesis
    using runs_SomeD [OF runs_server_process_loopback [of B s w i data m]] by (auto simp: server_kept_def)
next
  case (sv_step_environment s B' w' w B)
  with assms(2) show ?thesis using server_inv_environment [of B s w B' w'] by auto
qed (use assms(2) in auto)

interpretation server_run: step_system "server_step cr" "server_conf_inv cr" for cr
  by unfold_locales (rule server_step_inv)

text \<open>Every call of the interface runs to its end on a sound server, if its condition holds.\<close>

lemma server_calls_run:
  assumes laws: "aead_laws cr" and inv: "server_inv B' server w'"
  shows "server_inv B' server w'
    \<and> (server_alive t server \<longrightarrow> netcode_server_update cr t server w' \<noteq> None)
    \<and> (server_may_send server i data \<longrightarrow> netcode_server_send_packet cr server i data w' \<noteq> None)
    \<and> ((sv_running server \<longrightarrow> slot_of server i) \<longrightarrow> netcode_server_receive_packet server i w' \<noteq> None)
    \<and> (p \<in> B' \<longrightarrow> netcode_server_free_packet p w' \<noteq> None)
    \<and> ((sv_running server \<longrightarrow> slot_of server i \<and> \<not> sv_client_loopback server (nat i)) \<longrightarrow>
        netcode_server_disconnect_client cr server i w' \<noteq> None)
    \<and> netcode_server_disconnect_all_clients cr server w' \<noteq> None
    \<and> (slot_of server i \<longrightarrow> \<not> sv_client_connected server (nat i) \<longrightarrow>
        netcode_server_connect_loopback_client server i client_id user_data w' \<noteq> None)
    \<and> (slot_of server i \<longrightarrow> sv_client_loopback server (nat i) \<longrightarrow>
        netcode_server_disconnect_loopback_client server i w' \<noteq> None)
    \<and> (slot_of server i \<longrightarrow> sv_client_loopback server (nat i) \<longrightarrow> length data \<le> NETCODE_MAX_PACKET_SIZE \<longrightarrow>
        netcode_server_process_loopback_packet server i data sequence w' \<noteq> None)
    \<and> (slot_of server i \<longrightarrow> netcode_server_next_packet_sequence server i \<noteq> None
        \<and> netcode_server_client_user_data server i \<noteq> None \<and> netcode_server_client_loopback server i \<noteq> None)
    \<and> (no_loopback server \<longrightarrow> 0 < n \<longrightarrow> n \<le> NETCODE_MAX_CLIENTS \<longrightarrow> netcode_server_start cr server n w' \<noteq> None)
    \<and> (no_loopback server \<longrightarrow> netcode_server_stop cr server w' \<noteq> None)
    \<and> (no_loopback server \<longrightarrow> p \<in> B' \<longrightarrow> w_initialized w' \<longrightarrow> netcode_server_destroy cr p server w' \<noteq> None)"
proof (intro conjI impI)
  assume p: "p \<in> B'"
  then have e: "insert p (B' - {p}) = B'" by auto
  have inv': "server_inv (insert p (B' - {p})) server w'" unfolding e by (rule inv)
  show "netcode_server_free_packet p w' \<noteq> None"
    using runs_not_None [OF runs_server_free_block [OF inv']] by (simp add: netcode_server_free_packet_def)
  show "netcode_server_destroy cr p server w' \<noteq> None" if "no_loopback server" "w_initialized w'"
    using runs_not_None [OF runs_server_destroy [OF laws inv' _ that]] by simp
next
  assume i: "sv_running server \<and> 0 \<le> i \<and> i < int (sv_max_clients server)"
  then show "netcode_server_next_packet_sequence server i \<noteq> None" "netcode_server_client_user_data server i \<noteq> None"
    "netcode_server_client_loopback server i \<noteq> None"
    by (simp_all add: netcode_server_next_packet_sequence_def netcode_server_client_user_data_def netcode_server_client_loopback_def
        slot_index_Some)
  assume l: "sv_client_loopback server (nat i)"
  then show "netcode_server_disconnect_loopback_client server i w' \<noteq> None"
    using i runs_not_None [OF runs_server_disconnect_loopback [OF inv, of i]] by simp
  show "netcode_server_process_loopback_packet server i data sequence w' \<noteq> None" if "length data \<le> NETCODE_MAX_PACKET_SIZE"
    using i l that runs_not_None [OF runs_server_process_loopback [OF inv, of i]] by simp
qed (use inv runs_not_None [OF runs_server_update [OF laws inv, of t]] runs_not_None [OF runs_server_send_payload [OF laws inv, of i data]]
      runs_not_None [OF runs_server_receive_packet [OF inv, of i]] runs_not_None [OF runs_server_disconnect_client [OF laws inv, of i]]
      runs_not_None [OF runs_server_disconnect_all [OF laws inv]] runs_not_None [OF runs_server_start [OF laws inv, of n]]
      runs_not_None [OF runs_server_stop [OF laws inv]] runs_not_None [OF runs_server_connect_loopback [OF inv, of i client_id user_data]]
    in auto)

section \<open>Properties\<close>

text \<open>C3: an update of a sound server runs to its end, whatever has arrived and whoever sent it, if it comes before any connected
  client's timeout has passed since the last packet to it: no failed assertion, no double free, no access out of bounds. The server is
  sound afterwards, nobody else's memory was touched, and the next update is safe again if it comes at least a tenth of
  a second (the interval of the keep-alives) before the shortest timeout has passed.\<close>

theorem server_update_safe:
  assumes "aead_laws cr" and "server_inv B server w" and "server_alive time server"
  shows "\<exists>server' w'. netcode_server_update cr time server w = Some (server', w') \<and> server_inv B server' w'
    \<and> frame_rx B w w' \<and> sv_time server' = time
    \<and> (\<forall>t. (\<forall>i. remote server' i \<longrightarrow> sv_client_timeout server' i > 0 \<longrightarrow>
           t + 1 / NETCODE_PACKET_SEND_RATE \<le> time + of_int (sv_client_timeout server' i)) \<longrightarrow> server_alive t server')"
proof -
  obtain s' w' where u: "netcode_server_update cr time server w = Some (s', w')" and inv: "server_inv B s' w'" "frame_rx B w w'"
      and same: "server_same (server\<lparr>sv_time := time\<rparr>) s'" and fresh: "server_fresh s'"
    using runs_server_update [OF assms] by (auto elim: runsE)
  have "sv_time s' = time" using same by (simp add: server_same_def)
  with u inv server_fresh_alive [OF fresh] show ?thesis by auto
qed

abbreviation simulated_server :: netcode_server where
  "simulated_server \<equiv> new_server (\<lambda>_. 0) (replicate 32 0) 0 zero_socket (ADDRESS_IPV4 [127, 0, 0, 1] 40000) True 7
     (replicate 32 1) 0"

lemma simulated_server_inv: "server_inv {} simulated_server empty_world"
  by (rule new_server_inv) (simp_all add: server_ready_def new_server_def address_ok_def)

lemma new_server_alive: "server_alive t (new_server timeouts ckey cseq socket address sim pid pkey time)"
  by (simp add: server_alive_def remote_def new_server_def)

theorem server_update_safe_witness:
  "\<exists>server' w'. netcode_server_update clear_crypto 5 simulated_server empty_world = Some (server', w')
    \<and> server_inv {} server' w' \<and> frame_rx {} empty_world w' \<and> sv_time server' = 5"
  using server_update_safe [OF clear_crypto_laws simulated_server_inv new_server_alive, of 5] by blast

text \<open>C2: no run of a server goes wrong. After any sequence of calls by a user who keeps to the interface, with anything happening in
  between, the server is sound, and every call of the interface that the user may make next runs to its end. To keep to the
  interface is: to update before a client's timeout has passed since the last packet to it, to send payloads that fit to slots of the
  server, to name slots of the server, to free only what was received, to connect a loopback client to a free slot and to use the
  loopback calls for loopback clients only, and to start, stop and destroy the server only without loopback clients. Setting the two
  callbacks is always possible, and so are the calls that only look at the server.\<close>

theorem server_calls_never_abort:
  assumes laws: "aead_laws cr" and "world_inv sim B w"
    and "server_ready (new_server timeouts ckey cseq socket address sim pid pkey time)"
    and "length pkey = NETCODE_KEY_BYTES" and "length ckey = NETCODE_KEY_BYTES"
    and run: "(server_step cr)\<^sup>*\<^sup>* (B, new_server timeouts ckey cseq socket address sim pid pkey time, w) (B', server, w')"
  shows "server_inv B' server w'
    \<and> (server_alive t server \<longrightarrow> netcode_server_update cr t server w' \<noteq> None)
    \<and> (server_may_send server i data \<longrightarrow> netcode_server_send_packet cr server i data w' \<noteq> None)
    \<and> ((sv_running server \<longrightarrow> slot_of server i) \<longrightarrow> netcode_server_receive_packet server i w' \<noteq> None)
    \<and> (p \<in> B' \<longrightarrow> netcode_server_free_packet p w' \<noteq> None)
    \<and> ((sv_running server \<longrightarrow> slot_of server i \<and> \<not> sv_client_loopback server (nat i)) \<longrightarrow>
        netcode_server_disconnect_client cr server i w' \<noteq> None)
    \<and> netcode_server_disconnect_all_clients cr server w' \<noteq> None
    \<and> (slot_of server i \<longrightarrow> \<not> sv_client_connected server (nat i) \<longrightarrow>
        netcode_server_connect_loopback_client server i client_id user_data w' \<noteq> None)
    \<and> (slot_of server i \<longrightarrow> sv_client_loopback server (nat i) \<longrightarrow>
        netcode_server_disconnect_loopback_client server i w' \<noteq> None)
    \<and> (slot_of server i \<longrightarrow> sv_client_loopback server (nat i) \<longrightarrow> length data \<le> NETCODE_MAX_PACKET_SIZE \<longrightarrow>
        netcode_server_process_loopback_packet server i data sequence w' \<noteq> None)
    \<and> (slot_of server i \<longrightarrow> netcode_server_next_packet_sequence server i \<noteq> None
        \<and> netcode_server_client_user_data server i \<noteq> None \<and> netcode_server_client_loopback server i \<noteq> None)
    \<and> (no_loopback server \<longrightarrow> 0 < n \<longrightarrow> n \<le> NETCODE_MAX_CLIENTS \<longrightarrow> netcode_server_start cr server n w' \<noteq> None)
    \<and> (no_loopback server \<longrightarrow> netcode_server_stop cr server w' \<noteq> None)
    \<and> (no_loopback server \<longrightarrow> p \<in> B' \<longrightarrow> w_initialized w' \<longrightarrow> netcode_server_destroy cr p server w' \<noteq> None)"
proof -
  have "server_conf_inv cr (B, new_server timeouts ckey cseq socket address sim pid pkey time, w)"
    using laws new_server_inv [OF assms(2-5)] by simp
  from server_run.run_inv [OF this run] have inv: "server_inv B' server w'" by simp
  show ?thesis by (rule server_calls_run [OF laws inv])
qed

text \<open>A server that was created, started for two clients, and updated.\<close>

lemma simulated_server_ready: "server_ready simulated_server"
  by (simp add: server_ready_def new_server_def address_ok_def)

lemma started_server_run:
  obtains server w where "(server_step clear_crypto)\<^sup>*\<^sup>* ({}, simulated_server, empty_world) ({}, server, w)"
    and "sv_running server" and "sv_max_clients server = 2" and "\<forall>i. \<not> sv_client_connected server i"
proof -
  have loop: "no_loopback simulated_server" by (simp add: new_server_def)
  obtain s w where start: "netcode_server_start clear_crypto simulated_server 2 empty_world = Some (s, w)"
    and s: "sv_running s" "sv_max_clients s = 2" "\<forall>i. \<not> sv_client_connected s i"
    using runs_server_start [OF clear_crypto_laws simulated_server_inv loop, of 2] by (auto elim: runsE)
  have "server_step clear_crypto ({}, simulated_server, empty_world) ({}, s, w)"
    by (rule sv_step_start [OF loop _ _ start]) simp_all
  then show ?thesis using that s by blast
qed

text \<open>A loopback client was connected to its first slot.\<close>

lemma loopback_server_run:
  obtains server w where "(server_step clear_crypto)\<^sup>*\<^sup>* ({}, simulated_server, empty_world) ({}, server, w)"
    and "sv_running server" and "sv_max_clients server = 2" and "sv_client_loopback server 0" and "server_inv {} server w"
proof -
  obtain s w where run: "(server_step clear_crypto)\<^sup>*\<^sup>* ({}, simulated_server, empty_world) ({}, s, w)"
    and s: "sv_running s" "sv_max_clients s = 2" "\<forall>i. \<not> sv_client_connected s i" by (rule started_server_run)
  have inv: "server_inv {} s w"
    using server_run.run_inv [OF _ run] clear_crypto_laws simulated_server_inv by simp
  obtain s' w' where c: "netcode_server_connect_loopback_client s 0 7 None w = Some (s', w')" and inv': "server_inv {} s' w'"
    using runs_server_connect_loopback [OF inv, of 0 7 None] s by (auto elim: runsE)
  have "server_step clear_crypto ({}, s, w) ({}, s', w')" by (rule sv_step_connect_loopback [OF _ _ c]) (use s in auto)
  with run have "(server_step clear_crypto)\<^sup>*\<^sup>* ({}, simulated_server, empty_world) ({}, s', w')" by simp
  moreover have "sv_running s'" "sv_max_clients s' = 2" "sv_client_loopback s' 0"
    using c s by (auto simp: netcode_server_connect_loopback_client_def slot_index_def Let_def split: bind_splits)
  ultimately show ?thesis using that inv' by blast
qed

theorem server_calls_never_abort_witness:
  "\<exists>server w. (server_step clear_crypto)\<^sup>*\<^sup>* ({}, simulated_server, empty_world) ({}, server, w)
    \<and> sv_running server \<and> server_inv {} server w \<and> netcode_server_receive_packet server 0 w \<noteq> None
    \<and> netcode_server_process_loopback_packet server 0 [1, 2, 3] 5 w \<noteq> None
    \<and> netcode_server_disconnect_loopback_client server 0 w \<noteq> None \<and> netcode_server_disconnect_all_clients clear_crypto server w \<noteq> None"
proof -
  obtain server w where run: "(server_step clear_crypto)\<^sup>*\<^sup>* ({}, simulated_server, empty_world) ({}, server, w)"
    and s: "sv_running server" "sv_max_clients server = 2" "sv_client_loopback server 0" by (rule loopback_server_run)
  have "length (replicate 32 1 :: bytes) = NETCODE_KEY_BYTES" "length (replicate 32 0 :: bytes) = NETCODE_KEY_BYTES" by simp_all
  note calls = server_calls_never_abort [OF clear_crypto_laws world_inv_empty simulated_server_ready this run,
      where i = 0 and data = "[1, 2, 3]" and sequence = 5]
  show ?thesis by (rule exI [of _ server], rule exI [of _ w]) (use calls run s in simp)
qed

text \<open>C16: after any run of a server in which its user keeps to the interface as above, with any datagrams in between, the number of
  connected clients that the server reports is the number of its connected slots and at most the number of slots, and no two clients
  connected over the network have the same address or the same client id. The run updates the server in time, and starts and stops it
  only when no loopback client is connected: that the last condition is needed for the count is shown by
  \<open>stopped_server_forgets_loopback\<close>.\<close>

theorem server_clients_distinct:
  assumes laws: "aead_laws cr" and "world_inv sim B w"
    and "server_ready (new_server timeouts ckey cseq socket address sim pid pkey time)"
    and "length pkey = NETCODE_KEY_BYTES" and "length ckey = NETCODE_KEY_BYTES"
    and run: "(server_step cr)\<^sup>*\<^sup>* (B, new_server timeouts ckey cseq socket address sim pid pkey time, w) (B', server, w')"
  shows "netcode_server_num_connected_clients server
      = int (card {i. i < netcode_server_max_clients server \<and> netcode_server_client_connected server (int i)})
    \<and> netcode_server_num_connected_clients server \<le> int (netcode_server_max_clients server)
    \<and> (\<forall>i j. remote server i \<and> remote server j \<and> i \<noteq> j \<longrightarrow>
        sv_client_address server i \<noteq> sv_client_address server j
        \<and> netcode_server_client_id server (int i) \<noteq> netcode_server_client_id server (int j))"
proof -
  have "server_conf_inv cr (B, new_server timeouts ckey cseq socket address sim pid pkey time, w)"
    using laws new_server_inv [OF assms(2-5)] by simp
  from server_run.run_inv [OF this run] have ok: "server_ok server" by (simp add: server_inv_def)
  then have slots: "slots_ok server" and remotes: "remotes_ok server" by (auto simp: server_ok_def)
  have set: "{i. i < netcode_server_max_clients server \<and> netcode_server_client_connected server (int i)}
      = {i. sv_client_connected server i}"
    using slots by (auto simp: netcode_server_client_connected_def netcode_server_max_clients_def slots_ok_def)
  have "card {i. sv_client_connected server i} \<le> card {..<sv_max_clients server}"
    using slots by (intro card_mono) (auto simp: slots_ok_def)
  then have num: "sv_num_connected_clients server = int (card {i. sv_client_connected server i})
      \<and> sv_num_connected_clients server \<le> int (sv_max_clients server)" using slots by (simp add: slots_ok_def)
  have "netcode_server_client_id server (int i) = sv_client_id server i" if "remote server i" for i
    using server_ok_remote [OF ok that] by (simp add: netcode_server_client_id_def)
  with set num remotes show ?thesis
    by (simp add: netcode_server_num_connected_clients_def netcode_server_max_clients_def remotes_ok_def)
qed

theorem server_clients_distinct_witness:
  "\<exists>server w. (server_step clear_crypto)\<^sup>*\<^sup>* ({}, simulated_server, empty_world) ({}, server, w)
    \<and> sv_running server \<and> netcode_server_num_connected_clients server \<le> 2"
proof -
  obtain server w where run: "(server_step clear_crypto)\<^sup>*\<^sup>* ({}, simulated_server, empty_world) ({}, server, w)"
    and s: "sv_running server" "sv_max_clients server = 2" by (rule started_server_run)
  have "length (replicate 32 1 :: bytes) = NETCODE_KEY_BYTES" "length (replicate 32 0 :: bytes) = NETCODE_KEY_BYTES" by simp_all
  from server_clients_distinct [OF clear_crypto_laws world_inv_empty simulated_server_ready this run] run s
  show ?thesis by (auto simp: netcode_server_max_clients_def)
qed

end
