(* ===== verification/Server_Stall.thy ===== *)
theory Server_Stall
  imports Server_Protocol
begin

text \<open>
  What happens when the user of a server does not keep to the conditions of \<open>Server_Protocol\<close>. They are needed: a server that is
  not updated in time can fail an assertion when a client disconnects, and one that is stopped while a loopback client is connected
  loses count of its clients.
\<close>

definition stalled_server :: netcode_server where
  "stalled_server = (new_server (\<lambda>_. 5) (replicate 32 4) 0 \<lparr>so_address = ADDRESS_IPV4 [127, 0, 0, 1] 40000, so_handle = 1\<rparr>
     (ADDRESS_IPV4 [127, 0, 0, 1] 40000) False 7 (replicate 32 9) 0)\<lparr>
     sv_running := True, sv_max_clients := 2, sv_num_connected_clients := 2,
     sv_client_connected := (\<lambda>i. i < 2), sv_client_confirmed := (\<lambda>i. i < 2),
     sv_client_id := (\<lambda>i. of_nat (i + 10)),
     sv_client_address := (\<lambda>i. ADDRESS_IPV4 [127, 0, 0, 1] (if i = 0 then 50000 else 50001)),
     sv_client_encryption_index := (\<lambda>i. Some i),
     sv_encryption_manager := netcode_encryption_manager_reset\<lparr>em_num_encryption_mappings := 2,
       em_timeout := (\<lambda>_. 5), em_expire_time := (\<lambda>_. - 1), em_last_access_time := (\<lambda>_. 0),
       em_address := (\<lambda>i. if i = 0 then ADDRESS_IPV4 [127, 0, 0, 1] 50000
         else if i = 1 then ADDRESS_IPV4 [127, 0, 0, 1] 50001 else zero_address)\<rparr>\<rparr>"

text \<open>The datagram of a disconnect packet, with the sequence number 5, from the second client.\<close>

definition goodbye_world :: world where
  "goodbye_world = empty_world\<lparr>w_inbox := (\<lambda>_. [])(1 :=
     [(sockaddr_of (ADDRESS_IPV4 [127, 0, 0, 1] 50001), [0x16, 5] @ replicate 16 0)])\<rparr>"

lemma goodbye_world_inv: "world_inv False {} goodbye_world"
  using world_inv_empty [of False]
  by (simp add: goodbye_world_def world_inv_def inbox_ok_def empty_world_def sim_inv_def sim_owned_def)

lemma stalled_server_inv: "server_inv {} stalled_server goodbye_world"
proof -
  have "{i :: nat. i < 2} = {..<2}" by auto
  then have slots: "slots_ok stalled_server"
    by (simp add: slots_ok_def stalled_server_def new_server_def)
  have leased: "leased stalled_server i" "address_ok (sv_client_address stalled_server i)" if "i < 2" for i
    using that by (auto simp: less_2_cases_iff leased_def em_matches_def stalled_server_def new_server_def address_ok_def)
  have rem: "remote stalled_server i \<longleftrightarrow> i < 2" and loop: "\<not> sv_client_loopback stalled_server i" for i
    by (simp_all add: remote_def stalled_server_def new_server_def)
  have distinct: "sv_client_address stalled_server i \<noteq> sv_client_address stalled_server j
      \<and> sv_client_id stalled_server i \<noteq> sv_client_id stalled_server j" if "i < 2" "j < 2" "i \<noteq> j" for i j
    using that by (auto simp: less_2_cases_iff stalled_server_def)
  have "remotes_ok stalled_server"
    unfolding remotes_ok_def rem using leased distinct loop by blast
  then show ?thesis
    using slots goodbye_world_inv
    by (auto simp: server_inv_def server_ok_def server_ready_def em_ok_def queues_held_def stalled_server_def new_server_def
        zero_packet_queue_def netcode_encryption_manager_reset_def address_ok_def zero_address_def)
qed

lemma stalled_update: "map_option (\<lambda>_. ()) (netcode_server_update clear_crypto 100 stalled_server goodbye_world) = None"
  by code_simp

text \<open>The same packet in time: the second client is gone, and the first one is served.\<close>

lemma timely_update: "map_option (\<lambda>(s, w). (map (sv_client_connected s) [0, 1], length (w_sent w)))
    (netcode_server_update clear_crypto 1 stalled_server goodbye_world) = Some ([True, False], 1)"
  by code_simp

text \<open>A server that is not updated for longer than the timeout of its clients can abort on a harmless packet. The server here is sound
  and has two clients with a timeout of 5 seconds. The disconnect packet of the second one is processed as it should be at time 1; at time 100
  the removal of its mapping also drops the expired mapping of the first client, which is still connected, and the keep-alive to
  it in the same update fails the assertion on the index of the mapping.\<close>

lemma stalled_server_aborts:
  "server_inv {} stalled_server goodbye_world
    \<and> (\<exists>s w. netcode_server_update clear_crypto 1 stalled_server goodbye_world = Some (s, w)
         \<and> sv_client_connected s 0 \<and> \<not> sv_client_connected s 1)
    \<and> netcode_server_update clear_crypto 100 stalled_server goodbye_world = None"
  using stalled_server_inv stalled_update timely_update by auto

section \<open>A stop with a loopback client\<close>

lemma stop_with_loopback:
  assumes laws: "aead_laws cr" and inv: "server_inv B s w" and run: "sv_running s" and i: "sv_client_loopback s i"
  obtains s' w' where "netcode_server_stop cr s w = Some (s', w')" and "\<not> sv_running s'" and "sv_num_connected_clients s' = 0"
    and "sv_client_connected s' i" and "sv_client_loopback s' i"
proof -
  have c: "sv_client_connected s i" using server_inv_ok [OF inv] i by (auto simp: server_ok_def slots_ok_def)
  obtain s1 w1 where "netcode_server_disconnect_all_clients cr s w = Some (s1, w1)" and "server_same s s1"
    and "sv_client_connected s1 = (\<lambda>j. sv_client_connected s j \<and> sv_client_loopback s j)"
    using runs_server_disconnect_all [OF laws inv] by (auto elim: runsE)
  note 1 = this
  have "netcode_server_stop cr s w = Some (s1\<lparr>sv_running := False, sv_max_clients := 0, sv_num_connected_clients := 0,
        sv_global_sequence := 0, sv_challenge_sequence := 0, sv_challenge_key := replicate NETCODE_KEY_BYTES 0,
        sv_connect_token_entries := netcode_connect_token_entries_reset,
        sv_encryption_manager := netcode_encryption_manager_reset\<rparr>, w1)"
    using run 1(1) by (simp add: netcode_server_stop_def)
  then show ?thesis by (rule that) (use 1(2,3) i c in \<open>simp_all add: server_same_def\<close>)
qed

text \<open>C29: a server that is stopped while a loopback client is connected loses count. The stop leaves the loopback client in its slot,
  but sets the number of connected clients to 0; the restarted server reports the client as connected and the number as 0; and the call
  that disconnects the client, which the interface asks the user to make, fails the assertion on the number. This holds for every sound
  server that runs, every loopback client of it, and every number of slots that the restarted server has room for the client in.\<close>

theorem stopped_server_forgets_loopback:
  assumes laws: "aead_laws cr" and inv: "server_inv B server w" and run: "sv_running server" and i: "sv_client_loopback server i"
    and n: "i < n" "n \<le> NETCODE_MAX_CLIENTS"
  shows "\<exists>stopped w1 started w2. netcode_server_stop cr server w = Some (stopped, w1)
    \<and> netcode_server_start cr stopped n w1 = Some (started, w2)
    \<and> netcode_server_client_connected started (int i) \<and> netcode_server_num_connected_clients started = 0
    \<and> netcode_server_disconnect_loopback_client started (int i) w2 = None"
proof -
  obtain s1 w1 where 1: "netcode_server_stop cr server w = Some (s1, w1)" "\<not> sv_running s1"
      "sv_client_connected s1 i" "sv_client_loopback s1 i"
    by (rule stop_with_loopback [OF laws inv run i])
  obtain key w2 where key: "netcode_generate_key w1 = (key, w2)" by fastforce
  let ?s = "s1\<lparr>sv_running := True, sv_max_clients := n, sv_num_connected_clients := 0, sv_challenge_sequence := 0,
      sv_challenge_key := key, sv_client_packet_queue := (\<lambda>i. if i < n then netcode_packet_queue_init else sv_client_packet_queue s1 i)\<rparr>"
  have start: "netcode_server_start cr s1 n w1 = Some (?s, w2)" using 1(2) key n by (simp add: netcode_server_start_def)
  have "queue_empty_out netcode_packet_queue_init w' = Some (netcode_packet_queue_init, w')" for w' 
    using clear_empty [of netcode_packet_queue_init "w_heap w'"] by (simp add: queue_empty_out_def netcode_packet_queue_pop_def netcode_packet_queue_init_def)
  then have "netcode_server_disconnect_loopback_client ?s (int i) w2 = None"
    using 1(3,4) n(1) by (simp add: netcode_server_disconnect_loopback_client_def slot_index_Some server_clear_slot_def c_assert_def)
  with 1(1,3) start n(1) show ?thesis
    by (intro exI [of _ s1] exI [of _ w1] exI [of _ ?s] exI [of _ w2])
      (simp add: netcode_server_client_connected_def netcode_server_num_connected_clients_def)
qed

theorem stopped_server_forgets_loopback_witness:
  "\<exists>server w. sv_running server \<and> sv_client_loopback server 0
    \<and> (\<exists>stopped w1 started w2. netcode_server_stop clear_crypto server w = Some (stopped, w1)
      \<and> netcode_server_start clear_crypto stopped 4 w1 = Some (started, w2)
      \<and> netcode_server_client_connected started 0 \<and> netcode_server_disconnect_loopback_client started 0 w2 = None)"
proof -
  obtain server w where s: "sv_running server" "sv_client_loopback server 0" "server_inv {} server w" by (rule loopback_server_run)
  from stopped_server_forgets_loopback [OF clear_crypto_laws s(3,1,2), of 4] s show ?thesis by fastforce
qed

end
