(* ===== verification/Handshake.thy ===== *)
theory Handshake
  imports Server_Protocol Client_Protocol
begin

text \<open>
  The client and the server together: the four packets that connect a client. The datagram that one side writes is read by the
  other as the packet it carries (\<open>carries\<close>); each hop of the handshake is a lemma that gives the state of the receiver and
  the datagram that it sends; \<open>handshake\<close> is their composition, over sockets, with the clocks of the two
  sides, and completes.
\<close>

section \<open>Datagrams and what they carry\<close>

definition carries :: "crypto \<Rightarrow> u64 \<Rightarrow> bytes \<Rightarrow> u64 \<Rightarrow> bytes \<Rightarrow> netcode_packet \<Rightarrow> bool" where
  "carries cr pid key n d packet \<longleftrightarrow> 1 < length d \<and> (\<forall>now pk allowed rp rp' h.
     allowed ! unat (packet_type packet) \<longrightarrow> check_replay rp (unat (packet_type packet)) n = (False, rp') \<longrightarrow>
     \<not> h_out_of_memory h (h_next h) \<longrightarrow>
     netcode_read_packet cr d (Some key) pid now pk allowed rp h
       = Some (Some (h_next h), n, rp', snd (netcode_default_allocate_function (Packet_block packet) h)))"

lemma datagram_written:
  assumes laws: "aead_laws cr" and wf: "packet_wf packet" and enc: "\<not> is_request packet"
    and key: "length key = NETCODE_KEY_BYTES" and fits: "wire_bytes packet n \<le> NETCODE_MAX_PACKET_BYTES"
  obtains d where "netcode_write_packet cr packet NETCODE_MAX_PACKET_BYTES n key pid = Some (NETCODE_OK d)"
    and "length d \<le> NETCODE_MAX_PACKET_BYTES" and "carries cr pid key n d packet"
proof -
  obtain header data c where *: "length header = netcode_sequence_number_bytes_required n"
    "header = write_sequence (netcode_sequence_number_bytes_required n) n []"
    "read_packet_data (unat (packet_type packet)) data = Some (Some packet)"
    "length data = packet_data_bytes packet" "length c = length data + NETCODE_MAC_BYTES"
    "netcode_decrypt_aead cr c (packet_additional_data pid (prefix_of packet n)) (sequence_nonce n) key
      = Some (NETCODE_OK data)"
    "netcode_write_packet cr packet NETCODE_MAX_PACKET_BYTES n key pid =
      (if wire_bytes packet n \<le> NETCODE_MAX_PACKET_BYTES then Some (NETCODE_OK (prefix_of packet n # header @ c)) else None)"
    using write_encrypted_packet_cases [OF laws wf enc key] unfolding prefix_of_def .
  let ?d = "encrypted_datagram (prefix_of packet n) n c"
  have "netcode_write_packet cr packet NETCODE_MAX_PACKET_BYTES n key pid = Some (NETCODE_OK ?d)"
    using *(7) fits by (simp add: encrypted_datagram_def *(2))
  moreover have "length ?d \<le> NETCODE_MAX_PACKET_BYTES" "1 < length ?d"
    using fits by (simp_all add: encrypted_datagram_def wire_bytes_def *(4,5))
  moreover have "netcode_read_packet cr ?d (Some key) pid now pk allowed rp h
      = Some (Some (h_next h), n, rp', snd (netcode_default_allocate_function (Packet_block packet) h))"
    if "allowed ! unat (packet_type packet)" "check_replay rp (unat (packet_type packet)) n = (False, rp')"
      "\<not> h_out_of_memory h (h_next h)" for now pk allowed rp rp' h
    using that(3) *(5) by (subst read_encrypted_datagram [OF enc that(1) _ that(2)])
      (simp_all add: *(3,6) allocate_packet_eq [OF wf] netcode_default_allocate_function_def)
  ultimately show ?thesis by (intro that [of ?d]) (auto simp: carries_def)
qed

lemma packet_written:
  assumes laws: "aead_laws cr" and wf: "packet_wf packet" and enc: "\<not> is_request packet"
    and key: "length key = NETCODE_KEY_BYTES" and small: "packet_data_bytes packet \<le> 1194"
  obtains d where "netcode_write_packet cr packet NETCODE_MAX_PACKET_BYTES n key pid = Some (NETCODE_OK d)"
    and "length d \<le> NETCODE_MAX_PACKET_BYTES" and "carries cr pid key n d packet"
  by (rule datagram_written [OF laws wf enc key small_packet_fits [OF small]])

text \<open>The world after a datagram was sent, and after a block was allocated and freed.\<close>

definition posted :: "world \<Rightarrow> netcode_socket \<Rightarrow> netcode_address \<Rightarrow> bytes \<Rightarrow> world" where
  "posted w socket a d = w\<lparr>w_sent := w_sent w @ [(so_handle socket, sockaddr_of a, d)]\<rparr>"

definition used_block :: "world \<Rightarrow> world" where
  "used_block w = w\<lparr>w_heap := (w_heap w)\<lparr>h_next := h_next (w_heap w) + 1\<rparr>\<rparr>"

lemma posted_heap [simp]: "w_heap (posted w s a d) = w_heap w" "w_timestamp (posted w s a d) = w_timestamp w"
  "w_sent (posted w s a d) = w_sent w @ [(so_handle s, sockaddr_of a, d)]"
  by (simp_all add: posted_def)

lemma socket_sends:
  "so_handle s \<noteq> 0 \<Longrightarrow> address_ok a \<Longrightarrow> d \<noteq> [] \<Longrightarrow> netcode_socket_send_packet s a d w = Some (posted w s a d)"
  using address_ok_type [of a] by (auto simp: netcode_socket_send_packet_def posted_def)

text \<open>A packet that was read into a fresh block, and is freed after it was handled.\<close>

lemma block_freed:
  assumes "heap_inv (w_heap w)" and "\<not> h_out_of_memory (w_heap w) (h_next (w_heap w))"
  shows "w_packet (h_next (w_heap w)) (w\<lparr>w_heap := snd (netcode_default_allocate_function (Packet_block p) (w_heap w))\<rparr>) = Some p"
    and "w_heap w' = snd (netcode_default_allocate_function (Packet_block p) (w_heap w)) \<Longrightarrow>
      w_free (Some (h_next (w_heap w))) w' = Some (w'\<lparr>w_heap := (w_heap w)\<lparr>h_next := h_next (w_heap w) + 1\<rparr>\<rparr>)"
proof -
  have fresh: "h_blocks (w_heap w) (h_next (w_heap w)) = None"
    using fresh_not_live [OF assms(1)] by (auto simp: live_def)
  show "w_packet (h_next (w_heap w)) (w\<lparr>w_heap := snd (netcode_default_allocate_function (Packet_block p) (w_heap w))\<rparr>) = Some p"
    using assms(2) by (simp add: w_packet_def netcode_default_allocate_function_def)
  show "w_free (Some (h_next (w_heap w))) w' = Some (w'\<lparr>w_heap := (w_heap w)\<lparr>h_next := h_next (w_heap w) + 1\<rparr>\<rparr>)"
    if "w_heap w' = snd (netcode_default_allocate_function (Packet_block p) (w_heap w))"
    using assms(2) fresh that
    by (simp add: w_free_def netcode_default_allocate_function_def netcode_default_free_function.simps(2) fun_upd_idem)
qed

section \<open>The server\<close>

text \<open>A packet from an address at which no client is connected.\<close>

lemma server_hears:
  assumes run: "sv_running s" and d: "1 < length d" and look: "server_lookup_sender s a = (e, None, s1)"
    and same: "sv_protocol_id s1 = sv_protocol_id s" "sv_private_key s1 = sv_private_key s"
    and key: "netcode_encryption_manager_get_receive_key (sv_encryption_manager s1) e = Some k" "k = None \<longrightarrow> hd d = 0"
    and heap: "heap_inv (w_heap w)" "\<not> h_out_of_memory (w_heap w) (h_next (w_heap w))"
    and read: "netcode_read_packet cr d k (sv_protocol_id s) now (Some (sv_private_key s)) server_allowed_packets None (w_heap w)
      = Some (Some (h_next (w_heap w)), n, None, snd (netcode_default_allocate_function (Packet_block packet) (w_heap w)))"
    and handled: "server_handle_packet cr s1 a packet e None
        (w\<lparr>w_heap := snd (netcode_default_allocate_function (Packet_block packet) (w_heap w))\<rparr>) = Some (s2, w2)"
      "w_heap w2 = snd (netcode_default_allocate_function (Packet_block packet) (w_heap w))"
  shows "netcode_server_read_and_process_packet cr s a d now w
    = Some (s2, w2\<lparr>w_heap := (w_heap w)\<lparr>h_next := h_next (w_heap w) + 1\<rparr>\<rparr>)"
proof -
  let ?w = "w\<lparr>w_heap := snd (netcode_default_allocate_function (Packet_block packet) (w_heap w))\<rparr>"
  have "netcode_server_process_packet cr s1 a (h_next (w_heap w)) n e None ?w
    = Some (s2, w2\<lparr>w_heap := (w_heap w)\<lparr>h_next := h_next (w_heap w) + 1\<rparr>\<rparr>)"
    using handled block_freed(1) [OF heap, of packet] block_freed(2) [OF heap handled(2)]
    by (auto simp: netcode_server_process_packet_def split: netcode_packet.split)
  with run d look same key read show ?thesis
    by (auto simp: netcode_server_read_and_process_packet_def Let_def)
qed

text \<open>A request with a token that the server accepts is answered by a challenge.\<close>

lemma challenge_sent:
  assumes laws: "aead_laws cr" and keys: "length (sv_challenge_key s) = NETCODE_KEY_BYTES"
    and sock: "\<not> sv_network_simulator s" "so_handle (sv_socket s) \<noteq> 0" and a: "address_ok a"
    and wf: "connect_token_private_wf token"
  obtains data opened d where "server_send_challenge cr s a token w
      = Some (s\<lparr>sv_challenge_sequence := sv_challenge_sequence s + 1, sv_global_sequence := sv_global_sequence s + 1\<rparr>,
          posted w (sv_socket s) a d)"
    and "carries cr (sv_protocol_id s) (ctp_server_to_client_key token) (sv_global_sequence s) d
      (CONNECTION_CHALLENGE_PACKET (sv_challenge_sequence s) data)"
    and "length data = NETCODE_CHALLENGE_TOKEN_BYTES"
    and "netcode_decrypt_challenge_token cr data (sv_challenge_sequence s) (sv_challenge_key s) = Some (NETCODE_OK opened)"
    and "netcode_read_challenge_token opened
      = Some (NETCODE_OK \<lparr>cht_client_id = ctp_client_id token, cht_user_data = ctp_user_data token\<rparr>)"
proof -
  have len: "length (ctp_user_data token) = NETCODE_USER_DATA_BYTES" "length (ctp_server_to_client_key token) = NETCODE_KEY_BYTES"
    using wf by (auto simp: connect_token_private_wf_def)
  let ?t = "\<lparr>cht_client_id = ctp_client_id token, cht_user_data = ctp_user_data token\<rparr>"
  obtain plain sealed opened where t: "netcode_write_challenge_token ?t 300 = Some plain"
    "netcode_encrypt_challenge_token cr plain (sv_challenge_sequence s) (sv_challenge_key s) = Some (NETCODE_OK sealed)"
    "length sealed = NETCODE_CHALLENGE_TOKEN_BYTES"
    "netcode_decrypt_challenge_token cr sealed (sv_challenge_sequence s) (sv_challenge_key s) = Some (NETCODE_OK opened)"
    "netcode_read_challenge_token opened = Some (NETCODE_OK ?t)"
    by (rule sealed_challenge_token [OF laws keys, of ?t "sv_challenge_sequence s"]) (use len(1) in auto)
  let ?p = "CONNECTION_CHALLENGE_PACKET (sv_challenge_sequence s) sealed"
  obtain d where d: "netcode_write_packet cr ?p NETCODE_MAX_PACKET_BYTES (sv_global_sequence s) (ctp_server_to_client_key token)
      (sv_protocol_id s) = Some (NETCODE_OK d)" "length d \<le> NETCODE_MAX_PACKET_BYTES"
    "carries cr (sv_protocol_id s) (ctp_server_to_client_key token) (sv_global_sequence s) d ?p"
    by (rule packet_written [OF laws _ _ len(2), of ?p "sv_global_sequence s" "sv_protocol_id s"]) (use t(3) in auto)
  have "d \<noteq> []" using d(3) by (auto simp: carries_def)
  then have "server_send_challenge cr s a token w
      = Some (s\<lparr>sv_challenge_sequence := sv_challenge_sequence s + 1, sv_global_sequence := sv_global_sequence s + 1\<rparr>,
          posted w (sv_socket s) a d)"
    using t d sock socket_sends [OF sock(2) a] 
    by (simp add: server_send_challenge_def netcode_server_send_global_packet_def server_transmit_def)
  then show ?thesis using that d(3) t(3-5) by blast
qed

text \<open>The conditions under which the server accepts a token: no client is connected with the address or the id, there is room,
  the token was not used from another address, and there is a mapping to spare.\<close>

definition accepts :: "netcode_server \<Rightarrow> netcode_address \<Rightarrow> bytes \<Rightarrow> connect_token_private \<Rightarrow> bool" where
  "accepts s a data token \<longleftrightarrow> sv_running s \<and> sv_flags s AND 1 = 0 \<and> sv_flags s AND push_bit 1 1 = 0 \<and> server_address_in_token s token
     \<and> netcode_server_find_client_index_by_address s a = None
     \<and> netcode_server_find_client_index_by_id s (ctp_client_id token) = None
     \<and> sv_num_connected_clients s < int (sv_max_clients s)
     \<and> (\<forall>i < NETCODE_MAX_CONNECT_TOKEN_ENTRIES.
          te_mac (sv_connect_token_entries s i) \<noteq> drop (NETCODE_CONNECT_TOKEN_PRIVATE_BYTES - NETCODE_MAC_BYTES) data)
     \<and> (\<forall>i < em_num_encryption_mappings (sv_encryption_manager s). \<not> em_matches (sv_encryption_manager s) a (sv_time s) i)
     \<and> (\<exists>i < NETCODE_MAX_ENCRYPTION_MAPPINGS. em_free (sv_encryption_manager s) (sv_time s) i)"

text \<open>The new mapping is the only one for the address.\<close>

lemma only_mapping:
  assumes ok: "em_ok em" and a: "address_ok a" and timeout: "0 < to"
    and none: "\<forall>i < em_num_encryption_mappings em. \<not> em_matches em a t i"
    and free: "\<exists>i < NETCODE_MAX_ENCRYPTION_MAPPINGS. em_free em t i"
  obtains em' e where "netcode_encryption_manager_add_encryption_mapping em a sk rk t (t + of_int to) to = (True, em')"
    and "em_slot em' t a e (sk, rk, t + of_int to, to)" and "em_last_access_time em' e = t"
    and "\<forall>j < em_num_encryption_mappings em'. j \<noteq> e \<longrightarrow> \<not> em_matches em' a t j"
proof -
  have unknown: "first_index (em_matches em a t) (em_num_encryption_mappings em) = None"
    using none by (simp add: first_index_None)
  obtain i where first: "first_index (em_free em t) NETCODE_MAX_ENCRYPTION_MAPPINGS = Some i"
    using free by (cases "first_index (em_free em t) NETCODE_MAX_ENCRYPTION_MAPPINGS") (auto simp: first_index_None)
  define em' where "em' = (em_set_entry em i sk rk t (t + of_int to) to)\<lparr>em_address := (em_address em)(i := a),
         em_num_encryption_mappings := max (i + 1) (em_num_encryption_mappings em)\<rparr>"
  from unknown first
  have add: "netcode_encryption_manager_add_encryption_mapping em a sk rk t (t + of_int to) to = (True, em')"
    by (simp add: em'_def Let_def max_def netcode_encryption_manager_add_encryption_mapping_def em_set_entry_def)
  have slot: "em_slot em' t a i (sk, rk, t + of_int to, to)"
    using timeout a by (auto simp: em_slot_def em_contents_def em_matches_def em'_def em_set_entry_def address_ok_def)
  have "\<not> em_matches em' a t j" if "j < em_num_encryption_mappings em'" "j \<noteq> i" for j
  proof -
    have same: "em_matches em' a t j = em_matches em a t j"
      using that(2) by (simp add: em_matches_def em'_def em_set_entry_def)
    show ?thesis using none em_matches_used(1) [OF ok, of a t j] unfolding same by blast
  qed
  with add slot show ?thesis by (intro that [of em' i]) (simp_all add: em'_def em_set_entry_def)
qed

lemma request_answered:
  assumes laws: "aead_laws cr" and inv: "server_inv B s w" and sock: "\<not> sv_network_simulator s" and a: "address_ok a"
    and wf: "connect_token_private_wf token" and timeout: "0 < ctp_timeout_seconds token"
    and plain: "netcode_read_connect_token_private (rq_connect_token_data rq) = Some (NETCODE_OK token)"
    and accepts: "accepts s a (rq_connect_token_data rq) token"
    and mem: "\<not> h_out_of_memory (w_heap w) (h_next (w_heap w))" and d: "1 < length d" "hd d = 0"
    and read: "\<And>k. netcode_read_packet cr d k (sv_protocol_id s) now (Some (sv_private_key s)) server_allowed_packets None (w_heap w)
      = Some (Some (h_next (w_heap w)), 0, None,
          snd (netcode_default_allocate_function (Packet_block (CONNECTION_REQUEST_PACKET rq)) (w_heap w)))"
  obtains es em e data opened d' where "netcode_server_read_and_process_packet cr s a d now w
      = Some (s\<lparr>sv_connect_token_entries := es, sv_encryption_manager := em,
          sv_challenge_sequence := sv_challenge_sequence s + 1, sv_global_sequence := sv_global_sequence s + 1\<rparr>,
        used_block (posted w (sv_socket s) a d'))"
    and "carries cr (sv_protocol_id s) (ctp_server_to_client_key token) (sv_global_sequence s) d'
      (CONNECTION_CHALLENGE_PACKET (sv_challenge_sequence s) data)"
    and "length data = NETCODE_CHALLENGE_TOKEN_BYTES"
    and "netcode_decrypt_challenge_token cr data (sv_challenge_sequence s) (sv_challenge_key s) = Some (NETCODE_OK opened)"
    and "netcode_read_challenge_token opened
      = Some (NETCODE_OK \<lparr>cht_client_id = ctp_client_id token, cht_user_data = ctp_user_data token\<rparr>)"
    and "netcode_encryption_manager_add_encryption_mapping (sv_encryption_manager s) a (ctp_server_to_client_key token)
      (ctp_client_to_server_key token) (sv_time s) (sv_time s + of_int (ctp_timeout_seconds token)) (ctp_timeout_seconds token)
      = (True, em)"
    and "em_slot em (sv_time s) a e (ctp_server_to_client_key token, ctp_client_to_server_key token,
      sv_time s + of_int (ctp_timeout_seconds token), ctp_timeout_seconds token)"
    and "em_last_access_time em e = sv_time s"
    and "\<forall>j < em_num_encryption_mappings em. j \<noteq> e \<longrightarrow> \<not> em_matches em a (sv_time s) j"
proof -
  note ok = server_inv_ok [OF inv]
  have em: "em_ok (sv_encryption_manager s)" "so_handle (sv_socket s) \<noteq> 0" "length (sv_challenge_key s) = NETCODE_KEY_BYTES"
    using ok sock by (auto simp: server_ok_def server_ready_def)
  have heap: "heap_inv (w_heap w)" using server_inv_world [OF inv] by (simp add: world_inv_def sim_inv_def)
  let ?mac = "drop (NETCODE_CONNECT_TOKEN_PRIVATE_BYTES - NETCODE_MAC_BYTES) (rq_connect_token_data rq)"
  obtain es where es: "netcode_connect_token_entries_find_or_add (sv_connect_token_entries s) a ?mac (sv_time s) = Some (True, es)"
    by (rule find_or_add_cases [of "sv_connect_token_entries s" ?mac a "sv_time s"]) (use accepts in \<open>auto simp: accepts_def\<close>)
  obtain em' e where em': "netcode_encryption_manager_add_encryption_mapping (sv_encryption_manager s) a
      (ctp_server_to_client_key token) (ctp_client_to_server_key token) (sv_time s)
      (sv_time s + of_int (ctp_timeout_seconds token)) (ctp_timeout_seconds token) = (True, em')"
    "em_slot em' (sv_time s) a e (ctp_server_to_client_key token, ctp_client_to_server_key token,
      sv_time s + of_int (ctp_timeout_seconds token), ctp_timeout_seconds token)"
    "em_last_access_time em' e = sv_time s"
    "\<forall>j < em_num_encryption_mappings em'. j \<noteq> e \<longrightarrow> \<not> em_matches em' a (sv_time s) j"
    by (rule only_mapping [OF em(1) a timeout, of "sv_time s"]) (use accepts in \<open>auto simp: accepts_def\<close>)
  let ?s = "s\<lparr>sv_connect_token_entries := es, sv_encryption_manager := em'\<rparr>"
  let ?w = "w\<lparr>w_heap := snd (netcode_default_allocate_function (Packet_block (CONNECTION_REQUEST_PACKET rq)) (w_heap w))\<rparr>"
  obtain data opened d' where ch: "server_send_challenge cr ?s a token ?w
      = Some (?s\<lparr>sv_challenge_sequence := sv_challenge_sequence s + 1, sv_global_sequence := sv_global_sequence s + 1\<rparr>,
          posted ?w (sv_socket s) a d')"
    "carries cr (sv_protocol_id s) (ctp_server_to_client_key token) (sv_global_sequence s) d'
      (CONNECTION_CHALLENGE_PACKET (sv_challenge_sequence s) data)" "length data = NETCODE_CHALLENGE_TOKEN_BYTES"
    "netcode_decrypt_challenge_token cr data (sv_challenge_sequence s) (sv_challenge_key s) = Some (NETCODE_OK opened)"
    "netcode_read_challenge_token opened
      = Some (NETCODE_OK \<lparr>cht_client_id = ctp_client_id token, cht_user_data = ctp_user_data token\<rparr>)"
    by (rule challenge_sent [OF laws _ _ _ a wf, of ?s ?w]) (use sock em in auto)
  have "netcode_server_process_connection_request_packet cr s a rq ?w
      = Some (?s\<lparr>sv_challenge_sequence := sv_challenge_sequence s + 1, sv_global_sequence := sv_global_sequence s + 1\<rparr>,
          posted ?w (sv_socket s) a d')"
    using plain accepts es em'(1) ch(1)
    by (simp add: netcode_server_process_connection_request_packet_def accepts_def Let_def)
  then have handled: "server_handle_packet cr s a (CONNECTION_REQUEST_PACKET rq) None None ?w
      = Some (?s\<lparr>sv_challenge_sequence := sv_challenge_sequence s + 1, sv_global_sequence := sv_global_sequence s + 1\<rparr>,
          posted ?w (sv_socket s) a d')"
    using accepts by (simp add: server_handle_packet_def accepts_def)
  have none: "first_index (em_matches (sv_encryption_manager s) a (sv_time s))
      (em_num_encryption_mappings (sv_encryption_manager s)) = None" using accepts by (simp add: accepts_def first_index_None)
  have look: "server_lookup_sender s a = (None, None, s)"
    using accepts none by (simp add: server_lookup_sender_def accepts_def netcode_encryption_manager_find_encryption_mapping_def)
  have "netcode_server_read_and_process_packet cr s a d now w
    = Some (?s\<lparr>sv_challenge_sequence := sv_challenge_sequence s + 1, sv_global_sequence := sv_global_sequence s + 1\<rparr>,
        (posted ?w (sv_socket s) a d')\<lparr>w_heap := (w_heap w)\<lparr>h_next := h_next (w_heap w) + 1\<rparr>\<rparr>)"
    by (rule server_hears [OF _ d(1) look _ _ _ _ heap mem read handled])
      (use accepts d in \<open>simp_all add: accepts_def netcode_encryption_manager_get_receive_key_def em_index_def\<close>)
  moreover have "(posted ?w (sv_socket s) a d')\<lparr>w_heap := (w_heap w)\<lparr>h_next := h_next (w_heap w) + 1\<rparr>\<rparr>
      = used_block (posted w (sv_socket s) a d')" by (simp add: posted_def used_block_def)
  ultimately show ?thesis using that [of em' es d' data opened e] ch(2-5) em' by simp
qed

text \<open>A response with a challenge token that the server sealed is answered by the first keep-alive: the client has joined.\<close>

lemma keep_alive_sent:
  assumes laws: "aead_laws cr" and ok: "server_ok s" and i: "remote s i" and wf: "packet_wf (keep_alive_packet s i)"
    and e: "sv_client_encryption_index s i = Some e"
    and sock: "\<not> sv_network_simulator s" "so_handle (sv_socket s) \<noteq> 0"
  obtains d where "netcode_server_send_client_packet cr s (keep_alive_packet s i) i w
      = Some (server_sent s i, posted w (sv_socket s) (sv_client_address s i) d)"
    and "carries cr (sv_protocol_id s) (em_send_key (sv_encryption_manager s) e) (sv_client_sequence s i) d (keep_alive_packet s i)"
proof -
  obtain e' d' where "sv_client_encryption_index s i = Some e'"
      "em_slot (sv_encryption_manager s) (sv_time s) (sv_client_address s i) e' d'"
    and e': "length (em_send_key (sv_encryption_manager s) e') = NETCODE_KEY_BYTES"
    and run: "\<forall>packet w. netcode_server_send_client_packet cr s packet i w =
     do { r \<leftarrow> netcode_write_packet cr packet NETCODE_MAX_PACKET_BYTES (sv_client_sequence s i)
            (em_send_key (sv_encryption_manager s) e') (sv_protocol_id s);
          c_assert (length (case r of NETCODE_OK b \<Rightarrow> b | NETCODE_ERROR \<Rightarrow> []) \<le> NETCODE_MAX_PACKET_BYTES);
          w \<leftarrow> server_transmit s (sv_client_address s i) (case r of NETCODE_OK b \<Rightarrow> b | NETCODE_ERROR \<Rightarrow> []) w;
          Some (server_sent s i, w) }"
    by (rule server_send_client_eq [OF ok i, of cr])
  then have "e' = e" using e by simp
  obtain d where d: "netcode_write_packet cr (keep_alive_packet s i) NETCODE_MAX_PACKET_BYTES (sv_client_sequence s i)
      (em_send_key (sv_encryption_manager s) e) (sv_protocol_id s) = Some (NETCODE_OK d)" "length d \<le> NETCODE_MAX_PACKET_BYTES"
    "carries cr (sv_protocol_id s) (em_send_key (sv_encryption_manager s) e) (sv_client_sequence s i) d (keep_alive_packet s i)"
    by (rule packet_written [OF laws wf _ e' [unfolded \<open>e' = e\<close>], of "sv_client_sequence s i" "sv_protocol_id s"])
      (auto simp: keep_alive_packet_def)
  have "d \<noteq> []" using d(3) by (auto simp: carries_def)
  then have "netcode_server_send_client_packet cr s (keep_alive_packet s i) i w
      = Some (server_sent s i, posted w (sv_socket s) (sv_client_address s i) d)"
    using d run \<open>e' = e\<close> sock socket_sends [OF sock(2) remotes_okD(1) [OF ok i]] by (simp add: server_transmit_def)
  with d(3) show ?thesis using that by blast
qed

lemma response_joins:
  assumes laws: "aead_laws cr" and inv: "server_inv B s w" and sock: "\<not> sv_network_simulator s" and a: "address_ok a"
    and run: "sv_running s" "sv_flags s AND push_bit 1 1 = 0"
    and none: "netcode_server_find_client_index_by_address s a = None"
      "netcode_server_find_client_index_by_id s (cht_client_id t) = None"
    and room: "sv_num_connected_clients s < int (sv_max_clients s)"
    and mapping: "em_slot (sv_encryption_manager s) (sv_time s) a e (sk, rk, ex, to)"
      "\<forall>j < em_num_encryption_mappings (sv_encryption_manager s). j \<noteq> e \<longrightarrow> \<not> em_matches (sv_encryption_manager s) a (sv_time s) j"
    and data: "netcode_decrypt_challenge_token cr data n' (sv_challenge_key s) = Some (NETCODE_OK opened)"
      "netcode_read_challenge_token opened = Some (NETCODE_OK t)"
    and mem: "\<not> h_out_of_memory (w_heap w) (h_next (w_heap w))"
    and d: "carries cr (sv_protocol_id s) rk n d (CONNECTION_RESPONSE_PACKET n' data)"
  obtains i s' w' d' where "netcode_server_read_and_process_packet cr s a d now w = Some (s', w')"
    and "netcode_server_find_free_client_index s = Some i"
    and "remote s' i" and "sv_client_id s' i = cht_client_id t" and "sv_client_address s' i = a"
    and "sv_client_user_data s' i = cht_user_data t" and "sv_client_timeout s' i = to"
    and "sv_num_connected_clients s' = sv_num_connected_clients s + 1"
    and "w_sent w' = w_sent w @ [(so_handle (sv_socket s), sockaddr_of a, d')]"
    and "carries cr (sv_protocol_id s) sk 0 d' (keep_alive_packet s i)"
proof -
  note ok = server_inv_ok [OF inv]
  have em: "em_ok (sv_encryption_manager s)" "so_handle (sv_socket s) \<noteq> 0" and slots: "slots_ok s"
    using ok sock by (auto simp: server_ok_def server_ready_def)
  have heap: "heap_inv (w_heap w)" using server_inv_world [OF inv] by (simp add: world_inv_def sim_inv_def)
  let ?w = "w\<lparr>w_heap := snd (netcode_default_allocate_function (Packet_block (CONNECTION_RESPONSE_PACKET n' data)) (w_heap w))\<rparr>"
  define s1 where "s1 = s\<lparr>sv_encryption_manager := (sv_encryption_manager s)\<lparr>em_last_access_time :=
      (em_last_access_time (sv_encryption_manager s))(e := sv_time s)\<rparr>\<rparr>"
  have e: "e < em_num_encryption_mappings (sv_encryption_manager s)" "em_matches (sv_encryption_manager s) a (sv_time s) e"
      "em_contents (sv_encryption_manager s) e = (sk, rk, ex, to)"
    using mapping(1) by (auto simp: em_slot_def)
  have "first_index (em_matches (sv_encryption_manager s) a (sv_time s)) (em_num_encryption_mappings (sv_encryption_manager s)) = Some e"
    using e mapping(2) by (auto simp: first_index_Some)
  then have find: "netcode_encryption_manager_find_encryption_mapping (sv_encryption_manager s) a (sv_time s)
      = (Some e, sv_encryption_manager s1)"
    by (simp add: netcode_encryption_manager_find_encryption_mapping_def s1_def)
  then have look: "server_lookup_sender s a = (Some e, None, s1)"
    using none by (simp add: server_lookup_sender_def s1_def)
  have same: "server_same s s1" by (simp add: s1_def server_same_def)
  have inv1: "server_inv B s1 w" by (rule server_lookup_sender_ok(1) [OF inv a look])
  have ok1: "server_ok s1" by (rule server_inv_ok [OF inv1])
  have fields: "sv_client_connected s1 = sv_client_connected s" "sv_max_clients s1 = sv_max_clients s"
      "sv_socket s1 = sv_socket s" "sv_network_simulator s1 = sv_network_simulator s" "sv_time s1 = sv_time s"
      "sv_num_connected_clients s1 = sv_num_connected_clients s" "sv_protocol_id s1 = sv_protocol_id s"
      "sv_challenge_key s1 = sv_challenge_key s" "sv_flags s1 = sv_flags s" "sv_private_key s1 = sv_private_key s"
    by (simp_all add: s1_def)
  have none1: "netcode_server_find_client_index_by_address s1 a = None"
      "netcode_server_find_client_index_by_id s1 (cht_client_id t) = None"
      "netcode_server_find_free_client_index s1 = netcode_server_find_free_client_index s"
    using none by (auto simp: s1_def netcode_server_find_client_index_by_address_def netcode_server_find_client_index_by_id_def
        netcode_server_find_free_client_index_def split: if_splits)
  obtain i where i: "netcode_server_find_free_client_index s = Some i" "i < sv_max_clients s" "\<not> sv_client_connected s i"
    by (rule free_client_index [OF slots]) (use room in auto)
  have new: "sv_client_address s1 x \<noteq> a \<and> sv_client_id s1 x \<noteq> cht_client_id t" if "remote s1 x" for x
    using not_found_by_address [OF ok1 a none1(1) that] not_found_by_id [OF ok1 none1(2) that] by simp
  have e1: "em_slot (sv_encryption_manager s1) (sv_time s1) a e (sk, rk, ex, to)"
      "em_last_access_time (sv_encryption_manager s1) e = sv_time s1"
    using em_find_keeps [of "sv_encryption_manager s" a "sv_time s" a e] mapping(1) find by (simp_all add: s1_def)
  let ?j = "server_joined s1 i a (cht_client_id t) e to (cht_user_data t)"
  have i1: "\<not> sv_client_connected s1 i" "i < sv_max_clients s1" using i by (simp_all add: fields)
  note joined = connect_client_joined [OF inv1 i1 a new e1, where user = "cht_user_data t"]
  have jf: "sv_client_address ?j i = a" "sv_client_encryption_index ?j i = Some e" "sv_network_simulator ?j = sv_network_simulator s"
      "sv_socket ?j = sv_socket s" "sv_protocol_id ?j = sv_protocol_id s" "sv_client_sequence ?j i = 0"
      "em_send_key (sv_encryption_manager ?j) e = sk" "keep_alive_packet ?j i = keep_alive_packet s i"
      "sv_client_id ?j i = cht_client_id t" "sv_client_user_data ?j i = cht_user_data t" "sv_client_timeout ?j i = to"
      "sv_num_connected_clients ?j = sv_num_connected_clients s + 1"
    using e(3) by (simp_all add: server_joined_def server_fill_slot_def fields keep_alive_packet_def em_contents_def)
      (simp_all add: s1_def)
  obtain d' where sent: "netcode_server_send_client_packet cr ?j (keep_alive_packet ?j i) i ?w
      = Some (server_sent ?j i, posted ?w (sv_socket s) a d')"
    and d': "carries cr (sv_protocol_id s) sk 0 d' (keep_alive_packet s i)"
    using keep_alive_sent [OF laws server_inv_ok [OF joined(1)] joined(2,4), of e ?w] sock em(2) jf by metis
  define w2 where "w2 = server_log_callback (server_sent ?j i) i True (posted ?w (sv_socket s) a d')"
  have keys: "netcode_encryption_manager_get_send_key (sv_encryption_manager s1) (Some e) = Some (Some sk)"
      "netcode_encryption_manager_get_timeout (sv_encryption_manager s1) (Some e) = Some to"
      "netcode_encryption_manager_get_receive_key (sv_encryption_manager s1) (Some e) = Some (Some rk)"
    using e(1,3) by (simp_all add: s1_def netcode_encryption_manager_get_send_key_def netcode_encryption_manager_get_timeout_def
        netcode_encryption_manager_get_receive_key_def em_index_def em_contents_def)
  have "netcode_server_process_connection_response_packet cr s1 a n' data (Some e) ?w = Some (server_sent ?j i, w2)"
    using data keys none1 room i(1) sent joined(5)
    by (simp add: netcode_server_process_connection_response_packet_def fields w2_def)
  then have handled: "server_handle_packet cr s1 a (CONNECTION_RESPONSE_PACKET n' data) (Some e) None ?w
      = Some (server_sent ?j i, w2)" using run by (simp add: server_handle_packet_def fields)
  have w2: "w_heap w2 = w_heap ?w" "w_sent w2 = w_sent w @ [(so_handle (sv_socket s), sockaddr_of a, d')]"
    by (simp_all add: w2_def server_log_callback_def posted_def split: option.split)
  have read: "netcode_read_packet cr d (Some rk) (sv_protocol_id s) now (Some (sv_private_key s)) server_allowed_packets None (w_heap w)
      = Some (Some (h_next (w_heap w)), n, None,
          snd (netcode_default_allocate_function (Packet_block (CONNECTION_RESPONSE_PACKET n' data)) (w_heap w)))"
    using d mem by (simp add: carries_def server_allowed_packets_def check_replay_def)
  have "1 < length d" using d by (simp add: carries_def)
  have hears: "netcode_server_read_and_process_packet cr s a d now w
    = Some (server_sent ?j i, w2\<lparr>w_heap := (w_heap w)\<lparr>h_next := h_next (w_heap w) + 1\<rparr>\<rparr>)"
    by (rule server_hears [OF run(1) \<open>1 < length d\<close> look fields(7,10) keys(3) _ heap mem read handled]) (simp_all add: w2)
  have rem: "remote (server_sent ?j i) i" using joined(2) by simp
  show ?thesis
    by (rule that [OF hears i(1) rem _ _ _ _ _ _ d']) (simp_all add: server_sent_def jf w2)
qed

section \<open>The client\<close>

text \<open>The body of the receive loop, for one datagram.\<close>

definition client_hears ::
    "crypto \<Rightarrow> netcode_client \<Rightarrow> netcode_address \<Rightarrow> bytes \<Rightarrow> world \<Rightarrow> (netcode_client \<times> world) option" where
  "client_hears cr client from_addr packet_data w =
     do { ((ptr, sequence), client, w) \<leftarrow> client_read_packet cr (w_timestamp w) packet_data client w;
          (case ptr of
             None \<Rightarrow> Some (client, w)
           | Some ptr \<Rightarrow> netcode_client_process_packet client from_addr ptr sequence w) }"

lemma client_hears_packet:
  assumes d: "carries cr (ct_protocol_id (cl_connect_token c)) (cx_read_packet_key (cl_context c)) n d packet"
    and allowed: "client_allowed_packets ! unat (packet_type packet)"
    and replay: "check_replay (Some (cl_replay_protection c)) (unat (packet_type packet)) n = (False, Some rp)"
    and heap: "heap_inv (w_heap w)" "\<not> h_out_of_memory (w_heap w) (h_next (w_heap w))"
    and handled: "client_handle_packet (c\<lparr>cl_replay_protection := rp\<rparr>) a packet
        (w\<lparr>w_heap := snd (netcode_default_allocate_function (Packet_block packet) (w_heap w))\<rparr>) = Some (c2, w2)"
      "w_heap w2 = snd (netcode_default_allocate_function (Packet_block packet) (w_heap w))"
  shows "client_hears cr c a d w = Some (c2, w2\<lparr>w_heap := (w_heap w)\<lparr>h_next := h_next (w_heap w) + 1\<rparr>\<rparr>)"
proof -
  have "netcode_read_packet cr d (Some (cx_read_packet_key (cl_context c))) (ct_protocol_id (cl_connect_token c)) (w_timestamp w) None
      client_allowed_packets (Some (cl_replay_protection c)) (w_heap w)
    = Some (Some (h_next (w_heap w)), n, Some rp, snd (netcode_default_allocate_function (Packet_block packet) (w_heap w)))"
    using d allowed replay heap(2) by (simp add: carries_def)
  then show ?thesis
    using handled block_freed(1) [OF heap, of packet] block_freed(2) [OF heap handled(2)]
    by (simp add: client_hears_def client_read_packet_def netcode_client_process_packet_def)
qed

text \<open>A client whose packets go to a socket.\<close>

definition on_socket :: "netcode_client \<Rightarrow> bool" where
  "on_socket c \<longleftrightarrow> \<not> cl_loopback c \<and> \<not> cl_network_simulator c \<and> so_handle (cl_socket c) \<noteq> 0 \<and> address_ok (cl_server_address c)"

lemma client_posts:
  assumes sock: "on_socket c" and d: "netcode_write_packet cr packet NETCODE_MAX_PACKET_BYTES (cl_sequence c)
       (cx_write_packet_key (cl_context c)) (ct_protocol_id (cl_connect_token c)) = Some (NETCODE_OK d)"
    "d \<noteq> []" "length d \<le> NETCODE_MAX_PACKET_BYTES"
  shows "netcode_client_send_packet_to_server_internal cr c packet w
    = Some (c\<lparr>cl_sequence := cl_sequence c + 1, cl_last_packet_send_time := cl_time c\<rparr>,
        posted w (cl_socket c) (cl_server_address c) d)"
  using assms socket_sends [of "cl_socket c" "cl_server_address c" d w]
  by (simp add: netcode_client_send_packet_to_server_internal_def on_socket_def client_transmit_def)

text \<open>A client that sends the response to a challenge.\<close>

lemma response_sent:
  assumes laws: "aead_laws cr" and sock: "on_socket c" and key: "length (cx_write_packet_key (cl_context c)) = NETCODE_KEY_BYTES"
    and state: "cl_state c = NETCODE_CLIENT_STATE_SENDING_CONNECTION_RESPONSE"
    and due: "cl_last_packet_send_time c + 1 / NETCODE_PACKET_SEND_RATE < cl_time c"
    and data: "length (cl_challenge_token_data c) = NETCODE_CHALLENGE_TOKEN_BYTES"
  obtains d where "netcode_client_send_packets cr c w
      = Some (c\<lparr>cl_sequence := cl_sequence c + 1, cl_last_packet_send_time := cl_time c\<rparr>,
          posted w (cl_socket c) (cl_server_address c) d)"
    and "carries cr (ct_protocol_id (cl_connect_token c)) (cx_write_packet_key (cl_context c)) (cl_sequence c) d
      (CONNECTION_RESPONSE_PACKET (cl_challenge_token_sequence c) (cl_challenge_token_data c))"
proof -
  let ?p = "CONNECTION_RESPONSE_PACKET (cl_challenge_token_sequence c) (cl_challenge_token_data c)"
  obtain d where d: "netcode_write_packet cr ?p NETCODE_MAX_PACKET_BYTES (cl_sequence c) (cx_write_packet_key (cl_context c))
      (ct_protocol_id (cl_connect_token c)) = Some (NETCODE_OK d)" "length d \<le> NETCODE_MAX_PACKET_BYTES"
    "carries cr (ct_protocol_id (cl_connect_token c)) (cx_write_packet_key (cl_context c)) (cl_sequence c) d ?p"
    by (rule packet_written [OF laws _ _ key, of ?p "cl_sequence c" "ct_protocol_id (cl_connect_token c)"]) (use data in auto)
  have "d \<noteq> []" using d(3) by (auto simp: carries_def)
  from client_posts [OF sock d(1) this d(2)] sock state due
  have "netcode_client_send_packets cr c w
      = Some (c\<lparr>cl_sequence := cl_sequence c + 1, cl_last_packet_send_time := cl_time c\<rparr>,
          posted w (cl_socket c) (cl_server_address c) d)"
    by (simp add: netcode_client_send_packets_def on_socket_def not_le [symmetric])
  with d(3) show ?thesis using that by blast
qed

text \<open>The private token that the client was given, as the server opens it.\<close>

definition token_opens :: "crypto \<Rightarrow> netcode_client \<Rightarrow> bytes \<Rightarrow> bytes \<Rightarrow> connect_token_private \<Rightarrow> bool" where
  "token_opens cr c private_key opened token \<longleftrightarrow>
     length (ct_private_data (cl_connect_token c)) = NETCODE_CONNECT_TOKEN_PRIVATE_BYTES
     \<and> netcode_decrypt_connect_token_private cr (ct_private_data (cl_connect_token c)) NETCODE_VERSION_INFO
         (ct_protocol_id (cl_connect_token c)) (ct_expire_timestamp (cl_connect_token c)) (ct_sequence (cl_connect_token c))
         private_key = Some (NETCODE_OK opened)
     \<and> length opened = NETCODE_CONNECT_TOKEN_PRIVATE_BYTES
     \<and> netcode_read_connect_token_private opened = Some (NETCODE_OK token)
     \<and> cx_write_packet_key (cl_context c) = ctp_client_to_server_key token
     \<and> cx_read_packet_key (cl_context c) = ctp_server_to_client_key token"

definition opened_request :: "netcode_client \<Rightarrow> bytes \<Rightarrow> connection_request_packet" where
  "opened_request c opened = \<lparr>rq_version_info = NETCODE_VERSION_INFO,
     rq_protocol_id = ct_protocol_id (cl_connect_token c),
     rq_connect_token_expire_timestamp = ct_expire_timestamp (cl_connect_token c),
     rq_connect_token_sequence = ct_sequence (cl_connect_token c), rq_connect_token_data = opened\<rparr>"

lemma request_sent:
  assumes sock: "on_socket c" and state: "cl_state c = NETCODE_CLIENT_STATE_SENDING_CONNECTION_REQUEST"
    and due: "cl_last_packet_send_time c + 1 / NETCODE_PACKET_SEND_RATE < cl_time c"
    and token: "token_opens cr c private_key opened token" and now: "now < ct_expire_timestamp (cl_connect_token c)"
    and mem: "\<not> h_out_of_memory h (h_next h)"
  obtains d where "netcode_client_send_packets cr c w
      = Some (c\<lparr>cl_sequence := cl_sequence c + 1, cl_last_packet_send_time := cl_time c\<rparr>,
          posted w (cl_socket c) (cl_server_address c) d)"
    and "1 < length d" and "hd d = 0"
    and "\<And>k. netcode_read_packet cr d k (ct_protocol_id (cl_connect_token c)) now (Some private_key) server_allowed_packets None h
      = Some (Some (h_next h), 0, None,
          snd (netcode_default_allocate_function (Packet_block (CONNECTION_REQUEST_PACKET (opened_request c opened))) h))"
proof -
  note t = token [unfolded token_opens_def]
  let ?d = "0 # NETCODE_VERSION_INFO @ netcode_write_uint64 [] (ct_protocol_id (cl_connect_token c))
    @ netcode_write_uint64 [] (ct_expire_timestamp (cl_connect_token c))
    @ netcode_write_uint64 [] (ct_sequence (cl_connect_token c)) @ ct_private_data (cl_connect_token c)"
  have w: "netcode_write_packet cr (client_request_packet c) NETCODE_MAX_PACKET_BYTES n k pid = Some (NETCODE_OK ?d)" for n k pid
    using t by (simp add: client_request_packet_def netcode_write_packet_def write_connection_request_packet_def wire_simps Let_def
        netcode_write_uint8_def)
  have len: "length ?d = 1062" using t by simp
  have read: "netcode_read_packet cr ?d k (ct_protocol_id (cl_connect_token c)) now (Some private_key) server_allowed_packets None h
      = Some (Some (h_next h), 0, None,
          snd (netcode_default_allocate_function (Packet_block (CONNECTION_REQUEST_PACKET (opened_request c opened))) h))" for k
  proof -
    obtain b where "netcode_write_packet cr (client_request_packet c) NETCODE_MAX_PACKET_BYTES 0 [] 0 = Some (NETCODE_OK b)"
      "netcode_read_packet cr b k (ct_protocol_id (cl_connect_token c)) now (Some private_key) server_allowed_packets None h =
        (let (ptr, h) = netcode_default_allocate_function (Packet_block (CONNECTION_REQUEST_PACKET (opened_request c opened))) h
         in Some (ptr, 0, None, h))"
      unfolding client_request_packet_def opened_request_def
      by (rule read_request_datagram [of "ct_private_data (cl_connect_token c)" now "ct_expire_timestamp (cl_connect_token c)" cr
            "ct_protocol_id (cl_connect_token c)" "ct_sequence (cl_connect_token c)" private_key opened server_allowed_packets
            NETCODE_MAX_PACKET_BYTES cr 0 "[]" 0 k None h])
        (use t now in \<open>simp_all add: server_allowed_packets_def\<close>)
    with w mem show ?thesis by (simp add: netcode_default_allocate_function_def)
  qed
  have d: "?d \<noteq> []" "length ?d \<le> NETCODE_MAX_PACKET_BYTES" using len by simp_all
  from client_posts [OF sock w d] sock state due
  have "netcode_client_send_packets cr c w
      = Some (c\<lparr>cl_sequence := cl_sequence c + 1, cl_last_packet_send_time := cl_time c\<rparr>,
          posted w (cl_socket c) (cl_server_address c) ?d)"
    by (simp add: netcode_client_send_packets_def on_socket_def not_le [symmetric])
  then show ?thesis by (rule that) (use read len in simp_all)
qed

text \<open>The client hears the challenge, and the first keep-alive.\<close>

lemma challenge_heard:
  assumes d: "carries cr (ct_protocol_id (cl_connect_token c)) (cx_read_packet_key (cl_context c)) n d
      (CONNECTION_CHALLENGE_PACKET n' data)"
    and state: "cl_state c = NETCODE_CLIENT_STATE_SENDING_CONNECTION_REQUEST" and a: "address_ok (cl_server_address c)"
    and heap: "heap_inv (w_heap w)" "\<not> h_out_of_memory (w_heap w) (h_next (w_heap w))"
  obtains w' where "client_hears cr c (cl_server_address c) d w
      = Some (c\<lparr>cl_challenge_token_sequence := n', cl_challenge_token_data := data,
          cl_last_packet_receive_time := cl_time c, cl_state := NETCODE_CLIENT_STATE_SENDING_CONNECTION_RESPONSE\<rparr>, w')"
    and "w_heap w' = (w_heap w)\<lparr>h_next := h_next (w_heap w) + 1\<rparr>"
proof -
  let ?p = "CONNECTION_CHALLENGE_PACKET n' data"
  let ?w = "w\<lparr>w_heap := snd (netcode_default_allocate_function (Packet_block ?p) (w_heap w))\<rparr>"
  let ?c = "c\<lparr>cl_challenge_token_sequence := n', cl_challenge_token_data := data, cl_last_packet_receive_time := cl_time c\<rparr>"
  obtain c2 w2 where c2: "netcode_client_set_state ?c NETCODE_CLIENT_STATE_SENDING_CONNECTION_RESPONSE ?w = (c2, w2)" by fastforce
  then have c2': "c2 = ?c\<lparr>cl_state := NETCODE_CLIENT_STATE_SENDING_CONNECTION_RESPONSE\<rparr>" "w_heap w2 = w_heap ?w"
    by (auto simp: netcode_client_set_state_def split: option.splits)
  have "client_handle_packet (c\<lparr>cl_replay_protection := cl_replay_protection c\<rparr>) (cl_server_address c) ?p ?w = Some (c2, w2)"
    using state a c2 by (simp add: client_handle_packet_def address_ok_def Let_def)
  from client_hears_packet [OF d _ _ heap this] c2'
  have "client_hears cr c (cl_server_address c) d w
    = Some (?c\<lparr>cl_state := NETCODE_CLIENT_STATE_SENDING_CONNECTION_RESPONSE\<rparr>,
        w2\<lparr>w_heap := (w_heap w)\<lparr>h_next := h_next (w_heap w) + 1\<rparr>\<rparr>)"
    by (simp add: client_allowed_packets_def check_replay_def)
  then show ?thesis by (rule that) simp
qed

lemma keep_alive_heard:
  assumes d: "carries cr (ct_protocol_id (cl_connect_token c)) (cx_read_packet_key (cl_context c)) n d
      (CONNECTION_KEEP_ALIVE_PACKET client_index max_clients)"
    and state: "cl_state c = NETCODE_CLIENT_STATE_SENDING_CONNECTION_RESPONSE" and a: "address_ok (cl_server_address c)"
    and replay: "check_replay (Some (cl_replay_protection c)) 4 n = (False, Some rp)"
    and heap: "heap_inv (w_heap w)" "\<not> h_out_of_memory (w_heap w) (h_next (w_heap w))"
  obtains w' where "client_hears cr c (cl_server_address c) d w
      = Some (c\<lparr>cl_replay_protection := rp, cl_last_packet_receive_time := cl_time c, cl_client_index := client_index,
          cl_max_clients := max_clients, cl_state := NETCODE_CLIENT_STATE_CONNECTED\<rparr>, w')"
proof -
  let ?p = "CONNECTION_KEEP_ALIVE_PACKET client_index max_clients"
  let ?w = "w\<lparr>w_heap := snd (netcode_default_allocate_function (Packet_block ?p) (w_heap w))\<rparr>"
  let ?c = "c\<lparr>cl_replay_protection := rp, cl_last_packet_receive_time := cl_time c, cl_client_index := client_index,
          cl_max_clients := max_clients\<rparr>"
  obtain c2 w2 where c2: "netcode_client_set_state ?c NETCODE_CLIENT_STATE_CONNECTED ?w = (c2, w2)" by fastforce
  then have c2': "c2 = ?c\<lparr>cl_state := NETCODE_CLIENT_STATE_CONNECTED\<rparr>" "w_heap w2 = w_heap ?w"
    by (auto simp: netcode_client_set_state_def split: option.splits)
  have "client_handle_packet (c\<lparr>cl_replay_protection := rp\<rparr>) (cl_server_address c) ?p ?w = Some (c2, w2)"
    using state a c2 by (simp add: client_handle_packet_def address_ok_def Let_def)
  from client_hears_packet [OF d _ _ heap this] c2' replay show ?thesis
    by (intro that) (simp_all add: client_allowed_packets_def)
qed

section \<open>The handshake\<close>

text \<open>The four packets, each read from the datagram that was sent last, with the clocks of the two sides.\<close>

definition last_datagram :: "world \<Rightarrow> bytes" where
  "last_datagram w = snd (snd (last (w_sent w)))"

definition handshake ::
    "crypto \<Rightarrow> netcode_address \<Rightarrow> dbl \<Rightarrow> dbl \<Rightarrow> dbl \<Rightarrow> (netcode_client \<times> world) \<times> (netcode_server \<times> world) \<Rightarrow>
     ((netcode_client \<times> world) \<times> (netcode_server \<times> world)) option" where
  "handshake cr client_address t1 t2 u = (\<lambda>((c, cw), (s, sw)).
     do { let server_address = cl_server_address c;
          (c, cw) \<leftarrow> netcode_client_send_packets cr (c\<lparr>cl_time := t1\<rparr>) cw;
          (s, sw) \<leftarrow> netcode_server_read_and_process_packet cr s client_address (last_datagram cw) (w_timestamp sw) sw;
          (c, cw) \<leftarrow> client_hears cr c server_address (last_datagram sw) cw;
          (c, cw) \<leftarrow> netcode_client_send_packets cr (c\<lparr>cl_time := t2\<rparr>) cw;
          (s, sw) \<leftarrow> netcode_server_read_and_process_packet cr (s\<lparr>sv_time := u\<rparr>) client_address (last_datagram cw)
                       (w_timestamp sw) sw;
          (c, cw) \<leftarrow> client_hears cr c server_address (last_datagram sw) cw;
          Some ((c, cw), (s, sw)) })"

lemma em_matches_earlier: "em_matches em a t' i \<Longrightarrow> t \<le> t' \<Longrightarrow> em_matches em a t i"
  by (auto simp: em_matches_def split: if_splits)

lemma first_packet_kept:
  "\<exists>rp. check_replay (Some netcode_replay_protection_reset) type 0 = (False, Some rp)"
  using first_packet_fresh [of 0 type] by (auto simp: check_replay_def split: if_splits prod.splits)

text \<open>What the server has to do with the response, after the request was answered and its clock has moved on.\<close>

lemma response_after_challenge:
  assumes laws: "aead_laws cr" and inv: "server_inv B s w" and sock: "\<not> sv_network_simulator s" and a: "address_ok a"
    and accepts: "accepts s a data token" and timeout: "0 < ctp_timeout_seconds token"
    and later: "sv_time s \<le> u" "u \<le> sv_time s + of_int (ctp_timeout_seconds token)" and alive: "server_alive u s"
    and s1: "s1 = s\<lparr>sv_connect_token_entries := es, sv_encryption_manager := em,
        sv_challenge_sequence := c, sv_global_sequence := g\<rparr>" and inv1: "server_inv B s1 w1"
    and slot: "em_slot em (sv_time s) a e (sk, rk, sv_time s + of_int (ctp_timeout_seconds token), ctp_timeout_seconds token)"
      "em_last_access_time em e = sv_time s"
      "\<forall>j < em_num_encryption_mappings em. j \<noteq> e \<longrightarrow> \<not> em_matches em a (sv_time s) j"
    and challenge: "netcode_decrypt_challenge_token cr cdata n' (sv_challenge_key s) = Some (NETCODE_OK opened)"
      "netcode_read_challenge_token opened
        = Some (NETCODE_OK \<lparr>cht_client_id = ctp_client_id token, cht_user_data = ctp_user_data token\<rparr>)"
    and mem: "\<not> h_out_of_memory (w_heap w1) (h_next (w_heap w1))"
    and d: "carries cr (sv_protocol_id s) rk n d (CONNECTION_RESPONSE_PACKET n' cdata)"
  obtains i s' w' d' where "netcode_server_read_and_process_packet cr (s1\<lparr>sv_time := u\<rparr>) a d now w1 = Some (s', w')"
    and "netcode_server_find_free_client_index s = Some i"
    and "remote s' i" and "sv_client_id s' i = ctp_client_id token" and "sv_client_address s' i = a"
    and "sv_client_user_data s' i = ctp_user_data token" and "sv_client_timeout s' i = ctp_timeout_seconds token"
    and "sv_num_connected_clients s' = sv_num_connected_clients s + 1"
    and "w_sent w' = w_sent w1 @ [(so_handle (sv_socket s), sockaddr_of a, d')]"
    and "carries cr (sv_protocol_id s) sk 0 d' (keep_alive_packet s i)"
proof -
  let ?s = "s1\<lparr>sv_time := u\<rparr>"
  have "server_alive u s1" using alive by (simp add: s1 server_alive_def remote_def)
  then have inv2: "server_inv B ?s w1" by (rule server_inv_time [OF inv1])
  have same: "sv_running ?s = sv_running s" "sv_flags ?s = sv_flags s" "sv_network_simulator ?s = sv_network_simulator s"
      "sv_num_connected_clients ?s = sv_num_connected_clients s" "sv_max_clients ?s = sv_max_clients s"
      "sv_challenge_key ?s = sv_challenge_key s" "sv_protocol_id ?s = sv_protocol_id s" "sv_socket ?s = sv_socket s"
      "sv_encryption_manager ?s = em" "sv_time ?s = u" "keep_alive_packet ?s = keep_alive_packet s"
    by (simp_all add: s1 keep_alive_packet_def fun_eq_iff)
  have find: "netcode_server_find_client_index_by_address ?s x = netcode_server_find_client_index_by_address s x"
      "netcode_server_find_client_index_by_id ?s y = netcode_server_find_client_index_by_id s y"
      "netcode_server_find_free_client_index ?s = netcode_server_find_free_client_index s" for x y
    by (simp_all add: s1 netcode_server_find_client_index_by_address_def netcode_server_find_client_index_by_id_def
        netcode_server_find_free_client_index_def)
  have e: "em_slot em u a e (sk, rk, sv_time s + of_int (ctp_timeout_seconds token), ctp_timeout_seconds token)"
    using slot(1,2) later timeout by (auto simp: em_slot_def em_matches_def em_contents_def split: if_splits)
  have only: "\<forall>j < em_num_encryption_mappings em. j \<noteq> e \<longrightarrow> \<not> em_matches em a u j"
    using slot(3) em_matches_earlier [OF _ later(1)] by blast
  show ?thesis
    by (rule response_joins [OF laws inv2 _ a, of "\<lparr>cht_client_id = ctp_client_id token, cht_user_data = ctp_user_data token\<rparr>" e sk rk
          "sv_time s + of_int (ctp_timeout_seconds token)" "ctp_timeout_seconds token" cdata n' opened n d now])
      (use sock accepts e only challenge mem d that in \<open>simp_all add: same find accepts_def\<close>)
qed

lemma used_block_simps [simp]: "w_heap (used_block w) = (w_heap w)\<lparr>h_next := h_next (w_heap w) + 1\<rparr>"
  "w_sent (used_block w) = w_sent w" "w_timestamp (used_block w) = w_timestamp w"
  by (simp_all add: used_block_def)

lemma last_datagram_posted [simp]: "last_datagram (posted w s a d) = d" "last_datagram (used_block w) = last_datagram w"
  by (simp_all add: last_datagram_def)

lemma heap_inv_next: "heap_inv h \<Longrightarrow> heap_inv (h\<lparr>h_next := h_next h + 1\<rparr>)"
  by (auto simp: heap_inv_def live_def less_Suc_eq)

lemma private_token_wf:
  "netcode_read_connect_token_private b = Some (NETCODE_OK t) \<Longrightarrow> length b = NETCODE_CONNECT_TOKEN_PRIVATE_BYTES \<Longrightarrow>
   connect_token_private_wf t"
  using runs_SomeD [OF runs_read_private, of b "NETCODE_OK t"] by simp

lemma handshake_runs:
  assumes laws: "aead_laws cr" and server: "server_inv B s sw" "\<not> sv_network_simulator s" "server_alive u s"
    and accepts: "accepts s a opened token" and a: "address_ok a"
    and client: "on_socket c" "cl_state c = NETCODE_CLIENT_STATE_SENDING_CONNECTION_REQUEST"
      "cl_replay_protection c = netcode_replay_protection_reset" "ct_protocol_id (cl_connect_token c) = sv_protocol_id s"
    and token: "token_opens cr c (sv_private_key s) opened token" "0 < ctp_timeout_seconds token"
      "w_timestamp sw < ct_expire_timestamp (cl_connect_token c)"
    and mem: "heap_inv (w_heap cw)" "\<forall>n. \<not> h_out_of_memory (w_heap cw) n" "\<forall>n. \<not> h_out_of_memory (w_heap sw) n"
    and times: "cl_last_packet_send_time c + 1 / NETCODE_PACKET_SEND_RATE < t1" "t1 + 1 / NETCODE_PACKET_SEND_RATE < t2"
      "sv_time s \<le> u" "u \<le> sv_time s + of_int (ctp_timeout_seconds token)"
  shows "\<exists>c' cw' s' sw' i. handshake cr a t1 t2 u ((c, cw), (s, sw)) = Some ((c', cw'), (s', sw'))
    \<and> cl_state c' = NETCODE_CLIENT_STATE_CONNECTED
    \<and> cl_client_index c' = int i \<and> cl_max_clients c' = int (sv_max_clients s)
    \<and> netcode_server_find_free_client_index s = Some i \<and> remote s' i
    \<and> sv_num_connected_clients s' = sv_num_connected_clients s + 1
    \<and> sv_client_id s' i = ctp_client_id token \<and> sv_client_address s' i = a
    \<and> sv_client_user_data s' i = ctp_user_data token \<and> sv_client_timeout s' i = ctp_timeout_seconds token
    \<and> (\<exists>d2 d4 data. w_sent sw' = w_sent sw @ [(so_handle (sv_socket s), sockaddr_of a, d2), (so_handle (sv_socket s), sockaddr_of a, d4)]
        \<and> carries cr (sv_protocol_id s) (ctp_server_to_client_key token) (sv_global_sequence s) d2
            (CONNECTION_CHALLENGE_PACKET (sv_challenge_sequence s) data)
        \<and> carries cr (sv_protocol_id s) (ctp_server_to_client_key token) 0 d4
            (CONNECTION_KEEP_ALIVE_PACKET (int i) (int (sv_max_clients s))))"
proof -
  note opens = token(1) [unfolded token_opens_def]
  have wf: "connect_token_private_wf token" using opens private_token_wf by blast
  then have keys: "length (ctp_client_to_server_key token) = NETCODE_KEY_BYTES" by (simp add: connect_token_private_wf_def)
  let ?A = "cl_server_address c"
  let ?c = "c\<lparr>cl_time := t1\<rparr>"
  have c: "on_socket ?c" "token_opens cr ?c (sv_private_key s) opened token"
    using client(1) token(1) by (simp_all add: on_socket_def token_opens_def)
  obtain d1 where 1: "netcode_client_send_packets cr ?c cw
      = Some (?c\<lparr>cl_sequence := cl_sequence c + 1, cl_last_packet_send_time := t1\<rparr>, posted cw (cl_socket c) ?A d1)"
    "1 < length d1" "hd d1 = 0"
    "\<And>k. netcode_read_packet cr d1 k (sv_protocol_id s) (w_timestamp sw) (Some (sv_private_key s)) server_allowed_packets None (w_heap sw)
      = Some (Some (h_next (w_heap sw)), 0, None, snd (netcode_default_allocate_function
          (Packet_block (CONNECTION_REQUEST_PACKET (opened_request c opened))) (w_heap sw)))"
    by (rule request_sent [OF c(1) _ _ c(2), of "w_timestamp sw" "w_heap sw" cw])
      (use client times token mem in \<open>simp_all add: opened_request_def\<close>)
  have rq: "rq_connect_token_data (opened_request c opened) = opened" by (simp add: opened_request_def)
  obtain es em e data sealed d2 where 2: "netcode_server_read_and_process_packet cr s a d1 (w_timestamp sw) sw
      = Some (s\<lparr>sv_connect_token_entries := es, sv_encryption_manager := em,
          sv_challenge_sequence := sv_challenge_sequence s + 1, sv_global_sequence := sv_global_sequence s + 1\<rparr>,
        used_block (posted sw (sv_socket s) a d2))" (is "_ = Some (?s1, ?sw1)")
    "carries cr (sv_protocol_id s) (ctp_server_to_client_key token) (sv_global_sequence s) d2
      (CONNECTION_CHALLENGE_PACKET (sv_challenge_sequence s) data)"
    "length data = NETCODE_CHALLENGE_TOKEN_BYTES"
    and challenge: "netcode_decrypt_challenge_token cr data (sv_challenge_sequence s) (sv_challenge_key s) = Some (NETCODE_OK sealed)"
    "netcode_read_challenge_token sealed
      = Some (NETCODE_OK \<lparr>cht_client_id = ctp_client_id token, cht_user_data = ctp_user_data token\<rparr>)"
    and slot: "em_slot em (sv_time s) a e (ctp_server_to_client_key token, ctp_client_to_server_key token,
      sv_time s + of_int (ctp_timeout_seconds token), ctp_timeout_seconds token)"
    "em_last_access_time em e = sv_time s"
    "\<forall>j < em_num_encryption_mappings em. j \<noteq> e \<longrightarrow> \<not> em_matches em a (sv_time s) j"
    by (rule request_answered [OF laws server(1,2) a wf token(2), of "opened_request c opened" d1 "w_timestamp sw"])
      (use opens accepts mem 1 in \<open>simp_all add: rq\<close>)
  let ?c1 = "?c\<lparr>cl_sequence := cl_sequence c + 1, cl_last_packet_send_time := t1\<rparr>"
  let ?c2 = "?c1\<lparr>cl_challenge_token_sequence := sv_challenge_sequence s, cl_challenge_token_data := data,
          cl_last_packet_receive_time := t1, cl_state := NETCODE_CLIENT_STATE_SENDING_CONNECTION_RESPONSE\<rparr>"
  have A: "address_ok ?A" using client(1) by (simp add: on_socket_def)
  obtain cw2 where 3: "client_hears cr ?c1 ?A d2 (posted cw (cl_socket c) ?A d1) = Some (?c2, cw2)"
    "w_heap cw2 = (w_heap cw)\<lparr>h_next := h_next (w_heap cw) + 1\<rparr>"
    using challenge_heard [of cr ?c1 "sv_global_sequence s" d2 "sv_challenge_sequence s" data "posted cw (cl_socket c) ?A d1"]
      2(2) client opens mem A by auto
  obtain d3 where 4: "netcode_client_send_packets cr (?c2\<lparr>cl_time := t2\<rparr>) cw2
      = Some (?c2\<lparr>cl_time := t2, cl_sequence := cl_sequence c + 2, cl_last_packet_send_time := t2\<rparr>,
          posted cw2 (cl_socket c) ?A d3)"
    "carries cr (sv_protocol_id s) (ctp_client_to_server_key token) (cl_sequence c + 1) d3
      (CONNECTION_RESPONSE_PACKET (sv_challenge_sequence s) data)"
    by (rule response_sent [OF laws, of "?c2\<lparr>cl_time := t2\<rparr>" cw2])
      (use client opens keys times 2(3) in \<open>simp_all add: on_socket_def add.assoc\<close>)
  have "runs (netcode_server_read_and_process_packet cr s a d1 (w_timestamp sw) sw) (server_kept B s sw)"
    by (rule runs_read_and_process [OF laws server(1) a])
  then have inv1: "server_inv B ?s1 ?sw1" by (simp add: 2(1) server_kept_def)
  obtain i s' sw' d4 where 5: "netcode_server_read_and_process_packet cr (?s1\<lparr>sv_time := u\<rparr>) a d3 (w_timestamp ?sw1) ?sw1 = Some (s', sw')"
      "netcode_server_find_free_client_index s = Some i" "remote s' i"
      "sv_client_id s' i = ctp_client_id token" "sv_client_address s' i = a"
      "sv_client_user_data s' i = ctp_user_data token" "sv_client_timeout s' i = ctp_timeout_seconds token"
      "sv_num_connected_clients s' = sv_num_connected_clients s + 1"
    and sent: "w_sent sw' = w_sent ?sw1 @ [(so_handle (sv_socket s), sockaddr_of a, d4)]"
      "carries cr (sv_protocol_id s) (ctp_server_to_client_key token) 0 d4 (keep_alive_packet s i)"
    by (rule response_after_challenge [OF laws server(1,2) a accepts token(2) times(3,4) server(3) refl inv1 slot challenge _ 4(2),
          of "w_timestamp ?sw1"]) (use mem in simp)
  obtain rp where rp: "check_replay (Some netcode_replay_protection_reset) 4 0 = (False, Some rp)"
    using first_packet_kept by blast
  let ?c4 = "?c2\<lparr>cl_time := t2, cl_sequence := cl_sequence c + 2, cl_last_packet_send_time := t2\<rparr>"
  obtain cw4 where 6: "client_hears cr ?c4 ?A d4 (posted cw2 (cl_socket c) ?A d3)
      = Some (?c4\<lparr>cl_replay_protection := rp, cl_last_packet_receive_time := t2, cl_client_index := int i,
          cl_max_clients := int (sv_max_clients s), cl_state := NETCODE_CLIENT_STATE_CONNECTED\<rparr>, cw4)"
    using keep_alive_heard [of cr ?c4 0 d4 "int i" "int (sv_max_clients s)" rp "posted cw2 (cl_socket c) ?A d3"]
      sent(2) client opens A rp 3(2) mem heap_inv_next [OF mem(1)] by (auto simp: keep_alive_packet_def)
  have "last_datagram sw' = d4" by (simp add: last_datagram_def sent(1))
  with 1(1) 2(1) 3(1) 4(1) 5(1) 6
  have "handshake cr a t1 t2 u ((c, cw), (s, sw)) = Some ((?c4\<lparr>cl_replay_protection := rp, cl_last_packet_receive_time := t2,
      cl_client_index := int i, cl_max_clients := int (sv_max_clients s), cl_state := NETCODE_CLIENT_STATE_CONNECTED\<rparr>, cw4), (s', sw'))"
    by (simp add: handshake_def)
  moreover have "w_sent sw' = w_sent sw @ [(so_handle (sv_socket s), sockaddr_of a, d2), (so_handle (sv_socket s), sockaddr_of a, d4)]"
    by (simp add: sent(1))
  ultimately show ?thesis using 5(2-8) 2(2) sent(2) by (auto simp: keep_alive_packet_def)
qed

text \<open>Stopping a server sets its global sequence to 0 (creation sets it to 2 to the 63), and starting it does not change it.\<close>

lemma stop_sequence:
  "netcode_server_stop cr s w = Some (s', w') \<Longrightarrow> sv_running s \<Longrightarrow> sv_global_sequence s' = 0 \<and> \<not> sv_running s'"
  by (auto simp: netcode_server_stop_def split: bind_splits)

lemma start_sequence:
  "netcode_server_start cr s n w = Some (s', w') \<Longrightarrow> \<not> sv_running s \<Longrightarrow> sv_global_sequence s' = sv_global_sequence s"
  by (auto simp: netcode_server_start_def Let_def split: prod.splits bind_splits)

section \<open>Properties\<close>

text \<open>C1: the handshake completes. A client with a token that the server can open, has not expired and accepts, exchanges four
  packets with the server, none of them lost: then the client is connected, and the server has given it the first free
  slot, under the token's client id, user data and timeout and the address the packets came from.\<close>

theorem handshake_connects:
  assumes laws: "aead_laws cr" and server: "server_inv B s sw" "\<not> sv_network_simulator s" "server_alive u s"
    and accepts: "accepts s a opened token" and a: "address_ok a"
    and client: "on_socket c" "cl_state c = NETCODE_CLIENT_STATE_SENDING_CONNECTION_REQUEST"
      "cl_replay_protection c = netcode_replay_protection_reset" "ct_protocol_id (cl_connect_token c) = sv_protocol_id s"
    and token: "token_opens cr c (sv_private_key s) opened token" "0 < ctp_timeout_seconds token"
      "w_timestamp sw < ct_expire_timestamp (cl_connect_token c)"
    and mem: "heap_inv (w_heap cw)" "\<forall>n. \<not> h_out_of_memory (w_heap cw) n" "\<forall>n. \<not> h_out_of_memory (w_heap sw) n"
    and times: "cl_last_packet_send_time c + 1 / NETCODE_PACKET_SEND_RATE < t1" "t1 + 1 / NETCODE_PACKET_SEND_RATE < t2"
      "sv_time s \<le> u" "u \<le> sv_time s + of_int (ctp_timeout_seconds token)"
  shows "\<exists>c' cw' s' sw' i. handshake cr a t1 t2 u ((c, cw), (s, sw)) = Some ((c', cw'), (s', sw'))
    \<and> cl_state c' = NETCODE_CLIENT_STATE_CONNECTED
    \<and> cl_client_index c' = int i \<and> cl_max_clients c' = int (sv_max_clients s)
    \<and> netcode_server_find_free_client_index s = Some i \<and> remote s' i
    \<and> sv_num_connected_clients s' = sv_num_connected_clients s + 1
    \<and> sv_client_id s' i = ctp_client_id token \<and> sv_client_address s' i = a
    \<and> sv_client_user_data s' i = ctp_user_data token \<and> sv_client_timeout s' i = ctp_timeout_seconds token"
  using handshake_runs [OF assms] by blast

text \<open>A server that was started for two clients, and a client that holds a token for it.\<close>

definition waiting_server :: netcode_server where
  "waiting_server = (new_server (\<lambda>_. 0) (replicate 32 4) 0 \<lparr>so_address = ADDRESS_IPV4 [127, 0, 0, 1] 40000, so_handle = 1\<rparr>
     (ADDRESS_IPV4 [127, 0, 0, 1] 40000) False 7 (replicate 32 9) 0)\<lparr>sv_running := True, sv_max_clients := 2\<rparr>"

definition requesting_client :: "bytes \<Rightarrow> netcode_client" where
  "requesting_client sealed = (new_client (ADDRESS_IPV4 [127, 0, 0, 1] 50000) \<lparr>so_address = zero_address, so_handle = 3\<rparr> 1 False)
     \<lparr>cl_state := NETCODE_CLIENT_STATE_SENDING_CONNECTION_REQUEST, cl_server_address := ADDRESS_IPV4 [127, 0, 0, 1] 40000,
       cl_last_packet_send_time := 0,
       cl_context := \<lparr>cx_write_packet_key = ctp_client_to_server_key example_private_token,
         cx_read_packet_key = ctp_server_to_client_key example_private_token\<rparr>,
       cl_connect_token := zero_connect_token\<lparr>ct_protocol_id := 7, ct_expire_timestamp := 200, ct_sequence := 3,
         ct_private_data := sealed\<rparr>\<rparr>"

lemma waiting_server_inv: "server_inv {} waiting_server empty_world"
  by (simp add: waiting_server_def server_inv_def server_ok_def new_server_def queues_held_def server_ready_def slots_ok_def
      remotes_ok_def remote_def zero_packet_queue_def)

lemma clear_token_mac:
  assumes "netcode_encrypt_connect_token_private clear_crypto plain v pid expire n (replicate 32 9) = Some (NETCODE_OK sealed)"
    and "length sealed = NETCODE_CONNECT_TOKEN_PRIVATE_BYTES"
    and "netcode_decrypt_connect_token_private clear_crypto sealed v pid expire n (replicate 32 9) = Some (NETCODE_OK opened)"
  shows "drop (NETCODE_CONNECT_TOKEN_PRIVATE_BYTES - NETCODE_MAC_BYTES) opened = replicate 16 9"
  using assms
  by (auto simp: netcode_encrypt_connect_token_private_def netcode_decrypt_connect_token_private_def netcode_encrypt_aead_def
      netcode_decrypt_aead_def clear_crypto_def c_assert_def split: if_splits)

lemma waiting_server_accepts:
  assumes "drop (NETCODE_CONNECT_TOKEN_PRIVATE_BYTES - NETCODE_MAC_BYTES) opened = replicate 16 9"
  shows "accepts waiting_server (ADDRESS_IPV4 [127, 0, 0, 1] 50000) opened example_private_token"
  using assms
  by (simp add: accepts_def waiting_server_def new_server_def server_address_in_token_def example_private_token_def first_index_None
      netcode_server_find_client_index_by_address_def netcode_server_find_client_index_by_id_def
      netcode_connect_token_entries_reset_def netcode_encryption_manager_reset_def em_free_def zero_address_def)
    (rule exI [of _ 0], simp)

lemma example_token:
  obtains sealed opened where
      "token_opens clear_crypto (requesting_client sealed) (replicate 32 9) opened example_private_token"
    and "drop (NETCODE_CONNECT_TOKEN_PRIVATE_BYTES - NETCODE_MAC_BYTES) opened = replicate 16 9"
proof -
  obtain plain sealed opened where t: "netcode_write_connect_token_private example_private_token 1024 = Some plain"
    "netcode_encrypt_connect_token_private clear_crypto plain NETCODE_VERSION_INFO 7 200 3 (replicate 32 9) = Some (NETCODE_OK sealed)"
    "length sealed = NETCODE_CONNECT_TOKEN_PRIVATE_BYTES"
    "netcode_decrypt_connect_token_private clear_crypto sealed NETCODE_VERSION_INFO 7 200 3 (replicate 32 9) = Some (NETCODE_OK opened)"
    "length opened = NETCODE_CONNECT_TOKEN_PRIVATE_BYTES"
    "netcode_read_connect_token_private opened = Some (NETCODE_OK example_private_token)"
    by (rule sealed_private_token [OF clear_crypto_laws _ example_private_token_wf, of "replicate 32 9" NETCODE_VERSION_INFO 7 200 3]) auto
  have "token_opens clear_crypto (requesting_client sealed) (replicate 32 9) opened example_private_token"
    using t by (simp add: token_opens_def requesting_client_def)
  then show ?thesis using clear_token_mac [OF t(2-4)] that by blast
qed

abbreviation example_address :: netcode_address where
  "example_address \<equiv> ADDRESS_IPV4 [127, 0, 0, 1] 50000"

lemma example_client:
  "on_socket (requesting_client sealed)" "address_ok example_address"
  "cl_state (requesting_client sealed) = NETCODE_CLIENT_STATE_SENDING_CONNECTION_REQUEST"
  "cl_replay_protection (requesting_client sealed) = netcode_replay_protection_reset"
  "ct_protocol_id (cl_connect_token (requesting_client sealed)) = 7"
  "ct_expire_timestamp (cl_connect_token (requesting_client sealed)) = 200"
  "cl_last_packet_send_time (requesting_client sealed) = 0" "ctp_timeout_seconds example_private_token = 5"
  "heap_inv (w_heap empty_world)" "\<forall>n. \<not> h_out_of_memory (w_heap empty_world) n"
  by (simp_all add: requesting_client_def new_client_def on_socket_def address_ok_def example_private_token_def empty_world_def
      empty_heap_def zero_connect_token_def heap_inv_def live_def)

theorem handshake_connects_witness:
  "\<exists>sealed c cw s sw. handshake clear_crypto example_address 1 2 1
       ((requesting_client sealed, empty_world), (waiting_server, empty_world)) = Some ((c, cw), (s, sw))
    \<and> cl_state c = NETCODE_CLIENT_STATE_CONNECTED \<and> cl_max_clients c = 2
    \<and> sv_client_id s 0 = 1 \<and> remote s 0 \<and> sv_client_user_data s 0 = replicate 256 3 \<and> sv_client_timeout s 0 = 5"
proof -
  obtain sealed opened where
    opens: "token_opens clear_crypto (requesting_client sealed) (sv_private_key waiting_server) opened example_private_token"
    and mac: "drop (NETCODE_CONNECT_TOKEN_PRIVATE_BYTES - NETCODE_MAC_BYTES) opened = replicate 16 9"
    using example_token by (auto simp: waiting_server_def new_server_def)
  have alive: "server_alive 1 waiting_server" by (simp add: server_alive_def remote_def waiting_server_def new_server_def)
  have "netcode_server_find_free_client_index waiting_server = Some 0"
    by (simp add: netcode_server_find_free_client_index_def first_index_Some waiting_server_def new_server_def)
  with handshake_connects [OF clear_crypto_laws waiting_server_inv _ alive waiting_server_accepts [OF mac] example_client(2,1,3,4) _ opens
      _ _ example_client(9,10,10), of 1 2]
  show ?thesis
    by (auto simp: example_client waiting_server_def new_server_def example_private_token_def empty_world_def intro!: exI [of _ sealed])
qed

text \<open>C28: a server that was stopped and started again uses a nonce twice. Creation starts the sequence numbers of the packets
  to addresses without a client at 2 to the 63, apart from those of the packets to clients, which start at 0; a stop sets the former
  to 0 as well. In the next handshake the challenge and the first keep-alive are both sent with sequence number 0, that is with the
  same nonce, under the same key.\<close>

theorem restarted_server_reuses_nonce:
  assumes laws: "aead_laws cr" and running: "sv_running s0"
    and stop: "netcode_server_stop cr s0 w0 = Some (s1, w1)" and start: "netcode_server_start cr s1 n w1 = Some (s, sw)"
    and server: "server_inv B s sw" "\<not> sv_network_simulator s" "server_alive u s"
    and accepts: "accepts s a opened token" and a: "address_ok a"
    and client: "on_socket c" "cl_state c = NETCODE_CLIENT_STATE_SENDING_CONNECTION_REQUEST"
      "cl_replay_protection c = netcode_replay_protection_reset" "ct_protocol_id (cl_connect_token c) = sv_protocol_id s"
    and token: "token_opens cr c (sv_private_key s) opened token" "0 < ctp_timeout_seconds token"
      "w_timestamp sw < ct_expire_timestamp (cl_connect_token c)"
    and mem: "heap_inv (w_heap cw)" "\<forall>n. \<not> h_out_of_memory (w_heap cw) n" "\<forall>n. \<not> h_out_of_memory (w_heap sw) n"
    and times: "cl_last_packet_send_time c + 1 / NETCODE_PACKET_SEND_RATE < t1" "t1 + 1 / NETCODE_PACKET_SEND_RATE < t2"
      "sv_time s \<le> u" "u \<le> sv_time s + of_int (ctp_timeout_seconds token)"
  shows "\<exists>c' cw' s' sw' d2 d4 data i. handshake cr a t1 t2 u ((c, cw), (s, sw)) = Some ((c', cw'), (s', sw'))
    \<and> w_sent sw' = w_sent sw @ [(so_handle (sv_socket s), sockaddr_of a, d2), (so_handle (sv_socket s), sockaddr_of a, d4)]
    \<and> carries cr (sv_protocol_id s) (ctp_server_to_client_key token) 0 d2
        (CONNECTION_CHALLENGE_PACKET (sv_challenge_sequence s) data)
    \<and> carries cr (sv_protocol_id s) (ctp_server_to_client_key token) 0 d4
        (CONNECTION_KEEP_ALIVE_PACKET (int i) (int (sv_max_clients s)))"
proof -
  have "sv_global_sequence s = 0" using stop_sequence [OF stop running] start_sequence [OF start] by simp
  with handshake_runs [OF laws server accepts a client token mem times] show ?thesis by metis
qed

definition restarted_server :: netcode_server where
  "restarted_server = waiting_server\<lparr>sv_global_sequence := 0, sv_challenge_key := map of_nat [0..<32],
     sv_client_packet_queue := (\<lambda>_. netcode_packet_queue_init)\<rparr>"

lemma waiting_server_restarts:
  "\<exists>s1. netcode_server_stop clear_crypto waiting_server empty_world = Some (s1, empty_world)
    \<and> netcode_server_start clear_crypto s1 2 empty_world = Some (restarted_server, empty_world\<lparr>w_random_next := 32\<rparr>)"
  by (simp add: netcode_server_stop_def netcode_server_disconnect_all_clients_def waiting_server_def new_server_def numeral_2_eq_2
      netcode_server_start_def restarted_server_def netcode_generate_key_def netcode_random_bytes_def empty_world_def
      zero_packet_queue_def) (simp add: fun_eq_iff)

theorem restarted_server_reuses_nonce_witness:
  "\<exists>s1 s sealed c' cw' s' sw' d2 d4 data i. sv_running waiting_server
    \<and> netcode_server_stop clear_crypto waiting_server empty_world = Some (s1, empty_world)
    \<and> netcode_server_start clear_crypto s1 2 empty_world = Some (s, empty_world\<lparr>w_random_next := 32\<rparr>)
    \<and> handshake clear_crypto example_address 1 2 1
       ((requesting_client sealed, empty_world), (s, empty_world\<lparr>w_random_next := 32\<rparr>)) = Some ((c', cw'), (s', sw'))
    \<and> w_sent sw' = [(1, sockaddr_of example_address, d2), (1, sockaddr_of example_address, d4)]
    \<and> carries clear_crypto 7 (replicate 32 2) 0 d2 (CONNECTION_CHALLENGE_PACKET 0 data)
    \<and> carries clear_crypto 7 (replicate 32 2) 0 d4 (CONNECTION_KEEP_ALIVE_PACKET i 2)"
proof -
  obtain sealed opened where
    opens: "token_opens clear_crypto (requesting_client sealed) (sv_private_key restarted_server) opened example_private_token"
    and mac: "drop (NETCODE_CONNECT_TOKEN_PRIVATE_BYTES - NETCODE_MAC_BYTES) opened = replicate 16 9"
    using example_token by (auto simp: restarted_server_def waiting_server_def new_server_def)
  let ?w = "empty_world\<lparr>w_random_next := 32\<rparr>"
  obtain s1 where restart: "netcode_server_stop clear_crypto waiting_server empty_world = Some (s1, empty_world)"
      "netcode_server_start clear_crypto s1 2 empty_world = Some (restarted_server, ?w)"
    using waiting_server_restarts by blast
  have inv: "server_inv {} restarted_server ?w"
    using world_inv_empty [of False]
    by (simp add: restarted_server_def waiting_server_def server_inv_def server_ok_def new_server_def queues_held_def
        server_ready_def slots_ok_def remotes_ok_def remote_def)
  have alive: "server_alive 1 restarted_server"
    by (simp add: server_alive_def remote_def restarted_server_def waiting_server_def new_server_def)
  have accepts: "accepts restarted_server example_address opened example_private_token"
    using waiting_server_accepts [OF mac]
    by (simp add: accepts_def restarted_server_def server_address_in_token_def netcode_server_find_client_index_by_address_def
        netcode_server_find_client_index_by_id_def)
  have run: "sv_running waiting_server" by (simp add: waiting_server_def)
  have fields: "\<not> sv_network_simulator restarted_server" "sv_protocol_id restarted_server = 7" "sv_time restarted_server = 0"
      "so_handle (sv_socket restarted_server) = 1" "sv_challenge_sequence restarted_server = 0" "sv_max_clients restarted_server = 2"
    by (simp_all add: restarted_server_def waiting_server_def new_server_def)
  have world: "w_timestamp empty_world = 100" "w_sent empty_world = []" by (simp_all add: empty_world_def)
  have key: "ctp_server_to_client_key example_private_token = replicate 32 2" by (simp add: example_private_token_def)
  have "\<exists>c' cw' s' sw' d2 d4 data i. handshake clear_crypto example_address 1 2 1
       ((requesting_client sealed, empty_world), (restarted_server, ?w)) = Some ((c', cw'), (s', sw'))
    \<and> w_sent sw' = w_sent ?w @ [(so_handle (sv_socket restarted_server), sockaddr_of example_address, d2),
        (so_handle (sv_socket restarted_server), sockaddr_of example_address, d4)]
    \<and> carries clear_crypto (sv_protocol_id restarted_server) (ctp_server_to_client_key example_private_token) 0 d2
        (CONNECTION_CHALLENGE_PACKET (sv_challenge_sequence restarted_server) data)
    \<and> carries clear_crypto (sv_protocol_id restarted_server) (ctp_server_to_client_key example_private_token) 0 d4
        (CONNECTION_KEEP_ALIVE_PACKET (int i) (int (sv_max_clients restarted_server)))"
    by (rule restarted_server_reuses_nonce [OF clear_crypto_laws run restart inv _ alive accepts example_client(2,1,3,4) _ opens])
      (use example_client(9,10) in \<open>simp_all add: example_client fields world\<close>)
  with run restart show ?thesis by (simp add: fields world key) blast
qed

end
