(* ===== verification/Receive_Loops.thy ===== *)
theory Receive_Loops
  imports Handshake
begin

text \<open>
  The loops that empty a socket, \<^verbatim>\<open>while (1)\<close> in \<^verbatim>\<open>netcode_server_receive_packets\<close> and
  \<^verbatim>\<open>netcode_client_receive_packets\<close>. The model runs them with fuel; here it is shown that they come to an end: with
  one round more than there are datagrams any additional fuel changes nothing, and the socket is empty afterwards.
\<close>

section \<open>More fuel\<close>

lemma server_loop_more_fuel:
  "server_receive_from_socket cr now n s w = Some r \<Longrightarrow> n \<le> m \<Longrightarrow> server_receive_from_socket cr now m s w = Some r"
proof (induction n arbitrary: m s w)
  case (Suc n)
  then obtain m' where "m = Suc m'" "n \<le> m'" by (cases m) auto
  with Suc.prems(1) show ?case by (auto simp: Suc.IH split: bind_splits option.splits)
qed simp

lemma client_loop_more_fuel:
  "client_receive_from_socket cr now n c w = Some r \<Longrightarrow> n \<le> m \<Longrightarrow> client_receive_from_socket cr now m c w = Some r"
proof (induction n arbitrary: m c w)
  case (Suc n)
  then obtain m' where "m = Suc m'" "n \<le> m'" by (cases m) auto
  with Suc.prems(1) show ?case by (auto simp: Suc.IH split: bind_splits option.splits)
qed simp

section \<open>Every datagram is taken\<close>

lemma socket_receive_cases:
  assumes "netcode_socket_receive_packet socket NETCODE_MAX_PACKET_BYTES w = Some (r, w')" and "inbox_ok w"
    and "\<forall>d \<in> set (w_inbox w (so_handle socket)). snd d \<noteq> []"
  obtains (none) "r = None" "w' = w" "w_inbox w (so_handle socket) = []"
  | (some) sender data d rest where "r = Some (sender, data)" "w_inbox w (so_handle socket) = d # rest"
      "w' = w\<lparr>w_inbox := (w_inbox w)(so_handle socket := rest)\<rparr>" "address_ok sender"
proof (cases "w_inbox w (so_handle socket)")
  case Nil
  with assms(1) none show ?thesis by (auto simp: netcode_socket_receive_packet_def split: bind_splits)
next
  case (Cons d rest)
  obtain a b where d: "d = (a, b)" by fastforce
  have "sockaddr_ok a" using assms(2) Cons d unfolding inbox_ok_def by (metis fst_conv list.set_intros(1))
  then obtain sender where "address_of_sockaddr a = Some sender" "address_ok sender"
    using address_of_sockaddr_ok by blast
  with Cons d assms(1,3) some [of sender _ d rest] show ?thesis
    by (auto simp: netcode_socket_receive_packet_def split: bind_splits)
qed

lemma server_loop_drains:
  assumes laws: "aead_laws cr"
  shows "server_inv B s w \<Longrightarrow> server_receive_from_socket cr now n s w = Some (s', w') \<Longrightarrow>
    \<forall>d \<in> set (w_inbox w (so_handle (sv_socket s))). snd d \<noteq> [] \<Longrightarrow> w_inbox w' (so_handle (sv_socket s)) = []"
proof (induction n arbitrary: s w)
  case (Suc n)
  note inv = Suc.prems(1)
  have inbox: "inbox_ok w" using server_inv_world [OF inv] by (simp add: world_inv_def)
  obtain r w1 where r: "netcode_socket_receive_packet (sv_socket s) NETCODE_MAX_PACKET_BYTES w = Some (r, w1)"
    using Suc.prems(2) by (auto split: bind_splits)
  from r inbox Suc.prems(3) show ?case
  proof (cases rule: socket_receive_cases)
    case none
    with r Suc.prems(2) show ?thesis by simp
  next
    case (some sender data d rest)
    from inv some(2) have inv1: "server_inv B s w1" unfolding some(3) by (rule server_inv_inbox)
    obtain s2 w2 where step: "netcode_server_read_and_process_packet cr s sender data now w1 = Some (s2, w2)"
        and rest: "server_receive_from_socket cr now n s2 w2 = Some (s', w')"
      using r some(1) Suc.prems(2) by (auto split: bind_splits)
    have kept: "server_kept B s w1 (s2, w2)"
      using runs_SomeD [OF runs_read_and_process [OF laws inv1 some(4)] step] .
    then have same: "sv_socket s2 = sv_socket s" "w_inbox w2 = w_inbox w1"
      by (simp_all add: server_kept_def server_same_def frame_def)
    have "\<forall>d \<in> set (w_inbox w2 (so_handle (sv_socket s2))). snd d \<noteq> []"
      using Suc.prems(3) some(2) by (simp add: same some(3))
    with Suc.IH [OF _ rest] kept show ?thesis by (simp add: server_kept_def same(1))
  qed
qed simp

lemma client_loop_drains:
  assumes laws: "aead_laws cr"
  shows "client_inv B c w \<Longrightarrow> \<not> cl_loopback c \<Longrightarrow> \<not> cl_network_simulator c \<Longrightarrow>
    length (w_inbox w (so_handle (cl_socket c))) < n \<Longrightarrow>
    \<forall>d \<in> set (w_inbox w (so_handle (cl_socket c))). snd d \<noteq> [] \<Longrightarrow>
    runs (client_receive_from_socket cr now n c w) (\<lambda>x. w_inbox (snd x) (so_handle (cl_socket c)) = [])"
proof (induction n arbitrary: c w)
  case (Suc n)
  note inv = Suc.prems(1)
  let ?h = "so_handle (cl_socket c)"
  have inbox: "inbox_ok w" using inv by (simp add: client_inv_def queue_held_def world_inv_def)
  have "\<exists>x. client_receive_from_socket cr now (Suc n) c w = Some x"
    using runs_client_receive_from_socket [OF laws Suc.prems(1-4)] by (blast elim: runsE)
  then obtain r w1 where r: "netcode_socket_receive_packet (cl_socket c) NETCODE_MAX_PACKET_BYTES w = Some (r, w1)"
    by (auto split: bind_splits)
  from r inbox Suc.prems(5) show ?case
  proof (cases rule: socket_receive_cases)
    case none
    with r show ?thesis by simp
  next
    case (some sender data d rest)
    from inv some(2) have inv1: "client_inv B c w1" unfolding some(3) by (rule client_inv_inbox)
    have "runs (do { ((ptr, sequence), client, w) \<leftarrow> client_read_packet cr now data c w1;
               (case ptr of
                  None \<Rightarrow> client_receive_from_socket cr now n client w
                | Some ptr \<Rightarrow> do {
                    (client, w) \<leftarrow> netcode_client_process_packet client sender ptr sequence w;
                    client_receive_from_socket cr now n client w }) }) (\<lambda>x. w_inbox (snd x) ?h = [])"
    proof (rule runs_client_datagram [OF laws inv1 Suc.prems(2)])
      fix c2 w2
      assume 2: "client_inv B c2 w2" "frame B w1 w2" "client_same c c2"
      then have same: "cl_socket c2 = cl_socket c" "w_inbox w2 ?h = rest" "\<not> cl_loopback c2" "\<not> cl_network_simulator c2"
        using some(3) Suc.prems(2,3) by (simp_all add: client_same_def frame_def)
      show "runs (client_receive_from_socket cr now n c2 w2) (\<lambda>x. w_inbox (snd x) ?h = [])"
        using Suc.IH [OF 2(1) same(3,4)] Suc.prems(4,5) some(2) by (simp add: same(1,2))
    qed
    with r some(1) show ?thesis by simp
  qed
qed simp

text \<open>The receive loop of a client on a socket comes to an end in the same way.\<close>

lemma client_receive_loop_ends:
  assumes laws: "aead_laws cr" and inv: "client_inv B c w" and sock: "\<not> cl_loopback c" "\<not> cl_network_simulator c"
  shows "\<exists>c' w'. (\<forall>rounds > length (w_inbox w (so_handle (cl_socket c))).
      client_receive_from_socket cr now rounds c w = Some (c', w')) \<and> client_inv B c' w'
    \<and> ((\<forall>d \<in> set (w_inbox w (so_handle (cl_socket c))). snd d \<noteq> []) \<longrightarrow> w_inbox w' (so_handle (cl_socket c)) = [])"
proof -
  let ?n = "Suc (length (w_inbox w (so_handle (cl_socket c))))"
  obtain c' w' where r: "client_receive_from_socket cr now ?n c w = Some (c', w')" "client_inv B c' w'"
    using runs_client_receive_from_socket [OF laws inv sock, of ?n now]
    by (auto simp del: client_receive_from_socket.simps elim!: runsE)
  then show ?thesis
    using client_loop_more_fuel [OF r(1)] runs_SomeD [OF client_loop_drains [OF laws inv sock lessI] r(1)]
    by (intro exI [of _ c'] exI [of _ w']) (simp add: Suc_le_eq)
qed

section \<open>Properties\<close>

text \<open>C30: the receive loop of a server on a socket comes to an end, whatever datagrams are waiting: with any number of rounds above their
  number it has the same result, in a sound server, and if none of the datagrams is empty (an empty one ends the loop) it has taken them all.\<close>

theorem server_receive_loop_ends:
  assumes laws: "aead_laws cr" and inv: "server_inv B s w" and sock: "\<not> sv_network_simulator s"
  shows "\<exists>s' w'. (\<forall>rounds > length (w_inbox w (so_handle (sv_socket s))).
      server_receive_from_socket cr now rounds s w = Some (s', w')) \<and> server_inv B s' w'
    \<and> ((\<forall>d \<in> set (w_inbox w (so_handle (sv_socket s))). snd d \<noteq> []) \<longrightarrow> w_inbox w' (so_handle (sv_socket s)) = [])"
proof -
  let ?n = "Suc (length (w_inbox w (so_handle (sv_socket s))))"
  obtain s' w' where r: "server_receive_from_socket cr now ?n s w = Some (s', w')" "server_inv B s' w'"
    using runs_server_receive_from_socket [OF laws inv sock, of ?n now]
    by (auto simp: server_received_def simp del: server_receive_from_socket.simps elim!: runsE)
  then show ?thesis
    using server_loop_more_fuel [OF r(1)] server_loop_drains [OF laws inv r(1)] by (intro exI [of _ s'] exI [of _ w']) (simp add: Suc_le_eq)
qed

text \<open>Two datagrams that wait for a server; none of them is a packet.\<close>

definition waiting_datagrams :: world where
  "waiting_datagrams = empty_world\<lparr>w_inbox := (\<lambda>_. [])(1 := [(SOCKADDR_IN 0x7f000001 50000, [7, 8, 9]),
     (SOCKADDR_IN 0x7f000001 50000, [0])])\<rparr>"

lemma waiting_datagrams_inv: "world_inv sim {} waiting_datagrams"
  using world_inv_empty [of sim] unfolding waiting_datagrams_def
  by (auto simp: world_inv_def sim_inv_def sim_owned_def inbox_ok_def)

theorem server_receive_loop_ends_witness:
  "\<exists>s w. server_receive_from_socket clear_crypto 0 9 waiting_server waiting_datagrams = Some (s, w) \<and> w_inbox w 1 = []"
proof -
  have "server_inv {} waiting_server waiting_datagrams"
    using waiting_datagrams_inv [of False]
    by (simp add: waiting_server_def server_inv_def server_ok_def new_server_def queues_held_def server_ready_def slots_ok_def
        remotes_ok_def remote_def zero_packet_queue_def)
  from server_receive_loop_ends [OF clear_crypto_laws this, of 0] show ?thesis
    by (auto simp: waiting_server_def new_server_def waiting_datagrams_def)
qed

end
