(* ===== verification/Admission.thy ===== *)
theory Admission
  imports Handshake
begin

text \<open>
  Who gets a slot, and who does not. A datagram can only fill a slot of the server if it is a connection response that was encrypted
  with the keys of the sender's mapping and holds a challenge token that opens under the server's challenge key, and the
  slot then has the token's client id and user data. A full server answers a valid request with a denied packet.
\<close>

section \<open>What the operations do to the slots\<close>

definition same_slots :: "netcode_server \<Rightarrow> netcode_server \<Rightarrow> bool" where
  "same_slots s s' \<longleftrightarrow> sv_client_connected s' = sv_client_connected s \<and> sv_client_id s' = sv_client_id s
     \<and> sv_client_address s' = sv_client_address s \<and> sv_client_user_data s' = sv_client_user_data s
     \<and> sv_client_timeout s' = sv_client_timeout s \<and> sv_client_encryption_index s' = sv_client_encryption_index s"

lemma same_slots_refl [simp]: "same_slots s s"
  by (simp add: same_slots_def)

lemma send_client_slots:
  "netcode_server_send_client_packet cr s p i w = Some (s', w') \<Longrightarrow> same_slots s s'"
  by (auto simp: netcode_server_send_client_packet_def same_slots_def Let_def split: bind_splits if_splits option.splits)

lemma send_global_slots:
  "netcode_server_send_global_packet cr s p a k w = Some (s', w') \<Longrightarrow> same_slots s s'"
  by (auto simp: netcode_server_send_global_packet_def same_slots_def Let_def split: bind_splits if_splits option.splits)

lemma send_challenge_slots: "server_send_challenge cr s a t w = Some (s', w') \<Longrightarrow> same_slots s s'"
  by (auto simp: server_send_challenge_def same_slots_def Let_def split: bind_splits c_result.splits dest!: send_global_slots)

lemma process_request_slots:
  "netcode_server_process_connection_request_packet cr s a p w = Some (s', w') \<Longrightarrow> same_slots s s'"
  by (auto simp: netcode_server_process_connection_request_packet_def same_slots_def Let_def
      split: bind_splits c_result.splits if_splits prod.splits dest!: send_global_slots send_challenge_slots)

lemma connect_client_slots:
  assumes "netcode_server_connect_client cr s j a cid e to user w = Some (s', w')"
  shows "same_slots (server_fill_slot s j a cid e to user) s' \<and> e \<noteq> None"
  using assms
  by (auto simp: netcode_server_connect_client_def same_slots_def server_fill_slot_def Let_def
      split: bind_splits dest!: send_client_slots)

lemma disconnect_packets_slots:
  "server_send_disconnect_packets cr n s i w = Some (s', w') \<Longrightarrow> sv_client_connected s' = sv_client_connected s"
  by (induction n arbitrary: s w) (auto simp: same_slots_def split: bind_splits dest!: send_client_slots)

lemma disconnect_internal_slots:
  "netcode_server_disconnect_client_internal cr s j send w = Some (s', w') \<Longrightarrow>
   sv_client_connected s' = (sv_client_connected s)(j := False)"
  by (auto simp: netcode_server_disconnect_client_internal_def server_free_slot_def server_clear_slot_def Let_def
      split: bind_splits if_splits prod.splits dest!: disconnect_packets_slots)

section \<open>A slot that is filled\<close>

text \<open>The challenge token \<open>data\<close> with number \<open>n\<close> opens under the server's challenge key, as \<open>t\<close>.\<close>

definition challenge_opens :: "crypto \<Rightarrow> netcode_server \<Rightarrow> u64 \<Rightarrow> bytes \<Rightarrow> challenge_token \<Rightarrow> bool" where
  "challenge_opens cr s n data t \<longleftrightarrow> (\<exists>opened.
     netcode_decrypt_challenge_token cr data n (sv_challenge_key s) = Some (NETCODE_OK opened)
     \<and> netcode_read_challenge_token opened = Some (NETCODE_OK t))"

text \<open>Slot \<open>i\<close> has become that of a client at \<open>a\<close>, whose mapping is \<open>e\<close>, with the data of the challenge token.\<close>

definition admitted :: "netcode_server \<Rightarrow> netcode_address \<Rightarrow> nat \<Rightarrow> challenge_token \<Rightarrow> nat \<Rightarrow> netcode_server \<Rightarrow> bool" where
  "admitted s a e t i s' \<longleftrightarrow> sv_client_id s' i = cht_client_id t \<and> sv_client_user_data s' i = cht_user_data t
     \<and> sv_client_address s' i = a \<and> sv_client_encryption_index s' i = Some e
     \<and> Some (sv_client_timeout s' i) = netcode_encryption_manager_get_timeout (sv_encryption_manager s) (Some e)
     \<and> netcode_server_find_client_index_by_address s a = None
     \<and> netcode_server_find_client_index_by_id s (cht_client_id t) = None
     \<and> netcode_server_find_free_client_index s = Some i"

lemma response_admits:
  assumes run: "netcode_server_process_connection_response_packet cr s a n data e w = Some (s', w')"
    and new: "\<not> sv_client_connected s i" "sv_client_connected s' i"
  shows "\<exists>k t. e = Some k \<and> challenge_opens cr s n data t \<and> admitted s a k t i s'"
proof -
  have global: "\<not> same_slots s s'" using new by (auto simp: same_slots_def)
  then obtain opened t j to where *: "netcode_decrypt_challenge_token cr data n (sv_challenge_key s) = Some (NETCODE_OK opened)"
    "netcode_read_challenge_token opened = Some (NETCODE_OK t)"
    "netcode_server_find_client_index_by_address s a = None" "netcode_server_find_client_index_by_id s (cht_client_id t) = None"
    "netcode_server_find_free_client_index s = Some j"
    "netcode_encryption_manager_get_timeout (sv_encryption_manager s) e = Some to"
    "netcode_server_connect_client cr s j a (cht_client_id t) e to (cht_user_data t) w = Some (s', w')"
    using run
    by (auto simp: netcode_server_process_connection_response_packet_def Let_def
        split: bind_splits c_result.splits option.splits if_splits dest: send_global_slots)
  obtain k where e: "e = Some k" using connect_client_slots [OF *(7)] by auto
  have same: "same_slots (server_fill_slot s j a (cht_client_id t) e to (cht_user_data t)) s'"
    using connect_client_slots [OF *(7)] by simp
  then have "i = j" using new by (auto simp: same_slots_def server_fill_slot_def split: if_splits)
  with same * e show ?thesis
    by (auto simp: same_slots_def server_fill_slot_def admitted_def challenge_opens_def)
qed

lemma handle_admits:
  assumes run: "server_handle_packet cr s a packet e c w = Some (s', w')"
    and new: "\<not> sv_client_connected s i" "sv_client_connected s' i"
  shows "\<exists>n data k t. packet = CONNECTION_RESPONSE_PACKET n data \<and> e = Some k \<and> challenge_opens cr s n data t \<and> admitted s a k t i s'"
proof -
  have changed: "\<not> same_slots s s'" using new by (auto simp: same_slots_def)
  show ?thesis
  proof (cases "\<exists>n data. packet = CONNECTION_RESPONSE_PACKET n data")
    case True
    then obtain n data where packet: "packet = CONNECTION_RESPONSE_PACKET n data" by blast
    with run changed have "netcode_server_process_connection_response_packet cr s a n data e w = Some (s', w')"
      by (auto simp: server_handle_packet_def split: if_splits)
    from response_admits [OF this new] packet show ?thesis by blast
  next
    case False
    with run new changed show ?thesis
      by (cases packet)
        (auto simp: server_handle_packet_def server_heard_from_def split: if_splits option.splits
          dest: process_request_slots disconnect_internal_slots)
  qed
qed

lemma process_admits:
  assumes run: "netcode_server_process_packet cr s a p m e c w = Some (s', w')"
    and new: "\<not> sv_client_connected s i" "sv_client_connected s' i"
  shows "\<exists>n data k t. w_packet p w = Some (CONNECTION_RESPONSE_PACKET n data) \<and> e = Some k
    \<and> challenge_opens cr s n data t \<and> admitted s a k t i s'"
proof -
  from run obtain packet where packet: "w_packet p w = Some packet"
    by (auto simp: netcode_server_process_packet_def split: bind_splits)
  consider (payload) b j where "packet = CONNECTION_PAYLOAD_PACKET b" "c = Some j"
    | (other) w1 where "server_handle_packet cr s a packet e c w = Some (s', w1)"
    using run packet
    by (cases packet; cases c) (auto simp: netcode_server_process_packet_def split: bind_splits)
  then show ?thesis
  proof cases
    case payload
    with run packet new show ?thesis
      by (auto simp: netcode_server_process_packet_def server_heard_from_def Let_def split: bind_splits)
  next
    case other
    from handle_admits [OF this new] packet show ?thesis by simp
  qed
qed

section \<open>A full server\<close>

text \<open>A valid request that comes when every slot is taken: no client is connected with the address or the id, and the token was not
  used from another address.\<close>

definition refuses :: "netcode_server \<Rightarrow> netcode_address \<Rightarrow> bytes \<Rightarrow> connect_token_private \<Rightarrow> bool" where
  "refuses s a data token \<longleftrightarrow> sv_running s \<and> sv_flags s AND 1 = 0 \<and> server_address_in_token s token
     \<and> netcode_server_find_client_index_by_address s a = None
     \<and> netcode_server_find_client_index_by_id s (ctp_client_id token) = None
     \<and> (\<forall>i < NETCODE_MAX_CONNECT_TOKEN_ENTRIES.
          te_mac (sv_connect_token_entries s i) \<noteq> drop (NETCODE_CONNECT_TOKEN_PRIVATE_BYTES - NETCODE_MAC_BYTES) data)
     \<and> sv_num_connected_clients s = int (sv_max_clients s)"

lemma denied_sent:
  assumes laws: "aead_laws cr" and sock: "\<not> sv_network_simulator s" "so_handle (sv_socket s) \<noteq> 0" and a: "address_ok a"
    and key: "length k = NETCODE_KEY_BYTES"
  obtains d where "netcode_server_send_global_packet cr s CONNECTION_DENIED_PACKET a k w
      = Some (s\<lparr>sv_global_sequence := sv_global_sequence s + 1\<rparr>, posted w (sv_socket s) a d)"
    and "carries cr (sv_protocol_id s) k (sv_global_sequence s) d CONNECTION_DENIED_PACKET"
proof -
  obtain d where d: "netcode_write_packet cr CONNECTION_DENIED_PACKET NETCODE_MAX_PACKET_BYTES (sv_global_sequence s) k (sv_protocol_id s)
      = Some (NETCODE_OK d)" "length d \<le> NETCODE_MAX_PACKET_BYTES"
    "carries cr (sv_protocol_id s) k (sv_global_sequence s) d CONNECTION_DENIED_PACKET"
    by (rule packet_written [OF laws _ _ key, of CONNECTION_DENIED_PACKET "sv_global_sequence s" "sv_protocol_id s"]) auto
  have "d \<noteq> []" using d(3) by (auto simp: carries_def)
  with d(1,2) sock socket_sends [OF sock(2) a]
  have "netcode_server_send_global_packet cr s CONNECTION_DENIED_PACKET a k w
      = Some (s\<lparr>sv_global_sequence := sv_global_sequence s + 1\<rparr>, posted w (sv_socket s) a d)"
    by (simp add: netcode_server_send_global_packet_def server_transmit_def)
  with d(3) show ?thesis using that by blast
qed

lemma request_refused:
  assumes laws: "aead_laws cr" and inv: "server_inv B s w" and sock: "\<not> sv_network_simulator s" and a: "address_ok a"
    and key: "length (ctp_server_to_client_key token) = NETCODE_KEY_BYTES"
    and plain: "netcode_read_connect_token_private (rq_connect_token_data rq) = Some (NETCODE_OK token)"
    and refuses: "refuses s a (rq_connect_token_data rq) token"
    and mem: "\<not> h_out_of_memory (w_heap w) (h_next (w_heap w))" and d: "1 < length d" "hd d = 0"
    and read: "\<And>k. netcode_read_packet cr d k (sv_protocol_id s) now (Some (sv_private_key s)) server_allowed_packets None (w_heap w)
      = Some (Some (h_next (w_heap w)), 0, None,
          snd (netcode_default_allocate_function (Packet_block (CONNECTION_REQUEST_PACKET rq)) (w_heap w)))"
  obtains es em d' where "netcode_server_read_and_process_packet cr s a d now w
      = Some (s\<lparr>sv_encryption_manager := em, sv_connect_token_entries := es, sv_global_sequence := sv_global_sequence s + 1\<rparr>,
          used_block (posted w (sv_socket s) a d'))"
    and "carries cr (sv_protocol_id s) (ctp_server_to_client_key token) (sv_global_sequence s) d' CONNECTION_DENIED_PACKET"
    and "em = snd (netcode_encryption_manager_find_encryption_mapping (sv_encryption_manager s) a (sv_time s))"
proof -
  have handle: "so_handle (sv_socket s) \<noteq> 0" using server_inv_ok [OF inv] sock by (simp add: server_ok_def server_ready_def)
  have heap: "heap_inv (w_heap w)" using server_inv_world [OF inv] by (simp add: world_inv_def sim_inv_def)
  obtain e em where find: "netcode_encryption_manager_find_encryption_mapping (sv_encryption_manager s) a (sv_time s) = (e, em)"
    by fastforce
  let ?s1 = "s\<lparr>sv_encryption_manager := em\<rparr>"
  have look: "server_lookup_sender s a = (e, None, ?s1)" using find refuses by (simp add: server_lookup_sender_def refuses_def)
  have same: "netcode_server_find_client_index_by_address ?s1 a = None"
      "netcode_server_find_client_index_by_id ?s1 (ctp_client_id token) = None"
    using refuses by (auto simp: refuses_def netcode_server_find_client_index_by_address_def netcode_server_find_client_index_by_id_def
        cong: if_cong)
  have e: "e = None \<or> (\<exists>k. e = Some k \<and> k < em_num_encryption_mappings em)"
    using find by (auto simp: netcode_encryption_manager_find_encryption_mapping_def first_index_Some split: option.splits)
  then obtain key where key': "netcode_encryption_manager_get_receive_key em e = Some key"
    by (auto simp: netcode_encryption_manager_get_receive_key_def em_index_def)
  let ?mac = "drop (NETCODE_CONNECT_TOKEN_PRIVATE_BYTES - NETCODE_MAC_BYTES) (rq_connect_token_data rq)"
  obtain es where es: "netcode_connect_token_entries_find_or_add (sv_connect_token_entries s) a ?mac (sv_time s) = Some (True, es)"
    by (rule find_or_add_cases [of "sv_connect_token_entries s" ?mac a "sv_time s"]) (use refuses in \<open>auto simp: refuses_def\<close>)
  let ?s2 = "s\<lparr>sv_encryption_manager := em, sv_connect_token_entries := es\<rparr>"
  let ?w = "w\<lparr>w_heap := snd (netcode_default_allocate_function (Packet_block (CONNECTION_REQUEST_PACKET rq)) (w_heap w))\<rparr>"
  obtain d' where d': "netcode_server_send_global_packet cr ?s2 CONNECTION_DENIED_PACKET a (ctp_server_to_client_key token) ?w
      = Some (?s2\<lparr>sv_global_sequence := sv_global_sequence s + 1\<rparr>, posted ?w (sv_socket s) a d')"
    "carries cr (sv_protocol_id s) (ctp_server_to_client_key token) (sv_global_sequence s) d' CONNECTION_DENIED_PACKET"
    by (rule denied_sent [OF laws _ _ a key, of ?s2 ?w]) (use sock handle in auto)
  have handled: "server_handle_packet cr ?s1 a (CONNECTION_REQUEST_PACKET rq) e None ?w
      = Some (?s2\<lparr>sv_global_sequence := sv_global_sequence s + 1\<rparr>, posted ?w (sv_socket s) a d')"
    using plain refuses same es d'(1)
    by (simp add: server_handle_packet_def netcode_server_process_connection_request_packet_def refuses_def
        server_address_in_token_def Let_def)
  have "netcode_server_read_and_process_packet cr s a d now w
    = Some (?s2\<lparr>sv_global_sequence := sv_global_sequence s + 1\<rparr>,
        (posted ?w (sv_socket s) a d')\<lparr>w_heap := (w_heap w)\<lparr>h_next := h_next (w_heap w) + 1\<rparr>\<rparr>)"
    by (rule server_hears [OF _ d(1) look _ _ _ _ heap mem read handled])
      (use refuses d key' in \<open>simp_all add: refuses_def\<close>)
  moreover have "(posted ?w (sv_socket s) a d')\<lparr>w_heap := (w_heap w)\<lparr>h_next := h_next (w_heap w) + 1\<rparr>\<rparr>
      = used_block (posted w (sv_socket s) a d')" by (simp add: posted_def used_block_def)
  ultimately have run: "netcode_server_read_and_process_packet cr s a d now w
      = Some (?s2\<lparr>sv_global_sequence := sv_global_sequence s + 1\<rparr>, used_block (posted w (sv_socket s) a d'))"
    by (simp only:)
  show ?thesis by (rule that [OF run d'(2)]) (simp add: find)
qed

text \<open>The client hears that it was denied.\<close>

lemma denied_heard:
  assumes d: "carries cr (ct_protocol_id (cl_connect_token c)) (cx_read_packet_key (cl_context c)) n d CONNECTION_DENIED_PACKET"
    and state: "cl_state c = NETCODE_CLIENT_STATE_SENDING_CONNECTION_REQUEST" and a: "address_ok (cl_server_address c)"
    and heap: "heap_inv (w_heap w)" "\<not> h_out_of_memory (w_heap w) (h_next (w_heap w))"
  obtains w' where "client_hears cr c (cl_server_address c) d w
      = Some (c\<lparr>cl_should_disconnect := True, cl_should_disconnect_state := NETCODE_CLIENT_STATE_CONNECTION_DENIED,
          cl_last_packet_receive_time := cl_time c\<rparr>, w')"
proof -
  let ?w = "w\<lparr>w_heap := snd (netcode_default_allocate_function (Packet_block CONNECTION_DENIED_PACKET) (w_heap w))\<rparr>"
  have "client_handle_packet (c\<lparr>cl_replay_protection := cl_replay_protection c\<rparr>) (cl_server_address c) CONNECTION_DENIED_PACKET ?w
    = Some (c\<lparr>cl_should_disconnect := True, cl_should_disconnect_state := NETCODE_CLIENT_STATE_CONNECTION_DENIED,
          cl_last_packet_receive_time := cl_time c\<rparr>, ?w)"
    using state a by (simp add: client_handle_packet_def address_ok_def)
  from client_hears_packet [OF d _ _ heap this] show ?thesis
    by (intro that) (simp add: client_allowed_packets_def check_replay_def)
qed

section \<open>Properties\<close>

text \<open>C7: nobody gets a slot without the server's consent. If a datagram from \<open>a\<close> fills the slot \<open>i\<close>, then a mapping
  \<open>e\<close> for \<open>a\<close> exists, the datagram opens with the key of the mapping as a connection response, its challenge
  token opens under the server's challenge key, and the slot, the first free one, has the id and user data of the challenge token,
  the address \<open>a\<close> and the timeout of the mapping; no other client was connected with the address or the id.\<close>

theorem slot_filled_only_with_challenge:
  assumes run: "netcode_server_read_and_process_packet cr s a d now w = Some (s', w')"
    and new: "\<not> sv_client_connected s i" "sv_client_connected s' i"
  shows "\<exists>e p m rp h n data t. e < em_num_encryption_mappings (sv_encryption_manager s)
    \<and> em_matches (sv_encryption_manager s) a (sv_time s) e
    \<and> netcode_read_packet cr d (Some (em_receive_key (sv_encryption_manager s) e)) (sv_protocol_id s) now
        (Some (sv_private_key s)) server_allowed_packets None (w_heap w) = Some (Some p, m, rp, h)
    \<and> w_packet p (w\<lparr>w_heap := h\<rparr>) = Some (CONNECTION_RESPONSE_PACKET n data)
    \<and> challenge_opens cr s n data t \<and> admitted s a e t i s'"
proof -
  from new have changed: "s' \<noteq> s" by auto
  obtain e c s1 where look: "server_lookup_sender s a = (e, c, s1)" by (rule prod_cases3)
  let ?rp = "case c of None \<Rightarrow> None | Some i \<Rightarrow> Some (sv_client_replay_protection s1 i)"
  have s1: "sv_client_connected s1 = sv_client_connected s" "sv_protocol_id s1 = sv_protocol_id s" "sv_private_key s1 = sv_private_key s"
    using look by (auto simp: server_lookup_sender_def split: option.splits prod.splits)
  have "s' \<noteq> s1" using new s1(1) by auto
  obtain key ptr m rp h where
      key: "netcode_encryption_manager_get_receive_key (sv_encryption_manager s1) e = Some key"
    and read: "netcode_read_packet cr d key (sv_protocol_id s) now (Some (sv_private_key s)) server_allowed_packets ?rp (w_heap w)
      = Some (ptr, m, rp, h)"
    and step: "(let s2 = (case (c, rp) of (Some i, Some rp) \<Rightarrow>
                s1\<lparr>sv_client_replay_protection := (sv_client_replay_protection s1)(i := rp)\<rparr> | _ \<Rightarrow> s1) in
        case ptr of None \<Rightarrow> Some (s2, w\<lparr>w_heap := h\<rparr>)
        | Some p \<Rightarrow> netcode_server_process_packet cr s2 a p m e c (w\<lparr>w_heap := h\<rparr>)) = Some (s', w')"
    using run new \<open>s' \<noteq> s1\<close>
    by (auto simp: netcode_server_read_and_process_packet_def look s1 Let_def split: if_splits bind_splits)
  define s2 where "s2 = (case (c, rp) of (Some i, Some rp) \<Rightarrow>
                s1\<lparr>sv_client_replay_protection := (sv_client_replay_protection s1)(i := rp)\<rparr> | _ \<Rightarrow> s1)"
  have s2: "sv_client_connected s2 = sv_client_connected s" using s1(1) by (simp add: s2_def split: option.split)
  obtain p where ptr: "ptr = Some p" and process: "netcode_server_process_packet cr s2 a p m e c (w\<lparr>w_heap := h\<rparr>) = Some (s', w')"
    using step [unfolded Let_def, folded s2_def] new s2 by (cases ptr) auto
  obtain n data k t where *: "w_packet p (w\<lparr>w_heap := h\<rparr>) = Some (CONNECTION_RESPONSE_PACKET n data)" "e = Some k"
      "challenge_opens cr s2 n data t" "admitted s2 a k t i s'"
    using process_admits [OF process, of i] new by (simp add: s2) blast
  have c: "c = None"
  proof (cases c)
    case (Some j)
    with look have "netcode_server_find_client_index_by_address s a = Some j" "s1 = s"
      by (auto simp: server_lookup_sender_def split: option.splits prod.splits)
    then have "netcode_server_find_client_index_by_address s2 a = Some j"
      by (auto simp: s2_def netcode_server_find_client_index_by_address_def split: option.split)
    with *(4) show ?thesis by (simp add: admitted_def)
  qed
  then have "s2 = s1" by (simp add: s2_def)
  obtain em where find: "netcode_encryption_manager_find_encryption_mapping (sv_encryption_manager s) a (sv_time s) = (Some k, em)"
      and s1: "s1 = s\<lparr>sv_encryption_manager := em\<rparr>"
    using look c *(2) by (auto simp: server_lookup_sender_def split: option.splits prod.splits)
  then have k: "k < em_num_encryption_mappings (sv_encryption_manager s)" "em_matches (sv_encryption_manager s) a (sv_time s) k"
      "em = (sv_encryption_manager s)\<lparr>em_last_access_time := (em_last_access_time (sv_encryption_manager s))(k := sv_time s)\<rparr>"
    by (auto simp: netcode_encryption_manager_find_encryption_mapping_def first_index_Some split: option.splits)
  have "key = Some (em_receive_key (sv_encryption_manager s) k)"
    using key *(2) k by (auto simp: s1 netcode_encryption_manager_get_receive_key_def em_index_def)
  moreover have "challenge_opens cr s n data t" using *(3) by (simp add: \<open>s2 = s1\<close> s1 challenge_opens_def)
  moreover have "admitted s a k t i s'"
    using *(4) by (simp add: \<open>s2 = s1\<close> s1 admitted_def k(3) netcode_encryption_manager_get_timeout_def em_index_def
        netcode_server_find_client_index_by_address_def netcode_server_find_client_index_by_id_def
        netcode_server_find_free_client_index_def cong: if_cong)
  ultimately show ?thesis using read *(1) k(1,2) by (simp add: ptr c) blast
qed

text \<open>The request of a client and the server's answer, each read from the datagram that was sent last.\<close>

definition request_exchange ::
    "crypto \<Rightarrow> netcode_address \<Rightarrow> dbl \<Rightarrow> (netcode_client \<times> world) \<times> (netcode_server \<times> world) \<Rightarrow>
     ((netcode_client \<times> world) \<times> (netcode_server \<times> world)) option" where
  "request_exchange cr client_address t = (\<lambda>((c, cw), (s, sw)).
     do { let server_address = cl_server_address c;
          (c, cw) \<leftarrow> netcode_client_send_packets cr (c\<lparr>cl_time := t\<rparr>) cw;
          (s, sw) \<leftarrow> netcode_server_read_and_process_packet cr s client_address (last_datagram cw) (w_timestamp sw) sw;
          (c, cw) \<leftarrow> client_hears cr c server_address (last_datagram sw) cw;
          Some ((c, cw), (s, sw)) })"

text \<open>C22: a full server denies a valid request, and the client hears it. The client is marked to be disconnected as denied, and
  the server's slots, its number of clients and the keys of its mappings are what they were.\<close>

theorem full_server_denies:
  assumes laws: "aead_laws cr" and server: "server_inv B s sw" "\<not> sv_network_simulator s"
    and refuses: "refuses s a opened token" and a: "address_ok a"
    and client: "on_socket c" "cl_state c = NETCODE_CLIENT_STATE_SENDING_CONNECTION_REQUEST"
      "ct_protocol_id (cl_connect_token c) = sv_protocol_id s"
    and token: "token_opens cr c (sv_private_key s) opened token" "w_timestamp sw < ct_expire_timestamp (cl_connect_token c)"
    and mem: "heap_inv (w_heap cw)" "\<forall>n. \<not> h_out_of_memory (w_heap cw) n" "\<forall>n. \<not> h_out_of_memory (w_heap sw) n"
    and time: "cl_last_packet_send_time c + 1 / NETCODE_PACKET_SEND_RATE < t"
  shows "\<exists>c' cw' s' sw'. request_exchange cr a t ((c, cw), (s, sw)) = Some ((c', cw'), (s', sw'))
    \<and> cl_should_disconnect c' \<and> cl_should_disconnect_state c' = NETCODE_CLIENT_STATE_CONNECTION_DENIED
    \<and> same_slots s s' \<and> sv_num_connected_clients s' = sv_num_connected_clients s
    \<and> em_contents (sv_encryption_manager s') = em_contents (sv_encryption_manager s)
    \<and> em_num_encryption_mappings (sv_encryption_manager s') = em_num_encryption_mappings (sv_encryption_manager s)"
proof -
  note opens = token(1) [unfolded token_opens_def]
  have wf: "connect_token_private_wf token" using opens private_token_wf by blast
  then have key: "length (ctp_server_to_client_key token) = NETCODE_KEY_BYTES" by (simp add: connect_token_private_wf_def)
  let ?A = "cl_server_address c"
  let ?c = "c\<lparr>cl_time := t\<rparr>"
  have c: "on_socket ?c" "token_opens cr ?c (sv_private_key s) opened token"
    using client(1) token(1) by (simp_all add: on_socket_def token_opens_def)
  obtain d1 where 1: "netcode_client_send_packets cr ?c cw
      = Some (?c\<lparr>cl_sequence := cl_sequence c + 1, cl_last_packet_send_time := t\<rparr>, posted cw (cl_socket c) ?A d1)"
    "1 < length d1" "hd d1 = 0"
    "\<And>k. netcode_read_packet cr d1 k (sv_protocol_id s) (w_timestamp sw) (Some (sv_private_key s)) server_allowed_packets None (w_heap sw)
      = Some (Some (h_next (w_heap sw)), 0, None, snd (netcode_default_allocate_function
          (Packet_block (CONNECTION_REQUEST_PACKET (opened_request c opened))) (w_heap sw)))"
    by (rule request_sent [OF c(1) _ _ c(2), of "w_timestamp sw" "w_heap sw" cw])
      (use client time token mem in \<open>simp_all add: opened_request_def\<close>)
  have rq: "rq_connect_token_data (opened_request c opened) = opened" by (simp add: opened_request_def)
  obtain es em d2 where 2: "netcode_server_read_and_process_packet cr s a d1 (w_timestamp sw) sw
      = Some (s\<lparr>sv_encryption_manager := em, sv_connect_token_entries := es, sv_global_sequence := sv_global_sequence s + 1\<rparr>,
          used_block (posted sw (sv_socket s) a d2))"
    "carries cr (sv_protocol_id s) (ctp_server_to_client_key token) (sv_global_sequence s) d2 CONNECTION_DENIED_PACKET"
    "em = snd (netcode_encryption_manager_find_encryption_mapping (sv_encryption_manager s) a (sv_time s))"
    by (rule request_refused [OF laws server a key, of "opened_request c opened" d1 "w_timestamp sw"])
      (use opens refuses mem 1 in \<open>simp_all add: rq\<close>)
  let ?c1 = "?c\<lparr>cl_sequence := cl_sequence c + 1, cl_last_packet_send_time := t\<rparr>"
  have A: "address_ok ?A" using client(1) by (simp add: on_socket_def)
  obtain cw2 where 3: "client_hears cr ?c1 ?A d2 (posted cw (cl_socket c) ?A d1)
      = Some (?c1\<lparr>cl_should_disconnect := True, cl_should_disconnect_state := NETCODE_CLIENT_STATE_CONNECTION_DENIED,
          cl_last_packet_receive_time := t\<rparr>, cw2)"
    using denied_heard [of cr ?c1 "sv_global_sequence s" d2 "posted cw (cl_socket c) ?A d1"] 2(2) client opens mem A by auto
  have "em_contents em = em_contents (sv_encryption_manager s)"
      "em_num_encryption_mappings em = em_num_encryption_mappings (sv_encryption_manager s)"
    by (auto simp: 2(3) netcode_encryption_manager_find_encryption_mapping_def em_contents_def split: option.split)
  with 1(1) 2(1) 3 show ?thesis by (simp add: request_exchange_def same_slots_def)
qed

text \<open>A server with a mapping for the sender of a response.\<close>

theorem slot_filled_only_with_challenge_witness:
  "\<exists>em d s' w' e p m rp h n data t.
     netcode_server_read_and_process_packet clear_crypto (waiting_server\<lparr>sv_encryption_manager := em\<rparr>) example_address d 100 empty_world
       = Some (s', w')
     \<and> \<not> sv_client_connected waiting_server 0 \<and> sv_client_connected s' 0
     \<and> netcode_read_packet clear_crypto d (Some (em_receive_key em e)) 7 100 (Some (replicate 32 9)) server_allowed_packets None
         (w_heap empty_world) = Some (Some p, m, rp, h)
     \<and> w_packet p (empty_world\<lparr>w_heap := h\<rparr>) = Some (CONNECTION_RESPONSE_PACKET n data)
     \<and> challenge_opens clear_crypto waiting_server n data t \<and> sv_client_id s' 0 = cht_client_id t"
proof -
  let ?sk = "replicate 32 2 :: bytes" and ?rk = "replicate 32 1 :: bytes"
  obtain em e where add: "netcode_encryption_manager_add_encryption_mapping netcode_encryption_manager_reset example_address ?sk ?rk
      0 (0 + of_int 5) 5 = (True, em)"
    and slot: "em_slot em 0 example_address e (?sk, ?rk, 0 + of_int 5, 5)"
    and only: "\<forall>j < em_num_encryption_mappings em. j \<noteq> e \<longrightarrow> \<not> em_matches em example_address 0 j"
    by (rule only_mapping [OF em_ok_reset example_client(2), of 5 0 ?sk ?rk])
      (auto simp: netcode_encryption_manager_reset_def em_free_def zero_address_def intro: exI [of _ 0])
  have "em_ok em"
    using em_add_ok [OF em_ok_reset example_client(2), of "(?sk, ?rk, 5, 5)" 0] add by (simp add: em_add_def)
  let ?s = "waiting_server\<lparr>sv_encryption_manager := em\<rparr>"
  have inv: "server_inv {} ?s empty_world"
    using waiting_server_inv \<open>em_ok em\<close>
    by (simp add: server_inv_def server_ok_def waiting_server_def new_server_def remotes_ok_def remote_def server_ready_def slots_ok_def)
  let ?t = "\<lparr>cht_client_id = 5, cht_user_data = replicate 256 6\<rparr>"
  obtain plain sealed opened where t: "netcode_write_challenge_token ?t 300 = Some plain"
    "netcode_encrypt_challenge_token clear_crypto plain 0 (replicate 32 4) = Some (NETCODE_OK sealed)"
    "length sealed = NETCODE_CHALLENGE_TOKEN_BYTES"
    "netcode_decrypt_challenge_token clear_crypto sealed 0 (replicate 32 4) = Some (NETCODE_OK opened)"
    "netcode_read_challenge_token opened = Some (NETCODE_OK ?t)"
    by (rule sealed_challenge_token [OF clear_crypto_laws, of "replicate 32 4" ?t 0]) auto
  obtain d where d: "carries clear_crypto 7 ?rk 1 d (CONNECTION_RESPONSE_PACKET 0 sealed)"
    by (rule packet_written [OF clear_crypto_laws, of "CONNECTION_RESPONSE_PACKET 0 sealed" ?rk 1 7]) (use t(3) in auto)
  obtain i s' w' where run: "netcode_server_read_and_process_packet clear_crypto ?s example_address d 100 empty_world = Some (s', w')"
    and i: "netcode_server_find_free_client_index ?s = Some i" "remote s' i"
    by (rule response_joins [OF clear_crypto_laws inv _ example_client(2) _ _ _ _ _ _ _ _ t(5), of e ?sk ?rk 5 5 sealed 0 1 d 100])
      (use slot only t d example_client(10) in \<open>auto simp: waiting_server_def new_server_def
        netcode_server_find_client_index_by_address_def netcode_server_find_client_index_by_id_def first_index_None\<close>)
  have "i = 0" using i(1) by (simp add: waiting_server_def new_server_def netcode_server_find_free_client_index_def first_index_Some)
      (metis gr0I)
  then have "sv_client_connected s' 0" using i(2) by (simp add: remote_def)
  moreover have "\<not> sv_client_connected ?s 0" by (simp add: waiting_server_def new_server_def)
  ultimately obtain e p m rp h n data t where
      "netcode_read_packet clear_crypto d (Some (em_receive_key em e)) 7 100 (Some (replicate 32 9)) server_allowed_packets None
         (w_heap empty_world) = Some (Some p, m, rp, h)"
      "w_packet p (empty_world\<lparr>w_heap := h\<rparr>) = Some (CONNECTION_RESPONSE_PACKET n data)"
      "challenge_opens clear_crypto ?s n data t" "sv_client_id s' 0 = cht_client_id t"
    using slot_filled_only_with_challenge [OF run, of 0]
    by (auto simp: admitted_def) (simp add: waiting_server_def new_server_def)
  with run \<open>sv_client_connected s' 0\<close> \<open>\<not> sv_client_connected ?s 0\<close> show ?thesis
    unfolding challenge_opens_def by simp blast
qed

text \<open>A server with one slot, which a loopback client has taken.\<close>

definition full_server :: netcode_server where
  "full_server = waiting_server\<lparr>sv_max_clients := 1, sv_num_connected_clients := 1,
     sv_client_loopback := (\<lambda>_. False)(0 := True), sv_client_connected := (\<lambda>_. False)(0 := True), sv_client_id := (\<lambda>_. 0)(0 := 99)\<rparr>"

theorem full_server_denies_witness:
  "\<exists>sealed c cw s sw. request_exchange clear_crypto example_address 1
       ((requesting_client sealed, empty_world), (full_server, empty_world)) = Some ((c, cw), (s, sw))
    \<and> cl_should_disconnect c \<and> sv_num_connected_clients s = 1"
proof -
  obtain sealed opened where
    opens: "token_opens clear_crypto (requesting_client sealed) (sv_private_key full_server) opened example_private_token"
    and mac: "drop (NETCODE_CONNECT_TOKEN_PRIVATE_BYTES - NETCODE_MAC_BYTES) opened = replicate 16 9"
    using example_token by (auto simp: full_server_def waiting_server_def new_server_def)
  have inv: "server_inv {} full_server empty_world"
    using waiting_server_inv
    by (simp add: full_server_def server_inv_def server_ok_def waiting_server_def new_server_def remotes_ok_def remote_def
        server_ready_def slots_ok_def zero_address_def)
  have refuses: "refuses full_server example_address opened example_private_token"
    using mac
    by (simp add: refuses_def full_server_def waiting_server_def new_server_def server_address_in_token_def example_private_token_def
        first_index_None netcode_server_find_client_index_by_address_def netcode_server_find_client_index_by_id_def
        netcode_connect_token_entries_reset_def zero_address_def netcode_address_equal.simps)
  from full_server_denies [OF clear_crypto_laws inv _ refuses example_client(2,1,3) _ opens _ example_client(9,10,10), of 1]
  show ?thesis
    by (auto simp: example_client full_server_def waiting_server_def new_server_def empty_world_def intro!: exI [of _ sealed])
qed

end
