(* ===== verification/Delivery.thy ===== *)
theory Delivery
  imports Handshake
begin

text \<open>
  Payloads from end to end: what one user sends is what the other reads, in order and with its sequence numbers. A queue
  is described by what it \<open>holds\<close>: the block, the payload and the sequence number of each packet; a datagram appends to it,
  the user's reads take from it.
\<close>

section \<open>What a receive queue holds\<close>

type_synonym delivery = "nat \<times> bytes \<times> u64"

definition holds :: "packet_queue \<Rightarrow> world \<Rightarrow> delivery list \<Rightarrow> bool" where
  "holds q w xs \<longleftrightarrow> queue_inv q \<and> queue_contents q = map (\<lambda>(p, d, n). (p, n)) xs \<and> distinct (map fst xs)
     \<and> (\<forall>(p, d, n) \<in> set xs. w_packet p w = Some (CONNECTION_PAYLOAD_PACKET d) \<and> length d \<le> NETCODE_MAX_PACKET_SIZE)"

abbreviation with_block :: "netcode_packet \<Rightarrow> world \<Rightarrow> world" where
  "with_block packet w \<equiv> w\<lparr>w_heap := snd (netcode_default_allocate_function (Packet_block packet) (w_heap w))\<rparr>"

lemma with_block_packet:
  assumes "heap_inv (w_heap w)" and "\<not> h_out_of_memory (w_heap w) (h_next (w_heap w))"
  shows "w_packet p (with_block packet w) = (if p = h_next (w_heap w) then Some packet else w_packet p w)"
  using assms by (simp add: w_packet_def netcode_default_allocate_function_def)

lemma with_block_heap:
  assumes "heap_inv (w_heap w)"
  shows "heap_inv (w_heap (with_block packet w))"
    and "h_out_of_memory (w_heap (with_block packet w)) = h_out_of_memory (w_heap w)"
  using assms allocate_inv [OF assms prod.collapse [symmetric]]
  by (simp_all add: netcode_default_allocate_function_def)

lemma holds_empty: "queue_inv q \<Longrightarrow> pq_num_packets q = 0 \<Longrightarrow> holds q w []"
  by (simp add: holds_def queue_contents_def)

lemma holds_append:
  assumes h: "holds q w xs" and room: "length xs < NETCODE_PACKET_QUEUE_SIZE" and d: "length d \<le> NETCODE_MAX_PACKET_SIZE"
    and mem: "heap_inv (w_heap w)" "\<not> h_out_of_memory (w_heap w) (h_next (w_heap w))"
  shows "queue_push q (h_next (w_heap w)) n (with_block (CONNECTION_PAYLOAD_PACKET d) w)
      = Some (queue_append q (h_next (w_heap w)) n, with_block (CONNECTION_PAYLOAD_PACKET d) w)"
    and "holds (queue_append q (h_next (w_heap w)) n) (with_block (CONNECTION_PAYLOAD_PACKET d) w) (xs @ [(h_next (w_heap w), d, n)])"
proof -
  let ?p = "h_next (w_heap w)" and ?w = "with_block (CONNECTION_PAYLOAD_PACKET d) w"
  have "length (queue_contents q) = length xs" using h by (simp add: holds_def)
  then have q: "queue_inv q" "pq_num_packets q < 256" using h room by (simp_all add: holds_def)
  note law = queue_append_law [OF q, of ?p n]
  have "w_packet ?p w = None"
    using fresh_not_live [OF mem(1)] by (auto simp: w_packet_def live_def split: option.split)
  then have new: "?p \<notin> fst ` set xs" using h by (force simp: holds_def)
  have "w_packet p ?w = w_packet p w" if "(p, x) \<in> set xs" for p x
    using that new by (subst with_block_packet [OF mem]) force
  with h law new d show "holds (queue_append q ?p n) ?w (xs @ [(?p, d, n)])"
    by (auto simp: holds_def with_block_packet [OF mem])
  show "queue_push q ?p n ?w = Some (queue_append q ?p n, ?w)"
    using q(2) by (simp add: queue_push_def netcode_packet_queue_push_def)
qed

lemma holds_pop:
  assumes "holds q w ((p, d, n) # xs)"
  obtains q' where "netcode_packet_queue_pop q = (Some p, Some n, q')"
    and "w_packet p w = Some (CONNECTION_PAYLOAD_PACKET d)" and "length d \<le> NETCODE_MAX_PACKET_SIZE"
    and "w_free (Some p) w = Some (w\<lparr>w_heap := release [p] (w_heap w)\<rparr>)"
    and "holds q' (w\<lparr>w_heap := release [p] (w_heap w)\<rparr>) xs"
proof -
  obtain r s q' where pop: "netcode_packet_queue_pop q = (r, s, q')" by (rule prod_cases3)
  have inv: "queue_inv q" and c: "queue_contents q = (p, n) # map (\<lambda>(p, d, n). (p, n)) xs" using assms by (simp_all add: holds_def)
  have law: "r = Some p" "s = Some n" "queue_inv q'" "queue_contents q' = map (\<lambda>(p, d, n). (p, n)) xs"
    using queue_pop_law [OF inv pop] c by simp_all
  have packet: "w_packet p w = Some (CONNECTION_PAYLOAD_PACKET d)" "length d \<le> NETCODE_MAX_PACKET_SIZE"
    using assms by (simp_all add: holds_def)
  then have "p \<in> live (w_heap w)" by (auto simp: w_packet_def live_def split: option.splits)
  then have free: "w_free (Some p) w = Some (w\<lparr>w_heap := release [p] (w_heap w)\<rparr>)" by (rule w_free_live)
  have "w_packet p' (w\<lparr>w_heap := release [p] (w_heap w)\<rparr>) = w_packet p' w" if "(p', x) \<in> set xs" for p' x
  proof -
    have "p' \<noteq> p" using that assms by (force simp: holds_def)
    then show ?thesis by (simp add: w_packet_def)
  qed
  then have "holds q' (w\<lparr>w_heap := release [p] (w_heap w)\<rparr>) xs"
    using assms law by (auto simp: holds_def)
  with that pop law(1,2) packet free show ?thesis by blast
qed

section \<open>The users read\<close>

text \<open>At most \<open>k\<close> calls, until one returns no packet; each packet is freed after it was read.\<close>

fun server_reads :: "nat \<Rightarrow> int \<Rightarrow> netcode_server \<Rightarrow> world \<Rightarrow> ((bytes \<times> u64) list \<times> netcode_server \<times> world) option" where
  "server_reads 0 i s w = Some ([], s, w)"
| "server_reads (Suc k) i s w =
     do { (r, s) \<leftarrow> netcode_server_receive_packet s i w;
          (case r of
             None \<Rightarrow> Some ([], s, w)
           | Some (p, data, n) \<Rightarrow> do {
               w \<leftarrow> netcode_server_free_packet p w;
               (rest, s, w) \<leftarrow> server_reads k i s w;
               Some ((data, n) # rest, s, w) }) }"

fun client_reads :: "nat \<Rightarrow> netcode_client \<Rightarrow> world \<Rightarrow> ((bytes \<times> u64) list \<times> netcode_client \<times> world) option" where
  "client_reads 0 c w = Some ([], c, w)"
| "client_reads (Suc k) c w =
     do { (r, c) \<leftarrow> netcode_client_receive_packet c w;
          (case r of
             None \<Rightarrow> Some ([], c, w)
           | Some (p, data, n) \<Rightarrow> do {
               w \<leftarrow> netcode_client_free_packet p w;
               (rest, c, w) \<leftarrow> client_reads k c w;
               Some ((data, n) # rest, c, w) }) }"

lemma server_reads_held:
  "holds (sv_client_packet_queue s i) w xs \<Longrightarrow> sv_running s \<Longrightarrow> sv_client_connected s i \<Longrightarrow> i < sv_max_clients s \<Longrightarrow>
   sv_max_clients s \<le> NETCODE_MAX_CLIENTS \<Longrightarrow> length xs < k \<Longrightarrow>
   \<exists>s' w'. server_reads k (int i) s w = Some (map snd xs, s', w')"
proof (induction xs arbitrary: s w k)
  case Nil
  then obtain k' where k: "k = Suc k'" by (cases k) auto
  have "pq_num_packets (sv_client_packet_queue s i) = 0"
    using Nil(1) by (simp add: holds_def flip: length_queue_contents)
  with Nil k show ?case
    by (simp add: netcode_server_receive_packet_def slot_index_Some netcode_packet_queue_pop_def)
next
  case (Cons x xs)
  obtain p d n where x: "x = (p, d, n)" by (rule prod_cases3)
  obtain k' where k: "k = Suc k'" using Cons.prems(6) by (cases k) auto
  let ?w = "w\<lparr>w_heap := release [p] (w_heap w)\<rparr>"
  obtain q' where pop: "netcode_packet_queue_pop (sv_client_packet_queue s i) = (Some p, Some n, q')"
    "w_packet p w = Some (CONNECTION_PAYLOAD_PACKET d)" "length d \<le> NETCODE_MAX_PACKET_SIZE"
    "w_free (Some p) w = Some ?w" "holds q' ?w xs"
    by (rule holds_pop [OF Cons.prems(1) [unfolded x]])
  let ?s = "s\<lparr>sv_client_packet_queue := (sv_client_packet_queue s)(i := q')\<rparr>"
  obtain s' w' where "server_reads k' (int i) ?s ?w = Some (map snd xs, s', w')"
    using Cons.IH [of ?s ?w k'] Cons.prems pop(5) k by auto
  with pop Cons.prems k x show ?case
    by (simp add: netcode_server_receive_packet_def slot_index_Some netcode_server_free_packet_def)
qed

lemma client_reads_held:
  "holds (cl_packet_receive_queue c) w xs \<Longrightarrow> length xs < k \<Longrightarrow> \<exists>c' w'. client_reads k c w = Some (map snd xs, c', w')"
proof (induction xs arbitrary: c w k)
  case Nil
  then obtain k' where k: "k = Suc k'" by (cases k) auto
  have "pq_num_packets (cl_packet_receive_queue c) = 0"
    using Nil(1) by (simp add: holds_def flip: length_queue_contents)
  with k show ?case by (simp add: netcode_client_receive_packet_def netcode_packet_queue_pop_def)
next
  case (Cons x xs)
  obtain p d n where x: "x = (p, d, n)" by (rule prod_cases3)
  obtain k' where k: "k = Suc k'" using Cons.prems(2) by (cases k) auto
  let ?w = "w\<lparr>w_heap := release [p] (w_heap w)\<rparr>"
  obtain q' where pop: "netcode_packet_queue_pop (cl_packet_receive_queue c) = (Some p, Some n, q')"
    "w_packet p w = Some (CONNECTION_PAYLOAD_PACKET d)" "length d \<le> NETCODE_MAX_PACKET_SIZE"
    "w_free (Some p) w = Some ?w" "holds q' ?w xs"
    by (rule holds_pop [OF Cons.prems(1) [unfolded x]])
  let ?c = "c\<lparr>cl_packet_receive_queue := q'\<rparr>"
  obtain c' w' where "client_reads k' ?c ?w = Some (map snd xs, c', w')"
    using Cons.IH [of ?c ?w k'] Cons.prems(2) pop(5) k by auto
  with pop k x show ?case by (simp add: netcode_client_receive_packet_def netcode_client_free_packet_def)
qed

section \<open>Fresh sequence numbers\<close>

text \<open>All numbers that were accepted so far are below \<open>n\<close>.\<close>

definition all_before :: "replay_protection \<Rightarrow> u64 \<Rightarrow> bool" where
  "all_before rp n \<longleftrightarrow> (\<exists>S. replay_inv rp S \<and> (\<forall>m \<in> S. unat m < unat n))"

lemma all_before_reset: "all_before netcode_replay_protection_reset n"
  using replay_inv_reset by (auto simp: all_before_def)

lemma fresh_accepted:
  assumes "all_before rp n" and lt: "unat n < 2 ^ 63" and type: "4 \<le> type"
  obtains rp' where "check_replay (Some rp) type n = (False, Some rp')" and "all_before rp' (n + 1)"
proof -
  obtain S where S: "replay_inv rp S" "\<forall>m \<in> S. unat m < unat n" using assms(1) by (auto simp: all_before_def)
  obtain r rp' where run: "netcode_replay_protection_packet_already_received rp n = (r, rp')" by fastforce
  have "finite S" using S(1) by (simp add: replay_inv_def)
  then have "newest S \<le> unat n" using S(2) by (auto simp: newest_def intro: less_imp_le)
  with already_received_spec [OF S(1) lt run] S(2) have "\<not> r" "replay_inv rp' (insert n S)" by auto
  moreover have "unat (n + 1) = unat n + 1" using lt by (simp add: unat_word_ariths)
  ultimately show ?thesis using S(2) run type
    by (intro that [of rp']) (auto simp: check_replay_def all_before_def intro!: exI [of _ "insert n S"])
qed

section \<open>One payload\<close>

text \<open>The client \<open>c\<close> and the server's slot \<open>i\<close> belong together: both are connected, over sockets, with the same keys and protocol.\<close>

definition session :: "netcode_client \<Rightarrow> netcode_server \<Rightarrow> nat \<Rightarrow> bool" where
  "session c s i \<longleftrightarrow> on_socket c \<and> cl_state c = NETCODE_CLIENT_STATE_CONNECTED \<and> \<not> sv_network_simulator s \<and> remote s i
     \<and> ct_protocol_id (cl_connect_token c) = sv_protocol_id s
     \<and> (\<exists>e. sv_client_encryption_index s i = Some e
          \<and> cx_write_packet_key (cl_context c) = em_receive_key (sv_encryption_manager s) e
          \<and> cx_read_packet_key (cl_context c) = em_send_key (sv_encryption_manager s) e)"

definition sendable :: "bytes \<Rightarrow> u64 \<Rightarrow> bool" where
  "sendable data n \<longleftrightarrow> 1 \<le> length data \<and> length data \<le> NETCODE_MAX_PACKET_SIZE
     \<and> wire_bytes (CONNECTION_PAYLOAD_PACKET data) n \<le> NETCODE_MAX_PACKET_BYTES \<and> unat n < 2 ^ 63"

lemma find_remote:
  assumes ok: "server_ok s" and i: "remote s i"
  shows "netcode_server_find_client_index_by_address s (sv_client_address s i) = Some i"
proof -
  note a = remotes_okD(1) [OF ok i]
  have "sv_client_connected s i" "i < sv_max_clients s" using i server_ok_remote [OF ok i] by (simp_all add: remote_def)
  moreover have "j = i" if "sv_client_connected s j" "netcode_address_equal (sv_client_address s j) (sv_client_address s i)" for j
  proof -
    have "\<not> sv_client_loopback s j"
      using ok a address_equal_type [OF that(2)] by (auto simp: server_ok_def remotes_ok_def address_ok_def)
    then have j: "remote s j" using that(1) by (simp add: remote_def)
    have "sv_client_address s j = sv_client_address s i"
      using that(2) a remotes_okD(1) [OF ok j] by (simp add: address_ok_def address_equal_iff)
    with ok i j show "j = i" unfolding server_ok_def remotes_ok_def by blast
  qed
  ultimately show ?thesis
    using a by (auto simp: netcode_server_find_client_index_by_address_def first_index_Some address_ok_def)
qed

text \<open>The server queues the payload of a datagram.\<close>

lemma server_takes_payload:
  assumes inv: "server_inv B s w" and i: "remote s i" and e: "sv_client_encryption_index s i = Some e"
    and d: "carries cr (sv_protocol_id s) (em_receive_key (sv_encryption_manager s) e) n d (CONNECTION_PAYLOAD_PACKET data)"
    and fresh: "check_replay (Some (sv_client_replay_protection s i)) 5 n = (False, Some rp)"
    and data: "length data \<le> NETCODE_MAX_PACKET_SIZE" and held: "holds (sv_client_packet_queue s i) w xs"
    and room: "length xs < NETCODE_PACKET_QUEUE_SIZE" and mem: "\<not> h_out_of_memory (w_heap w) (h_next (w_heap w))"
  obtains q where "netcode_server_read_and_process_packet cr s (sv_client_address s i) d now w
      = Some ((server_heard_from (s\<lparr>sv_client_replay_protection := (sv_client_replay_protection s)(i := rp)\<rparr>) i)
          \<lparr>sv_client_packet_queue := (sv_client_packet_queue s)(i := q)\<rparr>, with_block (CONNECTION_PAYLOAD_PACKET data) w)"
    and "holds q (with_block (CONNECTION_PAYLOAD_PACKET data) w) (xs @ [(h_next (w_heap w), data, n)])"
proof -
  note ok = server_inv_ok [OF inv]
  have heap: "heap_inv (w_heap w)" using server_inv_world [OF inv] by (simp add: world_inv_def sim_inv_def)
  let ?p = "h_next (w_heap w)" and ?w = "with_block (CONNECTION_PAYLOAD_PACKET data) w"
  let ?s = "s\<lparr>sv_client_replay_protection := (sv_client_replay_protection s)(i := rp)\<rparr>"
  have look: "server_lookup_sender s (sv_client_address s i) = (Some e, Some i, s)"
    using find_remote [OF ok i] e by (simp add: server_lookup_sender_def)
  have "leased s i" using remotes_okD(2) [OF ok i] .
  then have key: "netcode_encryption_manager_get_receive_key (sv_encryption_manager s) (Some e)
      = Some (Some (em_receive_key (sv_encryption_manager s) e))"
    using e by (simp add: leased_def netcode_encryption_manager_get_receive_key_def em_index_def)
  have run: "sv_running s" and len: "1 < length d" using server_ok_remote [OF ok i] d by (simp_all add: carries_def)
  have read: "netcode_read_packet cr d (Some (em_receive_key (sv_encryption_manager s) e)) (sv_protocol_id s) now
      (Some (sv_private_key s)) server_allowed_packets (Some (sv_client_replay_protection s i)) (w_heap w)
    = Some (Some ?p, n, Some rp, w_heap ?w)"
    using d fresh mem by (simp add: carries_def server_allowed_packets_def)
  note push = holds_append [OF held room data heap mem, of n]
  have "netcode_server_process_packet cr ?s (sv_client_address s i) ?p n (Some e) (Some i) ?w
    = Some ((server_heard_from ?s i)\<lparr>sv_client_packet_queue := (sv_client_packet_queue s)(i := queue_append (sv_client_packet_queue s i) ?p n)\<rparr>, ?w)"
    using push(1) with_block_packet [OF heap mem]
    by (simp add: netcode_server_process_packet_def Let_def server_heard_from_def)
  with run len look key read
  have "netcode_server_read_and_process_packet cr s (sv_client_address s i) d now w
    = Some ((server_heard_from ?s i)\<lparr>sv_client_packet_queue := (sv_client_packet_queue s)(i := queue_append (sv_client_packet_queue s i) ?p n)\<rparr>, ?w)"
    by (simp add: netcode_server_read_and_process_packet_def Let_def)
  then show ?thesis by (rule that) (rule push(2))
qed

text \<open>The client queues the payload of a datagram.\<close>

lemma client_takes_payload:
  assumes c: "on_socket c" "cl_state c = NETCODE_CLIENT_STATE_CONNECTED"
    and d: "carries cr (ct_protocol_id (cl_connect_token c)) (cx_read_packet_key (cl_context c)) n d (CONNECTION_PAYLOAD_PACKET data)"
    and fresh: "check_replay (Some (cl_replay_protection c)) 5 n = (False, Some rp)"
    and data: "length data \<le> NETCODE_MAX_PACKET_SIZE" and held: "holds (cl_packet_receive_queue c) w xs"
    and room: "length xs < NETCODE_PACKET_QUEUE_SIZE"
    and mem: "heap_inv (w_heap w)" "\<not> h_out_of_memory (w_heap w) (h_next (w_heap w))"
  obtains q where "client_hears cr c (cl_server_address c) d w
      = Some (c\<lparr>cl_replay_protection := rp, cl_packet_receive_queue := q, cl_last_packet_receive_time := cl_time c\<rparr>,
          with_block (CONNECTION_PAYLOAD_PACKET data) w)"
    and "holds q (with_block (CONNECTION_PAYLOAD_PACKET data) w) (xs @ [(h_next (w_heap w), data, n)])"
proof -
  let ?p = "h_next (w_heap w)" and ?w = "with_block (CONNECTION_PAYLOAD_PACKET data) w"
  note push = holds_append [OF held room data mem, of n]
  have read: "client_read_packet cr (w_timestamp w) d c w = Some ((Some ?p, n), c\<lparr>cl_replay_protection := rp\<rparr>, ?w)"
    using d fresh mem(2) by (simp add: client_read_packet_def carries_def client_allowed_packets_def)
  have "netcode_client_process_packet (c\<lparr>cl_replay_protection := rp\<rparr>) (cl_server_address c) ?p n ?w
    = Some (c\<lparr>cl_replay_protection := rp, cl_packet_receive_queue := queue_append (cl_packet_receive_queue c) ?p n,
        cl_last_packet_receive_time := cl_time c\<rparr>, ?w)"
    using c push(1) with_block_packet [OF mem]
    by (simp add: netcode_client_process_packet_def client_handle_packet_def on_socket_def address_ok_def)
  with read have "client_hears cr c (cl_server_address c) d w
    = Some (c\<lparr>cl_replay_protection := rp, cl_packet_receive_queue := queue_append (cl_packet_receive_queue c) ?p n,
        cl_last_packet_receive_time := cl_time c\<rparr>, ?w)"
    by (simp add: client_hears_def)
  then show ?thesis by (rule that) (rule push(2))
qed

section \<open>Streams\<close>

text \<open>The user of one side sends payloads one after the other, and each datagram arrives before the next is sent.\<close>

fun upstream ::
    "crypto \<Rightarrow> netcode_address \<Rightarrow> bytes list \<Rightarrow> (netcode_client \<times> world) \<times> (netcode_server \<times> world) \<Rightarrow>
     ((netcode_client \<times> world) \<times> (netcode_server \<times> world)) option" where
  "upstream cr a [] x = Some x"
| "upstream cr a (data # datas) ((c, cw), (s, sw)) =
     do { (c, cw) \<leftarrow> netcode_client_send_packet cr c data cw;
          (s, sw) \<leftarrow> netcode_server_read_and_process_packet cr s a (last_datagram cw) (w_timestamp sw) sw;
          upstream cr a datas ((c, cw), (s, sw)) }"

fun downstream ::
    "crypto \<Rightarrow> nat \<Rightarrow> bytes list \<Rightarrow> (netcode_client \<times> world) \<times> (netcode_server \<times> world) \<Rightarrow>
     ((netcode_client \<times> world) \<times> (netcode_server \<times> world)) option" where
  "downstream cr i [] x = Some x"
| "downstream cr i (data # datas) ((c, cw), (s, sw)) =
     do { (s, sw) \<leftarrow> netcode_server_send_packet cr s (int i) data sw;
          (c, cw) \<leftarrow> client_hears cr c (cl_server_address c) (last_datagram sw) cw;
          downstream cr i datas ((c, cw), (s, sw)) }"

text \<open>The payloads with the sequence numbers they are sent with.\<close>

fun numbered :: "u64 \<Rightarrow> bytes list \<Rightarrow> (bytes \<times> u64) list" where
  "numbered n [] = []"
| "numbered n (data # datas) = (data, n) # numbered (n + 1) datas"

lemma payload_sent:
  assumes laws: "aead_laws cr" and key: "length key = NETCODE_KEY_BYTES" and ok: "sendable data n"
  obtains d where "netcode_write_packet cr (CONNECTION_PAYLOAD_PACKET data) NETCODE_MAX_PACKET_BYTES n key pid = Some (NETCODE_OK d)"
    and "d \<noteq> []" and "length d \<le> NETCODE_MAX_PACKET_BYTES" and "carries cr pid key n d (CONNECTION_PAYLOAD_PACKET data)"
proof -
  have p: "packet_wf (CONNECTION_PAYLOAD_PACKET data)" "\<not> is_request (CONNECTION_PAYLOAD_PACKET data)"
      "wire_bytes (CONNECTION_PAYLOAD_PACKET data) n \<le> NETCODE_MAX_PACKET_BYTES"
    using ok by (auto simp: sendable_def)
  obtain d where d: "netcode_write_packet cr (CONNECTION_PAYLOAD_PACKET data) NETCODE_MAX_PACKET_BYTES n key pid = Some (NETCODE_OK d)"
    "length d \<le> NETCODE_MAX_PACKET_BYTES" "carries cr pid key n d (CONNECTION_PAYLOAD_PACKET data)"
    by (rule datagram_written [OF laws p(1,2) key p(3)])
  moreover have "d \<noteq> []" using d(3) by (auto simp: carries_def)
  ultimately show ?thesis using that by blast
qed

lemma upstream_runs:
  assumes laws: "aead_laws cr"
  shows "server_inv B s sw \<Longrightarrow> session c s i \<Longrightarrow> a = sv_client_address s i \<Longrightarrow> length xs + length datas \<le> NETCODE_PACKET_QUEUE_SIZE \<Longrightarrow>
    \<forall>(data, n) \<in> set (numbered (cl_sequence c) datas). sendable data n \<Longrightarrow>
    all_before (sv_client_replay_protection s i) (cl_sequence c) \<Longrightarrow> holds (sv_client_packet_queue s i) sw xs \<Longrightarrow>
    \<forall>n. \<not> h_out_of_memory (w_heap sw) n \<Longrightarrow>
    \<exists>c' cw' s' sw' ys. upstream cr a datas ((c, cw), (s, sw)) = Some ((c', cw'), (s', sw')) \<and> server_inv B s' sw'
      \<and> remote s' i \<and> holds (sv_client_packet_queue s' i) sw' (xs @ ys) \<and> map snd ys = numbered (cl_sequence c) datas"
proof (induction datas arbitrary: c cw s sw xs)
  case Nil
  then show ?case by (auto simp: session_def intro!: exI [of _ "[]"])
next
  case (Cons data datas)
  note inv = Cons.prems(1) and S = Cons.prems(2) [unfolded session_def] and a = Cons.prems(3)
  note ok = server_inv_ok [OF inv]
  have heap: "heap_inv (w_heap sw)" using server_inv_world [OF inv] by (simp add: world_inv_def sim_inv_def)
  have i: "remote s i" and c: "on_socket c" "cl_state c = NETCODE_CLIENT_STATE_CONNECTED" using S by auto
  obtain e where e: "sv_client_encryption_index s i = Some e"
      "cx_write_packet_key (cl_context c) = em_receive_key (sv_encryption_manager s) e"
    using S by blast
  have key: "length (cx_write_packet_key (cl_context c)) = NETCODE_KEY_BYTES"
    using ok e(2) by (simp add: server_ok_def em_ok_def)
  have send: "sendable data (cl_sequence c)" using Cons.prems(5) by simp
  obtain d where d: "netcode_write_packet cr (CONNECTION_PAYLOAD_PACKET data) NETCODE_MAX_PACKET_BYTES (cl_sequence c)
        (cx_write_packet_key (cl_context c)) (sv_protocol_id s) = Some (NETCODE_OK d)" "d \<noteq> []" "length d \<le> NETCODE_MAX_PACKET_BYTES"
      "carries cr (sv_protocol_id s) (cx_write_packet_key (cl_context c)) (cl_sequence c) d (CONNECTION_PAYLOAD_PACKET data)"
    by (rule payload_sent [OF laws key send, where pid = "sv_protocol_id s"])
  let ?c = "c\<lparr>cl_sequence := cl_sequence c + 1, cl_last_packet_send_time := cl_time c\<rparr>"
  let ?cw = "posted cw (cl_socket c) (cl_server_address c) d"
  have 1: "netcode_client_send_packet cr c data cw = Some (?c, ?cw)"
    using client_posts [OF c(1), of cr "CONNECTION_PAYLOAD_PACKET data" d cw] d S send
    by (simp add: netcode_client_send_packet_def sendable_def on_socket_def)
  obtain rp where rp: "check_replay (Some (sv_client_replay_protection s i)) 5 (cl_sequence c) = (False, Some rp)"
      "all_before rp (cl_sequence c + 1)"
    by (rule fresh_accepted [OF Cons.prems(6), of 5]) (use send in \<open>simp_all add: sendable_def\<close>)
  have len: "length data \<le> NETCODE_MAX_PACKET_SIZE" "length xs < NETCODE_PACKET_QUEUE_SIZE"
    using send Cons.prems(4) by (simp_all add: sendable_def)
  let ?x = "(h_next (w_heap sw), data, cl_sequence c)" and ?sw = "with_block (CONNECTION_PAYLOAD_PACKET data) sw"
  obtain q where "netcode_server_read_and_process_packet cr s (sv_client_address s i) d (w_timestamp sw) sw
      = Some ((server_heard_from (s\<lparr>sv_client_replay_protection := (sv_client_replay_protection s)(i := rp)\<rparr>) i)
          \<lparr>sv_client_packet_queue := (sv_client_packet_queue s)(i := q)\<rparr>, ?sw)" (is "_ = Some (?s, _)")
    and q: "holds q ?sw (xs @ [?x])"
    by (rule server_takes_payload [OF inv i e(1) _ rp(1) len(1) Cons.prems(7) len(2), of cr d "w_timestamp sw"])
      (use d(4) e(2) Cons.prems(8) in simp_all)
  note 2 = this(1) [folded a]
  have kept: "server_kept B s sw (?s, ?sw)"
    using runs_SomeD [OF runs_read_and_process [OF laws inv] 2] remotes_okD(1) [OF ok i] a by simp
  then have inv': "server_inv B ?s ?sw" by (simp add: server_kept_def)
  have S': "session ?c ?s i" using S by (simp add: session_def server_heard_from_def remote_def on_socket_def)
  obtain c' cw' s' sw' ys where "upstream cr a datas ((?c, ?cw), (?s, ?sw)) = Some ((c', cw'), (s', sw'))" "server_inv B s' sw'"
      "remote s' i" "holds (sv_client_packet_queue s' i) sw' ((xs @ [?x]) @ ys)" "map snd ys = numbered (cl_sequence ?c) datas"
    using Cons.IH [OF inv' S', of "xs @ [?x]" ?cw] a Cons.prems(4,5,8) rp(2) q with_block_heap(2) [OF heap]
    by (auto simp: server_heard_from_def)
  with 1 2 show ?case by (auto intro!: exI [of _ "?x # ys"])
qed

lemma downstream_runs:
  assumes laws: "aead_laws cr"
  shows "server_inv B s sw \<Longrightarrow> session c s i \<Longrightarrow> sv_client_confirmed s i \<Longrightarrow> length xs + length datas \<le> NETCODE_PACKET_QUEUE_SIZE \<Longrightarrow>
    \<forall>(data, n) \<in> set (numbered (sv_client_sequence s i) datas). sendable data n \<Longrightarrow>
    all_before (cl_replay_protection c) (sv_client_sequence s i) \<Longrightarrow> holds (cl_packet_receive_queue c) cw xs \<Longrightarrow>
    heap_inv (w_heap cw) \<Longrightarrow> \<forall>n. \<not> h_out_of_memory (w_heap cw) n \<Longrightarrow>
    \<exists>c' cw' s' sw' ys. downstream cr i datas ((c, cw), (s, sw)) = Some ((c', cw'), (s', sw')) \<and> server_inv B s' sw'
      \<and> holds (cl_packet_receive_queue c') cw' (xs @ ys) \<and> map snd ys = numbered (sv_client_sequence s i) datas"
proof (induction datas arbitrary: c cw s sw xs)
  case Nil
  then show ?case by (auto intro!: exI [of _ "[]"])
next
  case (Cons data datas)
  note inv = Cons.prems(1) and S = Cons.prems(2) [unfolded session_def]
  note ok = server_inv_ok [OF inv]
  have i: "remote s i" and c: "on_socket c" "cl_state c = NETCODE_CLIENT_STATE_CONNECTED" using S by auto
  have index: "slot_index s (int i) = Some i" and run: "sv_running s"
    using server_ok_remote [OF ok i] by (simp_all add: slot_index_Some)
  have sock: "\<not> sv_network_simulator s" "so_handle (sv_socket s) \<noteq> 0"
    using S ok by (auto simp: server_ok_def server_ready_def)
  obtain e where e: "sv_client_encryption_index s i = Some e"
      and key: "cx_read_packet_key (cl_context c) = em_send_key (sv_encryption_manager s) e"
        "cx_write_packet_key (cl_context c) = em_receive_key (sv_encryption_manager s) e"
    using S by blast
  have send: "sendable data (sv_client_sequence s i)" using Cons.prems(5) by simp
  obtain e' x where e': "sv_client_encryption_index s i = Some e'"
    and len: "length (em_send_key (sv_encryption_manager s) e') = NETCODE_KEY_BYTES"
    and eq: "\<forall>packet w. netcode_server_send_client_packet cr s packet i w =
     do { r \<leftarrow> netcode_write_packet cr packet NETCODE_MAX_PACKET_BYTES (sv_client_sequence s i)
            (em_send_key (sv_encryption_manager s) e') (sv_protocol_id s);
          c_assert (length (case r of NETCODE_OK b \<Rightarrow> b | NETCODE_ERROR \<Rightarrow> []) \<le> NETCODE_MAX_PACKET_BYTES);
          w \<leftarrow> server_transmit s (sv_client_address s i) (case r of NETCODE_OK b \<Rightarrow> b | NETCODE_ERROR \<Rightarrow> []) w;
          Some (server_sent s i, w) }"
    by (rule server_send_client_eq [OF ok i, of cr])
  have [simp]: "e' = e" using e e' by simp
  obtain d where d: "netcode_write_packet cr (CONNECTION_PAYLOAD_PACKET data) NETCODE_MAX_PACKET_BYTES (sv_client_sequence s i)
        (em_send_key (sv_encryption_manager s) e) (sv_protocol_id s) = Some (NETCODE_OK d)" "d \<noteq> []" "length d \<le> NETCODE_MAX_PACKET_BYTES"
      "carries cr (sv_protocol_id s) (em_send_key (sv_encryption_manager s) e) (sv_client_sequence s i) d (CONNECTION_PAYLOAD_PACKET data)"
    by (rule payload_sent [OF laws len [simplified] send, where pid = "sv_protocol_id s"])
  let ?s = "server_sent s i" and ?sw = "posted sw (sv_socket s) (sv_client_address s i) d"
  have 1: "netcode_server_send_packet cr s (int i) data sw = Some (?s, ?sw)"
    using index run i Cons.prems(3) send eq d sock socket_sends [OF sock(2) remotes_okD(1) [OF ok i] d(2)]
    by (simp add: netcode_server_send_packet_def sendable_def remote_def server_transmit_def)
  have "server_may_send s (int i) data"
    using send server_ok_remote [OF ok i] i Cons.prems(3) by (simp add: server_may_send_def sendable_def remote_def)
  from runs_SomeD [OF runs_server_send_payload [OF laws inv this] 1] have inv': "server_inv B ?s ?sw" by (simp add: server_kept_def)
  obtain rp where rp: "check_replay (Some (cl_replay_protection c)) 5 (sv_client_sequence s i) = (False, Some rp)"
      "all_before rp (sv_client_sequence s i + 1)"
    by (rule fresh_accepted [OF Cons.prems(6), of 5]) (use send in \<open>simp_all add: sendable_def\<close>)
  have room: "length data \<le> NETCODE_MAX_PACKET_SIZE" "length xs < NETCODE_PACKET_QUEUE_SIZE"
    using send Cons.prems(4) by (simp_all add: sendable_def)
  let ?x = "(h_next (w_heap cw), data, sv_client_sequence s i)" and ?cw = "with_block (CONNECTION_PAYLOAD_PACKET data) cw"
  obtain q where 2: "client_hears cr c (cl_server_address c) d cw
      = Some (c\<lparr>cl_replay_protection := rp, cl_packet_receive_queue := q, cl_last_packet_receive_time := cl_time c\<rparr>, ?cw)"
      (is "_ = Some (?c, _)")
    and q: "holds q ?cw (xs @ [?x])"
    by (rule client_takes_payload [OF c _ rp(1) room(1) Cons.prems(7) room(2) Cons.prems(8)])
      (use d(4) key S Cons.prems(9) in simp_all)
  have S': "session ?c ?s i" using S e key by (simp add: session_def server_sent_def remote_def on_socket_def)
  obtain c' cw' s' sw' ys where "downstream cr i datas ((?c, ?cw), (?s, ?sw)) = Some ((c', cw'), (s', sw'))" "server_inv B s' sw'"
      "holds (cl_packet_receive_queue c') cw' ((xs @ [?x]) @ ys)" "map snd ys = numbered (sv_client_sequence ?s i) datas"
    using Cons.IH [OF inv' S', of "xs @ [?x]" ?cw] Cons.prems(3,4,5,9) rp(2) q with_block_heap [OF Cons.prems(8)]
    by (auto simp: server_sent_def)
  with 1 2 show ?case by (auto simp: server_sent_def intro!: exI [of _ "?x # ys"])
qed

section \<open>Properties\<close>

text \<open>C6: payloads of a client reach the server's user unchanged and in order. If a connected client sends at most 256 payloads and
  their datagrams arrive one after the other, then none is refused, and the user of the server reads exactly these payloads, with
  the sequence numbers they were sent with, and then no more.\<close>

theorem client_payloads_delivered:
  assumes laws: "aead_laws cr" and server: "server_inv B s sw" and session: "session c s i"
    and few: "length datas \<le> NETCODE_PACKET_QUEUE_SIZE"
    and send: "\<forall>(data, n) \<in> set (numbered (cl_sequence c) datas). sendable data n"
    and fresh: "all_before (sv_client_replay_protection s i) (cl_sequence c)"
    and empty: "pq_num_packets (sv_client_packet_queue s i) = 0"
    and mem: "\<forall>n. \<not> h_out_of_memory (w_heap sw) n" and reads: "length datas < k"
  shows "\<exists>c' cw' s' sw' s'' sw''. upstream cr (sv_client_address s i) datas ((c, cw), (s, sw)) = Some ((c', cw'), (s', sw'))
    \<and> server_inv B s' sw' \<and> server_reads k (int i) s' sw' = Some (numbered (cl_sequence c) datas, s'', sw'')"
proof -
  have "queue_inv (sv_client_packet_queue s i)"
    using server by (simp add: server_inv_def queues_held_def receive_queue_ok_def)
  note held = holds_empty [OF this empty, of sw]
  obtain c' cw' s' sw' ys where 1: "upstream cr (sv_client_address s i) datas ((c, cw), (s, sw)) = Some ((c', cw'), (s', sw'))"
      "server_inv B s' sw'" "remote s' i" "holds (sv_client_packet_queue s' i) sw' ys" "map snd ys = numbered (cl_sequence c) datas"
    using upstream_runs [OF laws server session refl _ send fresh held mem, of cw] few by auto
  have "i < sv_max_clients s'" "sv_running s'" "sv_max_clients s' \<le> NETCODE_MAX_CLIENTS" "sv_client_connected s' i"
    using server_ok_remote [OF server_inv_ok [OF 1(2)] 1(3)] server_inv_ok [OF 1(2)] 1(3)
    by (auto simp: server_ok_def slots_ok_def remote_def)
  moreover have "length ys < k"
  proof -
    have "length (numbered n datas) = length datas" for n by (induction datas arbitrary: n) auto
    then show ?thesis using reads 1(5) by (metis length_map)
  qed
  ultimately obtain s'' sw'' where "server_reads k (int i) s' sw' = Some (map snd ys, s'', sw'')"
    using server_reads_held [OF 1(4)] by blast
  with 1 show ?thesis by auto
qed

text \<open>C21: payloads of the server reach the client's user in the same way, once the server has confirmed the client.\<close>

theorem server_payloads_delivered:
  assumes laws: "aead_laws cr" and server: "server_inv B s sw" and session: "session c s i" and confirmed: "sv_client_confirmed s i"
    and few: "length datas \<le> NETCODE_PACKET_QUEUE_SIZE"
    and send: "\<forall>(data, n) \<in> set (numbered (sv_client_sequence s i) datas). sendable data n"
    and fresh: "all_before (cl_replay_protection c) (sv_client_sequence s i)"
    and empty: "queue_inv (cl_packet_receive_queue c)" "pq_num_packets (cl_packet_receive_queue c) = 0"
    and mem: "heap_inv (w_heap cw)" "\<forall>n. \<not> h_out_of_memory (w_heap cw) n" and reads: "length datas < k"
  shows "\<exists>c' cw' s' sw' c'' cw''. downstream cr i datas ((c, cw), (s, sw)) = Some ((c', cw'), (s', sw'))
    \<and> server_inv B s' sw' \<and> client_reads k c' cw' = Some (numbered (sv_client_sequence s i) datas, c'', cw'')"
proof -
  note held = holds_empty [OF empty, of cw]
  obtain c' cw' s' sw' ys where 1: "downstream cr i datas ((c, cw), (s, sw)) = Some ((c', cw'), (s', sw'))"
      "server_inv B s' sw'" "holds (cl_packet_receive_queue c') cw' ys" "map snd ys = numbered (sv_client_sequence s i) datas"
    using downstream_runs [OF laws server session confirmed _ send fresh held mem] few by auto
  have "length (numbered n datas) = length datas" for n by (induction datas arbitrary: n) auto
  then have "length ys < k" using reads 1(4) by (metis length_map)
  from client_reads_held [OF 1(3) this] 1 show ?thesis by auto
qed

text \<open>A client with sequence number 3 that is connected in slot 0 of a server, with two payloads from either side.\<close>

definition connected_server :: netcode_server where
  "connected_server = waiting_server\<lparr>sv_num_connected_clients := 1, sv_client_connected := (\<lambda>_. False)(0 := True),
     sv_client_confirmed := (\<lambda>_. False)(0 := True), sv_client_id := (\<lambda>_. 0)(0 := 1), sv_client_timeout := (\<lambda>_. 0)(0 := 5),
     sv_client_address := (\<lambda>_. zero_address)(0 := example_address), sv_client_encryption_index := (\<lambda>_. None)(0 := Some 0),
     sv_encryption_manager := netcode_encryption_manager_reset\<lparr>em_num_encryption_mappings := 1, em_timeout := (\<lambda>_. 0)(0 := 5),
       em_last_access_time := (\<lambda>_. - 1000)(0 := 0), em_address := (\<lambda>_. zero_address)(0 := example_address),
       em_send_key := (\<lambda>_. replicate 32 0)(0 := replicate 32 2), em_receive_key := (\<lambda>_. replicate 32 0)(0 := replicate 32 1)\<rparr>\<rparr>"

definition connected_client :: netcode_client where
  "connected_client = (requesting_client [])\<lparr>cl_state := NETCODE_CLIENT_STATE_CONNECTED, cl_sequence := 3\<rparr>"

lemma connected_server_inv: "server_inv {} connected_server empty_world"
  using waiting_server_inv example_client(2)
  by (simp add: connected_server_def server_inv_def server_ok_def waiting_server_def new_server_def slots_ok_def remotes_ok_def
      remote_def server_ready_def leased_def em_matches_def em_ok_def netcode_encryption_manager_reset_def address_ok_def zero_address_def)

lemma connected_session: "session connected_client connected_server 0"
  using example_client(1)
  by (simp add: session_def connected_client_def connected_server_def waiting_server_def new_server_def remote_def on_socket_def
      requesting_client_def new_client_def zero_connect_token_def example_private_token_def)

lemma short_payload_sendable: "1 \<le> length data \<Longrightarrow> length data \<le> 1194 \<Longrightarrow> unat n < 2 ^ 63 \<Longrightarrow> sendable data n"
  using small_packet_fits [of "CONNECTION_PAYLOAD_PACKET data" n] by (simp add: sendable_def)

theorem client_payloads_delivered_witness:
  "\<exists>c cw s sw s' sw'. upstream clear_crypto example_address [[1, 2], [3]] ((connected_client, empty_world), (connected_server, empty_world))
       = Some ((c, cw), (s, sw))
    \<and> server_reads 9 0 s sw = Some ([([1, 2], 3), ([3], 4)], s', sw')"
proof -
  have fields: "sv_client_address connected_server 0 = example_address" "cl_sequence connected_client = 3"
      "sv_client_replay_protection connected_server 0 = netcode_replay_protection_reset"
      "pq_num_packets (sv_client_packet_queue connected_server 0) = 0"
    by (simp_all add: connected_server_def connected_client_def waiting_server_def new_server_def zero_packet_queue_def)
  have "\<forall>(data, n) \<in> set (numbered (cl_sequence connected_client) [[1, 2], [3]]). sendable data n"
    by (auto simp: fields intro!: short_payload_sendable)
  from client_payloads_delivered [OF clear_crypto_laws connected_server_inv connected_session _ this _ fields(4) example_client(10), where k = 9 and cw = empty_world]
  show ?thesis by (auto simp: fields all_before_reset)
qed

theorem server_payloads_delivered_witness:
  "\<exists>c cw s sw c' cw'. downstream clear_crypto 0 [[1, 2], [3]] ((connected_client, empty_world), (connected_server, empty_world))
       = Some ((c, cw), (s, sw))
    \<and> client_reads 9 c cw = Some ([([1, 2], 0), ([3], 1)], c', cw')"
proof -
  have fields: "sv_client_confirmed connected_server 0" "sv_client_sequence connected_server 0 = 0"
      "cl_replay_protection connected_client = netcode_replay_protection_reset"
      "queue_inv (cl_packet_receive_queue connected_client)" "pq_num_packets (cl_packet_receive_queue connected_client) = 0"
    by (simp_all add: connected_server_def connected_client_def waiting_server_def new_server_def requesting_client_def new_client_def)
  have "\<forall>(data, n) \<in> set (numbered (sv_client_sequence connected_server 0) [[1, 2], [3]]). sendable data n"
    by (auto simp: fields intro!: short_payload_sendable)
  from server_payloads_delivered [OF clear_crypto_laws connected_server_inv connected_session fields(1) _ this _ fields(4,5)
      example_client(9,10), of 9]
  show ?thesis by (auto simp: fields all_before_reset)
qed

end
