(* ===== verification/Client_Timeout.thy ===== *)
theory Client_Timeout
  imports Client_Protocol
begin

text \<open>
  A client that hears nothing gives up. Each update that comes later than the timeout moves it to the next server of its token, or
  disconnects it; after as many updates as there are servers left it is disconnected.
\<close>

section \<open>One update in silence\<close>

lemma receive_nothing:
  assumes "\<not> cl_loopback c" and "\<not> cl_network_simulator c" and "so_handle (cl_socket c) \<noteq> 0" and "w_inbox w (so_handle (cl_socket c)) = []"
  shows "netcode_client_receive_packets cr c w = Some (c, w)"
  using assms by (simp add: netcode_client_receive_packets_def netcode_socket_receive_packet_def)

definition same_course :: "netcode_client \<Rightarrow> netcode_client \<Rightarrow> bool" where
  "same_course c c' \<longleftrightarrow> cl_state c' = cl_state c \<and> cl_time c' = cl_time c \<and> cl_connect_token c' = cl_connect_token c
     \<and> cl_last_packet_receive_time c' = cl_last_packet_receive_time c \<and> cl_server_address_index c' = cl_server_address_index c
     \<and> cl_should_disconnect c' = cl_should_disconnect c \<and> cl_should_disconnect_state c' = cl_should_disconnect_state c
     \<and> cl_socket c' = cl_socket c \<and> cl_network_simulator c' = cl_network_simulator c \<and> cl_loopback c' = cl_loopback c
     \<and> cl_connect_start_time c' = cl_connect_start_time c"

lemma send_packets_course:
  "netcode_client_send_packets cr c w = Some (c', w') \<Longrightarrow> same_course c c'"
  by (auto simp: netcode_client_send_packets_def netcode_client_send_packet_to_server_internal_def same_course_def Let_def
      split: bind_splits client_state.splits if_splits)

text \<open>The socket and the transport are fixed when the client is created.\<close>

definition same_transport :: "netcode_client \<Rightarrow> netcode_client \<Rightarrow> bool" where
  "same_transport c c' \<longleftrightarrow> cl_socket c' = cl_socket c \<and> cl_network_simulator c' = cl_network_simulator c"

lemma set_state_fields:
  "netcode_client_set_state c s w = (c', w') \<Longrightarrow> c' = c\<lparr>cl_state := s\<rparr>"
  by (simp add: netcode_client_set_state_def Let_def)

lemma next_server_course:
  assumes "netcode_client_connect_to_next_server c w = Some (b, c', w')"
  shows "if b then cl_state c' = NETCODE_CLIENT_STATE_SENDING_CONNECTION_REQUEST
      \<and> cl_server_address_index c' = cl_server_address_index c + 1
      \<and> cl_server_address_index c' < ct_num_server_addresses (cl_connect_token c)
      \<and> cl_connect_token c' = cl_connect_token c \<and> cl_last_packet_receive_time c' = cl_time c
      \<and> same_transport c c' \<and> cl_loopback c' = cl_loopback c
    else c' = c \<and> w' = w"
  using assms
  by (auto simp: netcode_client_connect_to_next_server_def netcode_client_reset_before_next_connect_def same_transport_def Let_def
      split: if_splits bind_splits prod.splits dest!: set_state_fields)

lemma disconnect_course:
  assumes "netcode_client_disconnect_internal cr c dest False w = Some (c', w')"
    and "cl_state c > NETCODE_CLIENT_STATE_DISCONNECTED" and "dest \<le> NETCODE_CLIENT_STATE_DISCONNECTED"
  shows "cl_state c' = dest \<and> same_transport c c' \<and> \<not> cl_loopback c'"
  using assms
  by (auto simp: netcode_client_disconnect_internal_def netcode_client_reset_connection_data_def same_transport_def
      netcode_client_reset_before_next_connect_def Let_def
      split: if_splits bind_splits prod.splits dest!: set_state_fields)

text \<open>The log of what was sent is changed by nothing but sending.\<close>

lemma queue_drain_sends_nothing: "queue_drain n q w = Some (q', w') \<Longrightarrow> w_sent w' = w_sent w"
proof (induction n arbitrary: q w)
  case (Suc n)
  then show ?case by (auto simp: w_free_def split: prod.splits option.splits bind_splits)
qed simp

lemma set_state_sends_nothing: "netcode_client_set_state c s w = (c', w') \<Longrightarrow> w_sent w' = w_sent w"
  by (auto simp: netcode_client_set_state_def Let_def split: option.split)

lemma next_server_sends_nothing:
  "netcode_client_connect_to_next_server c w = Some (b, c', w') \<Longrightarrow> w_sent w' = w_sent w"
  by (auto simp: netcode_client_connect_to_next_server_def Let_def
      split: if_splits bind_splits prod.splits dest!: set_state_sends_nothing)

lemma disconnect_sends_nothing:
  "netcode_client_disconnect_internal cr c dest False w = Some (c', w') \<Longrightarrow> w_sent w' = w_sent w"
  by (auto simp: netcode_client_disconnect_internal_def netcode_client_reset_connection_data_def queue_empty_out_def Let_def
      simp del: queue_drain.simps split: if_splits bind_splits prod.splits dest!: set_state_sends_nothing queue_drain_sends_nothing)

text \<open>A new attempt starts at the time of the change, and sends at once.\<close>

lemma next_server_attempt:
  assumes "netcode_client_connect_to_next_server c w = Some (True, c', w')"
  shows "cl_connect_start_time c' = cl_time c \<and> cl_last_packet_send_time c' = cl_time c - 1 \<and> \<not> cl_should_disconnect c'
    \<and> nat (cl_server_address_index c + 1) < length (ct_server_addresses (cl_connect_token c))
    \<and> cl_server_address c' = ct_server_addresses (cl_connect_token c) ! nat (cl_server_address_index c + 1)"
  using assms
  by (auto simp: netcode_client_connect_to_next_server_def netcode_client_reset_before_next_connect_def array_get_def Let_def
      split: if_splits bind_splits prod.splits dest!: set_state_fields)

lemma internal_sends:
  assumes "netcode_client_send_packet_to_server_internal cr c packet w = Some (c', w')" and "\<not> cl_network_simulator c"
  obtains data where "netcode_write_packet cr packet NETCODE_MAX_PACKET_BYTES (cl_sequence c) (cx_write_packet_key (cl_context c))
      (ct_protocol_id (cl_connect_token c)) = Some (NETCODE_OK data)"
    and "w_sent w' = w_sent w @ [(so_handle (cl_socket c), sockaddr_of (cl_server_address c), data)]"
  using assms
  by (auto simp: netcode_client_send_packet_to_server_internal_def client_transmit_def netcode_socket_send_packet_def Let_def
      split: bind_splits c_result.splits)

lemma request_same:
  "cl_connect_token c' = cl_connect_token c \<Longrightarrow> netcode_write_packet cr (client_request_packet c') n s k p
   = netcode_write_packet cr (client_request_packet c) n s' k' p'"
  by (simp add: netcode_write_packet_def client_request_packet_def)

lemma request_written:
  "connect_token_wf (cl_connect_token c) \<Longrightarrow>
   \<exists>request. netcode_write_packet cr (client_request_packet c) NETCODE_MAX_PACKET_BYTES 0 [] 0 = Some (NETCODE_OK request)"
  by (simp add: connect_token_wf_def client_request_packet_def netcode_write_packet_def write_connection_request_packet_def wire_simps
      netcode_write_uint8_def Let_def)

text \<open>Nothing waits on the client's socket.\<close>

definition hears_nothing :: "netcode_client \<Rightarrow> world \<Rightarrow> bool" where
  "hears_nothing c w \<longleftrightarrow> \<not> cl_loopback c \<and> \<not> cl_network_simulator c \<and> w_inbox w (so_handle (cl_socket c)) = []"

lemma idle_update:
  assumes inv: "client_inv B c w" and silent: "hears_nothing c w" and idle: "cl_state c \<le> NETCODE_CLIENT_STATE_DISCONNECTED"
  shows "netcode_client_update cr t c w = Some (c\<lparr>cl_time := t\<rparr>, w)"
proof -
  have "so_handle (cl_socket c) \<noteq> 0" and "\<not> cl_should_disconnect c"
    using inv silent idle by (auto simp: client_inv_def client_ok_def client_ready_def hears_nothing_def)
  moreover from this have "netcode_client_receive_packets cr (c\<lparr>cl_time := t\<rparr>) w = Some (c\<lparr>cl_time := t\<rparr>, w)"
    using silent by (intro receive_nothing) (simp_all add: hears_nothing_def)
  ultimately show ?thesis
    using silent idle
    by (cases "cl_state c")
      (simp_all add: netcode_client_update_def netcode_client_send_packets_def client_token_expired_def hears_nothing_def
        client_state_order)
qed

lemma silent_update:
  assumes laws: "aead_laws cr" and inv: "client_inv B c w" and silent: "hears_nothing c w"
    and active: "cl_state c > NETCODE_CLIENT_STATE_DISCONNECTED"
    and late: "0 < ct_timeout_seconds (cl_connect_token c)"
      "cl_last_packet_receive_time c + of_int (ct_timeout_seconds (cl_connect_token c)) < t"
  obtains c' w' where "netcode_client_update cr t c w = Some (c', w')" and "client_inv B c' w'" and "hears_nothing c' w'"
    and "cl_state c' \<le> NETCODE_CLIENT_STATE_DISCONNECTED
      \<or> cl_state c' = NETCODE_CLIENT_STATE_SENDING_CONNECTION_REQUEST \<and> cl_server_address_index c' = cl_server_address_index c + 1
        \<and> cl_server_address_index c' < ct_num_server_addresses (cl_connect_token c)
        \<and> cl_connect_token c' = cl_connect_token c \<and> cl_last_packet_receive_time c' = t"
    and "cl_state c = NETCODE_CLIENT_STATE_CONNECTED \<longrightarrow> \<not> cl_should_disconnect c \<longrightarrow>
      cl_state c' = NETCODE_CLIENT_STATE_CONNECTION_TIMED_OUT"
proof -
  let ?c = "c\<lparr>cl_time := t\<rparr>"
  have sock: "so_handle (cl_socket c) \<noteq> 0" and loop: "\<not> cl_loopback ?c"
    and dest: "cl_should_disconnect_state c \<le> NETCODE_CLIENT_STATE_DISCONNECTED"
    using inv silent by (auto simp: client_inv_def client_ok_def client_ready_def hears_nothing_def)
  have inv1: "client_inv B ?c w" using inv by simp
  have receive: "netcode_client_receive_packets cr ?c w = Some (?c, w)"
    using sock silent by (intro receive_nothing) (simp_all add: hears_nothing_def)
  obtain d v where send: "netcode_client_send_packets cr ?c w = Some (d, v)" and d: "client_inv B d v" "frame B w v"
    using runs_client_send_packets [OF laws inv1 loop] by (auto elim!: runsE)
  have same: "same_course ?c d" by (rule send_packets_course [OF send])
  then have loop_d: "\<not> cl_loopback d" using loop by (simp add: same_course_def)
  note after = runs_client_after_io [OF laws d(1) loop_d, of t]
  let ?after = "if client_token_expired d
        then netcode_client_disconnect_internal cr d NETCODE_CLIENT_STATE_CONNECT_TOKEN_EXPIRED False v
        else if cl_should_disconnect d
        then client_next_server_or_disconnect cr d (cl_should_disconnect_state d) v
        else (case cl_state d of
            NETCODE_CLIENT_STATE_SENDING_CONNECTION_REQUEST \<Rightarrow>
              if client_timed_out d t
              then client_next_server_or_disconnect cr d NETCODE_CLIENT_STATE_CONNECTION_REQUEST_TIMED_OUT v
              else Some (d, v)
          | NETCODE_CLIENT_STATE_SENDING_CONNECTION_RESPONSE \<Rightarrow>
              if client_timed_out d t
              then client_next_server_or_disconnect cr d NETCODE_CLIENT_STATE_CONNECTION_RESPONSE_TIMED_OUT v
              else Some (d, v)
          | NETCODE_CLIENT_STATE_CONNECTED \<Rightarrow>
              if client_timed_out d t
              then netcode_client_disconnect_internal cr d NETCODE_CLIENT_STATE_CONNECTION_TIMED_OUT False v
              else Some (d, v)
          | _ \<Rightarrow> Some (d, v))"
  obtain c' w' where result: "?after = Some (c', w')" and c': "client_inv B c' w'" "frame B v w'"
    using after by (auto elim!: runsE)
  have update: "netcode_client_update cr t c w = Some (c', w')"
    using receive send result loop by (simp add: netcode_client_update_def)
  have active_d: "cl_state d > NETCODE_CLIENT_STATE_DISCONNECTED" and out: "client_timed_out d t"
    using same active late by (simp_all add: same_course_def client_timed_out_def)
  have next_server: "cl_state c' \<le> NETCODE_CLIENT_STATE_DISCONNECTED \<and> same_transport d c' \<and> \<not> cl_loopback c'
      \<or> cl_state c' = NETCODE_CLIENT_STATE_SENDING_CONNECTION_REQUEST \<and> cl_server_address_index c' = cl_server_address_index d + 1
        \<and> cl_server_address_index c' < ct_num_server_addresses (cl_connect_token d) \<and> cl_connect_token c' = cl_connect_token d
        \<and> cl_last_packet_receive_time c' = cl_time d \<and> same_transport d c' \<and> \<not> cl_loopback c'"
    if "client_next_server_or_disconnect cr d s v = Some (c', w')" "s \<le> NETCODE_CLIENT_STATE_DISCONNECTED" for s
    using that active_d loop_d
    by (auto simp: client_next_server_or_disconnect_def split: bind_splits if_splits
        dest!: next_server_course dest: disconnect_course)
  have course: "(cl_state c' \<le> NETCODE_CLIENT_STATE_DISCONNECTED
      \<or> cl_state c' = NETCODE_CLIENT_STATE_SENDING_CONNECTION_REQUEST \<and> cl_server_address_index c' = cl_server_address_index d + 1
        \<and> cl_server_address_index c' < ct_num_server_addresses (cl_connect_token d) \<and> cl_connect_token c' = cl_connect_token d
        \<and> cl_last_packet_receive_time c' = cl_time d) \<and> same_transport d c' \<and> \<not> cl_loopback c'"
  proof -
    have dest_d: "cl_should_disconnect_state d \<le> NETCODE_CLIENT_STATE_DISCONNECTED" using dest same by (simp add: same_course_def)
    consider (onwards) s where "client_next_server_or_disconnect cr d s v = Some (c', w')" "s \<le> NETCODE_CLIENT_STATE_DISCONNECTED"
      | (gone) s where "netcode_client_disconnect_internal cr d s False v = Some (c', w')" "s \<le> NETCODE_CLIENT_STATE_DISCONNECTED"
      using result out active_d dest_d by (cases "cl_state d") (auto simp: client_state_order split: if_splits)
    then show ?thesis
    proof cases
      case gone
      with disconnect_course [OF gone(1) active_d gone(2)] show ?thesis by simp
    qed (use next_server in blast)
  qed
  have connected: "cl_state c' = NETCODE_CLIENT_STATE_CONNECTION_TIMED_OUT"
    if "cl_state c = NETCODE_CLIENT_STATE_CONNECTED" "\<not> cl_should_disconnect c"
  proof -
    have "netcode_client_disconnect_internal cr d NETCODE_CLIENT_STATE_CONNECTION_TIMED_OUT False v = Some (c', w')"
      using result out that same by (simp add: same_course_def client_token_expired_def)
    from disconnect_course [OF this active_d] show ?thesis by simp
  qed
  have "w_inbox w' = w_inbox w" using d(2) c'(2) by (simp add: frame_def)
  then have "hears_nothing c' w'"
    using silent course same by (auto simp: hears_nothing_def same_transport_def same_course_def)
  moreover have "cl_state c' \<le> NETCODE_CLIENT_STATE_DISCONNECTED
      \<or> cl_state c' = NETCODE_CLIENT_STATE_SENDING_CONNECTION_REQUEST \<and> cl_server_address_index c' = cl_server_address_index c + 1
        \<and> cl_server_address_index c' < ct_num_server_addresses (cl_connect_token c)
        \<and> cl_connect_token c' = cl_connect_token c \<and> cl_last_packet_receive_time c' = t"
    using course same by (auto simp: same_course_def)
  ultimately show ?thesis using that update c'(1) connected by blast
qed

text \<open>The update of a client that is connecting: it sends to its server once more, then turns to the next one of the token.\<close>

definition connecting :: "netcode_client \<Rightarrow> bool" where
  "connecting c \<longleftrightarrow> cl_state c = NETCODE_CLIENT_STATE_SENDING_CONNECTION_REQUEST \<or> cl_state c = NETCODE_CLIENT_STATE_SENDING_CONNECTION_RESPONSE"

definition token_lifetime :: "netcode_client \<Rightarrow> dbl" where
  "token_lifetime c = of_nat (unat (ct_expire_timestamp (cl_connect_token c) - ct_create_timestamp (cl_connect_token c)))"

lemma silent_attempt:
  assumes update: "netcode_client_update cr t c w = Some (c', w')" and silent: "hears_nothing c w"
    and sock: "so_handle (cl_socket c) \<noteq> 0" and active: "connecting c" "\<not> cl_should_disconnect c"
    and late: "0 < ct_timeout_seconds (cl_connect_token c)"
      "cl_last_packet_receive_time c + of_int (ct_timeout_seconds (cl_connect_token c)) < t"
    and due: "cl_last_packet_send_time c + 1 / NETCODE_PACKET_SEND_RATE < t" and valid: "t < cl_connect_start_time c + token_lifetime c"
  obtains data where "w_sent w' = w_sent w @ [(so_handle (cl_socket c), sockaddr_of (cl_server_address c), data)]"
    and "cl_state c = NETCODE_CLIENT_STATE_SENDING_CONNECTION_REQUEST \<Longrightarrow>
      netcode_write_packet cr (client_request_packet c) NETCODE_MAX_PACKET_BYTES 0 [] 0 = Some (NETCODE_OK data)"
    and "if cl_server_address_index c + 1 < ct_num_server_addresses (cl_connect_token c)
      then cl_state c' = NETCODE_CLIENT_STATE_SENDING_CONNECTION_REQUEST \<and> cl_server_address_index c' = cl_server_address_index c + 1
        \<and> cl_connect_token c' = cl_connect_token c \<and> cl_last_packet_receive_time c' = t \<and> cl_connect_start_time c' = t
        \<and> cl_last_packet_send_time c' = t - 1 \<and> \<not> cl_should_disconnect c' \<and> cl_socket c' = cl_socket c
        \<and> cl_server_address c' = ct_server_addresses (cl_connect_token c) ! nat (cl_server_address_index c + 1)
      else cl_state c' = (if cl_state c = NETCODE_CLIENT_STATE_SENDING_CONNECTION_REQUEST
        then NETCODE_CLIENT_STATE_CONNECTION_REQUEST_TIMED_OUT else NETCODE_CLIENT_STATE_CONNECTION_RESPONSE_TIMED_OUT)"
proof -
  let ?c = "c\<lparr>cl_time := t\<rparr>"
  let ?s = "if cl_state c = NETCODE_CLIENT_STATE_SENDING_CONNECTION_REQUEST
        then NETCODE_CLIENT_STATE_CONNECTION_REQUEST_TIMED_OUT else NETCODE_CLIENT_STATE_CONNECTION_RESPONSE_TIMED_OUT"
  have loop: "\<not> cl_loopback ?c" and sim: "\<not> cl_network_simulator ?c" using silent by (simp_all add: hears_nothing_def)
  have receive: "netcode_client_receive_packets cr ?c w = Some (?c, w)"
    using sock silent by (intro receive_nothing) (simp_all add: hears_nothing_def)
  obtain d v where send: "netcode_client_send_packets cr ?c w = Some (d, v)"
    using update receive loop by (auto simp: netcode_client_update_def split: bind_splits)
  have same: "same_course ?c d" by (rule send_packets_course [OF send])
  then have "\<not> client_token_expired d" "\<not> cl_should_disconnect d" "client_timed_out d t" "cl_state d = cl_state c"
    using active late valid by (simp_all add: same_course_def client_token_expired_def client_timed_out_def token_lifetime_def)
  then have after: "client_next_server_or_disconnect cr d ?s v = Some (c', w')"
    using update receive send loop active(1) by (auto simp: netcode_client_update_def connecting_def)
  obtain data where data: "w_sent v = w_sent w @ [(so_handle (cl_socket c), sockaddr_of (cl_server_address c), data)]"
    "cl_state c = NETCODE_CLIENT_STATE_SENDING_CONNECTION_REQUEST \<Longrightarrow>
      netcode_write_packet cr (client_request_packet c) NETCODE_MAX_PACKET_BYTES 0 [] 0 = Some (NETCODE_OK data)"
  proof (cases "cl_state c = NETCODE_CLIENT_STATE_SENDING_CONNECTION_REQUEST")
    case True
    then have "netcode_client_send_packet_to_server_internal cr ?c (client_request_packet ?c) w = Some (d, v)"
      using send due loop by (simp add: netcode_client_send_packets_def)
    then obtain data where "w_sent v = w_sent w @ [(so_handle (cl_socket c), sockaddr_of (cl_server_address c), data)]"
      "netcode_write_packet cr (client_request_packet ?c) NETCODE_MAX_PACKET_BYTES (cl_sequence c) (cx_write_packet_key (cl_context c))
         (ct_protocol_id (cl_connect_token c)) = Some (NETCODE_OK data)" by (rule internal_sends [OF _ sim]) simp
    moreover from this(2) have "netcode_write_packet cr (client_request_packet c) NETCODE_MAX_PACKET_BYTES 0 [] 0 = Some (NETCODE_OK data)"
      by (subst request_same [of c ?c]) simp_all
    ultimately show ?thesis by (intro that) auto
  next
    case False
    then obtain p where "netcode_client_send_packet_to_server_internal cr ?c p w = Some (d, v)"
      using send due loop active(1) by (auto simp: netcode_client_send_packets_def connecting_def)
    then obtain data where "w_sent v = w_sent w @ [(so_handle (cl_socket c), sockaddr_of (cl_server_address c), data)]"
      by (rule internal_sends [OF _ sim]) simp
    with False show ?thesis by (intro that) auto
  qed
  obtain b e u where next_server: "netcode_client_connect_to_next_server d v = Some (b, e, u)"
    and left: "if b then c' = e \<and> w' = u else netcode_client_disconnect_internal cr e ?s False u = Some (c', w')"
    using after by (auto simp: client_next_server_or_disconnect_def split: bind_splits if_splits)
  have more: "b \<longleftrightarrow> cl_server_address_index c + 1 < ct_num_server_addresses (cl_connect_token c)"
    using next_server same by (auto simp: netcode_client_connect_to_next_server_def same_course_def split: if_splits bind_splits prod.splits)
  have "w_sent w' = w_sent v"
    using next_server_sends_nothing [OF next_server] left disconnect_sends_nothing by (cases b) auto
  moreover have "if b
      then cl_state c' = NETCODE_CLIENT_STATE_SENDING_CONNECTION_REQUEST \<and> cl_server_address_index c' = cl_server_address_index c + 1
        \<and> cl_connect_token c' = cl_connect_token c \<and> cl_last_packet_receive_time c' = t \<and> cl_connect_start_time c' = t
        \<and> cl_last_packet_send_time c' = t - 1 \<and> \<not> cl_should_disconnect c' \<and> cl_socket c' = cl_socket c
        \<and> cl_server_address c' = ct_server_addresses (cl_connect_token c) ! nat (cl_server_address_index c + 1)
      else cl_state c' = ?s"
  proof (cases b)
    case True
    with next_server left next_server_course [OF next_server] next_server_attempt [of d v e u] same show ?thesis
      by (auto simp: same_course_def same_transport_def)
  next
    case False
    with next_server_course [OF next_server] left disconnect_course [of cr d ?s v c' w'] same active(1) show ?thesis
      by (auto simp: same_course_def connecting_def)
  qed
  ultimately show ?thesis using that data more by auto
qed

section \<open>Properties\<close>

text \<open>Updates at the given times, one after the other.\<close>

fun client_updates :: "crypto \<Rightarrow> dbl list \<Rightarrow> netcode_client \<Rightarrow> world \<Rightarrow> (netcode_client \<times> world) option" where
  "client_updates cr [] c w = Some (c, w)"
| "client_updates cr (t # ts) c w = do { (c, w) \<leftarrow> netcode_client_update cr t c w; client_updates cr ts c w }"

text \<open>Each time is more than the timeout after the one before.\<close>

fun spaced :: "dbl \<Rightarrow> dbl \<Rightarrow> dbl list \<Rightarrow> bool" where
  "spaced timeout t0 [] = True"
| "spaced timeout t0 (t # ts) \<longleftrightarrow> t0 + timeout < t \<and> spaced timeout t ts"

lemma idle_updates:
  "client_inv B c w \<Longrightarrow> hears_nothing c w \<Longrightarrow> cl_state c \<le> NETCODE_CLIENT_STATE_DISCONNECTED \<Longrightarrow>
   \<exists>c'. client_updates cr ts c w = Some (c', w) \<and> client_inv B c' w \<and> cl_state c' = cl_state c"
proof (induction ts arbitrary: c)
  case (Cons t ts)
  have "hears_nothing (c\<lparr>cl_time := t\<rparr>) w" using Cons.prems(2) by (simp add: hears_nothing_def)
  with Cons.IH [of "c\<lparr>cl_time := t\<rparr>"] Cons.prems idle_update [OF Cons.prems, of cr t] show ?case by auto
qed simp

lemma silent_client_disconnects:
  assumes laws: "aead_laws cr" and "client_inv B c w" and "hears_nothing c w"
    and "cl_state c > NETCODE_CLIENT_STATE_DISCONNECTED" and "0 < ct_timeout_seconds (cl_connect_token c)"
    and "spaced (of_int (ct_timeout_seconds (cl_connect_token c))) (cl_last_packet_receive_time c) ts"
    and "int (length ts) \<ge> ct_num_server_addresses (cl_connect_token c) - cl_server_address_index c" and "ts \<noteq> []"
  shows "\<exists>c' w'. client_updates cr ts c w = Some (c', w') \<and> client_inv B c' w'
    \<and> cl_state c' \<le> NETCODE_CLIENT_STATE_DISCONNECTED
    \<and> (cl_state c = NETCODE_CLIENT_STATE_CONNECTED \<and> \<not> cl_should_disconnect c \<longrightarrow>
         cl_state c' = NETCODE_CLIENT_STATE_CONNECTION_TIMED_OUT)"
  using assms(2-)
proof (induction ts arbitrary: c w)
  case (Cons t ts)
  obtain c1 w1 where 1: "netcode_client_update cr t c w = Some (c1, w1)" "client_inv B c1 w1" "hears_nothing c1 w1"
      "cl_state c1 \<le> NETCODE_CLIENT_STATE_DISCONNECTED
      \<or> cl_state c1 = NETCODE_CLIENT_STATE_SENDING_CONNECTION_REQUEST \<and> cl_server_address_index c1 = cl_server_address_index c + 1
        \<and> cl_server_address_index c1 < ct_num_server_addresses (cl_connect_token c)
        \<and> cl_connect_token c1 = cl_connect_token c \<and> cl_last_packet_receive_time c1 = t"
      "cl_state c = NETCODE_CLIENT_STATE_CONNECTED \<longrightarrow> \<not> cl_should_disconnect c \<longrightarrow>
        cl_state c1 = NETCODE_CLIENT_STATE_CONNECTION_TIMED_OUT"
    by (rule silent_update [OF laws Cons.prems(1-4), of t]) (use Cons.prems(5) in auto)
  show ?case
  proof (cases "cl_state c1 \<le> NETCODE_CLIENT_STATE_DISCONNECTED")
    case True
    from idle_updates [OF 1(2,3) True, of cr ts] 1(1,5) True show ?thesis by auto
  next
    case False
    with 1(4) Cons.prems(6) have "ts \<noteq> []" by auto
    then obtain c' w' where "client_updates cr ts c1 w1 = Some (c', w')" "client_inv B c' w'"
        "cl_state c' \<le> NETCODE_CLIENT_STATE_DISCONNECTED"
      using Cons.IH [OF 1(2,3)] False 1(4) Cons.prems by auto
    with 1(1,5) False show ?thesis by auto
  qed
qed simp

text \<open>The token has not expired at any of the times: its lifetime counts anew from each change of server.\<close>

fun in_lifetime :: "dbl \<Rightarrow> dbl \<Rightarrow> dbl list \<Rightarrow> bool" where
  "in_lifetime lifetime start [] = True"
| "in_lifetime lifetime start (t # ts) \<longleftrightarrow> t < start + lifetime \<and> in_lifetime lifetime t ts"

text \<open>What is sent in \<open>k\<close> attempts: the first packet to the current server, the request to each of the servers after it in the token.\<close>

definition attempts :: "netcode_client \<Rightarrow> bytes \<Rightarrow> bytes \<Rightarrow> nat \<Rightarrow> (int \<times> sockaddr \<times> bytes) list" where
  "attempts c first request k = map (\<lambda>i. (so_handle (cl_socket c),
       sockaddr_of (ct_server_addresses (cl_connect_token c) ! (nat (cl_server_address_index c) + i)),
       if i = 0 then first else request)) [0..<k]"

lemma attempts_Suc:
  assumes "cl_connect_token c' = cl_connect_token c" and "cl_socket c' = cl_socket c"
    and "cl_server_address_index c' = cl_server_address_index c + 1" and "0 \<le> cl_server_address_index c"
  shows "attempts c first request (Suc k) = (so_handle (cl_socket c),
      sockaddr_of (ct_server_addresses (cl_connect_token c) ! nat (cl_server_address_index c)), first) # attempts c' request request k"
  using assms by (simp add: attempts_def upt_conv_Cons nat_add_distrib del: upt_Suc flip: map_Suc_upt)

text \<open>The end of \<open>ts\<close>: the next server while there is one, disconnected after the last.\<close>

definition tried :: "netcode_client \<Rightarrow> nat \<Rightarrow> netcode_client \<Rightarrow> bool" where
  "tried c k c' \<longleftrightarrow>
     (if cl_server_address_index c + int k < ct_num_server_addresses (cl_connect_token c)
      then cl_state c' = NETCODE_CLIENT_STATE_SENDING_CONNECTION_REQUEST
        \<and> cl_server_address_index c' = cl_server_address_index c + int k
        \<and> cl_server_address c' = ct_server_addresses (cl_connect_token c) ! (nat (cl_server_address_index c) + k)
      else cl_state c' = (if k = 1 \<and> cl_state c = NETCODE_CLIENT_STATE_SENDING_CONNECTION_RESPONSE
        then NETCODE_CLIENT_STATE_CONNECTION_RESPONSE_TIMED_OUT else NETCODE_CLIENT_STATE_CONNECTION_REQUEST_TIMED_OUT))"

lemma silent_attempts:
  assumes laws: "aead_laws cr" and "client_inv B c w" and "hears_nothing c w" and "connecting c" and "\<not> cl_should_disconnect c"
    and "cl_server_address c = ct_server_addresses (cl_connect_token c) ! nat (cl_server_address_index c)"
    and "0 < ct_timeout_seconds (cl_connect_token c)"
    and "spaced (of_int (ct_timeout_seconds (cl_connect_token c))) (cl_last_packet_receive_time c) ts"
    and "in_lifetime (token_lifetime c) (cl_connect_start_time c) ts"
    and "cl_last_packet_send_time c + 1 / NETCODE_PACKET_SEND_RATE < hd ts" and "ts \<noteq> []"
    and "int (length ts) \<le> ct_num_server_addresses (cl_connect_token c) - cl_server_address_index c"
  shows "\<exists>c' w' first request. client_updates cr ts c w = Some (c', w') \<and> tried c (length ts) c'
    \<and> w_sent w' = w_sent w @ attempts c first request (length ts)
    \<and> netcode_write_packet cr (client_request_packet c) NETCODE_MAX_PACKET_BYTES 0 [] 0 = Some (NETCODE_OK request)
    \<and> (cl_state c = NETCODE_CLIENT_STATE_SENDING_CONNECTION_REQUEST \<longrightarrow> first = request)"
  using assms(2-)
proof (induction ts arbitrary: c w)
  case (Cons t ts)
  have active: "cl_state c > NETCODE_CLIENT_STATE_DISCONNECTED" and loop: "\<not> cl_loopback c" and sock: "so_handle (cl_socket c) \<noteq> 0"
    and idx: "0 \<le> cl_server_address_index c"
    using Cons.prems(1,2,3) by (auto simp: connecting_def hears_nothing_def client_inv_def client_ok_def client_ready_def client_connecting_def)
  obtain c1 w1 where 1: "netcode_client_update cr t c w = Some (c1, w1)" "client_inv B c1 w1" "hears_nothing c1 w1"
    by (rule silent_update [OF laws Cons.prems(1,2) active Cons.prems(6), of t]) (use Cons.prems(7) in auto)
  obtain request where request: "netcode_write_packet cr (client_request_packet c) NETCODE_MAX_PACKET_BYTES 0 [] 0 = Some (NETCODE_OK request)"
    using request_written [of c cr] client_inv_connecting [OF Cons.prems(1) active loop] by (auto simp: client_connecting_def)
  obtain data where data: "w_sent w1 = w_sent w @ [(so_handle (cl_socket c), sockaddr_of (cl_server_address c), data)]"
    "cl_state c = NETCODE_CLIENT_STATE_SENDING_CONNECTION_REQUEST \<longrightarrow> data = request"
    and step: "if cl_server_address_index c + 1 < ct_num_server_addresses (cl_connect_token c)
      then cl_state c1 = NETCODE_CLIENT_STATE_SENDING_CONNECTION_REQUEST \<and> cl_server_address_index c1 = cl_server_address_index c + 1
        \<and> cl_connect_token c1 = cl_connect_token c \<and> cl_last_packet_receive_time c1 = t \<and> cl_connect_start_time c1 = t
        \<and> cl_last_packet_send_time c1 = t - 1 \<and> \<not> cl_should_disconnect c1 \<and> cl_socket c1 = cl_socket c
        \<and> cl_server_address c1 = ct_server_addresses (cl_connect_token c) ! nat (cl_server_address_index c + 1)
      else cl_state c1 = (if cl_state c = NETCODE_CLIENT_STATE_SENDING_CONNECTION_REQUEST
        then NETCODE_CLIENT_STATE_CONNECTION_REQUEST_TIMED_OUT else NETCODE_CLIENT_STATE_CONNECTION_RESPONSE_TIMED_OUT)"
    by (rule silent_attempt [OF 1(1) Cons.prems(2) sock Cons.prems(3,4,6)]) (use Cons.prems(7-9) request in auto)
  show ?case
  proof (cases "ts = []")
    case True
    with 1(1) data step Cons.prems(3,5) idx request show ?thesis
      by (auto simp: tried_def attempts_def connecting_def nat_add_distrib intro!: exI [of _ data] exI [of _ request])
  next
    case False
    then obtain t2 ts2 where ts: "ts = t2 # ts2" by (cases ts) auto
    have more: "cl_server_address_index c + 1 < ct_num_server_addresses (cl_connect_token c)"
      using Cons.prems(11) by (simp add: ts)
    note step = step [unfolded if_P [OF more]]
    have "1 \<le> (of_int (ct_timeout_seconds (cl_connect_token c)) :: dbl)" using Cons.prems(6) by simp
    then have due: "cl_last_packet_send_time c1 + 1 / NETCODE_PACKET_SEND_RATE < hd ts"
      using step Cons.prems(7) by (simp add: ts)
    have life: "token_lifetime c1 = token_lifetime c" using step by (simp add: token_lifetime_def)
    have "\<exists>c' w' first request. client_updates cr ts c1 w1 = Some (c', w') \<and> tried c1 (length ts) c'
      \<and> w_sent w' = w_sent w1 @ attempts c1 first request (length ts)
      \<and> netcode_write_packet cr (client_request_packet c1) NETCODE_MAX_PACKET_BYTES 0 [] 0 = Some (NETCODE_OK request)
      \<and> (cl_state c1 = NETCODE_CLIENT_STATE_SENDING_CONNECTION_REQUEST \<longrightarrow> first = request)"
      using step Cons.prems(6-8,11) due False life
      by (intro Cons.IH [OF 1(2,3)]) (auto simp: connecting_def)
    then obtain c' w' where rest: "client_updates cr ts c1 w1 = Some (c', w')" "tried c1 (length ts) c'"
      "w_sent w' = w_sent w1 @ attempts c1 request request (length ts)"
      using step request request_same [of c1 c cr NETCODE_MAX_PACKET_BYTES 0 "[]" 0 0 "[]" 0] by auto
    have "tried c (Suc (length ts)) c'"
      using rest(2) step idx by (simp add: tried_def ts nat_add_distrib algebra_simps)
    moreover have "w_sent w' = w_sent w @ attempts c data request (Suc (length ts))"
      using rest(3) data(1) attempts_Suc [of c1 c data request "length ts"] step idx Cons.prems(5) by simp
    ultimately show ?thesis using 1(1) rest(1) data(2) request by auto
  qed
qed simp

text \<open>C20: a client that hears nothing tries the servers that its token has left, one after the other, and gives up. No
  datagram arrives, and the updates are further apart than the token's timeout. Then every update returns. A client that is
  sending its request or its response, to the server that its index names, sends it to that server at the first update and turns to the
  next one: after each update, as long as there is a server left, it sends requests, the index and the address are those of the next
  server of the token, and at the update after that the request is sent there; after the last server it is disconnected, with the state
  CONNECTION_REQUEST_TIMED_OUT, or CONNECTION_RESPONSE_TIMED_OUT if it was sending the response and there was no other server. (This is for
  updates within the token's lifetime, which counts anew for each server, and a client that has no answer of a server to act on.) A connected client
  has the state CONNECTION_TIMED_OUT after the first update. And in any case, even if the token expires, the client is disconnected after as
  many updates as there are servers left.\<close>

theorem silent_client_gives_up:
  assumes laws: "aead_laws cr" and inv: "client_inv B c w" and silent: "hears_nothing c w"
    and active: "cl_state c > NETCODE_CLIENT_STATE_DISCONNECTED" and timeout: "0 < ct_timeout_seconds (cl_connect_token c)"
    and late: "spaced (of_int (ct_timeout_seconds (cl_connect_token c))) (cl_last_packet_receive_time c) ts" and "ts \<noteq> []"
  shows "(connecting c \<and> \<not> cl_should_disconnect c
      \<and> cl_server_address c = ct_server_addresses (cl_connect_token c) ! nat (cl_server_address_index c)
      \<and> in_lifetime (token_lifetime c) (cl_connect_start_time c) ts
      \<and> cl_last_packet_send_time c + 1 / NETCODE_PACKET_SEND_RATE < hd ts
      \<and> int (length ts) \<le> ct_num_server_addresses (cl_connect_token c) - cl_server_address_index c \<longrightarrow>
        (\<exists>c' w' first request. client_updates cr ts c w = Some (c', w') \<and> tried c (length ts) c'
          \<and> w_sent w' = w_sent w @ attempts c first request (length ts)
          \<and> netcode_write_packet cr (client_request_packet c) NETCODE_MAX_PACKET_BYTES 0 [] 0 = Some (NETCODE_OK request)
          \<and> (cl_state c = NETCODE_CLIENT_STATE_SENDING_CONNECTION_REQUEST \<longrightarrow> first = request)))
    \<and> (int (length ts) \<ge> ct_num_server_addresses (cl_connect_token c) - cl_server_address_index c \<longrightarrow>
        (\<exists>c' w'. client_updates cr ts c w = Some (c', w') \<and> client_inv B c' w'
          \<and> cl_state c' \<le> NETCODE_CLIENT_STATE_DISCONNECTED
          \<and> (cl_state c = NETCODE_CLIENT_STATE_CONNECTED \<and> \<not> cl_should_disconnect c \<longrightarrow>
               cl_state c' = NETCODE_CLIENT_STATE_CONNECTION_TIMED_OUT)))"
  using silent_attempts [OF laws inv silent _ _ _ timeout late _ _ \<open>ts \<noteq> []\<close>]
    silent_client_disconnects [OF laws inv silent active timeout late _ \<open>ts \<noteq> []\<close>]
  by blast

text \<open>A client whose token names two servers and has a timeout of 5 seconds, sending its request to the first; and connected to it.\<close>

definition lonely_client :: "client_state \<Rightarrow> netcode_client" where
  "lonely_client state = (new_client (ADDRESS_IPV4 [127, 0, 0, 1] 50000) \<lparr>so_address = zero_address, so_handle = 3\<rparr> 1 False)
     \<lparr>cl_state := state, cl_connect_token := example_connect_token,
       cl_server_address := ADDRESS_IPV4 [127, 0, 0, 1] 40000, cl_server_address_index := 0, cl_last_packet_receive_time := 1,
       cl_connect_start_time := 1, cl_last_packet_send_time := 1\<rparr>"

theorem silent_client_gives_up_witness:
  "(\<exists>c w first request. client_updates clear_crypto [7] (lonely_client NETCODE_CLIENT_STATE_SENDING_CONNECTION_REQUEST) empty_world = Some (c, w)
      \<and> cl_state c = NETCODE_CLIENT_STATE_SENDING_CONNECTION_REQUEST
      \<and> cl_server_address c = ADDRESS_IPV6 [0, 0, 0, 0, 0, 0, 0, 1] 40001)
   \<and> (\<exists>c w request. client_updates clear_crypto [7, 13] (lonely_client NETCODE_CLIENT_STATE_SENDING_CONNECTION_REQUEST) empty_world = Some (c, w)
      \<and> cl_state c = NETCODE_CLIENT_STATE_CONNECTION_REQUEST_TIMED_OUT
      \<and> w_sent w = [(3, sockaddr_of (ADDRESS_IPV4 [127, 0, 0, 1] 40000), request),
          (3, sockaddr_of (ADDRESS_IPV6 [0, 0, 0, 0, 0, 0, 0, 1] 40001), request)])
   \<and> (\<exists>c w. client_updates clear_crypto [7, 13] (lonely_client NETCODE_CLIENT_STATE_CONNECTED) empty_world = Some (c, w)
      \<and> cl_state c = NETCODE_CLIENT_STATE_CONNECTION_TIMED_OUT)"
proof -
  have inv: "client_inv {} (lonely_client s) empty_world" if "s > NETCODE_CLIENT_STATE_DISCONNECTED" for s
    using example_connect_token_wf that
      new_client_inv [OF world_inv_empty, of "ADDRESS_IPV4 [127, 0, 0, 1] 50000" "\<lparr>so_address = zero_address, so_handle = 3\<rparr>" 1 False]
    by (auto simp: lonely_client_def client_inv_def client_ok_def client_ready_def new_client_def client_connecting_def
        connect_token_wf_def example_connect_token_def address_ok_def int32_def zero_connect_token_def)
  have fields: "hears_nothing (lonely_client s) empty_world" "cl_state (lonely_client s) = s" "\<not> cl_should_disconnect (lonely_client s)"
    "cl_connect_token (lonely_client s) = example_connect_token" "cl_last_packet_receive_time (lonely_client s) = 1"
    "cl_connect_start_time (lonely_client s) = 1" "cl_last_packet_send_time (lonely_client s) = 1"
    "cl_server_address (lonely_client s) = ADDRESS_IPV4 [127, 0, 0, 1] 40000" "cl_server_address_index (lonely_client s) = 0"
    "token_lifetime (lonely_client s) = 30" "so_handle (cl_socket (lonely_client s)) = 3" for s
    by (simp_all add: hears_nothing_def lonely_client_def new_client_def empty_world_def token_lifetime_def example_connect_token_def)
  have token: "ct_timeout_seconds example_connect_token = 5" "ct_num_server_addresses example_connect_token = 2"
    "ct_server_addresses example_connect_token ! 0 = ADDRESS_IPV4 [127, 0, 0, 1] 40000"
    "ct_server_addresses example_connect_token ! Suc 0 = ADDRESS_IPV6 [0, 0, 0, 0, 0, 0, 0, 1] 40001"
    by (simp_all add: example_connect_token_def)
  have sent: "w_sent empty_world = []" by (simp add: empty_world_def)
  have request: "connecting (lonely_client NETCODE_CLIENT_STATE_SENDING_CONNECTION_REQUEST)" by (simp add: connecting_def fields)
  note gives_up = silent_client_gives_up [OF clear_crypto_laws inv fields(1)]
  note gives_up1 = gives_up [of NETCODE_CLIENT_STATE_SENDING_CONNECTION_REQUEST "[7]", unfolded fields]
    and gives_up2 = gives_up [of NETCODE_CLIENT_STATE_SENDING_CONNECTION_REQUEST "[7, 13]", unfolded fields]
    and gives_up3 = gives_up [of NETCODE_CLIENT_STATE_CONNECTED "[7, 13]", unfolded fields]
  show ?thesis
    using gives_up1 gives_up2 gives_up3 request
    by (auto simp: tried_def attempts_def fields token sent)
qed

end
