(* ===== verification/Server_Traffic.thy ===== *)
theory Server_Traffic
  imports Server_Protocol
begin

text \<open>
  How fast the server's sequence numbers grow. They matter to a user: a payload of 1200 bytes fits its packet only while
  the number takes three bytes. Reading a datagram sets the number of a slot to 0 or 1 or leaves it; an update adds at most
  one to each, a payload at most two.
\<close>

definition seq_below :: "nat \<Rightarrow> netcode_server \<Rightarrow> bool" where
  "seq_below n s \<longleftrightarrow> (\<forall>i. unat (sv_client_sequence s i) \<le> n)"

text \<open>Each slot's number was left as it is, or set for a client that came or went.\<close>

definition seq_reset :: "netcode_server \<Rightarrow> netcode_server \<Rightarrow> bool" where
  "seq_reset s s' \<longleftrightarrow> (\<forall>i. sv_client_sequence s' i \<in> {sv_client_sequence s i, 0, 1})"

lemma seq_reset_refl: "sv_client_sequence s' = sv_client_sequence s \<Longrightarrow> seq_reset s s'"
  by (simp add: seq_reset_def)

lemma seq_reset_trans: "seq_reset s s' \<Longrightarrow> seq_reset s' s'' \<Longrightarrow> seq_reset s s''"
  unfolding seq_reset_def by (metis insertE insertI1 insertI2 singletonD)

lemma seq_reset_below: "seq_reset s s' \<Longrightarrow> seq_below n s \<Longrightarrow> 1 \<le> n \<Longrightarrow> seq_below n s'"
  unfolding seq_reset_def seq_below_def by (metis insertE singletonD unat_0 unat_1 zero_le)

section \<open>Reading\<close>

lemma send_client_seq:
  "netcode_server_send_client_packet cr s p i w = Some (s', w') \<Longrightarrow>
   sv_client_sequence s' = sv_client_sequence s
   \<or> sv_client_sequence s' = (sv_client_sequence s)(i := sv_client_sequence s i + 1)"
  by (auto simp: netcode_server_send_client_packet_def Let_def split: bind_splits if_splits option.splits)

lemma send_global_seq:
  "netcode_server_send_global_packet cr s p a k w = Some (s', w') \<Longrightarrow> sv_client_sequence s' = sv_client_sequence s"
  by (auto simp: netcode_server_send_global_packet_def Let_def split: bind_splits)

lemma send_challenge_seq: "server_send_challenge cr s a t w = Some (s', w') \<Longrightarrow> sv_client_sequence s' = sv_client_sequence s"
  by (auto simp: server_send_challenge_def Let_def split: bind_splits c_result.splits dest!: send_global_seq)

lemma process_request_seq:
  "netcode_server_process_connection_request_packet cr s a p w = Some (s', w') \<Longrightarrow> sv_client_sequence s' = sv_client_sequence s"
  by (auto simp: netcode_server_process_connection_request_packet_def Let_def
      split: bind_splits c_result.splits if_splits prod.splits dest!: send_global_seq send_challenge_seq)

lemma connect_client_seq:
  "netcode_server_connect_client cr s j a cid e to user w = Some (s', w') \<Longrightarrow> seq_reset s s'"
  by (auto simp: netcode_server_connect_client_def seq_reset_def server_fill_slot_def Let_def
      split: bind_splits dest!: send_client_seq)

lemma process_response_seq:
  "netcode_server_process_connection_response_packet cr s a n d e w = Some (s', w') \<Longrightarrow> seq_reset s s'"
  by (auto simp: netcode_server_process_connection_response_packet_def Let_def
      split: bind_splits c_result.splits if_splits option.splits
      intro: seq_reset_refl dest: send_global_seq connect_client_seq)

lemma disconnect_seq:
  "netcode_server_disconnect_client_internal cr s j False w = Some (s', w') \<Longrightarrow> seq_reset s s'"
  by (auto simp: netcode_server_disconnect_client_internal_def server_free_slot_def server_clear_slot_def seq_reset_def Let_def
      split: bind_splits prod.splits)

lemma handle_seq: "server_handle_packet cr s a packet e i w = Some (s', w') \<Longrightarrow> seq_reset s s'"
  by (cases packet)
    (auto simp: server_handle_packet_def server_heard_from_def split: if_splits option.splits
      intro: seq_reset_refl dest: process_request_seq process_response_seq disconnect_seq)

lemma process_packet_seq:
  assumes "netcode_server_process_packet cr s a p n e i w = Some (s', w')"
  shows "seq_reset s s'"
proof -
  from assms obtain packet where packet: "w_packet p w = Some packet"
    by (auto simp: netcode_server_process_packet_def split: bind_splits)
  consider (payload) "sv_client_sequence s' = sv_client_sequence s"
    | (other) w1 where "server_handle_packet cr s a packet e i w = Some (s', w1)"
    using assms packet
    by (cases packet; cases i)
      (auto simp: netcode_server_process_packet_def server_heard_from_def Let_def split: bind_splits)
  then show ?thesis by cases (auto intro: seq_reset_refl handle_seq)
qed

lemma read_and_process_seq:
  assumes "netcode_server_read_and_process_packet cr s a d now w = Some (s', w')"
  shows "seq_reset s s'"
proof -
  obtain e i s1 where look: "server_lookup_sender s a = (e, i, s1)" by (rule prod_cases3)
  have s1: "sv_client_sequence s1 = sv_client_sequence s"
    using look by (auto simp: server_lookup_sender_def split: option.splits prod.splits)
  let ?s2 = "\<lambda>rp. case (i, rp) of (Some i, Some rp) \<Rightarrow>
      s1\<lparr>sv_client_replay_protection := (sv_client_replay_protection s1)(i := rp)\<rparr> | _ \<Rightarrow> s1"
  have s2: "seq_reset s (?s2 rp)" for rp using s1 by (auto intro!: seq_reset_refl split: option.split)
  consider (none) "s' = s" | (lookup) "s' = s1" | (read) rp where "s' = ?s2 rp"
    | (packet) rp p n w1 where "netcode_server_process_packet cr (?s2 rp) a p n e i w1 = Some (s', w')"
    using assms look
    by (fastforce simp: netcode_server_read_and_process_packet_def Let_def split: if_splits bind_splits option.splits)
  then show ?thesis
  proof cases
    case packet
    from seq_reset_trans [OF s2 process_packet_seq [OF packet]] show ?thesis .
  qed (use s1 s2 in \<open>auto intro: seq_reset_refl\<close>)
qed

lemma receive_from_socket_seq:
  "server_receive_from_socket cr now n s w = Some (s', w') \<Longrightarrow> seq_reset s s'"
proof (induction n arbitrary: s w)
  case (Suc n)
  consider (none) "s' = s"
    | (some) s1 a d w1 w2 where "netcode_server_read_and_process_packet cr s a d now w1 = Some (s1, w2)"
      "server_receive_from_socket cr now n s1 w2 = Some (s', w')"
    using Suc.prems by (auto split: bind_splits option.splits)
  then show ?case
  proof cases
    case some
    from seq_reset_trans [OF read_and_process_seq [OF some(1)] Suc.IH [OF some(2)]] show ?thesis .
  qed (simp add: seq_reset_refl)
qed simp

lemma receive_from_simulator_seq:
  "server_receive_from_simulator cr now received s w = Some (s', w') \<Longrightarrow> seq_reset s s'"
proof (induction received arbitrary: s w)
  case (Cons r received)
  obtain b n a where r: "r = (b, n, a)" by (rule prod_cases3)
  obtain s1 d w1 w2 w3 where step: "netcode_server_read_and_process_packet cr s a d now w1 = Some (s1, w2)"
      "server_receive_from_simulator cr now received s1 w3 = Some (s', w')"
    using Cons.prems r by (auto split: bind_splits)
  from seq_reset_trans [OF read_and_process_seq [OF step(1)] Cons.IH [OF step(2)]] show ?case .
qed (simp add: seq_reset_refl)

lemma receive_packets_seq: "netcode_server_receive_packets cr s w = Some (s', w') \<Longrightarrow> seq_reset s s'"
  by (auto simp: netcode_server_receive_packets_def Let_def simp del: server_receive_from_socket.simps
      split: if_splits bind_splits intro: receive_from_socket_seq receive_from_simulator_seq)

section \<open>Sending\<close>

text \<open>A number that was counted up is not above the bound that was, even where it wraps.\<close>

lemma unat_Suc_le: "unat (x + 1 :: u64) \<le> Suc (unat x)"
  by (metis Suc_eq_plus1 order_refl unat_1 unat_plus_simple unat_word_ariths(1) mod_less_eq_dividend unat_1)

lemma seq_below_count:
  assumes "seq_below n s" and "sv_client_sequence s' = (sv_client_sequence s)(i := sv_client_sequence s i + 1)"
  shows "seq_below (Suc n) s'"
  using assms order_trans [OF unat_Suc_le [of "sv_client_sequence s i"], of "Suc n"] by (auto simp: seq_below_def le_SucI)

lemma send_client_below:
  "netcode_server_send_client_packet cr s p i w = Some (s', w') \<Longrightarrow> seq_below n s \<Longrightarrow> seq_below (Suc n) s'"
  using seq_below_count [of n s s' i] by (auto dest!: send_client_seq) (simp add: seq_below_def le_SucI)

lemma keep_alives_seq:
  "server_send_keep_alives cr k i s w = Some (s', w') \<Longrightarrow>
   (\<forall>j < i. sv_client_sequence s' j = sv_client_sequence s j)
   \<and> (\<forall>j. sv_client_sequence s' j \<in> {sv_client_sequence s j, sv_client_sequence s j + 1})"
proof (induction k arbitrary: i s w)
  case (Suc k)
  then obtain s1 w1 where sent: "s1 = s \<or> netcode_server_send_client_packet cr s (keep_alive_packet s i) i w = Some (s1, w1)"
    and rest: "server_send_keep_alives cr k (Suc i) s1 w1 = Some (s', w')"
    by (force split: bind_splits if_splits)
  have 1: "sv_client_sequence s1 = sv_client_sequence s
      \<or> sv_client_sequence s1 = (sv_client_sequence s)(i := sv_client_sequence s i + 1)"
    using sent by (auto dest: send_client_seq)
  note ih = Suc.IH [OF rest]
  have "sv_client_sequence s' j = sv_client_sequence s j" if "j < i" for j using ih 1 that by auto
  moreover have "sv_client_sequence s' j \<in> {sv_client_sequence s j, sv_client_sequence s j + 1}" for j
  proof (cases "j = i")
    case True
    with ih have "sv_client_sequence s' j = sv_client_sequence s1 j" by blast
    with True 1 show ?thesis by auto
  next
    case False
    with 1 have "sv_client_sequence s1 j = sv_client_sequence s j" by auto
    with ih show ?thesis by (metis insertE insertI1 insertI2 singletonD)
  qed
  ultimately show ?case by blast
qed simp

lemma send_packets_below:
  assumes "netcode_server_send_packets cr s w = Some (s', w')" and "seq_below n s"
  shows "seq_below (Suc n) s'"
proof -
  have "sv_client_sequence s' j \<in> {sv_client_sequence s j, sv_client_sequence s j + 1}" for j
    using assms(1) by (auto simp: netcode_server_send_packets_def split: if_splits dest: keep_alives_seq)
  then have "unat (sv_client_sequence s' j) \<le> Suc (unat (sv_client_sequence s j))" for j
    using unat_Suc_le [of "sv_client_sequence s j"] by (metis insertE le_SucI order_refl singletonD)
  with assms(2) show ?thesis unfolding seq_below_def by (meson Suc_le_mono order_trans)
qed

lemma timeouts_seq: "netcode_server_check_for_timeouts cr s w = Some (s', w') \<Longrightarrow> seq_reset s s'"
  by (auto simp: netcode_server_check_for_timeouts_def split: if_splits option.splits intro: seq_reset_refl disconnect_seq)

lemma update_below:
  assumes "netcode_server_update cr time s w = Some (s', w')" and "seq_below n s" and "1 \<le> n"
  shows "seq_below (Suc n) s'"
proof -
  obtain s1 w1 s2 w2 where steps: "netcode_server_receive_packets cr (s\<lparr>sv_time := time\<rparr>) w = Some (s1, w1)"
      "netcode_server_send_packets cr s1 w1 = Some (s2, w2)" "netcode_server_check_for_timeouts cr s2 w2 = Some (s', w')"
    using assms(1) by (auto simp: netcode_server_update_def Let_def split: bind_splits)
  have "seq_below n (s\<lparr>sv_time := time\<rparr>)" using assms(2) by (simp add: seq_below_def)
  with receive_packets_seq [OF steps(1)] have "seq_below n s1" using assms(3) by (rule seq_reset_below)
  with send_packets_below [OF steps(2)] have "seq_below (Suc n) s2" .
  with timeouts_seq [OF steps(3)] show ?thesis by (rule seq_reset_below) simp
qed

lemma send_packet_below:
  assumes "netcode_server_send_packet cr s i data w = Some (s', w')" and "seq_below n s"
  shows "seq_below (n + 2) s'"
proof -
  have more: "seq_below m s \<Longrightarrow> m \<le> k \<Longrightarrow> seq_below k s" for m k s unfolding seq_below_def by (meson order_trans)
  have up: "seq_below (Suc n) (s\<lparr>sv_client_sequence := (sv_client_sequence s)(j := sv_client_sequence s j + 1),
      sv_client_last_packet_send_time := t\<rparr>)" for j t
    by (rule seq_below_count [OF assms(2)]) simp
  consider (same) "s' = s" | (one) "seq_below (Suc n) s'"
    | (two) s1 w1 p q w2 where "netcode_server_send_client_packet cr s p (nat i) w = Some (s1, w1)"
      "netcode_server_send_client_packet cr s1 q (nat i) w1 = Some (s', w2)"
    using assms up send_client_below
    by (fastforce simp: netcode_server_send_packet_def slot_index_def Let_def split: bind_splits if_splits)
  then show ?thesis
  proof cases
    case two
    from send_client_below [OF two(2) send_client_below [OF two(1) assms(2)]] show ?thesis by simp
  qed (use assms(2) in \<open>auto intro: more\<close>)
qed

lemma receive_packet_seq:
  "netcode_server_receive_packet s i w = Some (r, s') \<Longrightarrow> sv_client_sequence s' = sv_client_sequence s"
  by (auto simp: netcode_server_receive_packet_def split: if_splits bind_splits prod.splits option.splits netcode_packet.splits)

lemma seq_below_fits:
  assumes "seq_below n s" and "n + 1 < 2 ^ 24" and "length data \<le> NETCODE_MAX_PAYLOAD_BYTES" and "d \<in> {0, 1}"
  shows "wire_bytes (CONNECTION_PAYLOAD_PACKET data) (sv_client_sequence s i + d) \<le> NETCODE_MAX_PACKET_BYTES"
proof (rule payload_fits [OF assms(3)])
  have "unat (sv_client_sequence s i + d) \<le> Suc (unat (sv_client_sequence s i))"
    using assms(4) unat_Suc_le [of "sv_client_sequence s i"] by auto
  moreover have "unat (sv_client_sequence s i) \<le> n" using assms(1) by (simp add: seq_below_def)
  ultimately show "unat (sv_client_sequence s i + d) < 2 ^ 24" using assms(2) by linarith
qed

section \<open>Disconnecting, stopping and starting\<close>

text \<open>What these leave of a server: its clock and transport, and the packets to those that stay are as recent as before.\<close>

definition server_course :: "netcode_server \<Rightarrow> netcode_server \<Rightarrow> bool" where
  "server_course s s' \<longleftrightarrow> seq_reset s s' \<and> sv_time s' = sv_time s \<and> sv_network_simulator s' = sv_network_simulator s
     \<and> (server_fresh s \<longrightarrow> server_fresh s')"

lemma server_course_refl [simp]: "server_course s s"
  by (simp add: server_course_def seq_reset_refl)

lemma server_course_trans: "server_course s s' \<Longrightarrow> server_course s' s'' \<Longrightarrow> server_course s s''"
  by (auto simp: server_course_def intro: seq_reset_trans)

text \<open>Sending to one client.\<close>

definition sent_to :: "nat \<Rightarrow> netcode_server \<Rightarrow> netcode_server \<Rightarrow> bool" where
  "sent_to i s s' \<longleftrightarrow> (\<forall>j. j \<noteq> i \<longrightarrow> sv_client_sequence s' j = sv_client_sequence s j)
     \<and> sv_time s' = sv_time s \<and> sv_network_simulator s' = sv_network_simulator s \<and> remote s' = remote s
     \<and> (\<forall>j. packet_recent s j \<longrightarrow> packet_recent s' j)"

lemma sent_to_refl [simp]: "sent_to i s s"
  by (simp add: sent_to_def)

lemma sent_to_trans: "sent_to i s s' \<Longrightarrow> sent_to i s' s'' \<Longrightarrow> sent_to i s s''"
  by (simp add: sent_to_def)

lemma sent_to_fresh: "sent_to i s s' \<Longrightarrow> server_fresh s \<Longrightarrow> server_fresh s'"
  by (simp add: sent_to_def server_fresh_def)

lemma send_client_sent_to: "netcode_server_send_client_packet cr s p i w = Some (s', w') \<Longrightarrow> sent_to i s s'"
  by (auto simp: netcode_server_send_client_packet_def sent_to_def packet_recent_def remote_def fun_eq_iff Let_def
      split: bind_splits if_splits option.splits)

lemma send_disconnects_sent_to: "server_send_disconnect_packets cr k s i w = Some (s', w') \<Longrightarrow> sent_to i s s'"
proof (induction k arbitrary: s w)
  case (Suc k)
  then obtain s1 w1 where "netcode_server_send_client_packet cr s CONNECTION_DISCONNECT_PACKET i w = Some (s1, w1)"
    and "server_send_disconnect_packets cr k s1 i w1 = Some (s', w')" by (auto split: bind_splits)
  from sent_to_trans [OF send_client_sent_to [OF this(1)] Suc.IH [OF this(2)]] show ?case .
qed simp

lemma free_slot_fields:
  assumes "server_free_slot s i w = Some (s', w')"
  shows "sv_client_sequence s' = (sv_client_sequence s)(i := 0)" and "sv_time s' = sv_time s"
    and "sv_network_simulator s' = sv_network_simulator s" and "server_fresh s \<Longrightarrow> server_fresh s'"
  using assms
  by (auto simp: server_free_slot_def server_clear_slot_def server_fresh_def packet_recent_def remote_def Let_def
      split: bind_splits prod.splits if_splits)

lemma free_slot_course: "server_free_slot s1 i w = Some (s', w') \<Longrightarrow> sent_to i s s1 \<Longrightarrow> server_course s s'"
  using free_slot_fields [of s1 i w s' w'] sent_to_fresh [of i s s1]
  by (auto simp: server_course_def seq_reset_def sent_to_def)

lemma slot_freed_course:
  assumes "netcode_server_disconnect_client_internal cr s i send w = Some (s', w')"
  shows "server_course s s'"
proof -
  obtain s1 w1 where "sent_to i s s1" "server_free_slot s1 i w1 = Some (s', w')"
    using assms
    by (auto simp: netcode_server_disconnect_client_internal_def Let_def split: bind_splits if_splits
        dest: send_disconnects_sent_to) (use sent_to_refl in blast)
  then show ?thesis by (intro free_slot_course)
qed

lemma disconnect_client_course: "netcode_server_disconnect_client cr s i w = Some (s', w') \<Longrightarrow> server_course s s'"
  by (auto simp: netcode_server_disconnect_client_def split: bind_splits if_splits dest: slot_freed_course)

lemma disconnect_clients_course: "server_disconnect_clients cr k i s w = Some (s', w') \<Longrightarrow> server_course s s'"
proof (induction k arbitrary: i s w)
  case (Suc k)
  then obtain s1 w1 where "server_course s s1" and "server_disconnect_clients cr k (Suc i) s1 w1 = Some (s', w')"
    by (auto split: bind_splits if_splits dest: slot_freed_course) (use server_course_refl in blast)+
  from server_course_trans [OF this(1) Suc.IH [OF this(2)]] show ?case .
qed simp

lemma stop_course:
  assumes "netcode_server_stop cr s w = Some (s', w')"
  shows "seq_reset s s' \<and> sv_time s' = sv_time s \<and> sv_network_simulator s' = sv_network_simulator s"
  using assms
  by (auto simp: netcode_server_stop_def netcode_server_disconnect_all_clients_def server_course_def seq_reset_def
      split: bind_splits if_splits dest!: disconnect_clients_course)

lemma start_course:
  assumes "netcode_server_start cr s n w = Some (s', w')"
  shows "seq_reset s s' \<and> sv_time s' = sv_time s \<and> sv_network_simulator s' = sv_network_simulator s"
  using assms
  by (auto simp: netcode_server_start_def netcode_generate_key_def netcode_random_bytes_def seq_reset_def Let_def
      split: bind_splits if_splits prod.splits dest!: stop_course)

lemma send_packet_fresh:
  assumes "netcode_server_send_packet cr s i data w = Some (s', w')" and "server_fresh s"
  shows "server_fresh s'"
  using assms
  by (auto simp: netcode_server_send_packet_def Let_def split: bind_splits if_splits
      dest!: send_client_sent_to intro: sent_to_fresh) (auto simp: server_fresh_def packet_recent_def remote_def)

lemma receive_packet_course:
  "netcode_server_receive_packet s i w = Some (r, s') \<Longrightarrow> server_course s s'"
  by (auto simp: netcode_server_receive_packet_def server_course_def seq_reset_def server_fresh_def packet_recent_def remote_def
      split: if_splits bind_splits prod.splits option.splits netcode_packet.splits)

end
