(* ===== verification/Client_Traffic.thy ===== *)
theory Client_Traffic
  imports Client_Protocol
begin

text \<open>
  How fast a client's sequence number grows: an update counts it up by one at most, as does a payload, and the reset that comes with
  a disconnect sets it to 0. \<open>paced k c c'\<close>: the transport is the same, and at most \<open>k\<close> packets were sent since.
\<close>

definition paced :: "nat \<Rightarrow> netcode_client \<Rightarrow> netcode_client \<Rightarrow> bool" where
  "paced k c c' \<longleftrightarrow> (\<not> cl_loopback c \<longrightarrow> client_same c c' \<and> unat (cl_sequence c') \<le> unat (cl_sequence c) + k)"

lemma paced_refl [simp]: "paced k c c"
  by (simp add: paced_def)

lemma paced_trans: "paced j c c' \<Longrightarrow> paced k c' c'' \<Longrightarrow> paced (j + k) c c''"
  by (auto simp: paced_def client_same_def)

lemma paced_0_trans: "paced 0 c c' \<Longrightarrow> paced k c' c'' \<Longrightarrow> paced k c c''"
  using paced_trans [of 0] by simp

lemma paced_trans_0: "paced k c c' \<Longrightarrow> paced 0 c' c'' \<Longrightarrow> paced k c c''"
  using paced_trans [of k _ _ 0] by simp

lemma paced_same: "client_same c c' \<Longrightarrow> cl_sequence c' = cl_sequence c \<Longrightarrow> paced k c c'"
  by (simp add: paced_def)

section \<open>Sending\<close>

lemma send_internal_paced:
  assumes "netcode_client_send_packet_to_server_internal cr c p w = Some (c', w')"
  shows "paced 1 c c'"
proof -
  have "unat (cl_sequence c + 1) \<le> unat (cl_sequence c) + 1"
    by (metis mod_less_eq_dividend unat_1 unat_word_ariths(1))
  with assms show ?thesis
    by (auto simp: netcode_client_send_packet_to_server_internal_def paced_def client_same_def Let_def split: bind_splits)
qed

lemma send_packets_paced: "netcode_client_send_packets cr c w = Some (c', w') \<Longrightarrow> paced 1 c c'"
  by (auto simp: netcode_client_send_packets_def split: bind_splits client_state.splits if_splits dest: send_internal_paced)

lemma send_payload_paced: "netcode_client_send_packet cr c data w = Some (c', w') \<Longrightarrow> paced 1 c c'"
  by (auto simp: netcode_client_send_packet_def Let_def split: bind_splits if_splits dest: send_internal_paced)
    (simp add: paced_def)

section \<open>Connecting and disconnecting\<close>

lemma reset_data_fields:
  "netcode_client_reset_connection_data c s w = Some (c', w') \<Longrightarrow>
   cl_sequence c' = 0 \<and> \<not> cl_loopback c' \<and> cl_socket c' = cl_socket c \<and> cl_network_simulator c' = cl_network_simulator c
   \<and> cl_address c' = cl_address c"
  by (auto simp: netcode_client_reset_connection_data_def netcode_client_set_state_def
      netcode_client_reset_before_next_connect_def Let_def split: bind_splits)

lemma send_disconnects_same:
  "client_send_disconnect_packets cr k c w = Some (c', w') \<Longrightarrow> paced k c c'"
proof (induction k arbitrary: c w)
  case (Suc k)
  then obtain c1 w1 where "netcode_client_send_packet_to_server_internal cr c CONNECTION_DISCONNECT_PACKET w = Some (c1, w1)"
    and "client_send_disconnect_packets cr k c1 w1 = Some (c', w')" by (auto split: bind_splits)
  from paced_trans [OF send_internal_paced [OF this(1)] Suc.IH [OF this(2)]] show ?case by simp
qed simp

lemma disconnect_internal_paced:
  assumes "netcode_client_disconnect_internal cr c s send w = Some (c', w')"
  shows "paced 0 c c'"
proof -
  consider (same) "c' = c"
    | (reset) c1 w1 where "paced NETCODE_NUM_DISCONNECT_PACKETS c c1" "netcode_client_reset_connection_data c1 s w1 = Some (c', w')"
    using assms
    by (auto simp: netcode_client_disconnect_internal_def split: bind_splits if_splits dest: send_disconnects_same)
      (use paced_refl in blast)
  then show ?thesis
    by cases (auto simp: paced_def client_same_def dest!: reset_data_fields)
qed

lemma disconnect_paced: "netcode_client_disconnect cr c w = Some (c', w') \<Longrightarrow> paced 0 c c'"
  by (auto simp: netcode_client_disconnect_def split: bind_splits dest: disconnect_internal_paced)

lemma connect_paced:
  assumes "netcode_client_connect cr c token w = Some (c', w')"
  shows "paced 0 c c'"
proof -
  obtain c1 w1 where "netcode_client_disconnect cr c w = Some (c1, w1)"
    and rest: "client_same c1 c'" "cl_sequence c' = cl_sequence c1"
    using assms
    by (auto simp: netcode_client_connect_def netcode_client_set_state_def netcode_client_reset_before_next_connect_def
        client_same_def Let_def split: bind_splits if_splits)
  from paced_0_trans [OF disconnect_paced [OF this(1)] paced_same [OF rest]] show ?thesis .
qed

lemma next_server_paced:
  "client_next_server_or_disconnect cr c s w = Some (c', w') \<Longrightarrow> paced 0 c c'"
  by (auto simp: client_next_server_or_disconnect_def netcode_client_connect_to_next_server_def netcode_client_set_state_def
      netcode_client_reset_before_next_connect_def Let_def split: bind_splits if_splits
      dest!: disconnect_internal_paced) (simp_all add: paced_def client_same_def)

section \<open>Receiving and the update\<close>

lemma handle_paced: "client_handle_packet c a p w = Some (c', w') \<Longrightarrow> paced 0 c c'"
  by (auto simp: client_handle_packet_def netcode_client_set_state_def client_same_def paced_def Let_def
      split: netcode_packet.splits if_splits)

lemma process_paced: "netcode_client_process_packet c a p n w = Some (c', w') \<Longrightarrow> paced 0 c c'"
  by (auto simp: netcode_client_process_packet_def split: bind_splits option.splits dest: handle_paced)
    (simp add: paced_def client_same_def)

lemma read_paced: "client_read_packet cr t d c w = Some (r, c', w') \<Longrightarrow> paced 0 c c'"
  by (auto simp: client_read_packet_def client_same_def paced_def split: bind_splits)

lemma from_socket_paced: "client_receive_from_socket cr t n c w = Some (c', w') \<Longrightarrow> paced 0 c c'"
proof (induction n arbitrary: c w)
  case (Suc n)
  consider (none) "c' = c"
    | (dropped) d w1 r c1 w2 where "client_read_packet cr t d c w1 = Some (r, c1, w2)"
      "client_receive_from_socket cr t n c1 w2 = Some (c', w')"
    | (packet) d w1 r c1 w2 a p k c2 w3 where "client_read_packet cr t d c w1 = Some (r, c1, w2)"
      "netcode_client_process_packet c1 a p k w2 = Some (c2, w3)" "client_receive_from_socket cr t n c2 w3 = Some (c', w')"
    using Suc.prems by (auto split: bind_splits option.splits)
  then show ?case
  proof cases
    case dropped
    from paced_0_trans [OF read_paced [OF dropped(1)] Suc.IH [OF dropped(2)]] show ?thesis .
  next
    case packet
    from paced_0_trans [OF read_paced [OF packet(1)] paced_0_trans [OF process_paced [OF packet(2)] Suc.IH [OF packet(3)]]]
    show ?thesis .
  qed simp
qed simp

lemma from_simulator_paced: "client_receive_from_simulator cr t rs c w = Some (c', w') \<Longrightarrow> paced 0 c c'"
proof (induction rs arbitrary: c w)
  case (Cons x rs)
  obtain b n a where x: "x = (b, n, a)" by (rule prod_cases3)
  consider (dropped) d w1 r c1 w2 w3 where "client_read_packet cr t d c w1 = Some (r, c1, w2)"
      "client_receive_from_simulator cr t rs c1 w3 = Some (c', w')"
    | (packet) d w1 r c1 w2 a p k c2 w3 w4 where "client_read_packet cr t d c w1 = Some (r, c1, w2)"
      "netcode_client_process_packet c1 a p k w3 = Some (c2, w4)" "client_receive_from_simulator cr t rs c2 w4 = Some (c', w')"
    using Cons.prems x by (auto split: bind_splits option.splits)
  then show ?case
  proof cases
    case dropped
    from paced_0_trans [OF read_paced [OF dropped(1)] Cons.IH [OF dropped(2)]] show ?thesis .
  next
    case packet
    from paced_0_trans [OF read_paced [OF packet(1)] paced_0_trans [OF process_paced [OF packet(2)] Cons.IH [OF packet(3)]]]
    show ?thesis .
  qed
qed simp

lemma receive_packets_paced: "netcode_client_receive_packets cr c w = Some (c', w') \<Longrightarrow> paced 0 c c'"
  by (auto simp: netcode_client_receive_packets_def Let_def simp del: client_receive_from_socket.simps
      split: bind_splits if_splits intro: from_socket_paced from_simulator_paced)

lemma update_paced:
  assumes "netcode_client_update cr t c w = Some (c', w')"
  shows "paced 1 c c'"
proof -
  have time: "paced 0 c (c\<lparr>cl_time := t\<rparr>)" by (simp add: paced_def client_same_def)
  consider (loopback) "c' = c\<lparr>cl_time := t\<rparr>"
    | (run) c1 w1 c2 w2 where "netcode_client_receive_packets cr (c\<lparr>cl_time := t\<rparr>) w = Some (c1, w1)"
      "netcode_client_send_packets cr c1 w1 = Some (c2, w2)" "paced 0 c2 c'"
    using assms
    by (auto simp: netcode_client_update_def Let_def split: bind_splits if_splits client_state.splits)
      (blast intro: disconnect_internal_paced next_server_paced)+
  then show ?thesis
  proof cases
    case run
    from paced_0_trans [OF time paced_0_trans [OF receive_packets_paced [OF run(1)]
          paced_trans_0 [OF send_packets_paced [OF run(2)] run(3)]]] show ?thesis .
  qed (simp add: paced_def client_same_def)
qed

lemma receive_packet_paced: "netcode_client_receive_packet c w = Some (r, c') \<Longrightarrow> paced 0 c c'"
  by (auto simp: netcode_client_receive_packet_def client_same_def paced_def split: prod.splits option.splits bind_splits
      netcode_packet.splits)

end
