(* ===== verification/Programs.thy ===== *)
theory Programs
  imports Server_Traffic Client_Traffic Token_Generation
begin

text \<open>
  What the example programs share (\<^verbatim>\<open>server.c\<close>, \<^verbatim>\<open>client.c\<close>, \<^verbatim>\<open>client_server.c\<close>, \<^verbatim>\<open>soak.c\<close>,
  \<^verbatim>\<open>profile.c\<close>). A program has two ways to fail: an abort inside the library is \<open>None\<close>, as everywhere in this
  development, and a failure of the program itself, an assertion or a null pointer of its own, is \<open>Fails\<close>. The environment acts between two
  rounds of a program: the clock is set and datagrams arrive at the sockets. The signal that sets \<^verbatim>\<open>quit\<close> comes when
  the list of these events is at its end.
\<close>

section \<open>Programs\<close>

datatype 'a program = Runs 'a | Fails

definition and_then :: "'a program option \<Rightarrow> ('a \<Rightarrow> 'b program option) \<Rightarrow> 'b program option" where
  "and_then m f = do { r \<leftarrow> m; (case r of Fails \<Rightarrow> Some Fails | Runs x \<Rightarrow> f x) }"

text \<open>A \<^verbatim>\<open>for\<close> loop over an array, on the variables that its body assigns.\<close>

fun for_each :: "('i \<Rightarrow> 's \<Rightarrow> 's program option) \<Rightarrow> 'i list \<Rightarrow> 's \<Rightarrow> 's program option" where
  "for_each body [] s = Some (Runs s)"
| "for_each body (i # is) s = and_then (body i s) (for_each body is)"

fun ends_well :: "('a \<Rightarrow> bool) \<Rightarrow> 'a program \<Rightarrow> bool" where
  "ends_well Q (Runs x) = Q x"
| "ends_well Q Fails = True"

lemma ends_well_mono: "ends_well P r \<Longrightarrow> (\<And>x. P x \<Longrightarrow> Q x) \<Longrightarrow> ends_well Q r"
  by (cases r) auto

lemma runs_and_then:
  "runs m (ends_well P) \<Longrightarrow> (\<And>x. P x \<Longrightarrow> runs (f x) (ends_well Q)) \<Longrightarrow> runs (and_then m f) (ends_well Q)"
  unfolding and_then_def runs_bind by (erule runs_mono) (auto split: program.split)

text \<open>One statement after the other, for the pairs and triples that the programs pass on.\<close>

lemma runs_then_pair:
  "runs m (\<lambda>(a, b). P a b) \<Longrightarrow> (\<And>a b. P a b \<Longrightarrow> runs (f a b) Q) \<Longrightarrow> runs (m \<bind> (\<lambda>(a, b). f a b)) Q"
  unfolding runs_bind by (erule runs_mono) auto

lemma runs_and_then_pair:
  "runs m (ends_well (\<lambda>(a, b). P a b)) \<Longrightarrow> (\<And>a b. P a b \<Longrightarrow> runs (f a b) (ends_well Q)) \<Longrightarrow>
   runs (and_then m (\<lambda>(a, b). f a b)) (ends_well Q)"
  by (erule runs_and_then) auto

lemma runs_and_then_triple:
  "runs m (ends_well (\<lambda>(a, b, c). P b c)) \<Longrightarrow> (\<And>a b c. P b c \<Longrightarrow> runs (f a b c) (ends_well Q)) \<Longrightarrow>
   runs (and_then m (\<lambda>(a, b, c). f a b c)) (ends_well Q)"
  by (erule runs_and_then) auto

lemma runs_when: "runs m (ends_well P) \<Longrightarrow> P st \<Longrightarrow> runs (if c then m else Some (Runs st)) (ends_well P)"
  by simp

lemma runs_for_each:
  assumes "\<And>k s. k < length is \<Longrightarrow> I k s \<Longrightarrow> runs (body (is ! k) s) (ends_well (I (Suc k)))" and "I 0 s"
  shows "runs (for_each body is s) (ends_well (I (length is)))"
  using assms
proof (induction "is" arbitrary: I s)
  case (Cons i js)
  have "runs (for_each body js s') (ends_well (I (length (i # js))))" if "I (Suc 0) s'" for s'
    using Cons.IH [of "\<lambda>k. I (Suc k)", OF _ that] Cons.prems(1) [of "Suc _"] by simp
  then show ?case
    using Cons.prems(1) [of 0] Cons.prems(2) by (auto intro: runs_and_then)
qed simp

lemma runs_for_upt:
  assumes "\<And>k s. k < n \<Longrightarrow> I k s \<Longrightarrow> runs (body k s) (ends_well (I (Suc k)))" and "I 0 s"
  shows "runs (for_each body [0..<n] s) (ends_well (I n))"
  using runs_for_each [of "[0..<n]" I body s] assms by simp

section \<open>The environment\<close>

text \<open>What happens while a program sleeps: the time of day, and the datagrams, with the handles of their sockets.\<close>

type_synonym arrival = "u64 \<times> (int \<times> sockaddr \<times> bytes) list"

definition arrive :: "arrival \<Rightarrow> world \<Rightarrow> world" where
  "arrive a w = w\<lparr>w_timestamp := fst a,
     w_inbox := (\<lambda>h. w_inbox w h @ map snd (filter (\<lambda>d. fst d = h) (snd a)))\<rparr>"

text \<open>The world of a process that starts, and an operating system that gives it a socket.\<close>

definition fresh_world :: world where
  "fresh_world = empty_world\<lparr>w_initialized := False\<rparr>"

lemma fresh_world_ok:
  "world_inv False {} fresh_world" "\<not> w_initialized fresh_world" "unat (w_timestamp fresh_world) + 60 < 2 ^ 64"
  using world_inv_empty [of False] by (simp_all add: fresh_world_def world_inv_def inbox_ok_def) (simp add: empty_world_def)

definition example_os :: os_calls where
  "example_os = \<lparr>os_socket = 3, os_ipv6_only = 0, os_sndbuf = 0, os_rcvbuf = 0, os_bind = 0,
     os_getsockname = Some 40000, os_fcntl = 0\<rparr>"

text \<open>The senders' addresses are of the two families, and the clock is not within a minute of its end.\<close>

definition arrival_ok :: "arrival \<Rightarrow> bool" where
  "arrival_ok a \<longleftrightarrow> unat (fst a) + 60 < 2 ^ 64 \<and> (\<forall>d \<in> set (snd a). sockaddr_ok (fst (snd d)))"

lemma arrive_world:
  assumes "arrival_ok a" and "world_inv sim A w"
  shows "world_inv sim A (arrive a w)"
  using assms by (auto simp: arrival_ok_def arrive_def world_inv_def inbox_ok_def)

lemma arrive_fields [simp]:
  "w_heap (arrive a w) = w_heap w" "w_initialized (arrive a w) = w_initialized w" "w_timestamp (arrive a w) = fst a"
  by (simp_all add: arrive_def)

section \<open>Payloads\<close>

definition packet_data :: bytes where
  "packet_data = map of_nat [0..<NETCODE_MAX_PACKET_SIZE]"

lemma length_packet_data [simp]: "length packet_data = NETCODE_MAX_PACKET_SIZE"
  by (simp add: packet_data_def)

text \<open>
  The loops \<^verbatim>\<open>while ( 1 )\<close> that read what a client or a server has received. The payload has to pass the program's
  assertions, \<open>expected\<close>. The count of packets is used by one program only. The fuel is above the size of a receive queue.
\<close>

abbreviation (input) read_rounds :: nat where
  "read_rounds \<equiv> Suc NETCODE_PACKET_QUEUE_SIZE"

fun server_read_loop ::
    "(bytes \<Rightarrow> bool) \<Rightarrow> nat \<Rightarrow> int \<Rightarrow> nat \<times> netcode_server \<times> world \<Rightarrow> (nat \<times> netcode_server \<times> world) program option" where
  "server_read_loop expected 0 client_index (received, server, w) = None"
| "server_read_loop expected (Suc fuel) client_index (received, server, w) =
     do { (packet, server) \<leftarrow> netcode_server_receive_packet server client_index w;
          (case packet of
             None \<Rightarrow> Some (Runs (received, server, w))
           | Some (ptr, payload, packet_sequence) \<Rightarrow>
               if \<not> expected payload then Some Fails
               else do { w \<leftarrow> netcode_server_free_packet ptr w;
                         server_read_loop expected fuel client_index (received + 1, server, w) }) }"

fun client_read_loop ::
    "(bytes \<Rightarrow> bool) \<Rightarrow> nat \<Rightarrow> nat \<times> netcode_client \<times> world \<Rightarrow> (nat \<times> netcode_client \<times> world) program option" where
  "client_read_loop expected 0 (received, client, w) = None"
| "client_read_loop expected (Suc fuel) (received, client, w) =
     do { (packet, client) \<leftarrow> netcode_client_receive_packet client w;
          (case packet of
             None \<Rightarrow> Some (Runs (received, client, w))
           | Some (ptr, payload, packet_sequence) \<Rightarrow>
               if \<not> expected payload then Some Fails
               else do { w \<leftarrow> netcode_client_free_packet ptr w;
                         client_read_loop expected fuel (received + 1, client, w) }) }"

text \<open>The assertions of \<^verbatim>\<open>server.c\<close>, \<^verbatim>\<open>client.c\<close>, \<^verbatim>\<open>client_server.c\<close>, and those of \<^verbatim>\<open>soak.c\<close> and \<^verbatim>\<open>profile.c\<close>.\<close>

definition whole_packet :: "bytes \<Rightarrow> bool" where
  "whole_packet payload \<longleftrightarrow> length payload = NETCODE_MAX_PACKET_SIZE \<and> payload = packet_data"

definition packet_prefix :: "bytes \<Rightarrow> bool" where
  "packet_prefix payload \<longleftrightarrow> payload = take (length payload) packet_data"

text \<open>Eight bytes of memory as a number, on a little-endian machine.\<close>

definition u64_of_memory :: "bytes \<Rightarrow> u64" where
  "u64_of_memory bs = (\<Sum>i \<leftarrow> [0..<8]. push_bit (8 * i) (ucast (bs ! i)))"

text \<open>What \<^verbatim>\<open>malloc\<close> left in the fields of a server that its constructor does not set.\<close>

type_synonym server_memory = "int array \<times> bytes \<times> u64"

text \<open>How a program ends: with 1, or with 0 after \<^verbatim>\<open>netcode_term\<close>, in a sound world.\<close>

definition exits :: "int \<Rightarrow> world \<Rightarrow> bool" where
  "exits code w \<longleftrightarrow> code = 1 \<or> code = 0 \<and> \<not> w_initialized w \<and> world_inv False {} w"

section \<open>A server in a program\<close>

text \<open>
  What the programs keep of a server, on sockets or on the network simulator (\<open>sim\<close>): no loopback clients, every number of a client at most \<open>n\<close>, and the last
  packet to every client less than a tenth of a second before the last update, which came at \<open>t\<close> or later.
\<close>

definition server_driven_in :: "bool \<Rightarrow> nat \<Rightarrow> dbl \<Rightarrow> netcode_server \<Rightarrow> bool" where
  "server_driven_in sim n t s \<longleftrightarrow> no_loopback s \<and> sv_network_simulator s = sim \<and> seq_below n s \<and> server_fresh s \<and> t \<le> sv_time s"

abbreviation (input) server_driven :: "nat \<Rightarrow> dbl \<Rightarrow> netcode_server \<Rightarrow> bool" where
  "server_driven \<equiv> server_driven_in False"

abbreviation server_up :: "nat \<Rightarrow> netcode_server \<Rightarrow> bool" where
  "server_up m s \<equiv> sv_running s \<and> sv_max_clients s = m"

lemma seq_below_mono: "seq_below m s \<Longrightarrow> m \<le> n \<Longrightarrow> seq_below n s"
  unfolding seq_below_def by (meson order_trans)

lemma server_driven_mono: "server_driven_in sim m t s \<Longrightarrow> m \<le> n \<Longrightarrow> u \<le> t \<Longrightarrow> server_driven_in sim n u s"
  by (auto simp: server_driven_in_def intro: seq_below_mono)

definition server_kept_driven_in :: "bool \<Rightarrow> nat set \<Rightarrow> nat \<Rightarrow> dbl \<Rightarrow> world \<Rightarrow> netcode_server \<times> world \<Rightarrow> bool" where
  "server_kept_driven_in sim B n t w = (\<lambda>(s', w'). server_inv B s' w' \<and> frame_rx B w w' \<and> server_driven_in sim n t s')"

abbreviation (input) server_kept_driven :: "nat set \<Rightarrow> nat \<Rightarrow> dbl \<Rightarrow> world \<Rightarrow> netcode_server \<times> world \<Rightarrow> bool" where
  "server_kept_driven \<equiv> server_kept_driven_in False"

lemma server_course_driven:
  assumes "server_course s s'" and "server_driven_in sim n t s" and "1 \<le> n" and "no_loopback s'"
  shows "server_driven_in sim n t s'"
  using assms seq_reset_below [of s s' n] by (simp add: server_course_def server_driven_in_def)

lemma drives_update:
  assumes laws: "aead_laws cr" and inv: "server_inv B s w" and s: "server_driven_in sim n t s" "1 \<le> n" and time: "time \<le> t + 9 / 10"
  shows "runs (netcode_server_update cr time s w) (\<lambda>x. server_kept_driven_in sim B (Suc n) time w x
    \<and> sv_running (fst x) = sv_running s \<and> sv_max_clients (fst x) = sv_max_clients s)"
proof -
  have fresh: "server_fresh s" and seq: "seq_below n s" using s(1) by (auto simp: server_driven_in_def)
  have "server_alive time s"
  proof (rule server_fresh_alive [OF fresh])
    fix i assume "0 < sv_client_timeout s i"
    then have "(1 :: dbl) \<le> of_int (sv_client_timeout s i)" by simp
    with time s(1) show "time + 1 / NETCODE_PACKET_SEND_RATE \<le> sv_time s + of_int (sv_client_timeout s i)"
      by (simp add: server_driven_in_def)
  qed
  from runs_server_update [OF laws inv this] show ?thesis
    using s update_below [OF _ seq s(2)]
    by (auto simp: runs_ex server_kept_driven_in_def server_driven_in_def server_same_def)
qed

lemma drives_send:
  assumes laws: "aead_laws cr" and inv: "server_inv B s w" and s: "server_driven_in sim n t s" and n: "n + 1 < 2 ^ 24"
    and i: "sv_running s \<longrightarrow> 0 \<le> i \<and> i < int (sv_max_clients s)"
    and data: "1 \<le> length data" "length data \<le> NETCODE_MAX_PACKET_SIZE"
  shows "runs (netcode_server_send_packet cr s i data w) (\<lambda>x. server_kept_driven_in sim B (n + 2) t w x
    \<and> sv_running (fst x) = sv_running s \<and> sv_max_clients (fst x) = sv_max_clients s)"
proof -
  have fresh: "server_fresh s" and seq: "seq_below n s" and loop: "no_loopback s" using s by (auto simp: server_driven_in_def)
  have "wire_bytes (CONNECTION_PAYLOAD_PACKET data)
      (sv_client_sequence s (nat i) + (if sv_client_confirmed s (nat i) then 0 else 1)) \<le> NETCODE_MAX_PACKET_BYTES"
    by (rule seq_below_fits [OF seq n]) (use data in auto)
  then have "server_may_send s i data" using i data loop by (simp add: server_may_send_def)
  from runs_server_send_payload [OF laws inv this] show ?thesis
    using s send_packet_below [OF _ seq] send_packet_fresh [OF _ fresh]
    by (auto simp: runs_ex server_kept_def server_kept_driven_in_def server_driven_in_def server_same_def frame_rx_frame)
qed

lemma receive_packet_shrinks:
  assumes "netcode_server_receive_packet s i w = Some (Some x, s')"
  shows "pq_num_packets (sv_client_packet_queue s' (nat i)) < pq_num_packets (sv_client_packet_queue s (nat i))"
  using assms
  by (auto simp: netcode_server_receive_packet_def slot_index_def netcode_packet_queue_pop_def
      split: if_splits bind_splits prod.splits option.splits netcode_packet.splits)

lemma drives_read:
  assumes s: "server_inv B s w" "server_driven_in sim n t s" "sv_running s \<longrightarrow> 0 \<le> i \<and> i < int (sv_max_clients s)"
    and fuel: "pq_num_packets (sv_client_packet_queue s (nat i)) < fuel" and n: "1 \<le> n"
  shows "runs (server_read_loop expected fuel i (received, s, w)) (ends_well (\<lambda>x. server_kept_driven_in sim B n t w (snd x)
    \<and> sv_running (fst (snd x)) = sv_running s \<and> sv_max_clients (fst (snd x)) = sv_max_clients s))"
  using s fuel
proof (induction fuel arbitrary: received s w)
  case (Suc fuel)
  obtain r s1 where r: "netcode_server_receive_packet s i w = Some (r, s1)" and same: "server_same s s1"
    and kept: "case r of None \<Rightarrow> server_inv B s1 w
      | Some (p, payload, n) \<Rightarrow> p \<notin> B \<and> server_inv (insert p B) s1 w \<and> w_packet p w = Some (CONNECTION_PAYLOAD_PACKET payload)"
    using runs_server_receive_packet [OF Suc.prems(1,3)] by (auto simp: runs_ex)
  have driven: "server_driven_in sim n t s1"
    by (rule server_course_driven [OF receive_packet_course [OF r] Suc.prems(2) n])
      (use Suc.prems(2) same in \<open>simp add: server_driven_in_def server_same_def\<close>)
  show ?case
  proof (cases r)
    case None
    with r kept driven same show ?thesis by (simp add: server_kept_driven_in_def server_same_def)
  next
    case (Some x)
    then obtain p payload m where x: "r = Some (p, payload, m)" by (cases x) auto
    show ?thesis
    proof (cases "expected payload")
      case True
      have p: "p \<notin> B" "server_inv (insert p B) s1 w" using kept x by auto
      have "runs (netcode_server_free_packet p w) (\<lambda>w1. server_inv B s1 w1 \<and> frame B w w1)"
        unfolding netcode_server_free_packet_def by (rule runs_mono [OF runs_server_free_block [OF p(2,1)]]) (auto simp: server_kept_def)
      then obtain w1 where w1: "netcode_server_free_packet p w = Some w1" "server_inv B s1 w1" "frame B w w1"
        by (auto simp: runs_ex)
      have "pq_num_packets (sv_client_packet_queue s1 (nat i)) < fuel"
        using receive_packet_shrinks [OF r [unfolded x]] Suc.prems(4) by simp
      from Suc.IH [OF w1(2) driven _ this, of "received + 1"] r x True w1 Suc.prems(3) same show ?thesis
        by (auto simp: server_kept_driven_in_def server_same_def elim!: runs_mono ends_well_mono
            intro: frame_rx_trans [OF frame_rx_frame])
    qed (use r x in simp)
  qed
qed simp

lemma queue_size_rounds: "queue_inv q \<Longrightarrow> pq_num_packets q < read_rounds"
  by (simp add: queue_inv_def less_Suc_eq_le)

lemma server_queue_rounds: "server_inv B s w \<Longrightarrow> pq_num_packets (sv_client_packet_queue s i) < read_rounds"
  by (rule queue_size_rounds) (simp add: server_inv_def queues_held_def receive_queue_ok_def)

lemma drives_start:
  assumes laws: "aead_laws cr" and inv: "server_inv B s w" and s: "server_driven_in sim n t s" "1 \<le> n"
    and k: "0 < k" "k \<le> NETCODE_MAX_CLIENTS"
  shows "runs (netcode_server_start cr s k w) (\<lambda>x. server_kept_driven_in sim B n t w x \<and> sv_running (fst x) \<and> sv_max_clients (fst x) = k)"
proof -
  have loop: "no_loopback s" using s(1) by (simp add: server_driven_in_def)
  have "no_loopback s'" if "server_inv B s' w'" "sv_client_connected s' = (\<lambda>_. False)" for s' w'
    using server_inv_ok [OF that(1)] that(2) by (auto simp: server_ok_def slots_ok_def)
  moreover obtain s' w' where r: "netcode_server_start cr s k w = Some (s', w')" "server_inv B s' w'" "frame B w w'"
      "sv_running s'" "sv_max_clients s' = k" "sv_client_connected s' = (\<lambda>_. False)"
    using runs_server_start [OF laws inv loop k] by (auto simp: runs_ex)
  ultimately have "no_loopback s'" by blast
  then show ?thesis
    using r start_course [OF r(1)] s seq_reset_below [of s s' n]
    by (auto simp: server_kept_driven_in_def server_driven_in_def frame_rx_frame server_fresh_def remote_def)
qed

lemma drives_stop:
  assumes laws: "aead_laws cr" and inv: "server_inv B s w" and s: "server_driven_in sim n t s" "1 \<le> n"
  shows "runs (netcode_server_stop cr s w) (\<lambda>x. server_kept_driven_in sim B n t w x \<and> \<not> sv_running (fst x))"
proof -
  have loop: "no_loopback s" using s(1) by (simp add: server_driven_in_def)
  obtain s' w' where r: "netcode_server_stop cr s w = Some (s', w')" "server_inv B s' w'" "frame B w w'" "server_stopped s'"
    using runs_server_stop [OF laws inv loop] by (auto simp: runs_ex)
  then show ?thesis
    using stop_course [OF r(1)] s seq_reset_below [of s s' n]
    by (auto simp: server_kept_driven_in_def server_driven_in_def frame_rx_frame server_fresh_def remote_def server_stopped_def)
qed

lemma drives_disconnect:
  assumes laws: "aead_laws cr" and inv: "server_inv B s w" and s: "server_driven_in sim n t s" "1 \<le> n"
    and i: "sv_running s \<longrightarrow> 0 \<le> i \<and> i < int (sv_max_clients s)"
  shows "runs (netcode_server_disconnect_client cr s i w) (\<lambda>x. server_kept_driven_in sim B n t w x
    \<and> sv_running (fst x) = sv_running s \<and> sv_max_clients (fst x) = sv_max_clients s)"
proof -
  have loop: "no_loopback s" using s(1) by (simp add: server_driven_in_def)
  from runs_server_disconnect_client [OF laws inv] i loop
  have "runs (netcode_server_disconnect_client cr s i w) (\<lambda>(s', w'). server_inv B s' w' \<and> frame B w w' \<and> server_same s s')" by blast
  then show ?thesis
    using server_course_driven [OF disconnect_client_course s] loop
    by (auto simp: runs_ex server_kept_driven_in_def server_same_def frame_rx_frame)
qed

section \<open>A client in a program\<close>

definition client_driven_in :: "bool \<Rightarrow> nat \<Rightarrow> netcode_client \<Rightarrow> bool" where
  "client_driven_in sim n c \<longleftrightarrow> \<not> cl_loopback c \<and> cl_network_simulator c = sim \<and> unat (cl_sequence c) \<le> n"

abbreviation (input) client_driven :: "nat \<Rightarrow> netcode_client \<Rightarrow> bool" where
  "client_driven \<equiv> client_driven_in False"

lemma client_driven_mono: "client_driven_in sim m c \<Longrightarrow> m \<le> n \<Longrightarrow> client_driven_in sim n c"
  by (simp add: client_driven_in_def)

definition client_kept_driven_in :: "bool \<Rightarrow> nat set \<Rightarrow> nat \<Rightarrow> world \<Rightarrow> netcode_client \<times> world \<Rightarrow> bool" where
  "client_kept_driven_in sim B n w = (\<lambda>(c', w'). client_inv B c' w' \<and> frame_rx B w w' \<and> client_driven_in sim n c')"

abbreviation (input) client_kept_driven :: "nat set \<Rightarrow> nat \<Rightarrow> world \<Rightarrow> netcode_client \<times> world \<Rightarrow> bool" where
  "client_kept_driven \<equiv> client_kept_driven_in False"

lemma paced_driven: "paced k c c' \<Longrightarrow> client_driven_in sim n c \<Longrightarrow> client_driven_in sim (n + k) c'"
  by (auto simp: paced_def client_driven_in_def client_same_def)

lemma drives_client_update:
  assumes laws: "aead_laws cr" and inv: "client_inv B c w" and c: "client_driven_in sim n c"
  shows "runs (netcode_client_update cr time c w) (client_kept_driven_in sim B (Suc n) w)"
  using runs_client_update [OF laws inv, of time] paced_driven [OF update_paced c]
  by (auto simp: runs_ex client_kept_driven_in_def)

lemma drives_client_send:
  assumes laws: "aead_laws cr" and inv: "client_inv B c w" and c: "client_driven_in sim n c" "n < 2 ^ 24"
    and data: "1 \<le> length data" "length data \<le> NETCODE_MAX_PACKET_SIZE"
  shows "runs (netcode_client_send_packet cr c data w) (client_kept_driven_in sim B (Suc n) w)"
proof -
  have "unat (cl_sequence c) < 2 ^ 24" using c unfolding client_driven_in_def by linarith
  then have "wire_bytes (CONNECTION_PAYLOAD_PACKET data) (cl_sequence c) \<le> NETCODE_MAX_PACKET_BYTES"
    using payload_fits [OF data(2)] by simp
  with runs_client_send_payload [OF laws inv data] paced_driven [OF send_payload_paced c(1)] c(1) show ?thesis
    by (auto simp: runs_ex client_kept_driven_in_def client_driven_in_def frame_rx_frame)
qed

lemma drives_client_connect:
  assumes laws: "aead_laws cr" and inv: "client_inv B c w" and c: "client_driven_in sim n c"
    and token: "length token = NETCODE_CONNECT_TOKEN_BYTES"
  shows "runs (netcode_client_connect cr c token w) (client_kept_driven_in sim B n w)"
proof -
  have "\<not> cl_loopback c" using c by (simp add: client_driven_in_def)
  from runs_client_connect [OF laws inv this token] paced_driven [OF connect_paced c] show ?thesis
    by (auto simp: runs_ex client_kept_driven_in_def frame_rx_frame)
qed

lemma drives_client_disconnect:
  assumes laws: "aead_laws cr" and inv: "client_inv B c w" and c: "client_driven_in sim n c"
  shows "runs (netcode_client_disconnect cr c w) (client_kept_driven_in sim B n w)"
proof -
  have "\<not> cl_loopback c" using c by (simp add: client_driven_in_def)
  from runs_client_disconnect [OF laws inv this] paced_driven [OF disconnect_paced c] show ?thesis
    by (auto simp: runs_ex client_kept_driven_in_def frame_rx_frame)
qed

lemma client_receive_shrinks:
  assumes "netcode_client_receive_packet c w = Some (Some x, c')"
  shows "pq_num_packets (cl_packet_receive_queue c') < pq_num_packets (cl_packet_receive_queue c)"
  using assms
  by (auto simp: netcode_client_receive_packet_def netcode_packet_queue_pop_def
      split: if_splits bind_splits prod.splits option.splits netcode_packet.splits)

lemma drives_client_read:
  assumes c: "client_inv B c w" "client_driven_in sim n c" and fuel: "pq_num_packets (cl_packet_receive_queue c) < fuel"
  shows "runs (client_read_loop expected fuel (received, c, w)) (ends_well (\<lambda>x. client_kept_driven_in sim B n w (snd x)))"
  using c fuel
proof (induction fuel arbitrary: received c w)
  case (Suc fuel)
  obtain r c1 where r: "netcode_client_receive_packet c w = Some (r, c1)"
    and kept: "case r of None \<Rightarrow> client_inv B c1 w
      | Some (p, payload, n) \<Rightarrow> p \<notin> B \<and> client_inv (insert p B) c1 w \<and> w_packet p w = Some (CONNECTION_PAYLOAD_PACKET payload)"
    using runs_client_receive_packet [OF Suc.prems(1)] by (auto simp: runs_ex)
  have driven: "client_driven_in sim n c1" using paced_driven [OF receive_packet_paced [OF r] Suc.prems(2)] by simp
  show ?case
  proof (cases r)
    case None
    with r kept driven show ?thesis by (simp add: client_kept_driven_in_def)
  next
    case (Some x)
    then obtain p payload m where x: "r = Some (p, payload, m)" by (cases x) auto
    show ?thesis
    proof (cases "expected payload")
      case True
      have p: "p \<notin> B" "client_inv (insert p B) c1 w" using kept x by auto
      obtain w1 where w1: "netcode_client_free_packet p w = Some w1" "client_inv B c1 w1" "frame B w w1"
        using runs_client_free_packet [OF p(2,1)] by (auto simp: runs_ex)
      have "pq_num_packets (cl_packet_receive_queue c1) < fuel"
        using client_receive_shrinks [OF r [unfolded x]] Suc.prems(3) by simp
      from Suc.IH [OF w1(2) driven this, of "received + 1"] r x True w1 show ?thesis
        by (auto simp: client_kept_driven_in_def elim!: runs_mono ends_well_mono intro: frame_rx_trans [OF frame_rx_frame])
    qed (use r x in simp)
  qed
qed simp

lemma client_queue_rounds: "client_inv B c w \<Longrightarrow> pq_num_packets (cl_packet_receive_queue c) < read_rounds"
  by (rule queue_size_rounds) (simp add: client_inv_def queue_held_def receive_queue_ok_def)

end
