(* ===== verification/Process.thy ===== *)
theory Process
  imports Programs
begin

text \<open>
  A process with any number of servers and clients on one heap. Each of them is a tenant: a struct of the library and the blocks
  that its receive queues hold, or the network simulator. What one tenant does leaves the blocks of the others alone, so all of them stay sound. This is shown
  once, in the locale \<open>tenant\<close>, for anything with such a contract, and used for the servers and the clients together.
\<close>

section \<open>Tenants of a heap\<close>

definition room :: "('e \<Rightarrow> nat set) \<Rightarrow> (nat \<times> 'e) option \<Rightarrow> nat set" where
  "room own t = (case t of None \<Rightarrow> {} | Some (p, e) \<Rightarrow> insert p (own e))"

definition rooms :: "('e \<Rightarrow> nat set) \<Rightarrow> ('i \<Rightarrow> (nat \<times> 'e) option) \<Rightarrow> nat set" where
  "rooms own ts = (\<Union>i. room own (ts i))"

definition housed ::
    "bool \<Rightarrow> (nat set \<Rightarrow> 'e \<Rightarrow> world \<Rightarrow> bool) \<Rightarrow> ('e \<Rightarrow> nat set) \<Rightarrow> ('i \<Rightarrow> (nat \<times> 'e) option) \<Rightarrow> world \<Rightarrow> bool" where
  "housed sim sound own ts w \<longleftrightarrow> world_inv sim (rooms own ts) w
     \<and> (\<forall>i j. i \<noteq> j \<longrightarrow> room own (ts i) \<inter> room own (ts j) = {})
     \<and> (\<forall>i p e. ts i = Some (p, e) \<longrightarrow> p \<notin> own e \<and> sound (rooms own ts - own e) e w)"

lemma room_simps [simp]: "room own None = {}" "room own (Some (p, e)) = insert p (own e)"
  by (simp_all add: room_def)

lemma rooms_upd: "rooms own (ts(i := t)) = (\<Union>j \<in> - {i}. room own (ts j)) \<union> room own t"
  by (auto simp: rooms_def split: if_splits)

lemma rooms_split: "rooms own ts = (\<Union>j \<in> - {i}. room own (ts j)) \<union> room own (ts i)"
  by (auto simp: rooms_def)

lemma room_in_rooms: "room own (ts i) \<subseteq> rooms own ts"
  by (auto simp: rooms_def)

locale tenant =
  fixes sim :: bool and sound :: "nat set \<Rightarrow> 'e \<Rightarrow> world \<Rightarrow> bool" and own :: "'e \<Rightarrow> nat set"
  assumes held: "sound B e w \<Longrightarrow> world_inv sim (B \<union> own e) w \<and> B \<inter> own e = {}"
    and moved: "sound B e w \<Longrightarrow> world_inv sim (B' \<union> own e) w' \<Longrightarrow> B' \<inter> own e = {} \<Longrightarrow> untouched (own e) w w' \<Longrightarrow>
      sound B' e w'"
begin

text \<open>The other tenants, when the blocks in their rooms are untouched.\<close>

lemma others_stay:
  assumes "housed sim sound own ts w" and "ts j = Some (q, f)" and "world_inv sim R w'" and "insert q (own f) \<subseteq> R"
    and "untouched (own f) w w'"
  shows "sound (R - own f) f w'"
proof (rule moved)
  show "sound (rooms own ts - own f) f w" using assms(1,2) by (simp add: housed_def)
  have "R - own f \<union> own f = R" using assms(4) by auto
  with assms(3) show "world_inv sim (R - own f \<union> own f) w'" by simp
qed (use assms(5) in auto)

text \<open>A change of anything but the rooms.\<close>

lemma outside:
  assumes "housed sim sound own ts w" and "world_inv sim (rooms own ts) w'" and "untouched (rooms own ts) w w'"
  shows "housed sim sound own ts w'"
  unfolding housed_def
proof (intro conjI allI impI)
  fix i p e assume i: "ts i = Some (p, e)"
  have sub: "insert p (own e) \<subseteq> rooms own ts" using room_in_rooms [of own ts i] i by simp
  then have "untouched (own e) w w'" using assms(3) by (auto simp: untouched_def)
  from others_stay [OF assms(1) i assms(2) sub this] show "sound (rooms own ts - own e) e w'" .
  show "p \<notin> own e" using assms(1) i by (simp add: housed_def)
qed (use assms in \<open>auto simp: housed_def\<close>)

text \<open>A tenant is replaced, by one with room for the same struct or by none.\<close>

lemma replaced:
  assumes h: "housed sim sound own ts w" and t: "room own t \<inter> (\<Union>j \<in> - {i}. room own (ts j)) = {}"
    and w: "world_inv sim (rooms own (ts(i := t))) w'" "untouched (\<Union>j \<in> - {i}. room own (ts j)) w w'"
    and new: "\<And>p e. t = Some (p, e) \<Longrightarrow> p \<notin> own e \<and> sound (rooms own (ts(i := t)) - own e) e w'"
  shows "housed sim sound own (ts(i := t)) w'"
proof -
  let ?ts = "ts(i := t)"
  have apart: "room own (?ts j) \<inter> room own (?ts k) = {}" if "j \<noteq> k" for j k
    using h t that unfolding housed_def by (cases "j = i"; cases "k = i") (auto 0 4)
  have each: "q \<notin> own f \<and> sound (rooms own ?ts - own f) f w'" if j: "?ts j = Some (q, f)" for j q f
  proof (cases "j = i")
    case False
    with j have tj: "ts j = Some (q, f)" by simp
    have "insert q (own f) \<subseteq> rooms own ?ts" using room_in_rooms [of own ?ts j] j by simp
    moreover have "untouched (own f) w w'"
      using w(2) False tj unfolding untouched_def by (metis (no_types, lifting) UN_I ComplI insertCI room_simps(2) singletonD)
    ultimately show ?thesis using others_stay [OF h tj w(1)] h tj by (auto simp: housed_def)
  qed (use j new in simp)
  show ?thesis unfolding housed_def using w(1) apart each by blast
qed

lemma step:
  assumes h: "housed sim sound own ts w" and i: "ts i = Some (p, e)"
    and new: "sound (rooms own ts - own e) e' w'" "untouched (rooms own ts - own e) w w'"
  shows "housed sim sound own (ts(i := Some (p, e'))) w'"
proof -
  let ?o = "\<Union>j \<in> - {i}. room own (ts j)"
  have p: "p \<notin> own e" and sep: "room own (ts j) \<inter> insert p (own e) = {}" if "j \<noteq> i" for j
    using h i that by (auto simp: housed_def) (metis room_simps(2) Int_iff empty_iff insertCI)+
  then have "?o \<inter> insert p (own e) = {}" by auto
  moreover have "rooms own ts = ?o \<union> insert p (own e)" using i rooms_split [of own ts i] by simp
  moreover have "p \<notin> own e" using h i by (simp add: housed_def)
  ultimately have rest: "rooms own ts - own e = insert p ?o" by auto
  have e': "world_inv sim (insert p ?o \<union> own e') w'" "insert p ?o \<inter> own e' = {}" using held [OF new(1)] by (simp_all add: rest)
  have all: "rooms own (ts(i := Some (p, e'))) = insert p ?o \<union> own e'" by (auto simp: rooms_upd)
  have "p \<notin> ?o" using sep by blast
  show ?thesis
  proof (rule replaced [OF h])
    show "room own (Some (p, e')) \<inter> ?o = {}" using e'(2) \<open>p \<notin> ?o\<close> by auto
    show "world_inv sim (rooms own (ts(i := Some (p, e')))) w'" using e'(1) by (simp add: all)
    show "untouched ?o w w'" using new(2) by (auto simp: rest untouched_def)
    have "insert p ?o \<union> own e' - own e' = insert p ?o" using e'(2) by auto
    then have "p \<notin> own e' \<and> sound (rooms own (ts(i := Some (p, e'))) - own e') e' w'" using new(1) e'(2) by (simp add: all rest)
    then show "q \<notin> own f \<and> sound (rooms own (ts(i := Some (p, e'))) - own f) f w'" if "Some (p, e') = Some (q, f)" for q f
      using that by auto
  qed
qed

lemma enter:
  assumes h: "housed sim sound own ts w" and i: "ts i = None" and p: "p \<notin> rooms own ts"
    and new: "sound (insert p (rooms own ts)) e w'" "untouched (rooms own ts) w w'" and empty: "own e = {}"
  shows "housed sim sound own (ts(i := Some (p, e))) w'"
proof -
  let ?o = "\<Union>j \<in> - {i}. room own (ts j)"
  have o: "rooms own ts = ?o" using i rooms_split [of own ts i] by simp
  then have all: "rooms own (ts(i := Some (p, e))) = insert p (rooms own ts)" by (simp add: rooms_upd empty)
  show ?thesis
  proof (rule replaced [OF h])
    show "room own (Some (p, e)) \<inter> ?o = {}" using p by (simp add: o empty)
    show "world_inv sim (rooms own (ts(i := Some (p, e)))) w'" using held [OF new(1)] by (simp add: all empty)
    show "untouched ?o w w'" using new(2) by (simp add: o)
    have "sound (rooms own (ts(i := Some (p, e))) - own e) e w'" using new(1) by (simp add: all empty)
    then show "q \<notin> own f \<and> sound (rooms own (ts(i := Some (p, e))) - own f) f w'" if "Some (p, e) = Some (q, f)" for q f
      using that empty by auto
  qed
qed

lemma leave:
  assumes h: "housed sim sound own ts w" and i: "ts i = Some (p, e)"
    and w: "world_inv sim (rooms own ts - insert p (own e)) w'" "untouched (rooms own ts - insert p (own e)) w w'"
  shows "housed sim sound own (ts(i := None)) w'"
proof -
  let ?o = "\<Union>j \<in> - {i}. room own (ts j)"
  have "room own (ts j) \<inter> insert p (own e) = {}" if "j \<noteq> i" for j
    using h i that unfolding housed_def by (metis room_simps(2))
  then have "?o \<inter> insert p (own e) = {}" by auto
  moreover have "rooms own ts = ?o \<union> insert p (own e)" using i rooms_split [of own ts i] by simp
  ultimately have o: "rooms own ts - insert p (own e) = ?o" by auto
  show ?thesis
    by (rule replaced [OF h]) (use w in \<open>simp_all add: rooms_upd o\<close>)
qed

end

section \<open>Servers and clients\<close>

datatype endpoint = Server netcode_server | Client netcode_client | Simulator

fun endpoint_inv :: "bool \<Rightarrow> nat set \<Rightarrow> endpoint \<Rightarrow> world \<Rightarrow> bool" where
  "endpoint_inv sim B (Server s) w \<longleftrightarrow> server_inv B s w \<and> sv_network_simulator s = sim"
| "endpoint_inv sim B (Client c) w \<longleftrightarrow> client_inv B c w \<and> cl_network_simulator c = sim"
| "endpoint_inv sim B Simulator w \<longleftrightarrow> world_inv sim B w"

fun endpoint_blocks :: "endpoint \<Rightarrow> nat set" where
  "endpoint_blocks (Server s) = all_ptrs (sv_client_packet_queue s)"
| "endpoint_blocks (Client c) = queue_ptrs (cl_packet_receive_queue c)"
| "endpoint_blocks Simulator = {}"

interpretation lodger: tenant sim "endpoint_inv sim" endpoint_blocks for sim
proof
  fix B e w assume "endpoint_inv sim B e w"
  then show "world_inv sim (B \<union> endpoint_blocks e) w \<and> B \<inter> endpoint_blocks e = {}"
    by (cases e) (auto simp: server_inv_def queues_held_def client_inv_def queue_held_def)
next
  fix B B' e w w'
  assume "endpoint_inv sim B e w" "world_inv sim (B' \<union> endpoint_blocks e) w'" "B' \<inter> endpoint_blocks e = {}"
    "untouched (endpoint_blocks e) w w'"
  then show "endpoint_inv sim B' e w'"
    by (cases e) (auto intro: server_inv_environment client_inv_environment)
qed

section \<open>The process\<close>

text \<open>
  The servers and clients of a program: arrays of pointers that may be \<^verbatim>\<open>NULL\<close>. \<open>P\<close> and \<open>Q\<close> are what the program keeps of each
  of them, beside their soundness.
\<close>

type_synonym server_array = "(nat \<times> netcode_server) option array"
type_synonym client_array = "(nat \<times> netcode_client) option array"

datatype slot = Server_slot nat | Client_slot nat | Simulator_slot

fun tenants :: "nat option \<Rightarrow> server_array \<Rightarrow> client_array \<Rightarrow> slot \<Rightarrow> (nat \<times> endpoint) option" where
  "tenants sp ss cs (Server_slot i) = map_option (map_prod id Server) (ss i)"
| "tenants sp ss cs (Client_slot i) = map_option (map_prod id Client) (cs i)"
| "tenants sp ss cs Simulator_slot = map_option (\<lambda>p. (p, Simulator)) sp"

lemma tenants_upd:
  "tenants sp (ss(i := r)) cs = (tenants sp ss cs)(Server_slot i := map_option (map_prod id Server) r)"
  "tenants sp ss (cs(i := q)) = (tenants sp ss cs)(Client_slot i := map_option (map_prod id Client) q)"
proof -
  have "tenants sp (ss(i := r)) cs x = ((tenants sp ss cs)(Server_slot i := map_option (map_prod id Server) r)) x"
    "tenants sp ss (cs(i := q)) x = ((tenants sp ss cs)(Client_slot i := map_option (map_prod id Client) q)) x" for x
    by (cases x; auto)+
  then show "tenants sp (ss(i := r)) cs = (tenants sp ss cs)(Server_slot i := map_option (map_prod id Server) r)"
    "tenants sp ss (cs(i := q)) = (tenants sp ss cs)(Client_slot i := map_option (map_prod id Client) q)" by (auto simp only: fun_eq_iff)
qed

definition process_in ::
    "bool \<Rightarrow> nat option \<Rightarrow> (nat \<Rightarrow> netcode_server \<Rightarrow> bool) \<Rightarrow> (nat \<Rightarrow> netcode_client \<Rightarrow> bool) \<Rightarrow> server_array \<Rightarrow> client_array \<Rightarrow> world \<Rightarrow> bool" where
  "process_in sim sp P Q ss cs w \<longleftrightarrow> w_initialized w \<and> unat (w_timestamp w) + 60 < 2 ^ 64
     \<and> housed sim (endpoint_inv sim) endpoint_blocks (tenants sp ss cs) w
     \<and> (\<forall>i p s. ss i = Some (p, s) \<longrightarrow> P i s) \<and> (\<forall>i p c. cs i = Some (p, c) \<longrightarrow> Q i c)"

abbreviation blocks_in :: "nat option \<Rightarrow> server_array \<Rightarrow> client_array \<Rightarrow> nat set" where
  "blocks_in sp ss cs \<equiv> rooms endpoint_blocks (tenants sp ss cs)"

abbreviation server_around :: "nat option \<Rightarrow> server_array \<Rightarrow> client_array \<Rightarrow> netcode_server \<Rightarrow> nat set" where
  "server_around sp ss cs s \<equiv> blocks_in sp ss cs - all_ptrs (sv_client_packet_queue s)"

abbreviation client_around :: "nat option \<Rightarrow> server_array \<Rightarrow> client_array \<Rightarrow> netcode_client \<Rightarrow> nat set" where
  "client_around sp ss cs c \<equiv> blocks_in sp ss cs - queue_ptrs (cl_packet_receive_queue c)"

text \<open>The programs on sockets.\<close>

abbreviation (input) process ::
    "(nat \<Rightarrow> netcode_server \<Rightarrow> bool) \<Rightarrow> (nat \<Rightarrow> netcode_client \<Rightarrow> bool) \<Rightarrow> server_array \<Rightarrow> client_array \<Rightarrow> world \<Rightarrow> bool" where
  "process \<equiv> process_in False None"

lemma process_empty:
  assumes "w_initialized w" and "unat (w_timestamp w) + 60 < 2 ^ 64" and "world_inv sim (set_option sp) w"
  shows "process_in sim sp P Q (\<lambda>_. None) (\<lambda>_. None) w"
proof -
  have t: "tenants sp (\<lambda>_. None) (\<lambda>_. None) x = (if x = Simulator_slot then map_option (\<lambda>p. (p, Simulator)) sp else None)" for x
    by (cases x) auto
  then have "blocks_in sp (\<lambda>_. None) (\<lambda>_. None) = set_option sp"
    by (cases sp) (auto simp: rooms_def split: if_splits)
  with assms t show ?thesis
    by (cases sp) (auto simp: process_in_def housed_def split: if_splits)
qed

lemma process_start:
  "w_initialized w \<Longrightarrow> unat (w_timestamp w) + 60 < 2 ^ 64 \<Longrightarrow> world_inv sim {} w \<Longrightarrow> process_in sim None P Q (\<lambda>_. None) (\<lambda>_. None) w"
  by (rule process_empty) auto

lemma process_mono:
  assumes "process_in sim sp P Q ss cs w"
    and "\<And>i p s. ss i = Some (p, s) \<Longrightarrow> P i s \<Longrightarrow> P' i s" and "\<And>i p c. cs i = Some (p, c) \<Longrightarrow> Q i c \<Longrightarrow> Q' i c"
  shows "process_in sim sp P' Q' ss cs w"
  using assms unfolding process_in_def by blast

lemma process_world: "process_in sim sp P Q ss cs w \<Longrightarrow> world_inv sim (blocks_in sp ss cs) w \<and> w_initialized w"
  by (simp add: process_in_def housed_def)

lemma process_outside:
  assumes "process_in sim sp P Q ss cs w" and "world_inv sim (blocks_in sp ss cs) w'" and "untouched (blocks_in sp ss cs) w w'"
    and "w_initialized w'" and "unat (w_timestamp w') + 60 < 2 ^ 64"
  shows "process_in sim sp P Q ss cs w'"
  using assms lodger.outside by (auto simp: process_in_def)

lemma process_arrive: "process_in sim sp P Q ss cs w \<Longrightarrow> arrival_ok a \<Longrightarrow> process_in sim sp P Q ss cs (arrive a w)"
  by (rule process_outside) (auto simp: process_world arrive_world untouched_def arrival_ok_def)

lemma process_random: "process_in sim sp P Q ss cs w \<Longrightarrow> process_in sim sp P Q ss cs (w\<lparr>w_random_next := n\<rparr>)"
  by (rule process_outside) (auto simp: process_world untouched_def process_in_def)

text \<open>One server, or one client, makes a step.\<close>

lemma process_server:
  assumes "process_in sim sp P Q ss cs w" and "ss i = Some (p, s)"
  shows "server_inv (server_around sp ss cs s) s w" and "P i s"
proof -
  have "tenants sp ss cs (Server_slot i) = Some (p, Server s)" using assms(2) by simp
  with assms(1) have "endpoint_inv sim (blocks_in sp ss cs - endpoint_blocks (Server s)) (Server s) w"
    unfolding process_in_def housed_def by blast
  then show "server_inv (server_around sp ss cs s) s w" by simp
qed (use assms in \<open>simp add: process_in_def\<close>)

lemma process_client:
  assumes "process_in sim sp P Q ss cs w" and "cs i = Some (p, c)"
  shows "client_inv (client_around sp ss cs c) c w" and "Q i c"
proof -
  have "tenants sp ss cs (Client_slot i) = Some (p, Client c)" using assms(2) by simp
  with assms(1) have "endpoint_inv sim (blocks_in sp ss cs - endpoint_blocks (Client c)) (Client c) w"
    unfolding process_in_def housed_def by blast
  then show "client_inv (client_around sp ss cs c) c w" by simp
qed (use assms in \<open>simp add: process_in_def\<close>)

lemma process_server_step:
  assumes p: "process_in sim sp P Q ss cs w" and i: "ss i = Some (p, s)"
    and new: "server_kept_driven_in sim (server_around sp ss cs s) n t w (s', w')"
  shows "process_in sim sp (P(i := server_driven_in sim n t)) Q (ss(i \<mapsto> (p, s'))) cs w'"
proof -
  have n: "server_inv (server_around sp ss cs s) s' w'" "frame_rx (server_around sp ss cs s) w w'" "server_driven_in sim n t s'"
    using new by (simp_all add: server_kept_driven_in_def)
  have h: "housed sim (endpoint_inv sim) endpoint_blocks (tenants sp ss cs) w" using p by (simp add: process_in_def)
  have "housed sim (endpoint_inv sim) endpoint_blocks ((tenants sp ss cs)(Server_slot i := Some (p, Server s'))) w'"
  proof (rule lodger.step [OF h])
    show "tenants sp ss cs (Server_slot i) = Some (p, Server s)" using i by simp
    show "endpoint_inv sim (blocks_in sp ss cs - endpoint_blocks (Server s)) (Server s') w'" using n by (simp add: server_driven_in_def)
    show "untouched (blocks_in sp ss cs - endpoint_blocks (Server s)) w w'" using frame_rx_untouched [OF n(2) order_refl] by simp
  qed
  moreover have "w_initialized w' = w_initialized w" "w_timestamp w' = w_timestamp w"
    using n(2) by (simp_all add: frame_rx_def frame_def)
  ultimately show ?thesis using p n(3) by (auto simp: process_in_def tenants_upd)
qed

lemma process_client_step:
  assumes p: "process_in sim sp P Q ss cs w" and i: "cs i = Some (p, c)"
    and new: "client_kept_driven_in sim (client_around sp ss cs c) n w (c', w')"
  shows "process_in sim sp P (Q(i := client_driven_in sim n)) ss (cs(i \<mapsto> (p, c'))) w'"
proof -
  have n: "client_inv (client_around sp ss cs c) c' w'" "frame_rx (client_around sp ss cs c) w w'" "client_driven_in sim n c'"
    using new by (simp_all add: client_kept_driven_in_def)
  have h: "housed sim (endpoint_inv sim) endpoint_blocks (tenants sp ss cs) w" using p by (simp add: process_in_def)
  have "housed sim (endpoint_inv sim) endpoint_blocks ((tenants sp ss cs)(Client_slot i := Some (p, Client c'))) w'"
  proof (rule lodger.step [OF h])
    show "tenants sp ss cs (Client_slot i) = Some (p, Client c)" using i by simp
    show "endpoint_inv sim (blocks_in sp ss cs - endpoint_blocks (Client c)) (Client c') w'" using n by (simp add: client_driven_in_def)
    show "untouched (blocks_in sp ss cs - endpoint_blocks (Client c)) w w'" using frame_rx_untouched [OF n(2) order_refl] by simp
  qed
  moreover have "w_initialized w' = w_initialized w" "w_timestamp w' = w_timestamp w"
    using n(2) by (simp_all add: frame_rx_def frame_def)
  ultimately show ?thesis using p n(3) by (auto simp: process_in_def tenants_upd)
qed

lemma runs_process_server:
  assumes "process_in sim sp P Q ss cs w" and "ss i = Some (p, s)"
    and "\<And>B. server_inv B s w \<Longrightarrow> runs m (\<lambda>x. server_kept_driven_in sim B n t w x \<and> R (fst x))"
  shows "runs m (\<lambda>(s', w'). process_in sim sp (P(i := server_driven_in sim n t)) Q (ss(i \<mapsto> (p, s'))) cs w' \<and> R s')"
  by (rule runs_mono [OF assms(3) [OF process_server(1) [OF assms(1,2)]]]) (auto intro: process_server_step [OF assms(1,2)])

lemma runs_process_client:
  assumes "process_in sim sp P Q ss cs w" and "cs i = Some (p, c)"
    and "\<And>B. client_inv B c w \<Longrightarrow> runs m (client_kept_driven_in sim B n w)"
  shows "runs m (\<lambda>(c', w'). process_in sim sp P (Q(i := client_driven_in sim n)) ss (cs(i \<mapsto> (p, c'))) w')"
  by (rule runs_mono [OF assms(3) [OF process_client(1) [OF assms(1,2)]]]) (auto intro: process_client_step [OF assms(1,2)])

lemma runs_process_server_read:
  assumes "process_in sim sp P Q ss cs w" and "ss i = Some (p, s)" and "server_driven_in sim n t s" "1 \<le> n"
    and "sv_running s \<longrightarrow> 0 \<le> k \<and> k < int (sv_max_clients s)"
  shows "runs (server_read_loop expected read_rounds k (received, s, w)) (ends_well (\<lambda>(_, s', w').
    process_in sim sp (P(i := server_driven_in sim n t)) Q (ss(i \<mapsto> (p, s'))) cs w'
    \<and> sv_running s' = sv_running s \<and> sv_max_clients s' = sv_max_clients s))"
proof -
  note s = process_server(1) [OF assms(1,2)]
  show ?thesis
    by (rule runs_mono [OF drives_read [OF s assms(3,5) server_queue_rounds [OF s] assms(4)]], erule ends_well_mono)
      (auto intro: process_server_step [OF assms(1,2)])
qed

lemma runs_process_client_read:
  assumes "process_in sim sp P Q ss cs w" and "cs i = Some (p, c)" and "client_driven_in sim n c"
  shows "runs (client_read_loop expected read_rounds (received, c, w)) (ends_well (\<lambda>(_, c', w').
    process_in sim sp P (Q(i := client_driven_in sim n)) ss (cs(i \<mapsto> (p, c'))) w'))"
proof -
  note c = process_client(1) [OF assms(1,2)]
  show ?thesis
    by (rule runs_mono [OF drives_client_read [OF c assms(3) client_queue_rounds [OF c]]], erule ends_well_mono)
      (auto intro: process_client_step [OF assms(1,2)])
qed

section \<open>Creation and destruction\<close>

lemma runs_socket_create:
  assumes "w_initialized w" and "address_type a \<noteq> 0"
  shows "runs (netcode_socket_create os s a w) (\<lambda>(e, s', w'). (\<exists>cs. w' = w\<lparr>w_closed := cs\<rparr>)
     \<and> (e = NETCODE_SOCKET_ERROR_NONE \<longrightarrow> so_handle s' \<noteq> 0))"
proof -
  have "runs (netcode_socket_create os s a w) (\<lambda>(e, s', w'). (w' = w \<or> w' = w\<lparr>w_closed := w_closed w @ [os_socket os]\<rparr>)
     \<and> (e = NETCODE_SOCKET_ERROR_NONE \<longrightarrow> so_handle s' \<noteq> 0))"
    using assms
    by (auto simp: netcode_socket_create_def socket_fail_def netcode_socket_destroy_def socket_get_port_def
        socket_set_non_blocking_def runs_simps Let_def split: option.splits)
  moreover have "w = w\<lparr>w_closed := w_closed w\<rparr>" by simp
  ultimately show ?thesis by (elim runs_mono) blast
qed

text \<open>What a creation does to the rest: nothing, and its struct is a new block.\<close>

definition created_in :: "bool \<Rightarrow> nat set \<Rightarrow> world \<Rightarrow> (nat \<times> 'e) option \<times> world \<Rightarrow> (nat \<Rightarrow> 'e \<Rightarrow> world \<Rightarrow> bool) \<Rightarrow> bool" where
  "created_in sim A w = (\<lambda>(r, w') R. w_initialized w' \<and> w_timestamp w' = w_timestamp w \<and> untouched A w w'
     \<and> (case r of None \<Rightarrow> world_inv sim A w' | Some (p, e) \<Rightarrow> p \<notin> A \<and> R p e w'))"

text \<open>The end of both constructors: the struct is allocated, or else the socket closed again.\<close>

lemma runs_allocate_struct:
  assumes "w_initialized w" and "world_inv sim A w"
    and "\<And>p w'. world_inv sim (insert p A) w' \<Longrightarrow> R p e w'"
  shows "runs (case w_alloc Struct_block w of
       (None, w) \<Rightarrow> do { (socket, w) \<leftarrow> netcode_socket_destroy s w; Some (None, w) }
     | (Some p, w) \<Rightarrow> Some (Some (p, e), w)) (\<lambda>x. created_in sim A w x R)"
proof -
  obtain r w1 where a: "w_alloc Struct_block w = (r, w1)" by fastforce
  note alloc = world_inv_alloc [OF assms(2) a]
  have w1: "w_initialized w1" "w_timestamp w1 = w_timestamp w" "untouched A w w1"
    using alloc(2) assms(1) by (auto simp: world_step_def untouched_def)
  show ?thesis
  proof (cases r)
    case None
    obtain socket cs where "netcode_socket_destroy s w1 = Some (socket, w1\<lparr>w_closed := cs\<rparr>)"
      using w1(1) by (rule socket_destroyed)
    with None a alloc(1) w1 show ?thesis by (simp add: created_in_def untouched_def)
  next
    case (Some p)
    with a alloc(3) [OF Some] w1 assms(3) show ?thesis by (simp add: created_in_def)
  qed
qed

lemma created_later: "created_in sim A (w\<lparr>w_closed := cs\<rparr>) x R = created_in sim A w x R"
  by (simp add: created_in_def untouched_def)

lemma runs_server_create_internal:
  assumes "w_initialized w" and "world_inv sim A w" and "inet_ok inet"
    and "length ckey = NETCODE_KEY_BYTES" and "length pkey = NETCODE_KEY_BYTES"
  shows "runs (netcode_server_create_internal inet os timeouts ckey cseq name pid pkey time sim w) (\<lambda>x. created_in sim A w x
    (\<lambda>p s w'. server_inv (insert p A) s w' \<and> server_driven_in sim 0 time s \<and> all_ptrs (sv_client_packet_queue s) = {}))"
    (is "runs _ (\<lambda>x. created_in _ _ _ x ?R)")
proof (cases "netcode_parse_address inet name")
  case NETCODE_ERROR
  with assms(1,2) show ?thesis
    by (simp add: netcode_server_create_internal_def created_in_def untouched_def)
next
  case (NETCODE_OK a)
  have a: "address_type a \<noteq> 0" "address_ok a" and "address_type (any_address a) \<noteq> 0"
    using parsed_address_ok [OF assms(3) NETCODE_OK] by (cases a; simp add: address_ok_def)+
  from runs_socket_create [OF assms(1) this(3), of os zero_socket] obtain e s cs where
    sock: "netcode_socket_create os zero_socket (any_address a) w = Some (e, s, w\<lparr>w_closed := cs\<rparr>)"
      "e = NETCODE_SOCKET_ERROR_NONE \<longrightarrow> so_handle s \<noteq> 0" by (auto simp: runs_ex)
  let ?s = "\<lambda>s. new_server timeouts ckey cseq s a sim pid pkey time"
  have "?R p (?s s) w'" if "world_inv sim (insert p A) w'" "sim \<or> so_handle s \<noteq> 0" for p w' s
  proof (intro conjI)
    show "server_inv (insert p A) (?s s) w'"
      by (rule new_server_inv [OF that(1)]) (use that(2) assms(4,5) a in \<open>auto simp: server_ready_def new_server_def\<close>)
  qed (simp_all add: server_driven_in_def new_server_def seq_below_def server_fresh_def remote_def zero_packet_queue_def)
  then have run: "sim \<or> so_handle s \<noteq> 0 \<Longrightarrow> runs (case w_alloc Struct_block (w\<lparr>w_closed := cs\<rparr>) of
       (None, w) \<Rightarrow> do { (socket, w) \<leftarrow> netcode_socket_destroy s w; Some (None, w) }
     | (Some p, w) \<Rightarrow> Some (Some (p, ?s s), w)) (\<lambda>x. created_in sim A (w\<lparr>w_closed := cs\<rparr>) x ?R)" for s cs
    using assms(1,2) by (intro runs_allocate_struct) auto
  show ?thesis
  proof (cases sim)
    case True
    then have sim: "sim = True" by simp
    show ?thesis
      using NETCODE_OK assms(1) run [of zero_socket "w_closed w"] unfolding sim by (simp add: netcode_server_create_internal_def)
  next
    case False
    then have sim: "sim = False" by simp
    show ?thesis
      using assms(1,2) sock NETCODE_OK run [of s cs] unfolding sim
      by (auto simp: netcode_server_create_internal_def created_later runs_simps)
        (simp_all add: created_in_def untouched_def)
  qed
qed

lemma runs_client_create_internal:
  assumes "w_initialized w" and "world_inv sim A w" and "inet_ok inet"
  shows "runs (netcode_client_create_internal inet os name time sim w) (\<lambda>x. created_in sim A w x
    (\<lambda>p c w'. client_inv (insert p A) c w' \<and> client_driven_in sim 0 c \<and> queue_ptrs (cl_packet_receive_queue c) = {}))"
    (is "runs _ (\<lambda>x. created_in _ _ _ x ?R)")
proof (cases "netcode_parse_address inet name")
  case NETCODE_ERROR
  with assms(1,2) show ?thesis
    by (simp add: netcode_client_create_internal_def created_in_def untouched_def)
next
  case (NETCODE_OK a)
  have a: "address_type a \<noteq> 0" "address_ok a" using parsed_address_ok [OF assms(3) NETCODE_OK] by (simp_all add: address_ok_def)
  from runs_socket_create [OF assms(1) this(1), of os zero_socket] obtain e s cs where
    sock: "netcode_socket_create os zero_socket a w = Some (e, s, w\<lparr>w_closed := cs\<rparr>)"
      "e = NETCODE_SOCKET_ERROR_NONE \<longrightarrow> so_handle s \<noteq> 0" by (auto simp: runs_ex)
  let ?c = "\<lambda>s. new_client a s time sim"
  have "?R p (?c s) w'" if "world_inv sim (insert p A) w'" "sim \<or> so_handle s \<noteq> 0" for p w' s
  proof (intro conjI)
    show "client_inv (insert p A) (?c s) w'"
      by (rule new_client_inv [OF that(1)]) (use that(2) a in \<open>auto simp: client_ready_def new_client_def\<close>)
  qed (simp_all add: client_driven_in_def new_client_def)
  then have run: "sim \<or> so_handle s \<noteq> 0 \<Longrightarrow> runs (case w_alloc Struct_block (w\<lparr>w_closed := cs\<rparr>) of
       (None, w) \<Rightarrow> do { (socket, w) \<leftarrow> netcode_socket_destroy s w; Some (None, w) }
     | (Some p, w) \<Rightarrow> Some (Some (p, ?c s), w)) (\<lambda>x. created_in sim A (w\<lparr>w_closed := cs\<rparr>) x ?R)" for s cs
    using assms(1,2) by (intro runs_allocate_struct) auto
  show ?thesis
  proof (cases sim)
    case True
    then have sim: "sim = True" by simp
    show ?thesis
      using NETCODE_OK assms(1,2) run [of zero_socket "w_closed w"] unfolding sim
      by (auto simp: netcode_client_create_internal_def) (simp add: created_in_def untouched_def)
  next
    case False
    then have sim: "sim = False" by simp
    show ?thesis
      using assms(1,2) sock NETCODE_OK run [of s cs] unfolding sim
      by (auto simp: netcode_client_create_internal_def created_later runs_simps)
        (simp_all add: created_in_def untouched_def)
  qed
qed

lemma process_created:
  assumes p: "process_in sim sp P Q ss cs w" and made: "created_in sim (blocks_in sp ss cs) w (r, w') R"
    and R: "\<And>q e. r = Some (q, e) \<Longrightarrow> R q e w' \<Longrightarrow> endpoint_inv sim (insert q (blocks_in sp ss cs)) (c e) w' \<and> endpoint_blocks (c e) = {}"
    and x: "tenants sp ss cs x = None"
  shows "housed sim (endpoint_inv sim) endpoint_blocks ((tenants sp ss cs)(x := map_option (map_prod id c) r)) w'"
proof -
  have h: "housed sim (endpoint_inv sim) endpoint_blocks (tenants sp ss cs) w" using p by (simp add: process_in_def)
  have out: "untouched (blocks_in sp ss cs) w w'" using made by (simp add: created_in_def)
  show ?thesis
  proof (cases r)
    case None
    then have "housed sim (endpoint_inv sim) endpoint_blocks (tenants sp ss cs) w'"
      using made by (intro lodger.outside [OF h _ out]) (simp add: created_in_def)
    with None x show ?thesis by (simp add: fun_upd_idem)
  next
    case (Some y)
    then obtain q e where y: "r = Some (q, e)" by (cases y) auto
    then have "q \<notin> blocks_in sp ss cs" "R q e w'" using made by (auto simp: created_in_def)
    with R [OF y] y show ?thesis by (auto intro: lodger.enter [OF h x _ _ out])
  qed
qed

lemma runs_process_server_create_internal:
  assumes p: "process_in sim sp P Q ss cs w" and i: "ss i = None" and "inet_ok inet"
    and "length ckey = NETCODE_KEY_BYTES" and "length pkey = NETCODE_KEY_BYTES"
  shows "runs (netcode_server_create_internal inet os timeouts ckey cseq name pid pkey time sim w)
    (\<lambda>(r, w'). process_in sim sp (P(i := server_driven_in sim 0 time)) Q (ss(i := r)) cs w')"
proof (rule runs_mono [OF runs_server_create_internal [OF _ _ assms(3-5)]])
  fix x
  assume made: "created_in sim (blocks_in sp ss cs) w x (\<lambda>p s w'. server_inv (insert p (blocks_in sp ss cs)) s w' \<and> server_driven_in sim 0 time s
    \<and> all_ptrs (sv_client_packet_queue s) = {})" (is "created_in _ _ _ _ ?R")
  obtain r w' where x: "x = (r, w')" by fastforce
  have "housed sim (endpoint_inv sim) endpoint_blocks (tenants sp (ss(i := r)) cs) w'"
    unfolding tenants_upd
    by (rule process_created [OF p made [unfolded x]]) (use i in \<open>auto simp: server_driven_in_def\<close>)
  then show "case x of (r, w') \<Rightarrow> process_in sim sp (P(i := server_driven_in sim 0 time)) Q (ss(i := r)) cs w'"
    using p made x by (auto simp: process_in_def created_in_def)
qed (use process_world [OF p] in auto)

lemma runs_process_client_create_internal:
  assumes p: "process_in sim sp P Q ss cs w" and i: "cs i = None" and "inet_ok inet"
  shows "runs (netcode_client_create_internal inet os name time sim w)
    (\<lambda>(r, w'). process_in sim sp P (Q(i := client_driven_in sim 0)) ss (cs(i := r)) w')"
proof (rule runs_mono [OF runs_client_create_internal [OF _ _ assms(3)]])
  fix x
  assume made: "created_in sim (blocks_in sp ss cs) w x (\<lambda>p c w'. client_inv (insert p (blocks_in sp ss cs)) c w' \<and> client_driven_in sim 0 c
    \<and> queue_ptrs (cl_packet_receive_queue c) = {})" (is "created_in _ _ _ _ ?R")
  obtain r w' where x: "x = (r, w')" by fastforce
  have "housed sim (endpoint_inv sim) endpoint_blocks (tenants sp ss (cs(i := r))) w'"
    unfolding tenants_upd
    by (rule process_created [OF p made [unfolded x]]) (use i in \<open>auto simp: client_driven_in_def\<close>)
  then show "case x of (r, w') \<Rightarrow> process_in sim sp P (Q(i := client_driven_in sim 0)) ss (cs(i := r)) w'"
    using p made x by (auto simp: process_in_def created_in_def)
qed (use process_world [OF p] in auto)

lemmas runs_process_server_create = runs_process_server_create_internal [where sim = False, folded netcode_server_create_def]
lemmas runs_process_client_create = runs_process_client_create_internal [where sim = False, folded netcode_client_create_def]

lemma process_left:
  assumes p: "process_in sim sp P Q ss cs w" and x: "tenants sp ss cs x = Some (q, e)"
    and w: "world_inv sim (blocks_in sp ss cs - endpoint_blocks e - {q}) w'" "frame (blocks_in sp ss cs - endpoint_blocks e - {q}) w w'"
  shows "housed sim (endpoint_inv sim) endpoint_blocks ((tenants sp ss cs)(x := None)) w'"
proof -
  have "blocks_in sp ss cs - endpoint_blocks e - {q} = blocks_in sp ss cs - insert q (endpoint_blocks e)" by auto
  with p w frame_rx_untouched [OF frame_rx_frame [OF w(2)] order_refl]
  show ?thesis using lodger.leave [where ts = "tenants sp ss cs" and i = x and p = q and e = e and w = w and w' = w'] x by (simp add: process_in_def)
qed

lemma process_struct:
  assumes "process_in sim sp P Q ss cs w" and "tenants sp ss cs x = Some (q, e)"
  shows "insert q (blocks_in sp ss cs - endpoint_blocks e - {q}) = blocks_in sp ss cs - endpoint_blocks e"
proof -
  have "q \<notin> endpoint_blocks e" using assms unfolding process_in_def housed_def by blast
  moreover have "q \<in> blocks_in sp ss cs" using room_in_rooms [of endpoint_blocks "tenants sp ss cs" x] assms(2) by auto
  ultimately show ?thesis by auto
qed

lemma runs_process_server_destroy:
  assumes laws: "aead_laws cr" and p: "process_in sim sp P Q ss cs w" and i: "ss i = Some (q, s)" and s: "server_driven_in sim n t s"
  shows "runs (netcode_server_destroy cr q s w) (process_in sim sp P Q (ss(i := None)) cs)"
proof -
  have x: "tenants sp ss cs (Server_slot i) = Some (q, Server s)" using i by simp
  have "server_inv (insert q (blocks_in sp ss cs - endpoint_blocks (Server s) - {q})) s w"
    unfolding process_struct [OF p x] using process_server(1) [OF p i] by simp
  from runs_server_destroy [OF laws this] s p have "runs (netcode_server_destroy cr q s w) (\<lambda>w'.
      world_inv sim (server_around sp ss cs s - {q}) w' \<and> frame (server_around sp ss cs s - {q}) w w')"
    by (simp add: server_driven_in_def process_in_def)
  then show ?thesis
    by (rule runs_mono) (use p process_left [OF p x] in \<open>auto simp: process_in_def tenants_upd frame_def\<close>)
qed

lemma runs_process_client_destroy:
  assumes laws: "aead_laws cr" and p: "process_in sim sp P Q ss cs w" and i: "cs i = Some (q, c)" and c: "client_driven_in sim n c"
  shows "runs (netcode_client_destroy cr q c w) (process_in sim sp P Q ss (cs(i := None)))"
proof -
  have x: "tenants sp ss cs (Client_slot i) = Some (q, Client c)" using i by simp
  have "client_inv (insert q (blocks_in sp ss cs - endpoint_blocks (Client c) - {q})) c w"
    unfolding process_struct [OF p x] using process_client(1) [OF p i] by simp
  from runs_client_destroy [OF laws this] c p have "runs (netcode_client_destroy cr q c w) (\<lambda>w'.
      world_inv sim (client_around sp ss cs c - {q}) w' \<and> frame (client_around sp ss cs c - {q}) w w')"
    by (simp add: client_driven_in_def process_in_def)
  then show ?thesis
    by (rule runs_mono) (use p process_left [OF p x] in \<open>auto simp: process_in_def tenants_upd frame_def\<close>)
qed

end
