(* ===== verification/Example_Programs.thy ===== *)
theory Example_Programs
  imports Process
begin

text \<open>
  The programs \<^verbatim>\<open>server.c\<close>, \<^verbatim>\<open>client.c\<close> and \<^verbatim>\<open>client_server.c\<close>, from \<^verbatim>\<open>main\<close> to the exit code. They drive a
  server, a client, or both, sixty times a second, send a payload of the largest size in each round, and check what they receive. Whatever
  arrives, no call aborts in the library while the sequence numbers take three bytes; after that, see
  \<open>largest_payload_overflows\<close> in \<open>Packets\<close>.
\<close>

section \<open>Constants\<close>

definition TEST_PROTOCOL_ID :: u64 where
  "TEST_PROTOCOL_ID = 0x1122334455667788"

definition example_private_key :: bytes where
  "example_private_key =
     [0x60, 0x6a, 0xbe, 0x6e, 0xc9, 0x19, 0x10, 0xea,
      0x9a, 0x65, 0x62, 0xf6, 0x6f, 0x2b, 0x30, 0xe4,
      0x43, 0x71, 0xd6, 0x2c, 0xd1, 0x99, 0x27, 0x26,
      0x6b, 0x3c, 0x60, 0xf4, 0xb7, 0x15, 0xab, 0xa1]"

abbreviation (input) delta_time :: dbl where
  "delta_time \<equiv> 1 / 60"

abbreviation (input) CONNECT_TOKEN_EXPIRY :: int where "CONNECT_TOKEN_EXPIRY \<equiv> 30"
abbreviation (input) CONNECT_TOKEN_TIMEOUT :: int where "CONNECT_TOKEN_TIMEOUT \<equiv> 5"

section \<open>The server\<close>

definition server_main_round ::
    "crypto \<Rightarrow> dbl \<Rightarrow> netcode_server \<times> world \<Rightarrow> (netcode_server \<times> world) program option" where
  "server_main_round cr time = (\<lambda>(server, w). do {
     (server, w) \<leftarrow> netcode_server_update cr time server w;
     (server, w) \<leftarrow> (if netcode_server_client_connected server 0
                    then netcode_server_send_packet cr server 0 packet_data w else Some (server, w));
     for_each (\<lambda>client_index (server, w).
         and_then (server_read_loop whole_packet read_rounds (int client_index) (0, server, w))
           (\<lambda>(_, server, w). Some (Runs (server, w)))) [0..<NETCODE_MAX_CLIENTS] (server, w) })"

fun server_main_loop ::
    "crypto \<Rightarrow> arrival list \<Rightarrow> dbl \<Rightarrow> netcode_server \<times> world \<Rightarrow> (netcode_server \<times> world) program option" where
  "server_main_loop cr [] time (server, w) = Some (Runs (server, w))"
| "server_main_loop cr (a # rest) time (server, w) =
     and_then (server_main_round cr time (server, arrive a w)) (server_main_loop cr rest (time + delta_time))"

text \<open>The exit code, and the world that is left.\<close>

definition server_main ::
    "crypto \<Rightarrow> inet \<Rightarrow> int \<Rightarrow> os_calls \<Rightarrow> server_memory \<Rightarrow> string list \<Rightarrow> arrival list \<Rightarrow> world \<Rightarrow> (int \<times> world) program option" where
  "server_main cr inet sodium_init os memory argv arrivals w =
     do { (r, w) \<leftarrow> netcode_init sodium_init w;
          if r \<noteq> NETCODE_OK () then Some (Runs (1, w))
          else do {
            let time = 0;
            let server_address = (if length argv = 2 then argv ! 1 else ''127.0.0.1:40000'');
            let (timeouts, challenge_key, challenge_sequence) = memory;
            (server, w) \<leftarrow> netcode_server_create inet os timeouts challenge_key challenge_sequence server_address
                            TEST_PROTOCOL_ID example_private_key time w;
            (case server of
               None \<Rightarrow> Some (Runs (1, w))
             | Some (ptr, server) \<Rightarrow> do {
                 (server, w) \<leftarrow> netcode_server_start cr server NETCODE_MAX_CLIENTS w;
                 and_then (server_main_loop cr arrivals time (server, w)) (\<lambda>(server, w). do {
                   w \<leftarrow> netcode_server_destroy cr ptr server w;
                   w \<leftarrow> netcode_term w;
                   Some (Runs (0, w)) }) }) } }"

section \<open>The client\<close>

definition client_main_round ::
    "crypto \<Rightarrow> dbl \<Rightarrow> netcode_client \<times> world \<Rightarrow> (netcode_client \<times> world) program option" where
  "client_main_round cr time = (\<lambda>(client, w). do {
     (client, w) \<leftarrow> netcode_client_update cr time client w;
     (client, w) \<leftarrow> (if netcode_client_state client = NETCODE_CLIENT_STATE_CONNECTED
                    then netcode_client_send_packet cr client packet_data w else Some (client, w));
     and_then (client_read_loop whole_packet read_rounds (0, client, w)) (\<lambda>(_, client, w). Some (Runs (client, w))) })"

fun client_main_loop ::
    "crypto \<Rightarrow> arrival list \<Rightarrow> dbl \<Rightarrow> netcode_client \<times> world \<Rightarrow> (netcode_client \<times> world) program option" where
  "client_main_loop cr [] time (client, w) = Some (Runs (client, w))"
| "client_main_loop cr (a # rest) time (client, w) =
     and_then (client_main_round cr time (client, arrive a w)) (\<lambda>(client, w).
       if netcode_client_state client \<le> NETCODE_CLIENT_STATE_DISCONNECTED then Some (Runs (client, w))
       else client_main_loop cr rest (time + delta_time) (client, w))"

definition client_main ::
    "crypto \<Rightarrow> inet \<Rightarrow> int \<Rightarrow> os_calls \<Rightarrow> string list \<Rightarrow> arrival list \<Rightarrow> world \<Rightarrow> (int \<times> world) program option" where
  "client_main cr inet sodium_init os argv arrivals w =
     do { (r, w) \<leftarrow> netcode_init sodium_init w;
          if r \<noteq> NETCODE_OK () then Some (Runs (1, w))
          else do {
            let time = 0;
            (client, w) \<leftarrow> netcode_client_create inet os ''0.0.0.0'' time w;
            (case client of
               None \<Rightarrow> Some (Runs (1, w))
             | Some (ptr, client) \<Rightarrow> do {
                 let server_address = (if length argv \<noteq> 2 then ''127.0.0.1:40000'' else argv ! 1);
                 let (memory, w) = netcode_random_bytes 8 w;
                 let client_id = u64_of_memory memory;
                 (r, w) \<leftarrow> netcode_generate_connect_token cr inet [server_address] CONNECT_TOKEN_EXPIRY CONNECT_TOKEN_TIMEOUT
                          client_id TEST_PROTOCOL_ID 0 example_private_key w;
                 (case r of
                    NETCODE_ERROR \<Rightarrow> Some (Runs (1, w))
                  | NETCODE_OK connect_token \<Rightarrow> do {
                      (client, w) \<leftarrow> netcode_client_connect cr client connect_token w;
                      and_then (client_main_loop cr arrivals time (client, w)) (\<lambda>(client, w). do {
                        w \<leftarrow> netcode_client_destroy cr ptr client w;
                        w \<leftarrow> netcode_term w;
                        Some (Runs (0, w)) }) }) }) } }"

section \<open>Client and server in one process\<close>

text \<open>The variables of \<^verbatim>\<open>main\<close>: the two counts of packets, the client, the server.\<close>

type_synonym client_server = "nat \<times> nat \<times> netcode_client \<times> netcode_server \<times> world"

text \<open>Datagrams arrive before each of the two updates.\<close>

definition client_server_round ::
    "crypto \<Rightarrow> arrival \<times> arrival \<Rightarrow> dbl \<Rightarrow> client_server \<Rightarrow> client_server program option" where
  "client_server_round cr = (\<lambda>(a, b) time (client_received, server_received, client, server, w). do {
     (client, w) \<leftarrow> netcode_client_update cr time client (arrive a w);
     (server, w) \<leftarrow> netcode_server_update cr time server (arrive b w);
     (client, w) \<leftarrow> (if netcode_client_state client = NETCODE_CLIENT_STATE_CONNECTED
                    then netcode_client_send_packet cr client packet_data w else Some (client, w));
     (server, w) \<leftarrow> (if netcode_server_client_connected server 0
                    then netcode_server_send_packet cr server 0 packet_data w else Some (server, w));
     and_then (client_read_loop whole_packet read_rounds (client_received, client, w)) (\<lambda>(client_received, client, w).
     and_then (server_read_loop whole_packet read_rounds 0 (server_received, server, w)) (\<lambda>(server_received, server, w). do {
       (server, w) \<leftarrow> (if client_received \<ge> 10 \<and> server_received \<ge> 10 \<and> netcode_server_client_connected server 0
                      then netcode_server_disconnect_client cr server 0 w else Some (server, w));
       Some (Runs (client_received, server_received, client, server, w)) })) })"

fun client_server_loop ::
    "crypto \<Rightarrow> (arrival \<times> arrival) list \<Rightarrow> dbl \<Rightarrow> client_server \<Rightarrow> client_server program option" where
  "client_server_loop cr [] time v = Some (Runs v)"
| "client_server_loop cr (ab # rest) time v =
     and_then (client_server_round cr ab time v) (\<lambda>(client_received, server_received, client, server, w).
       if netcode_client_state client \<le> NETCODE_CLIENT_STATE_DISCONNECTED
       then Some (Runs (client_received, server_received, client, server, w))
       else client_server_loop cr rest (time + delta_time) (client_received, server_received, client, server, w))"

definition client_server_main ::
    "crypto \<Rightarrow> inet \<Rightarrow> int \<Rightarrow> os_calls \<Rightarrow> os_calls \<Rightarrow> server_memory \<Rightarrow> (arrival \<times> arrival) list \<Rightarrow> world \<Rightarrow>
     (int \<times> world) program option" where
  "client_server_main cr inet sodium_init client_os server_os memory arrivals w =
     do { (r, w) \<leftarrow> netcode_init sodium_init w;
          if r \<noteq> NETCODE_OK () then Some (Runs (1, w))
          else do {
            let time = 0;
            (client, w) \<leftarrow> netcode_client_create inet client_os ''::'' time w;
            (case client of
               None \<Rightarrow> Some (Runs (1, w))
             | Some (client_ptr, client) \<Rightarrow> do {
                 let server_address = ''[::1]:40000'';
                 let (timeouts, challenge_key, challenge_sequence) = memory;
                 (server, w) \<leftarrow> netcode_server_create inet server_os timeouts challenge_key challenge_sequence server_address
                                 TEST_PROTOCOL_ID example_private_key time w;
                 (case server of
                    None \<Rightarrow> Some (Runs (1, w))
                  | Some (server_ptr, server) \<Rightarrow> do {
                      (server, w) \<leftarrow> netcode_server_start cr server 1 w;
                      let (memory, w) = netcode_random_bytes 8 w;
                      let client_id = u64_of_memory memory;
                      (r, w) \<leftarrow> netcode_generate_connect_token cr inet [server_address] CONNECT_TOKEN_EXPIRY CONNECT_TOKEN_TIMEOUT
                               client_id TEST_PROTOCOL_ID 0 example_private_key w;
                      (case r of
                         NETCODE_ERROR \<Rightarrow> Some (Runs (1, w))
                       | NETCODE_OK connect_token \<Rightarrow> do {
                           (client, w) \<leftarrow> netcode_client_connect cr client connect_token w;
                           and_then (client_server_loop cr arrivals time (0, 0, client, server, w))
                             (\<lambda>(_, _, client, server, w). do {
                                w \<leftarrow> netcode_server_destroy cr server_ptr server w;
                                w \<leftarrow> netcode_client_destroy cr client_ptr client w;
                                w \<leftarrow> netcode_term w;
                                Some (Runs (0, w)) }) }) }) }) } }"

section \<open>One server, one client\<close>

text \<open>The array with one element.\<close>

definition only :: "'a \<Rightarrow> 'a option array" where
  "only x = (\<lambda>_. None)(0 := Some x)"

lemma only_simps [simp]: "only x 0 = Some x" "(only x)(0 := Some y) = only y" "(only x)(0 := None) = (\<lambda>_. None)"
  "only x i = Some y \<longleftrightarrow> i = 0 \<and> x = y" "(\<lambda>_. None)(0 := Some x) = only x"
  by (auto simp: only_def fun_eq_iff)

definition hosted :: "nat \<Rightarrow> dbl \<Rightarrow> nat \<Rightarrow> server_array \<Rightarrow> client_array \<Rightarrow> world \<Rightarrow> bool" where
  "hosted n t k ss cs w \<longleftrightarrow> process (\<lambda>_. server_driven n t) (\<lambda>_. client_driven k) ss cs w"

lemma hosted_mono: "hosted n t k ss cs w \<Longrightarrow> n \<le> n' \<Longrightarrow> t' \<le> t \<Longrightarrow> k \<le> k' \<Longrightarrow> hosted n' t' k' ss cs w"
  unfolding hosted_def by (erule process_mono) (auto intro: server_driven_mono client_driven_mono)

lemma hosted_arrive: "hosted n t k ss cs w \<Longrightarrow> arrival_ok a \<Longrightarrow> hosted n t k ss cs (arrive a w)"
  unfolding hosted_def by (rule process_arrive)

lemma hosted_random: "hosted n t k ss cs w \<Longrightarrow> hosted n t k ss cs (w\<lparr>w_random_next := m\<rparr>)"
  unfolding hosted_def by (rule process_random)

lemma hosted_server: "process (P(0 := server_driven n t)) (\<lambda>_. client_driven k) (only (p, s)) cs w \<Longrightarrow> hosted n t k (only (p, s)) cs w"
  unfolding hosted_def by (erule process_mono) (auto split: if_splits)

lemma hosted_client: "process (\<lambda>_. server_driven n t) (Q(0 := client_driven k)) ss (only (p, c)) w \<Longrightarrow> hosted n t k ss (only (p, c)) w"
  unfolding hosted_def by (erule process_mono) (auto split: if_splits)

lemma runs_hosted_server:
  assumes h: "hosted n t k (only (p, s)) cs w"
    and m: "\<And>B. server_inv B s w \<Longrightarrow> server_driven n t s \<Longrightarrow> runs m (\<lambda>x. server_kept_driven B n' t' w x \<and> R (fst x))"
  shows "runs m (\<lambda>(s', w'). hosted n' t' k (only (p, s')) cs w' \<and> R s')"
proof -
  note h = h [unfolded hosted_def]
  have i: "only (p, s) 0 = Some (p, s)" by simp
  from runs_process_server [OF h i m [OF _ process_server(2) [OF h i]]] show ?thesis
    by (rule runs_mono) (auto intro: hosted_server)
qed

lemma runs_hosted_client:
  assumes h: "hosted n t k ss (only (p, c)) w"
    and m: "\<And>B. client_inv B c w \<Longrightarrow> client_driven k c \<Longrightarrow> runs m (client_kept_driven B k' w)"
  shows "runs m (\<lambda>(c', w'). hosted n t k' ss (only (p, c')) w')"
proof -
  note h = h [unfolded hosted_def]
  have i: "only (p, c) 0 = Some (p, c)" by simp
  from runs_process_client [OF h i m [OF _ process_client(2) [OF h i]]] show ?thesis
    by (rule runs_mono) (auto intro: hosted_client)
qed

text \<open>The calls that the programs make in every round.\<close>

lemma hosted_update:
  assumes "aead_laws cr" and "hosted n t k (only (p, s)) cs w" and "1 \<le> n" "time \<le> t + 9 / 10"
  shows "runs (netcode_server_update cr time s w) (\<lambda>(s', w'). hosted (Suc n) time k (only (p, s')) cs w'
    \<and> sv_running s' = sv_running s \<and> sv_max_clients s' = sv_max_clients s)"
  by (rule runs_hosted_server [OF assms(2)]) (rule drives_update [OF assms(1) _ _ assms(3,4)])

lemma hosted_send:
  assumes "aead_laws cr" and h: "hosted n t k (only (p, s)) cs w" and "n + 1 < 2 ^ 24" and up: "server_up m s" "0 < m"
  shows "runs (if netcode_server_client_connected s 0 then netcode_server_send_packet cr s 0 packet_data w else Some (s, w))
    (\<lambda>(s', w'). hosted (n + 2) t k (only (p, s')) cs w' \<and> server_up m s')"
proof -
  have "runs (netcode_server_send_packet cr s 0 packet_data w) (\<lambda>(s', w'). hosted (n + 2) t k (only (p, s')) cs w'
    \<and> (sv_running s' = sv_running s \<and> sv_max_clients s' = sv_max_clients s))"
    by (rule runs_hosted_server [OF h]) (rule drives_send [OF assms(1) _ _ assms(3)], use up in auto)
  then show ?thesis using up hosted_mono [OF h] by (auto elim!: runs_mono)
qed

lemma hosted_read:
  assumes h: "hosted n t k (only (p, s)) cs w" and "1 \<le> n" and up: "server_up m s" "0 \<le> j" "j < int m"
  shows "runs (server_read_loop expected read_rounds j (received, s, w)) (ends_well (\<lambda>(_, s', w').
    hosted n t k (only (p, s')) cs w' \<and> server_up m s'))"
proof -
  note h = h [unfolded hosted_def]
  have i: "only (p, s) 0 = Some (p, s)" by simp
  from runs_process_server_read [OF h i process_server(2) [OF h i] assms(2)] up
  have "runs (server_read_loop expected read_rounds j (received, s, w)) (ends_well (\<lambda>(_, s', w').
    process ((\<lambda>_. server_driven n t)(0 := server_driven n t)) (\<lambda>_. client_driven k) ((only (p, s))(0 \<mapsto> (p, s'))) cs w'
    \<and> sv_running s' = sv_running s \<and> sv_max_clients s' = sv_max_clients s))" by blast
  then show ?thesis
    by (rule runs_mono, elim ends_well_mono) (use up in \<open>auto intro: hosted_server\<close>)
qed

lemma hosted_client_update:
  assumes "aead_laws cr" and "hosted n t k ss (only (p, c)) w"
  shows "runs (netcode_client_update cr time c w) (\<lambda>(c', w'). hosted n t (Suc k) ss (only (p, c')) w')"
  by (rule runs_hosted_client [OF assms(2)]) (rule drives_client_update [OF assms(1)])

lemma hosted_client_send:
  assumes "aead_laws cr" and h: "hosted n t k ss (only (p, c)) w" and "k < 2 ^ 24"
  shows "runs (if netcode_client_state c = NETCODE_CLIENT_STATE_CONNECTED then netcode_client_send_packet cr c packet_data w
    else Some (c, w)) (\<lambda>(c', w'). hosted n t (Suc k) ss (only (p, c')) w')"
proof -
  have "runs (netcode_client_send_packet cr c packet_data w) (\<lambda>(c', w'). hosted n t (Suc k) ss (only (p, c')) w')"
    by (rule runs_hosted_client [OF h]) (rule drives_client_send [OF assms(1) _ _ assms(3)], auto)
  then show ?thesis using hosted_mono [OF h] by auto
qed

lemma hosted_client_read:
  assumes h: "hosted n t k ss (only (p, c)) w"
  shows "runs (client_read_loop expected read_rounds (received, c, w)) (ends_well (\<lambda>(_, c', w').
    hosted n t k ss (only (p, c')) w'))"
proof -
  note h = h [unfolded hosted_def]
  have i: "only (p, c) 0 = Some (p, c)" by simp
  from runs_process_client_read [OF h i process_client(2) [OF h i]]
  show ?thesis by (rule runs_mono, elim ends_well_mono) (auto intro: hosted_client)
qed

section \<open>Rounds\<close>

lemma runs_server_main_round:
  assumes laws: "aead_laws cr" and h: "hosted n t k (only (p, s)) cs w" and n: "1 \<le> n" "n + 2 < 2 ^ 24"
    and up: "server_up NETCODE_MAX_CLIENTS s" and time: "time \<le> t + 9 / 10"
  shows "runs (server_main_round cr time (s, w)) (ends_well (\<lambda>(s', w').
    hosted (n + 3) time k (only (p, s')) cs w' \<and> server_up NETCODE_MAX_CLIENTS s'))"
  unfolding server_main_round_def prod.case
proof (rule runs_then_pair [OF hosted_update [OF laws h n(1) time]])
  fix s1 w1
  assume 1: "hosted (Suc n) time k (only (p, s1)) cs w1 \<and> sv_running s1 = sv_running s \<and> sv_max_clients s1 = sv_max_clients s"
  then have h1: "hosted (Suc n) time k (only (p, s1)) cs w1" and up1: "server_up NETCODE_MAX_CLIENTS s1" using up by auto
  have n1: "Suc n + 1 < 2 ^ 24" using n(2) by simp
  let ?I = "\<lambda>j::nat. \<lambda>(s', w'). hosted (n + 3) time k (only (p, s')) cs w' \<and> server_up NETCODE_MAX_CLIENTS s'"
  show "runs (do {
       (server, w) \<leftarrow> (if netcode_server_client_connected s1 0 then netcode_server_send_packet cr s1 0 packet_data w1 else Some (s1, w1));
       for_each (\<lambda>client_index (server, w).
         and_then (server_read_loop whole_packet read_rounds (int client_index) (0, server, w))
           (\<lambda>(_, server, w). Some (Runs (server, w)))) [0..<NETCODE_MAX_CLIENTS] (server, w) }) (ends_well (?I NETCODE_MAX_CLIENTS))"
  proof (rule runs_then_pair [OF hosted_send [OF laws h1 n1 up1 zero_less_numeral]], rule runs_for_upt [where I = ?I])
    fix s2 w2 assume "hosted (Suc n + 2) time k (only (p, s2)) cs w2 \<and> server_up NETCODE_MAX_CLIENTS s2"
    then show "?I 0 (s2, w2)" by (simp add: numeral_eq_Suc)
  next
    fix j x assume j: "j < NETCODE_MAX_CLIENTS" and x: "?I j x"
    then obtain s3 w3 where x': "x = (s3, w3)" and 3: "hosted (n + 3) time k (only (p, s3)) cs w3" "server_up NETCODE_MAX_CLIENTS s3"
      by (cases x) auto
    have j': "0 \<le> int j" "int j < int NETCODE_MAX_CLIENTS" using j by simp_all
    show "runs (case x of (server, w) \<Rightarrow>
       and_then (server_read_loop whole_packet read_rounds (int j) (0, server, w))
         (\<lambda>(_, server, w). Some (Runs (server, w)))) (ends_well (?I (Suc j)))"
      unfolding x' prod.case
      by (rule runs_and_then_triple [OF hosted_read [OF 3(1) _ 3(2) j']]) auto
  qed
qed

lemma runs_server_main_loop:
  assumes laws: "aead_laws cr"
  shows "hosted n t k (only (p, s)) cs w \<Longrightarrow> 1 \<le> n \<Longrightarrow> n + 3 * length arrivals < 2 ^ 24 \<Longrightarrow> \<forall>a \<in> set arrivals. arrival_ok a \<Longrightarrow>
    server_up NETCODE_MAX_CLIENTS s \<Longrightarrow> time \<le> t + 9 / 10 \<Longrightarrow>
    runs (server_main_loop cr arrivals time (s, w)) (ends_well (\<lambda>(s', w'). \<exists>n' t'. hosted n' t' k (only (p, s')) cs w'))"
proof (induction arrivals arbitrary: n t s w time)
  case Nil
  then show ?case by auto
next
  case (Cons a as)
  have h: "hosted n t k (only (p, s)) cs (arrive a w)" using hosted_arrive [OF Cons.prems(1)] Cons.prems(4) by simp
  have n: "n + 2 < 2 ^ 24" using Cons.prems(3) by simp
  show ?case
    unfolding server_main_loop.simps
  proof (rule runs_and_then [OF runs_server_main_round [OF laws h Cons.prems(2) n Cons.prems(5,6)]], elim case_prodE conjE, hypsubst)
    fix s1 w1 assume 1: "hosted (n + 3) time k (only (p, s1)) cs w1" "sv_running s1" "sv_max_clients s1 = NETCODE_MAX_CLIENTS"
    show "runs (server_main_loop cr as (time + delta_time) (s1, w1))
        (ends_well (\<lambda>(s', w'). \<exists>n' t'. hosted n' t' k (only (p, s')) cs w'))"
      by (rule Cons.IH [OF 1(1)]) (use Cons.prems(3,4) 1(2,3) in auto)
  qed
qed

lemma runs_client_main_round:
  assumes laws: "aead_laws cr" and h: "hosted n t k ss (only (p, c)) w" and k: "k + 1 < 2 ^ 24"
  shows "runs (client_main_round cr time (c, w)) (ends_well (\<lambda>(c', w'). hosted n t (k + 2) ss (only (p, c')) w'))"
  unfolding client_main_round_def prod.case
proof (rule runs_then_pair [OF hosted_client_update [OF laws h]])
  fix c1 w1 assume 1: "hosted n t (Suc k) ss (only (p, c1)) w1"
  have k1: "Suc k < 2 ^ 24" using k by simp
  show "runs (do {
     (client, w) \<leftarrow> (if netcode_client_state c1 = NETCODE_CLIENT_STATE_CONNECTED
                    then netcode_client_send_packet cr c1 packet_data w1 else Some (c1, w1));
     and_then (client_read_loop whole_packet read_rounds (0, client, w)) (\<lambda>(_, client, w). Some (Runs (client, w))) })
     (ends_well (\<lambda>(c', w'). hosted n t (k + 2) ss (only (p, c')) w'))"
    by (rule runs_then_pair [OF hosted_client_send [OF laws 1 k1]], rule runs_and_then_triple [OF hosted_client_read], assumption) simp
qed

lemma runs_client_main_loop:
  assumes laws: "aead_laws cr"
  shows "hosted n t k ss (only (p, c)) w \<Longrightarrow> k + 2 * length arrivals < 2 ^ 24 \<Longrightarrow> \<forall>a \<in> set arrivals. arrival_ok a \<Longrightarrow>
    runs (client_main_loop cr arrivals time (c, w)) (ends_well (\<lambda>(c', w'). \<exists>k'. hosted n t k' ss (only (p, c')) w'))"
proof (induction arrivals arbitrary: k c w time)
  case (Cons a as)
  have h: "hosted n t k ss (only (p, c)) (arrive a w)" using hosted_arrive [OF Cons.prems(1)] Cons.prems(3) by simp
  have k: "k + 1 < 2 ^ 24" using Cons.prems(2) by simp
  show ?case
    unfolding client_main_loop.simps
  proof (rule runs_and_then_pair [OF runs_client_main_round [OF laws h k]])
    fix c1 w1 assume 1: "hosted n t (k + 2) ss (only (p, c1)) w1"
    have "runs (client_main_loop cr as (time + delta_time) (c1, w1)) (ends_well (\<lambda>(c', w'). \<exists>k'. hosted n t k' ss (only (p, c')) w'))"
      by (rule Cons.IH [OF 1]) (use Cons.prems(2,3) in auto)
    with 1 show "runs (if netcode_client_state c1 \<le> NETCODE_CLIENT_STATE_DISCONNECTED then Some (Runs (c1, w1))
        else client_main_loop cr as (time + delta_time) (c1, w1)) (ends_well (\<lambda>(c', w'). \<exists>k'. hosted n t k' ss (only (p, c')) w'))"
      by auto
  qed
qed auto

lemma runs_client_server_round:
  assumes laws: "aead_laws cr" and h: "hosted n t k (only (p, s)) (only (q, c)) w" and n: "1 \<le> n" "n + 2 < 2 ^ 24" "k + 1 < 2 ^ 24"
    and up: "server_up 1 s" and time: "time \<le> t + 9 / 10" and ab: "arrival_ok (fst ab)" "arrival_ok (snd ab)"
  shows "runs (client_server_round cr ab time (x, y, c, s, w)) (ends_well (\<lambda>(x', y', c', s', w').
    hosted (n + 3) time (k + 2) (only (p, s')) (only (q, c')) w' \<and> server_up 1 s'))"
proof -
  obtain a b where ab': "ab = (a, b)" by (cases ab)
  have j: "(0 :: int) \<le> 0" "(0 :: int) < int 1" by simp_all
  have last: "runs (do {
       (s', w') \<leftarrow> (if cond1 \<and> cond2 \<and> netcode_server_client_connected s3 0 then netcode_server_disconnect_client cr s3 0 w3 else Some (s3, w3));
       Some (Runs (x', y', c', s', w')) }) (ends_well (\<lambda>(x', y', c', s', w').
         hosted (n + 3) time (k + 2) (only (p, s')) (only (q, c')) w' \<and> server_up 1 s'))"
    if 3: "hosted (n + 3) time (k + 2) (only (p, s3)) (only (q, c')) w3 \<and> server_up 1 s3" for cond1 cond2 s3 w3 x' y' c'
  proof -
    have "runs (netcode_server_disconnect_client cr s3 0 w3) (\<lambda>(s', w'). hosted (n + 3) time (k + 2) (only (p, s')) (only (q, c')) w'
        \<and> (sv_running s' = sv_running s3 \<and> sv_max_clients s' = sv_max_clients s3))"
      by (rule runs_hosted_server [of _ _ _ _ s3]) (rule conjunct1 [OF 3], rule drives_disconnect [OF laws], assumption, assumption, use 3 in simp_all)
    then have "runs (if cond1 \<and> cond2 \<and> netcode_server_client_connected s3 0 then netcode_server_disconnect_client cr s3 0 w3 else Some (s3, w3))
        (\<lambda>(s', w'). hosted (n + 3) time (k + 2) (only (p, s')) (only (q, c')) w' \<and> server_up 1 s')"
      using 3 by (auto elim!: runs_mono)
    then show ?thesis by (rule runs_then_pair) simp
  qed
  show ?thesis
    unfolding client_server_round_def ab' prod.case
  proof (rule runs_then_pair [OF hosted_client_update [OF laws hosted_arrive [OF h]]], goal_cases)
    case (2 c1 w1)
    have "arrival_ok b" using ab ab' by simp
    then have 1: "hosted n t (Suc k) (only (p, s)) (only (q, c1)) (arrive b w1)" by (rule hosted_arrive [OF 2])
    show ?case
    proof (rule runs_then_pair [OF hosted_update [OF laws 1 n(1) time]], goal_cases)
      case (1 s1 w1)
      then have h1: "hosted (Suc n) time (Suc k) (only (p, s1)) (only (q, c1)) w1" and up1: "server_up 1 s1" using up by auto
      have small: "Suc n + 1 < 2 ^ 24" "Suc k < 2 ^ 24" using n by simp_all
      show ?case
      proof (rule runs_then_pair [OF hosted_client_send [OF laws h1 small(2)]],
          rule runs_then_pair [OF hosted_send [OF laws _ small(1) up1 zero_less_one]], assumption, goal_cases)
        case (1 c2 w2 s2 w3)
        then have h2: "hosted (n + 3) time (k + 2) (only (p, s2)) (only (q, c2)) w3" and up2: "server_up 1 s2"
          by (simp_all add: numeral_eq_Suc)
        show ?case
          by (rule runs_and_then_triple [OF hosted_client_read [OF h2]],
              rule runs_and_then_triple [OF hosted_read [OF _ _ up2 j]], assumption, simp, rule last)
      qed
    qed
  qed (use ab ab' in simp)
qed

lemma runs_client_server_loop:
  assumes laws: "aead_laws cr"
  shows "hosted n t k (only (p, s)) (only (q, c)) w \<Longrightarrow> 1 \<le> n \<Longrightarrow> n + 3 * length arrivals < 2 ^ 24 \<Longrightarrow> k + 2 * length arrivals < 2 ^ 24 \<Longrightarrow>
    \<forall>(a, b) \<in> set arrivals. arrival_ok a \<and> arrival_ok b \<Longrightarrow> server_up 1 s \<Longrightarrow> time \<le> t + 9 / 10 \<Longrightarrow>
    runs (client_server_loop cr arrivals time (x, y, c, s, w)) (ends_well (\<lambda>(x', y', c', s', w').
      \<exists>n' t' k'. hosted n' t' k' (only (p, s')) (only (q, c')) w'))"
proof (induction arrivals arbitrary: n t k x y c s w time)
  case (Cons ab rest)
  have ab: "arrival_ok (fst ab)" "arrival_ok (snd ab)" using Cons.prems(5) by auto
  have small: "n + 2 < 2 ^ 24" "k + 1 < 2 ^ 24" using Cons.prems(3,4) by simp_all
  show ?case
    unfolding client_server_loop.simps
  proof (rule runs_and_then [OF runs_client_server_round [OF laws Cons.prems(1,2) small Cons.prems(6,7) ab]],
      elim case_prodE conjE, hypsubst, unfold prod.case)
    fix x1 y1 c1 s1 w1
    assume 1: "hosted (n + 3) time (k + 2) (only (p, s1)) (only (q, c1)) w1" "sv_running s1" "sv_max_clients s1 = 1"
    have "runs (client_server_loop cr rest (time + delta_time) (x1, y1, c1, s1, w1)) (ends_well (\<lambda>(x', y', c', s', w').
        \<exists>n' t' k'. hosted n' t' k' (only (p, s')) (only (q, c')) w'))"
      by (rule Cons.IH [OF 1(1)]) (use Cons.prems(3,4,5) 1(2,3) in auto)
    with 1(1) show "runs (if netcode_client_state c1 \<le> NETCODE_CLIENT_STATE_DISCONNECTED then Some (Runs (x1, y1, c1, s1, w1))
        else client_server_loop cr rest (time + delta_time) (x1, y1, c1, s1, w1)) (ends_well (\<lambda>(x', y', c', s', w').
          \<exists>n' t' k'. hosted n' t' k' (only (p, s')) (only (q, c')) w'))" by auto
  qed
qed auto

section \<open>From start to exit\<close>

lemma hosted_init:
  assumes "world_inv False {} w" and "\<not> w_initialized w" and "unat (w_timestamp w) + 60 < 2 ^ 64"
    and "\<And>w. hosted 1 0 0 (\<lambda>_. None) (\<lambda>_. None) w \<Longrightarrow> runs (body w) (ends_well (\<lambda>(code, w'). Q code w'))" and "Q 1 w"
  shows "runs (do { (r, w) \<leftarrow> netcode_init sodium_init w; if r \<noteq> NETCODE_OK () then Some (Runs (1, w)) else body w })
    (ends_well (\<lambda>(code, w'). Q code w'))"
proof -
  have "hosted 1 0 0 (\<lambda>_. None) (\<lambda>_. None) (w\<lparr>w_initialized := True\<rparr>)"
    unfolding hosted_def by (rule process_start) (use assms(1,3) in \<open>simp_all add: world_inv_def inbox_ok_def\<close>)
  with assms(2,4,5) show ?thesis by (simp add: netcode_init_def runs_simps)
qed

lemma hosted_server_create:
  assumes "hosted n t k (\<lambda>_. None) cs w" and "inet_ok inet" and "length ckey = NETCODE_KEY_BYTES"
  shows "runs (netcode_server_create inet os timeouts ckey cseq name pid example_private_key t w)
    (\<lambda>(r, w'). \<forall>p s. r = Some (p, s) \<longrightarrow> hosted n t k (only (p, s)) cs w')"
proof -
  have key: "length example_private_key = NETCODE_KEY_BYTES" by (simp add: example_private_key_def)
  have i: "(\<lambda>_. None) (0 :: nat) = None" by simp
  from runs_process_server_create [where i = 0, OF assms(1) [unfolded hosted_def] i assms(2,3) key] show ?thesis
    by (rule runs_mono) (auto dest!: hosted_server elim!: hosted_mono)
qed

lemma hosted_client_create:
  assumes "hosted n t k ss (\<lambda>_. None) w" and "inet_ok inet"
  shows "runs (netcode_client_create inet os name time w) (\<lambda>(r, w'). \<forall>p c. r = Some (p, c) \<longrightarrow> hosted n t k ss (only (p, c)) w')"
proof -
  have i: "(\<lambda>_. None) (0 :: nat) = None" by simp
  from runs_process_client_create [where i = 0, OF assms(1) [unfolded hosted_def] i assms(2)] show ?thesis
    by (rule runs_mono) (auto dest!: hosted_client elim!: hosted_mono)
qed

lemma hosted_start:
  assumes "aead_laws cr" and "hosted n t k (only (p, s)) cs w" and "1 \<le> n" "0 < m" "m \<le> NETCODE_MAX_CLIENTS"
  shows "runs (netcode_server_start cr s m w) (\<lambda>(s', w'). hosted n t k (only (p, s')) cs w' \<and> server_up m s')"
  by (rule runs_hosted_server [OF assms(2)]) (rule drives_start [OF assms(1) _ _ assms(3-5)])

lemma hosted_connect:
  assumes "aead_laws cr" and "hosted n t k ss (only (p, c)) w" and "length token = NETCODE_CONNECT_TOKEN_BYTES"
  shows "runs (netcode_client_connect cr c token w) (\<lambda>(c', w'). hosted n t k ss (only (p, c')) w')"
  by (rule runs_hosted_client [OF assms(2)]) (rule drives_client_connect [OF assms(1) _ _ assms(3)])

lemma hosted_token:
  assumes "aead_laws cr" and "inet_ok inet" and h: "hosted n t k ss cs w"
  shows "runs (netcode_generate_connect_token cr inet [name] CONNECT_TOKEN_EXPIRY CONNECT_TOKEN_TIMEOUT client_id pid 0 example_private_key w)
    (\<lambda>(r, w'). hosted n t k ss cs w' \<and> (\<forall>token. r = NETCODE_OK token \<longrightarrow> length token = NETCODE_CONNECT_TOKEN_BYTES))"
proof -
  have clock: "unat (w_timestamp w) + 60 < 2 ^ 64" using h by (simp add: hosted_def process_in_def)
  have "runs (netcode_generate_connect_token cr inet [name] CONNECT_TOKEN_EXPIRY CONNECT_TOKEN_TIMEOUT client_id pid 0 example_private_key w)
    (\<lambda>(r, w'). w' = w\<lparr>w_random_next := w_random_next w'\<rparr> \<and> (\<forall>token. r = NETCODE_OK token \<longrightarrow> length token = NETCODE_CONNECT_TOKEN_BYTES))"
    by (rule runs_generate_connect_token [OF assms(1) _ assms(2)]) (use clock in \<open>auto simp: example_private_key_def int32_def\<close>)
  then show ?thesis by (rule runs_mono) (auto intro: subst [where P = "hosted n t k ss cs", OF sym hosted_random [OF h]])
qed

lemma hosted_server_destroy:
  assumes "aead_laws cr" and h: "hosted n t k (only (p, s)) cs w"
  shows "runs (netcode_server_destroy cr p s w) (hosted n t k (\<lambda>_. None) cs)"
proof -
  note h = h [unfolded hosted_def]
  have i: "only (p, s) 0 = Some (p, s)" by simp
  from runs_process_server_destroy [OF assms(1) h i process_server(2) [OF h i]] show ?thesis
    by (rule runs_mono) (simp add: hosted_def)
qed

lemma hosted_client_destroy:
  assumes "aead_laws cr" and h: "hosted n t k ss (only (p, c)) w"
  shows "runs (netcode_client_destroy cr p c w) (hosted n t k ss (\<lambda>_. None))"
proof -
  note h = h [unfolded hosted_def]
  have i: "only (p, c) 0 = Some (p, c)" by simp
  from runs_process_client_destroy [OF assms(1) h i process_client(2) [OF h i]] show ?thesis
    by (rule runs_mono) (simp add: hosted_def)
qed

lemma hosted_term:
  "hosted n t k (\<lambda>_. None) (\<lambda>_. None) w \<Longrightarrow> runs (netcode_term w \<bind> (\<lambda>w. Some (Runs (0, w)))) (ends_well (\<lambda>(code, w'). exits code w'))"
  using process_world [of False None "\<lambda>_. server_driven n t" "\<lambda>_. client_driven k" "\<lambda>_. None" "\<lambda>_. None" w] world_inv_mono [of False _ w "{}"]
  by (auto simp: hosted_def netcode_term_def exits_def runs_simps world_inv_def inbox_ok_def)

lemma runs_server_main:
  assumes laws: "aead_laws cr" and net: "inet_ok inet" and mem: "length (fst (snd memory)) = NETCODE_KEY_BYTES"
    and w: "world_inv False {} w" "\<not> w_initialized w" "unat (w_timestamp w) + 60 < 2 ^ 64"
    and arrivals: "\<forall>a \<in> set arrivals. arrival_ok a" "1 + 3 * length arrivals < 2 ^ 24"
  shows "runs (server_main cr inet sodium_init os memory argv arrivals w) (ends_well (\<lambda>(code, w'). exits code w'))"
  unfolding server_main_def Let_def
proof (rule hosted_init [OF w], goal_cases)
  case (1 w1)
  obtain timeouts ckey cseq where m: "memory = (timeouts, ckey, cseq)" by (cases memory) auto
  have ckey: "length ckey = NETCODE_KEY_BYTES" using mem m by simp
  show ?case
    unfolding m prod.case
  proof (rule runs_then_pair [OF hosted_server_create [OF 1 net ckey]], goal_cases)
    case (1 r w2)
    show ?case
    proof (cases r)
      case (Some x)
      then obtain p s where r: "r = Some (p, s)" by (cases x) auto
      with 1 have h: "hosted 1 0 0 (only (p, s)) (\<lambda>_. None) w2" by blast
      show ?thesis
        unfolding r option.case prod.case
      proof (rule runs_then_pair [OF hosted_start [OF laws h]], simp, simp, simp, elim conjE, goal_cases)
        case (1 s1 w3)
        have loop: "runs (server_main_loop cr arrivals 0 (s1, w3))
            (ends_well (\<lambda>(s', w'). \<exists>n' t'. hosted n' t' 0 (only (p, s')) (\<lambda>_. None) w'))"
          by (rule runs_server_main_loop [OF laws 1(1)]) (use arrivals 1(2,3) in simp_all)
        show ?case
        proof (rule runs_and_then_pair [OF loop], elim exE, goal_cases)
          case (1 s2 w4 n t)
          show ?case
            unfolding runs_bind [of "netcode_server_destroy _ _ _ _"]
            by (rule runs_mono [OF hosted_server_destroy [OF laws 1]]) (rule hosted_term)
        qed
      qed
    qed (simp add: exits_def)
  qed
qed (simp add: exits_def)

lemma runs_client_main:
  assumes laws: "aead_laws cr" and net: "inet_ok inet"
    and w: "world_inv False {} w" "\<not> w_initialized w" "unat (w_timestamp w) + 60 < 2 ^ 64"
    and arrivals: "\<forall>a \<in> set arrivals. arrival_ok a" "2 * length arrivals < 2 ^ 24"
  shows "runs (client_main cr inet sodium_init os argv arrivals w) (ends_well (\<lambda>(code, w'). exits code w'))"
  unfolding client_main_def Let_def
proof (rule hosted_init [OF w], goal_cases)
  case (1 w1)
  show ?case
  proof (rule runs_then_pair [OF hosted_client_create [OF 1 net]], goal_cases)
    case (1 r w2)
    show ?case
    proof (cases r)
      case (Some x)
      then obtain p c where r: "r = Some (p, c)" by (cases x) auto
      with 1 have h: "hosted 1 0 0 (\<lambda>_. None) (only (p, c)) w2" by blast
      obtain bs m where rnd: "netcode_random_bytes 8 w2 = (bs, w2\<lparr>w_random_next := m\<rparr>)" by (simp add: netcode_random_bytes_def)
      show ?thesis
        unfolding r option.case prod.case rnd
      proof (rule runs_then_pair [OF hosted_token [OF laws net hosted_random [OF h]]], elim conjE, goal_cases)
        case (1 q w3)
        show ?case
        proof (cases q)
          case (NETCODE_OK token)
          with 1(2) have len: "length token = NETCODE_CONNECT_TOKEN_BYTES" by blast
          show ?thesis
            unfolding NETCODE_OK c_result.case
          proof (rule runs_then_pair [OF hosted_connect [OF laws 1(1) len]], goal_cases)
            case (1 c1 w4)
            have short: "0 + 2 * length arrivals < 2 ^ 24" using arrivals(2) by simp
            show ?case
            proof (rule runs_and_then_pair [OF runs_client_main_loop [OF laws 1 short arrivals(1)]], elim exE, goal_cases)
              case (1 c2 w5 k)
              show ?case
                unfolding runs_bind [of "netcode_client_destroy _ _ _ _"]
                by (rule runs_mono [OF hosted_client_destroy [OF laws 1]]) (rule hosted_term)
            qed
          qed
        qed (simp add: exits_def)
      qed
    qed (simp add: exits_def)
  qed
qed (simp add: exits_def)

lemma runs_client_server_main:
  assumes laws: "aead_laws cr" and net: "inet_ok inet" and mem: "length (fst (snd memory)) = NETCODE_KEY_BYTES"
    and w: "world_inv False {} w" "\<not> w_initialized w" "unat (w_timestamp w) + 60 < 2 ^ 64"
    and arrivals: "\<forall>(a, b) \<in> set arrivals. arrival_ok a \<and> arrival_ok b" "1 + 3 * length arrivals < 2 ^ 24"
  shows "runs (client_server_main cr inet sodium_init client_os server_os memory arrivals w) (ends_well (\<lambda>(code, w'). exits code w'))"
  unfolding client_server_main_def Let_def
proof (rule hosted_init [OF w], goal_cases)
  case (1 w1)
  obtain timeouts ckey cseq where m: "memory = (timeouts, ckey, cseq)" by (cases memory) auto
  have ckey: "length ckey = NETCODE_KEY_BYTES" using mem m by simp
  show ?case
  proof (rule runs_then_pair [OF hosted_client_create [OF 1 net]], goal_cases)
    case (1 r w2)
    show ?case
    proof (cases r)
      case (Some x)
      then obtain q c where r: "r = Some (q, c)" by (cases x) auto
      with 1 have h: "hosted 1 0 0 (\<lambda>_. None) (only (q, c)) w2" by blast
      show ?thesis
        unfolding r option.case prod.case m
      proof (rule runs_then_pair [OF hosted_server_create [OF h net ckey]], goal_cases)
        case (1 r w3)
        show ?case
        proof (cases r)
          case (Some x)
          then obtain p s where r: "r = Some (p, s)" by (cases x) auto
          with 1 have h: "hosted 1 0 0 (only (p, s)) (only (q, c)) w3" by blast
          show ?thesis
            unfolding r option.case prod.case
          proof (rule runs_then_pair [OF hosted_start [OF laws h]], simp, simp, simp, elim conjE, goal_cases)
            case up: (1 s1 w4)
            obtain bs m where rnd: "netcode_random_bytes 8 w4 = (bs, w4\<lparr>w_random_next := m\<rparr>)" by (simp add: netcode_random_bytes_def)
            show ?case
              unfolding rnd prod.case
            proof (rule runs_then_pair [OF hosted_token [OF laws net hosted_random [OF up(1)]]], elim conjE, goal_cases)
              case (1 r w5)
              show ?case
              proof (cases r)
                case (NETCODE_OK token)
                with 1(2) have len: "length token = NETCODE_CONNECT_TOKEN_BYTES" by blast
                show ?thesis
                  unfolding NETCODE_OK c_result.case
                proof (rule runs_then_pair [OF hosted_connect [OF laws 1(1) len]], goal_cases)
                  case (1 c1 w6)
                  have loop: "runs (client_server_loop cr arrivals 0 (0, 0, c1, s1, w6)) (ends_well (\<lambda>(x', y', c', s', w').
                      \<exists>n' t' k'. hosted n' t' k' (only (p, s')) (only (q, c')) w'))"
                    by (rule runs_client_server_loop [OF laws 1]) (use arrivals up in auto)
                  show ?case
                  proof (rule runs_and_then [OF loop], elim case_prodE exE, hypsubst, unfold prod.case, goal_cases)
                    case (1 x y z c2 z2 s2 w7 n t k)
                    show ?case
                      unfolding runs_bind [of "netcode_server_destroy _ _ _ _"] runs_bind [of "netcode_client_destroy _ _ _ _"]
                      by (rule runs_mono [OF hosted_server_destroy [OF laws 1]], rule runs_mono [OF hosted_client_destroy [OF laws]],
                          assumption) (rule hosted_term)
                  qed
                qed
              qed (simp add: exits_def)
            qed
          qed
        qed (simp add: exits_def)
      qed
    qed (simp add: exits_def)
  qed
qed (simp add: exits_def)

section \<open>No abort\<close>

text \<open>C24: whatever datagrams arrive, none of the programs \<^verbatim>\<open>server.c\<close>, \<^verbatim>\<open>client.c\<close> and
  \<^verbatim>\<open>client_server.c\<close> aborts inside the library within its first rounds (some five million and a half); each stops at an
  assertion of its own, or exits with 1, or destroys its client and server without harm, shuts the library down and exits with 0.\<close>

theorem example_programs_never_abort:
  assumes "aead_laws cr" and "inet_ok inet" and "length (fst (snd memory)) = NETCODE_KEY_BYTES"
    and "world_inv False {} w" and "\<not> w_initialized w" and "unat (w_timestamp w) + 60 < 2 ^ 64"
    and "\<forall>(a, b) \<in> set arrivals. arrival_ok a \<and> arrival_ok b" and "1 + 3 * length arrivals < 2 ^ 24"
  shows "runs (server_main cr inet sodium_init os memory argv (map fst arrivals) w) (ends_well (\<lambda>(code, w'). exits code w'))
    \<and> runs (client_main cr inet sodium_init os argv (map fst arrivals) w) (ends_well (\<lambda>(code, w'). exits code w'))
    \<and> runs (client_server_main cr inet sodium_init os server_os memory arrivals w) (ends_well (\<lambda>(code, w'). exits code w'))"
proof (intro conjI)
  have ok: "\<forall>a \<in> set (map fst arrivals). arrival_ok a" using assms(7) by auto
  show "runs (server_main cr inet sodium_init os memory argv (map fst arrivals) w) (ends_well (\<lambda>(code, w'). exits code w'))"
    by (rule runs_server_main [OF assms(1-6) ok]) (use assms(8) in simp)
  show "runs (client_main cr inet sodium_init os argv (map fst arrivals) w) (ends_well (\<lambda>(code, w'). exits code w'))"
    by (rule runs_client_main [OF assms(1,2,4-6) ok]) (use assms(8) in simp)
qed (rule runs_client_server_main [OF assms])

theorem example_programs_never_abort_witness:
  "runs (server_main clear_crypto local_inet 0 example_os (\<lambda>_. 0, replicate 32 0, 0) [''server''] [(100, [(3, SOCKADDR_IN (s_addr_of [127, 0, 0, 1]) 50000, [0, 1])])]
      fresh_world) (ends_well (\<lambda>(code, w'). exits code w'))"
  using example_programs_never_abort [OF clear_crypto_laws local_inet_ok _ fresh_world_ok,
      where memory = "(\<lambda>_. 0, replicate 32 0, 0)" and arrivals = "[((100, [(3, SOCKADDR_IN (s_addr_of [127, 0, 0, 1]) 50000, [0, 1])]), (101, []))]"
        and os = example_os and sodium_init = 0 and argv = "[''server'']"]
  by (simp add: arrival_ok_def)

end
