(* ===== verification/Soak.thy ===== *)
theory Soak
  imports Process
begin

text \<open>
  The programs \<^verbatim>\<open>soak.c\<close> and \<^verbatim>\<open>profile.c\<close>: many servers and clients in one process. \<^verbatim>\<open>soak.c\<close> creates, starts,
  stops, connects, disconnects and destroys them at random. The random numbers, what the operating system answers to the creation of
  sockets, the contents of fresh memory, and the datagrams that have arrived when an update is called are streams that the program
  reads on. The strings that \<^verbatim>\<open>soak.c\<close> keeps in blocks of its own while it makes a connect token are values here; only
  whether \<^verbatim>\<open>malloc\<close> finds a block for them is kept.
\<close>

section \<open>State\<close>

record surroundings =
  su_inet :: inet
  su_rand :: "nat \<Rightarrow> nat"
  su_os :: "nat \<Rightarrow> os_calls"
  su_memory :: "nat \<Rightarrow> server_memory"
  su_malloc :: "nat \<Rightarrow> bool"
  su_arrivals :: "nat \<Rightarrow> arrival"

record soak =
  sk_server :: server_array
  sk_client :: client_array
  sk_private_key :: bytes
  sk_world :: world
  sk_rand_next :: nat
  sk_create_next :: nat
  sk_malloc_next :: nat
  sk_update_next :: nat

abbreviation (input) MAX_SERVERS :: nat where "MAX_SERVERS \<equiv> 64"
abbreviation (input) MAX_CLIENTS :: nat where "MAX_CLIENTS \<equiv> 1024"
abbreviation (input) SERVER_BASE_PORT :: nat where "SERVER_BASE_PORT \<equiv> 40000"
abbreviation (input) CONNECT_TOKEN_EXPIRY :: int where "CONNECT_TOKEN_EXPIRY \<equiv> 45"
abbreviation (input) CONNECT_TOKEN_TIMEOUT :: int where "CONNECT_TOKEN_TIMEOUT \<equiv> 5"
abbreviation (input) PROTOCOL_ID :: u64 where "PROTOCOL_ID \<equiv> 0x1122334455667788"

definition random_int :: "surroundings \<Rightarrow> nat \<Rightarrow> nat \<Rightarrow> soak \<Rightarrow> (nat \<times> soak) program option" where
  "random_int su a b st =
     (if \<not> a < b then Some Fails
      else let result = a + su_rand su (sk_rand_next st) mod (b - a + 1) in
        if \<not> (result \<ge> a \<and> result \<le> b) then Some Fails
        else Some (Runs (result, st\<lparr>sk_rand_next := sk_rand_next st + 1\<rparr>)))"

text \<open>What the pointers \<^verbatim>\<open>server[i]\<close> and \<^verbatim>\<open>client[i]\<close> point to, and a call of the library on it.\<close>

definition server_at :: "soak \<Rightarrow> nat \<Rightarrow> netcode_server" where
  "server_at st i = snd (the (sk_server st i))"

definition client_at :: "soak \<Rightarrow> nat \<Rightarrow> netcode_client" where
  "client_at st i = snd (the (sk_client st i))"

definition on_server ::
    "nat \<Rightarrow> (netcode_server \<Rightarrow> world \<Rightarrow> (netcode_server \<times> world) option) \<Rightarrow> soak \<Rightarrow> soak program option" where
  "on_server i call st =
     do { (ptr, server) \<leftarrow> sk_server st i;
          (server, w) \<leftarrow> call server (sk_world st);
          Some (Runs (st\<lparr>sk_server := (sk_server st)(i \<mapsto> (ptr, server)), sk_world := w\<rparr>)) }"

definition on_client ::
    "nat \<Rightarrow> (netcode_client \<Rightarrow> world \<Rightarrow> (netcode_client \<times> world) option) \<Rightarrow> soak \<Rightarrow> soak program option" where
  "on_client i call st =
     do { (ptr, client) \<leftarrow> sk_client st i;
          (client, w) \<leftarrow> call client (sk_world st);
          Some (Runs (st\<lparr>sk_client := (sk_client st)(i \<mapsto> (ptr, client)), sk_world := w\<rparr>)) }"

definition next_arrival :: "surroundings \<Rightarrow> soak \<Rightarrow> soak" where
  "next_arrival su st = st\<lparr>sk_world := arrive (su_arrivals su (sk_update_next st)) (sk_world st),
     sk_update_next := sk_update_next st + 1\<rparr>"

section \<open>Start and end\<close>

text \<open>\<^verbatim>\<open>netcode_init\<close> is called without a look at its result.\<close>

definition soak_initialize :: "int \<Rightarrow> world \<Rightarrow> soak option" where
  "soak_initialize sodium_init w =
     do { (_, w) \<leftarrow> netcode_init sodium_init w;
          let (private_key, w) = netcode_random_bytes NETCODE_KEY_BYTES w;
          Some \<lparr>sk_server = (\<lambda>_. None), sk_client = (\<lambda>_. None), sk_private_key = private_key, sk_world = w,
                sk_rand_next = 0, sk_create_next = 0, sk_malloc_next = 0, sk_update_next = 0\<rparr> }"

definition destroy_server :: "crypto \<Rightarrow> nat \<Rightarrow> soak \<Rightarrow> soak program option" where
  "destroy_server cr i st =
     do { (ptr, server) \<leftarrow> sk_server st i;
          w \<leftarrow> netcode_server_destroy cr ptr server (sk_world st);
          Some (Runs (st\<lparr>sk_server := (sk_server st)(i := None), sk_world := w\<rparr>)) }"

definition destroy_client :: "crypto \<Rightarrow> nat \<Rightarrow> soak \<Rightarrow> soak program option" where
  "destroy_client cr i st =
     do { (ptr, client) \<leftarrow> sk_client st i;
          w \<leftarrow> netcode_client_destroy cr ptr client (sk_world st);
          Some (Runs (st\<lparr>sk_client := (sk_client st)(i := None), sk_world := w\<rparr>)) }"

definition soak_shutdown :: "nat \<Rightarrow> nat \<Rightarrow> crypto \<Rightarrow> soak \<Rightarrow> world program option" where
  "soak_shutdown max_servers max_clients cr st =
     and_then (for_each (\<lambda>i st. if sk_server st i \<noteq> None then destroy_server cr i st else Some (Runs st)) [0..<max_servers] st)
    (\<lambda>st. and_then (for_each (\<lambda>i st. if sk_client st i \<noteq> None then destroy_client cr i st else Some (Runs st)) [0..<max_clients] st)
    (\<lambda>st. do { w \<leftarrow> netcode_term (sk_world st); Some (Runs w) }))"

section \<open>Creation\<close>

definition server_address :: "nat \<Rightarrow> string" where
  "server_address i = ''127.0.0.1:'' @ decimal (SERVER_BASE_PORT + i)"

definition create_server :: "surroundings \<Rightarrow> dbl \<Rightarrow> nat \<Rightarrow> soak \<Rightarrow> soak program option" where
  "create_server su time i st =
     (let (timeouts, challenge_key, challenge_sequence) = su_memory su (sk_create_next st) in
      do { (server, w) \<leftarrow> netcode_server_create (su_inet su) (su_os su (sk_create_next st)) timeouts challenge_key challenge_sequence
                           (server_address i) PROTOCOL_ID (sk_private_key st) time (sk_world st);
           Some (Runs (st\<lparr>sk_server := (sk_server st)(i := server), sk_world := w, sk_create_next := sk_create_next st + 1\<rparr>)) })"

definition create_client :: "surroundings \<Rightarrow> dbl \<Rightarrow> nat \<Rightarrow> soak \<Rightarrow> soak program option" where
  "create_client su time i st =
     do { (client, w) \<leftarrow> netcode_client_create (su_inet su) (su_os su (sk_create_next st)) ''0.0.0.0'' time (sk_world st);
          Some (Runs (st\<lparr>sk_client := (sk_client st)(i := client), sk_world := w, sk_create_next := sk_create_next st + 1\<rparr>)) }"

text \<open>\<^verbatim>\<open>condition && random_int( 0, k ) == 0\<close>: the random number is drawn only if the condition holds.\<close>

definition and_one_in :: "surroundings \<Rightarrow> bool \<Rightarrow> nat \<Rightarrow> soak \<Rightarrow> (bool \<times> soak) program option" where
  "and_one_in su condition k st =
     (if \<not> condition then Some (Runs (False, st))
      else and_then (random_int su 0 k st) (\<lambda>(r, st). Some (Runs (r = 0, st))))"

definition soak_server_slot :: "crypto \<Rightarrow> surroundings \<Rightarrow> dbl \<Rightarrow> nat \<Rightarrow> soak \<Rightarrow> soak program option" where
  "soak_server_slot cr su time i st =
     and_then (and_one_in su (sk_server st i = None) 10 st) (\<lambda>(create, st).
     and_then (if create then create_server su time i st else Some (Runs st)) (\<lambda>st.
     and_then (and_one_in su (sk_server st i \<noteq> None
                 \<and> netcode_server_num_connected_clients (server_at st i) = int (netcode_server_max_clients (server_at st i))) 10000 st)
       (\<lambda>(destroy, st). if destroy then destroy_server cr i st else Some (Runs st))))"

definition soak_client_slot :: "crypto \<Rightarrow> surroundings \<Rightarrow> dbl \<Rightarrow> nat \<Rightarrow> soak \<Rightarrow> soak program option" where
  "soak_client_slot cr su time i st =
     and_then (and_one_in su (sk_client st i = None) 10 st) (\<lambda>(create, st).
     and_then (if create then create_client su time i st else Some (Runs st)) (\<lambda>st.
     and_then (and_one_in su (sk_client st i \<noteq> None) 1000 st)
       (\<lambda>(destroy, st). if destroy then destroy_client cr i st else Some (Runs st))))"

section \<open>Servers\<close>

text \<open>One packet for every client that is connected, all of them to client 0, of a length that \<open>len\<close> chooses.\<close>

definition send_to_clients ::
    "crypto \<Rightarrow> (soak \<Rightarrow> (nat \<times> soak) program option) \<Rightarrow> nat \<Rightarrow> nat \<Rightarrow> soak \<Rightarrow> soak program option" where
  "send_to_clients cr len max_clients i st =
     for_each (\<lambda>client_index st.
         if netcode_server_client_connected (server_at st i) (int client_index)
         then and_then (len st) (\<lambda>(n, st).
                on_server i (\<lambda>server w. netcode_server_send_packet cr server 0 (take n packet_data) w) st)
         else Some (Runs st)) [0..<max_clients] st"

definition read_from_clients :: "nat \<Rightarrow> nat \<Rightarrow> soak \<Rightarrow> soak program option" where
  "read_from_clients max_clients i st =
     for_each (\<lambda>client_index st.
         if netcode_server_client_connected (server_at st i) (int client_index)
         then do { (ptr, server) \<leftarrow> sk_server st i;
                   and_then (server_read_loop packet_prefix read_rounds (int client_index) (0, server, sk_world st))
                     (\<lambda>(_, server, w). Some (Runs (st\<lparr>sk_server := (sk_server st)(i \<mapsto> (ptr, server)), sk_world := w\<rparr>))) }
         else Some (Runs st)) [0..<max_clients] st"

definition random_length :: "surroundings \<Rightarrow> soak \<Rightarrow> (nat \<times> soak) program option" where
  "random_length su st = random_int su 1 NETCODE_MAX_PACKET_SIZE st"

definition start_server :: "crypto \<Rightarrow> surroundings \<Rightarrow> nat \<Rightarrow> soak \<Rightarrow> soak program option" where
  "start_server cr su i st =
     and_then (random_int su 1 NETCODE_MAX_CLIENTS st) (\<lambda>(max_clients, st).
       on_server i (\<lambda>server w. netcode_server_start cr server max_clients w) st)"

definition soak_server_step :: "crypto \<Rightarrow> surroundings \<Rightarrow> dbl \<Rightarrow> nat \<Rightarrow> soak \<Rightarrow> soak program option" where
  "soak_server_step cr su time i st =
     (if sk_server st i = None then Some (Runs st)
      else
        and_then (random_int su 0 10 st) (\<lambda>(r, st).
        and_then (if r = 0 \<and> \<not> netcode_server_running (server_at st i) then start_server cr su i st else Some (Runs st)) (\<lambda>st.
        and_then (random_int su 0 1000 st) (\<lambda>(r, st).
        and_then (if r = 0 \<and> netcode_server_num_connected_clients (server_at st i) = int (netcode_server_max_clients (server_at st i))
                    \<and> netcode_server_running (server_at st i)
                  then on_server i (netcode_server_stop cr) st else Some (Runs st)) (\<lambda>st.
        and_then (if netcode_server_running (server_at st i)
                  then let max_clients = netcode_server_max_clients (server_at st i) in
                    and_then (send_to_clients cr (random_length su) max_clients i st) (read_from_clients max_clients i)
                  else Some (Runs st)) (\<lambda>st.
        on_server i (netcode_server_update cr time) (next_arrival su st)))))))"

section \<open>Clients\<close>

text \<open>The addresses of the servers that run, at most 32, each in a string of its own.\<close>

fun running_servers :: "surroundings \<Rightarrow> nat list \<Rightarrow> string list \<times> soak \<Rightarrow> (string list \<times> soak) program option" where
  "running_servers su [] (names, st) = Some (Runs (names, st))"
| "running_servers su (j # js) (names, st) =
     (if length names = NETCODE_MAX_SERVERS_PER_CONNECT then Some (Runs (names, st))
      else if sk_server st j \<noteq> None \<and> netcode_server_running (server_at st j)
      then if \<not> su_malloc su (sk_malloc_next st) then Some Fails
        else running_servers su js (names @ [server_address j], st\<lparr>sk_malloc_next := sk_malloc_next st + 1\<rparr>)
      else running_servers su js (names, st))"

definition connect_client :: "crypto \<Rightarrow> surroundings \<Rightarrow> nat \<Rightarrow> nat \<Rightarrow> soak \<Rightarrow> soak program option" where
  "connect_client cr su max_servers i st =
     (let (memory, w) = netcode_random_bytes 8 (sk_world st);
          client_id = u64_of_memory memory
      in and_then (running_servers su [0..<max_servers] ([], st\<lparr>sk_world := w\<rparr>)) (\<lambda>(names, st).
         if \<not> length names > 0 then Some (Runs st)
         else do {
           (r, w) \<leftarrow> netcode_generate_connect_token cr (su_inet su) names CONNECT_TOKEN_EXPIRY CONNECT_TOKEN_TIMEOUT client_id
                     PROTOCOL_ID 0 (sk_private_key st) (sk_world st);
           let st = st\<lparr>sk_world := w\<rparr>;
           (case r of
              NETCODE_ERROR \<Rightarrow> Some (Runs st)
            | NETCODE_OK connect_token \<Rightarrow> on_client i (\<lambda>client w. netcode_client_connect cr client connect_token w) st) }))"

definition client_exchange :: "crypto \<Rightarrow> (soak \<Rightarrow> (nat \<times> soak) program option) \<Rightarrow> nat \<Rightarrow> soak \<Rightarrow> soak program option" where
  "client_exchange cr len i st =
     and_then (len st) (\<lambda>(n, st).
     and_then (on_client i (\<lambda>client w. netcode_client_send_packet cr client (take n packet_data) w) st) (\<lambda>st.
     do { (ptr, client) \<leftarrow> sk_client st i;
          and_then (client_read_loop packet_prefix read_rounds (0, client, sk_world st))
            (\<lambda>(_, client, w). Some (Runs (st\<lparr>sk_client := (sk_client st)(i \<mapsto> (ptr, client)), sk_world := w\<rparr>))) }))"

definition soak_client_step :: "crypto \<Rightarrow> surroundings \<Rightarrow> dbl \<Rightarrow> nat \<Rightarrow> soak \<Rightarrow> soak program option" where
  "soak_client_step cr su time i st =
     (if sk_client st i = None then Some (Runs st)
      else
        and_then (random_int su 0 10 st) (\<lambda>(r, st).
        and_then (if r = 0 \<and> netcode_client_state (client_at st i) \<le> NETCODE_CLIENT_STATE_DISCONNECTED
                  then connect_client cr su MAX_SERVERS i st else Some (Runs st)) (\<lambda>st.
        and_then (random_int su 0 100 st) (\<lambda>(r, st).
        and_then (if r = 0 \<and> netcode_client_state (client_at st i) = NETCODE_CLIENT_STATE_CONNECTED
                  then on_client i (netcode_client_disconnect cr) st else Some (Runs st)) (\<lambda>st.
        and_then (if netcode_client_state (client_at st i) = NETCODE_CLIENT_STATE_CONNECTED
                  then client_exchange cr (random_length su) i st else Some (Runs st)) (\<lambda>st.
        on_client i (netcode_client_update cr time) (next_arrival su st)))))))"

section \<open>The programs\<close>

definition soak_iteration :: "crypto \<Rightarrow> surroundings \<Rightarrow> dbl \<Rightarrow> soak \<Rightarrow> soak program option" where
  "soak_iteration cr su time st =
     and_then (for_each (soak_server_slot cr su time) [0..<MAX_SERVERS] st) (\<lambda>st.
     and_then (for_each (soak_client_slot cr su time) [0..<MAX_CLIENTS] st) (\<lambda>st.
     and_then (for_each (soak_server_step cr su time) [0..<MAX_SERVERS] st)
       (for_each (soak_client_step cr su time) [0..<MAX_CLIENTS])))"

fun iterations :: "(dbl \<Rightarrow> soak \<Rightarrow> soak program option) \<Rightarrow> nat \<Rightarrow> dbl \<Rightarrow> soak \<Rightarrow> soak program option" where
  "iterations body 0 time st = Some (Runs st)"
| "iterations body (Suc k) time st = and_then (body time st) (iterations body k (time + 1 / 10))"

text \<open>\<open>rounds\<close> is the number of rounds that have begun when \<^verbatim>\<open>quit\<close> is set.\<close>

definition rounds_run :: "int \<Rightarrow> nat \<Rightarrow> nat" where
  "rounds_run num_iterations rounds = (if num_iterations > 0 then min (nat num_iterations) rounds else rounds)"

definition soak_main :: "crypto \<Rightarrow> surroundings \<Rightarrow> int \<Rightarrow> string list \<Rightarrow> nat \<Rightarrow> world \<Rightarrow> (int \<times> world) program option" where
  "soak_main cr su sodium_init argv rounds w =
     do { let num_iterations = (if length argv = 2 then atoi (argv ! 1) else - 1);
          st \<leftarrow> soak_initialize sodium_init w;
          and_then (iterations (soak_iteration cr su) (rounds_run num_iterations rounds) 0 st) (\<lambda>st.
          and_then (soak_shutdown MAX_SERVERS MAX_CLIENTS cr st) (\<lambda>w. Some (Runs (0, w)))) }"

section \<open>The profile program\<close>

abbreviation (input) PROFILE_SERVERS :: nat where "PROFILE_SERVERS \<equiv> NETCODE_MAX_SERVERS_PER_CONNECT"
abbreviation (input) PROFILE_CLIENTS :: nat where "PROFILE_CLIENTS \<equiv> PROFILE_SERVERS * NETCODE_MAX_CLIENTS"

text \<open>It starts with all its servers and clients, and its payloads have the largest size.\<close>

definition profile_initialize :: "surroundings \<Rightarrow> int \<Rightarrow> world \<Rightarrow> soak program option" where
  "profile_initialize su sodium_init w =
     do { st \<leftarrow> soak_initialize sodium_init w;
          and_then (for_each (create_server su 0) [0..<PROFILE_SERVERS] st)
            (for_each (create_client su 0) [0..<PROFILE_CLIENTS]) }"

definition full_length :: "soak \<Rightarrow> (nat \<times> soak) program option" where
  "full_length st = Some (Runs (NETCODE_MAX_PACKET_SIZE, st))"

definition profile_server_step :: "crypto \<Rightarrow> surroundings \<Rightarrow> dbl \<Rightarrow> nat \<Rightarrow> soak \<Rightarrow> soak program option" where
  "profile_server_step cr su time i st =
     (if sk_server st i = None then Some (Runs st)
      else
        and_then (if \<not> netcode_server_running (server_at st i) then start_server cr su i st else Some (Runs st)) (\<lambda>st.
        and_then (if netcode_server_running (server_at st i)
                  then let max_clients = netcode_server_max_clients (server_at st i) in
                    and_then (send_to_clients cr full_length max_clients i st) (read_from_clients max_clients i)
                  else Some (Runs st)) (\<lambda>st.
        on_server i (netcode_server_update cr time) (next_arrival su st))))"

definition profile_client_step :: "crypto \<Rightarrow> surroundings \<Rightarrow> dbl \<Rightarrow> nat \<Rightarrow> soak \<Rightarrow> soak program option" where
  "profile_client_step cr su time i st =
     (if sk_client st i = None then Some (Runs st)
      else
        and_then (if netcode_client_state (client_at st i) \<le> NETCODE_CLIENT_STATE_DISCONNECTED
                  then connect_client cr su PROFILE_SERVERS i st else Some (Runs st)) (\<lambda>st.
        and_then (if netcode_client_state (client_at st i) = NETCODE_CLIENT_STATE_CONNECTED
                  then client_exchange cr full_length i st else Some (Runs st)) (\<lambda>st.
        on_client i (netcode_client_update cr time) (next_arrival su st))))"

definition profile_iteration :: "crypto \<Rightarrow> surroundings \<Rightarrow> dbl \<Rightarrow> soak \<Rightarrow> soak program option" where
  "profile_iteration cr su time st =
     and_then (for_each (profile_server_step cr su time) [0..<PROFILE_SERVERS] st)
       (for_each (profile_client_step cr su time) [0..<PROFILE_CLIENTS])"

definition profile_main :: "crypto \<Rightarrow> surroundings \<Rightarrow> int \<Rightarrow> string list \<Rightarrow> nat \<Rightarrow> world \<Rightarrow> (int \<times> world) program option" where
  "profile_main cr su sodium_init argv rounds w =
     (let num_iterations = (if length argv = 2 then atoi (argv ! 1) else 100) in
      and_then (profile_initialize su sodium_init w) (\<lambda>st.
      and_then (iterations (profile_iteration cr su) (rounds_run num_iterations rounds) 0 st) (\<lambda>st.
      and_then (soak_shutdown PROFILE_SERVERS PROFILE_CLIENTS cr st) (\<lambda>w. Some (Runs (0, w))))))"

section \<open>What holds in every round\<close>

definition su_ok :: "surroundings \<Rightarrow> bool" where
  "su_ok su \<longleftrightarrow> inet_ok (su_inet su) \<and> (\<forall>k. length (fst (snd (su_memory su k))) = NETCODE_KEY_BYTES)
     \<and> (\<forall>k. arrival_ok (su_arrivals su k))"

text \<open>\<open>m\<close> is the number of slots for servers.\<close>

definition soak_ok :: "nat \<Rightarrow> (nat \<Rightarrow> netcode_server \<Rightarrow> bool) \<Rightarrow> (nat \<Rightarrow> netcode_client \<Rightarrow> bool) \<Rightarrow> soak \<Rightarrow> bool" where
  "soak_ok m P Q st \<longleftrightarrow> process P Q (sk_server st) (sk_client st) (sk_world st)
     \<and> length (sk_private_key st) = NETCODE_KEY_BYTES \<and> (\<forall>j \<ge> m. sk_server st j = None)"

lemma soak_ok_mono:
  assumes "soak_ok m P Q st"
    and "\<And>i s. i < m \<Longrightarrow> P i s \<Longrightarrow> P' i s" and "\<And>i c. Q i c \<Longrightarrow> Q' i c"
  shows "soak_ok m P' Q' st"
proof -
  have "process P' Q' (sk_server st) (sk_client st) (sk_world st)"
    using assms unfolding soak_ok_def by (elim conjE process_mono) (metis leI option.distinct(1))+
  with assms(1) show ?thesis by (simp add: soak_ok_def)
qed

lemma soak_ok_counters [simp]:
  "soak_ok m P Q (st\<lparr>sk_rand_next := n\<rparr>) = soak_ok m P Q st"
  "soak_ok m P Q (st\<lparr>sk_create_next := n\<rparr>) = soak_ok m P Q st"
  "soak_ok m P Q (st\<lparr>sk_malloc_next := n\<rparr>) = soak_ok m P Q st"
  "soak_ok m P Q (st\<lparr>sk_update_next := n\<rparr>) = soak_ok m P Q st"
  by (simp_all add: soak_ok_def)

lemma soak_ok_arrival: "su_ok su \<Longrightarrow> soak_ok m P Q st \<Longrightarrow> soak_ok m P Q (next_arrival su st)"
  by (simp add: soak_ok_def next_arrival_def su_ok_def process_arrive)

text \<open>The server, or the client, that a round works on.\<close>

definition at_server ::
    "nat \<Rightarrow> (nat \<Rightarrow> netcode_server \<Rightarrow> bool) \<Rightarrow> (nat \<Rightarrow> netcode_client \<Rightarrow> bool) \<Rightarrow> nat \<Rightarrow> nat \<Rightarrow> dbl \<Rightarrow>
     (netcode_server \<Rightarrow> bool) \<Rightarrow> soak \<Rightarrow> bool" where
  "at_server m P Q i n t R st \<longleftrightarrow> soak_ok m (P(i := server_driven n t)) Q st \<and> (\<exists>p s. sk_server st i = Some (p, s) \<and> R s)"

definition at_client ::
    "nat \<Rightarrow> (nat \<Rightarrow> netcode_server \<Rightarrow> bool) \<Rightarrow> (nat \<Rightarrow> netcode_client \<Rightarrow> bool) \<Rightarrow> nat \<Rightarrow> nat \<Rightarrow> soak \<Rightarrow> bool" where
  "at_client m P Q i k st \<longleftrightarrow> soak_ok m P (Q(i := client_driven k)) st \<and> sk_client st i \<noteq> None"

lemma at_server_weaken: "at_server m P Q i n t R st \<Longrightarrow> (\<And>s. R s \<Longrightarrow> R' s) \<Longrightarrow> at_server m P Q i n t R' st"
  unfolding at_server_def by blast

lemma at_server_more: "at_server m P Q i n t R st \<Longrightarrow> n \<le> n' \<Longrightarrow> at_server m P Q i n' t R st"
  unfolding at_server_def by (auto elim!: soak_ok_mono split: if_splits intro: server_driven_mono)

lemma at_client_more: "at_client m P Q i k st \<Longrightarrow> k \<le> k' \<Longrightarrow> at_client m P Q i k' st"
  unfolding at_client_def by (auto elim!: soak_ok_mono split: if_splits intro: client_driven_mono)

lemma at_server_arrival: "su_ok su \<Longrightarrow> at_server m P Q i n t R st \<Longrightarrow> at_server m P Q i n t R (next_arrival su st)"
  by (auto simp: at_server_def soak_ok_arrival) (simp add: next_arrival_def)

lemma at_client_arrival: "su_ok su \<Longrightarrow> at_client m P Q i k st \<Longrightarrow> at_client m P Q i k (next_arrival su st)"
  by (auto simp: at_client_def soak_ok_arrival) (simp add: next_arrival_def)

section \<open>Statements\<close>

lemma runs_random:
  assumes "I st" and "\<And>n. I (st\<lparr>sk_rand_next := n\<rparr>) = I st" and "a < b"
  shows "runs (random_int su a b st) (ends_well (\<lambda>(r, st'). I st' \<and> a \<le> r \<and> r \<le> b))"
proof -
  have "su_rand su (sk_rand_next st) mod (b - a + 1) < b - a + 1" by simp
  then have "a + su_rand su (sk_rand_next st) mod (b - a + 1) \<le> b" using assms(3) by linarith
  with assms show ?thesis by (simp add: random_int_def Let_def)
qed

lemma at_counters [simp]:
  "at_server m P Q i n t R (st\<lparr>sk_rand_next := k\<rparr>) = at_server m P Q i n t R st"
  "at_client m P Q i n (st\<lparr>sk_rand_next := k\<rparr>) = at_client m P Q i n st"
  by (simp_all add: at_server_def at_client_def)

lemmas at_server_random = runs_random [where I = "at_server m P Q i n t R" for m P Q i n t R, OF _ at_counters(1)]
lemmas at_client_random = runs_random [where I = "at_client m P Q i n" for m P Q i n, OF _ at_counters(2)]

lemma runs_on_server:
  assumes at: "at_server m P Q i n t R st"
    and call: "\<And>B s. server_inv B s (sk_world st) \<Longrightarrow> server_driven n t s \<Longrightarrow> R s \<Longrightarrow>
      runs (call s (sk_world st)) (\<lambda>x. server_kept_driven B n' t' (sk_world st) x \<and> R' (fst x))"
  shows "runs (on_server i call st) (ends_well (at_server m P Q i n' t' R'))"
proof -
  obtain p s where i: "sk_server st i = Some (p, s)" "R s" using at by (auto simp: at_server_def)
  have pr: "process (P(i := server_driven n t)) Q (sk_server st) (sk_client st) (sk_world st)"
    using at by (simp add: at_server_def soak_ok_def)
  have "server_driven n t s" using process_server(2) [OF pr i(1)] by simp
  from runs_process_server [OF pr i(1) call [OF _ this i(2)]] i at show ?thesis
    by (auto simp: on_server_def runs_simps at_server_def soak_ok_def elim!: runs_mono)
qed

lemma runs_on_client:
  assumes at: "at_client m P Q i k st"
    and call: "\<And>B c. client_inv B c (sk_world st) \<Longrightarrow> client_driven k c \<Longrightarrow>
      runs (call c (sk_world st)) (client_kept_driven B k' (sk_world st))"
  shows "runs (on_client i call st) (ends_well (at_client m P Q i k'))"
proof -
  obtain p c where i: "sk_client st i = Some (p, c)" using at by (auto simp: at_client_def)
  have pr: "process P (Q(i := client_driven k)) (sk_server st) (sk_client st) (sk_world st)"
    using at by (simp add: at_client_def soak_ok_def)
  have "client_driven k c" using process_client(2) [OF pr i] by simp
  from runs_process_client [OF pr i call [OF _ this]] i at show ?thesis
    by (auto simp: on_client_def runs_simps at_client_def soak_ok_def elim!: runs_mono)
qed

section \<open>Servers, step by step\<close>

lemma at_serverD: "at_server m P Q i n t R st \<Longrightarrow> R (server_at st i)"
  by (auto simp: at_server_def server_at_def)

text \<open>The condition that the code tests holds of the server from then on, where \<open>R\<close> allows it.\<close>

lemma at_server_and: "at_server m P Q i n t R st \<Longrightarrow> R' (server_at st i) \<Longrightarrow> at_server m P Q i n t (\<lambda>s. R s \<and> R' s) st"
  by (auto simp: at_server_def server_at_def)

definition len_ok :: "(soak \<Rightarrow> (nat \<times> soak) program option) \<Rightarrow> bool" where
  "len_ok len \<longleftrightarrow>
     (\<forall>m P Q i n t R st. at_server m P Q i n t R st \<longrightarrow>
        runs (len st) (ends_well (\<lambda>(r, st'). at_server m P Q i n t R st' \<and> 1 \<le> r \<and> r \<le> NETCODE_MAX_PACKET_SIZE)))
     \<and> (\<forall>m P Q i k st. at_client m P Q i k st \<longrightarrow>
        runs (len st) (ends_well (\<lambda>(r, st'). at_client m P Q i k st' \<and> 1 \<le> r \<and> r \<le> NETCODE_MAX_PACKET_SIZE)))"

lemma random_length_ok: "len_ok (random_length su)"
  unfolding len_ok_def random_length_def by (auto intro: at_server_random at_client_random)

lemma runs_send_to_clients:
  assumes laws: "aead_laws cr" and len: "len_ok len" and at: "at_server m P Q i n t (server_up k) st" and n: "n + 2 * k + 1 < 2 ^ 24"
  shows "runs (send_to_clients cr len k i st) (ends_well (at_server m P Q i (n + 2 * k) t (server_up k)))"
  unfolding send_to_clients_def
proof (rule runs_for_upt [where I = "\<lambda>j. at_server m P Q i (n + 2 * j) t (server_up k)"])
  fix j st assume j: "j < k" and at: "at_server m P Q i (n + 2 * j) t (server_up k) st"
  have more: "at_server m P Q i (n + 2 * Suc j) t (server_up k) st" by (rule at_server_more [OF at]) simp
  have "runs (and_then (len st) (\<lambda>(r, st). on_server i (\<lambda>s w. netcode_server_send_packet cr s 0 (take r packet_data) w) st))
    (ends_well (at_server m P Q i (n + 2 * Suc j) t (server_up k)))"
  proof (rule runs_and_then_pair)
    show "runs (len st) (ends_well (\<lambda>(r, st'). at_server m P Q i (n + 2 * j) t (server_up k) st' \<and> 1 \<le> r \<and> r \<le> NETCODE_MAX_PACKET_SIZE))"
      using len at unfolding len_ok_def by blast
    fix r st' assume r: "at_server m P Q i (n + 2 * j) t (server_up k) st' \<and> 1 \<le> r \<and> r \<le> NETCODE_MAX_PACKET_SIZE"
    show "runs (on_server i (\<lambda>s w. netcode_server_send_packet cr s 0 (take r packet_data) w) st')
        (ends_well (at_server m P Q i (n + 2 * Suc j) t (server_up k)))"
    proof (rule runs_on_server [OF conjunct1 [OF r]])
      fix B s assume s: "server_inv B s (sk_world st')" "server_driven (n + 2 * j) t s" "server_up k s"
      have "runs (netcode_server_send_packet cr s 0 (take r packet_data) (sk_world st'))
        (\<lambda>x. server_kept_driven B (n + 2 * j + 2) t (sk_world st') x \<and> sv_running (fst x) = sv_running s \<and> sv_max_clients (fst x) = sv_max_clients s)"
        by (rule drives_send [OF laws s(1,2)]) (use n j r s(3) in auto)
      then show "runs (netcode_server_send_packet cr s 0 (take r packet_data) (sk_world st'))
        (\<lambda>x. server_kept_driven B (n + 2 * Suc j) t (sk_world st') x \<and> server_up k (fst x))"
        by (rule runs_mono) (use s(3) in simp)
    qed
  qed
  with more show "runs (if netcode_server_client_connected (server_at st i) (int j)
      then and_then (len st) (\<lambda>(r, st). on_server i (\<lambda>s w. netcode_server_send_packet cr s 0 (take r packet_data) w) st)
      else Some (Runs st)) (ends_well (at_server m P Q i (n + 2 * Suc j) t (server_up k)))" by simp
qed (use at in simp)

lemma runs_read_from_clients:
  assumes at: "at_server m P Q i n t (server_up k) st" and n: "1 \<le> n"
  shows "runs (read_from_clients k i st) (ends_well (at_server m P Q i n t (server_up k)))"
  unfolding read_from_clients_def
proof (rule runs_for_upt [where I = "\<lambda>j. at_server m P Q i n t (server_up k)"])
  fix j st assume j: "j < k" and at: "at_server m P Q i n t (server_up k) st"
  obtain p s where i: "sk_server st i = Some (p, s)" and up: "server_up k s" using at by (auto simp: at_server_def)
  have pr: "process (P(i := server_driven n t)) Q (sk_server st) (sk_client st) (sk_world st)"
    using at by (simp add: at_server_def soak_ok_def)
  have driven: "server_driven n t s" using process_server(2) [OF pr i] by simp
  have j': "sv_running s \<longrightarrow> 0 \<le> int j \<and> int j < int (sv_max_clients s)" using j up by simp
  have "runs (and_then (server_read_loop packet_prefix read_rounds (int j) (0, s, sk_world st))
      (\<lambda>(_, server, w). Some (Runs (st\<lparr>sk_server := (sk_server st)(i \<mapsto> (p, server)), sk_world := w\<rparr>))))
    (ends_well (at_server m P Q i n t (server_up k)))"
    by (rule runs_and_then_triple [OF runs_process_server_read [OF pr i driven n j']])
      (use at i up in \<open>auto simp: at_server_def soak_ok_def\<close>)
  with at i show "runs (if netcode_server_client_connected (server_at st i) (int j)
         then do { (ptr, server) \<leftarrow> sk_server st i;
                   and_then (server_read_loop packet_prefix read_rounds (int j) (0, server, sk_world st))
                     (\<lambda>(_, server, w). Some (Runs (st\<lparr>sk_server := (sk_server st)(i \<mapsto> (ptr, server)), sk_world := w\<rparr>))) }
         else Some (Runs st)) (ends_well (at_server m P Q i n t (server_up k)))" by (simp add: runs_simps)
qed (use at in simp)

lemma runs_start_server:
  assumes laws: "aead_laws cr" and at: "at_server m P Q i n t R st" and n: "1 \<le> n"
  shows "runs (start_server cr su i st) (ends_well (at_server m P Q i n t (\<lambda>_. True)))"
  unfolding start_server_def
proof (rule runs_and_then_pair [OF at_server_random [OF at]], simp, elim conjE)
  fix k st' assume k: "1 \<le> k" "k \<le> NETCODE_MAX_CLIENTS" and at': "at_server m P Q i n t R st'"
  have k': "0 < k" using k(1) by simp
  show "runs (on_server i (\<lambda>s w. netcode_server_start cr s k w) st') (ends_well (at_server m P Q i n t (\<lambda>_. True)))"
    by (rule runs_on_server [OF at'], rule runs_mono [OF drives_start [OF laws _ _ n k' k(2)]]) auto
qed

lemma runs_stop_server:
  assumes laws: "aead_laws cr" and at: "at_server m P Q i n t R st" and n: "1 \<le> n"
  shows "runs (on_server i (netcode_server_stop cr) st) (ends_well (at_server m P Q i n t (\<lambda>_. True)))"
  by (rule runs_on_server [OF at], rule runs_mono [OF drives_stop [OF laws _ _ n]]) auto

text \<open>The exchange of payloads and the update, in which the sequence numbers grow.\<close>

lemma runs_server_exchange:
  assumes laws: "aead_laws cr" and len: "len_ok len" and at: "at_server m P Q i n t (\<lambda>_. True) st"
    and n: "1 \<le> n" "n + 513 < 2 ^ 24"
  shows "runs (if netcode_server_running (server_at st i)
      then let max_clients = netcode_server_max_clients (server_at st i) in
        and_then (send_to_clients cr len max_clients i st) (read_from_clients max_clients i)
      else Some (Runs st)) (ends_well (at_server m P Q i (n + 512) t (\<lambda>_. True)))"
proof (cases "netcode_server_running (server_at st i)")
  case True
  let ?k = "netcode_server_max_clients (server_at st i)"
  have up: "at_server m P Q i n t (server_up ?k) st"
    using True at by (auto simp: at_server_def server_at_def netcode_server_running_def netcode_server_max_clients_def)
  obtain p s where i: "sk_server st i = Some (p, s)" using at by (auto simp: at_server_def)
  have "process (P(i := server_driven n t)) Q (sk_server st) (sk_client st) (sk_world st)"
    using at by (simp add: at_server_def soak_ok_def)
  from server_inv_ok [OF process_server(1) [OF this i]] i have k: "?k \<le> 256"
    by (simp add: server_ok_def slots_ok_def server_at_def netcode_server_max_clients_def)
  have "runs (and_then (send_to_clients cr len ?k i st) (read_from_clients ?k i)) (ends_well (at_server m P Q i (n + 512) t (\<lambda>_. True)))"
  proof (rule runs_and_then [OF runs_send_to_clients [OF laws len up]])
    show "n + 2 * ?k + 1 < 2 ^ 24" using n k by simp
    fix st' assume "at_server m P Q i (n + 2 * ?k) t (server_up ?k) st'"
    then have "at_server m P Q i (n + 512) t (server_up ?k) st'" by (rule at_server_more) (use k in simp)
    from runs_read_from_clients [OF this] n
    show "runs (read_from_clients ?k i st') (ends_well (at_server m P Q i (n + 512) t (\<lambda>_. True)))"
      by (auto elim!: runs_mono ends_well_mono at_server_weaken)
  qed
  with True show ?thesis by (simp only: if_True Let_def)
next
  case False
  with at_server_more [OF at] show ?thesis by simp
qed

lemma runs_update_server:
  assumes laws: "aead_laws cr" and su: "su_ok su" and at: "at_server m P Q i n t R st" and n: "1 \<le> n" and time: "time \<le> t + 9 / 10"
  shows "runs (on_server i (netcode_server_update cr time) (next_arrival su st)) (ends_well (at_server m P Q i (n + 1) time (\<lambda>_. True)))"
  by (rule runs_on_server [OF at_server_arrival [OF su at]], rule runs_mono [OF drives_update [OF laws _ _ n time]]) auto

lemma runs_soak_server_step:
  assumes laws: "aead_laws cr" and su: "su_ok su" and ok: "soak_ok m P Q st" and P: "P i = server_driven n t"
    and n: "1 \<le> n" "n + 513 < 2 ^ 24" and time: "time \<le> t + 9 / 10"
  shows "runs (soak_server_step cr su time i st) (ends_well (soak_ok m (P(i := server_driven (n + 513) time)) Q))"
proof (cases "sk_server st i")
  case None
  with ok have "soak_ok m (P(i := server_driven (n + 513) time)) Q st" by (auto simp: soak_ok_def process_in_def)
  with None show ?thesis by (simp add: soak_server_step_def)
next
  case (Some x)
  have at: "at_server m P Q i n t (\<lambda>_. True) st"
    using ok Some P fun_upd_triv [of P i] by (cases x) (simp add: at_server_def)
  have last: "runs (on_server i (netcode_server_update cr time) (next_arrival su st)) (ends_well (soak_ok m (P(i := server_driven (n + 513) time)) Q))"
    if "at_server m P Q i (n + 512) t (\<lambda>_. True) st" for st
    by (rule runs_mono [OF runs_update_server [OF laws su that _ time]], use n in simp, erule ends_well_mono) (simp add: at_server_def numeral_eq_Suc)
  show ?thesis
    unfolding soak_server_step_def using Some
    apply (simp only: option.distinct if_False)
    apply (rule runs_and_then_pair [OF at_server_random [OF at]], simp, elim conjE)
    apply (rule runs_and_then [OF runs_when [OF runs_start_server [OF laws _ n(1)]]], assumption, assumption)
    apply (rule runs_and_then_pair [OF at_server_random], assumption, simp, elim conjE)
    apply (rule runs_and_then [OF runs_when [OF runs_stop_server [OF laws _ n(1)]]], assumption, assumption)
    apply (rule runs_and_then [OF runs_server_exchange [OF laws random_length_ok _ n]], assumption)
    apply (rule last, assumption)
    done
qed

section \<open>Creation and destruction of servers and clients\<close>

lemma runs_and_one_in:
  "soak_ok m P Q st \<Longrightarrow> 0 < k \<Longrightarrow>
   runs (and_one_in su c k st) (ends_well (\<lambda>(r, st'). soak_ok m P Q st' \<and> sk_server st' = sk_server st
     \<and> sk_client st' = sk_client st \<and> (r \<longrightarrow> c)))"
  using runs_random [of "\<lambda>st'. soak_ok m P Q st' \<and> sk_server st' = sk_server st \<and> sk_client st' = sk_client st" st 0 k su]
  by (auto simp: and_one_in_def intro!: runs_and_then_pair)

lemma runs_create_server:
  assumes su: "su_ok su" and ok: "soak_ok m (\<lambda>_. server_driven n t) Q st" and i: "sk_server st i = None" "i < m" and time: "t \<le> time"
  shows "runs (create_server su time i st) (ends_well (soak_ok m (\<lambda>_. server_driven n t) Q))"
proof -
  obtain timeouts ckey cseq where mem: "su_memory su (sk_create_next st) = (timeouts, ckey, cseq)" by (rule prod_cases3)
  have "length ckey = NETCODE_KEY_BYTES" using su mem by (simp add: su_ok_def) (metis fst_conv snd_conv)
  moreover have "process (\<lambda>_. server_driven n t) Q (sk_server st) (sk_client st) (sk_world st)"
    "inet_ok (su_inet su)" "length (sk_private_key st) = NETCODE_KEY_BYTES" using ok su by (auto simp: soak_ok_def su_ok_def)
  ultimately have "runs (netcode_server_create (su_inet su) (su_os su (sk_create_next st)) timeouts ckey cseq
      (server_address i) PROTOCOL_ID (sk_private_key st) time (sk_world st))
    (\<lambda>(r, w'). process ((\<lambda>_. server_driven n t)(i := server_driven 0 time)) Q ((sk_server st)(i := r)) (sk_client st) w')"
    using i(1) by (intro runs_process_server_create)
  then show ?thesis
    using ok i(2) time
    by (auto simp: create_server_def mem runs_simps soak_ok_def elim!: runs_mono process_mono split: if_splits)
      (rule server_driven_mono, assumption, simp_all)
qed

lemma runs_create_client:
  assumes su: "su_ok su" and ok: "soak_ok m P (\<lambda>_. client_driven k) st" and i: "sk_client st i = None"
  shows "runs (create_client su time i st) (ends_well (soak_ok m P (\<lambda>_. client_driven k)))"
proof -
  have "process P (\<lambda>_. client_driven k) (sk_server st) (sk_client st) (sk_world st)" "inet_ok (su_inet su)"
    using ok su by (auto simp: soak_ok_def su_ok_def)
  then have "runs (netcode_client_create (su_inet su) (su_os su (sk_create_next st)) ''0.0.0.0'' time (sk_world st))
    (\<lambda>(r, w'). process P ((\<lambda>_. client_driven k)(i := client_driven 0)) (sk_server st) ((sk_client st)(i := r)) w')"
    using i by (intro runs_process_client_create)
  then show ?thesis
    using ok
    by (auto simp: create_client_def runs_simps soak_ok_def elim!: runs_mono process_mono split: if_splits)
      (rule client_driven_mono, assumption, simp)
qed

lemma runs_destroy_server:
  assumes laws: "aead_laws cr" and ok: "soak_ok m P Q st" and P: "P i = server_driven n t"
    and i: "sk_server st i \<noteq> None"
  shows "runs (destroy_server cr i st) (ends_well (soak_ok m P Q))"
proof -
  obtain p s where i: "sk_server st i = Some (p, s)" using i by auto
  have pr: "process P Q (sk_server st) (sk_client st) (sk_world st)" using ok by (simp add: soak_ok_def)
  have "server_driven n t s" using process_server(2) [OF pr i] P by simp
  from runs_process_server_destroy [OF laws pr i this] ok i show ?thesis
    by (auto simp: destroy_server_def runs_simps soak_ok_def elim!: runs_mono)
qed

lemma runs_destroy_client:
  assumes laws: "aead_laws cr" and ok: "soak_ok m P Q st" and Q: "Q i = client_driven k"
    and i: "sk_client st i \<noteq> None"
  shows "runs (destroy_client cr i st) (ends_well (soak_ok m P Q))"
proof -
  obtain p c where i: "sk_client st i = Some (p, c)" using i by auto
  have pr: "process P Q (sk_server st) (sk_client st) (sk_world st)" using ok by (simp add: soak_ok_def)
  have "client_driven k c" using process_client(2) [OF pr i] Q by simp
  from runs_process_client_destroy [OF laws pr i this] ok i show ?thesis
    by (auto simp: destroy_client_def runs_simps soak_ok_def elim!: runs_mono)
qed

lemma runs_soak_server_slot:
  assumes laws: "aead_laws cr" and su: "su_ok su" and ok: "soak_ok m (\<lambda>_. server_driven n t) Q st" and i: "i < m" and time: "t \<le> time"
  shows "runs (soak_server_slot cr su time i st) (ends_well (soak_ok m (\<lambda>_. server_driven n t) Q))"
  unfolding soak_server_slot_def
proof (rule runs_and_then_pair [OF runs_and_one_in [OF ok]], simp, elim conjE)
  fix r st1 assume 1: "soak_ok m (\<lambda>_. server_driven n t) Q st1" "sk_server st1 = sk_server st" "r \<longrightarrow> sk_server st i = None"
  have "runs (if r then create_server su time i st1 else Some (Runs st1)) (ends_well (soak_ok m (\<lambda>_. server_driven n t) Q))"
    using runs_create_server [OF su 1(1) _ i time] 1 by simp
  then show "runs (and_then (if r then create_server su time i st1 else Some (Runs st1)) (\<lambda>st.
     and_then (and_one_in su (sk_server st i \<noteq> None
                 \<and> netcode_server_num_connected_clients (server_at st i) = int (netcode_server_max_clients (server_at st i))) 10000 st)
       (\<lambda>(destroy, st). if destroy then destroy_server cr i st else Some (Runs st))))
    (ends_well (soak_ok m (\<lambda>_. server_driven n t) Q))"
  proof (rule runs_and_then)
    fix st2 assume 2: "soak_ok m (\<lambda>_. server_driven n t) Q st2"
    show "runs (and_then (and_one_in su (sk_server st2 i \<noteq> None
                 \<and> netcode_server_num_connected_clients (server_at st2 i) = int (netcode_server_max_clients (server_at st2 i))) 10000 st2)
       (\<lambda>(destroy, st). if destroy then destroy_server cr i st else Some (Runs st))) (ends_well (soak_ok m (\<lambda>_. server_driven n t) Q))"
    proof (rule runs_and_then_pair [OF runs_and_one_in [OF 2]], simp, elim conjE)
      fix d st3 assume "soak_ok m (\<lambda>_. server_driven n t) Q st3" "sk_server st3 = sk_server st2"
        "d \<longrightarrow> sk_server st2 i \<noteq> None
          \<and> netcode_server_num_connected_clients (server_at st2 i) = int (netcode_server_max_clients (server_at st2 i))"
      then show "runs (if d then destroy_server cr i st3 else Some (Runs st3)) (ends_well (soak_ok m (\<lambda>_. server_driven n t) Q))"
        using runs_destroy_server [OF laws, of m "\<lambda>_. server_driven n t"] by auto
    qed
  qed
qed

lemma runs_soak_client_slot:
  assumes laws: "aead_laws cr" and su: "su_ok su" and ok: "soak_ok m P (\<lambda>_. client_driven k) st"
  shows "runs (soak_client_slot cr su time i st) (ends_well (soak_ok m P (\<lambda>_. client_driven k)))"
  unfolding soak_client_slot_def
proof (rule runs_and_then_pair [OF runs_and_one_in [OF ok]], simp, elim conjE)
  fix r st1 assume 1: "soak_ok m P (\<lambda>_. client_driven k) st1" "sk_client st1 = sk_client st" "r \<longrightarrow> sk_client st i = None"
  have "runs (if r then create_client su time i st1 else Some (Runs st1)) (ends_well (soak_ok m P (\<lambda>_. client_driven k)))"
    using runs_create_client [OF su 1(1)] 1 by simp
  then show "runs (and_then (if r then create_client su time i st1 else Some (Runs st1)) (\<lambda>st.
     and_then (and_one_in su (sk_client st i \<noteq> None) 1000 st)
       (\<lambda>(destroy, st). if destroy then destroy_client cr i st else Some (Runs st))))
    (ends_well (soak_ok m P (\<lambda>_. client_driven k)))"
  proof (rule runs_and_then)
    fix st2 assume 2: "soak_ok m P (\<lambda>_. client_driven k) st2"
    show "runs (and_then (and_one_in su (sk_client st2 i \<noteq> None) 1000 st2)
       (\<lambda>(destroy, st). if destroy then destroy_client cr i st else Some (Runs st))) (ends_well (soak_ok m P (\<lambda>_. client_driven k)))"
    proof (rule runs_and_then_pair [OF runs_and_one_in [OF 2]], simp, elim conjE)
      fix d st3 assume "soak_ok m P (\<lambda>_. client_driven k) st3" "sk_client st3 = sk_client st2" "d \<longrightarrow> sk_client st2 i \<noteq> None"
      then show "runs (if d then destroy_client cr i st3 else Some (Runs st3)) (ends_well (soak_ok m P (\<lambda>_. client_driven k)))"
        using runs_destroy_client [OF laws, of m P "\<lambda>_. client_driven k"] by auto
    qed
  qed
qed

section \<open>Clients, step by step\<close>

lemma runs_running_servers:
  "at_client m P Q i k st \<Longrightarrow> length names \<le> NETCODE_MAX_SERVERS_PER_CONNECT \<Longrightarrow>
   runs (running_servers su js (names, st)) (ends_well (\<lambda>(names', st'). at_client m P Q i k st'
     \<and> length names' \<le> NETCODE_MAX_SERVERS_PER_CONNECT))"
proof (induction js arbitrary: names st)
  case (Cons j js)
  have "at_client m P Q i k (st\<lparr>sk_malloc_next := sk_malloc_next st + 1\<rparr>)" using Cons.prems(1) by (simp add: at_client_def)
  from Cons.IH [OF this] Cons.IH [OF Cons.prems] Cons.prems show ?case by auto
qed auto

lemma at_client_random_next: "at_client m P Q i k st \<Longrightarrow> at_client m P Q i k (st\<lparr>sk_world := (sk_world st)\<lparr>w_random_next := n\<rparr>\<rparr>)"
  by (simp add: at_client_def soak_ok_def process_random)

lemma runs_soak_connect_client:
  assumes laws: "aead_laws cr" and su: "su_ok su" and at: "at_client m P Q i k st"
  shows "runs (connect_client cr su servers i st) (ends_well (at_client m P Q i k))"
proof -
  obtain bs n where rnd: "netcode_random_bytes 8 (sk_world st) = (bs, (sk_world st)\<lparr>w_random_next := n\<rparr>)"
    by (simp add: netcode_random_bytes_def)
  have token: "runs (netcode_generate_connect_token cr (su_inet su) names CONNECT_TOKEN_EXPIRY CONNECT_TOKEN_TIMEOUT cid PROTOCOL_ID 0
       (sk_private_key st') (sk_world st'))
     (\<lambda>(r, w'). at_client m P Q i k (st'\<lparr>sk_world := w'\<rparr>) \<and> (\<forall>token. r = NETCODE_OK token \<longrightarrow> length token = NETCODE_CONNECT_TOKEN_BYTES))"
    if names: "0 < length names" "length names \<le> NETCODE_MAX_SERVERS_PER_CONNECT" and at: "at_client m P Q i k st'" for names st' cid
  proof -
    have clock: "unat (w_timestamp (sk_world st')) + 60 < 2 ^ 64" and key: "length (sk_private_key st') = NETCODE_KEY_BYTES"
      using at by (auto simp: at_client_def soak_ok_def process_in_def)
    have "inet_ok (su_inet su)" using su by (simp add: su_ok_def)
    have "runs (netcode_generate_connect_token cr (su_inet su) names CONNECT_TOKEN_EXPIRY CONNECT_TOKEN_TIMEOUT cid PROTOCOL_ID 0
       (sk_private_key st') (sk_world st'))
     (\<lambda>(r, w'). w' = (sk_world st')\<lparr>w_random_next := w_random_next w'\<rparr>
       \<and> (\<forall>token. r = NETCODE_OK token \<longrightarrow> length token = NETCODE_CONNECT_TOKEN_BYTES))"
      by (rule runs_generate_connect_token [OF laws key \<open>inet_ok (su_inet su)\<close> names]) (use clock in \<open>auto simp: int32_def\<close>)
    then show ?thesis
      by (rule runs_mono) (auto intro: subst [where P = "\<lambda>w. at_client m P Q i k (st'\<lparr>sk_world := w\<rparr>)", OF sym at_client_random_next [OF at]])
  qed
  show ?thesis
    unfolding connect_client_def rnd Let_def prod.case
  proof (rule runs_and_then_pair [OF runs_running_servers [OF at_client_random_next [OF at]]], simp, elim conjE)
    fix names :: "string list" and st' assume st': "at_client m P Q i k st'" and len: "length names \<le> NETCODE_MAX_SERVERS_PER_CONNECT"
    show "runs (if \<not> length names > 0 then Some (Runs st')
         else do {
           (r, w) \<leftarrow> netcode_generate_connect_token cr (su_inet su) names CONNECT_TOKEN_EXPIRY CONNECT_TOKEN_TIMEOUT (u64_of_memory bs)
                     PROTOCOL_ID 0 (sk_private_key st') (sk_world st');
           (case r of
              NETCODE_ERROR \<Rightarrow> Some (Runs (st'\<lparr>sk_world := w\<rparr>))
            | NETCODE_OK connect_token \<Rightarrow> on_client i (\<lambda>client w. netcode_client_connect cr client connect_token w) (st'\<lparr>sk_world := w\<rparr>)) })
        (ends_well (at_client m P Q i k))"
    proof (cases "0 < length names")
      case True
      show ?thesis
      proof (subst if_not_P, use True in simp, rule runs_then_pair [OF token [OF True len st']], elim conjE)
        fix r :: "bytes c_result" and w assume w: "at_client m P Q i k (st'\<lparr>sk_world := w\<rparr>)" "\<forall>token. r = NETCODE_OK token \<longrightarrow> length token = NETCODE_CONNECT_TOKEN_BYTES"
        show "runs (case r of NETCODE_ERROR \<Rightarrow> Some (Runs (st'\<lparr>sk_world := w\<rparr>))
            | NETCODE_OK connect_token \<Rightarrow> on_client i (\<lambda>client w. netcode_client_connect cr client connect_token w) (st'\<lparr>sk_world := w\<rparr>))
          (ends_well (at_client m P Q i k))"
          using w by (cases r) (auto intro!: runs_on_client [OF w(1)] drives_client_connect [OF laws])
      qed
    qed (use st' in simp)
  qed
qed

lemma runs_client_exchange:
  assumes laws: "aead_laws cr" and len: "len_ok len" and at: "at_client m P Q i k st" and k: "k < 2 ^ 24"
  shows "runs (client_exchange cr len i st) (ends_well (at_client m P Q i (k + 1)))"
  unfolding client_exchange_def
proof (rule runs_and_then_pair)
  show "runs (len st) (ends_well (\<lambda>(r, st'). at_client m P Q i k st' \<and> 1 \<le> r \<and> r \<le> NETCODE_MAX_PACKET_SIZE))"
    using len at unfolding len_ok_def by blast
  fix r st1 assume r: "at_client m P Q i k st1 \<and> 1 \<le> r \<and> r \<le> NETCODE_MAX_PACKET_SIZE"
  have send: "runs (on_client i (\<lambda>client w. netcode_client_send_packet cr client (take r packet_data) w) st1) (ends_well (at_client m P Q i (k + 1)))"
  proof (rule runs_on_client [OF conjunct1 [OF r]])
    fix B c assume c: "client_inv B c (sk_world st1)" "client_driven k c"
    from drives_client_send [OF laws c k] r show "runs (netcode_client_send_packet cr c (take r packet_data) (sk_world st1))
        (client_kept_driven B (k + 1) (sk_world st1))" by auto
  qed
  have rest: "runs (do { (ptr, client) \<leftarrow> sk_client st2 i;
      and_then (client_read_loop packet_prefix read_rounds (0, client, sk_world st2))
        (\<lambda>(_, client, w). Some (Runs (st2\<lparr>sk_client := (sk_client st2)(i \<mapsto> (ptr, client)), sk_world := w\<rparr>))) })
    (ends_well (at_client m P Q i (k + 1)))" if at2: "at_client m P Q i (k + 1) st2" for st2
  proof -
    obtain p c where i: "sk_client st2 i = Some (p, c)" using at2 by (auto simp: at_client_def)
    have pr: "process P (Q(i := client_driven (k + 1))) (sk_server st2) (sk_client st2) (sk_world st2)"
      using at2 by (simp add: at_client_def soak_ok_def)
    have driven: "client_driven (k + 1) c" using process_client(2) [OF pr i] by simp
    have "runs (and_then (client_read_loop packet_prefix read_rounds (0, c, sk_world st2))
        (\<lambda>(_, client, w). Some (Runs (st2\<lparr>sk_client := (sk_client st2)(i \<mapsto> (p, client)), sk_world := w\<rparr>))))
      (ends_well (at_client m P Q i (k + 1)))"
      by (rule runs_and_then_triple [OF runs_process_client_read [OF pr i driven]])
        (use at2 in \<open>auto simp: at_client_def soak_ok_def\<close>)
    with i show ?thesis by simp
  qed
  show "runs (and_then (on_client i (\<lambda>client w. netcode_client_send_packet cr client (take r packet_data) w) st1) (\<lambda>st.
     do { (ptr, client) \<leftarrow> sk_client st i;
          and_then (client_read_loop packet_prefix read_rounds (0, client, sk_world st))
            (\<lambda>(_, client, w). Some (Runs (st\<lparr>sk_client := (sk_client st)(i \<mapsto> (ptr, client)), sk_world := w\<rparr>))) }))
    (ends_well (at_client m P Q i (k + 1)))"
    by (rule runs_and_then [OF send]) (rule rest)
qed

lemma full_length_ok: "len_ok full_length"
  by (simp add: len_ok_def full_length_def)

text \<open>A client, when one round is over; what was connecting or exchanging before may be left out.\<close>

lemma runs_update_client:
  assumes laws: "aead_laws cr" and su: "su_ok su" and at: "at_client m P Q i k st"
  shows "runs (on_client i (netcode_client_update cr time) (next_arrival su st)) (ends_well (at_client m P Q i (k + 1)))"
  by (rule runs_on_client [OF at_client_arrival [OF su at]]) (use drives_client_update [OF laws] in auto)

lemma at_client_start:
  assumes "soak_ok m P Q st" and "Q i = client_driven k" and "sk_client st i \<noteq> None"
  shows "at_client m P Q i k st"
  using assms fun_upd_triv [of Q i] by (simp add: at_client_def)

lemma soak_ok_absent:
  "soak_ok m P Q st \<Longrightarrow> sk_client st i = None \<Longrightarrow> soak_ok m P (Q(i := R)) st"
  "soak_ok m P Q st \<Longrightarrow> sk_server st i = None \<Longrightarrow> soak_ok m (P(i := R')) Q st"
  by (auto simp: soak_ok_def process_in_def)

lemma runs_client_rest:
  assumes laws: "aead_laws cr" and su: "su_ok su" and len: "len_ok len" and at: "at_client m P Q i k st" and k: "k < 2 ^ 24"
  shows "runs (and_then (if netcode_client_state (client_at st i) = NETCODE_CLIENT_STATE_CONNECTED
        then client_exchange cr len i st else Some (Runs st)) (\<lambda>st.
      on_client i (netcode_client_update cr time) (next_arrival su st))) (ends_well (soak_ok m P (Q(i := client_driven (k + 2)))))"
proof (rule runs_and_then [OF runs_when [OF runs_client_exchange [OF laws len at k]]])
  show "at_client m P Q i (k + 1) st" by (rule at_client_more [OF at]) simp
  fix st' assume "at_client m P Q i (k + 1) st'"
  from runs_update_client [OF laws su this] show "runs (on_client i (netcode_client_update cr time) (next_arrival su st'))
      (ends_well (soak_ok m P (Q(i := client_driven (k + 2)))))"
    by (rule runs_mono) (auto elim!: ends_well_mono simp: at_client_def numeral_eq_Suc)
qed

lemma runs_soak_client_step:
  assumes laws: "aead_laws cr" and su: "su_ok su" and ok: "soak_ok m P Q st" and Q: "Q i = client_driven k" and k: "k < 2 ^ 24"
  shows "runs (soak_client_step cr su time i st) (ends_well (soak_ok m P (Q(i := client_driven (k + 2)))))"
proof (cases "sk_client st i = None")
  case True
  with soak_ok_absent(1) [OF ok True] show ?thesis by (simp add: soak_client_step_def)
next
  case False
  note at = at_client_start [OF ok Q False]
  have disconnect: "runs (on_client i (netcode_client_disconnect cr) st) (ends_well (at_client m P Q i k))" if "at_client m P Q i k st" for st
    by (rule runs_on_client [OF that]) (rule drives_client_disconnect [OF laws])
  show ?thesis
    unfolding soak_client_step_def using False
    apply (simp only: if_False)
    apply (rule runs_and_then_pair [OF at_client_random [OF at]], simp, elim conjE)
    apply (rule runs_and_then [OF runs_when [OF runs_soak_connect_client [OF laws su]]], assumption, assumption)
    apply (rule runs_and_then_pair [OF at_client_random], assumption, simp, elim conjE)
    apply (rule runs_and_then [OF runs_when [OF disconnect]], assumption, assumption)
    apply (rule runs_client_rest [OF laws su random_length_ok _ k], assumption)
    done
qed

lemma runs_profile_client_step:
  assumes laws: "aead_laws cr" and su: "su_ok su" and ok: "soak_ok m P Q st" and Q: "Q i = client_driven k" and k: "k < 2 ^ 24"
  shows "runs (profile_client_step cr su time i st) (ends_well (soak_ok m P (Q(i := client_driven (k + 2)))))"
proof (cases "sk_client st i = None")
  case True
  with soak_ok_absent(1) [OF ok True] show ?thesis by (simp add: profile_client_step_def)
next
  case False
  note at = at_client_start [OF ok Q False]
  show ?thesis
    unfolding profile_client_step_def using False
    apply (simp only: if_False)
    apply (rule runs_and_then [OF runs_when [OF runs_soak_connect_client [OF laws su at] at]])
    apply (rule runs_client_rest [OF laws su full_length_ok _ k], assumption)
    done
qed

lemma runs_profile_server_step:
  assumes laws: "aead_laws cr" and su: "su_ok su" and ok: "soak_ok m P Q st" and P: "P i = server_driven n t"
    and n: "1 \<le> n" "n + 513 < 2 ^ 24" and time: "time \<le> t + 9 / 10"
  shows "runs (profile_server_step cr su time i st) (ends_well (soak_ok m (P(i := server_driven (n + 513) time)) Q))"
proof (cases "sk_server st i")
  case None
  with soak_ok_absent(2) [OF ok None] show ?thesis by (simp add: profile_server_step_def)
next
  case (Some x)
  have at: "at_server m P Q i n t (\<lambda>_. True) st"
    using ok Some P fun_upd_triv [of P i] by (cases x) (simp add: at_server_def)
  have last: "runs (on_server i (netcode_server_update cr time) (next_arrival su st)) (ends_well (soak_ok m (P(i := server_driven (n + 513) time)) Q))"
    if "at_server m P Q i (n + 512) t (\<lambda>_. True) st" for st
    by (rule runs_mono [OF runs_update_server [OF laws su that _ time]], use n in simp, erule ends_well_mono) (simp add: at_server_def numeral_eq_Suc)
  show ?thesis
    unfolding profile_server_step_def using Some
    apply (simp only: option.distinct if_False)
    apply (rule runs_and_then [OF runs_when [OF runs_start_server [OF laws at n(1)] at]])
    apply (rule runs_and_then [OF runs_server_exchange [OF laws full_length_ok _ n]], assumption)
    apply (rule last, assumption)
    done
qed

section \<open>Rounds\<close>

text \<open>The two loops over all servers and all clients, for either program.\<close>

lemma runs_all_servers:
  assumes step: "\<And>P st i. i < m \<Longrightarrow> soak_ok m P Q st \<Longrightarrow> P i = A \<Longrightarrow> runs (step i st) (ends_well (soak_ok m (P(i := B)) Q))"
    and ok: "soak_ok m (\<lambda>_. A) Q st"
  shows "runs (for_each step [0..<m] st) (ends_well (soak_ok m (\<lambda>_. B) Q))"
proof -
  have "runs (for_each step [0..<m] st) (ends_well (soak_ok m (\<lambda>i. if i < m then B else A) Q))"
  proof (rule runs_for_upt [where I = "\<lambda>k. soak_ok m (\<lambda>i. if i < k then B else A) Q"])
    fix k st assume k: "k < m" and ok: "soak_ok m (\<lambda>i. if i < k then B else A) Q st"
    have "(\<lambda>i. if i < k then B else A)(k := B) = (\<lambda>i. if i < Suc k then B else A)" by (auto simp: fun_eq_iff)
    with step [OF k ok] show "runs (step k st) (ends_well (soak_ok m (\<lambda>i. if i < Suc k then B else A) Q))" by simp
  qed (use ok in simp)
  then show ?thesis by (rule runs_mono) (auto elim!: ends_well_mono soak_ok_mono)
qed

lemma runs_all_clients:
  assumes step: "\<And>Q st i. soak_ok m P Q st \<Longrightarrow> Q i = client_driven k \<Longrightarrow> runs (step i st) (ends_well (soak_ok m P (Q(i := client_driven (k + d)))))"
    and ok: "soak_ok m P (\<lambda>_. client_driven k) st"
  shows "runs (for_each step [0..<n] st) (ends_well (soak_ok m P (\<lambda>_. client_driven (k + d))))"
proof -
  let ?Q = "\<lambda>j i. if i < j then client_driven (k + d) else client_driven k"
  have "runs (for_each step [0..<n] st) (ends_well (soak_ok m P (?Q n)))"
  proof (rule runs_for_upt [where I = "\<lambda>j. soak_ok m P (?Q j)"])
    fix j st assume ok: "soak_ok m P (?Q j) st"
    have "(?Q j)(j := client_driven (k + d)) = ?Q (Suc j)" by (auto simp: fun_eq_iff)
    with step [OF ok, of j] show "runs (step j st) (ends_well (soak_ok m P (?Q (Suc j))))" by simp
  qed (use ok in simp)
  then show ?thesis
    by (rule runs_mono) (auto elim!: ends_well_mono soak_ok_mono split: if_splits, erule client_driven_mono, simp)
qed

text \<open>What holds between the rounds; \<open>n\<close> bounds the sequence numbers, \<open>t\<close> is the time of the last update.\<close>

definition between_rounds :: "nat \<Rightarrow> nat \<Rightarrow> dbl \<Rightarrow> soak \<Rightarrow> bool" where
  "between_rounds m n t = soak_ok m (\<lambda>_. server_driven n t) (\<lambda>_. client_driven n)"

lemma between_rounds_joined:
  "soak_ok m (\<lambda>_. server_driven (n + 513) t) (\<lambda>_. client_driven (n + 2)) st \<Longrightarrow> between_rounds m (n + 513) t st"
  unfolding between_rounds_def by (erule soak_ok_mono) (auto elim: client_driven_mono)

lemma runs_soak_iteration:
  assumes laws: "aead_laws cr" and su: "su_ok su" and ok: "between_rounds MAX_SERVERS n t st"
    and n: "1 \<le> n" "n + 513 < 2 ^ 24" and time: "t \<le> time" "time \<le> t + 9 / 10"
  shows "runs (soak_iteration cr su time st) (ends_well (between_rounds MAX_SERVERS (n + 513) time))"
proof -
  let ?ok = "soak_ok MAX_SERVERS (\<lambda>_. server_driven n t) (\<lambda>_. client_driven n)"
  have servers: "runs (for_each (soak_server_slot cr su time) [0..<MAX_SERVERS] st) (ends_well ?ok)"
    by (rule runs_for_upt [where I = "\<lambda>_. ?ok"])
      (use ok in \<open>auto simp: between_rounds_def intro: runs_soak_server_slot [OF laws su _ _ time(1)]\<close>)
  have clients: "runs (for_each (soak_client_slot cr su time) [0..<MAX_CLIENTS] st) (ends_well ?ok)" if "?ok st" for st
    by (rule runs_for_upt [where I = "\<lambda>_. ?ok"]) (use that in \<open>auto intro: runs_soak_client_slot [OF laws su]\<close>)
  have k: "n < 2 ^ 24" using n by simp
  show ?thesis
    unfolding soak_iteration_def
    apply (rule runs_and_then [OF servers])
    apply (rule runs_and_then [OF clients], assumption)
    apply (rule runs_and_then [OF runs_all_servers [OF runs_soak_server_step [OF laws su _ _ n time(2)]]], assumption, assumption, assumption)
    apply (rule runs_mono [OF runs_all_clients [OF runs_soak_client_step [OF laws su _ _ k]]], assumption, assumption, assumption)
    apply (erule ends_well_mono, rule between_rounds_joined, assumption)
    done
qed

lemma runs_profile_iteration:
  assumes laws: "aead_laws cr" and su: "su_ok su" and ok: "between_rounds PROFILE_SERVERS n t st"
    and n: "1 \<le> n" "n + 513 < 2 ^ 24" and time: "t \<le> time" "time \<le> t + 9 / 10"
  shows "runs (profile_iteration cr su time st) (ends_well (between_rounds PROFILE_SERVERS (n + 513) time))"
proof -
  have k: "n < 2 ^ 24" using n by simp
  show ?thesis
    unfolding profile_iteration_def
    apply (rule runs_and_then [OF runs_all_servers [OF runs_profile_server_step [OF laws su _ _ n time(2)]]], assumption, assumption)
     apply (rule ok [unfolded between_rounds_def])
    apply (rule runs_mono [OF runs_all_clients [OF runs_profile_client_step [OF laws su _ _ k]]], assumption, assumption, assumption)
    apply (erule ends_well_mono, rule between_rounds_joined, assumption)
    done
qed

lemma runs_iterations:
  assumes body: "\<And>n t time st. between_rounds m n t st \<Longrightarrow> 1 \<le> n \<Longrightarrow> n + 513 < 2 ^ 24 \<Longrightarrow> t \<le> time \<Longrightarrow> time \<le> t + 9 / 10 \<Longrightarrow>
      runs (body time st) (ends_well (between_rounds m (n + 513) time))"
  shows "between_rounds m n t st \<Longrightarrow> 1 \<le> n \<Longrightarrow> n + 513 * k < 2 ^ 24 \<Longrightarrow> t \<le> time \<Longrightarrow> time \<le> t + 9 / 10 \<Longrightarrow>
    runs (iterations body k time st) (ends_well (\<lambda>st'. \<exists>n' t'. between_rounds m n' t' st'))"
proof (induction k arbitrary: n t time st)
  case (Suc k)
  have n: "n + 513 < 2 ^ 24" using Suc.prems(3) by simp
  show ?case
    unfolding iterations.simps
    by (rule runs_and_then [OF body [OF Suc.prems(1,2) n Suc.prems(4,5)]], rule Suc.IH) (use Suc.prems(3) in auto)
qed auto

section \<open>From start to exit\<close>

lemma runs_soak_shutdown:
  assumes laws: "aead_laws cr" and ok: "between_rounds m n t st"
  shows "runs (soak_shutdown a b cr st) (ends_well (\<lambda>w. \<not> w_initialized w \<and> world_inv False {} w))"
proof -
  let ?ok = "soak_ok m (\<lambda>_. server_driven n t) (\<lambda>_. client_driven n)"
  have servers: "runs (for_each (\<lambda>i st. if sk_server st i \<noteq> None then destroy_server cr i st else Some (Runs st)) [0..<a] st) (ends_well ?ok)"
    by (rule runs_for_upt [where I = "\<lambda>_. ?ok"])
      (use ok runs_destroy_server [OF laws, of m "\<lambda>_. server_driven n t"] in \<open>auto simp: between_rounds_def\<close>)
  have clients: "runs (for_each (\<lambda>i st. if sk_client st i \<noteq> None then destroy_client cr i st else Some (Runs st)) [0..<b] st) (ends_well ?ok)"
    if "?ok st" for st
    by (rule runs_for_upt [where I = "\<lambda>_. ?ok"])
      (use that runs_destroy_client [OF laws, of m _ "\<lambda>_. client_driven n"] in auto)
  have finish: "runs (do { w \<leftarrow> netcode_term (sk_world st); Some (Runs w) }) (ends_well (\<lambda>w. \<not> w_initialized w \<and> world_inv False {} w))"
    if "?ok st" for st
    using that process_world [of False None "\<lambda>_. server_driven n t" "\<lambda>_. client_driven n" "sk_server st" "sk_client st" "sk_world st"]
      world_inv_mono [of False _ "sk_world st" "{}"]
    by (auto simp: soak_ok_def netcode_term_def runs_simps world_inv_def inbox_ok_def)
  show ?thesis
    unfolding soak_shutdown_def
    by (rule runs_and_then [OF servers], rule runs_and_then [OF clients], assumption, rule finish)
qed

lemma soak_initialized:
  assumes "world_inv False {} w" and "\<not> w_initialized w" and "unat (w_timestamp w) + 60 < 2 ^ 64" and "sodium_init \<noteq> - 1"
  shows "runs (soak_initialize sodium_init w) (\<lambda>st. between_rounds m 1 0 st \<and> sk_server st = (\<lambda>_. None) \<and> sk_client st = (\<lambda>_. None))"
proof -
  have "process P Q (\<lambda>_. None) (\<lambda>_. None) (w\<lparr>w_initialized := True, w_random_next := k\<rparr>)" for P Q k
    by (rule process_start) (use assms in \<open>simp_all add: world_inv_def inbox_ok_def\<close>)
  with assms(2,4) show ?thesis
    by (simp add: soak_initialize_def netcode_init_def netcode_random_bytes_def runs_simps between_rounds_def soak_ok_def Let_def)
qed

lemma rounds_run_le: "rounds_run n rounds \<le> rounds"
  by (simp add: rounds_run_def)

text \<open>The rounds, the destruction of all servers and clients, and the exit code, as the two programs have them.\<close>

lemma runs_rounds:
  assumes laws: "aead_laws cr" and ok: "between_rounds m 1 0 st" and k: "1 + 513 * k < 2 ^ 24"
    and body: "\<And>n t time st. between_rounds m n t st \<Longrightarrow> 1 \<le> n \<Longrightarrow> n + 513 < 2 ^ 24 \<Longrightarrow> t \<le> time \<Longrightarrow> time \<le> t + 9 / 10 \<Longrightarrow>
      runs (body time st) (ends_well (between_rounds m (n + 513) time))"
  shows "runs (and_then (iterations body (rounds_run i k) 0 st) (\<lambda>st.
      and_then (soak_shutdown a b cr st) (\<lambda>w. Some (Runs (0, w))))) (ends_well (\<lambda>(code, w'). exits code w'))"
proof -
  have k': "1 + 513 * rounds_run i k < 2 ^ 24" using rounds_run_le [of i k] k by linarith
  have "runs (iterations body (rounds_run i k) 0 st) (ends_well (\<lambda>st'. \<exists>n t. between_rounds m n t st'))"
    by (rule runs_iterations [OF body ok order_refl k']) simp_all
  then show ?thesis
  proof (rule runs_and_then, elim exE)
    fix st n t assume "between_rounds m n t st"
    from runs_soak_shutdown [OF laws this]
    show "runs (and_then (soak_shutdown a b cr st) (\<lambda>w. Some (Runs (0, w)))) (ends_well (\<lambda>(code, w'). exits code w'))"
      by (rule runs_and_then) (simp add: exits_def)
  qed
qed

lemma runs_soak_main:
  assumes laws: "aead_laws cr" and su: "su_ok su"
    and w: "world_inv False {} w" "\<not> w_initialized w" "unat (w_timestamp w) + 60 < 2 ^ 64" "sodium_init \<noteq> - 1"
    and rounds: "1 + 513 * rounds < 2 ^ 24"
  shows "runs (soak_main cr su sodium_init argv rounds w) (ends_well (\<lambda>(code, w'). exits code w'))"
  unfolding soak_main_def Let_def runs_bind
  by (rule runs_mono [OF soak_initialized [OF w]], elim conjE)
    (rule runs_rounds [OF laws _ rounds runs_soak_iteration [OF laws su]])

text \<open>All servers and clients of \<^verbatim>\<open>profile.c\<close>, created one after the other.\<close>

lemma create_server_clients:
  assumes "runs (create_server su time i st) (ends_well P)"
  shows "runs (create_server su time i st) (ends_well (\<lambda>st'. P st' \<and> sk_client st' = sk_client st))"
  using assms by (auto simp: create_server_def runs_simps elim!: runs_mono split: prod.splits)

lemma create_client_others:
  assumes "runs (create_client su time i st) (ends_well P)"
  shows "runs (create_client su time i st) (ends_well (\<lambda>st'. P st' \<and> (\<forall>j. j \<noteq> i \<longrightarrow> sk_client st' j = sk_client st j)))"
  using assms by (auto simp: create_client_def runs_simps elim!: runs_mono split: prod.splits)

lemma soak_ok_Suc: "soak_ok m P Q st \<Longrightarrow> soak_ok (Suc m) P Q st \<and> sk_server st m = None"
  by (auto simp: soak_ok_def)

lemma runs_profile_initialize:
  assumes su: "su_ok su" and w: "world_inv False {} w" "\<not> w_initialized w" "unat (w_timestamp w) + 60 < 2 ^ 64" "sodium_init \<noteq> - 1"
  shows "runs (profile_initialize su sodium_init w) (ends_well (between_rounds PROFILE_SERVERS 1 0))"
proof -
  let ?I = "\<lambda>k st. soak_ok k (\<lambda>_. server_driven 1 0) (\<lambda>_. client_driven 1) st \<and> sk_client st = (\<lambda>_. None)"
  let ?J = "\<lambda>k st. soak_ok PROFILE_SERVERS (\<lambda>_. server_driven 1 0) (\<lambda>_. client_driven 1) st \<and> (\<forall>j\<ge>k. sk_client st j = None)"
  have servers: "runs (for_each (create_server su 0) [0..<PROFILE_SERVERS] st) (ends_well (?I PROFILE_SERVERS))" if "?I 0 st" for st
  proof (rule runs_for_upt [where I = ?I])
    fix k st assume I: "?I k st"
    have "runs (create_server su 0 k st) (ends_well (soak_ok (Suc k) (\<lambda>_. server_driven 1 0) (\<lambda>_. client_driven 1)))"
      using soak_ok_Suc [OF conjunct1 [OF I]] by (auto intro: runs_create_server [OF su])
    from create_server_clients [OF this] I show "runs (create_server su 0 k st) (ends_well (?I (Suc k)))" by simp
  qed (rule that)
  have clients: "runs (for_each (create_client su 0) [0..<PROFILE_CLIENTS] st) (ends_well (?J PROFILE_CLIENTS))" if "?J 0 st" for st
  proof (rule runs_for_upt [where I = ?J])
    fix k st assume J: "?J k st"
    then have "runs (create_client su 0 k st) (ends_well (soak_ok PROFILE_SERVERS (\<lambda>_. server_driven 1 0) (\<lambda>_. client_driven 1)))"
      by (intro runs_create_client [OF su]) simp_all
    from create_client_others [OF this] J show "runs (create_client su 0 k st) (ends_well (?J (Suc k)))"
      by (auto elim!: runs_mono ends_well_mono)
  qed (rule that)
  have all: "runs (and_then (for_each (create_server su 0) [0..<PROFILE_SERVERS] st) (for_each (create_client su 0) [0..<PROFILE_CLIENTS]))
    (ends_well (between_rounds PROFILE_SERVERS 1 0))" if "?I 0 st" for st
  proof (rule runs_and_then [OF servers [OF that]])
    fix st assume "?I PROFILE_SERVERS st"
    then have "?J 0 st" by simp
    from clients [OF this] show "runs (for_each (create_client su 0) [0..<PROFILE_CLIENTS] st) (ends_well (between_rounds PROFILE_SERVERS 1 0))"
      by (rule runs_mono) (auto simp only: between_rounds_def elim: ends_well_mono)
  qed
  show ?thesis
    unfolding profile_initialize_def runs_bind
    by (rule runs_mono [OF soak_initialized [OF w, of 0]], elim conjE) (rule all, simp add: between_rounds_def)
qed

lemma runs_profile_main:
  assumes laws: "aead_laws cr" and su: "su_ok su"
    and w: "world_inv False {} w" "\<not> w_initialized w" "unat (w_timestamp w) + 60 < 2 ^ 64" "sodium_init \<noteq> - 1"
    and rounds: "1 + 513 * rounds < 2 ^ 24"
  shows "runs (profile_main cr su sodium_init argv rounds w) (ends_well (\<lambda>(code, w'). exits code w'))"
  unfolding profile_main_def Let_def
  by (rule runs_and_then [OF runs_profile_initialize [OF su w]])
    (rule runs_rounds [OF laws _ rounds runs_profile_iteration [OF laws su]])

section \<open>No abort\<close>

text \<open>C23: whatever datagrams arrive, whatever the random numbers and the operating system's answers are, \<^verbatim>\<open>soak.c\<close> and
  \<^verbatim>\<open>profile.c\<close>, with all their servers and clients on one heap, never abort inside the library within their first
  rounds (some 32000); each stops at an assertion or a null pointer of its own, or destroys all its servers and clients without harm, shuts
  the library down and exits with 0.\<close>

theorem soak_programs_never_abort:
  assumes "aead_laws cr" and "su_ok su"
    and "world_inv False {} w" and "\<not> w_initialized w" and "unat (w_timestamp w) + 60 < 2 ^ 64" and "sodium_init \<noteq> - 1"
    and "1 + 513 * rounds < 2 ^ 24"
  shows "runs (soak_main cr su sodium_init argv rounds w) (ends_well (\<lambda>(code, w'). exits code w'))
    \<and> runs (profile_main cr su sodium_init argv rounds w) (ends_well (\<lambda>(code, w'). exits code w'))"
  using runs_soak_main [OF assms] runs_profile_main [OF assms] by simp

definition example_surroundings :: surroundings where
  "example_surroundings = \<lparr>su_inet = local_inet, su_rand = (\<lambda>i. i), su_os = (\<lambda>_. example_os),
     su_memory = (\<lambda>_. (\<lambda>_. 0, replicate 32 0, 0)), su_malloc = (\<lambda>i. i mod 7 \<noteq> 6),
     su_arrivals = (\<lambda>i. (100, [(3, SOCKADDR_IN (s_addr_of [127, 0, 0, 1]) 50000, [0, of_nat i])]))\<rparr>"

theorem soak_programs_never_abort_witness:
  "runs (soak_main clear_crypto example_surroundings 0 [''soak'', ''1000''] 32000 fresh_world) (ends_well (\<lambda>(code, w'). exits code w'))"
proof -
  have "su_ok example_surroundings" by (simp add: su_ok_def example_surroundings_def arrival_ok_def)
  from soak_programs_never_abort [OF clear_crypto_laws this fresh_world_ok, of 0 32000 "[''soak'', ''1000'']"] show ?thesis by simp
qed

end
