(* ===== verification/Unit_Tests.thy ===== *)
theory Unit_Tests
  imports Handshake Token_Generation
begin

text \<open>
  The tests of \<^verbatim>\<open>netcode.c\<close> that need neither a socket nor the network simulator, as \<^verbatim>\<open>netcode_test\<close> runs them. A
  \<^verbatim>\<open>check\<close> that fails aborts, like an assertion of the library. The tests pass in the model: for any random bytes, any AEAD
  with its laws, any \<^verbatim>\<open>inet_pton\<close> that reads the addresses of the tests as it documents, as long as memory does not run out; and they free all they allocate.
\<close>

section \<open>Checks\<close>

abbreviation (input) check :: "bool \<Rightarrow> unit option" where "check \<equiv> c_assert"

text \<open>\<^verbatim>\<open>check( f( buffer ) == NETCODE_OK )\<close>, with what the call leaves in its buffer.\<close>

definition check_ok :: "'a c_result \<Rightarrow> 'a option" where
  "check_ok r = (case r of NETCODE_ERROR \<Rightarrow> None | NETCODE_OK x \<Rightarrow> Some x)"

abbreviation (input) TEST_PROTOCOL_ID :: u64 where "TEST_PROTOCOL_ID \<equiv> 0x1122334455667788"
abbreviation (input) TEST_CLIENT_ID :: u64 where "TEST_CLIENT_ID \<equiv> 1"
abbreviation (input) TEST_SERVER_PORT :: u16 where "TEST_SERVER_PORT \<equiv> 40000"
abbreviation (input) TEST_TIMEOUT_SECONDS :: int where "TEST_TIMEOUT_SECONDS \<equiv> 5"

section \<open>The packet queue\<close>

text \<open>What is in the blocks does not matter to the test. A failure of \<^verbatim>\<open>malloc\<close> ends it.\<close>

fun test_push :: "nat \<Rightarrow> nat \<Rightarrow> packet_queue \<Rightarrow> block heap \<Rightarrow> (nat list \<times> packet_queue \<times> block heap) option" where
  "test_push 0 i queue h = Some ([], queue, h)"
| "test_push (Suc k) i queue h =
     (let (packet, h) = netcode_default_allocate_function (Buffer_block []) h in
      do { packet \<leftarrow> packet;
           (r, queue, h) \<leftarrow> netcode_packet_queue_push queue packet (of_nat i) h;
           check r;
           (packets, queue, h) \<leftarrow> test_push k (i + 1) queue h;
           Some (packet # packets, queue, h) })"

fun test_pop :: "nat list \<Rightarrow> nat \<Rightarrow> packet_queue \<Rightarrow> block heap \<Rightarrow> (packet_queue \<times> block heap) option" where
  "test_pop [] i queue h = Some (queue, h)"
| "test_pop (expected # packets) i queue h =
     (let (packet, sequence, queue) = netcode_packet_queue_pop queue in
      do { check ((case sequence of None \<Rightarrow> 0 | Some s \<Rightarrow> s) = of_nat i);
           check (packet = Some expected);
           h \<leftarrow> netcode_default_free_function packet h;
           test_pop packets (i + 1) queue h })"

definition test_queue :: "block heap \<Rightarrow> block heap option" where
  "test_queue h =
     do { let queue = netcode_packet_queue_init;
          check (pq_num_packets queue = 0);
          check (pq_start_index queue = 0);
          let (packet, _, queue) = netcode_packet_queue_pop queue;
          check (packet = None);
          (packets, queue, h) \<leftarrow> test_push 100 0 queue h;
          check (pq_num_packets queue = 100);
          (queue, h) \<leftarrow> test_pop packets 0 queue h;
          check (pq_num_packets queue = 0);
          let (packet, _, queue) = netcode_packet_queue_pop queue;
          check (packet = None);
          (packets, queue, h) \<leftarrow> test_push NETCODE_PACKET_QUEUE_SIZE 0 queue h;
          check (pq_num_packets queue = NETCODE_PACKET_QUEUE_SIZE);
          let (packet, h) = netcode_default_allocate_function (Buffer_block []) h;
          packet \<leftarrow> packet;
          (r, queue, h) \<leftarrow> netcode_packet_queue_push queue packet 0 h;
          check (\<not> r);
          (queue, h) \<leftarrow> test_pop packets 0 queue h;
          (packets, queue, h) \<leftarrow> test_push NETCODE_PACKET_QUEUE_SIZE 0 queue h;
          (queue, h) \<leftarrow> netcode_packet_queue_clear queue h;
          check (pq_start_index queue = 0);
          check (pq_num_packets queue = 0);
          check (\<forall>i < NETCODE_PACKET_QUEUE_SIZE. pq_packet_data queue ! i = None);
          Some h }"

section \<open>The order of bytes\<close>

text \<open>The octets of a variable in the memory of a little-endian machine, for which the model is (\<^verbatim>\<open>NETCODE_LITTLE_ENDIAN\<close>),
  and the branch of the test for it.\<close>

definition uint32_octets :: "u32 \<Rightarrow> bytes" where
  "uint32_octets v = map (\<lambda>i. ucast (drop_bit (8 * i) v)) [0..<4]"

definition test_endian :: "unit option" where
  "test_endian =
     do { let octets = uint32_octets 0x11223344;
          check (octets ! 0 = 0x44);
          check (octets ! 1 = 0x33);
          check (octets ! 2 = 0x22);
          check (octets ! 3 = 0x11) }"

section \<open>Sequence numbers\<close>

definition test_sequence :: "unit option" where
  "test_sequence =
     do { check (netcode_sequence_number_bytes_required 0 = 1);
          check (netcode_sequence_number_bytes_required 0x11 = 1);
          check (netcode_sequence_number_bytes_required 0x1122 = 2);
          check (netcode_sequence_number_bytes_required 0x112233 = 3);
          check (netcode_sequence_number_bytes_required 0x11223344 = 4);
          check (netcode_sequence_number_bytes_required 0x1122334455 = 5);
          check (netcode_sequence_number_bytes_required 0x112233445566 = 6);
          check (netcode_sequence_number_bytes_required 0x11223344556677 = 7);
          check (netcode_sequence_number_bytes_required 0x1122334455667788 = 8) }"

section \<open>Addresses\<close>

definition malformed_addresses :: "string list" where
  "malformed_addresses =
     ['''', ''['', ''[]'', ''[]:'', '':'', ''1'', ''12'', ''123'', ''1234'', ''1234.0.12313.0000'', ''1234.0.12313.0000.0.0.0.0.0'',
      ''1312313:123131:1312313:123131:1312313:123131:1312313:123131:1312313:123131:1312313:123131'',
      ''.'', ''..'', ''...'', ''....'', ''.....'']"

definition check_ipv4 :: "inet \<Rightarrow> string \<Rightarrow> bytes \<Rightarrow> u16 \<Rightarrow> unit option" where
  "check_ipv4 inet s octets port =
     do { address \<leftarrow> check_ok (netcode_parse_address inet s);
          (case address of
             ADDRESS_IPV4 a p \<Rightarrow> do { check (p = port); check (\<forall>i < 4. a ! i = octets ! i) }
           | _ \<Rightarrow> None) }"

definition check_ipv6 :: "inet \<Rightarrow> string \<Rightarrow> u16 list \<Rightarrow> u16 \<Rightarrow> unit option" where
  "check_ipv6 inet s groups port =
     do { address \<leftarrow> check_ok (netcode_parse_address inet s);
          (case address of
             ADDRESS_IPV6 a p \<Rightarrow> do { check (p = port); check (\<forall>i < 8. a ! i = groups ! i) }
           | _ \<Rightarrow> None) }"

definition test_address :: "inet \<Rightarrow> unit option" where
  "test_address inet =
     do { check (\<forall>s \<in> set malformed_addresses. netcode_parse_address inet s = NETCODE_ERROR);
          check_ipv4 inet ''107.77.207.77'' [107, 77, 207, 77] 0;
          check_ipv4 inet ''127.0.0.1'' [127, 0, 0, 1] 0;
          check_ipv4 inet ''107.77.207.77:40000'' [107, 77, 207, 77] 40000;
          check_ipv4 inet ''127.0.0.1:40000'' [127, 0, 0, 1] 40000;
          check_ipv6 inet ''fe80::202:b3ff:fe1e:8329'' [0xfe80, 0, 0, 0, 0x0202, 0xb3ff, 0xfe1e, 0x8329] 0;
          check_ipv6 inet ''::'' [0, 0, 0, 0, 0, 0, 0, 0] 0;
          check_ipv6 inet ''::1'' [0, 0, 0, 0, 0, 0, 0, 1] 0;
          check_ipv6 inet ''[fe80::202:b3ff:fe1e:8329]:40000'' [0xfe80, 0, 0, 0, 0x0202, 0xb3ff, 0xfe1e, 0x8329] 40000;
          check_ipv6 inet ''[::]:40000'' [0, 0, 0, 0, 0, 0, 0, 0] 40000;
          check_ipv6 inet ''[::1]:40000'' [0, 0, 0, 0, 0, 0, 0, 1] 40000 }"

section \<open>Tokens\<close>

abbreviation (input) test_server_address :: netcode_address where
  "test_server_address \<equiv> ADDRESS_IPV4 [127, 0, 0, 1] TEST_SERVER_PORT"

text \<open>The private token with which three tests begin.\<close>

definition test_private_token :: "world \<Rightarrow> (connect_token_private \<times> bytes \<times> world) option" where
  "test_private_token w =
     do { let (user_data, w) = netcode_random_bytes NETCODE_USER_DATA_BYTES w;
          let (client_to_server_key, w) = netcode_generate_key w;
          let (server_to_client_key, w) = netcode_generate_key w;
          input_token \<leftarrow> netcode_generate_connect_token_private TEST_CLIENT_ID TEST_TIMEOUT_SECONDS 1 [test_server_address]
            user_data client_to_server_key server_to_client_key;
          check (ctp_client_id input_token = TEST_CLIENT_ID);
          check (ctp_num_server_addresses input_token = 1);
          check (ctp_user_data input_token = user_data);
          check (netcode_address_equal (ctp_server_addresses input_token ! 0) test_server_address);
          buffer \<leftarrow> netcode_write_connect_token_private input_token (int NETCODE_CONNECT_TOKEN_PRIVATE_BYTES);
          Some (input_token, buffer, w) }"

definition test_connect_token :: "crypto \<Rightarrow> world \<Rightarrow> world option" where
  "test_connect_token cr w =
     do { (input_token, buffer, w) \<leftarrow> test_private_token w;
          let sequence = 1000;
          let expire_timestamp = w_timestamp w + 30;
          let (key, w) = netcode_generate_key w;
          r \<leftarrow> netcode_encrypt_connect_token_private cr buffer NETCODE_VERSION_INFO TEST_PROTOCOL_ID expire_timestamp sequence key;
          buffer \<leftarrow> check_ok r;
          r \<leftarrow> netcode_decrypt_connect_token_private cr buffer NETCODE_VERSION_INFO TEST_PROTOCOL_ID expire_timestamp sequence key;
          buffer \<leftarrow> check_ok r;
          r \<leftarrow> netcode_read_connect_token_private buffer;
          output_token \<leftarrow> check_ok r;
          check (ctp_client_id output_token = ctp_client_id input_token);
          check (ctp_timeout_seconds output_token = ctp_timeout_seconds input_token);
          check (ctp_num_server_addresses output_token = ctp_num_server_addresses input_token);
          check (netcode_address_equal (ctp_server_addresses output_token ! 0) (ctp_server_addresses input_token ! 0));
          check (ctp_client_to_server_key output_token = ctp_client_to_server_key input_token);
          check (ctp_server_to_client_key output_token = ctp_server_to_client_key input_token);
          check (ctp_user_data output_token = ctp_user_data input_token);
          Some w }"

definition test_challenge_token :: "crypto \<Rightarrow> world \<Rightarrow> world option" where
  "test_challenge_token cr w =
     do { let (user_data, w) = netcode_random_bytes NETCODE_USER_DATA_BYTES w;
          let input_token = \<lparr>cht_client_id = TEST_CLIENT_ID, cht_user_data = user_data\<rparr>;
          buffer \<leftarrow> netcode_write_challenge_token input_token (int NETCODE_CHALLENGE_TOKEN_BYTES);
          let sequence = 1000;
          let (key, w) = netcode_generate_key w;
          r \<leftarrow> netcode_encrypt_challenge_token cr buffer sequence key;
          buffer \<leftarrow> check_ok r;
          r \<leftarrow> netcode_decrypt_challenge_token cr buffer sequence key;
          buffer \<leftarrow> check_ok r;
          r \<leftarrow> netcode_read_challenge_token buffer;
          output_token \<leftarrow> check_ok r;
          check (cht_client_id output_token = cht_client_id input_token);
          check (cht_user_data output_token = cht_user_data input_token);
          Some w }"

definition test_connect_token_public :: "crypto \<Rightarrow> world \<Rightarrow> world option" where
  "test_connect_token_public cr w =
     do { (connect_token_private, connect_token_private_data, w) \<leftarrow> test_private_token w;
          let sequence = 1000;
          let create_timestamp = w_timestamp w;
          let expire_timestamp = create_timestamp + 30;
          let (key, w) = netcode_generate_key w;
          r \<leftarrow> netcode_encrypt_connect_token_private cr connect_token_private_data NETCODE_VERSION_INFO TEST_PROTOCOL_ID
            expire_timestamp sequence key;
          connect_token_private_data \<leftarrow> check_ok r;
          let input_connect_token = zero_connect_token\<lparr>
                ct_version_info := NETCODE_VERSION_INFO,
                ct_protocol_id := TEST_PROTOCOL_ID,
                ct_create_timestamp := create_timestamp,
                ct_expire_timestamp := expire_timestamp,
                ct_sequence := sequence,
                ct_private_data := connect_token_private_data,
                ct_num_server_addresses := 1,
                ct_server_addresses := (ct_server_addresses zero_connect_token)[0 := test_server_address],
                ct_client_to_server_key := ctp_client_to_server_key connect_token_private,
                ct_server_to_client_key := ctp_server_to_client_key connect_token_private,
                ct_timeout_seconds := TEST_TIMEOUT_SECONDS\<rparr>;
          buffer \<leftarrow> netcode_write_connect_token input_connect_token (int NETCODE_CONNECT_TOKEN_BYTES);
          (ok, output_connect_token) \<leftarrow> netcode_read_connect_token buffer zero_connect_token;
          check ok;
          check (ct_version_info output_connect_token = ct_version_info input_connect_token);
          check (ct_protocol_id output_connect_token = ct_protocol_id input_connect_token);
          check (ct_create_timestamp output_connect_token = ct_create_timestamp input_connect_token);
          check (ct_expire_timestamp output_connect_token = ct_expire_timestamp input_connect_token);
          check (ct_sequence output_connect_token = ct_sequence input_connect_token);
          check (ct_private_data output_connect_token = ct_private_data input_connect_token);
          check (ct_num_server_addresses output_connect_token = ct_num_server_addresses input_connect_token);
          check (netcode_address_equal (ct_server_addresses output_connect_token ! 0) (ct_server_addresses input_connect_token ! 0));
          check (ct_client_to_server_key output_connect_token = ct_client_to_server_key input_connect_token);
          check (ct_server_to_client_key output_connect_token = ct_server_to_client_key input_connect_token);
          check (ct_timeout_seconds output_connect_token = ct_timeout_seconds input_connect_token);
          Some w }"

section \<open>Packets\<close>

definition test_connection_request_packet :: "crypto \<Rightarrow> world \<Rightarrow> world option" where
  "test_connection_request_packet cr w =
     do { (input_token, connect_token_data, w) \<leftarrow> test_private_token w;
          let connect_token_sequence = 1000;
          let connect_token_expire_timestamp = w_timestamp w + 30;
          let (connect_token_key, w) = netcode_generate_key w;
          r \<leftarrow> netcode_encrypt_connect_token_private cr connect_token_data NETCODE_VERSION_INFO TEST_PROTOCOL_ID
            connect_token_expire_timestamp connect_token_sequence connect_token_key;
          encrypted_connect_token_data \<leftarrow> check_ok r;
          let input_packet = \<lparr>rq_version_info = NETCODE_VERSION_INFO, rq_protocol_id = TEST_PROTOCOL_ID,
                rq_connect_token_expire_timestamp = connect_token_expire_timestamp,
                rq_connect_token_sequence = connect_token_sequence, rq_connect_token_data = encrypted_connect_token_data\<rparr>;
          let (packet_key, w) = netcode_generate_key w;
          r \<leftarrow> netcode_write_packet cr (CONNECTION_REQUEST_PACKET input_packet) 2048 1000 packet_key TEST_PROTOCOL_ID;
          buffer \<leftarrow> check_ok r;
          check (length buffer > 0);
          (output_packet, _, _, h) \<leftarrow> netcode_read_packet cr buffer (Some packet_key) TEST_PROTOCOL_ID (w_timestamp w)
            (Some connect_token_key) (replicate NETCODE_CONNECTION_NUM_PACKETS True) None (w_heap w);
          let w = w\<lparr>w_heap := h\<rparr>;
          ptr \<leftarrow> output_packet;
          packet \<leftarrow> w_packet ptr w;
          (case packet of
             CONNECTION_REQUEST_PACKET output_packet \<Rightarrow> do {
               check (rq_version_info output_packet = rq_version_info input_packet);
               check (rq_protocol_id output_packet = rq_protocol_id input_packet);
               check (rq_connect_token_expire_timestamp output_packet = rq_connect_token_expire_timestamp input_packet);
               check (rq_connect_token_sequence output_packet = rq_connect_token_sequence input_packet);
               check (take (NETCODE_CONNECT_TOKEN_PRIVATE_BYTES - NETCODE_MAC_BYTES) (rq_connect_token_data output_packet)
                 = take (NETCODE_CONNECT_TOKEN_PRIVATE_BYTES - NETCODE_MAC_BYTES) connect_token_data);
               w_free (Some ptr) w }
           | _ \<Rightarrow> None) }"

text \<open>What the tests of the other packets share: the packet is written and read back; the tests differ in what they compare.\<close>

definition test_packet :: "crypto \<Rightarrow> netcode_packet \<Rightarrow> (netcode_packet \<Rightarrow> world \<Rightarrow> world option) \<Rightarrow> world \<Rightarrow> world option" where
  "test_packet cr input_packet compare w =
     do { let (packet_key, w) = netcode_generate_key w;
          r \<leftarrow> netcode_write_packet cr input_packet NETCODE_MAX_PACKET_BYTES 1000 packet_key TEST_PROTOCOL_ID;
          buffer \<leftarrow> check_ok r;
          check (length buffer > 0);
          (output_packet, _, _, h) \<leftarrow> netcode_read_packet cr buffer (Some packet_key) TEST_PROTOCOL_ID (w_timestamp w)
            None (replicate NETCODE_CONNECTION_NUM_PACKETS True) None (w_heap w);
          let w = w\<lparr>w_heap := h\<rparr>;
          ptr \<leftarrow> output_packet;
          packet \<leftarrow> w_packet ptr w;
          w \<leftarrow> compare packet w;
          w_free (Some ptr) w }"

definition test_connection_denied_packet :: "crypto \<Rightarrow> world \<Rightarrow> world option" where
  "test_connection_denied_packet cr w =
     test_packet cr CONNECTION_DENIED_PACKET (\<lambda>output w. do { check (packet_type output = packet_type CONNECTION_DENIED_PACKET); Some w }) w"

definition test_connection_challenge_packet :: "crypto \<Rightarrow> world \<Rightarrow> world option" where
  "test_connection_challenge_packet cr w =
     (let (challenge_token_data, w) = netcode_random_bytes NETCODE_CHALLENGE_TOKEN_BYTES w in
      test_packet cr (CONNECTION_CHALLENGE_PACKET 0 challenge_token_data) (\<lambda>output w. case output of
          CONNECTION_CHALLENGE_PACKET sequence data \<Rightarrow> do { check (sequence = 0); check (data = challenge_token_data); Some w }
        | _ \<Rightarrow> None) w)"

definition test_connection_response_packet :: "crypto \<Rightarrow> world \<Rightarrow> world option" where
  "test_connection_response_packet cr w =
     (let (challenge_token_data, w) = netcode_random_bytes NETCODE_CHALLENGE_TOKEN_BYTES w in
      test_packet cr (CONNECTION_RESPONSE_PACKET 0 challenge_token_data) (\<lambda>output w. case output of
          CONNECTION_RESPONSE_PACKET sequence data \<Rightarrow> do { check (sequence = 0); check (data = challenge_token_data); Some w }
        | _ \<Rightarrow> None) w)"

definition test_connection_keep_alive_packet :: "crypto \<Rightarrow> world \<Rightarrow> world option" where
  "test_connection_keep_alive_packet cr w =
     test_packet cr (CONNECTION_KEEP_ALIVE_PACKET 10 16) (\<lambda>output w. case output of
         CONNECTION_KEEP_ALIVE_PACKET client_index max_clients \<Rightarrow> do { check (client_index = 10); check (max_clients = 16); Some w }
       | _ \<Rightarrow> None) w"

definition test_connection_payload_packet :: "crypto \<Rightarrow> world \<Rightarrow> world option" where
  "test_connection_payload_packet cr w =
     do { (input_packet, h) \<leftarrow> netcode_create_payload_packet (int NETCODE_MAX_PAYLOAD_BYTES) (w_heap w);
          input_ptr \<leftarrow> input_packet;
          packet \<leftarrow> w_packet input_ptr (w\<lparr>w_heap := h\<rparr>);
          (case packet of CONNECTION_PAYLOAD_PACKET data \<Rightarrow> check (length data = NETCODE_MAX_PAYLOAD_BYTES) | _ \<Rightarrow> None);
          let (payload_data, w) = netcode_random_bytes NETCODE_MAX_PAYLOAD_BYTES w;
          let w = w\<lparr>w_heap := heap_store input_ptr (Packet_block (CONNECTION_PAYLOAD_PACKET payload_data)) h\<rparr>;
          input_packet \<leftarrow> w_packet input_ptr w;
          test_packet cr input_packet (\<lambda>output w. case (output, input_packet) of
              (CONNECTION_PAYLOAD_PACKET output_data, CONNECTION_PAYLOAD_PACKET input_data) \<Rightarrow> do {
                check (length output_data = length input_data); check (output_data = input_data); w_free (Some input_ptr) w }
            | _ \<Rightarrow> None) w }"

definition test_connection_disconnect_packet :: "crypto \<Rightarrow> world \<Rightarrow> world option" where
  "test_connection_disconnect_packet cr w =
     test_packet cr CONNECTION_DISCONNECT_PACKET (\<lambda>output w. do { check (packet_type output = packet_type CONNECTION_DISCONNECT_PACKET); Some w }) w"

section \<open>Replay protection\<close>

fun test_received :: "bool \<Rightarrow> u64 list \<Rightarrow> replay_protection \<Rightarrow> replay_protection option" where
  "test_received expected [] replay_protection = Some replay_protection"
| "test_received expected (sequence # sequences) replay_protection =
     (let (received, replay_protection) = netcode_replay_protection_packet_already_received replay_protection sequence in
      do { check (received = expected); test_received expected sequences replay_protection })"

definition test_replay_round :: "unit option" where
  "test_replay_round =
     do { let replay_protection = netcode_replay_protection_reset;
          check (rp_most_recent_sequence replay_protection = 0);
          replay_protection \<leftarrow> test_received False [push_bit 63 1] replay_protection;
          check (rp_most_recent_sequence replay_protection = 0);
          replay_protection \<leftarrow> test_received False (map of_nat [0..<1024]) replay_protection;
          replay_protection \<leftarrow> test_received True [0] replay_protection;
          replay_protection \<leftarrow> test_received True (map of_nat [1014..<1024]) replay_protection;
          replay_protection \<leftarrow> test_received False [1024 + 256] replay_protection;
          replay_protection \<leftarrow> test_received True (map of_nat [0..<1024]) replay_protection;
          Some () }"

definition test_replay_protection :: "unit option" where
  "test_replay_protection = do { test_replay_round; test_replay_round }"

section \<open>The encryption manager\<close>

type_synonym test_mapping = "netcode_address \<times> bytes \<times> bytes"

fun test_mappings :: "nat list \<Rightarrow> world \<Rightarrow> test_mapping list \<times> world" where
  "test_mappings [] w = ([], w)"
| "test_mappings (i # is) w =
     (let (send_key, w) = netcode_generate_key w;
          (receive_key, w) = netcode_generate_key w;
          (mappings, w) = test_mappings is w
      in ((ADDRESS_IPV6 [0, 0, 0, 0, 0, 0, 0, 1] (20000 + of_nat i), send_key, receive_key) # mappings, w))"

text \<open>The keys that a search gives: those of the mapping, or none.\<close>

definition test_lookup :: "encryption_manager \<Rightarrow> test_mapping \<Rightarrow> bool \<Rightarrow> dbl \<Rightarrow> encryption_manager option" where
  "test_lookup em = (\<lambda>(address, send_key, receive_key) present time.
     let (encryption_index, em) = netcode_encryption_manager_find_encryption_mapping em address time in
     do { found_send_key \<leftarrow> netcode_encryption_manager_get_send_key em encryption_index;
          found_receive_key \<leftarrow> netcode_encryption_manager_get_receive_key em encryption_index;
          (if present
           then do { check (found_send_key = Some send_key); check (found_receive_key = Some receive_key) }
           else do { check (found_send_key = None); check (found_receive_key = None) });
          Some em })"

definition test_add :: "encryption_manager \<Rightarrow> test_mapping \<Rightarrow> dbl \<Rightarrow> dbl \<Rightarrow> encryption_manager option" where
  "test_add em = (\<lambda>(address, send_key, receive_key) time expire_time.
     let (r, em) = netcode_encryption_manager_add_encryption_mapping em address send_key receive_key time expire_time TEST_TIMEOUT_SECONDS in
     do { check r; Some em })"

definition test_remove :: "encryption_manager \<Rightarrow> netcode_address \<Rightarrow> bool \<Rightarrow> dbl \<Rightarrow> encryption_manager option" where
  "test_remove em address expected time =
     (let (r, em) = netcode_encryption_manager_remove_encryption_mapping em address time in do { check (r = expected); Some em })"

text \<open>The body of the two loops that add all mappings.\<close>

definition test_add_new :: "dbl \<Rightarrow> test_mapping \<Rightarrow> encryption_manager \<Rightarrow> encryption_manager option" where
  "test_add_new time = (\<lambda>(address, send_key, receive_key) em.
     let (encryption_index, em) = netcode_encryption_manager_find_encryption_mapping em address time in
     do { check (encryption_index = None);
          found_send_key \<leftarrow> netcode_encryption_manager_get_send_key em encryption_index;
          check (found_send_key = None);
          found_receive_key \<leftarrow> netcode_encryption_manager_get_receive_key em encryption_index;
          check (found_receive_key = None);
          em \<leftarrow> test_add em (address, send_key, receive_key) time (- 1);
          test_lookup em (address, send_key, receive_key) True time })"

fun test_each :: "('m \<Rightarrow> 's \<Rightarrow> 's option) \<Rightarrow> 'm list \<Rightarrow> 's \<Rightarrow> 's option" where
  "test_each body [] s = Some s"
| "test_each body (m # ms) s = do { s \<leftarrow> body m s; test_each body ms s }"

text \<open>\<open>garbage\<close> is what the stack holds in an address that is set in part; \<open>9227469 / 2 ^ 23\<close> is \<^verbatim>\<open>1.1f\<close>.\<close>

definition test_encryption_manager :: "u16 list \<Rightarrow> world \<Rightarrow> world option" where
  "test_encryption_manager garbage w =
     do { let em = netcode_encryption_manager_reset;
          let time = 100;
          let (mapping, w) = test_mappings [0..<5] w;
          em \<leftarrow> test_each (test_add_new time) mapping em;
          em \<leftarrow> test_remove em (ADDRESS_IPV6 (garbage[7 := 1]) 50000) False time;
          em \<leftarrow> test_remove em (fst (mapping ! 0)) True time;
          em \<leftarrow> test_remove em (fst (mapping ! 4)) True time;
          em \<leftarrow> test_each (\<lambda>i em. test_lookup em (mapping ! i) (i \<noteq> 0 \<and> i \<noteq> 4) time) [0..<5] em;
          em \<leftarrow> test_add em (mapping ! 0) time (- 1);
          em \<leftarrow> test_add em (mapping ! 4) time (- 1);
          em \<leftarrow> test_each (\<lambda>m em. test_lookup em m True time) mapping em;
          let time = time + of_int TEST_TIMEOUT_SECONDS * 2;
          em \<leftarrow> test_each (\<lambda>m em. test_lookup em m False time) mapping em;
          em \<leftarrow> test_each (test_add_new time) mapping em;
          let em = netcode_encryption_manager_reset;
          em \<leftarrow> test_each (\<lambda>m em. test_lookup em m False time) mapping em;
          em \<leftarrow> test_add em (mapping ! 0) time (time + 1);
          let (encryption_index, em) = netcode_encryption_manager_find_encryption_mapping em (fst (mapping ! 0)) time;
          check (encryption_index \<noteq> None);
          let (r, em) = netcode_encryption_manager_find_encryption_mapping em (fst (mapping ! 0)) (time + 9227469 / 2 ^ 23);
          check (r = None);
          em \<leftarrow> netcode_encryption_manager_set_expire_time em encryption_index (- 1);
          let (r, em) = netcode_encryption_manager_find_encryption_mapping em (fst (mapping ! 0)) time;
          check (r = encryption_index);
          Some w }"

section \<open>The run\<close>

text \<open>\<^verbatim>\<open>netcode_test\<close>, up to the first test that needs the network simulator. It does not run the test of
  the keep-alive packet.\<close>

definition netcode_test :: "crypto \<Rightarrow> inet \<Rightarrow> u16 list \<Rightarrow> world \<Rightarrow> world option" where
  "netcode_test cr inet garbage w =
     do { h \<leftarrow> test_queue (w_heap w);
          let w = w\<lparr>w_heap := h\<rparr>;
          test_endian;
          test_address inet;
          test_sequence;
          w \<leftarrow> test_connect_token cr w;
          w \<leftarrow> test_challenge_token cr w;
          w \<leftarrow> test_connection_request_packet cr w;
          w \<leftarrow> test_connection_denied_packet cr w;
          w \<leftarrow> test_connection_challenge_packet cr w;
          w \<leftarrow> test_connection_response_packet cr w;
          w \<leftarrow> test_connection_payload_packet cr w;
          w \<leftarrow> test_connection_disconnect_packet cr w;
          w \<leftarrow> test_connect_token_public cr w;
          w \<leftarrow> test_encryption_manager garbage w;
          test_replay_protection;
          Some w }"

section \<open>Tests without a world\<close>

lemma test_endian_passes: "test_endian = Some ()"
  by code_simp

lemma test_sequence_passes: "test_sequence = Some ()"
  by code_simp

lemma test_received_seen:
  assumes "replay_inv rp S" and "\<forall>s \<in> set ss. unat s < 2 ^ 63" and "\<forall>s \<in> set ss. s \<in> S \<or> unat s + 256 \<le> newest S"
  shows "\<exists>rp'. test_received True ss rp = Some rp' \<and> replay_inv rp' S"
  using assms
proof (induction ss arbitrary: rp)
  case (Cons s ss)
  obtain r rp1 where r: "netcode_replay_protection_packet_already_received rp s = (r, rp1)" by fastforce
  have "unat s < 2 ^ 63" using Cons.prems(2) by simp
  from already_received_spec [OF Cons.prems(1) this r] Cons.prems(3) have "r" "replay_inv rp1 S" by auto
  with Cons r show ?case by auto
qed simp

lemma test_received_new:
  assumes "replay_inv rp S" and "\<forall>s \<in> set ss. unat s < 2 ^ 63" and "sorted_wrt (<) (map unat ss)" and "\<forall>s \<in> set ss. \<forall>t \<in> S. unat t < unat s"
  shows "\<exists>rp'. test_received False ss rp = Some rp' \<and> replay_inv rp' (set ss \<union> S)"
  using assms
proof (induction ss arbitrary: rp S)
  case (Cons s ss)
  obtain r rp1 where r: "netcode_replay_protection_packet_already_received rp s = (r, rp1)" by fastforce
  have s: "unat s < 2 ^ 63" using Cons.prems(2) by simp
  have fin: "finite S" using Cons.prems(1) by (simp add: replay_inv_def)
  have "newest S \<le> unat s" using fin Cons.prems(4) by (auto simp: newest_def less_imp_le)
  with already_received_spec [OF Cons.prems(1) s r] Cons.prems(4) have "\<not> r" "replay_inv rp1 (insert s S)" by auto
  moreover from Cons.IH [OF this(2)] Cons.prems obtain rp' where
    "test_received False ss rp1 = Some rp'" "replay_inv rp' (set ss \<union> insert s S)" by auto
  ultimately show ?case using r by auto
qed simp


lemmas em_test_defs = test_add_new_def test_add_def test_lookup_def test_remove_def netcode_encryption_manager_reset_def
  netcode_encryption_manager_find_encryption_mapping_def netcode_encryption_manager_add_encryption_mapping_def
  netcode_encryption_manager_remove_encryption_mapping_def netcode_encryption_manager_set_expire_time_def
  netcode_encryption_manager_get_send_key_def netcode_encryption_manager_get_receive_key_def
  first_index_def em_matches_def em_free_def em_set_entry_def em_index_def zero_address_def netcode_address_equal.simps Let_def

text \<open>Arguments before bodies.\<close>

lemma bind_cong_weak: "(m :: 'a option) = m' \<Longrightarrow> m \<bind> f = m' \<bind> f"
  by simp

lemma test_each_cong_weak: "ms = ms' \<Longrightarrow> s = s' \<Longrightarrow> test_each f ms s = test_each f ms' s'"
  by simp

lemma first_index_from_numeral:
  "first_index_from p i (numeral k) = (if p i then Some i else first_index_from p (Suc i) (pred_numeral k))"
  by (simp add: numeral_eq_Suc)

lemma upt5: "[0..<5] = [0, 1, 2, 3, 4::nat]" by (simp add: upt_rec)

lemma test_encryption_manager_passes:
  "\<exists>n. test_encryption_manager garbage w = Some (w\<lparr>w_random_next := n\<rparr>)"
proof -
  obtain a b c d e f g h i j n where m: "test_mappings [0..<5] w =
    ([(ADDRESS_IPV6 [0, 0, 0, 0, 0, 0, 0, 1] 20000, a, b), (ADDRESS_IPV6 [0, 0, 0, 0, 0, 0, 0, 1] 20001, c, d),
      (ADDRESS_IPV6 [0, 0, 0, 0, 0, 0, 0, 1] 20002, e, f), (ADDRESS_IPV6 [0, 0, 0, 0, 0, 0, 0, 1] 20003, g, h),
      (ADDRESS_IPV6 [0, 0, 0, 0, 0, 0, 0, 1] 20004, i, j)], w\<lparr>w_random_next := n\<rparr>)"
    by (simp add: upt5 netcode_generate_key_def netcode_random_bytes_def)
  show ?thesis
    unfolding test_encryption_manager_def m Let_def prod.case
    unfolding upt5
    by (simp add: em_test_defs first_index_from_numeral cong: let_weak_cong bind_cong_weak test_each_cong_weak option.case_cong_weak prod.case_cong_weak) (rule exI, rule refl)
qed


lemma test_replay_round_passes: "test_replay_round = Some ()"
proof -
  have nat: "unat (of_nat n :: u64) = n" if "n < 2000" for n
    using that by (simp add: unat_of_nat)
  have up: "\<forall>s \<in> set (map of_nat [a..<b] :: u64 list). unat s < 2 ^ 63" if "b \<le> 1024" for a b
    using that by (auto simp: nat)
  have high: "test_received False [push_bit 63 1] netcode_replay_protection_reset = Some netcode_replay_protection_reset"
    using already_received_high [of "push_bit 63 1"] by simp
  let ?S = "set (map of_nat [0..<1024]) :: u64 set"
  have sorted: "sorted_wrt (<) (map unat (map of_nat [0..<1024] :: u64 list))"
    by (simp add: sorted_wrt_map sorted_wrt_iff_nth_less nat)
  obtain r1 where r1: "test_received False (map of_nat [0..<1024]) netcode_replay_protection_reset = Some r1" "replay_inv r1 ?S"
    using test_received_new [OF replay_inv_reset up sorted] by auto
  have "newest ?S = 1023"
    unfolding newest_def by (rule Max_eqI) (auto simp: nat intro!: image_eqI [of _ _ "of_nat 1023"])
  then obtain r2 where r2: "test_received True [0] r1 = Some r2" "replay_inv r2 ?S"
    using test_received_seen [OF r1(2), of "[0]"] by auto
  have sub: "\<forall>s \<in> set (map of_nat [1014..<1024]). s \<in> ?S \<or> unat s + 256 \<le> newest ?S"
    by (rule ballI, rule disjI1) (unfold set_map set_upt, erule rev_subsetD, rule image_mono, simp)
  obtain r3 where r3: "test_received True (map of_nat [1014..<1024]) r2 = Some r3" "replay_inv r3 ?S"
    using test_received_seen [OF r2(2) up sub] by auto
  have new: "\<forall>s \<in> set [1024 + 256 :: u64]. \<forall>t \<in> ?S. unat t < unat s" by (auto simp: nat)
  obtain r4 where r4: "test_received False [1024 + 256] r3 = Some r4" "replay_inv r4 (set [1024 + 256] \<union> ?S)"
    using test_received_new [OF r3(2) _ _ new] by auto
  have all: "\<forall>s \<in> set (map of_nat [0..<1024]). s \<in> set [1024 + 256] \<union> ?S \<or> unat s + 256 \<le> newest (set [1024 + 256] \<union> ?S)" by auto
  obtain r5 where "test_received True (map of_nat [0..<1024]) r4 = Some r5"
    using test_received_seen [OF r4(2) up all] by auto
  with r1(1) r2(1) r3(1) r4(1) high show ?thesis
    by (simp add: test_replay_round_def netcode_replay_protection_reset_def del: test_received.simps upt_Suc)
qed


lemma test_replay_protection_passes: "test_replay_protection = Some ()"
  by (simp add: test_replay_protection_def test_replay_round_passes)

section \<open>The queue test\<close>

text \<open>Where the tests take place, and what they leave: the blocks that were there.\<close>

definition test_heap :: "block heap \<Rightarrow> bool" where
  "test_heap h \<longleftrightarrow> heap_inv h \<and> (\<forall>n. \<not> h_out_of_memory h n)"

definition heap_restored :: "block heap \<Rightarrow> block heap \<Rightarrow> bool" where
  "heap_restored h h' \<longleftrightarrow> test_heap h' \<and> h_blocks h' = h_blocks h"

text \<open>\<open>ps\<close> was allocated in the heap \<open>h\<close>, and is in the queue.\<close>

definition queue_test_state :: "block heap \<Rightarrow> nat list \<Rightarrow> nat \<Rightarrow> packet_queue \<Rightarrow> block heap \<Rightarrow> bool" where
  "queue_test_state h ps i queue h' \<longleftrightarrow> queue_inv queue \<and> test_heap h'
     \<and> queue_contents queue = zip ps (map of_nat [i..<i + length ps]) \<and> distinct ps \<and> live h \<inter> set ps = {}
     \<and> set ps \<subseteq> live h' \<and> h_blocks h' |` (- set ps) = h_blocks h"

lemma queue_test_push:
  assumes st: "queue_test_state h ps i queue h'" and room: "length ps < 256"
  shows "\<exists>p h2. netcode_default_allocate_function (Buffer_block []) h' = (Some p, h2)
    \<and> netcode_packet_queue_push queue p (of_nat (i + length ps)) h2 = Some (True, queue_append queue p (of_nat (i + length ps)), h2)
    \<and> queue_test_state h (ps @ [p]) i (queue_append queue p (of_nat (i + length ps))) h2
    \<and> pq_start_index (queue_append queue p (of_nat (i + length ps))) = pq_start_index queue"
proof -
  let ?p = "h_next h'" let ?h = "h'\<lparr>h_blocks := (h_blocks h')(?p \<mapsto> Buffer_block []), h_next := ?p + 1\<rparr>"
  have q: "queue_inv queue" "test_heap h'" "queue_contents queue = zip ps (map of_nat [i..<i + length ps])"
    "distinct ps" "live h \<inter> set ps = {}" "set ps \<subseteq> live h'" "h_blocks h' |` (- set ps) = h_blocks h"
    using st by (auto simp: queue_test_state_def)
  have n: "pq_num_packets queue = length ps" using arg_cong [OF q(3), of length] by simp
  have fresh: "?p \<notin> live h'" using q(2) fresh_not_live by (auto simp: test_heap_def)
  have al: "netcode_default_allocate_function (Buffer_block []) h' = (Some ?p, ?h)"
    using q(2) by (simp add: netcode_default_allocate_function_def test_heap_def)
  have "test_heap ?h" using q(2) allocate_inv [OF _ al] by (simp add: test_heap_def)
  moreover have "queue_contents (queue_append queue ?p (of_nat (i + length ps))) = zip (ps @ [?p]) (map of_nat [i..<i + length (ps @ [?p])])"
    using queue_append_law(2) [OF q(1)] room n q(3) by simp
  moreover have "?p \<notin> live h" using fresh q(6,7) by (auto simp: live_def restrict_map_def split: if_splits dest!: fun_cong [of _ _ ?p])
  moreover have "h_blocks ?h |` (- set (ps @ [?p])) = h_blocks h"
    using q(7) fresh by (auto simp: restrict_map_def fun_eq_iff live_def split: if_splits)
  moreover have "queue_inv (queue_append queue ?p (of_nat (i + length ps)))"
    using queue_append_law(1) [OF q(1)] room n by simp
  moreover have "insert ?p (set ps) \<subseteq> live ?h" using q(6) by (auto simp: live_def)
  ultimately have "queue_test_state h (ps @ [?p]) i (queue_append queue ?p (of_nat (i + length ps))) ?h"
    using q(4,5,6) fresh by (auto simp: queue_test_state_def)
  then show ?thesis
    using al room n by (auto simp: netcode_packet_queue_push_def queue_append_def Let_def)
qed

lemma queue_test_pushes:
  "queue_test_state h ps i queue h' \<Longrightarrow> length ps + k \<le> 256 \<Longrightarrow>
   \<exists>qs queue2 h2. test_push k (i + length ps) queue h' = Some (qs, queue2, h2) \<and> length qs = k
    \<and> queue_test_state h (ps @ qs) i queue2 h2 \<and> pq_start_index queue2 = pq_start_index queue"
proof (induction k arbitrary: ps queue h')
  case (Suc k)
  then obtain p h2 where p: "netcode_default_allocate_function (Buffer_block []) h' = (Some p, h2)"
    "netcode_packet_queue_push queue p (of_nat (i + length ps)) h2 = Some (True, queue_append queue p (of_nat (i + length ps)), h2)"
    "queue_test_state h (ps @ [p]) i (queue_append queue p (of_nat (i + length ps))) h2"
    "pq_start_index (queue_append queue p (of_nat (i + length ps))) = pq_start_index queue"
    using queue_test_push [OF Suc.prems(1)] by auto
  have "length (ps @ [p]) + k \<le> 256" using Suc.prems(2) by simp
  from Suc.IH [OF p(3) this] p show ?case by auto
qed auto

lemma queue_test_pops:
  "queue_test_state h ps i queue h' \<Longrightarrow>
   \<exists>queue2 h2. test_pop ps i queue h' = Some (queue2, h2) \<and> queue_test_state h [] (i + length ps) queue2 h2
     \<and> pq_start_index queue2 = (pq_start_index queue + length ps) mod 256"
proof (induction ps arbitrary: i queue h')
  case Nil
  then show ?case by (simp add: queue_test_state_def queue_inv_def)
next
  case (Cons p ps)
  have up: "[i..<i + length (p # ps)] = i # [Suc i..<Suc i + length ps]" by (simp add: upt_conv_Cons del: upt_Suc)
  have q: "queue_inv queue" "test_heap h'" "queue_contents queue = (p, of_nat i) # zip ps (map of_nat [Suc i..<Suc i + length ps])"
    "distinct (p # ps)" "live h \<inter> set (p # ps) = {}" "set (p # ps) \<subseteq> live h'" "h_blocks h' |` (- set (p # ps)) = h_blocks h"
    using Cons.prems unfolding queue_test_state_def up by simp_all
  obtain r s queue2 where pop: "netcode_packet_queue_pop queue = (r, s, queue2)" by (rule prod_cases3)
  from queue_pop_law [OF q(1) pop] q(3) have r: "r = Some p" "s = Some (of_nat i)" "queue_inv queue2"
    "queue_contents queue2 = zip ps (map of_nat [Suc i..<Suc i + length ps])" by auto
  let ?h = "h'\<lparr>h_blocks := (h_blocks h')(p := None)\<rparr>"
  have free: "netcode_default_free_function (Some p) h' = Some ?h"
    using q(6) by (simp add: netcode_default_free_function.simps(2) live_def)
  have st: "queue_test_state h ps (Suc i) queue2 ?h"
    using q r(3,4) heap_inv_free [of h' p]
    by (auto simp: queue_test_state_def test_heap_def restrict_map_def fun_eq_iff split: if_splits)
  have "pq_num_packets queue \<noteq> 0" using arg_cong [OF q(3), of length] by simp
  then have "pq_start_index queue2 = (pq_start_index queue + 1) mod 256" using pop by (auto simp: netcode_packet_queue_pop_def)
  with Cons.IH [OF st] pop r free show ?case by (auto simp: mod_simps)
qed


text \<open>A full queue is cleared of all that it holds wherever it starts: all slots are in use.\<close>

lemma clear_full_queue:
  assumes "queue_inv q" and "pq_num_packets q = 256"
    and "distinct (map fst (queue_contents q))" and "fst ` set (queue_contents q) \<subseteq> live h"
  shows "netcode_packet_queue_clear q h = Some (netcode_packet_queue_init, release (map fst (queue_contents q)) h)"
proof -
  let ?d = "pq_packet_data q" and ?s = "pq_start_index q"
  have d: "length ?d = 256" "?s < 256" "\<And>i. i < 256 \<Longrightarrow> ?d ! ((?s + i) mod 256) \<noteq> None"
    using assms(1,2) by (auto simp: queue_inv_def queue_slot_def Let_def)
  have slot: "\<exists>i<256. j = (?s + i) mod 256" if "j < 256" for j
    using that d(2) by (intro exI [of _ "(j + 256 - ?s) mod 256"]) (simp add: mod_simps)
  have contents: "map fst (queue_contents q) = map (\<lambda>i. the (?d ! ((?s + i) mod 256))) [0..<256]"
    by (simp add: queue_contents_def queue_slot_def Let_def comp_def assms(2) del: upt_Suc)
  have bij: "(\<lambda>i. (?s + i) mod 256) ` {0..<256} = {0..<256}"
  proof (intro equalityI subsetI)
    fix j :: nat assume "j \<in> {0..<256}"
    with slot [of j] show "j \<in> (\<lambda>i. (?s + i) mod 256) ` {0..<256}" by auto
  qed auto
  let ?ps = "map the ?d"
  have set: "set ?ps = set (map fst (queue_contents q))"
  proof -
    have "set ?d = (!) ?d ` {0..<256}" using d(1) by (auto simp: set_conv_nth)
    then have "set ?ps = (\<lambda>j. the (?d ! j)) ` {0..<256}" by (simp add: image_image)
    also have "\<dots> = (\<lambda>i. the (?d ! ((?s + i) mod 256))) ` {0..<256}" by (subst bij [symmetric]) (simp only: image_image)
    finally show ?thesis by (simp add: contents del: upt_Suc)
  qed
  have "card (set ?ps) = 256" unfolding set using distinct_card [OF assms(3)] assms(2) by simp
  then have "distinct ?ps" using d(1) by (intro card_distinct) simp
  moreover have "?d ! (0 + j) = Some (?ps ! j)" if "j < 256" for j
    using slot [OF that] d(1,3) that by auto
  ultimately have "queue_free_slots 256 0 ?d h = Some (release ?ps h)"
    by (intro free_slots) (use d(1) set assms(4) in auto)
  moreover have "release ?ps h = release (map fst (queue_contents q)) h" by (simp only: release_def set)
  ultimately show ?thesis
    using assms(2) by (cases q) (simp add: netcode_packet_queue_clear_def netcode_packet_queue_init_def)
qed

lemma test_queue_passes:
  assumes "test_heap h"
  shows "runs (test_queue h) (heap_restored h)"
proof -
  have start: "queue_test_state h [] 0 q h'" if "queue_inv q" "queue_contents q = []" "test_heap h'" "h_blocks h' = h_blocks h" for q h'
    using that by (simp add: queue_test_state_def live_def restrict_map_def)
  have empty: "queue_inv q" "queue_contents q = []" "test_heap h'" "h_blocks h' = h_blocks h" "pq_num_packets q = 0"
    if "queue_test_state h [] i q h'" for q i h'
    using that by (auto simp: queue_test_state_def restrict_map_def dest: arg_cong [of _ _ length])
  have num: "pq_num_packets q = length ps" if "queue_test_state h ps i q h'" for ps i q h'
  proof -
    have "length (queue_contents q) = length ps"
      using that by (simp add: queue_test_state_def del: upt_Suc length_queue_contents)
    then show ?thesis by simp
  qed
  obtain ps q1 h1 where p1: "test_push 100 0 netcode_packet_queue_init h = Some (ps, q1, h1)" "length ps = 100"
    "queue_test_state h ps 0 q1 h1"
    using queue_test_pushes [OF start [of netcode_packet_queue_init h], of 100] assms by auto
  obtain q2 h2 where p2: "test_pop ps 0 q1 h1 = Some (q2, h2)" "queue_test_state h [] 100 q2 h2"
    using queue_test_pops [OF p1(3)] p1(2) by auto
  note e2 = empty [OF p2(2)]
  obtain ps3 q3 h3 where p3: "test_push 256 0 q2 h2 = Some (ps3, q3, h3)" "length ps3 = 256" "queue_test_state h ps3 0 q3 h3"
    using queue_test_pushes [OF start [OF e2(1-4)], of 256] by auto
  obtain p4 h4 where p4: "netcode_default_allocate_function (Buffer_block []) h3 = (Some p4, h4)" "test_heap h4" "h_blocks h4 = (h_blocks h3)(p4 \<mapsto> Buffer_block [])"
    "p4 \<notin> live h3"
    using p3(3) allocate_inv [of h3 "Buffer_block []"] fresh_not_live [of h3]
    by (auto simp: queue_test_state_def test_heap_def netcode_default_allocate_function_def)
  let ?h = "h4\<lparr>h_blocks := (h_blocks h4)(p4 := None)\<rparr>"
  have full: "netcode_packet_queue_push q3 p4 0 h4 = Some (False, q3, ?h)"
    using num [OF p3(3)] p3(2) p4(3) by (simp add: netcode_packet_queue_push_def netcode_default_free_function.simps(2))
  have "h_blocks ?h = h_blocks h3" using p4(3,4) by (simp add: live_def fun_upd_idem domIff)
  then have "queue_test_state h ps3 0 q3 ?h"
    using p3(3) p4(2) heap_inv_free [of h4 p4] by (simp add: queue_test_state_def test_heap_def live_def)
  from queue_test_pops [OF this] p3(2) obtain q5 h5 where p5: "test_pop ps3 0 q3 ?h = Some (q5, h5)" "queue_test_state h [] 256 q5 h5"
    by auto
  note e5 = empty [OF p5(2)]
  obtain ps6 q6 h6 where p6: "test_push 256 0 q5 h5 = Some (ps6, q6, h6)" "length ps6 = 256" "queue_test_state h ps6 0 q6 h6"
    using queue_test_pushes [OF start [OF e5(1-4)], of 256] by auto
  have "map fst (queue_contents q6) = ps6" using p6(3) by (simp add: queue_test_state_def del: upt_Suc)
  moreover from this have "fst ` set (queue_contents q6) = set ps6" by (metis set_map)
  ultimately have clear: "netcode_packet_queue_clear q6 h6 = Some (netcode_packet_queue_init, release ps6 h6)"
    using clear_full_queue [of q6 h6] p6(2,3) num [OF p6(3)] by (simp add: queue_test_state_def del: upt_Suc)
  have "heap_restored h (release ps6 h6)"
    using p6(3) by (simp add: queue_test_state_def heap_restored_def test_heap_def heap_inv_release) (simp add: release_def)
  then show ?thesis
    using p1 p2 p3 p4(1) full p5 p6(1) clear num [OF p1(3)] num [OF p3(3)] e2(5) e5(5)
    by (simp add: test_queue_def Let_def netcode_packet_queue_pop_def del: test_push.simps test_pop.simps)
      (simp add: netcode_packet_queue_init_def)
qed

section \<open>Tokens\<close>

definition test_world :: "world \<Rightarrow> bool" where
  "test_world w \<longleftrightarrow> test_heap (w_heap w) \<and> unat (w_timestamp w) + 30 < 2 ^ 64"

definition world_restored :: "world \<Rightarrow> world \<Rightarrow> bool" where
  "world_restored w w' \<longleftrightarrow> heap_restored (w_heap w) (w_heap w') \<and> w_timestamp w' = w_timestamp w"

lemma world_restored_refl: "test_world w \<Longrightarrow> world_restored w (w\<lparr>w_random_next := n\<rparr>)"
  by (simp add: test_world_def world_restored_def heap_restored_def)

lemma check_ok_simps [simp]: "check_ok (NETCODE_OK x) = Some x" "check_ok NETCODE_ERROR = None"
  by (simp_all add: check_ok_def)

lemma random_bytes_cases:
  obtains bs m where "netcode_random_bytes n w = (bs, w\<lparr>w_random_next := m\<rparr>)" and "length bs = n"
  by (simp add: netcode_random_bytes_def)

lemma generate_key_cases:
  obtains key m where "netcode_generate_key w = (key, w\<lparr>w_random_next := m\<rparr>)" and "length key = NETCODE_KEY_BYTES"
  unfolding netcode_generate_key_def by (rule random_bytes_cases)

lemma test_private_token_passes:
  obtains t plain n where "test_private_token w = Some (t, plain, w\<lparr>w_random_next := n\<rparr>)"
    and "connect_token_private_wf t" and "rest_zero (ctp_num_server_addresses t) (ctp_server_addresses t)"
    and "netcode_write_connect_token_private t 1024 = Some plain" and "length plain = 1024"
    and "ctp_num_server_addresses t = 1" and "ctp_timeout_seconds t = 5" and "ctp_client_id t = 1"
proof -
  obtain ud m1 where ud: "netcode_random_bytes 256 w = (ud, w\<lparr>w_random_next := m1\<rparr>)" "length ud = 256" by (rule random_bytes_cases)
  obtain k1 m2 where k1: "netcode_generate_key (w\<lparr>w_random_next := m1\<rparr>) = (k1, w\<lparr>w_random_next := m1, w_random_next := m2\<rparr>)" "length k1 = 32"
    by (rule generate_key_cases)
  obtain k2 m3 where k2: "netcode_generate_key (w\<lparr>w_random_next := m2\<rparr>) = (k2, w\<lparr>w_random_next := m2, w_random_next := m3\<rparr>)" "length k2 = 32"
    by (rule generate_key_cases)
  let ?as = "[test_server_address] @ replicate 31 zero_address"
  let ?t = "\<lparr>ctp_client_id = 1, ctp_timeout_seconds = 5, ctp_num_server_addresses = 1, ctp_server_addresses = ?as,
     ctp_client_to_server_key = k1, ctp_server_to_client_key = k2, ctp_user_data = ud\<rparr>"
  have as: "server_addresses_ok 1 ?as" "rest_zero 1 ?as"
    using padded_addresses_ok [of "[test_server_address]"] by (simp_all add: address_ok_def)
  have wf: "connect_token_private_wf ?t"
    using as(1) ud(2) k1(2) k2(2) by (simp add: connect_token_private_wf_def int32_def)
  moreover have rz: "rest_zero (ctp_num_server_addresses ?t) (ctp_server_addresses ?t)" using as(2) by simp
  obtain v where v: "netcode_write_connect_token_private ?t 1024 = Some (v @ replicate (1024 - length v) 0)" "length v \<le> 1008"
    using private_token_written [OF wf rz] by metis
  moreover from this have "test_private_token w = Some (?t, v @ replicate (1024 - length v) 0, w\<lparr>w_random_next := m3\<rparr>)"
    using ud k1 k2 by (simp add: test_private_token_def netcode_generate_connect_token_private_def address_equal_refl Let_def)
  ultimately show ?thesis using rz by (intro that [of ?t "v @ replicate (1024 - length v) 0" m3]) simp_all
qed

lemma test_challenge_token_passes:
  assumes laws: "aead_laws cr" and w: "test_world w"
  shows "runs (test_challenge_token cr w) (world_restored w)"
proof -
  obtain ud m1 where ud: "netcode_random_bytes 256 w = (ud, w\<lparr>w_random_next := m1\<rparr>)" "length ud = 256" by (rule random_bytes_cases)
  obtain key m2 where key: "netcode_generate_key (w\<lparr>w_random_next := m1\<rparr>) = (key, w\<lparr>w_random_next := m1, w_random_next := m2\<rparr>)"
    "length key = 32" by (rule generate_key_cases)
  let ?t = "\<lparr>cht_client_id = 1, cht_user_data = ud\<rparr>"
  obtain plain sealed opened where "netcode_write_challenge_token ?t 300 = Some plain"
    "netcode_encrypt_challenge_token cr plain 1000 key = Some (NETCODE_OK sealed)"
    "netcode_decrypt_challenge_token cr sealed 1000 key = Some (NETCODE_OK opened)"
    "netcode_read_challenge_token opened = Some (NETCODE_OK ?t)"
    by (rule sealed_challenge_token [OF laws key(2), of ?t 1000]) (use ud in simp_all)
  with ud key world_restored_refl [OF w] show ?thesis by (simp add: test_challenge_token_def Let_def)
qed

lemma sealed_plain_token:
  assumes laws: "aead_laws cr" and key: "length key = NETCODE_KEY_BYTES"
    and t: "connect_token_private_wf t" "rest_zero (ctp_num_server_addresses t) (ctp_server_addresses t)"
    and plain: "netcode_write_connect_token_private t 1024 = Some plain" "length plain = 1024"
  obtains sealed opened where
      "netcode_encrypt_connect_token_private cr plain vi pid expire sequence key = Some (NETCODE_OK sealed)"
    and "length sealed = 1024"
    and "netcode_decrypt_connect_token_private cr sealed vi pid expire sequence key = Some (NETCODE_OK opened)"
    and "length opened = 1024" and "netcode_read_connect_token_private opened = Some (NETCODE_OK t)"
    and "take 1008 opened = take 1008 plain"
proof -
  obtain plain' sealed opened where s: "netcode_write_connect_token_private t 1024 = Some plain'"
    "netcode_encrypt_connect_token_private cr plain' vi pid expire sequence key = Some (NETCODE_OK sealed)" "length sealed = 1024"
    "netcode_decrypt_connect_token_private cr sealed vi pid expire sequence key = Some (NETCODE_OK opened)"
    "length opened = 1024" "netcode_read_connect_token_private opened = Some (NETCODE_OK t)"
    using sealed_private_token [OF laws key t] .
  have [simp]: "plain' = plain" using plain(1) s(1) by simp
  obtain c where c: "netcode_encrypt_aead cr (take 1008 plain) (connect_token_additional_data vi pid expire) (sequence_nonce sequence) key
      = Some (NETCODE_OK c)" "length c = length (take 1008 plain) + 16"
    "netcode_decrypt_aead cr c (connect_token_additional_data vi pid expire) (sequence_nonce sequence) key = Some (NETCODE_OK (take 1008 plain))"
    by (rule encrypt_aead_ok [OF laws length_sequence_nonce key])
  have "sealed = c" using s(2) c(1) plain(2) by (simp add: netcode_encrypt_connect_token_private_def)
  then have "take 1008 opened = take 1008 plain"
    using s(4) c plain(2) by (auto simp: netcode_decrypt_connect_token_private_def)
  with s(2-6) show ?thesis by (intro that [of sealed opened]) simp_all
qed

lemma private_token_address: "connect_token_private_wf t \<Longrightarrow> address_type (ctp_server_addresses t ! 0) \<noteq> 0"
  by (auto simp: connect_token_private_wf_def server_addresses_ok_def address_ok_def)

lemma test_connect_token_passes:
  assumes laws: "aead_laws cr" and w: "test_world w"
  shows "runs (test_connect_token cr w) (world_restored w)"
proof -
  obtain t plain n where t: "test_private_token w = Some (t, plain, w\<lparr>w_random_next := n\<rparr>)" "connect_token_private_wf t"
    "rest_zero (ctp_num_server_addresses t) (ctp_server_addresses t)" "netcode_write_connect_token_private t 1024 = Some plain" "length plain = 1024"
    by (rule test_private_token_passes)
  obtain key m where key: "netcode_generate_key (w\<lparr>w_random_next := n\<rparr>) = (key, w\<lparr>w_random_next := n, w_random_next := m\<rparr>)"
    "length key = 32" by (rule generate_key_cases)
  obtain sealed opened where
    "netcode_encrypt_connect_token_private cr plain NETCODE_VERSION_INFO TEST_PROTOCOL_ID (w_timestamp w + 30) 1000 key = Some (NETCODE_OK sealed)"
    "netcode_decrypt_connect_token_private cr sealed NETCODE_VERSION_INFO TEST_PROTOCOL_ID (w_timestamp w + 30) 1000 key = Some (NETCODE_OK opened)"
    "netcode_read_connect_token_private opened = Some (NETCODE_OK t)"
    by (rule sealed_plain_token [OF laws key(2) t(2-5)])
  then have "test_connect_token cr w = Some (w\<lparr>w_random_next := m\<rparr>)"
    using private_token_address [OF t(2)] by (simp add: test_connect_token_def t(1) key(1) cong: let_weak_cong)
  with world_restored_refl [OF w] show ?thesis by simp
qed

lemma test_connect_token_public_passes:
  assumes laws: "aead_laws cr" and w: "test_world w"
  shows "runs (test_connect_token_public cr w) (world_restored w)"
proof -
  obtain t plain n where t: "test_private_token w = Some (t, plain, w\<lparr>w_random_next := n\<rparr>)" "connect_token_private_wf t"
    "rest_zero (ctp_num_server_addresses t) (ctp_server_addresses t)" "netcode_write_connect_token_private t 1024 = Some plain" "length plain = 1024"
    by (rule test_private_token_passes)
  obtain key m where key: "netcode_generate_key (w\<lparr>w_random_next := n\<rparr>) = (key, w\<lparr>w_random_next := n, w_random_next := m\<rparr>)"
    "length key = 32" by (rule generate_key_cases)
  obtain sealed where sealed:
    "netcode_encrypt_connect_token_private cr plain NETCODE_VERSION_INFO TEST_PROTOCOL_ID (w_timestamp w + 30) 1000 key = Some (NETCODE_OK sealed)"
    "length sealed = 1024"
    by (rule sealed_plain_token [OF laws key(2) t(2-5)])
  let ?p = "zero_connect_token\<lparr>ct_version_info := NETCODE_VERSION_INFO, ct_protocol_id := TEST_PROTOCOL_ID,
      ct_create_timestamp := w_timestamp w, ct_expire_timestamp := w_timestamp w + 30, ct_sequence := 1000,
      ct_private_data := sealed, ct_num_server_addresses := 1,
      ct_server_addresses := (ct_server_addresses zero_connect_token)[0 := test_server_address],
      ct_client_to_server_key := ctp_client_to_server_key t, ct_server_to_client_key := ctp_server_to_client_key t,
      ct_timeout_seconds := 5\<rparr>"
  have "w_timestamp w \<le> w_timestamp w + 30"
    using w by (simp add: test_world_def word_le_nat_alt unat_word_ariths)
  then have "connect_token_wf ?p"
    using t(2) sealed(2)
    by (simp add: connect_token_wf_def connect_token_private_wf_def server_addresses_ok_def zero_connect_token_def int32_def address_ok_def)
  from connect_token_written [OF this] obtain v where v: "netcode_write_connect_token ?p 2048 = Some (v @ replicate (2048 - length v) 0)" "length v \<le> 1749"
    "\<And>tail old. length tail + length v = 2048 \<Longrightarrow> netcode_read_connect_token (v @ tail) old = Some (True,
       ?p\<lparr>ct_server_addresses := overwrite (nat (ct_num_server_addresses ?p)) 0 (ct_server_addresses ?p) (ct_server_addresses old)\<rparr>)"
    by blast
  have "netcode_read_connect_token (v @ replicate (2048 - length v) 0) zero_connect_token = Some (True,
       ?p\<lparr>ct_server_addresses := overwrite 1 0 (ct_server_addresses ?p) (ct_server_addresses zero_connect_token)\<rparr>)"
    using v(3) [of "replicate (2048 - length v) 0" zero_connect_token] v(2) by simp
  then have "test_connect_token_public cr w = Some (w\<lparr>w_random_next := m\<rparr>)"
    using v(1) sealed(1)
    by (simp add: test_connect_token_public_def t(1) key(1) cong: let_weak_cong)
  with world_restored_refl [OF w] show ?thesis by simp
qed

section \<open>Packets\<close>

lemma test_packet_run:
  assumes laws: "aead_laws cr" and w: "test_heap (w_heap w)" and wf: "packet_wf packet" "\<not> is_request packet"
    and fits: "wire_bytes packet 1000 \<le> NETCODE_MAX_PACKET_BYTES"
  obtains w1 m where "w1 = w\<lparr>w_random_next := m, w_heap := snd (netcode_default_allocate_function (Packet_block packet) (w_heap w))\<rparr>"
    and "test_packet cr packet compare w = do { w \<leftarrow> compare packet w1; w_free (Some (h_next (w_heap w1) - 1)) w }"
proof -
  obtain key m where key: "netcode_generate_key w = (key, w\<lparr>w_random_next := m\<rparr>)" "length key = 32" by (rule generate_key_cases)
  obtain d where d: "netcode_write_packet cr packet NETCODE_MAX_PACKET_BYTES 1000 key TEST_PROTOCOL_ID = Some (NETCODE_OK d)"
    "carries cr TEST_PROTOCOL_ID key 1000 d packet"
    by (rule datagram_written [OF laws wf key(2) fits])
  have heap: "heap_inv (w_heap w)" "\<not> h_out_of_memory (w_heap w) n" for n using w by (auto simp: test_heap_def)
  have "unat (packet_type packet) < 7" by (rule packet_type_less)
  then have "replicate 7 True ! unat (packet_type packet)" by simp
  with d(2) heap(2) have read: "netcode_read_packet cr d (Some key) TEST_PROTOCOL_ID (w_timestamp w) None (replicate 7 True) None (w_heap w)
      = Some (Some (h_next (w_heap w)), 1000, None, snd (netcode_default_allocate_function (Packet_block packet) (w_heap w)))"
    by (simp add: carries_def check_replay_def)
  let ?w = "w\<lparr>w_random_next := m\<rparr>"
  let ?w1 = "?w\<lparr>w_heap := snd (netcode_default_allocate_function (Packet_block packet) (w_heap w))\<rparr>"
  have block: "w_packet (h_next (w_heap w)) ?w1 = Some packet"
    using block_freed(1) [where w = ?w and p = packet] heap by simp
  have "h_next (w_heap ?w1) - 1 = h_next (w_heap w)" using heap(2) by (simp add: netcode_default_allocate_function_def)
  moreover have "length d > 0" using d(2) by (auto simp: carries_def)
  ultimately show ?thesis
    using read block d(1) key(1)
    by (intro that [of ?w1 m]) (simp_all add: test_packet_def cong: let_weak_cong)
qed

text \<open>A block just allocated and freed again leaves the heap as it was.\<close>

lemma runs_free_new:
  assumes w: "test_world w"
  shows "runs (w_free (Some (h_next (w_heap w)))
    (w\<lparr>w_random_next := m, w_heap := snd (netcode_default_allocate_function block (w_heap w))\<rparr>)) (world_restored w)"
proof -
  have heap: "test_heap (w_heap w)" using w by (simp add: test_world_def)
  then have "h_blocks (w_heap w) (h_next (w_heap w)) = None"
    using fresh_not_live [of "w_heap w"] by (auto simp: test_heap_def live_def)
  with w heap show ?thesis
    by (auto simp: w_free_def netcode_default_allocate_function_def netcode_default_free_function.simps(2) test_heap_def
        test_world_def world_restored_def heap_restored_def heap_inv_def live_def less_Suc_eq)
qed

text \<open>A comparison that succeeds on the packet that was written.\<close>

lemma runs_test_packet:
  assumes "aead_laws cr" and w: "test_world w" and "packet_wf packet" "\<not> is_request packet"
    and "wire_bytes packet 1000 \<le> NETCODE_MAX_PACKET_BYTES" and compare: "\<And>w'. compare packet w' = Some w'"
  shows "runs (test_packet cr packet compare w) (world_restored w)"
proof -
  have heap: "test_heap (w_heap w)" using w by (simp add: test_world_def)
  obtain w1 m where w1: "w1 = w\<lparr>w_random_next := m, w_heap := snd (netcode_default_allocate_function (Packet_block packet) (w_heap w))\<rparr>"
    "test_packet cr packet compare w = do { w \<leftarrow> compare packet w1; w_free (Some (h_next (w_heap w1) - 1)) w }"
    by (rule test_packet_run [OF assms(1) heap assms(3-5)])
  have "h_next (w_heap w1) - 1 = h_next (w_heap w)"
    using heap by (simp add: w1(1) netcode_default_allocate_function_def test_heap_def)
  with runs_free_new [OF w] show ?thesis unfolding w1(2) compare by (simp add: w1(1))
qed

lemma fits_1000 [simp]: "wire_bytes packet 1000 \<le> NETCODE_MAX_PACKET_BYTES \<longleftrightarrow> packet_data_bytes packet \<le> 1201"
proof -
  have "netcode_sequence_number_bytes_required 1000 = 2" by code_simp
  then show ?thesis by (simp add: wire_bytes_def)
qed

lemma test_world_random [simp]: "test_world (w\<lparr>w_random_next := n\<rparr>) = test_world w"
  "world_restored (w\<lparr>w_random_next := n\<rparr>) = world_restored w"
  by (simp_all add: test_world_def world_restored_def fun_eq_iff)

lemma test_small_packets_pass:
  assumes laws: "aead_laws cr" and w: "test_world w"
  shows "runs (test_connection_denied_packet cr w) (world_restored w)"
    and "runs (test_connection_challenge_packet cr w) (world_restored w)"
    and "runs (test_connection_response_packet cr w) (world_restored w)"
    and "runs (test_connection_keep_alive_packet cr w) (world_restored w)"
    and "runs (test_connection_disconnect_packet cr w) (world_restored w)"
proof -
  obtain data m where data: "netcode_random_bytes 300 w = (data, w\<lparr>w_random_next := m\<rparr>)" "length data = 300" by (rule random_bytes_cases)
  have w': "test_world (w\<lparr>w_random_next := m\<rparr>)" using w by simp
  note run = runs_test_packet [OF laws w] and run' = runs_test_packet [OF laws w', simplified]
  show "runs (test_connection_denied_packet cr w) (world_restored w)"
    and "runs (test_connection_keep_alive_packet cr w) (world_restored w)"
    and "runs (test_connection_disconnect_packet cr w) (world_restored w)"
    unfolding test_connection_denied_packet_def test_connection_keep_alive_packet_def test_connection_disconnect_packet_def
    by (rule run; simp add: int32_def)+
  show "runs (test_connection_challenge_packet cr w) (world_restored w)"
    unfolding test_connection_challenge_packet_def data(1) Let_def prod.case by (rule run'; simp add: data(2))
  show "runs (test_connection_response_packet cr w) (world_restored w)"
    unfolding test_connection_response_packet_def data(1) Let_def prod.case by (rule run'; simp add: data(2))
qed

text \<open>The payload packet of the test is itself in a block, freed before the one that was read.\<close>

lemma test_connection_payload_packet_passes:
  assumes laws: "aead_laws cr" and w: "test_world w"
  shows "runs (test_connection_payload_packet cr w) (world_restored w)"
proof -
  let ?p = "h_next (w_heap w)"
  obtain data m where data: "netcode_random_bytes 1200 w = (data, w\<lparr>w_random_next := m\<rparr>)" "length data = 1200" by (rule random_bytes_cases)
  let ?packet = "CONNECTION_PAYLOAD_PACKET data"
  have heap: "test_heap (w_heap w)" using w by (simp add: test_world_def)
  let ?h = "heap_store ?p (Packet_block ?packet) (snd (netcode_default_allocate_function (Packet_block (CONNECTION_PAYLOAD_PACKET (replicate 1200 0))) (w_heap w)))"
  let ?w = "w\<lparr>w_random_next := m, w_heap := ?h\<rparr>"
  have h: "h_blocks ?h = (h_blocks (w_heap w))(?p \<mapsto> Packet_block ?packet)" "h_next ?h = ?p + 1" "h_out_of_memory ?h = h_out_of_memory (w_heap w)"
    using heap by (simp_all add: heap_store_def netcode_default_allocate_function_def test_heap_def)
  then have h': "test_heap (w_heap ?w)" using heap by (auto simp: test_heap_def heap_inv_def live_def less_Suc_eq)
  let ?compare = "\<lambda>output w. case (output, ?packet) of
        (CONNECTION_PAYLOAD_PACKET output_data, CONNECTION_PAYLOAD_PACKET input_data) \<Rightarrow> do {
          c_assert (length output_data = length input_data); c_assert (output_data = input_data); w_free (Some ?p) w }
      | _ \<Rightarrow> None"
  obtain w1 n where w1: "w1 = ?w\<lparr>w_random_next := n, w_heap := snd (netcode_default_allocate_function (Packet_block ?packet) (w_heap ?w))\<rparr>"
    "test_packet cr ?packet ?compare ?w = do { w \<leftarrow> ?compare ?packet w1; w_free (Some (h_next (w_heap w1) - 1)) w }"
    by (rule test_packet_run [OF laws h', where packet = ?packet and compare = ?compare]) (use data(2) in simp_all)
  have "test_connection_payload_packet cr w = do { w \<leftarrow> w_free (Some ?p) w1; w_free (Some (h_next (w_heap w1) - 1)) w }"
    using w1(2) heap data by (simp add: test_connection_payload_packet_def netcode_create_payload_packet_def w_packet_def heap_store_def
        netcode_default_allocate_function_def test_heap_def cong: let_weak_cong)
  moreover have "h_blocks (w_heap w) p = None" if "p \<ge> ?p" for p
    using heap that by (cases "h_blocks (w_heap w) p") (auto simp: test_heap_def heap_inv_def live_def dest!: bspec [of _ _ p])
  then have "h_blocks (w_heap w) ?p = None" "h_blocks (w_heap w) (Suc ?p) = None" by simp_all
  ultimately show ?thesis
    using w heap h by (auto simp: w1(1) w_free_def netcode_default_allocate_function_def netcode_default_free_function.simps(2) test_heap_def
        test_world_def world_restored_def heap_restored_def heap_inv_def live_def less_Suc_eq)
qed

lemma test_connection_request_packet_passes:
  assumes laws: "aead_laws cr" and w: "test_world w"
  shows "runs (test_connection_request_packet cr w) (world_restored w)"
proof -
  obtain t plain n where t: "test_private_token w = Some (t, plain, w\<lparr>w_random_next := n\<rparr>)" "connect_token_private_wf t"
    "rest_zero (ctp_num_server_addresses t) (ctp_server_addresses t)" "netcode_write_connect_token_private t 1024 = Some plain" "length plain = 1024"
    by (rule test_private_token_passes)
  obtain key m where key: "netcode_generate_key (w\<lparr>w_random_next := n\<rparr>) = (key, w\<lparr>w_random_next := n, w_random_next := m\<rparr>)"
    "length key = 32" by (rule generate_key_cases)
  obtain key' m' where key': "netcode_generate_key (w\<lparr>w_random_next := m\<rparr>) = (key', w\<lparr>w_random_next := m, w_random_next := m'\<rparr>)"
    by (rule generate_key_cases)
  obtain sealed opened where sealed:
    "netcode_encrypt_connect_token_private cr plain NETCODE_VERSION_INFO TEST_PROTOCOL_ID (w_timestamp w + 30) 1000 key = Some (NETCODE_OK sealed)"
    "length sealed = 1024"
    "netcode_decrypt_connect_token_private cr sealed NETCODE_VERSION_INFO TEST_PROTOCOL_ID (w_timestamp w + 30) 1000 key = Some (NETCODE_OK opened)"
    "length opened = 1024" "take 1008 opened = take 1008 plain"
    by (rule sealed_plain_token [OF laws key(2) t(2-5)])
  have expire: "w_timestamp w < w_timestamp w + 30"
    using w by (simp add: test_world_def word_less_nat_alt unat_word_ariths)
  have heap: "heap_inv (w_heap w)" "\<not> h_out_of_memory (w_heap w) k" for k using w by (auto simp: test_world_def test_heap_def)
  let ?input = "\<lparr>rq_version_info = NETCODE_VERSION_INFO, rq_protocol_id = TEST_PROTOCOL_ID, rq_connect_token_expire_timestamp = w_timestamp w + 30,
      rq_connect_token_sequence = 1000, rq_connect_token_data = sealed\<rparr>"
  let ?output = "CONNECTION_REQUEST_PACKET (?input\<lparr>rq_connect_token_data := opened\<rparr>)"
  obtain b where b: "netcode_write_packet cr (CONNECTION_REQUEST_PACKET ?input) 2048 1000 key' TEST_PROTOCOL_ID = Some (NETCODE_OK b)"
    "length b = 1062"
    "netcode_read_packet cr b (Some key') TEST_PROTOCOL_ID (w_timestamp w) (Some key) (replicate 7 True) None (w_heap w)
      = (let (ptr, h) = netcode_default_allocate_function (Packet_block ?output) (w_heap w) in Some (ptr, 0, None, h))"
    using read_request_datagram [OF _ expire sealed(3), of "replicate 7 True" 2048 cr 1000 key' TEST_PROTOCOL_ID "Some key'" None "w_heap w"] sealed(2,4)
    by auto
  let ?w = "w\<lparr>w_random_next := m'\<rparr>"
  let ?w1 = "?w\<lparr>w_heap := snd (netcode_default_allocate_function (Packet_block ?output) (w_heap w))\<rparr>"
  have read: "netcode_read_packet cr b (Some key') TEST_PROTOCOL_ID (w_timestamp w) (Some key) (replicate 7 True) None (w_heap w)
      = Some (Some (h_next (w_heap w)), 0, None, w_heap ?w1)"
    using b(3) heap(2) by (simp add: netcode_default_allocate_function_def)
  have block: "w_packet (h_next (w_heap w)) ?w1 = Some ?output"
    using block_freed(1) [where w = ?w and p = ?output] heap by simp
  have "b \<noteq> []" using b(2) by auto
  then have run: "test_connection_request_packet cr w = w_free (Some (h_next (w_heap w))) ?w1"
    using read block b(1,2) key(1) key'(1) sealed(1,5)
    by (simp add: test_connection_request_packet_def t(1) cong: let_weak_cong)
  show ?thesis unfolding run by (rule runs_free_new [OF w])
qed

section \<open>Addresses\<close>

text \<open>What \<^verbatim>\<open>netcode_parse_address\<close> gives to \<^verbatim>\<open>inet_pton\<close>: the text it takes for an IPv6 address with the port it has read by
  then, and the text it takes for an IPv4 address with its port.\<close>

definition address_texts :: "string \<Rightarrow> (string \<times> u16 \<times> string \<times> u16) option" where
  "address_texts s =
     (let buf = take (NETCODE_MAX_ADDRESS_STRING_LENGTH - 1) (c_string s) @ [NUL];
          bracketed =
            (if buf ! 0 = CHR ''['' then
               (case parse_ipv6_port 6 (int (length (c_string buf)) - 1) buf 0 of
                  NETCODE_ERROR \<Rightarrow> NETCODE_ERROR
                | NETCODE_OK (buf, port) \<Rightarrow> NETCODE_OK (drop 1 buf, port))
             else NETCODE_OK (buf, 0))
      in case bracketed of
           NETCODE_ERROR \<Rightarrow> None
         | NETCODE_OK (buf, port) \<Rightarrow>
             (let (buf4, port4) = parse_ipv4_port 6 (int (length (c_string buf)) - 1) buf port
              in Some (c_string buf, port, c_string buf4, port4)))"

lemma parse_address_texts:
  "netcode_parse_address inet s =
     (case address_texts s of
        None \<Rightarrow> NETCODE_ERROR
      | Some (text6, port6, text4, port4) \<Rightarrow>
          (case pton6 inet text6 of
             Some sockaddr6 \<Rightarrow> NETCODE_OK (ADDRESS_IPV6 (map ntohs sockaddr6) port6)
           | None \<Rightarrow>
               (case pton4 inet text4 of
                  Some s_addr \<Rightarrow> NETCODE_OK (ADDRESS_IPV4 (s_addr_octets s_addr) port4)
                | None \<Rightarrow> NETCODE_ERROR)))"
  unfolding netcode_parse_address_def address_texts_def Let_def
  by (simp split: c_result.split prod.split option.split)

lemma test_address_texts:
  "map address_texts malformed_addresses =
     map (\<lambda>s. if take 1 s = ''['' then None else if s = '':'' then Some (s, 0, '''', 0) else Some (s, 0, s, 0)) malformed_addresses"
  "address_texts ''107.77.207.77'' = Some (''107.77.207.77'', 0, ''107.77.207.77'', 0)"
  "address_texts ''127.0.0.1'' = Some (''127.0.0.1'', 0, ''127.0.0.1'', 0)"
  "address_texts ''107.77.207.77:40000'' = Some (''107.77.207.77:40000'', 0, ''107.77.207.77'', 40000)"
  "address_texts ''127.0.0.1:40000'' = Some (''127.0.0.1:40000'', 0, ''127.0.0.1'', 40000)"
  "map_option (\<lambda>(s, p, _). (s, p)) (address_texts ''fe80::202:b3ff:fe1e:8329'') = Some (''fe80::202:b3ff:fe1e:8329'', 0)"
  "map_option (\<lambda>(s, p, _). (s, p)) (address_texts ''::'') = Some (''::'', 0)"
  "map_option (\<lambda>(s, p, _). (s, p)) (address_texts ''::1'') = Some (''::1'', 0)"
  "map_option (\<lambda>(s, p, _). (s, p)) (address_texts ''[fe80::202:b3ff:fe1e:8329]:40000'') = Some (''fe80::202:b3ff:fe1e:8329'', 40000)"
  "map_option (\<lambda>(s, p, _). (s, p)) (address_texts ''[::]:40000'') = Some (''::'', 40000)"
  "map_option (\<lambda>(s, p, _). (s, p)) (address_texts ''[::1]:40000'') = Some (''::1'', 40000)"
  by code_simp+

text \<open>What \<^verbatim>\<open>inet_pton\<close> is relied on for: it reads the well-formed addresses of the test, for the family they belong to, and none of the
  malformed ones.\<close>

definition reads_test_addresses :: "inet \<Rightarrow> bool" where
  "reads_test_addresses inet \<longleftrightarrow>
     (\<forall>s \<in> set malformed_addresses. pton6 inet s = None \<and> pton4 inet s = None)
   \<and> (\<forall>s \<in> {''107.77.207.77'', ''127.0.0.1'', ''107.77.207.77:40000'', ''127.0.0.1:40000''}. pton6 inet s = None)
   \<and> pton4 inet ''107.77.207.77'' = Some (s_addr_of [107, 77, 207, 77])
   \<and> pton4 inet ''127.0.0.1'' = Some (s_addr_of [127, 0, 0, 1])
   \<and> pton6 inet ''fe80::202:b3ff:fe1e:8329'' = Some (map htons [0xfe80, 0, 0, 0, 0x0202, 0xb3ff, 0xfe1e, 0x8329])
   \<and> pton6 inet ''::'' = Some (map htons [0, 0, 0, 0, 0, 0, 0, 0])
   \<and> pton6 inet ''::1'' = Some (map htons [0, 0, 0, 0, 0, 0, 0, 1])"

lemma malformed_addresses_refused:
  assumes "reads_test_addresses inet" and s: "s \<in> set malformed_addresses"
  shows "netcode_parse_address inet s = NETCODE_ERROR"
proof -
  have texts: "address_texts s = (if take 1 s = ''['' then None else if s = '':'' then Some (s, 0, '''', 0) else Some (s, 0, s, 0))"
    using test_address_texts(1) s by (simp only: map_eq_conv)
  have "'''' \<in> set malformed_addresses" "'':'' \<in> set malformed_addresses" by (simp_all add: malformed_addresses_def)
  with assms show ?thesis
    unfolding parse_address_texts texts reads_test_addresses_def by simp
qed

lemma check_ipv4_passes:
  assumes "address_texts s = Some (s6, p6, s4, port)" and "pton6 inet s6 = None" and "pton4 inet s4 = Some (s_addr_of octets)"
    and "length octets = 4"
  shows "check_ipv4 inet s octets port = Some ()"
  using assms by (simp add: check_ipv4_def check_ok_def parse_address_texts octets_of_s_addr)

lemma check_ipv6_passes:
  assumes "map_option (\<lambda>(s, p, _). (s, p)) (address_texts s) = Some (s6, port)" and "pton6 inet s6 = Some (map htons groups)"
  shows "check_ipv6 inet s groups port = Some ()"
  using assms by (auto simp: check_ipv6_def check_ok_def parse_address_texts o_def)

lemma test_address_passes:
  assumes "reads_test_addresses inet"
  shows "test_address inet = Some ()"
  using assms check_ipv4_passes [OF test_address_texts(2), of inet] check_ipv4_passes [OF test_address_texts(3), of inet]
    check_ipv4_passes [OF test_address_texts(4), of inet] check_ipv4_passes [OF test_address_texts(5), of inet]
    check_ipv6_passes [OF test_address_texts(6), of inet] check_ipv6_passes [OF test_address_texts(7), of inet]
    check_ipv6_passes [OF test_address_texts(8), of inet] check_ipv6_passes [OF test_address_texts(9), of inet]
    check_ipv6_passes [OF test_address_texts(10), of inet] check_ipv6_passes [OF test_address_texts(11), of inet]
  by (simp add: test_address_def malformed_addresses_refused reads_test_addresses_def)

section \<open>The run of the tests\<close>

lemma world_restored_trans:
  "world_restored w0 w \<Longrightarrow> world_restored w w' \<Longrightarrow> world_restored w0 w'"
  by (simp add: world_restored_def heap_restored_def)

lemma world_restored_test_world: "test_world w \<Longrightarrow> world_restored w w' \<Longrightarrow> test_world w'"
  by (simp add: world_restored_def heap_restored_def test_world_def)

text \<open>The tests run one after the other, each from a world as good as the one the first began in.\<close>

lemma runs_next_test:
  assumes "test_world w0" and "world_restored w0 w"
    and "\<And>w. test_world w \<Longrightarrow> runs (test w) (world_restored w)"
    and "\<And>w. world_restored w0 w \<Longrightarrow> runs (rest w) (world_restored w0)"
  shows "runs (test w \<bind> rest) (world_restored w0)"
proof -
  have "runs (test w) (world_restored w)" using assms(3) world_restored_test_world [OF assms(1,2)] by blast
  then obtain w' where "test w = Some w'" "world_restored w w'" by (auto simp: runs_def split: option.splits)
  with assms(4) [OF world_restored_trans [OF assms(2)]] show ?thesis by simp
qed

lemma netcode_test_passes:
  assumes laws: "aead_laws cr" and inet: "reads_test_addresses inet" and w: "test_world w"
  shows "runs (netcode_test cr inet garbage w) (world_restored w)"
proof -
  have "runs (test_queue (w_heap w)) (heap_restored (w_heap w))" using w by (intro test_queue_passes) (simp add: test_world_def)
  then obtain h where h: "test_queue (w_heap w) = Some h" "heap_restored (w_heap w) h" by (auto simp: runs_def split: option.splits)
  have w0: "world_restored w (w\<lparr>w_heap := h\<rparr>)" using h(2) by (simp add: world_restored_def)
  have em: "runs (test_encryption_manager garbage w) (world_restored w)" if "test_world w" for w
    using test_encryption_manager_passes [of garbage w] world_restored_refl [OF that] by auto
  note step = runs_next_test [OF w _ test_connect_token_passes [OF laws]] runs_next_test [OF w _ test_challenge_token_passes [OF laws]]
    runs_next_test [OF w _ test_connection_request_packet_passes [OF laws]] runs_next_test [OF w _ test_small_packets_pass(1) [OF laws]]
    runs_next_test [OF w _ test_small_packets_pass(2) [OF laws]] runs_next_test [OF w _ test_small_packets_pass(3) [OF laws]]
    runs_next_test [OF w _ test_small_packets_pass(5) [OF laws]] runs_next_test [OF w _ test_connection_payload_packet_passes [OF laws]]
    runs_next_test [OF w _ test_connect_token_public_passes [OF laws]] runs_next_test [OF w _ em]
  show ?thesis
    unfolding netcode_test_def h(1) test_endian_passes test_address_passes [OF inet] test_sequence_passes test_replay_protection_passes
      Let_def bind.bind_lunit
    by (rule step, rule w0, assumption, (rule step, assumption, assumption)+, simp)
qed

text \<open>An \<^verbatim>\<open>inet_pton\<close> that knows the addresses of the test and no others.\<close>

definition test_inet :: inet where
  "test_inet = \<lparr>
     pton4 = map_of [(''107.77.207.77'', s_addr_of [107, 77, 207, 77]), (''127.0.0.1'', s_addr_of [127, 0, 0, 1])],
     pton6 = map_of [(''fe80::202:b3ff:fe1e:8329'', map htons [0xfe80, 0, 0, 0, 0x0202, 0xb3ff, 0xfe1e, 0x8329]),
       (''::'', map htons [0, 0, 0, 0, 0, 0, 0, 0]), (''::1'', map htons [0, 0, 0, 0, 0, 0, 0, 1])],
     ntop6 = (\<lambda>_. [])\<rparr>"

lemma test_inet_reads [simp]: "reads_test_addresses test_inet"
  by (simp add: reads_test_addresses_def test_inet_def malformed_addresses_def)

lemma empty_world_test [simp]: "test_world empty_world"
  by (simp add: test_world_def test_heap_def empty_world_def empty_heap_def heap_inv_def live_def)

text \<open>C40: the unit tests of the library pass, whatever the random bytes are, whatever is on the stack where the test of the
  encryption manager leaves an address unset, for any AEAD with the laws of \<^verbatim>\<open>libsodium\<close> and any \<^verbatim>\<open>inet_pton\<close> that reads
  the addresses of the test. None of their checks and no assertion of the library fails, and every block they allocate is freed.
  The test of the keep-alive packet, which \<^verbatim>\<open>netcode_test\<close> forgets to run, would pass too.\<close>

theorem unit_tests_pass:
  assumes "aead_laws cr" and "reads_test_addresses inet" and "test_world w"
  shows "(\<exists>w'. netcode_test cr inet garbage w = Some w' \<and> h_blocks (w_heap w') = h_blocks (w_heap w))
    \<and> (\<exists>w'. test_connection_keep_alive_packet cr w = Some w' \<and> h_blocks (w_heap w') = h_blocks (w_heap w))"
  using netcode_test_passes [OF assms, of garbage] test_small_packets_pass(4) [OF assms(1,3)]
  by (auto simp: runs_def world_restored_def heap_restored_def split: option.splits)

theorem unit_tests_pass_witness:
  "(\<exists>w'. netcode_test clear_crypto test_inet [1, 2, 3, 4, 5, 6, 7, 8] empty_world = Some w' \<and> h_blocks (w_heap w') = Map.empty)
    \<and> (\<exists>w'. test_connection_keep_alive_packet clear_crypto empty_world = Some w' \<and> h_blocks (w_heap w') = Map.empty)"
  using unit_tests_pass [OF clear_crypto_laws test_inet_reads empty_world_test, of "[1, 2, 3, 4, 5, 6, 7, 8]"]
  by (simp add: empty_world_def empty_heap_def)

end
