(* ===== verification/Connection_Tests.thy ===== *)
theory Connection_Tests
  imports Process Unit_Tests
begin

text \<open>
  The tests of \<^verbatim>\<open>netcode.c\<close> that connect clients with a server over the network simulator. A test that fails a \<^verbatim>\<open>check\<close>
  or an assertion of its own is \<open>Fails\<close>; an abort inside the library is \<open>None\<close>. Loops that wait for something to happen are given
  a number of rounds; a test that still waits after them has not passed, which is \<open>Fails\<close> too.
\<close>

section \<open>The stand of a test\<close>

text \<open>The variables of a test: its time, the simulator, the server in slot 0, the clients, and the counters of received packets.\<close>

record stand =
  sd_time :: dbl
  sd_simulator :: nat
  sd_client_id :: u64
  sd_servers :: server_array
  sd_clients :: client_array
  sd_server_received :: "nat array"
  sd_client_received :: "nat array"
  sd_world :: world

definition expect :: "bool \<Rightarrow> stand \<Rightarrow> stand program option" where
  "expect b st = Some (if b then Runs st else Fails)"

definition with_server :: "(netcode_server \<Rightarrow> world \<Rightarrow> (netcode_server \<times> world) option) \<Rightarrow> stand \<Rightarrow> stand program option" where
  "with_server call st = (case sd_servers st 0 of
     None \<Rightarrow> Some Fails
   | Some (ptr, server) \<Rightarrow> do {
       (server, w) \<leftarrow> call server (sd_world st);
       Some (Runs (st\<lparr>sd_servers := (sd_servers st)(0 \<mapsto> (ptr, server)), sd_world := w\<rparr>)) })"

definition with_client :: "nat \<Rightarrow> (netcode_client \<Rightarrow> world \<Rightarrow> (netcode_client \<times> world) option) \<Rightarrow> stand \<Rightarrow> stand program option" where
  "with_client i call st = (case sd_clients st i of
     None \<Rightarrow> Some Fails
   | Some (ptr, client) \<Rightarrow> do {
       (client, w) \<leftarrow> call client (sd_world st);
       Some (Runs (st\<lparr>sd_clients := (sd_clients st)(i \<mapsto> (ptr, client)), sd_world := w\<rparr>)) })"

definition server_is :: "(netcode_server \<Rightarrow> bool) \<Rightarrow> stand \<Rightarrow> bool" where
  "server_is Q st = (case sd_servers st 0 of None \<Rightarrow> False | Some (ptr, server) \<Rightarrow> Q server)"

definition client_is :: "nat \<Rightarrow> (netcode_client \<Rightarrow> bool) \<Rightarrow> stand \<Rightarrow> bool" where
  "client_is i Q st = (case sd_clients st i of None \<Rightarrow> False | Some (ptr, client) \<Rightarrow> Q client)"

definition test_private_key :: bytes where
  "test_private_key =
     [0x60, 0x6a, 0xbe, 0x6e, 0xc9, 0x19, 0x10, 0xea, 0x9a, 0x65, 0x62, 0xf6, 0x6f, 0x2b, 0x30, 0xe4,
      0x43, 0x71, 0xd6, 0x2c, 0xd1, 0x99, 0x27, 0x26, 0x6b, 0x3c, 0x60, 0xf4, 0xb7, 0x15, 0xab, 0xa1]"

section \<open>What the tests begin and end with\<close>

text \<open>The simulator, with the latency, jitter, loss and duplicates of most tests, or without.\<close>

definition create_simulator :: "bool \<Rightarrow> world \<Rightarrow> stand program option" where
  "create_simulator disturbed w =
     do { (ptr, w) \<leftarrow> netcode_network_simulator_create w;
          let w = (if disturbed then sim_map (\<lambda>ns. ns\<lparr>ns_latency_milliseconds := 250, ns_jitter_milliseconds := 250,
                                                 ns_packet_loss_percent := 5, ns_duplicate_packet_percent := 10\<rparr>) w
                   else w);
          Some (Runs \<lparr>sd_time = 0, sd_simulator = ptr, sd_client_id = 0, sd_servers = (\<lambda>_. None), sd_clients = (\<lambda>_. None),
                      sd_server_received = (\<lambda>_. 0), sd_client_received = (\<lambda>_. 0), sd_world = w\<rparr>) }"

definition create_test_client :: "inet \<Rightarrow> os_calls \<Rightarrow> nat \<Rightarrow> string \<Rightarrow> stand \<Rightarrow> stand program option" where
  "create_test_client inet os i name st =
     do { (client, w) \<leftarrow> netcode_client_create_internal inet os name (sd_time st) True (sd_world st);
          expect (client \<noteq> None) (st\<lparr>sd_clients := (sd_clients st)(i := client), sd_world := w\<rparr>) }"

definition create_test_server :: "inet \<Rightarrow> os_calls \<Rightarrow> server_memory \<Rightarrow> stand \<Rightarrow> stand program option" where
  "create_test_server inet os = (\<lambda>(timeouts, challenge_key, challenge_sequence) st.
     do { (server, w) \<leftarrow> netcode_server_create_internal inet os timeouts challenge_key challenge_sequence ''[::1]:40000''
            TEST_PROTOCOL_ID test_private_key (sd_time st) True (sd_world st);
          expect (server \<noteq> None) (st\<lparr>sd_servers := (sd_servers st)(0 := server), sd_world := w\<rparr>) })"

definition draw_client_id :: "stand \<Rightarrow> stand" where
  "draw_client_id st =
     (let (memory, w) = netcode_random_bytes 8 (sd_world st) in st\<lparr>sd_client_id := u64_of_memory memory, sd_world := w\<rparr>)"

text \<open>A token for the servers of a list of names, and a client that connects with it.\<close>

definition connect_test_client ::
    "crypto \<Rightarrow> inet \<Rightarrow> string list \<Rightarrow> int \<Rightarrow> u64 \<Rightarrow> nat \<Rightarrow> stand \<Rightarrow> stand program option" where
  "connect_test_client cr inet names expire_seconds token_sequence i st =
     do { (r, w) \<leftarrow> netcode_generate_connect_token cr inet names expire_seconds TEST_TIMEOUT_SECONDS (sd_client_id st)
            TEST_PROTOCOL_ID token_sequence test_private_key (sd_world st);
          let st = st\<lparr>sd_world := w\<rparr>;
          (case r of
             NETCODE_ERROR \<Rightarrow> Some Fails
           | NETCODE_OK connect_token \<Rightarrow> with_client i (\<lambda>client w. netcode_client_connect cr client connect_token w) st) }"

definition destroy_test_server :: "crypto \<Rightarrow> stand \<Rightarrow> stand program option" where
  "destroy_test_server cr st = (case sd_servers st 0 of
     None \<Rightarrow> Some Fails
   | Some (ptr, server) \<Rightarrow> do {
       w \<leftarrow> netcode_server_destroy cr ptr server (sd_world st);
       Some (Runs (st\<lparr>sd_servers := (sd_servers st)(0 := None), sd_world := w\<rparr>)) })"

definition destroy_test_client :: "crypto \<Rightarrow> nat \<Rightarrow> stand \<Rightarrow> stand program option" where
  "destroy_test_client cr i st = (case sd_clients st i of
     None \<Rightarrow> Some Fails
   | Some (ptr, client) \<Rightarrow> do {
       w \<leftarrow> netcode_client_destroy cr ptr client (sd_world st);
       Some (Runs (st\<lparr>sd_clients := (sd_clients st)(i := None), sd_world := w\<rparr>)) })"

definition destroy_simulator :: "stand \<Rightarrow> world program option" where
  "destroy_simulator st = do { w \<leftarrow> netcode_network_simulator_destroy (sd_simulator st) (sd_world st); Some (Runs w) }"

definition reset_simulator :: "stand \<Rightarrow> stand program option" where
  "reset_simulator st = do { w \<leftarrow> netcode_network_simulator_reset (sd_world st); Some (Runs (st\<lparr>sd_world := w\<rparr>)) }"

section \<open>Loops\<close>

definition pump_clients :: "crypto \<Rightarrow> nat list \<Rightarrow> stand \<Rightarrow> stand program option" where
  "pump_clients cr clients st =
     do { w \<leftarrow> netcode_network_simulator_update (sd_time st) (sd_world st);
          for_each (\<lambda>i. with_client i (netcode_client_update cr (sd_time st))) clients (st\<lparr>sd_world := w\<rparr>) }"

definition pump :: "crypto \<Rightarrow> nat list \<Rightarrow> stand \<Rightarrow> stand program option" where
  "pump cr clients st = and_then (pump_clients cr clients st) (with_server (netcode_server_update cr (sd_time st)))"

text \<open>\<open>bounded\<close> tells the \<^verbatim>\<open>for\<close> loops, which go on after their last round, from the loops \<^verbatim>\<open>while ( 1 )\<close>.\<close>

fun rounds_until ::
    "bool \<Rightarrow> dbl \<Rightarrow> (stand \<Rightarrow> stand program option) \<Rightarrow> (stand \<Rightarrow> bool) \<Rightarrow> nat \<Rightarrow> stand \<Rightarrow> stand program option" where
  "rounds_until bounded delta_time body stop 0 st = Some (if bounded then Runs st else Fails)"
| "rounds_until bounded delta_time body stop (Suc rounds) st =
     and_then (body st) (\<lambda>st. if stop st then Some (Runs st)
       else rounds_until bounded delta_time body stop rounds (st\<lparr>sd_time := sd_time st + delta_time\<rparr>))"

definition client_gone :: "nat \<Rightarrow> stand \<Rightarrow> bool" where
  "client_gone i = client_is i (\<lambda>c. netcode_client_state c \<le> NETCODE_CLIENT_STATE_DISCONNECTED)"

definition client_connected :: "nat \<Rightarrow> stand \<Rightarrow> bool" where
  "client_connected i = client_is i (\<lambda>c. netcode_client_state c = NETCODE_CLIENT_STATE_CONNECTED)"

definition wait_for_connection :: "crypto \<Rightarrow> dbl \<Rightarrow> nat \<Rightarrow> stand \<Rightarrow> stand program option" where
  "wait_for_connection cr delta_time = rounds_until False delta_time (pump cr [0]) (\<lambda>st. client_gone 0 st \<or> client_connected 0 st)"

text \<open>The checks that follow in most tests.\<close>

definition one_connected :: "stand \<Rightarrow> bool" where
  "one_connected st \<longleftrightarrow> client_connected 0 st \<and> client_is 0 (\<lambda>c. netcode_client_index c = 0) st
     \<and> server_is (\<lambda>s. netcode_server_client_connected s 0 \<and> netcode_server_num_connected_clients s = 1) st"

definition none_connected :: "stand \<Rightarrow> bool" where
  "none_connected = server_is (\<lambda>s. \<not> netcode_server_client_connected s 0 \<and> netcode_server_num_connected_clients s = 0)"

definition client_ended :: "nat \<Rightarrow> client_state \<Rightarrow> stand \<Rightarrow> bool" where
  "client_ended i state = client_is i (\<lambda>c. netcode_client_state c = state)"

text \<open>Reading what has arrived.\<close>

definition read_test_client :: "nat \<Rightarrow> stand \<Rightarrow> stand program option" where
  "read_test_client i st = (case sd_clients st i of
     None \<Rightarrow> Some Fails
   | Some (ptr, client) \<Rightarrow>
       and_then (client_read_loop whole_packet read_rounds (sd_client_received st i, client, sd_world st)) (\<lambda>(received, client, w).
         Some (Runs (st\<lparr>sd_client_received := (sd_client_received st)(i := received),
           sd_clients := (sd_clients st)(i \<mapsto> (ptr, client)), sd_world := w\<rparr>))))"

definition read_test_server :: "nat \<Rightarrow> stand \<Rightarrow> stand program option" where
  "read_test_server i st = (case sd_servers st 0 of
     None \<Rightarrow> Some Fails
   | Some (ptr, server) \<Rightarrow>
       and_then (server_read_loop whole_packet read_rounds (int i) (sd_server_received st i, server, sd_world st)) (\<lambda>(received, server, w).
         Some (Runs (st\<lparr>sd_server_received := (sd_server_received st)(i := received),
           sd_servers := (sd_servers st)(0 \<mapsto> (ptr, server)), sd_world := w\<rparr>))))"

text \<open>One round of the payload exchange between all clients and the server.\<close>

definition exchange :: "crypto \<Rightarrow> nat list \<Rightarrow> stand \<Rightarrow> stand program option" where
  "exchange cr clients st =
     and_then (pump cr clients st) (\<lambda>st.
     and_then (for_each (\<lambda>j. with_client j (\<lambda>c. netcode_client_send_packet cr c packet_data)) clients st) (\<lambda>st.
     and_then (for_each (\<lambda>j. with_server (\<lambda>s. netcode_server_send_packet cr s (int j) packet_data)) clients st) (\<lambda>st.
     and_then (for_each read_test_client clients st)
       (for_each read_test_server clients))))"

section \<open>The tests of one client\<close>

abbreviation (input) TEST_CONNECT_TOKEN_EXPIRY :: int where "TEST_CONNECT_TOKEN_EXPIRY \<equiv> 30"
abbreviation (input) delta_time :: dbl where "delta_time \<equiv> 1 / 10"

text \<open>\<open>flags\<close> are set by two tests only.\<close>

definition set_up ::
    "crypto \<Rightarrow> inet \<Rightarrow> os_calls \<Rightarrow> server_memory \<Rightarrow> bool \<Rightarrow> u32 option \<Rightarrow> string list \<Rightarrow> world \<Rightarrow> stand program option" where
  "set_up cr inet os memory disturbed flags names w =
     and_then (create_simulator disturbed w) (\<lambda>st.
     and_then (create_test_client inet os 0 ''[::]:50000'' st) (\<lambda>st.
     and_then (create_test_server inet os memory st) (\<lambda>st.
     and_then (case flags of None \<Rightarrow> Some (Runs st) | Some f \<Rightarrow> with_server (\<lambda>s w. Some (s\<lparr>sv_flags := f\<rparr>, w)) st) (\<lambda>st.
     and_then (with_server (\<lambda>s. netcode_server_start cr s 1) st) (\<lambda>st.
       connect_test_client cr inet names TEST_CONNECT_TOKEN_EXPIRY 0 0 (draw_client_id st))))))"

definition tear_down :: "crypto \<Rightarrow> nat list \<Rightarrow> stand \<Rightarrow> world program option" where
  "tear_down cr clients st =
     and_then (destroy_test_server cr st) (\<lambda>st. and_then (for_each (destroy_test_client cr) clients st) destroy_simulator)"

text \<open>The beginning of the tests that need a connection.\<close>

definition connected_pair ::
    "crypto \<Rightarrow> inet \<Rightarrow> os_calls \<Rightarrow> server_memory \<Rightarrow> bool \<Rightarrow> string list \<Rightarrow> nat \<Rightarrow> world \<Rightarrow> stand program option" where
  "connected_pair cr inet os memory disturbed names rounds w =
     and_then (set_up cr inet os memory disturbed None names w) (\<lambda>st.
     and_then (wait_for_connection cr delta_time rounds st) (\<lambda>st. expect (one_connected st) st))"

definition disconnect_after_ten :: "crypto \<Rightarrow> stand \<Rightarrow> stand program option" where
  "disconnect_after_ten cr st =
     (if sd_client_received st 0 \<ge> 10 \<and> sd_server_received st 0 \<ge> 10 \<and> server_is (\<lambda>s. netcode_server_client_connected s 0) st
      then with_server (\<lambda>s. netcode_server_disconnect_client cr s 0) st else Some (Runs st))"

definition exchange_payloads ::
    "crypto \<Rightarrow> inet \<Rightarrow> os_calls \<Rightarrow> server_memory \<Rightarrow> string list \<Rightarrow> nat \<Rightarrow> world \<Rightarrow> world program option" where
  "exchange_payloads cr inet os memory names rounds w =
     and_then (connected_pair cr inet os memory True names rounds w) (\<lambda>st.
     and_then (rounds_until False delta_time (\<lambda>st. and_then (exchange cr [0] st) (disconnect_after_ten cr)) (client_gone 0) rounds st) (\<lambda>st.
     and_then (expect (sd_client_received st 0 \<ge> 10 \<and> sd_server_received st 0 \<ge> 10) st)
       (tear_down cr [0])))"

definition test_client_server_connect :: "crypto \<Rightarrow> inet \<Rightarrow> os_calls \<Rightarrow> server_memory \<Rightarrow> nat \<Rightarrow> world \<Rightarrow> world program option" where
  "test_client_server_connect cr inet os memory = exchange_payloads cr inet os memory [''[::1]:40000'']"

definition test_client_server_multiple_servers ::
    "crypto \<Rightarrow> inet \<Rightarrow> os_calls \<Rightarrow> server_memory \<Rightarrow> nat \<Rightarrow> world \<Rightarrow> world program option" where
  "test_client_server_multiple_servers cr inet os memory =
     exchange_payloads cr inet os memory [''10.10.10.10:1000'', ''100.100.100.100:50000'', ''[::1]:40000'']"

text \<open>\<^verbatim>\<open>ceil( 1.25f * TEST_TIMEOUT_SECONDS / delta_time )\<close> rounds.\<close>

definition test_client_server_keep_alive :: "crypto \<Rightarrow> inet \<Rightarrow> os_calls \<Rightarrow> server_memory \<Rightarrow> nat \<Rightarrow> world \<Rightarrow> world program option" where
  "test_client_server_keep_alive cr inet os memory rounds w =
     and_then (connected_pair cr inet os memory True [''[::1]:40000''] rounds w) (\<lambda>st.
     and_then (rounds_until True delta_time (pump cr [0]) (client_gone 0) (nat \<lceil>(5 / 4 :: dbl) * 5 / (1 / 10)\<rceil>) st) (\<lambda>st.
     and_then (expect (one_connected st) st)
       (tear_down cr [0])))"

definition test_client_error_connect_token_expired ::
    "crypto \<Rightarrow> inet \<Rightarrow> os_calls \<Rightarrow> world \<Rightarrow> world program option" where
  "test_client_error_connect_token_expired cr inet os w =
     and_then (create_simulator True w) (\<lambda>st.
     and_then (create_test_client inet os 0 ''[::]:50000'' st) (\<lambda>st.
     and_then (connect_test_client cr inet [''[::1]:40000''] 0 0 0 (draw_client_id st)) (\<lambda>st.
     and_then (with_client 0 (netcode_client_update cr (sd_time st)) st) (\<lambda>st.
     and_then (expect (client_ended 0 NETCODE_CLIENT_STATE_CONNECT_TOKEN_EXPIRED st) st) (\<lambda>st.
     and_then (destroy_test_client cr 0 st) destroy_simulator)))))"

definition test_client_error_invalid_connect_token ::
    "crypto \<Rightarrow> inet \<Rightarrow> os_calls \<Rightarrow> world \<Rightarrow> world program option" where
  "test_client_error_invalid_connect_token cr inet os w =
     and_then (create_simulator True w) (\<lambda>st.
     and_then (create_test_client inet os 0 ''[::]:50000'' st) (\<lambda>st.
       let (connect_token, w) = netcode_random_bytes NETCODE_CONNECT_TOKEN_BYTES (sd_world st);
           st = draw_client_id (st\<lparr>sd_world := w\<rparr>)
       in and_then (with_client 0 (\<lambda>client w. netcode_client_connect cr client connect_token w) st) (\<lambda>st.
          and_then (expect (client_ended 0 NETCODE_CLIENT_STATE_INVALID_CONNECT_TOKEN st) st) (\<lambda>st.
          and_then (destroy_test_client cr 0 st) destroy_simulator))))"

definition test_client_error_connection_timed_out ::
    "crypto \<Rightarrow> inet \<Rightarrow> os_calls \<Rightarrow> server_memory \<Rightarrow> nat \<Rightarrow> world \<Rightarrow> world program option" where
  "test_client_error_connection_timed_out cr inet os memory rounds w =
     and_then (connected_pair cr inet os memory True [''[::1]:40000''] rounds w) (\<lambda>st.
     and_then (rounds_until False delta_time (pump_clients cr [0]) (client_gone 0) rounds st) (\<lambda>st.
     and_then (expect (client_ended 0 NETCODE_CLIENT_STATE_CONNECTION_TIMED_OUT st) st)
       (tear_down cr [0])))"

definition NETCODE_SERVER_FLAG_IGNORE_CONNECTION_REQUEST_PACKETS :: u32 where
  "NETCODE_SERVER_FLAG_IGNORE_CONNECTION_REQUEST_PACKETS = 1"

definition NETCODE_SERVER_FLAG_IGNORE_CONNECTION_RESPONSE_PACKETS :: u32 where
  "NETCODE_SERVER_FLAG_IGNORE_CONNECTION_RESPONSE_PACKETS = push_bit 1 1"

text \<open>The two tests with a server that ignores packets of one type.\<close>

definition ignored_client ::
    "crypto \<Rightarrow> inet \<Rightarrow> os_calls \<Rightarrow> server_memory \<Rightarrow> u32 \<Rightarrow> dbl \<Rightarrow> client_state \<Rightarrow> nat \<Rightarrow> world \<Rightarrow> world program option" where
  "ignored_client cr inet os memory flags delta state rounds w =
     and_then (set_up cr inet os memory True (Some flags) [''[::1]:40000''] w) (\<lambda>st.
     and_then (wait_for_connection cr delta rounds st) (\<lambda>st.
     and_then (expect (client_ended 0 state st) st)
       (tear_down cr [0])))"

definition test_client_error_connection_response_timeout ::
    "crypto \<Rightarrow> inet \<Rightarrow> os_calls \<Rightarrow> server_memory \<Rightarrow> nat \<Rightarrow> world \<Rightarrow> world program option" where
  "test_client_error_connection_response_timeout cr inet os memory =
     ignored_client cr inet os memory NETCODE_SERVER_FLAG_IGNORE_CONNECTION_RESPONSE_PACKETS (1 / 10)
       NETCODE_CLIENT_STATE_CONNECTION_RESPONSE_TIMED_OUT"

definition test_client_error_connection_request_timeout ::
    "crypto \<Rightarrow> inet \<Rightarrow> os_calls \<Rightarrow> server_memory \<Rightarrow> nat \<Rightarrow> world \<Rightarrow> world program option" where
  "test_client_error_connection_request_timeout cr inet os memory =
     ignored_client cr inet os memory NETCODE_SERVER_FLAG_IGNORE_CONNECTION_REQUEST_PACKETS (1 / 60)
       NETCODE_CLIENT_STATE_CONNECTION_REQUEST_TIMED_OUT"

definition test_client_error_connection_denied ::
    "crypto \<Rightarrow> inet \<Rightarrow> os_calls \<Rightarrow> server_memory \<Rightarrow> nat \<Rightarrow> world \<Rightarrow> world program option" where
  "test_client_error_connection_denied cr inet os memory rounds w =
     and_then (connected_pair cr inet os memory True [''[::1]:40000''] rounds w) (\<lambda>st.
     and_then (create_test_client inet os 1 ''[::]:50001'' st) (\<lambda>st.
     and_then (connect_test_client cr inet [''[::1]:40000''] TEST_CONNECT_TOKEN_EXPIRY 0 1 (draw_client_id st)) (\<lambda>st.
     and_then (rounds_until False delta_time (pump cr [0, 1]) (\<lambda>st. client_gone 0 st \<or> client_gone 1 st) rounds st) (\<lambda>st.
     and_then (expect (client_connected 0 st \<and> client_ended 1 NETCODE_CLIENT_STATE_CONNECTION_DENIED st
         \<and> server_is (\<lambda>s. netcode_server_client_connected s 0 \<and> netcode_server_num_connected_clients s = 1) st) st)
       (tear_down cr [0, 1])))))"

definition test_client_side_disconnect :: "crypto \<Rightarrow> inet \<Rightarrow> os_calls \<Rightarrow> server_memory \<Rightarrow> nat \<Rightarrow> world \<Rightarrow> world program option" where
  "test_client_side_disconnect cr inet os memory rounds w =
     and_then (connected_pair cr inet os memory False [''[::1]:40000''] rounds w) (\<lambda>st.
     and_then (with_client 0 (netcode_client_disconnect cr) st) (\<lambda>st.
     and_then (rounds_until True delta_time (pump cr [0]) (server_is (\<lambda>s. \<not> netcode_server_client_connected s 0)) 10 st) (\<lambda>st.
     and_then (expect (none_connected st) st)
       (tear_down cr [0]))))"

definition test_server_side_disconnect :: "crypto \<Rightarrow> inet \<Rightarrow> os_calls \<Rightarrow> server_memory \<Rightarrow> nat \<Rightarrow> world \<Rightarrow> world program option" where
  "test_server_side_disconnect cr inet os memory rounds w =
     and_then (connected_pair cr inet os memory False [''[::1]:40000''] rounds w) (\<lambda>st.
     and_then (with_server (\<lambda>s. netcode_server_disconnect_client cr s 0) st) (\<lambda>st.
     and_then (rounds_until True delta_time (pump cr [0]) (client_ended 0 NETCODE_CLIENT_STATE_DISCONNECTED) 10 st) (\<lambda>st.
     and_then (expect (client_ended 0 NETCODE_CLIENT_STATE_DISCONNECTED st \<and> none_connected st) st)
       (tear_down cr [0]))))"

definition test_client_reconnect :: "crypto \<Rightarrow> inet \<Rightarrow> os_calls \<Rightarrow> server_memory \<Rightarrow> nat \<Rightarrow> world \<Rightarrow> world program option" where
  "test_client_reconnect cr inet os memory rounds w =
     and_then (connected_pair cr inet os memory True [''[::1]:40000''] rounds w) (\<lambda>st.
     and_then (reset_simulator st) (\<lambda>st.
     and_then (with_server (\<lambda>s. netcode_server_disconnect_client cr s 0) st) (\<lambda>st.
     and_then (rounds_until False delta_time (pump cr [0]) (client_gone 0) rounds st) (\<lambda>st.
     and_then (expect (client_ended 0 NETCODE_CLIENT_STATE_DISCONNECTED st \<and> none_connected st) st) (\<lambda>st.
     and_then (reset_simulator st) (\<lambda>st.
     and_then (connect_test_client cr inet [''[::1]:40000''] TEST_CONNECT_TOKEN_EXPIRY 0 0 st) (\<lambda>st.
     and_then (wait_for_connection cr delta_time rounds st) (\<lambda>st.
     and_then (expect (one_connected st) st)
       (tear_down cr [0])))))))))"

section \<open>The test of many clients\<close>

text \<open>The count of the connected clients stops at the first that is gone.\<close>

fun count_connected :: "nat list \<Rightarrow> stand \<Rightarrow> nat" where
  "count_connected [] st = 0"
| "count_connected (j # js) st =
     (if client_gone j st then 0 else (if client_connected j st then 1 else 0) + count_connected js st)"

definition num_clients_ready :: "nat list \<Rightarrow> stand \<Rightarrow> nat" where
  "num_clients_ready clients st =
     length (filter (\<lambda>j. sd_client_received st j \<ge> 1 \<and> sd_server_received st j \<ge> 1) clients)"

definition start_client :: "crypto \<Rightarrow> inet \<Rightarrow> os_calls \<Rightarrow> u64 \<Rightarrow> nat \<Rightarrow> stand \<Rightarrow> stand program option" where
  "start_client cr inet os token_sequence j st =
     and_then (create_test_client inet os j (''[::]:'' @ decimal (50000 + j)) st) (\<lambda>st.
       connect_test_client cr inet [''[::1]:40000''] TEST_CONNECT_TOKEN_EXPIRY (token_sequence + of_nat j) j (draw_client_id st))"

text \<open>One iteration: a server for \<open>k\<close> clients is started, all connect, exchange payloads and are destroyed.\<close>

definition start_stop_iteration ::
    "crypto \<Rightarrow> inet \<Rightarrow> os_calls \<Rightarrow> nat \<Rightarrow> nat \<times> u64 \<Rightarrow> stand \<Rightarrow> stand program option" where
  "start_stop_iteration cr inet os rounds = (\<lambda>(k, token_sequence) st.
     and_then (with_server (\<lambda>s. netcode_server_start cr s k) st) (\<lambda>st.
     and_then (for_each (start_client cr inet os token_sequence) [0..<k] st) (\<lambda>st.
     and_then (rounds_until False delta_time (pump cr [0..<k]) (\<lambda>st. count_connected [0..<k] st = k) rounds st) (\<lambda>st.
     and_then (expect (server_is (\<lambda>s. netcode_server_num_connected_clients s = int k) st) st) (\<lambda>st.
     and_then (expect (\<forall>j < k. client_connected j st \<and> server_is (\<lambda>s. netcode_server_client_connected s (int j)) st) st) (\<lambda>st.
     and_then (rounds_until False delta_time (exchange cr [0..<k]) (\<lambda>st. num_clients_ready [0..<k] st = k) rounds
         (st\<lparr>sd_client_received := (\<lambda>_. 0), sd_server_received := (\<lambda>_. 0)\<rparr>)) (\<lambda>st.
     and_then (expect (num_clients_ready [0..<k] st = k) st) (\<lambda>st.
     and_then (reset_simulator st) (\<lambda>st.
     and_then (for_each (destroy_test_client cr) [0..<k] st)
       (with_server (netcode_server_stop cr)))))))))))"

text \<open>The token sequence goes on from one iteration to the next.\<close>

definition test_client_server_multiple_clients ::
    "crypto \<Rightarrow> inet \<Rightarrow> os_calls \<Rightarrow> server_memory \<Rightarrow> nat \<Rightarrow> world \<Rightarrow> world program option" where
  "test_client_server_multiple_clients cr inet os memory rounds w =
     and_then (create_simulator True w) (\<lambda>st.
     and_then (create_test_server inet os memory st) (\<lambda>st.
     and_then (for_each (start_stop_iteration cr inet os rounds) [(2, 0), (32, 2), (5, 34)] st) (\<lambda>st.
     and_then (destroy_test_server cr st) destroy_simulator)))"

section \<open>The run of the tests\<close>

text \<open>In the order of \<^verbatim>\<open>netcode_test\<close>: 13 of the 15 connection tests that it runs. The last two, \<^verbatim>\<open>test_disable_timeout\<close>
  and \<^verbatim>\<open>test_loopback\<close>, are not modelled.\<close>

definition connection_tests ::
    "crypto \<Rightarrow> inet \<Rightarrow> os_calls \<Rightarrow> server_memory \<Rightarrow> nat \<Rightarrow> (world \<Rightarrow> world program option) list" where
  "connection_tests cr inet os memory rounds =
     [test_client_server_connect cr inet os memory rounds,
      test_client_server_keep_alive cr inet os memory rounds,
      test_client_server_multiple_clients cr inet os memory rounds,
      test_client_server_multiple_servers cr inet os memory rounds,
      test_client_error_connect_token_expired cr inet os,
      test_client_error_invalid_connect_token cr inet os,
      test_client_error_connection_timed_out cr inet os memory rounds,
      test_client_error_connection_response_timeout cr inet os memory rounds,
      test_client_error_connection_request_timeout cr inet os memory rounds,
      test_client_error_connection_denied cr inet os memory rounds,
      test_client_side_disconnect cr inet os memory rounds,
      test_server_side_disconnect cr inet os memory rounds,
      test_client_reconnect cr inet os memory rounds]"

end
