(* ===== verification/Test_Stand.thy ===== *)
theory Test_Stand
  imports Connection_Tests
begin

text \<open>
  What the stand of a connection test keeps true: its server, clients and simulator are a process on one heap, and no sequence number runs
  out. Every step of a test keeps it or fails a check of the test itself, and so do the loops, for a number of rounds that leaves the
  sequence numbers below the point where the library's assertions would fire.
\<close>

section \<open>A sound stand\<close>

text \<open>
  The server of a test is driven at \<open>t\<close>, all numbers are at most \<open>n\<close>, the server, when it runs, has the slots that \<open>m\<close> says, and the test's time is \<open>time\<close>.
\<close>

definition has_slots :: "nat option \<Rightarrow> netcode_server \<Rightarrow> bool" where
  "has_slots m s \<longleftrightarrow> sv_running s \<longrightarrow> (case m of None \<Rightarrow> True | Some k \<Rightarrow> sv_max_clients s = k)"

lemma has_slots_same: "has_slots m s \<Longrightarrow> sv_running s' = sv_running s \<Longrightarrow> sv_max_clients s' = sv_max_clients s \<Longrightarrow> has_slots m s'"
  by (simp add: has_slots_def split: option.splits)

definition stand_ok :: "nat set \<Rightarrow> nat option \<Rightarrow> nat \<Rightarrow> dbl \<Rightarrow> dbl \<Rightarrow> stand \<Rightarrow> bool" where
  "stand_ok S m n t time st \<longleftrightarrow> sd_time st = time
     \<and> process_in True (Some (sd_simulator st)) (\<lambda>_. server_driven_in True n t) (\<lambda>_. client_driven_in True n)
         (sd_servers st) (sd_clients st) (sd_world st)
     \<and> (\<forall>i. i \<noteq> 0 \<longrightarrow> sd_servers st i = None)
     \<and> (\<forall>p s. sd_servers st 0 = Some (p, s) \<longrightarrow> has_slots m s)
     \<and> dom (sd_clients st) \<subseteq> S"

lemma stand_more: "stand_ok S m n t time st \<Longrightarrow> n \<le> n' \<Longrightarrow> t' \<le> t \<Longrightarrow> stand_ok S m n' t' time st"
  unfolding stand_ok_def by (auto elim!: process_mono intro: server_driven_mono client_driven_mono)

lemma stand_fields [simp]:
  "stand_ok S m n t time (st\<lparr>sd_client_id := i\<rparr>) = stand_ok S m n t time st"
  "stand_ok S m n t time (st\<lparr>sd_client_received := f\<rparr>) = stand_ok S m n t time st"
  "stand_ok S m n t time (st\<lparr>sd_server_received := f\<rparr>) = stand_ok S m n t time st"
  by (simp_all add: stand_ok_def)

lemma runs_expect: "stand_ok S m n t time st \<Longrightarrow> runs (expect b st) (ends_well (stand_ok S m n t time))"
  by (simp add: expect_def)

text \<open>A call on the server, on a client, on neither.\<close>

lemma stand_server_step:
  assumes ok: "stand_ok S m n t time st" and i: "sd_servers st 0 = Some (p, s)" and n: "n \<le> n'"
    and new: "process_in True (Some (sd_simulator st)) ((\<lambda>_. server_driven_in True n t)(0 := server_driven_in True n' t'))
      (\<lambda>_. client_driven_in True n) ((sd_servers st)(0 \<mapsto> (p, s'))) (sd_clients st) w'" "has_slots m' s'"
  shows "stand_ok S m' n' t' time (st\<lparr>sd_servers := (sd_servers st)(0 \<mapsto> (p, s')), sd_world := w'\<rparr>)"
proof -
  have "process_in True (Some (sd_simulator st)) (\<lambda>_. server_driven_in True n' t') (\<lambda>_. client_driven_in True n')
      ((sd_servers st)(0 \<mapsto> (p, s'))) (sd_clients st) w'"
    using ok n by (intro process_mono [OF new(1)]) (auto simp: stand_ok_def intro: client_driven_mono split: if_splits)
  with ok new(2) show ?thesis by (auto simp: stand_ok_def)
qed

lemma runs_with_server:
  assumes ok: "stand_ok S m n t time st" and n: "n \<le> n'"
    and call: "\<And>B s. server_inv B s (sd_world st) \<Longrightarrow> server_driven_in True n t s \<Longrightarrow> has_slots m s \<Longrightarrow>
      runs (call s (sd_world st)) (\<lambda>x. server_kept_driven_in True B n' t' (sd_world st) x \<and> has_slots m' (fst x))"
  shows "runs (with_server call st) (ends_well (stand_ok S m' n' t' time))"
proof (cases "sd_servers st 0")
  case None
  then show ?thesis by (simp add: with_server_def)
next
  case (Some x)
  then obtain p s where i: "sd_servers st 0 = Some (p, s)" by (cases x) auto
  have pr: "process_in True (Some (sd_simulator st)) (\<lambda>_. server_driven_in True n t) (\<lambda>_. client_driven_in True n)
      (sd_servers st) (sd_clients st) (sd_world st)" and m: "has_slots m s"
    using ok i by (auto simp: stand_ok_def)
  from runs_process_server [where R = "has_slots m'", OF pr i call [OF _ process_server(2) [OF pr i] m]]
  show ?thesis
    using i stand_server_step [OF ok i n] by (auto simp: with_server_def runs_simps elim!: runs_mono)
qed

lemma stand_client_step:
  assumes ok: "stand_ok S m n t time st" and n: "n \<le> n'" and S: "dom ((sd_clients st)(i := c)) \<subseteq> S'"
    and new: "process_in True (Some (sd_simulator st)) (\<lambda>_. server_driven_in True n t)
      ((\<lambda>_. client_driven_in True n)(i := client_driven_in True n')) (sd_servers st) ((sd_clients st)(i := c)) w'"
  shows "stand_ok S' m n' t time (st\<lparr>sd_clients := (sd_clients st)(i := c), sd_world := w'\<rparr>)"
proof -
  have "process_in True (Some (sd_simulator st)) (\<lambda>_. server_driven_in True n' t) (\<lambda>_. client_driven_in True n')
      (sd_servers st) ((sd_clients st)(i := c)) w'"
    using n by (intro process_mono [OF new]) (auto intro: client_driven_mono server_driven_mono split: if_splits)
  with ok S show ?thesis by (simp add: stand_ok_def)
qed

lemma runs_with_client:
  assumes ok: "stand_ok S m n t time st" and n: "n \<le> n'"
    and call: "\<And>B c. client_inv B c (sd_world st) \<Longrightarrow> client_driven_in True n c \<Longrightarrow>
      runs (call c (sd_world st)) (client_kept_driven_in True B n' (sd_world st))"
  shows "runs (with_client i call st) (ends_well (stand_ok S m n' t time))"
proof (cases "sd_clients st i")
  case None
  then show ?thesis by (simp add: with_client_def)
next
  case (Some x)
  then obtain p c where i: "sd_clients st i = Some (p, c)" by (cases x) auto
  have pr: "process_in True (Some (sd_simulator st)) (\<lambda>_. server_driven_in True n t) (\<lambda>_. client_driven_in True n)
      (sd_servers st) (sd_clients st) (sd_world st)" using ok by (simp add: stand_ok_def)
  have dom_kept: "dom ((sd_clients st)(i \<mapsto> x)) \<subseteq> S" for x using ok i by (auto simp: stand_ok_def)
  from runs_process_client [OF pr i call [OF _ process_client(2) [OF pr i]]] show ?thesis
    using i stand_client_step [OF ok n dom_kept] by (auto simp: with_client_def runs_simps elim!: runs_mono)
qed

lemma stand_world:
  assumes "stand_ok S m n t time st"
    and "\<And>A. world_inv True A (sd_world st) \<Longrightarrow> world_inv True A w' \<and> untouched A (sd_world st) w'"
    and "w_initialized w' = w_initialized (sd_world st)" and "w_timestamp w' = w_timestamp (sd_world st)"
  shows "stand_ok S m n t time (st\<lparr>sd_world := w'\<rparr>)"
proof -
  let ?pr = "process_in True (Some (sd_simulator st)) (\<lambda>_. server_driven_in True n t) (\<lambda>_. client_driven_in True n)
      (sd_servers st) (sd_clients st)"
  have pr: "?pr (sd_world st)" using assms(1) by (simp add: stand_ok_def)
  then have "?pr w'"
    using assms(2) [OF conjunct1 [OF process_world [OF pr]]] assms(3,4) by (intro process_outside [OF pr]) (auto simp: process_in_def)
  with assms(1) show ?thesis by (auto simp: stand_ok_def)
qed

section \<open>Steps of a test\<close>

lemma length_test_private_key [simp]: "length test_private_key = NETCODE_KEY_BYTES"
  by (simp add: test_private_key_def)

lemma runs_create_simulator:
  assumes "world_inv True {} w" and "w_initialized w" and "unat (w_timestamp w) + 60 < 2 ^ 64"
  shows "runs (create_simulator disturbed w) (ends_well (\<lambda>st. stand_ok {} m 1 0 0 st \<and> sd_servers st = (\<lambda>_. None)))"
proof -
  obtain p w1 where w1: "netcode_network_simulator_create w = Some (p, w1)" "world_inv True {p} w1" "world_step {} w w1"
    using runs_sim_create [OF assms(1)] by (auto simp: runs_ex)
  let ?set = "sim_map (\<lambda>ns. ns\<lparr>ns_latency_milliseconds := 250, ns_jitter_milliseconds := 250,
    ns_packet_loss_percent := 5, ns_duplicate_packet_percent := 10\<rparr>)"
  have "sim_entry (ns\<lparr>ns_latency_milliseconds := a, ns_jitter_milliseconds := b, ns_packet_loss_percent := c,
    ns_duplicate_packet_percent := d\<rparr>) k = sim_entry ns k" for ns a b c d k by (cases k) (simp_all add: sim_entry.simps)
  then have "world_inv True {p} (?set w1)"
    using w1(2) sim_inv_other_fields [of "{p}" "w_heap w1" "w_simulator w1" "w_simulator (?set w1)"]
    by (simp add: world_inv_def sim_map_def inbox_ok_def)
  then have "process_in True (Some p) P Q (\<lambda>_. None) (\<lambda>_. None) (if disturbed then ?set w1 else w1)" for P Q
    using w1(2,3) assms(2,3) by (intro process_empty) (auto simp: world_step_def sim_map_def)
  then show ?thesis
    using w1(1) by (cases disturbed) (simp_all add: create_simulator_def stand_ok_def)
qed

lemma runs_create_test_client:
  assumes ok: "stand_ok S m n t time st" and i: "i \<notin> S" and inet: "inet_ok inet"
  shows "runs (create_test_client inet os i name st) (ends_well (\<lambda>st'. stand_ok (insert i S) m n t time st' \<and> sd_servers st' = sd_servers st))"
proof -
  let ?P = "\<lambda>_ :: nat. server_driven_in True n t" and ?Q = "\<lambda>_ :: nat. client_driven_in True n"
  have i': "sd_clients st i = None" using ok i by (auto simp: stand_ok_def)
  have S: "dom ((sd_clients st)(i := c)) \<subseteq> insert i S" for c using ok by (auto simp: stand_ok_def)
  have pr: "process_in True (Some (sd_simulator st)) ?P ?Q (sd_servers st) (sd_clients st) (sd_world st)"
    using ok by (simp add: stand_ok_def)
  have weak: "process_in True sp ?P (?Q(i := client_driven_in True 0)) ss cs w \<Longrightarrow> process_in True sp ?P (?Q(i := client_driven_in True n)) ss cs w" for sp ss cs w
    by (erule process_mono) (auto intro: client_driven_mono split: if_splits)
  show ?thesis
    unfolding create_test_client_def runs_bind
    by (rule runs_mono [OF runs_process_client_create_internal [OF pr i' inet]])
      (auto simp: expect_def dest!: weak intro: stand_client_step [OF ok order_refl S])
qed

lemma runs_create_test_server:
  assumes ok: "stand_ok S m n t time st" and i: "sd_servers st 0 = None" and inet: "inet_ok inet"
    and memory: "length (fst (snd memory)) = NETCODE_KEY_BYTES" and t: "t \<le> time"
  shows "runs (create_test_server inet os memory st) (ends_well (stand_ok S None n t time))"
proof -
  let ?P = "\<lambda>_ :: nat. server_driven_in True n t" and ?Q = "\<lambda>_ :: nat. client_driven_in True n"
  obtain timeouts key k where mem: "memory = (timeouts, key, k)" by (cases memory)
  then have key: "length key = NETCODE_KEY_BYTES" using memory by simp
  have pr: "process_in True (Some (sd_simulator st)) ?P ?Q (sd_servers st) (sd_clients st) (sd_world st)"
    and time: "sd_time st = time" using ok by (simp_all add: stand_ok_def)
  have weak: "process_in True sp (?P(0 := server_driven_in True 0 time)) ?Q ss cs w \<Longrightarrow> process_in True sp ?P ?Q ss cs w" for sp ss cs w
    using t by (erule_tac process_mono) (auto intro: server_driven_mono split: if_splits)
  show ?thesis
    unfolding create_test_server_def mem prod.case time runs_bind
    by (rule runs_mono [OF runs_process_server_create_internal [OF pr i inet key length_test_private_key]])
      (use ok in \<open>auto simp: expect_def stand_ok_def has_slots_def dest!: weak\<close>)
qed

lemma runs_draw_client_id: "stand_ok S m n t time st \<Longrightarrow> stand_ok S m n t time (draw_client_id st)"
  unfolding draw_client_id_def netcode_random_bytes_def Let_def prod.case
  using stand_world [of S m n t time st "(sd_world st)\<lparr>w_random_next := w_random_next (sd_world st) + 8\<rparr>"]
  by (simp add: untouched_def stand_ok_def)

lemma runs_connect_test_client:
  assumes laws: "aead_laws cr" and ok: "stand_ok S m n t time st" and inet: "inet_ok inet"
    and names: "0 < length names" "length names \<le> NETCODE_MAX_SERVERS_PER_CONNECT" and expire: "expire = 0 \<or> expire = 30"
  shows "runs (connect_test_client cr inet names expire k i st) (ends_well (stand_ok S m n t time))"
proof -
  have "unat (w_timestamp (sd_world st)) + 60 < 2 ^ 64" using ok by (simp add: stand_ok_def process_in_def)
  then have "expire < 0 \<or> unat (w_timestamp (sd_world st)) + nat expire < 2 ^ 64" using expire by auto
  from runs_generate_connect_token [OF laws length_test_private_key inet names _ this, of 5 "sd_client_id st" TEST_PROTOCOL_ID k]
  obtain r w' where r: "netcode_generate_connect_token cr inet names expire 5 (sd_client_id st) TEST_PROTOCOL_ID k test_private_key (sd_world st) = Some (r, w')"
    and w': "w' = (sd_world st)\<lparr>w_random_next := w_random_next w'\<rparr>"
    and len: "\<And>token. r = NETCODE_OK token \<Longrightarrow> length token = NETCODE_CONNECT_TOKEN_BYTES" by (auto simp: runs_ex int32_def)
  have "stand_ok S m n t time (st\<lparr>sd_world := (sd_world st)\<lparr>w_random_next := w_random_next w'\<rparr>\<rparr>)"
    by (rule stand_world [OF ok]) (simp_all add: untouched_def)
  then have st: "stand_ok S m n t time (st\<lparr>sd_world := w'\<rparr>)" using w' by simp
  show ?thesis
  proof (cases r)
    case NETCODE_ERROR
    with r show ?thesis by (simp add: connect_test_client_def)
  next
    case (NETCODE_OK token)
    have "runs (with_client i (\<lambda>client w. netcode_client_connect cr client token w) (st\<lparr>sd_world := w'\<rparr>)) (ends_well (stand_ok S m n t time))"
      by (rule runs_with_client [OF st order_refl]) (auto intro: drives_client_connect [OF laws] len NETCODE_OK)
    with NETCODE_OK r show ?thesis by (simp add: connect_test_client_def)
  qed
qed

lemma runs_destroy_test_server:
  assumes laws: "aead_laws cr" and ok: "stand_ok S m n t time st"
  shows "runs (destroy_test_server cr st) (ends_well (stand_ok S m n t time))"
proof (cases "sd_servers st 0")
  case None
  then show ?thesis by (simp add: destroy_test_server_def)
next
  case (Some x)
  then obtain p s where i: "sd_servers st 0 = Some (p, s)" by (cases x) auto
  have pr: "process_in True (Some (sd_simulator st)) (\<lambda>_. server_driven_in True n t) (\<lambda>_. client_driven_in True n)
      (sd_servers st) (sd_clients st) (sd_world st)" using ok by (simp add: stand_ok_def)
  have "(sd_servers st)(0 := None) = (\<lambda>_. None)" using ok by (auto simp: stand_ok_def fun_eq_iff)
  with runs_process_server_destroy [OF laws pr i process_server(2) [OF pr i]] i ok show ?thesis
    by (auto simp: destroy_test_server_def runs_simps stand_ok_def elim!: runs_mono)
qed

lemma runs_destroy_test_client:
  assumes laws: "aead_laws cr" and ok: "stand_ok S m n t time st"
  shows "runs (destroy_test_client cr i st) (ends_well (stand_ok (S - {i}) m n t time))"
proof (cases "sd_clients st i")
  case None
  then show ?thesis by (simp add: destroy_test_client_def)
next
  case (Some x)
  then obtain p c where i: "sd_clients st i = Some (p, c)" by (cases x) auto
  have pr: "process_in True (Some (sd_simulator st)) (\<lambda>_. server_driven_in True n t) (\<lambda>_. client_driven_in True n)
      (sd_servers st) (sd_clients st) (sd_world st)" using ok by (simp add: stand_ok_def)
  from runs_process_client_destroy [OF laws pr i process_client(2) [OF pr i]] i ok show ?thesis
    by (auto simp: destroy_test_client_def runs_simps stand_ok_def elim!: runs_mono)
qed

lemma const_upd [simp]: "(\<lambda>_. x)(i := x) = (\<lambda>_. x)"
  by auto

text \<open>The world between two tests.\<close>

definition between_tests :: "world \<Rightarrow> bool" where
  "between_tests w \<longleftrightarrow> world_inv True {} w \<and> w_initialized w \<and> unat (w_timestamp w) + 60 < 2 ^ 64"

lemma runs_destroy_simulator:
  assumes "stand_ok S m n t time st"
  shows "runs (destroy_simulator st) (ends_well between_tests)"
proof -
  let ?p = "sd_simulator st"
  have pr: "process_in True (Some ?p) (\<lambda>_. server_driven_in True n t) (\<lambda>_. client_driven_in True n) (sd_servers st) (sd_clients st) (sd_world st)"
    using assms by (simp add: stand_ok_def)
  have "?p \<in> blocks_in (Some ?p) (sd_servers st) (sd_clients st)"
    using room_in_rooms [of endpoint_blocks "tenants (Some ?p) (sd_servers st) (sd_clients st)" Simulator_slot] by simp
  then have "world_inv True {?p} (sd_world st)" using process_world [OF pr] world_inv_mono by blast
  then have inv: "world_inv True (insert ?p {}) (sd_world st)" by simp
  show ?thesis
    unfolding destroy_simulator_def runs_bind
    by (rule runs_mono [OF runs_sim_destroy [OF inv]]) (use pr in \<open>auto simp: between_tests_def process_in_def world_step_def\<close>)
qed

text \<open>A step of the simulator leaves the blocks of all others alone.\<close>

lemma stand_stepped:
  assumes "stand_ok S m n t time st" and "world_inv True (blocks_in (Some (sd_simulator st)) (sd_servers st) (sd_clients st)) w'"
    and "world_step (blocks_in (Some (sd_simulator st)) (sd_servers st) (sd_clients st)) (sd_world st) w'"
  shows "stand_ok S m n t time (st\<lparr>sd_world := w'\<rparr>)"
proof -
  have pr: "process_in True (Some (sd_simulator st)) (\<lambda>_. server_driven_in True n t) (\<lambda>_. client_driven_in True n)
      (sd_servers st) (sd_clients st) (sd_world st)" using assms(1) by (simp add: stand_ok_def)
  have "process_in True (Some (sd_simulator st)) (\<lambda>_. server_driven_in True n t) (\<lambda>_. client_driven_in True n)
      (sd_servers st) (sd_clients st) w'"
    by (rule process_outside [OF pr assms(2)]) (use assms(3) pr in \<open>auto simp: world_step_def untouched_def process_in_def\<close>)
  with assms(1) show ?thesis by (auto simp: stand_ok_def)
qed

lemma runs_reset_simulator:
  assumes "stand_ok S m n t time st"
  shows "runs (reset_simulator st) (ends_well (stand_ok S m n t time))"
proof -
  have pr: "process_in True (Some (sd_simulator st)) (\<lambda>_. server_driven_in True n t) (\<lambda>_. client_driven_in True n)
      (sd_servers st) (sd_clients st) (sd_world st)" using assms by (simp add: stand_ok_def)
  show ?thesis
    unfolding reset_simulator_def runs_bind
    by (rule runs_mono [OF runs_sim_reset [OF conjunct1 [OF process_world [OF pr]]]])
      (auto intro: stand_stepped [OF assms])
qed

text \<open>Updates and payloads, in which the numbers grow.\<close>

lemma runs_sim_step:
  assumes "stand_ok S m n t time st"
  shows "runs (netcode_network_simulator_update (sd_time st) (sd_world st)) (\<lambda>w. stand_ok S m n t time (st\<lparr>sd_world := w\<rparr>))"
proof -
  have pr: "process_in True (Some (sd_simulator st)) (\<lambda>_. server_driven_in True n t) (\<lambda>_. client_driven_in True n)
      (sd_servers st) (sd_clients st) (sd_world st)" using assms by (simp add: stand_ok_def)
  show ?thesis
    by (rule runs_mono [OF runs_sim_update [OF conjunct1 [OF process_world [OF pr]]]]) (auto intro: stand_stepped [OF assms])
qed

lemma runs_for_clients:
  assumes "\<And>k i st. i \<in> set clients \<Longrightarrow> k < length clients \<Longrightarrow> stand_ok S m (n + d * k) t time st \<Longrightarrow>
      runs (body i st) (ends_well (stand_ok S m (n + d * k + d) t time))"
    and "stand_ok S m n t time st"
  shows "runs (for_each body clients st) (ends_well (stand_ok S m (n + d * length clients) t time))"
  by (rule runs_for_each [where I = "\<lambda>k. stand_ok S m (n + d * k) t time"]) (use assms in \<open>simp_all add: ac_simps\<close>)

lemma runs_pump_clients:
  assumes laws: "aead_laws cr" and ok: "stand_ok S m n t time st"
  shows "runs (pump_clients cr clients st) (ends_well (stand_ok S m (n + length clients) t time))"
  unfolding pump_clients_def runs_bind
  by (rule runs_mono [OF runs_sim_step [OF ok]], rule runs_for_clients [where d = 1, simplified])
    (auto intro!: runs_with_client drives_client_update [OF laws])

lemma runs_pump:
  assumes laws: "aead_laws cr" and ok: "stand_ok S m n t time st" and n: "1 \<le> n" and t: "time \<le> t + 9 / 10"
  shows "runs (pump cr clients st) (ends_well (stand_ok S m (n + length clients + 1) time time))"
proof -
  have T: "sd_time st = time" using ok by (simp add: stand_ok_def)
  have "runs (with_server (netcode_server_update cr time) st') (ends_well (stand_ok S m (n + length clients + 1) time time))"
    if "stand_ok S m (n + length clients) t time st'" for st'
  proof (rule runs_with_server [OF that], simp)
    fix B s assume s: "server_inv B s (sd_world st')" "server_driven_in True (n + length clients) t s" "has_slots m s"
    show "runs (netcode_server_update cr time s (sd_world st'))
      (\<lambda>x. server_kept_driven_in True B (n + length clients + 1) time (sd_world st') x \<and> has_slots m (fst x))"
      by (rule runs_mono [OF drives_update [OF laws s(1,2) _ t]]) (use n s(3) in \<open>auto intro: has_slots_same\<close>)
  qed
  then show ?thesis unfolding pump_def T by (rule runs_and_then [OF runs_pump_clients [OF laws ok]])
qed

lemma runs_send_clients:
  assumes laws: "aead_laws cr" and ok: "stand_ok S m n t time st" and n: "n + length clients < 2 ^ 24"
  shows "runs (for_each (\<lambda>j. with_client j (\<lambda>c. netcode_client_send_packet cr c packet_data)) clients st)
    (ends_well (stand_ok S m (n + length clients) t time))"
  by (rule runs_for_clients [where d = 1, simplified, OF _ ok])
    (use n in \<open>auto intro!: runs_with_client drives_client_send [OF laws, simplified]\<close>)

lemma runs_send_server:
  assumes laws: "aead_laws cr" and ok: "stand_ok S (Some m) n t time st" and n: "n + 2 * length clients + 1 < 2 ^ 24"
    and clients: "\<forall>j \<in> set clients. j < m"
  shows "runs (for_each (\<lambda>j. with_server (\<lambda>s. netcode_server_send_packet cr s (int j) packet_data)) clients st)
    (ends_well (stand_ok S (Some m) (n + 2 * length clients) t time))"
proof (rule runs_for_clients [OF _ ok])
  fix k j st assume j: "j \<in> set clients" and k: "k < length clients" and ok: "stand_ok S (Some m) (n + 2 * k) t time st"
  show "runs (with_server (\<lambda>s. netcode_server_send_packet cr s (int j) packet_data) st) (ends_well (stand_ok S (Some m) (n + 2 * k + 2) t time))"
  proof (rule runs_with_server [OF ok], simp)
    fix B s assume s: "server_inv B s (sd_world st)" "server_driven_in True (n + 2 * k) t s" "has_slots (Some m) s"
    show "runs (netcode_server_send_packet cr s (int j) packet_data (sd_world st))
      (\<lambda>x. server_kept_driven_in True B (n + 2 * k + 2) t (sd_world st) x \<and> has_slots (Some m) (fst x))"
      by (rule runs_mono [OF drives_send [OF laws s(1,2)]])
        (use s(3) j clients n k in \<open>auto simp: has_slots_def\<close>)
  qed
qed

lemma runs_read_test_client:
  assumes ok: "stand_ok S m n t time st"
  shows "runs (read_test_client i st) (ends_well (stand_ok S m n t time))"
proof (cases "sd_clients st i")
  case None
  then show ?thesis by (simp add: read_test_client_def)
next
  case (Some x)
  then obtain p c where i: "sd_clients st i = Some (p, c)" by (cases x) auto
  have pr: "process_in True (Some (sd_simulator st)) (\<lambda>_. server_driven_in True n t) (\<lambda>_. client_driven_in True n)
      (sd_servers st) (sd_clients st) (sd_world st)" using ok by (simp add: stand_ok_def)
  have S: "i \<in> S" using ok i by (auto simp: stand_ok_def)
  have "runs (and_then (client_read_loop whole_packet read_rounds (sd_client_received st i, c, sd_world st)) (\<lambda>(received, client, w).
         Some (Runs (st\<lparr>sd_client_received := (sd_client_received st)(i := received),
           sd_clients := (sd_clients st)(i \<mapsto> (p, client)), sd_world := w\<rparr>)))) (ends_well (stand_ok S m n t time))"
    by (rule runs_and_then_triple [OF runs_process_client_read [OF pr i process_client(2) [OF pr i]]])
      (use ok S in \<open>auto simp: stand_ok_def\<close>)
  with i show ?thesis by (simp add: read_test_client_def)
qed

lemma runs_read_test_server:
  assumes ok: "stand_ok S (Some m) n t time st" and n: "1 \<le> n" and j: "j < m"
  shows "runs (read_test_server j st) (ends_well (stand_ok S (Some m) n t time))"
proof (cases "sd_servers st 0")
  case None
  then show ?thesis by (simp add: read_test_server_def)
next
  case (Some x)
  then obtain p s where i: "sd_servers st 0 = Some (p, s)" by (cases x) auto
  have pr: "process_in True (Some (sd_simulator st)) (\<lambda>_. server_driven_in True n t) (\<lambda>_. client_driven_in True n)
      (sd_servers st) (sd_clients st) (sd_world st)" and m: "has_slots (Some m) s" using ok i by (auto simp: stand_ok_def)
  then have up: "sv_running s \<longrightarrow> 0 \<le> int j \<and> int j < int (sv_max_clients s)" using j by (simp add: has_slots_def)
  have "runs (and_then (server_read_loop whole_packet read_rounds (int j) (sd_server_received st j, s, sd_world st)) (\<lambda>(received, server, w).
         Some (Runs (st\<lparr>sd_server_received := (sd_server_received st)(j := received),
           sd_servers := (sd_servers st)(0 \<mapsto> (p, server)), sd_world := w\<rparr>)))) (ends_well (stand_ok S (Some m) n t time))"
    by (rule runs_and_then_triple [OF runs_process_server_read [OF pr i process_server(2) [OF pr i] n up]])
      (use ok m in \<open>auto simp: stand_ok_def intro: has_slots_same\<close>)
  with i show ?thesis by (simp add: read_test_server_def)
qed

section \<open>Loops of a test\<close>

text \<open>A stand whose server has been updated in time.\<close>

definition stand_driven :: "nat set \<Rightarrow> nat option \<Rightarrow> nat \<Rightarrow> stand \<Rightarrow> bool" where
  "stand_driven S m n st \<longleftrightarrow> 1 \<le> n \<and> (\<exists>t time. stand_ok S m n t time st \<and> time \<le> t + 9 / 10)"

lemma runs_ends_mono: "runs x (ends_well P) \<Longrightarrow> (\<And>y. P y \<Longrightarrow> Q y) \<Longrightarrow> runs x (ends_well Q)"
  by (erule runs_mono, erule ends_well_mono)

lemma driven_more: "stand_driven S m n st \<Longrightarrow> n \<le> n' \<Longrightarrow> stand_driven S m n' st"
  unfolding stand_driven_def by (blast intro: stand_more [OF _ _ order_refl] order_trans)

lemma runs_driven:
  assumes "stand_driven S m n st" and "n \<le> n'"
    and "\<And>t time. stand_ok S m n t time st \<Longrightarrow> runs x (ends_well (stand_ok S' m' n' t time))"
  shows "runs x (ends_well (stand_driven S' m' n'))"
proof -
  obtain t time where st: "1 \<le> n" "stand_ok S m n t time st" "time \<le> t + 9 / 10" using assms(1) by (auto simp: stand_driven_def)
  from assms(3) [OF st(2)] show ?thesis
    by (rule runs_mono, elim ends_well_mono) (use st assms(2) in \<open>auto simp: stand_driven_def\<close>)
qed

lemma driven_pump:
  assumes laws: "aead_laws cr" and st: "stand_driven S m n st"
  shows "runs (pump cr clients st) (ends_well (\<lambda>st'. \<exists>time. stand_ok S m (n + length clients + 1) time time st'))"
proof -
  obtain t time where st: "1 \<le> n" "stand_ok S m n t time st" "time \<le> t + 9 / 10" using st by (auto simp: stand_driven_def)
  show ?thesis by (rule runs_ends_mono [OF runs_pump [OF laws st(2,1,3)]]) blast
qed

lemma runs_rounds_until:
  assumes "\<And>k st. k < rounds \<Longrightarrow> I k st \<Longrightarrow>
      runs (body st) (ends_well (\<lambda>st'. R st' \<and> I (Suc k) (st'\<lparr>sd_time := sd_time st' + delta\<rparr>)))"
    and "I 0 st" and "\<And>st. bounded \<Longrightarrow> I rounds st \<Longrightarrow> R st"
  shows "runs (rounds_until bounded delta body stop rounds st) (ends_well R)"
  using assms
proof (induction rounds arbitrary: I st)
  case (Suc rounds)
  show ?case
    unfolding rounds_until.simps
  proof (rule runs_and_then [OF Suc.prems(1) [OF _ Suc.prems(2)]], simp, elim conjE)
    fix st' assume R: "R st'" and I: "I (Suc 0) (st'\<lparr>sd_time := sd_time st' + delta\<rparr>)"
    have "runs (rounds_until bounded delta body stop rounds (st'\<lparr>sd_time := sd_time st' + delta\<rparr>)) (ends_well R)"
      by (rule Suc.IH [where I = "\<lambda>k. I (Suc k)", OF _ I]) (use Suc.prems(1) [of "Suc _"] Suc.prems(3) in auto)
    with R show "runs (if stop st' then Some (Runs st')
       else rounds_until bounded delta body stop rounds (st'\<lparr>sd_time := sd_time st' + delta\<rparr>)) (ends_well R)" by simp
  qed
qed simp

text \<open>A loop whose body updates the server, with numbers that grow by \<open>d\<close> in a round.\<close>

lemma stand_later:
  assumes "stand_ok S m n t time st"
  shows "stand_ok S m n t (time + delta) (st\<lparr>sd_time := sd_time st + delta\<rparr>)"
  using assms by (simp add: stand_ok_def)

lemma runs_driven_rounds:
  assumes st: "stand_driven S m n st" and delta: "delta \<le> 9 / 10"
    and body: "\<And>k st. k < rounds \<Longrightarrow> stand_driven S m (n + d * k) st \<Longrightarrow>
      runs (body st) (ends_well (\<lambda>st'. \<exists>time. stand_ok S m (n + d * k + d) time time st'))"
  shows "runs (rounds_until bounded delta body stop rounds st) (ends_well (stand_driven S m (n + d * rounds)))"
proof (rule runs_rounds_until [where I = "\<lambda>k. stand_driven S m (n + d * k)"])
  fix k st assume k: "k < rounds" and st: "stand_driven S m (n + d * k) st"
  have "d * Suc k \<le> d * rounds" using k by (intro mult_le_mono2) simp
  then have more: "n + d * k + d \<le> n + d * rounds" by simp
  have n: "1 \<le> n + d * k" using st by (simp add: stand_driven_def)
  show "runs (body st) (ends_well (\<lambda>st'. stand_driven S m (n + d * rounds) st' \<and> stand_driven S m (n + d * Suc k) (st'\<lparr>sd_time := sd_time st' + delta\<rparr>)))"
  proof (rule runs_mono [OF body [OF k st]], elim ends_well_mono exE)
    fix st' time assume st': "stand_ok S m (n + d * k + d) time time st'"
    have "stand_driven S m (n + d * rounds) st'"
      unfolding stand_driven_def using stand_more [OF st' more order_refl] n more by (intro conjI exI [of _ time]) simp_all
    moreover have "stand_ok S m (n + d * Suc k) time (time + delta) (st'\<lparr>sd_time := sd_time st' + delta\<rparr>)"
      using stand_later [OF st'] by (simp add: ac_simps)
    then have "stand_driven S m (n + d * Suc k) (st'\<lparr>sd_time := sd_time st' + delta\<rparr>)"
      unfolding stand_driven_def using delta n by (intro conjI exI) auto
    ultimately show "stand_driven S m (n + d * rounds) st' \<and> stand_driven S m (n + d * Suc k) (st'\<lparr>sd_time := sd_time st' + delta\<rparr>)" by blast
  qed
qed (use st in simp_all)

text \<open>The loops of the tests.\<close>

lemma runs_pump_rounds:
  assumes "aead_laws cr" and "stand_driven S m n st" and "delta \<le> 9 / 10"
  shows "runs (rounds_until bounded delta (pump cr clients) stop rounds st) (ends_well (stand_driven S m (n + (length clients + 1) * rounds)))"
proof (rule runs_driven_rounds [OF assms(2,3)])
  fix k st assume "stand_driven S m (n + (length clients + 1) * k) st"
  from driven_pump [OF assms(1) this, of clients]
  show "runs (pump cr clients st) (ends_well (\<lambda>st'. \<exists>time. stand_ok S m (n + (length clients + 1) * k + (length clients + 1)) time time st'))"
    by (simp add: ac_simps)
qed

lemma runs_exchange:
  assumes laws: "aead_laws cr" and st: "stand_driven S (Some m) n st" and n: "n + 4 * length clients + 2 < 2 ^ 24"
    and clients: "\<forall>j \<in> set clients. j < m"
  shows "runs (exchange cr clients st) (ends_well (\<lambda>st'. \<exists>time. stand_ok S (Some m) (n + 4 * length clients + 1) time time st'))"
proof -
  let ?k = "length clients"
  have n1: "1 \<le> n" using st by (simp add: stand_driven_def)
  have rest: "runs (and_then (for_each (\<lambda>j. with_client j (\<lambda>c. netcode_client_send_packet cr c packet_data)) clients st) (\<lambda>st.
     and_then (for_each (\<lambda>j. with_server (\<lambda>s. netcode_server_send_packet cr s (int j) packet_data)) clients st) (\<lambda>st.
     and_then (for_each read_test_client clients st) (for_each read_test_server clients))))
     (ends_well (\<lambda>st'. \<exists>time. stand_ok S (Some m) (n + 4 * ?k + 1) time time st'))"
    if st: "stand_ok S (Some m) (n + ?k + 1) time time st" for st time
  proof (rule runs_and_then [OF runs_send_clients [OF laws st]])
    fix st1 assume st1: "stand_ok S (Some m) (n + ?k + 1 + ?k) time time st1"
    show "runs (and_then (for_each (\<lambda>j. with_server (\<lambda>s. netcode_server_send_packet cr s (int j) packet_data)) clients st1) (\<lambda>st.
     and_then (for_each read_test_client clients st) (for_each read_test_server clients)))
     (ends_well (\<lambda>st'. \<exists>time. stand_ok S (Some m) (n + 4 * ?k + 1) time time st'))"
    proof (rule runs_and_then [OF runs_send_server [OF laws st1]])
      fix st2 assume st2: "stand_ok S (Some m) (n + ?k + 1 + ?k + 2 * ?k) time time st2"
      have read: "runs (for_each read_test_client clients st2) (ends_well (stand_ok S (Some m) (n + ?k + 1 + ?k + 2 * ?k + 0 * ?k) time time))"
        by (rule runs_for_clients [OF _ st2]) (auto intro: runs_read_test_client)
      have reads: "runs (for_each read_test_server clients st3) (ends_well (\<lambda>st'. \<exists>time. stand_ok S (Some m) (n + 4 * ?k + 1) time time st'))"
        if "stand_ok S (Some m) (n + ?k + 1 + ?k + 2 * ?k) time time st3" for st3
      proof -
        have "runs (for_each read_test_server clients st3) (ends_well (stand_ok S (Some m) (n + ?k + 1 + ?k + 2 * ?k + 0 * ?k) time time))"
          by (rule runs_for_clients [OF _ that]) (use clients in \<open>auto intro: runs_read_test_server\<close>)
        then show ?thesis by (rule runs_ends_mono) (auto simp: algebra_simps)
      qed
      show "runs (and_then (for_each read_test_client clients st2) (for_each read_test_server clients))
        (ends_well (\<lambda>st'. \<exists>time. stand_ok S (Some m) (n + 4 * ?k + 1) time time st'))"
        by (rule runs_and_then [OF read]) (rule reads, simp)
    qed (use n clients in auto)
  qed (use n in simp)
  show ?thesis
    unfolding exchange_def by (rule runs_and_then [OF driven_pump [OF laws st]]) (use rest in auto)
qed

lemma driven_disconnect:
  assumes laws: "aead_laws cr" and st: "stand_ok S (Some m) n t time st" and n: "1 \<le> n" and m: "0 < m"
  shows "runs (with_server (\<lambda>s. netcode_server_disconnect_client cr s 0) st) (ends_well (stand_ok S (Some m) n t time))"
proof (rule runs_with_server [OF st order_refl])
  fix B s assume s: "server_inv B s (sd_world st)" "server_driven_in True n t s" "has_slots (Some m) s"
  show "runs (netcode_server_disconnect_client cr s 0 (sd_world st))
    (\<lambda>x. server_kept_driven_in True B n t (sd_world st) x \<and> has_slots (Some m) (fst x))"
    by (rule runs_mono [OF drives_disconnect [OF laws s(1,2) n]]) (use s(3) m in \<open>auto simp: has_slots_def\<close>)
qed

end
