(* ===== verification/Connection_Safety.thy ===== *)
theory Connection_Safety
  imports Test_Stand
begin

text \<open>
  The connection tests that are modelled one by one, and all of them: from a library that is initialized, each test runs to its end, fails a check of
  its own or is still waiting when its rounds are used up. It never aborts inside the library, and the next test can begin after it.
\<close>

section \<open>The tests never abort inside the library\<close>

lemma server_flags [simp]:
  "server_inv B (s\<lparr>sv_flags := f\<rparr>) w = server_inv B s w" "server_driven_in sim n t (s\<lparr>sv_flags := f\<rparr>) = server_driven_in sim n t s"
  "has_slots m (s\<lparr>sv_flags := f\<rparr>) = has_slots m s"
  by (simp_all add: server_inv_def server_ok_def server_ready_def server_driven_in_def seq_below_def server_fresh_def remote_def slots_ok_def
      remotes_ok_def leased_def packet_recent_def has_slots_def cong: option.case_cong)

lemma runs_start_test_server:
  assumes laws: "aead_laws cr" and st: "stand_ok S m n t time st" and n: "1 \<le> n" and k: "0 < k" "k \<le> NETCODE_MAX_CLIENTS"
  shows "runs (with_server (\<lambda>s. netcode_server_start cr s k) st) (ends_well (stand_ok S (Some k) n t time))"
  by (rule runs_with_server [OF st order_refl], rule runs_mono [OF drives_start [OF laws _ _ n k]]) (auto simp: has_slots_def)

lemma runs_set_up:
  assumes laws: "aead_laws cr" and inet: "inet_ok inet" and memory: "length (fst (snd memory)) = NETCODE_KEY_BYTES"
    and names: "0 < length names" "length names \<le> NETCODE_MAX_SERVERS_PER_CONNECT" and w: "between_tests w"
  shows "runs (set_up cr inet os memory disturbed flags names w) (ends_well (stand_driven {0} (Some 1) 1))"
  unfolding set_up_def
proof (rule runs_and_then [OF runs_create_simulator [where m = None]], use w in \<open>simp_all add: between_tests_def\<close>, elim conjE)
  fix st0 assume st0: "stand_ok {} None (Suc 0) 0 0 st0" "sd_servers st0 = (\<lambda>_. None)"
  have c: "runs (create_test_client inet os 0 ''[::]:50000'' st0) (ends_well (\<lambda>st'. stand_ok {0} None (Suc 0) 0 0 st' \<and> sd_servers st' = sd_servers st0))"
    using runs_create_test_client [OF st0(1) _ inet, of 0] by simp
  have s: "runs (create_test_server inet os memory st) (ends_well (stand_ok {0} None (Suc 0) 0 0))"
    if "stand_ok {0} None (Suc 0) 0 0 st \<and> sd_servers st = sd_servers st0" for st
    using runs_create_test_server [OF _ _ inet memory, of "{0}" None "Suc 0" 0 0 st] that st0(2) by simp
  have f: "runs (case flags of None \<Rightarrow> Some (Runs st) | Some f \<Rightarrow> with_server (\<lambda>s w. Some (s\<lparr>sv_flags := f\<rparr>, w)) st)
      (ends_well (stand_ok {0} None (Suc 0) 0 0))" if "stand_ok {0} None (Suc 0) 0 0 st" for st
    using that by (auto split: option.split intro!: runs_with_server [OF that order_refl] simp: server_kept_driven_in_def)
  have k: "runs (with_server (\<lambda>s. netcode_server_start cr s (Suc 0)) st) (ends_well (stand_ok {0} (Some (Suc 0)) (Suc 0) 0 0))"
    if "stand_ok {0} None (Suc 0) 0 0 st" for st by (rule runs_start_test_server [OF laws that]) simp_all
  have t: "runs (connect_test_client cr inet names 30 0 0 (draw_client_id st)) (ends_well (stand_driven {0} (Some (Suc 0)) (Suc 0)))"
    if "stand_ok {0} (Some (Suc 0)) (Suc 0) 0 0 st" for st
    by (rule runs_ends_mono [OF runs_connect_test_client [OF laws runs_draw_client_id [OF that] inet names]])
      (auto simp: stand_driven_def intro!: exI [of _ 0])
  show "runs (and_then (create_test_client inet os 0 ''[::]:50000'' st0) (\<lambda>st.
     and_then (create_test_server inet os memory st) (\<lambda>st.
     and_then (case flags of None \<Rightarrow> Some (Runs st) | Some f \<Rightarrow> with_server (\<lambda>s w. Some (s\<lparr>sv_flags := f\<rparr>, w)) st) (\<lambda>st.
     and_then (with_server (\<lambda>s. netcode_server_start cr s (Suc 0)) st) (\<lambda>st.
       connect_test_client cr inet names 30 0 0 (draw_client_id st)))))) (ends_well (stand_driven {0} (Some (Suc 0)) (Suc 0)))"
    by (rule runs_and_then [OF c], rule runs_and_then [OF s], assumption, rule runs_and_then [OF f], assumption,
        rule runs_and_then [OF k], assumption, rule t)
qed

text \<open>A sound stand, wherever its server was updated last, and its end.\<close>

definition stand_sound :: "stand \<Rightarrow> bool" where
  "stand_sound st \<longleftrightarrow> (\<exists>S m n t time. stand_ok S m n t time st)"

lemma stand_soundI: "stand_ok S m n t time st \<Longrightarrow> stand_sound st"
  unfolding stand_sound_def by blast

lemma driven_sound: "stand_driven S m n st \<Longrightarrow> stand_sound st"
  unfolding stand_driven_def stand_sound_def by blast

lemma runs_destroy_clients:
  assumes laws: "aead_laws cr"
  shows "stand_ok S m n t time st \<Longrightarrow> runs (for_each (destroy_test_client cr) clients st) (ends_well (stand_ok (S - set clients) m n t time))"
proof (induction clients arbitrary: S st)
  case (Cons i clients)
  have "S - set (i # clients) = S - {i} - set clients" by auto
  with Cons.IH show ?case by (auto intro: runs_and_then [OF runs_destroy_test_client [OF laws Cons.prems]])
qed simp

lemma runs_tear_down:
  assumes laws: "aead_laws cr" and st: "stand_sound st"
  shows "runs (tear_down cr clients st) (ends_well between_tests)"
proof -
  obtain S m n t time where st: "stand_ok S m n t time st" using st by (auto simp: stand_sound_def)
  show ?thesis
    unfolding tear_down_def
    by (rule runs_and_then [OF runs_destroy_test_server [OF laws st]], rule runs_and_then [OF runs_destroy_clients [OF laws]], assumption)
      (rule runs_destroy_simulator)
qed

lemma driven_expect: "stand_driven S m n st \<Longrightarrow> runs (expect b st) (ends_well (stand_driven S m n))"
  by (simp add: expect_def)

lemma sound_expect: "stand_sound st \<Longrightarrow> runs (expect b st) (ends_well stand_sound)"
  by (simp add: expect_def)

text \<open>The end of most tests.\<close>

lemma runs_check_and_end:
  assumes "aead_laws cr" and "stand_sound st"
  shows "runs (and_then (expect b st) (tear_down cr clients)) (ends_well between_tests)"
  by (rule runs_and_then [OF sound_expect [OF assms(2)] runs_tear_down [OF assms(1)]])

lemma runs_connected_pair:
  assumes laws: "aead_laws cr" and "inet_ok inet" and "length (fst (snd memory)) = NETCODE_KEY_BYTES"
    and "0 < length names" "length names \<le> NETCODE_MAX_SERVERS_PER_CONNECT" and "between_tests w"
  shows "runs (connected_pair cr inet os memory disturbed names rounds w) (ends_well (stand_driven {0} (Some 1) (1 + 2 * rounds)))"
proof -
  have wait: "runs (wait_for_connection cr (1 / 10) rounds st) (ends_well (stand_driven {0} (Some 1) (1 + 2 * rounds)))"
    if "stand_driven {0} (Some 1) 1 st" for st
    unfolding wait_for_connection_def by (rule runs_ends_mono [OF runs_pump_rounds [OF laws that]]) (simp_all add: mult_2)
  show ?thesis
    unfolding connected_pair_def
    by (rule runs_and_then [OF runs_set_up [OF assms]], rule runs_and_then [OF wait], assumption) (rule driven_expect)
qed

lemma runs_disconnect_after_ten:
  assumes "aead_laws cr" and st: "stand_ok S (Some m) n time time st" and "1 \<le> n" and "0 < m"
  shows "runs (disconnect_after_ten cr st) (ends_well (stand_ok S (Some m) n time time))"
  using driven_disconnect [OF assms(1) st assms(3,4)] st by (simp add: disconnect_after_ten_def)

lemma runs_exchange_payloads:
  assumes laws: "aead_laws cr" and "inet_ok inet" and "length (fst (snd memory)) = NETCODE_KEY_BYTES"
    and "0 < length names" "length names \<le> NETCODE_MAX_SERVERS_PER_CONNECT" and "between_tests w" and rounds: "rounds \<le> 10000"
  shows "runs (exchange_payloads cr inet os memory names rounds w) (ends_well between_tests)"
  unfolding exchange_payloads_def
proof (rule runs_and_then [OF runs_connected_pair [OF assms(1-6)]])
  fix st assume st: "stand_driven {0} (Some 1) (1 + 2 * rounds) st"
  have body: "runs (and_then (exchange cr [0] st) (disconnect_after_ten cr)) (ends_well (\<lambda>st'. \<exists>time.
      stand_ok {0} (Some 1) (1 + 2 * rounds + 5 * k + 5) time time st'))"
    if k: "k < rounds" and st: "stand_driven {0} (Some 1) (1 + 2 * rounds + 5 * k) st" for k st
  proof (rule runs_and_then [OF runs_exchange [OF laws st]])
    fix st' assume "\<exists>time. stand_ok {0} (Some 1) (1 + 2 * rounds + 5 * k + 4 * length [0] + 1) time time st'"
    then obtain time where "stand_ok {0} (Some 1) (1 + 2 * rounds + 5 * k + 5) time time st'" by auto
    from runs_disconnect_after_ten [OF laws this]
    show "runs (disconnect_after_ten cr st') (ends_well (\<lambda>st'. \<exists>time. stand_ok {0} (Some 1) (1 + 2 * rounds + 5 * k + 5) time time st'))"
      by (rule runs_ends_mono) auto
  qed (use k rounds in simp_all)
  have "runs (rounds_until False (1 / 10) (\<lambda>st. and_then (exchange cr [0] st) (disconnect_after_ten cr)) (client_gone 0) rounds st)
      (ends_well (stand_driven {0} (Some 1) (1 + 2 * rounds + 5 * rounds)))"
    by (rule runs_driven_rounds [OF st _ body]) simp_all
  then show "runs (and_then (rounds_until False (1 / 10) (\<lambda>st. and_then (exchange cr [0] st) (disconnect_after_ten cr)) (client_gone 0) rounds st) (\<lambda>st.
     and_then (expect (sd_client_received st 0 \<ge> 10 \<and> sd_server_received st 0 \<ge> 10) st) (tear_down cr [0]))) (ends_well between_tests)"
    by (rule runs_and_then) (rule runs_check_and_end [OF laws driven_sound])
qed

lemma runs_test_keep_alive:
  assumes laws: "aead_laws cr" and "inet_ok inet" and "length (fst (snd memory)) = NETCODE_KEY_BYTES" and "between_tests w"
  shows "runs (test_client_server_keep_alive cr inet os memory rounds w) (ends_well between_tests)"
  unfolding test_client_server_keep_alive_def
proof (rule runs_and_then [OF runs_connected_pair [OF assms(1-3) _ _ assms(4)]])
  fix st assume st: "stand_driven {0} (Some 1) (1 + 2 * rounds) st"
  show "runs (and_then (rounds_until True (1 / 10) (pump cr [0]) (client_gone 0) (nat \<lceil>(5 / 4 :: dbl) * 5 / (1 / 10)\<rceil>) st) (\<lambda>st.
     and_then (expect (one_connected st) st) (tear_down cr [0]))) (ends_well between_tests)"
    by (rule runs_and_then [OF runs_pump_rounds [OF laws st]], simp) (rule runs_check_and_end [OF laws driven_sound])
qed simp_all

lemma runs_ignored_client:
  assumes laws: "aead_laws cr" and "inet_ok inet" and "length (fst (snd memory)) = NETCODE_KEY_BYTES" and "between_tests w"
    and delta: "delta \<le> 9 / 10"
  shows "runs (ignored_client cr inet os memory flags delta state rounds w) (ends_well between_tests)"
  unfolding ignored_client_def wait_for_connection_def
proof (rule runs_and_then [OF runs_set_up [OF assms(1-3) _ _ assms(4)]])
  fix st assume st: "stand_driven {0} (Some 1) 1 st"
  show "runs (and_then (rounds_until False delta (pump cr [0]) (\<lambda>st. client_gone 0 st \<or> client_connected 0 st) rounds st) (\<lambda>st.
     and_then (expect (client_ended 0 state st) st) (tear_down cr [0]))) (ends_well between_tests)"
    by (rule runs_and_then [OF runs_pump_rounds [OF laws st delta]]) (rule runs_check_and_end [OF laws driven_sound])
qed simp_all

lemma runs_pump_clients_rounds:
  assumes laws: "aead_laws cr" and st: "stand_driven S m n st"
  shows "runs (rounds_until bounded delta (pump_clients cr clients) stop rounds st) (ends_well stand_sound)"
proof -
  obtain t time where st: "stand_ok S m n t time st" using st by (auto simp: stand_driven_def)
  show ?thesis
  proof (rule runs_rounds_until [where I = "\<lambda>k st. \<exists>n time. stand_ok S m n t time st"])
    fix k st assume "\<exists>n time. stand_ok S m n t time st"
    then obtain n time where "stand_ok S m n t time st" by blast
    from runs_pump_clients [OF laws this]
    show "runs (pump_clients cr clients st) (ends_well (\<lambda>st'. stand_sound st'
      \<and> (\<exists>n time. stand_ok S m n t time (st'\<lparr>sd_time := sd_time st' + delta\<rparr>))))"
      by (rule runs_ends_mono) (auto intro: stand_soundI dest: stand_later)
  qed (use st in \<open>auto intro: stand_soundI\<close>)
qed

lemma runs_timed_out:
  assumes laws: "aead_laws cr" and "inet_ok inet" and "length (fst (snd memory)) = NETCODE_KEY_BYTES" and "between_tests w"
  shows "runs (test_client_error_connection_timed_out cr inet os memory rounds w) (ends_well between_tests)"
  unfolding test_client_error_connection_timed_out_def
proof (rule runs_and_then [OF runs_connected_pair [OF assms(1-3) _ _ assms(4)]])
  fix st assume st: "stand_driven {0} (Some 1) (1 + 2 * rounds) st"
  show "runs (and_then (rounds_until False (1 / 10) (pump_clients cr [0]) (client_gone 0) rounds st) (\<lambda>st.
     and_then (expect (client_ended 0 NETCODE_CLIENT_STATE_CONNECTION_TIMED_OUT st) st) (tear_down cr [0]))) (ends_well between_tests)"
    by (rule runs_and_then [OF runs_pump_clients_rounds [OF laws st]]) (rule runs_check_and_end [OF laws])
qed simp_all

lemma runs_denied:
  assumes laws: "aead_laws cr" and inet: "inet_ok inet" and "length (fst (snd memory)) = NETCODE_KEY_BYTES" and "between_tests w"
  shows "runs (test_client_error_connection_denied cr inet os memory rounds w) (ends_well between_tests)"
  unfolding test_client_error_connection_denied_def
proof (rule runs_and_then [OF runs_connected_pair [OF assms(1-3) _ _ assms(4)]])
  let ?n = "1 + 2 * rounds"
  fix st assume st: "stand_driven {0} (Some 1) ?n st"
  have c: "runs (create_test_client inet os 1 ''[::]:50001'' st) (ends_well (stand_driven {1, 0} (Some 1) ?n))"
    by (rule runs_driven [OF st order_refl], rule runs_ends_mono [OF runs_create_test_client [OF _ _ inet]]) auto
  have t: "runs (connect_test_client cr inet [''[::1]:40000''] 30 0 1 (draw_client_id st)) (ends_well (stand_driven {1, 0} (Some 1) ?n))"
    if "stand_driven {1, 0} (Some 1) ?n st" for st
    by (rule runs_driven [OF that order_refl], rule runs_connect_test_client [OF laws runs_draw_client_id inet]) simp_all
  show "runs (and_then (create_test_client inet os 1 ''[::]:50001'' st) (\<lambda>st.
     and_then (connect_test_client cr inet [''[::1]:40000''] 30 0 1 (draw_client_id st)) (\<lambda>st.
     and_then (rounds_until False (1 / 10) (pump cr [0, 1]) (\<lambda>st. client_gone 0 st \<or> client_gone 1 st) rounds st) (\<lambda>st.
     and_then (expect (client_connected 0 st \<and> client_ended 1 NETCODE_CLIENT_STATE_CONNECTION_DENIED st
         \<and> server_is (\<lambda>s. netcode_server_client_connected s 0 \<and> netcode_server_num_connected_clients s = 1) st) st)
       (tear_down cr [0, 1]))))) (ends_well between_tests)"
    by (rule runs_and_then [OF c], rule runs_and_then [OF t], assumption, rule runs_and_then [OF runs_pump_rounds [OF laws]], assumption, simp)
      (rule runs_check_and_end [OF laws driven_sound])
qed simp_all

lemma driven_client_disconnect:
  assumes laws: "aead_laws cr" and st: "stand_driven S m n st"
  shows "runs (with_client i (netcode_client_disconnect cr) st) (ends_well (stand_driven S m n))"
  by (rule runs_driven [OF st order_refl], rule runs_with_client) (auto intro: drives_client_disconnect [OF laws])

lemma driven_server_disconnect:
  assumes laws: "aead_laws cr" and st: "stand_driven S (Some m) n st" and m: "0 < m"
  shows "runs (with_server (\<lambda>s. netcode_server_disconnect_client cr s 0) st) (ends_well (stand_driven S (Some m) n))"
proof (rule runs_driven [OF st order_refl])
  fix t time assume "stand_ok S (Some m) n t time st"
  then show "runs (with_server (\<lambda>s. netcode_server_disconnect_client cr s 0) st) (ends_well (stand_ok S (Some m) n t time))"
    by (rule driven_disconnect [OF laws]) (use st m in \<open>auto simp: stand_driven_def\<close>)
qed

lemma runs_client_side_disconnect:
  assumes laws: "aead_laws cr" and "inet_ok inet" and "length (fst (snd memory)) = NETCODE_KEY_BYTES" and "between_tests w"
  shows "runs (test_client_side_disconnect cr inet os memory rounds w) (ends_well between_tests)"
  unfolding test_client_side_disconnect_def
proof (rule runs_and_then [OF runs_connected_pair [OF assms(1-3) _ _ assms(4)]])
  fix st assume st: "stand_driven {0} (Some 1) (1 + 2 * rounds) st"
  show "runs (and_then (with_client 0 (netcode_client_disconnect cr) st) (\<lambda>st.
     and_then (rounds_until True (1 / 10) (pump cr [0]) (server_is (\<lambda>s. \<not> netcode_server_client_connected s 0)) 10 st) (\<lambda>st.
     and_then (expect (none_connected st) st) (tear_down cr [0])))) (ends_well between_tests)"
    by (rule runs_and_then [OF driven_client_disconnect [OF laws st]], rule runs_and_then [OF runs_pump_rounds [OF laws]], assumption, simp)
      (rule runs_check_and_end [OF laws driven_sound])
qed simp_all

lemma runs_server_side_disconnect:
  assumes laws: "aead_laws cr" and "inet_ok inet" and "length (fst (snd memory)) = NETCODE_KEY_BYTES" and "between_tests w"
  shows "runs (test_server_side_disconnect cr inet os memory rounds w) (ends_well between_tests)"
  unfolding test_server_side_disconnect_def
proof (rule runs_and_then [OF runs_connected_pair [OF assms(1-3) _ _ assms(4)]])
  fix st assume st: "stand_driven {0} (Some 1) (1 + 2 * rounds) st"
  show "runs (and_then (with_server (\<lambda>s. netcode_server_disconnect_client cr s 0) st) (\<lambda>st.
     and_then (rounds_until True (1 / 10) (pump cr [0]) (client_ended 0 NETCODE_CLIENT_STATE_DISCONNECTED) 10 st) (\<lambda>st.
     and_then (expect (client_ended 0 NETCODE_CLIENT_STATE_DISCONNECTED st \<and> none_connected st) st) (tear_down cr [0])))) (ends_well between_tests)"
    by (rule runs_and_then [OF driven_server_disconnect [OF laws st]], simp, rule runs_and_then [OF runs_pump_rounds [OF laws]], assumption, simp)
      (rule runs_check_and_end [OF laws driven_sound])
qed simp_all

lemma driven_reset: "stand_driven S m n st \<Longrightarrow> runs (reset_simulator st) (ends_well (stand_driven S m n))"
  by (rule runs_driven [OF _ order_refl runs_reset_simulator])

lemma driven_connect:
  assumes "aead_laws cr" and "inet_ok inet" and "0 < length names" "length names \<le> NETCODE_MAX_SERVERS_PER_CONNECT"
    and "expire = 0 \<or> expire = 30" and "stand_driven S m n st"
  shows "runs (connect_test_client cr inet names expire k i st) (ends_well (stand_driven S m n))"
  by (rule runs_driven [OF assms(6) order_refl]) (rule runs_connect_test_client [OF assms(1) _ assms(2-5)])

lemma runs_reconnect:
  assumes laws: "aead_laws cr" and inet: "inet_ok inet" and "length (fst (snd memory)) = NETCODE_KEY_BYTES" and "between_tests w"
  shows "runs (test_client_reconnect cr inet os memory rounds w) (ends_well between_tests)"
  unfolding test_client_reconnect_def wait_for_connection_def
proof (rule runs_and_then [OF runs_connected_pair [OF assms(1-3) _ _ assms(4)]])
  fix st assume st: "stand_driven {0} (Some 1) (1 + 2 * rounds) st"
  note connect = driven_connect [OF laws inet, where names = "[''[::1]:40000'']" and expire = 30, simplified]
  show "runs (and_then (reset_simulator st) (\<lambda>st.
     and_then (with_server (\<lambda>s. netcode_server_disconnect_client cr s 0) st) (\<lambda>st.
     and_then (rounds_until False (1 / 10) (pump cr [0]) (client_gone 0) rounds st) (\<lambda>st.
     and_then (expect (client_ended 0 NETCODE_CLIENT_STATE_DISCONNECTED st \<and> none_connected st) st) (\<lambda>st.
     and_then (reset_simulator st) (\<lambda>st.
     and_then (connect_test_client cr inet [''[::1]:40000''] 30 0 0 st) (\<lambda>st.
     and_then (rounds_until False (1 / 10) (pump cr [0]) (\<lambda>st. client_gone 0 st \<or> client_connected 0 st) rounds st) (\<lambda>st.
     and_then (expect (one_connected st) st) (tear_down cr [0]))))))))) (ends_well between_tests)"
    by (rule runs_and_then [OF driven_reset [OF st]], rule runs_and_then [OF driven_server_disconnect [OF laws]], assumption, simp,
        rule runs_and_then [OF runs_pump_rounds [OF laws]], assumption, simp, rule runs_and_then [OF driven_expect], assumption,
        rule runs_and_then [OF driven_reset], assumption, rule runs_and_then [OF connect], assumption,
        rule runs_and_then [OF runs_pump_rounds [OF laws]], assumption, simp) (rule runs_check_and_end [OF laws driven_sound])
qed simp_all

text \<open>The tests without a server.\<close>

lemma runs_single_client:
  assumes "inet_ok inet" and "between_tests w"
  shows "runs (create_simulator disturbed w) (ends_well (\<lambda>st. runs (create_test_client inet os 0 name st) (ends_well (stand_ok {0} None 1 0 0))))"
proof (rule runs_ends_mono [OF runs_create_simulator [where m = None]], use assms in \<open>simp_all add: between_tests_def\<close>, elim conjE)
  fix st assume st: "stand_ok {} None (Suc 0) 0 0 st"
  show "runs (create_test_client inet os 0 name st) (ends_well (stand_ok {0} None (Suc 0) 0 0))"
    by (rule runs_ends_mono [OF runs_create_test_client [OF st _ assms(1)]]) simp_all
qed

lemma runs_end_client:
  assumes laws: "aead_laws cr" and st: "stand_ok S m n t time st"
  shows "runs (and_then (expect b st) (\<lambda>st. and_then (destroy_test_client cr 0 st) destroy_simulator)) (ends_well between_tests)"
  by (rule runs_and_then [OF runs_expect [OF st]], rule runs_and_then [OF runs_destroy_test_client [OF laws]], assumption)
    (rule runs_destroy_simulator)

lemma runs_update_test_client:
  assumes laws: "aead_laws cr" and st: "stand_ok S m n t time st"
  shows "runs (with_client i (netcode_client_update cr now) st) (ends_well (stand_ok S m (Suc n) t time))"
  by (rule runs_with_client [OF st]) (auto intro: drives_client_update [OF laws])

lemma runs_token_expired:
  assumes laws: "aead_laws cr" and inet: "inet_ok inet" and "between_tests w"
  shows "runs (test_client_error_connect_token_expired cr inet os w) (ends_well between_tests)"
  unfolding test_client_error_connect_token_expired_def
proof (rule runs_and_then [OF runs_single_client [OF inet assms(3)]], erule runs_and_then)
  fix st assume st: "stand_ok {0} None 1 0 0 st"
  have t: "runs (connect_test_client cr inet [''[::1]:40000''] 0 0 0 (draw_client_id st)) (ends_well (stand_ok {0} None 1 0 0))"
    by (rule runs_connect_test_client [OF laws runs_draw_client_id [OF st] inet]) simp_all
  show "runs (and_then (connect_test_client cr inet [''[::1]:40000''] 0 0 0 (draw_client_id st)) (\<lambda>st.
     and_then (with_client 0 (netcode_client_update cr (sd_time st)) st) (\<lambda>st.
     and_then (expect (client_ended 0 NETCODE_CLIENT_STATE_CONNECT_TOKEN_EXPIRED st) st) (\<lambda>st.
     and_then (destroy_test_client cr 0 st) destroy_simulator)))) (ends_well between_tests)"
    by (rule runs_and_then [OF t], rule runs_and_then [OF runs_update_test_client [OF laws]], assumption) (rule runs_end_client [OF laws])
qed

lemma runs_invalid_token:
  assumes laws: "aead_laws cr" and inet: "inet_ok inet" and "between_tests w"
  shows "runs (test_client_error_invalid_connect_token cr inet os w) (ends_well between_tests)"
  unfolding test_client_error_invalid_connect_token_def
proof (rule runs_and_then [OF runs_single_client [OF inet assms(3)]], erule runs_and_then)
  fix st assume st: "stand_ok {0} None 1 0 0 st"
  obtain token k where token: "netcode_random_bytes NETCODE_CONNECT_TOKEN_BYTES (sd_world st) = (token, (sd_world st)\<lparr>w_random_next := k\<rparr>)"
    "length token = NETCODE_CONNECT_TOKEN_BYTES" by (rule random_bytes_cases)
  have "stand_ok {0} None 1 0 0 (st\<lparr>sd_world := (sd_world st)\<lparr>w_random_next := k\<rparr>\<rparr>)"
    by (rule stand_world [OF st]) (simp_all add: untouched_def)
  note st' = runs_draw_client_id [OF this]
  have c: "runs (with_client 0 (\<lambda>client w. netcode_client_connect cr client token w) (draw_client_id (st\<lparr>sd_world := (sd_world st)\<lparr>w_random_next := k\<rparr>\<rparr>)))
      (ends_well (stand_ok {0} None 1 0 0))"
    by (rule runs_with_client [OF st' order_refl]) (auto intro: drives_client_connect [OF laws] token(2))
  show "runs (let (connect_token, w) = netcode_random_bytes NETCODE_CONNECT_TOKEN_BYTES (sd_world st);
           st = draw_client_id (st\<lparr>sd_world := w\<rparr>)
       in and_then (with_client 0 (\<lambda>client w. netcode_client_connect cr client connect_token w) st) (\<lambda>st.
          and_then (expect (client_ended 0 NETCODE_CLIENT_STATE_INVALID_CONNECT_TOKEN st) st) (\<lambda>st.
          and_then (destroy_test_client cr 0 st) destroy_simulator))) (ends_well between_tests)"
    unfolding token(1) Let_def prod.case by (rule runs_and_then [OF c]) (rule runs_end_client [OF laws])
qed

section \<open>Many clients\<close>

lemma runs_start_client:
  assumes laws: "aead_laws cr" and inet: "inet_ok inet" and st: "stand_driven {..<j} m n st"
  shows "runs (start_client cr inet os k j st) (ends_well (stand_driven {..<Suc j} m n))"
proof -
  have S: "{..<Suc j} = insert j {..<j}" by auto
  have c: "runs (create_test_client inet os j name st) (ends_well (stand_driven {..<Suc j} m n))" for name
    unfolding S by (rule runs_driven [OF st order_refl], rule runs_ends_mono [OF runs_create_test_client [OF _ _ inet]]) auto
  have "runs (connect_test_client cr inet [''[::1]:40000''] 30 l j (draw_client_id st)) (ends_well (stand_driven {..<Suc j} m n))"
    if "stand_driven {..<Suc j} m n st" for st l
    by (rule runs_driven [OF that order_refl], rule runs_connect_test_client [OF laws runs_draw_client_id inet]) simp_all
  then show ?thesis unfolding start_client_def by (rule runs_and_then [OF c])
qed

lemma runs_iteration:
  assumes laws: "aead_laws cr" and inet: "inet_ok inet" and st: "stand_driven {} m n st" and k: "0 < k" "k \<le> 32"
    and n: "n + (5 * k + 2) * rounds + 4 * k + 2 < 2 ^ 24"
  shows "runs (start_stop_iteration cr inet os rounds (k, token_sequence) st) (ends_well (stand_driven {} (Some k) (n + (5 * k + 2) * rounds)))"
proof -
  let ?n1 = "n + (k + 1) * rounds" and ?n2 = "n + (5 * k + 2) * rounds"
  have n1: "1 \<le> n" using st by (simp add: stand_driven_def)
  have start: "runs (with_server (\<lambda>s. netcode_server_start cr s k) st) (ends_well (stand_driven {} (Some k) n))"
    by (rule runs_driven [OF st order_refl], rule runs_start_test_server [OF laws _ n1 k(1)]) (use k in auto)
  have clients: "runs (for_each (start_client cr inet os token_sequence) [0..<k] st) (ends_well (stand_driven {..<k} (Some k) n))"
    if "stand_driven {} (Some k) n st" for st
    by (rule runs_for_upt [where I = "\<lambda>j. stand_driven {..<j} (Some k) n"]) (use that in \<open>auto intro: runs_start_client [OF laws inet]\<close>)
  have wait: "runs (rounds_until False (1 / 10) (pump cr [0..<k]) stop rounds st) (ends_well (stand_driven {..<k} (Some k) ?n1))"
    if "stand_driven {..<k} (Some k) n st" for st stop
    using runs_pump_rounds [OF laws that, of "1 / 10" False "[0..<k]"] by simp
  have exch: "runs (rounds_until False (1 / 10) (exchange cr [0..<k]) stop rounds (st\<lparr>sd_client_received := (\<lambda>_. 0), sd_server_received := (\<lambda>_. 0)\<rparr>))
      (ends_well (stand_driven {..<k} (Some k) ?n2))" if "stand_driven {..<k} (Some k) ?n1 st" for st stop
  proof -
    have st: "stand_driven {..<k} (Some k) ?n1 (st\<lparr>sd_client_received := (\<lambda>_. 0), sd_server_received := (\<lambda>_. 0)\<rparr>)"
      using that by (simp add: stand_driven_def)
    have "runs (rounds_until False (1 / 10) (exchange cr [0..<k]) stop rounds (st\<lparr>sd_client_received := (\<lambda>_. 0), sd_server_received := (\<lambda>_. 0)\<rparr>))
      (ends_well (stand_driven {..<k} (Some k) (?n1 + (4 * k + 1) * rounds)))"
    proof (rule runs_driven_rounds [OF st])
      fix l st assume l: "l < rounds" and st: "stand_driven {..<k} (Some k) (?n1 + (4 * k + 1) * l) st"
      have "(4 * k + 1) * l \<le> (4 * k + 1) * rounds" using l by (intro mult_le_mono2) simp
      then have "?n1 + (4 * k + 1) * l + 4 * k + 2 < 2 ^ 24" using n by (simp add: algebra_simps)
      with runs_exchange [OF laws st, of "[0..<k]"]
      show "runs (exchange cr [0..<k] st) (ends_well (\<lambda>st'. \<exists>time. stand_ok {..<k} (Some k) (?n1 + (4 * k + 1) * l + (4 * k + 1)) time time st'))"
        by (simp add: algebra_simps)
    qed simp
    then show ?thesis by (simp add: algebra_simps)
  qed
  have destroy: "runs (for_each (destroy_test_client cr) [0..<k] st) (ends_well (stand_driven {} (Some k) ?n2))"
    if "stand_driven {..<k} (Some k) ?n2 st" for st
  proof (rule runs_driven [OF that order_refl])
    fix t time assume "stand_ok {..<k} (Some k) ?n2 t time st"
    from runs_destroy_clients [OF laws this, of "[0..<k]"]
    show "runs (for_each (destroy_test_client cr) [0..<k] st) (ends_well (stand_ok {} (Some k) ?n2 t time))" by (simp add: lessThan_atLeast0)
  qed
  have stop: "runs (with_server (netcode_server_stop cr) st) (ends_well (stand_driven {} (Some k) ?n2))"
    if "stand_driven {} (Some k) ?n2 st" for st
  proof (rule runs_driven [OF that order_refl], rule runs_with_server [OF _ order_refl])
    fix t B s assume s: "server_inv B s (sd_world st)" "server_driven_in True ?n2 t s"
    show "runs (netcode_server_stop cr s (sd_world st)) (\<lambda>x. server_kept_driven_in True B ?n2 t (sd_world st) x \<and> has_slots (Some k) (fst x))"
      by (rule runs_mono [OF drives_stop [OF laws s]]) (use n1 in \<open>auto simp: has_slots_def\<close>)
  qed
  show ?thesis
    unfolding start_stop_iteration_def prod.case
    by (rule runs_and_then [OF start], rule runs_and_then [OF clients], assumption, rule runs_and_then [OF wait], assumption,
        rule runs_and_then [OF driven_expect], assumption, rule runs_and_then [OF driven_expect], assumption,
        rule runs_and_then [OF exch], assumption, rule runs_and_then [OF driven_expect], assumption,
        rule runs_and_then [OF driven_reset], assumption, rule runs_and_then [OF destroy], assumption) (rule stop)
qed

lemma runs_multiple_clients:
  assumes laws: "aead_laws cr" and inet: "inet_ok inet" and memory: "length (fst (snd memory)) = NETCODE_KEY_BYTES" and "between_tests w"
    and rounds: "rounds \<le> 10000"
  shows "runs (test_client_server_multiple_clients cr inet os memory rounds w) (ends_well between_tests)"
  unfolding test_client_server_multiple_clients_def
proof (rule runs_and_then [OF runs_create_simulator [where m = None]], goal_cases)
  case (4 st0)
  then have st0: "stand_ok {} None 1 0 0 st0" "sd_servers st0 = (\<lambda>_. None)" by simp_all
  have s: "runs (create_test_server inet os memory st0) (ends_well (stand_driven {} None 1))"
    by (rule runs_ends_mono [OF runs_create_test_server [OF st0(1) _ inet memory]])
      (auto simp: st0(2) stand_driven_def intro!: exI [of _ 0])
  have e: "runs (start_stop_iteration cr inet os rounds p st) (ends_well (stand_driven {} (Some (fst p)) (n + 162 * rounds)))"
    if st: "stand_driven {} m n st" and p: "0 < fst p" "fst p \<le> 32" and n: "n + 200 * rounds + 130 < 2 ^ 24" for m n st p
  proof -
    have "(5 * fst p + 2) * rounds \<le> 162 * rounds" using p by (intro mult_le_mono1) simp
    then have "n + (5 * fst p + 2) * rounds \<le> n + 162 * rounds" "n + (5 * fst p + 2) * rounds + 4 * fst p + 2 < 2 ^ 24"
      using n p by linarith+
    with runs_iteration [OF laws inet st p, of rounds os "snd p"] show ?thesis
      by (auto intro: driven_more elim!: runs_ends_mono)
  qed
  have loop: "runs (for_each (start_stop_iteration cr inet os rounds) [(2, 0), (32, 2), (5, 34)] st) (ends_well stand_sound)"
    if "stand_driven {} None 1 st" for st
    unfolding for_each.simps
    by (rule runs_and_then [OF e [OF that]], simp, simp, use rounds in simp, rule runs_and_then [OF e], assumption, simp, simp, use rounds in simp,
        rule runs_and_then [OF e], assumption, simp, simp, use rounds in simp) (auto intro: driven_sound)
  show ?case
  proof (rule runs_and_then [OF s], rule runs_and_then [OF loop], assumption)
    fix st assume "stand_sound st"
    then obtain S m n t time where st: "stand_ok S m n t time st" by (auto simp: stand_sound_def)
    show "runs (and_then (destroy_test_server cr st) destroy_simulator) (ends_well between_tests)"
      by (rule runs_and_then [OF runs_destroy_test_server [OF laws st]]) (rule runs_destroy_simulator)
  qed
qed (use assms(4) in \<open>simp_all add: between_tests_def\<close>)

lemma runs_connection_tests:
  assumes laws: "aead_laws cr" and inet: "inet_ok inet" and memory: "length (fst (snd memory)) = NETCODE_KEY_BYTES"
    and rounds: "rounds \<le> 10000" and w: "between_tests w" and test: "test \<in> set (connection_tests cr inet os memory rounds)"
  shows "runs (test w) (ends_well between_tests)"
proof -
  note ms = assms(1-3) w
  have x: "runs (test_client_server_connect cr inet os memory rounds w) (ends_well between_tests)"
    "runs (test_client_server_multiple_servers cr inet os memory rounds w) (ends_well between_tests)"
    unfolding test_client_server_connect_def test_client_server_multiple_servers_def
    by (rule runs_exchange_payloads [OF assms(1-3) _ _ w rounds]; simp)+
  have i: "runs (test_client_error_connection_response_timeout cr inet os memory rounds w) (ends_well between_tests)"
    "runs (test_client_error_connection_request_timeout cr inet os memory rounds w) (ends_well between_tests)"
    unfolding test_client_error_connection_response_timeout_def test_client_error_connection_request_timeout_def
    by (rule runs_ignored_client [OF ms]; simp)+
  show ?thesis
    using test x i runs_test_keep_alive [OF ms] runs_multiple_clients [OF ms rounds] runs_token_expired [OF laws inet w] runs_invalid_token [OF laws inet w]
      runs_timed_out [OF ms] runs_denied [OF ms] runs_client_side_disconnect [OF ms] runs_server_side_disconnect [OF ms] runs_reconnect [OF ms]
    unfolding connection_tests_def by auto
qed

section \<open>All of them\<close>

text \<open>C38: the first 13 of the 15 connection tests that \<^verbatim>\<open>netcode_test\<close> runs (all but \<^verbatim>\<open>test_disable_timeout\<close> and
  \<^verbatim>\<open>test_loopback\<close>) do not abort inside the library, whatever the simulator loses, delays and duplicates, for any AEAD
  with the laws of \<^verbatim>\<open>libsodium\<close> and any number of rounds up to 10000 for each of their loops. A test that is started in an
  initialized library whose memory does not run out comes to its end, fails a check of its own or still waits when its rounds are
  used up, and at its end the next test can be started.\<close>

theorem connection_tests_never_abort:
  assumes "aead_laws cr" and "inet_ok inet" and "length (fst (snd memory)) = NETCODE_KEY_BYTES" and "rounds \<le> 10000"
    and "between_tests w" and "test \<in> set (connection_tests cr inet os memory rounds)"
  shows "runs (test w) (ends_well between_tests)"
  by (rule runs_connection_tests [OF assms])

lemma empty_world_between_tests [simp]: "between_tests empty_world"
  unfolding between_tests_def by (intro conjI world_inv_empty) (simp_all add: empty_world_def)

theorem connection_tests_never_abort_witness:
  "runs (test_client_server_multiple_clients clear_crypto local_inet example_os (\<lambda>_. 0, replicate 32 0, 0) 10000 empty_world)
     (ends_well between_tests)"
  by (rule connection_tests_never_abort [OF clear_crypto_laws local_inet_ok, of "(\<lambda>_. 0, replicate 32 0, 0)" 10000 empty_world _ example_os])
    (simp_all add: connection_tests_def)

end
