(* ===== verification/Connection_Errors.thy ===== *)
theory Connection_Errors
  imports Connection_Safety Client_Timeout
begin

text \<open>
  The two connection tests without a server, where nothing depends on what the simulator does with the packets: they pass. The
  connection tests are safe (\<open>Connection_Safety\<close>), so it remains to follow what they check.
\<close>

section \<open>Passing\<close>

definition passes :: "'a program option \<Rightarrow> ('a \<Rightarrow> bool) \<Rightarrow> bool" where
  "passes m Q \<longleftrightarrow> (\<exists>x. m = Some (Runs x) \<and> Q x)"

lemma passesI: "m = Some (Runs x) \<Longrightarrow> Q x \<Longrightarrow> passes m Q"
  by (auto simp: passes_def)

lemma passes_Runs [simp]: "passes (Some (Runs x)) Q = Q x"
  by (auto simp: passes_def)

lemma passes_and_then: "passes m P \<Longrightarrow> (\<And>x. P x \<Longrightarrow> passes (f x) Q) \<Longrightarrow> passes (and_then m f) Q"
  by (auto simp: passes_def and_then_def)

lemma passes_safe: "runs m (ends_well P) \<Longrightarrow> passes m Q \<Longrightarrow> passes m (\<lambda>x. P x \<and> Q x)"
  by (auto simp: passes_def runs_def ends_well.simps)

section \<open>A client alone\<close>

text \<open>The stand when one client is there and the simulator holds no packet for it, and the random bytes to come.\<close>

definition alone :: "(netcode_client \<Rightarrow> bool) \<Rightarrow> (nat \<Rightarrow> 8 word) \<Rightarrow> nat \<Rightarrow> stand \<Rightarrow> bool" where
  "alone Q bytes next st \<longleftrightarrow> client_is 0 Q st \<and> sd_time st = 0
     \<and> ns_num_pending_receive_packets (w_simulator (sd_world st)) = 0
     \<and> w_random (sd_world st) = bytes \<and> w_random_next (sd_world st) = next \<and> unat (w_timestamp (sd_world st)) + 60 < 2 ^ 64"

lemma client_isI: "sd_clients st i = Some (p, c) \<Longrightarrow> Q c \<Longrightarrow> client_is i Q st"
  by (simp add: client_is_def)

lemma client_isE: "client_is i Q st \<Longrightarrow> (\<And>p c. sd_clients st i = Some (p, c) \<Longrightarrow> Q c \<Longrightarrow> thesis) \<Longrightarrow> thesis"
  by (auto simp: client_is_def split: option.splits)

definition idle_client :: "netcode_client \<Rightarrow> bool" where
  "idle_client c \<longleftrightarrow> \<not> cl_loopback c \<and> cl_network_simulator c \<and> cl_state c = NETCODE_CLIENT_STATE_DISCONNECTED
     \<and> cl_connect_token c = zero_connect_token \<and> cl_state_change_callback c = None \<and> cl_time c = 0"

lemma alone_client:
  assumes "netcode_parse_address inet name = NETCODE_OK a" and "address_port a \<noteq> 0" and "between_tests w"
  shows "passes (create_simulator disturbed w)
    (\<lambda>st. passes (create_test_client inet os 0 name st) (alone idle_client (w_random w) (w_random_next w)))"
proof -
  have memory: "\<not> h_out_of_memory (w_heap w) n" for n using assms(3) by (simp add: between_tests_def world_inv_def)
  with assms show ?thesis
    by (simp add: create_simulator_def netcode_network_simulator_create_def w_alloc_def netcode_default_allocate_function_def Let_def
        create_test_client_def netcode_client_create_internal_def between_tests_def sim_map_def expect_def passes_def alone_def client_is_def
        idle_client_def new_client_def zero_network_simulator_def)
qed

lemma alone_draw: "alone Q bytes k st \<Longrightarrow> alone Q bytes (k + 8) (draw_client_id st)"
  by (simp add: alone_def draw_client_id_def netcode_random_bytes_def Let_def client_is_def)

text \<open>A disconnected client has nothing to disconnect.\<close>

lemma connect_idle:
  assumes "idle_client c" and "length b = NETCODE_CONNECT_TOKEN_BYTES"
  shows "netcode_read_connect_token b zero_connect_token = Some (False, token) \<Longrightarrow>
      netcode_client_connect cr c b w
        = Some (c\<lparr>cl_connect_token := token, cl_state := NETCODE_CLIENT_STATE_INVALID_CONNECT_TOKEN\<rparr>, w)"
    and "netcode_read_connect_token b zero_connect_token = Some (True, token) \<Longrightarrow> ct_server_addresses token \<noteq> [] \<Longrightarrow>
      netcode_client_connect cr c b w = Some ((netcode_client_reset_before_next_connect
        (c\<lparr>cl_connect_token := token, cl_server_address_index := 0, cl_server_address := ct_server_addresses token ! 0,
           cl_context := \<lparr>cx_write_packet_key = ct_client_to_server_key token, cx_read_packet_key = ct_server_to_client_key token\<rparr>\<rparr>))
        \<lparr>cl_state := NETCODE_CLIENT_STATE_SENDING_CONNECTION_REQUEST\<rparr>, w)"
  using assms
  by (simp_all add: netcode_client_connect_def netcode_client_disconnect_def netcode_client_disconnect_internal_def idle_client_def
      netcode_client_set_state_def Let_def netcode_client_reset_before_next_connect_def c_assert_def array_get_def)

lemma passes_not_Fails: "runs m (ends_well P) \<Longrightarrow> m \<noteq> Some Fails \<Longrightarrow> passes m P"
  by (cases m; cases "the m") (auto simp: passes_def runs_def)

lemma end_client_passes:
  assumes laws: "aead_laws cr" and st: "stand_ok S m n t time st" and c: "client_is 0 Q st"
  shows "passes (and_then (destroy_test_client cr 0 st) destroy_simulator) between_tests"
proof (rule passes_and_then [OF passes_not_Fails [OF runs_destroy_test_client [OF laws st]]])
  show "destroy_test_client cr 0 st \<noteq> Some Fails"
    using c by (auto simp: destroy_test_client_def elim!: client_isE split: bind_splits)
  show "passes (destroy_simulator st') between_tests" if "stand_ok (S - {0}) m n t time st'" for st'
    by (rule passes_not_Fails [OF runs_destroy_simulator [OF that]]) (simp add: destroy_simulator_def split: bind_splits)
qed

lemma with_client_passes:
  assumes "runs (with_client i call st) (ends_well P)" and "client_is i Q st"
    and "\<And>c c' w'. Q c \<Longrightarrow> call c (sd_world st) = Some (c', w') \<Longrightarrow> Q' c' w'"
  shows "passes (with_client i call st) (\<lambda>st'. P st' \<and> client_is i (\<lambda>c. Q' c (sd_world st')) st' \<and> sd_time st' = sd_time st)"
proof -
  from assms(2) obtain p c where c: "sd_clients st i = Some (p, c)" "Q c" by (rule client_isE)
  with assms(1) obtain c' w' where "call c (sd_world st) = Some (c', w')"
    by (cases "call c (sd_world st)") (auto simp: with_client_def runs_def)
  with c assms show ?thesis by (auto simp: with_client_def passes_def runs_def ends_well.simps client_is_def)
qed

section \<open>An invalid token\<close>

lemma read_invalid_token:
  assumes "length b = NETCODE_CONNECT_TOKEN_BYTES" and "take NETCODE_VERSION_INFO_BYTES b \<noteq> NETCODE_VERSION_INFO"
  shows "\<exists>token. netcode_read_connect_token b old = Some (False, token)"
  using assms by (simp add: netcode_read_connect_token_def read_bytes_take Let_def)

section \<open>An expired token\<close>

lemma receive_nothing_simulated:
  assumes "\<not> cl_loopback c" and "cl_network_simulator c" and "ns_num_pending_receive_packets (w_simulator w) = 0"
  shows "netcode_client_receive_packets cr c w = Some (c, w)"
  using assms by (simp add: netcode_client_receive_packets_def netcode_network_simulator_receive_packets_def)

lemma send_packets_start_time:
  "netcode_client_send_packets cr c w = Some (c', w') \<Longrightarrow> cl_connect_start_time c' = cl_connect_start_time c"
  by (auto simp: netcode_client_send_packets_def netcode_client_send_packet_to_server_internal_def Let_def
      split: bind_splits client_state.splits if_splits)

lemma expired_update:
  assumes "netcode_client_update cr t c w = Some (c', w')" and "\<not> cl_loopback c" and "cl_network_simulator c"
    and "ns_num_pending_receive_packets (w_simulator w) = 0" and "client_token_expired (c\<lparr>cl_time := t\<rparr>)"
  shows "cl_state c' = NETCODE_CLIENT_STATE_CONNECT_TOKEN_EXPIRED"
proof -
  let ?c = "c\<lparr>cl_time := t\<rparr>"
  have r: "netcode_client_receive_packets cr ?c w = Some (?c, w)" by (rule receive_nothing_simulated) (use assms in simp_all)
  with assms(1,2) obtain c1 w1 where s: "netcode_client_send_packets cr ?c w = Some (c1, w1)"
    by (auto simp: netcode_client_update_def Let_def split: bind_splits)
  have "client_token_expired c1"
    using assms(5) send_packets_course [OF s] send_packets_start_time [OF s] by (simp add: client_token_expired_def same_course_def)
  moreover from this have "NETCODE_CLIENT_STATE_DISCONNECTED < cl_state c1" by (simp add: client_token_expired_def)
  ultimately show ?thesis
    using assms(1,2) r s disconnect_course [of cr c1 NETCODE_CLIENT_STATE_CONNECT_TOKEN_EXPIRED w1 c' w']
    by (simp add: netcode_client_update_def Let_def client_states)
qed

text \<open>The client sends its request, but the token has no time left.\<close>

definition out_of_time :: "netcode_client \<Rightarrow> world \<Rightarrow> bool" where
  "out_of_time c w \<longleftrightarrow> \<not> cl_loopback c \<and> cl_network_simulator c \<and> client_token_expired (c\<lparr>cl_time := 0\<rparr>)
     \<and> ns_num_pending_receive_packets (w_simulator w) = 0"

lemma connect_out_of_time:
  assumes c: "idle_client c" and b: "length b = NETCODE_CONNECT_TOKEN_BYTES" "netcode_read_connect_token b zero_connect_token = Some (True, token)"
    and t: "ct_server_addresses token \<noteq> []" "ct_expire_timestamp token = ct_create_timestamp token"
    and w: "ns_num_pending_receive_packets (w_simulator w) = 0" and run: "netcode_client_connect cr c b w = Some (c', w')"
  shows "out_of_time c' w'"
  using run c t(2) w unfolding connect_idle(2) [OF c b t(1)]
  by (auto simp: out_of_time_def idle_client_def client_token_expired_def netcode_client_reset_before_next_connect_def less_client_state_def)

lemma connect_expired_passes:
  assumes laws: "aead_laws cr" and inet: "inet_ok inet" and name: "netcode_parse_address inet name = NETCODE_OK a"
    and st: "stand_ok S m n t 0 st" "alone idle_client bytes next st"
  shows "passes (connect_test_client cr inet [name] 0 0 0 st)
    (\<lambda>st'. stand_ok S m n t 0 st' \<and> client_is 0 (\<lambda>c. out_of_time c (sd_world st')) st' \<and> sd_time st' = 0)"
proof -
  have parsed: "parse_server_addresses inet [name] = Some [a]" "\<forall>a \<in> set [a]. address_ok a"
    using name parsed_address_ok [OF inet name] by simp_all
  obtain b w' token where g: "netcode_generate_connect_token cr inet [name] 0 5 (sd_client_id st) TEST_PROTOCOL_ID 0 test_private_key (sd_world st)
        = Some (NETCODE_OK b, w')" and b: "length b = NETCODE_CONNECT_TOKEN_BYTES"
      "netcode_read_connect_token b zero_connect_token = Some (True, token)"
    and w': "w' = (sd_world st)\<lparr>w_random_next := w_random_next w'\<rparr>"
    and t: "take (length [name]) (ct_server_addresses token) = [a]" "ct_create_timestamp token = w_timestamp (sd_world st)"
      "ct_expire_timestamp token = token_expire_timestamp (w_timestamp (sd_world st)) 0"
    using token_generated [OF laws length_test_private_key _ _ parsed, of 5 0 "sd_world st" "sd_client_id st" TEST_PROTOCOL_ID 0] st(2)
    by (auto simp: int32_def alone_def)
  let ?st = "st\<lparr>sd_world := w'\<rparr>" and ?connect = "\<lambda>client w. netcode_client_connect cr client b w"
  have e: "connect_test_client cr inet [name] 0 0 0 st = with_client 0 ?connect ?st"
    using g by (simp add: connect_test_client_def)
  have "runs (with_client 0 ?connect ?st) (ends_well (stand_ok S m n t 0))"
    using runs_connect_test_client [OF laws st(1) inet, of "[name]" 0 0 0] e by simp
  moreover have "client_is 0 idle_client ?st" using st(2) by (simp add: alone_def client_is_def)
  moreover have "ct_server_addresses token \<noteq> []" "ct_expire_timestamp token = ct_create_timestamp token"
    using t by (auto simp: token_expire_timestamp_def)
  moreover have "w_simulator w' = w_simulator (sd_world st)" by (subst w') simp
  ultimately have "passes (with_client 0 ?connect ?st) (\<lambda>st'. stand_ok S m n t 0 st'
      \<and> client_is 0 (\<lambda>c. out_of_time c (sd_world st')) st' \<and> sd_time st' = sd_time ?st)"
    using st(2) by (intro with_client_passes [where Q = idle_client]) (auto simp: alone_def intro!: connect_out_of_time [OF _ b, where w = w'])
  then show ?thesis using st(2) by (simp add: e alone_def)
qed

lemma lone_client_steps:
  assumes inet: "inet_ok inet" and w: "between_tests w"
    and name: "netcode_parse_address inet name = NETCODE_OK a" "address_port a \<noteq> 0"
    and rest: "\<And>st. stand_ok {0} None 1 0 0 st \<Longrightarrow> alone idle_client (w_random w) (w_random_next w) st \<Longrightarrow> passes (f st) Q"
  shows "passes (and_then (create_simulator True w) (\<lambda>st. and_then (create_test_client inet os 0 name st) f)) Q"
  by (rule passes_and_then [OF passes_safe [OF runs_single_client [OF inet w] alone_client [OF name w]]], elim conjE,
      rule passes_and_then [OF passes_safe], assumption, assumption) (auto intro: rest)

lemma token_expired_passes:
  assumes laws: "aead_laws cr" and inet: "inet_ok inet" and w: "between_tests w"
    and client: "netcode_parse_address inet ''[::]:50000'' = NETCODE_OK a" "address_port a \<noteq> 0"
    and server: "netcode_parse_address inet ''[::1]:40000'' = NETCODE_OK b"
  shows "passes (test_client_error_connect_token_expired cr inet os w) between_tests"
  unfolding test_client_error_connect_token_expired_def
proof (rule lone_client_steps [OF inet w client],
    rule passes_and_then [OF connect_expired_passes [OF laws inet server runs_draw_client_id alone_draw]], assumption, assumption, elim conjE)
  fix st assume st: "stand_ok {0} None 1 0 0 st" and c: "client_is 0 (\<lambda>c. out_of_time c (sd_world st)) st" and time: "sd_time st = 0"
  have u: "passes (with_client 0 (netcode_client_update cr 0) st) (\<lambda>st'. stand_ok {0} None (Suc 1) 0 0 st'
      \<and> client_is 0 (\<lambda>c. cl_state c = NETCODE_CLIENT_STATE_CONNECT_TOKEN_EXPIRED) st' \<and> sd_time st' = sd_time st)"
    by (rule with_client_passes [OF runs_update_test_client [OF laws st] c]) (auto simp: out_of_time_def intro: expired_update)
  show "passes (and_then (with_client 0 (netcode_client_update cr (sd_time st)) st) (\<lambda>st.
      and_then (expect (client_ended 0 NETCODE_CLIENT_STATE_CONNECT_TOKEN_EXPIRED st) st) (\<lambda>st.
      and_then (destroy_test_client cr 0 st) destroy_simulator))) between_tests"
    unfolding time
    by (rule passes_and_then [OF u], rule passes_and_then [where P = "\<lambda>st. stand_ok {0} None (Suc 1) 0 0 st
        \<and> client_is 0 (\<lambda>c. cl_state c = NETCODE_CLIENT_STATE_CONNECT_TOKEN_EXPIRED) st"])
      (auto simp: expect_def client_ended_def netcode_client_state_def intro: end_client_passes [OF laws])
qed

lemma invalid_token_passes:
  assumes laws: "aead_laws cr" and inet: "inet_ok inet" and w: "between_tests w"
    and client: "netcode_parse_address inet ''[::]:50000'' = NETCODE_OK a" "address_port a \<noteq> 0"
    and random: "map (\<lambda>i. w_random w (w_random_next w + i)) [0..<NETCODE_VERSION_INFO_BYTES] \<noteq> NETCODE_VERSION_INFO"
  shows "passes (test_client_error_invalid_connect_token cr inet os w) between_tests"
  unfolding test_client_error_invalid_connect_token_def
proof (rule lone_client_steps [OF inet w client])
  fix st assume ok: "stand_ok {0} None 1 0 0 st" and st: "alone idle_client (w_random w) (w_random_next w) st"
  let ?w = "(sd_world st)\<lparr>w_random_next := w_random_next (sd_world st) + NETCODE_CONNECT_TOKEN_BYTES\<rparr>"
    and ?token = "map (\<lambda>i. w_random w (w_random_next w + i)) [0..<NETCODE_CONNECT_TOKEN_BYTES]"
  let ?st = "draw_client_id (st\<lparr>sd_world := ?w\<rparr>)"
  have r: "netcode_random_bytes NETCODE_CONNECT_TOKEN_BYTES (sd_world st) = (?token, ?w)"
    using st by (simp add: netcode_random_bytes_def alone_def)
  have "stand_ok {0} None 1 0 0 (st\<lparr>sd_world := ?w\<rparr>)" by (rule stand_world [OF ok]) (simp_all add: untouched_def)
  note ok' = runs_draw_client_id [OF this]
  have idle: "client_is 0 idle_client ?st"
    using st by (simp add: alone_def draw_client_id_def netcode_random_bytes_def Let_def client_is_def)
  have "take NETCODE_VERSION_INFO_BYTES ?token \<noteq> NETCODE_VERSION_INFO" using random by (simp add: take_map)
  then obtain token where "netcode_read_connect_token ?token zero_connect_token = Some (False, token)"
    using read_invalid_token [of ?token] by auto
  then have invalid: "cl_state c' = NETCODE_CLIENT_STATE_INVALID_CONNECT_TOKEN"
    if "idle_client c" "netcode_client_connect cr c ?token w1 = Some (c', w')" for c c' w1 w'
    using connect_idle(1) [OF that(1), of ?token token cr w1] that(2) by auto
  have c: "passes (with_client 0 (\<lambda>client w. netcode_client_connect cr client ?token w) ?st) (\<lambda>st'. stand_ok {0} None 1 0 0 st'
      \<and> client_is 0 (\<lambda>c. cl_state c = NETCODE_CLIENT_STATE_INVALID_CONNECT_TOKEN) st' \<and> sd_time st' = sd_time ?st)"
    by (rule with_client_passes [OF runs_with_client [OF ok' order_refl] idle]) (auto intro: drives_client_connect [OF laws] invalid)
  show "passes (let (connect_token, w) = netcode_random_bytes NETCODE_CONNECT_TOKEN_BYTES (sd_world st);
           st = draw_client_id (st\<lparr>sd_world := w\<rparr>)
       in and_then (with_client 0 (\<lambda>client w. netcode_client_connect cr client connect_token w) st) (\<lambda>st.
          and_then (expect (client_ended 0 NETCODE_CLIENT_STATE_INVALID_CONNECT_TOKEN st) st) (\<lambda>st.
          and_then (destroy_test_client cr 0 st) destroy_simulator))) between_tests"
    unfolding r Let_def prod.case
    by (rule passes_and_then [OF c], rule passes_and_then [where P = "\<lambda>st. stand_ok {0} None 1 0 0 st
        \<and> client_is 0 (\<lambda>c. cl_state c = NETCODE_CLIENT_STATE_INVALID_CONNECT_TOKEN) st"])
      (auto simp: expect_def client_ended_def netcode_client_state_def intro: end_client_passes [OF laws])
qed

section \<open>Both tests\<close>

lemma connection_test_address_texts:
  "map_option (\<lambda>(s, p, _). (s, p)) (address_texts ''[::]:50000'') = Some (''::'', 50000)"
  by code_simp

lemma parse_ipv6_text:
  "map_option (\<lambda>(s, p, _). (s, p)) (address_texts name) = Some (text, port) \<Longrightarrow> pton6 inet text = Some groups \<Longrightarrow>
    netcode_parse_address inet name = NETCODE_OK (ADDRESS_IPV6 (map ntohs groups) port)"
  by (auto simp: parse_address_texts)

text \<open>C39: the two connection tests that need no server pass, each in an initialized library whose memory does not run out, for any
  AEAD with the laws of \<^verbatim>\<open>libsodium\<close> and any \<^verbatim>\<open>inet_pton\<close> that reads the two addresses. The token that was generated
  with no lifetime is used up at the client's first update; the token of random bytes is refused at once, unless the random bytes happen
  to begin with the version of the protocol. Both leave a library in which the next test can be started.\<close>

theorem token_error_tests_pass:
  assumes "aead_laws cr" and "inet_ok inet" and "pton6 inet ''::'' = Some any" and "pton6 inet ''::1'' = Some loopback" and "between_tests w"
  shows "(\<exists>w'. test_client_error_connect_token_expired cr inet os w = Some (Runs w') \<and> between_tests w')
    \<and> (map (\<lambda>i. w_random w (w_random_next w + i)) [0..<NETCODE_VERSION_INFO_BYTES] \<noteq> NETCODE_VERSION_INFO \<longrightarrow>
      (\<exists>w'. test_client_error_invalid_connect_token cr inet os w = Some (Runs w') \<and> between_tests w'))"
  using token_expired_passes [OF assms(1,2,5) parse_ipv6_text [OF connection_test_address_texts assms(3)] _
      parse_ipv6_text [OF test_address_texts(11) assms(4)], of os]
    invalid_token_passes [OF assms(1,2,5) parse_ipv6_text [OF connection_test_address_texts assms(3)], of os]
  by (simp add: passes_def)

lemma test_inet_ok [simp]: "inet_ok test_inet"
  by (simp add: inet_ok_def test_inet_def)

theorem token_error_tests_pass_witness:
  "(\<exists>w'. test_client_error_connect_token_expired clear_crypto test_inet example_os empty_world = Some (Runs w') \<and> between_tests w')
    \<and> (\<exists>w'. test_client_error_invalid_connect_token clear_crypto test_inet example_os empty_world = Some (Runs w') \<and> between_tests w')"
proof -
  have "map (\<lambda>i. w_random empty_world (w_random_next empty_world + i)) [0..<NETCODE_VERSION_INFO_BYTES] \<noteq> NETCODE_VERSION_INFO"
    by code_simp
  then show ?thesis
    using token_error_tests_pass [OF clear_crypto_laws test_inet_ok _ _ empty_world_between_tests] by (simp add: test_inet_def)
qed

end
