(* ===== verification/Spec2Isabelle.thy ===== *)
theory Spec2Isabelle
  imports Prelude Memory Wire Addresses Crypto Connect_Token Replay_Protection Packets Packet_Queue World Sockets
    Simulator Endpoint Client Client_Invariant Encryption_Manager Token_Entries Server Token_Generation Client_Protocol Client_Diagram
    Server_Invariant Server_Packets Server_Protocol Server_Stall Handshake
    Receive_Loops Admission Delivery Client_Timeout
    Server_Traffic Client_Traffic Programs Process Example_Programs Soak
    Unit_Tests Connection_Tests Test_Stand Connection_Safety
    Connection_Errors
begin

text \<open>
  netcode.io, the C library (\<^verbatim>\<open>c/netcode.c\<close> and \<^verbatim>\<open>c/netcode.h\<close>): a connection-oriented protocol over
  UDP, between a dedicated server with a fixed number of slots and clients that hold a connect token of a web backend; and
  the programs that are built on it, \<^verbatim>\<open>c/server.c\<close>, \<^verbatim>\<open>c/client.c\<close>, \<^verbatim>\<open>c/client_server.c\<close>,
  \<^verbatim>\<open>c/soak.c\<close> and \<^verbatim>\<open>c/profile.c\<close>.

  \<^bold>\<open>The program.\<close> A \<^emph>\<open>backend\<close> calls \<^verbatim>\<open>netcode_generate_connect_token\<close>; the token's private part is encrypted with
  a key that only the backend and the servers have. A \<^emph>\<open>client\<close> sends the private part in connection requests; the
  \<^emph>\<open>server\<close> opens it, remembers the keys for the sender's address (encryption manager) and that the token was
  used from there (token entries), and answers with a challenge; the client returns the challenge in a response, and the server gives it a slot
  and sends keep-alives. Then payloads go both ways, encrypted packets with a sequence number that a window of 256
  numbers protects from replay; received payloads wait in a ring buffer for the user. Both sides are driven by the user's calls
  of \<^verbatim>\<open>..._update\<close>, which receives, sends and checks timeouts. Packets go through a socket or, in tests, through a
  network simulator that delays, drops and duplicates them. A client can also be connected to a server by loopback.

  \<^bold>\<open>The model.\<close> Every function of \<^verbatim>\<open>netcode.c\<close> up to the tests, and all but two of the tests, is a definition of the same name, in the option monad:
  \<open>None\<close> is a failed assertion, a read or write out of bounds, a double free, a use of a freed block. C's
  \<^verbatim>\<open>NETCODE_OK\<close> and \<^verbatim>\<open>NETCODE_ERROR\<close> are the two constructors of \<open>c_result\<close>. Structs are records, the
  union of packets is a datatype, \<^verbatim>\<open>uintN_t\<close> are words, \<^verbatim>\<open>int\<close> is \<open>int\<close>, an index that may be -1 is an
  option, and \<^verbatim>\<open>double\<close> is \<open>rat\<close> (time is compared and added, and rounding is not modelled). The statements about a
  call say that it runs to its end, \<open>runs m Q\<close>: its value is \<open>Some x\<close> with \<open>Q x\<close>. What the process shares is
  a \<open>world\<close>: the heap of numbered blocks, whose allocations may fail, random numbers, the clock, the inboxes and the sent
  datagrams of the sockets, the network simulator, and the log of the callbacks that were called.

  \<^item> \<open>Prelude\<close>: the monad, the constants, array access, searches. \<open>Memory\<close>: the allocator.
    \<open>Wire\<close>: \<^verbatim>\<open>netcode_read_*\<close>, \<^verbatim>\<open>netcode_write_*\<close>; the locale \<open>codec\<close> has the round trip that the
    formats below are composed from.
  \<^item> \<open>Addresses\<close>: \<^verbatim>\<open>netcode_parse_address\<close> and printing, for any \<^verbatim>\<open>inet_pton\<close>. \<open>Crypto\<close>: the
    calls of libsodium's AEAD, a parameter \<open>cr\<close> with the documented laws \<open>aead_laws\<close>.
  \<^item> \<open>Connect_Token\<close>, \<open>Token_Generation\<close>: the private, the challenge and the public token: what is written and sealed is
    read and opened unchanged, readers accept only well-formed tokens and never leave the buffer, and generated tokens open.
  \<^item> \<open>Replay_Protection\<close>: the window, as a \<open>duplicate_filter\<close>, refines the set of the numbers seen.
    \<open>Packets\<close>: \<^verbatim>\<open>netcode_write_packet\<close> and \<^verbatim>\<open>netcode_read_packet\<close>; round trip, totality on any datagram.
    \<open>Packet_Queue\<close>: the ring buffer, a \<open>fifo\<close>.
  \<^item> \<open>World\<close>, \<open>Sockets\<close>, \<open>Simulator\<close>: the environment; creation of sockets with every failure of the operating
    system; the simulator with its ownership of blocks (\<open>world_inv\<close>).
  \<^item> \<open>Endpoint\<close>: what client and server share: ownership of the queued payloads, what a call leaves alone
    (\<open>frame\<close>), the reading of a datagram; the locales \<open>transport\<close>, of the two ways to send, and \<open>step_system\<close>, of
    invariants along runs.
  \<^item> \<open>Client\<close> (\<^verbatim>\<open>struct netcode_client_t\<close>), \<open>Client_Invariant\<close> (\<open>client_inv\<close>, kept by every call),
    \<open>Client_Protocol\<close> (runs of a client: no call aborts), \<open>Client_Diagram\<close> (the state diagram as the code has it, which every
    call of the interface follows but the connection over loopback).
  \<^item> \<open>Encryption_Manager\<close>, a \<open>key_table\<close>, and \<open>Token_Entries\<close>; \<open>Server\<close> (\<^verbatim>\<open>struct netcode_server_t\<close>),
    \<open>Server_Invariant\<close> and \<open>Server_Packets\<close> (\<open>server_inv\<close>, kept by every handler), \<open>Server_Protocol\<close>
    (runs of a server), \<open>Server_Stall\<close> (what a late update does, and a stop with a loopback client). The entries of a \<open>key_table\<close> have
    the time of their last use: an operation leaves those of other addresses that are alive then.
  \<^item> \<open>Handshake\<close>: client and server together, the four packets that connect them. \<open>Delivery\<close>: the payloads
    of a connected pair, sent on one side and read on the other, in both directions. \<open>Admission\<close>: what a datagram has to
    carry to be given a slot, and the denial by a full server. \<open>Client_Timeout\<close>: a client that hears nothing tries
    the servers of its token one by one and gives up. \<open>Receive_Loops\<close>: the loops over a socket's datagrams end.
  \<^item> \<open>Server_Traffic\<close>, \<open>Client_Traffic\<close>: by how much a call lets the sequence numbers grow, and when the last packet
    to a client was sent. \<open>Process\<close>: many servers and clients on one heap, with or without the network simulator, as the
    \<open>tenants\<close> of a locale: a call on one of them keeps the invariants of all. \<open>Programs\<close> (what the programs share), \<open>Example_Programs\<close>
    (\<^verbatim>\<open>server.c\<close>, \<^verbatim>\<open>client.c\<close>, \<^verbatim>\<open>client_server.c\<close>) and \<open>Soak\<close> (\<^verbatim>\<open>soak.c\<close>,
    \<^verbatim>\<open>profile.c\<close>): each \<^verbatim>\<open>main\<close>, as a user of the interface that keeps to it. A program's own assertion or null
    pointer is the value \<open>Fails\<close>, told apart from an abort inside the library, \<open>None\<close>; the theorems exclude the latter.
  \<^item> \<open>Unit_Tests\<close>: the tests at the end of \<^verbatim>\<open>netcode.c\<close> that need neither a socket nor the simulator, in the order of
    \<^verbatim>\<open>netcode_test\<close>: they pass for any random bytes and leave no block behind.
  \<^item> \<open>Connection_Tests\<close>: the tests of \<^verbatim>\<open>netcode.c\<close> that connect clients with a server over the simulator. \<open>Test_Stand\<close> is
    the invariant of such a test (\<open>stand_ok\<close>, and \<open>stand_driven\<close> for a server that was updated in time) with a lemma for every step
    and loop; \<open>Connection_Safety\<close> shows that none of the 13 that are modelled aborts inside the library, whatever the simulator does with the packets, and
    \<open>Connection_Errors\<close> that the two tests without a server pass.

  \<^bold>\<open>Hypotheses.\<close> The AEAD returns a ciphertext of 16 bytes more that opens to the message under the same key, nonce and
  associated data, and opens only to messages of 16 bytes less (\<open>aead_laws\<close>; nothing is assumed of its secrecy).
  Keys have 32 bytes. The simulator's and the users' blocks are disjoint (\<open>world_inv\<close>). An update of a server comes
  before its clients' timeouts have passed since the last packet to them (\<open>server_alive\<close>); \<open>Server_Stall\<close> shows what
  happens otherwise. Loopback clients are disconnected before a server is stopped. Between two calls
  the clock may be set and datagrams may arrive (\<open>untouched\<close>, \<open>arrival\<close>). The programs send payloads of the largest
  size, so the theorems on them end before the sequence numbers need a fourth byte (\<open>largest_payload_overflows\<close>): a server gives at
  most three numbers of a slot away in a round of \<^verbatim>\<open>server.c\<close>, and 513 in a round of \<^verbatim>\<open>soak.c\<close>, where all packets go to slot 0.
  The unit tests, which do not check what they allocate, run where memory does not run out and the clock stands still (\<open>test_world\<close>); the
  connection tests run where memory does not run out, as the simulator needs it (\<open>between_tests\<close>).

  \<^bold>\<open>Fuel.\<close> The loops \<^verbatim>\<open>while (1)\<close> over received datagrams have one unit of fuel more than the datagrams in the
  inbox, each of which takes one iteration; the proofs that the receive functions run are proofs that it is enough. The loops that drain a
  queue or trim the encryption manager are structural on the number of entries. The programs' loops that read a receive queue of 256 packets
  have 257 rounds (\<open>read_rounds\<close>). The loops of a connection test that wait for something to happen have a number of rounds that is
  an argument, the same for all; a test that still waits after them is \<open>Fails\<close>. The theorem on them is for at most 10000 rounds, which keeps
  the sequence numbers below a fourth byte in the test of 32 clients, and says nothing of a test that waits longer.

  \<^bold>\<open>Not modelled.\<close> Log output and the assertion hook (text only). The clock and sleep functions (calls of the operating
  system; the library takes the time as an argument). The branches of the conditional compilation for Windows. The variants of
  the constructors that take a user's allocator, beyond the contract of \<open>Memory\<close>. Rounding of \<^verbatim>\<open>double\<close>. Overflow of
  \<^verbatim>\<open>int\<close> counters, which are bounded by the invariants. Printing and signal handlers of the programs, and the blocks
  in which \<^verbatim>\<open>soak.c\<close> keeps address strings. That programs return all memory is not stated. \<^verbatim>\<open>test_disable_timeout\<close>, which lets 1000 seconds pass between two
  updates; \<^verbatim>\<open>test_loopback\<close>, whose callbacks call the library, where the model logs a callback; that the other connection tests pass,
  which depends on the packets that the simulator drops; the vendored headers of libsodium and the ports to other languages.
\<close>

end
